(* ===== verification/Prelude.thy ===== *)
theory Prelude
  imports Main "HOL-Library.Word"
begin

unbundle bit_operations_syntax

text \<open>
  Shared vocabulary of the development.

  \<^item> Machine integers of the Rust sources: \<open>u8\<close>, \<open>u16\<close>, \<open>u32\<close>, \<open>u64\<close>, \<open>u128\<close> are words of
    that width, so \<open>+\<close>, \<open>-\<close> and \<open>*\<close> wrap as they do in a release build; \<open>usize\<close> values that
    are lengths or positions in a buffer are \<open>nat\<close>.
  \<^item> \<open>result\<close> is the outcome of a Rust function: a value (\<open>Ok\<close>), an error of the function's error
    type (\<open>Err\<close>), or a panic (\<open>Panic\<close>: \<open>unreachable!\<close>, \<open>unwrap\<close> on \<open>None\<close>, a slice out of
    range). \<open>bind_r\<close> is the question mark operator.
  \<^item> \<open>wbuf\<close> is a mutable output slice that shrinks from the front while it is written: the bytes
    written so far and the room left. \<open>emits\<close> says that a writer appends exactly the given bytes,
    or fails with a given error when they do not fit.
\<close>

named_theorems emit_rules \<open>what each encoder appends to its output slice\<close>
named_theorems parse_simps \<open>what each decoder returns on the bytes its encoder appends\<close>
named_theorems no_panic \<open>functions that cannot panic\<close>
named_theorems keep_rules \<open>methods that keep the invariant of their receiver\<close>
named_theorems consume_rules \<open>decoders return a suffix of their input\<close>

subsection \<open>Machine integers\<close>

type_synonym u8 = "8 word"
type_synonym u16 = "16 word"
type_synonym u32 = "32 word"
type_synonym u64 = "64 word"
type_synonym u128 = "128 word"
type_synonym bytes = "u8 list"

text \<open>\<open>u64 as usize\<close> on a 64-bit target keeps the value.\<close>

abbreviation as_usize :: "u64 \<Rightarrow> nat" where
  "as_usize n \<equiv> unat n"

text \<open>\<open>usize as u64\<close>; lengths of buffers are below \<open>2 ^ 64\<close>.\<close>

abbreviation as_u64 :: "nat \<Rightarrow> u64" where
  "as_u64 n \<equiv> word_of_nat n"

definition saturating_sub :: "'a::len word \<Rightarrow> 'a word \<Rightarrow> 'a word" where
  "saturating_sub a b = (if a < b then 0 else a - b)"

definition saturating_add :: "'a::len word \<Rightarrow> 'a word \<Rightarrow> 'a word" where
  "saturating_add a b = (if unat a + unat b < 2 ^ LENGTH('a) then a + b else - 1)"

definition checked_add :: "'a::len word \<Rightarrow> 'a word \<Rightarrow> 'a word option" where
  "checked_add a b = (if unat a + unat b < 2 ^ LENGTH('a) then Some (a + b) else None)"

definition checked_shl :: "'a::len word \<Rightarrow> nat \<Rightarrow> 'a word option" where
  "checked_shl a n = (if n < LENGTH('a) then Some (push_bit n a) else None)"

lemma unat_saturating_sub: "unat (saturating_sub a b) = unat a - unat b"
  by (auto simp: saturating_sub_def unat_sub word_le_nat_alt word_less_nat_alt not_less)

lemma unat_saturating_add:
  fixes a b :: "'a::len word"
  shows "unat (saturating_add a b) = min (unat a + unat b) (2 ^ LENGTH('a) - 1)"
proof (cases "unat a + unat b < 2 ^ LENGTH('a)")
  case True
  then have "unat (a + b) = unat a + unat b"
    by (simp add: unat_word_ariths)
  with True show ?thesis by (simp add: saturating_add_def)
next
  case False
  then show ?thesis
    by (simp add: saturating_add_def unsigned_minus_1_eq_mask mask_eq_exp_minus_1)
qed

lemma checked_add_Some: "checked_add a b = Some c \<Longrightarrow> unat c = unat a + unat b"
  by (auto simp: checked_add_def unat_word_ariths split: if_splits)

lemma unat_add_small:
  fixes a b :: "'a::len word"
  shows "unat a + unat b < 2 ^ LENGTH('a) \<Longrightarrow> unat (a + b) = unat a + unat b"
  by (simp add: unat_word_ariths)

lemma unat_mult_small:
  fixes a b :: "'a::len word"
  shows "unat a * unat b < 2 ^ LENGTH('a) \<Longrightarrow> unat (a * b) = unat a * unat b"
  by (simp add: unat_word_ariths)

lemma unat_Suc_small:
  fixes a b :: "'a::len word"
  assumes "a < b"
  shows "unat (a + 1) = Suc (unat a)"
proof -
  from assms have "unat a < unat b" by (simp add: word_less_nat_alt)
  moreover have "unat b < 2 ^ LENGTH('a)" by (rule unsigned_less)
  ultimately have "unat a + 1 < 2 ^ LENGTH('a)" by linarith
  then show ?thesis by (simp add: unat_word_ariths)
qed

lemma unat_ucast_up:
  fixes x :: "'a::len word"
  assumes "LENGTH('a) \<le> LENGTH('b::len)"
  shows "unat (ucast x :: 'b word) = unat x"
proof -
  have "unat x < 2 ^ LENGTH('a)" by (rule unsigned_less)
  also have "\<dots> \<le> 2 ^ LENGTH('b)" using assms by simp
  finally show ?thesis by (simp add: unsigned_ucast_eq take_bit_nat_eq_self)
qed

lemma bit_lt:
  fixes x :: "'a::len word"
  assumes "unat x < 2 ^ k" and "bit x i"
  shows "i < k"
proof -
  from assms(2) have "bit (unat x) i" by (simp add: bit_simps)
  moreover from assms(1) have "take_bit k (unat x) = unat x" by (simp add: take_bit_nat_eq_self)
  ultimately show ?thesis by (metis bit_take_bit_iff)
qed

lemma unat_u64_bound: "unat (x :: u64) < 18446744073709551616"
  using unsigned_less [of x] by simp

lemma unat_of_nat_u64: "n < 18446744073709551616 \<Longrightarrow> unat (as_u64 n) = n"
  by (simp add: unat_of_nat)

subsection \<open>Results\<close>

datatype ('a, 'e) result = Ok 'a | Err 'e | Panic

fun bind_r :: "('a, 'e) result \<Rightarrow> ('a \<Rightarrow> ('b, 'e) result) \<Rightarrow> ('b, 'e) result" where
  "bind_r (Ok x) f = f x"
| "bind_r (Err e) f = Err e"
| "bind_r Panic f = Panic"

text \<open>\<open>map_err\<close>, and the error conversion that the question mark operator inserts.\<close>

fun map_err :: "('e \<Rightarrow> 'f) \<Rightarrow> ('a, 'e) result \<Rightarrow> ('a, 'f) result" where
  "map_err g (Ok x) = Ok x"
| "map_err g (Err e) = Err (g e)"
| "map_err g Panic = Panic"

text \<open>\<open>Option::ok_or\<close> and \<open>Option::unwrap\<close>.\<close>

definition ok_or :: "'a option \<Rightarrow> 'e \<Rightarrow> ('a, 'e) result" where
  "ok_or x e = (case x of None \<Rightarrow> Err e | Some v \<Rightarrow> Ok v)"

definition unwrap :: "'a option \<Rightarrow> ('a, 'e) result" where
  "unwrap x = (case x of None \<Rightarrow> Panic | Some v \<Rightarrow> Ok v)"

text \<open>A sum whose summands may fail, evaluated from the left.\<close>

fun sum_r :: "(nat, 'e) result list \<Rightarrow> (nat, 'e) result" where
  "sum_r [] = Ok 0"
| "sum_r (x # xs) = bind_r x (\<lambda>a. bind_r (sum_r xs) (\<lambda>b. Ok (a + b)))"

lemma bind_r_cong [fundef_cong]:
  "m = m' \<Longrightarrow> (\<And>x. m' = Ok x \<Longrightarrow> f x = f' x) \<Longrightarrow> bind_r m f = bind_r m' f'"
  by (cases m') auto

lemma bind_r_Ok_iff: "bind_r m f = Ok y \<longleftrightarrow> (\<exists>x. m = Ok x \<and> f x = Ok y)"
  by (cases m) auto

lemma bind_pair_Ok_iff:
  "bind_r m (\<lambda>(a, b). f a b) = Ok y \<longleftrightarrow> (\<exists>a b. m = Ok (a, b) \<and> f a b = Ok y)"
  by (cases m) auto

lemma bind_r_Err_iff: "bind_r m f = Err e \<longleftrightarrow> m = Err e \<or> (\<exists>x. m = Ok x \<and> f x = Err e)"
  by (cases m) auto

lemma bind_r_Panic_iff: "bind_r m f = Panic \<longleftrightarrow> m = Panic \<or> (\<exists>x. m = Ok x \<and> f x = Panic)"
  by (cases m) auto

lemma bind_r_assoc: "bind_r (bind_r m f) g = bind_r m (\<lambda>x. bind_r (f x) g)"
  by (cases m) auto

lemma map_err_Ok_iff [simp]: "map_err g m = Ok x \<longleftrightarrow> m = Ok x"
  by (cases m) auto

lemma map_err_Panic_iff [simp]: "map_err g m = Panic \<longleftrightarrow> m = Panic"
  by (cases m) auto

lemma ok_or_simps [simp]: "ok_or (Some v) e = Ok v" "ok_or None e = Err e"
  by (auto simp: ok_or_def)

lemma ok_or_no_panic [simp]: "ok_or x e \<noteq> Panic"
  by (auto simp: ok_or_def split: option.splits)

lemma ok_or_Ok_iff: "ok_or x e = Ok v \<longleftrightarrow> x = Some v"
  by (auto simp: ok_or_def split: option.splits)

lemma unwrap_simps [simp]: "unwrap (Some v) = Ok v" "unwrap None = Panic"
  by (auto simp: unwrap_def)

lemma no_panic_bind [no_panic]:
  "m \<noteq> Panic \<Longrightarrow> (\<And>x. m = Ok x \<Longrightarrow> f x \<noteq> Panic) \<Longrightarrow> bind_r m f \<noteq> Panic"
  by (cases m) auto

subsection \<open>Methods that change their receiver\<close>

text \<open>A method on \<open>&mut self\<close> returns its result with the receiver as it left it, also when it
  fails: what was changed before an early return stays changed. \<open>bind_s\<close> is the question mark
  operator in such a method.\<close>

type_synonym ('a, 'e, 's) meth = "'s \<Rightarrow> ('a, 'e) result \<times> 's"

definition bind_s :: "('a, 'e, 's) meth \<Rightarrow> ('a \<Rightarrow> ('b, 'e, 's) meth) \<Rightarrow> ('b, 'e, 's) meth" where
  "bind_s m f s =
     (case m s of
        (Ok x, s') \<Rightarrow> f x s'
      | (Err e, s') \<Rightarrow> (Err e, s')
      | (Panic, s') \<Rightarrow> (Panic, s'))"

definition lift_s :: "('s \<Rightarrow> ('a, 'e) result) \<Rightarrow> ('a, 'e, 's) meth" where
  "lift_s f s = (f s, s)"

definition update_s :: "('s \<Rightarrow> 's) \<Rightarrow> (unit, 'e, 's) meth" where
  "update_s f s = (Ok (), f s)"

lemma bind_s_Ok_iff: "bind_s m f s = (Ok y, t) \<longleftrightarrow> (\<exists>x s'. m s = (Ok x, s') \<and> f x s' = (Ok y, t))"
  by (auto simp: bind_s_def split: prod.splits result.splits)

lemma lift_s_iff [simp]: "lift_s f s = (r, t) \<longleftrightarrow> f s = r \<and> t = s"
  by (auto simp: lift_s_def)

lemma update_s_iff [simp]: "update_s f s = (r, t) \<longleftrightarrow> r = Ok () \<and> t = f s"
  by (auto simp: update_s_def)

text \<open>A method that keeps a property of its receiver on every outcome.\<close>

definition keeps :: "('s \<Rightarrow> bool) \<Rightarrow> ('a, 'e, 's) meth \<Rightarrow> bool" where
  "keeps P f \<longleftrightarrow> (\<forall>s. P s \<longrightarrow> P (snd (f s)))"

lemma keepsD: "keeps P f \<Longrightarrow> P s \<Longrightarrow> f s = (r, t) \<Longrightarrow> P t"
  unfolding keeps_def by (metis snd_conv)

lemma keeps_bind: "keeps P m \<Longrightarrow> (\<And>x. keeps P (f x)) \<Longrightarrow> keeps P (bind_s m f)"
  unfolding keeps_def bind_s_def
  by (auto split: prod.splits result.splits)

lemma keeps_lift [keep_rules]: "keeps P (lift_s f)"
  by (simp add: keeps_def lift_s_def)

lemma keeps_const [keep_rules]: "keeps P (\<lambda>s. (r, s))"
  by (simp add: keeps_def)

subsection \<open>Output slices\<close>

record wbuf =
  written :: bytes
  room :: nat

definition put_slice :: "bytes \<Rightarrow> wbuf \<Rightarrow> wbuf" where
  "put_slice bs w = w\<lparr>written := written w @ bs, room := room w - length bs\<rparr>"

text \<open>A fresh slice of the given length.\<close>

definition new_wbuf :: "nat \<Rightarrow> wbuf" where
  "new_wbuf n = \<lparr>written = [], room = n\<rparr>"

type_synonym 'e writer = "wbuf \<Rightarrow> (nat \<times> wbuf, 'e) result"

text \<open>A run of writes \<open>b.write_x(..)?; b.write_y(..)?;\<close> on one slice.\<close>

fun write_seq :: "'e writer list \<Rightarrow> wbuf \<Rightarrow> (wbuf, 'e) result" where
  "write_seq [] w = Ok w"
| "write_seq (f # fs) w = bind_r (f w) (\<lambda>(_, w'). write_seq fs w')"

text \<open>\<open>let len = b.len(); \<dots> Ok(len - b.len())\<close> around such a run.\<close>

definition write_all :: "'e writer list \<Rightarrow> 'e writer" where
  "write_all fs w = bind_r (write_seq fs w) (\<lambda>w'. Ok (room w - room w', w'))"

definition emits :: "'e \<Rightarrow> 'e writer \<Rightarrow> bytes \<Rightarrow> bool" where
  "emits e f bs \<longleftrightarrow>
     (\<forall>w. f w = (if length bs \<le> room w then Ok (length bs, put_slice bs w) else Err e))"

lemma put_slice_simps [simp]:
  "room (put_slice bs w) = room w - length bs"
  "written (put_slice bs w) = written w @ bs"
  "put_slice [] w = w"
  by (simp_all add: put_slice_def)

lemma put_slice_append: "put_slice bs (put_slice as w) = put_slice (as @ bs) w"
  by (simp add: put_slice_def)

lemma emitsD:
  "emits e f bs \<Longrightarrow> length bs \<le> room w \<Longrightarrow> f w = Ok (length bs, put_slice bs w)"
  "emits e f bs \<Longrightarrow> room w < length bs \<Longrightarrow> f w = Err e"
  by (simp_all add: emits_def)

lemma write_seq_emits:
  assumes "list_all2 (emits e) fs bss"
  shows "write_seq fs w =
    (if length (concat bss) \<le> room w then Ok (put_slice (concat bss) w) else Err e)"
  using assms
proof (induction fs bss arbitrary: w rule: list_all2_induct)
  case Nil
  then show ?case by simp
next
  case (Cons f fs bs bss)
  show ?case
  proof (cases "length bs \<le> room w")
    case True
    with Cons.hyps(1) have "f w = Ok (length bs, put_slice bs w)" by (rule emitsD)
    with True show ?thesis by (auto simp: Cons.IH put_slice_append)
  next
    case False
    with Cons.hyps(1) have "f w = Err e" by (simp add: emitsD)
    with False show ?thesis by simp
  qed
qed

lemma emits_write_all:
  assumes "list_all2 (emits e) fs bss"
  shows "emits e (write_all fs) (concat bss)"
  using write_seq_emits [OF assms] by (simp add: emits_def write_all_def)

lemma write_seq_append:
  "write_seq (fs @ gs) w = bind_r (write_seq fs w) (write_seq gs)"
proof (induction fs arbitrary: w)
  case Nil
  then show ?case by simp
next
  case (Cons f fs)
  then show ?case by (cases "f w") auto
qed

lemma emits_write_seq:
  assumes "emits e (write_all ws) bs"
  shows "write_seq ws w = (if length bs \<le> room w then Ok (put_slice bs w) else Err e)"
proof -
  have "write_all ws w = (if length bs \<le> room w then Ok (length bs, put_slice bs w) else Err e)"
    using assms by (simp add: emits_def)
  then show ?thesis by (cases "write_seq ws w") (auto simp: write_all_def split: if_splits)
qed

lemma write_seq_concat:
  assumes "list_all2 (\<lambda>ws bs. emits e (write_all ws) bs) wss bss"
  shows "write_seq (concat wss) w =
    (if length (concat bss) \<le> room w then Ok (put_slice (concat bss) w) else Err e)"
  using assms
proof (induction wss bss arbitrary: w rule: list_all2_induct)
  case (Cons ws wss bs bss)
  show ?case
    by (simp add: write_seq_append emits_write_seq [OF Cons.hyps(1)] Cons.IH put_slice_append del: length_concat) auto
qed simp

lemma emits_concat:
  assumes "list_all2 (\<lambda>ws bs. emits e (write_all ws) bs) wss bss"
  shows "emits e (write_all (concat wss)) (concat bss)"
  using write_seq_concat [OF assms] by (simp add: emits_def write_all_def)

lemma emits_write_list:
  "list_all2 (emits e) ws bss \<Longrightarrow> concat bss = bs \<Longrightarrow> emits e (write_all ws) bs"
  using emits_write_all [of e ws bss] by simp

lemma emits_none: "emits e (write_all []) []"
  by (simp add: emits_def write_all_def)

subsection \<open>Input slices\<close>

type_synonym ('a, 'e) reader = "bytes \<Rightarrow> ('a \<times> bytes, 'e) result"

text \<open>A decoder that returns a suffix of its input.\<close>

definition consumes :: "('a, 'e) reader \<Rightarrow> bool" where
  "consumes f \<longleftrightarrow> (\<forall>b v r. f b = Ok (v, r) \<longrightarrow> (\<exists>p. b = p @ r))"

lemma consumesD: "consumes f \<Longrightarrow> f b = Ok (v, r) \<Longrightarrow> \<exists>p. b = p @ r"
  by (auto simp: consumes_def)

lemma consumes_length: "consumes f \<Longrightarrow> f b = Ok (v, r) \<Longrightarrow> length r \<le> length b"
  by (auto dest: consumesD)

lemma consumes_bind [consume_rules]:
  assumes "consumes f" and "\<And>v. consumes (g v)"
  shows "consumes (\<lambda>b. bind_r (f b) (\<lambda>(v, r). g v r))"
  using assms unfolding consumes_def by (fastforce simp: bind_r_Ok_iff)

lemma consumes_Ok [consume_rules]: "consumes (\<lambda>b. Ok (v, b))"
  by (simp add: consumes_def)

lemma consumes_Err [consume_rules]: "consumes (\<lambda>b. Err e)"
  by (simp add: consumes_def)

lemma consumes_if [consume_rules]:
  "consumes f \<Longrightarrow> consumes g \<Longrightarrow> consumes (\<lambda>b. if P b then f b else g b)"
  by (simp add: consumes_def)

lemma ex_append_drop [simp]: "\<exists>p. b = p @ drop n b"
  by (metis append_take_drop_id)

lemma ex_append_drop_Suc [simp]: "\<exists>p. b = p @ drop (Suc n) b"
  by (rule ex_append_drop)

subsection \<open>Lists\<close>

lemma drop_length_append: "length p = n \<Longrightarrow> drop n (p @ r) = r"
  by simp

text \<open>\<open>Iterator::min\<close>, and the removal of the first element with a property.\<close>

definition min_opt :: "'a::linorder list \<Rightarrow> 'a option" where
  "min_opt xs = (case xs of [] \<Rightarrow> None | x # xs \<Rightarrow> Some (fold min xs x))"

fun remove_first :: "('a \<Rightarrow> bool) \<Rightarrow> 'a list \<Rightarrow> 'a list" where
  "remove_first P [] = []"
| "remove_first P (x # xs) = (if P x then xs else x # remove_first P xs)"

lemma min_opt_None [simp]: "min_opt xs = None \<longleftrightarrow> xs = []"
  by (simp add: min_opt_def split: list.splits)

lemma min_opt_Some: "min_opt xs = Some m \<longleftrightarrow> m \<in> set xs \<and> (\<forall>x \<in> set xs. m \<le> x)"
proof (cases xs)
  case (Cons y ys)
  then have "min_opt xs = Some (Min (set xs))" by (simp add: min_opt_def Min.set_eq_fold [symmetric])
  moreover have "Min (set xs) = m \<longleftrightarrow> m \<in> set xs \<and> (\<forall>x \<in> set xs. m \<le> x)"
    using Cons by (intro Min_eq_iff) auto
  ultimately show ?thesis by simp
qed (simp add: min_opt_def)

lemma length_remove_first:
  "length (remove_first P xs) = (if find P xs = None then length xs else length xs - 1)"
  by (induction xs) (auto simp: find_None_iff Suc_diff_1 dest: length_pos_if_in_set split: if_splits)

lemma length_filter_strict:
  assumes "\<And>x. x \<in> set xs \<Longrightarrow> P x \<Longrightarrow> Q x" and "x \<in> set xs" and "Q x" and "\<not> P x"
  shows "length (filter P xs) < length (filter Q xs)"
proof -
  have "filter P xs = filter P (filter Q xs)" using assms(1) by (auto intro: filter_cong)
  also have "length \<dots> < length (filter Q xs)"
    using assms(2-4) by (intro length_filter_less [of x]) auto
  finally show ?thesis .
qed

lemma set_remove_first: "set (remove_first P xs) \<subseteq> set xs"
  by (induction xs) auto

lemma remove_first_distinct:
  "distinct (map f xs) \<Longrightarrow> remove_first (\<lambda>x. f x = k) xs = filter (\<lambda>x. f x \<noteq> k) xs"
proof (induction xs)
  case (Cons x xs)
  then have "f x = k \<Longrightarrow> filter (\<lambda>x. f x \<noteq> k) xs = xs" by (intro filter_True) (auto, metis imageI)
  with Cons show ?case by auto
qed simp

lemma take_length_append: "length p = n \<Longrightarrow> take n (p @ r) = p"
  by simp

end
