(* ===== verification/Errors.thy ===== *)
theory Errors
  imports Prelude
begin

text \<open>
  The transport error type (src/error.rs): the error enumeration, its wire value and its C error
  number.
\<close>

datatype error =
    NoError
  | InternalError
  | ConnectionRefused
  | FlowControlError
  | StreamLimitError
  | StreamStateError
  | FinalSizeError
  | FrameEncodingError
  | TransportParameterError
  | ConnectionIdLimitError
  | ProtocolViolation
  | InvalidToken
  | ApplicationError
  | CryptoBufferExceeded
  | KeyUpdateError
  | AeadLimitReached
  | NoViablePath
  | CryptoError u8
  | MultipathProtocolViolation
  | Done
  | BufferTooShort
  | UnknownVersion
  | InvalidPacket
  | InvalidState string
  | InvalidOperation string
  | InvalidConfig string
  | ExpiredToken
  | CryptoFail
  | TlsFail string
  | StreamStopped u64
  | StreamReset u64
  | IoError string

type_synonym 'a res = "('a, error) result"

fun error_to_wire :: "error \<Rightarrow> u64" where
  "error_to_wire NoError = 0x0"
| "error_to_wire InternalError = 0x1"
| "error_to_wire ConnectionRefused = 0x2"
| "error_to_wire FlowControlError = 0x3"
| "error_to_wire StreamLimitError = 0x4"
| "error_to_wire StreamStateError = 0x5"
| "error_to_wire FinalSizeError = 0x6"
| "error_to_wire FrameEncodingError = 0x7"
| "error_to_wire TransportParameterError = 0x8"
| "error_to_wire ConnectionIdLimitError = 0x9"
| "error_to_wire ProtocolViolation = 0x0a"
| "error_to_wire InvalidToken = 0x0b"
| "error_to_wire ApplicationError = 0x0c"
| "error_to_wire CryptoBufferExceeded = 0x0d"
| "error_to_wire KeyUpdateError = 0x0e"
| "error_to_wire AeadLimitReached = 0x0f"
| "error_to_wire NoViablePath = 0x10"
| "error_to_wire (CryptoError v) = ucast v"
| "error_to_wire MultipathProtocolViolation = 0x1001d76d3ded42f3"
| "error_to_wire _ = 0x0"

fun error_to_errno :: "error \<Rightarrow> int" where
  "error_to_errno NoError = 0"
| "error_to_errno InternalError = -1"
| "error_to_errno ConnectionRefused = -2"
| "error_to_errno FlowControlError = -3"
| "error_to_errno StreamLimitError = -4"
| "error_to_errno StreamStateError = -5"
| "error_to_errno FinalSizeError = -6"
| "error_to_errno FrameEncodingError = -7"
| "error_to_errno TransportParameterError = -8"
| "error_to_errno ConnectionIdLimitError = -9"
| "error_to_errno ProtocolViolation = -10"
| "error_to_errno InvalidToken = -11"
| "error_to_errno ApplicationError = -12"
| "error_to_errno CryptoBufferExceeded = -13"
| "error_to_errno KeyUpdateError = -14"
| "error_to_errno AeadLimitReached = -15"
| "error_to_errno NoViablePath = -16"
| "error_to_errno (CryptoError _) = -17"
| "error_to_errno MultipathProtocolViolation = -18"
| "error_to_errno Done = -100"
| "error_to_errno BufferTooShort = -101"
| "error_to_errno UnknownVersion = -102"
| "error_to_errno InvalidPacket = -103"
| "error_to_errno (InvalidState _) = -104"
| "error_to_errno (InvalidOperation _) = -105"
| "error_to_errno (InvalidConfig _) = -106"
| "error_to_errno ExpiredToken = -107"
| "error_to_errno CryptoFail = -108"
| "error_to_errno (TlsFail _) = -109"
| "error_to_errno (StreamStopped _) = -110"
| "error_to_errno (StreamReset _) = -111"
| "error_to_errno (IoError _) = -112"

subsection \<open>Properties\<close>

text \<open>The C interface can tell the outcome from the number: only \<open>NoError\<close> is zero, every other
  error is negative, and errors that differ in more than the value they carry have different
  numbers.\<close>

definition same_kind :: "error \<Rightarrow> error \<Rightarrow> bool" where
  "same_kind a b = (case (a, b) of
       (CryptoError _, CryptoError _) \<Rightarrow> True
     | (InvalidState _, InvalidState _) \<Rightarrow> True
     | (InvalidOperation _, InvalidOperation _) \<Rightarrow> True
     | (InvalidConfig _, InvalidConfig _) \<Rightarrow> True
     | (TlsFail _, TlsFail _) \<Rightarrow> True
     | (StreamStopped _, StreamStopped _) \<Rightarrow> True
     | (StreamReset _, StreamReset _) \<Rightarrow> True
     | (IoError _, IoError _) \<Rightarrow> True
     | _ \<Rightarrow> a = b)"

theorem errno_distinguishes:
  "(error_to_errno a = 0 \<longleftrightarrow> a = NoError) \<and> error_to_errno a \<le> 0
   \<and> (error_to_errno a = error_to_errno b \<longleftrightarrow> same_kind a b)"
proof (intro conjI)
  show "error_to_errno a = 0 \<longleftrightarrow> a = NoError" "error_to_errno a \<le> 0" by (cases a; simp)+
  show "error_to_errno a = error_to_errno b \<longleftrightarrow> same_kind a b"
    by (cases a; cases b; simp add: same_kind_def)
qed

end
