(* ===== verification/Codec.thy ===== *)
theory Codec
  imports Errors
begin

unbundle bit_operations_syntax

text \<open>
  The wire codec (src/codec.rs): big-endian integers, QUIC variable-length integers, byte slices
  and IP addresses, written to a shrinking output slice and read from a shrinking input slice. A
  reader takes the remaining input and returns the value with what is left; a writer takes the
  output slice and returns the number of bytes with the slice behind them.

  The locale \<open>wire_codec\<close> is the contract of a writer and its reader; it is interpreted below for
  every pair of the file.
\<close>

subsection \<open>Big-endian bytes of a word\<close>

fun be_bytes :: "nat \<Rightarrow> 'a::len word \<Rightarrow> bytes" where
  "be_bytes 0 x = []"
| "be_bytes (Suc k) x = be_bytes k (drop_bit 8 x) @ [ucast x]"

definition be_word :: "bytes \<Rightarrow> 'a::len word" where
  "be_word bs = foldl (\<lambda>acc b. push_bit 8 acc OR ucast b) 0 bs"

subsection \<open>Lengths of variable-length integers\<close>

definition VINT_MAX :: u64 where
  "VINT_MAX = 4611686018427387903"

definition decode_varint_len :: "u8 \<Rightarrow> nat res" where
  "decode_varint_len first =
     (let t = drop_bit 6 first in
      if t = 0 then Ok 1
      else if t = 1 then Ok 2
      else if t = 2 then Ok 4
      else if t = 3 then Ok 8
      else Panic)"

definition encode_varint_len :: "u64 \<Rightarrow> nat res" where
  "encode_varint_len n =
     (if n \<le> 63 then Ok 1
      else if n \<le> 16383 then Ok 2
      else if n \<le> 1073741823 then Ok 4
      else if n \<le> 4611686018427387903 then Ok 8
      else Panic)"

subsection \<open>Encoder for \<open>&mut [u8]\<close>\<close>

definition write_u8 :: "u8 \<Rightarrow> error writer" where
  "write_u8 n w =
     (if room w < 1 then Err BufferTooShort else Ok (1, put_slice (be_bytes 1 n) w))"

definition write_u16 :: "u16 \<Rightarrow> error writer" where
  "write_u16 n w =
     (if room w < 2 then Err BufferTooShort else Ok (2, put_slice (be_bytes 2 n) w))"

definition write_u24 :: "u32 \<Rightarrow> error writer" where
  "write_u24 n w =
     (if room w < 3 then Err BufferTooShort
      else Ok (3, put_slice (be_bytes 2 (ucast (n AND 0xFFFF) :: u16))
                   (put_slice (be_bytes 1 (ucast (drop_bit 16 (n AND 0x00FF0000)) :: u8)) w)))"

definition write_u32 :: "u32 \<Rightarrow> error writer" where
  "write_u32 n w =
     (if room w < 4 then Err BufferTooShort else Ok (4, put_slice (be_bytes 4 n) w))"

definition write_u64 :: "u64 \<Rightarrow> error writer" where
  "write_u64 n w =
     (if room w < 8 then Err BufferTooShort else Ok (8, put_slice (be_bytes 8 n) w))"

definition write_varint_with_len :: "u64 \<Rightarrow> nat \<Rightarrow> error writer" where
  "write_varint_with_len n len w =
     (if room w < len then Err BufferTooShort
      else if len = 1 then Ok (len, put_slice (be_bytes 1 (ucast n :: u8)) w)
      else if len = 2 then Ok (len, put_slice (be_bytes 2 ((ucast n :: u16) OR 0x4000)) w)
      else if len = 4 then Ok (len, put_slice (be_bytes 4 ((ucast n :: u32) OR 0x80000000)) w)
      else if len = 8 then Ok (len, put_slice (be_bytes 8 (n OR 0xc000000000000000)) w)
      else Panic)"

definition write_varint :: "u64 \<Rightarrow> error writer" where
  "write_varint n w = bind_r (encode_varint_len n) (\<lambda>len. write_varint_with_len n len w)"

definition write_bytes :: "bytes \<Rightarrow> error writer" where
  "write_bytes src w =
     (if room w < length src then Err BufferTooShort else Ok (length src, put_slice src w))"

text \<open>Addresses are given by their octets (\<open>addr.octets()\<close>): 4 or 16 bytes.\<close>

definition write_ipv4_addr :: "bytes \<Rightarrow> error writer" where
  "write_ipv4_addr octets w =
     (if room w < 4 then Err BufferTooShort else Ok (4, put_slice octets w))"

definition write_ipv6_addr :: "bytes \<Rightarrow> error writer" where
  "write_ipv6_addr octets w =
     (if room w < 16 then Err BufferTooShort else Ok (16, put_slice octets w))"

subsection \<open>Decoder for \<open>&[u8]\<close>\<close>

definition read_u8 :: "(u8, error) reader" where
  "read_u8 b =
     (if length b < 1 then Err BufferTooShort else Ok (be_word (take 1 b), drop 1 b))"

definition read_u16 :: "(u16, error) reader" where
  "read_u16 b =
     (if length b < 2 then Err BufferTooShort else Ok (be_word (take 2 b), drop 2 b))"

definition read_u24 :: "(u32, error) reader" where
  "read_u24 b =
     (if length b < 3 then Err BufferTooShort
      else let n = ucast (be_word (take 2 b) :: u16) :: u32;
               n = push_bit 8 n;
               n = n + ucast (be_word (take 1 (drop 2 b)) :: u8)
           in Ok (n, drop 3 b))"

definition read_u32 :: "(u32, error) reader" where
  "read_u32 b =
     (if length b < 4 then Err BufferTooShort else Ok (be_word (take 4 b), drop 4 b))"

definition read_u64 :: "(u64, error) reader" where
  "read_u64 b =
     (if length b < 8 then Err BufferTooShort else Ok (be_word (take 8 b), drop 8 b))"

definition read_varint :: "(u64, error) reader" where
  "read_varint b =
     (if length b < 1 then Err BufferTooShort
      else bind_r (decode_varint_len (b ! 0)) (\<lambda>len.
        if length b < len then Err BufferTooShort
        else if len = 1 then bind_r (read_u8 b) (\<lambda>(v, b). Ok (ucast v, b))
        else if len = 2 then bind_r (read_u16 b) (\<lambda>(v, b). Ok (ucast (v AND 0x3fff), b))
        else if len = 4 then bind_r (read_u32 b) (\<lambda>(v, b). Ok (ucast (v AND 0x3fffffff), b))
        else if len = 8 then bind_r (read_u64 b) (\<lambda>(v, b). Ok (v AND 0x3fffffffffffffff, b))
        else Panic))"

definition read_bytes :: "nat \<Rightarrow> (bytes, error) reader" where
  "read_bytes len b =
     (if length b < len then Err BufferTooShort else Ok (take len b, drop len b))"

definition read_with_varint_length :: "(bytes, error) reader" where
  "read_with_varint_length b = bind_r (read_varint b) (\<lambda>(len, b). read_bytes (as_usize len) b)"

definition read_with_u8_length :: "(bytes, error) reader" where
  "read_with_u8_length b = bind_r (read_u8 b) (\<lambda>(len, b). read_bytes (unat len) b)"

definition skip_bytes :: "nat \<Rightarrow> bytes \<Rightarrow> bytes res" where
  "skip_bytes len b = (if length b < len then Err BufferTooShort else Ok (drop len b))"

definition read_ipv4_addr :: "(bytes, error) reader" where
  "read_ipv4_addr b = (if length b < 4 then Err BufferTooShort else Ok (take 4 b, drop 4 b))"

definition read_ipv6_addr :: "(bytes, error) reader" where
  "read_ipv6_addr b = (if length b < 16 then Err BufferTooShort else Ok (take 16 b, drop 16 b))"

subsection \<open>Big-endian round trips\<close>

lemma length_be_bytes [simp]: "length (be_bytes k x) = k"
  by (induction k arbitrary: x) auto

lemma be_word_snoc: "be_word (bs @ [b]) = (push_bit 8 (be_word bs) OR ucast b)"
  by (simp add: be_word_def)

lemma be_word_Nil [simp]: "be_word [] = 0"
  by (simp add: be_word_def)

lemma be_word_be_bytes:
  fixes x :: "'a::len word"
  shows "(be_word (be_bytes k x) :: 'a word) = take_bit (8 * k) x"
proof (induction k arbitrary: x)
  case 0
  then show ?case by simp
next
  case (Suc k)
  show ?case
    by (rule bit_word_eqI)
      (auto simp: be_word_snoc Suc.IH bit_simps not_less elim: le_SucE dest: bit_imp_le_length)
qed

lemma bit_be_word: "bit (be_word bs :: 'a::len word) i \<Longrightarrow> i < 8 * length bs"
proof (induction bs arbitrary: i rule: rev_induct)
  case (snoc b bs)
  show ?case
  proof (cases "i < 8")
    case False
    with snoc.prems have "bit (be_word bs :: 'a word) (i - 8)"
      by (auto simp: be_word_snoc bit_simps dest: bit_imp_le_length)
    then have "i - 8 < 8 * length bs" by (rule snoc.IH)
    then show ?thesis by simp
  qed simp
qed simp

lemma be_bytes_be_word:
  assumes "8 * length bs \<le> LENGTH('a::len)"
  shows "be_bytes (length bs) (be_word bs :: 'a word) = bs"
  using assms
proof (induction bs rule: rev_induct)
  case (snoc b bs)
  let ?x = "be_word bs :: 'a word"
  have small: "bit ?x i \<Longrightarrow> i + 8 < LENGTH('a)" for i
    using bit_be_word [of bs i, where ?'a = 'a] snoc.prems by simp
  have "drop_bit 8 (push_bit 8 ?x OR ucast b) = ?x"
    by (rule bit_word_eqI) (auto simp: bit_simps add.commute dest: small bit_imp_le_length)
  moreover have "(ucast (push_bit 8 ?x OR ucast b) :: u8) = b"
    using snoc.prems by (intro bit_word_eqI) (auto simp: bit_simps)
  ultimately show ?case using snoc by (simp add: be_word_snoc)
qed simp

lemma be_bytes_ucast:
  fixes x :: "'a::len word"
  assumes "8 * k \<le> LENGTH('b::len)" and "LENGTH('b) \<le> LENGTH('a)"
  shows "be_bytes k (ucast x :: 'b word) = be_bytes k x"
  using assms(1)
proof (induction k)
  case 0
  then show ?case by simp
next
  case (Suc k)
  have gen: "8 * k + n \<le> LENGTH('b) \<Longrightarrow>
      be_bytes k (drop_bit n (ucast x :: 'b word)) = be_bytes k (drop_bit n x)" for n k
  proof (induction k arbitrary: n)
    case (Suc k)
    have "(ucast (drop_bit n (ucast x :: 'b word)) :: u8) = ucast (drop_bit n x)"
      using Suc.prems assms(2) by (intro bit_word_eqI) (auto simp: bit_simps)
    with Suc.IH [of "n + 8"] Suc.prems show ?case by (simp add: add.commute)
  qed simp
  have "(ucast (ucast x :: 'b word) :: u8) = ucast x"
    using Suc.prems assms(2) by (intro bit_word_eqI) (auto simp: bit_simps)
  with gen [of k 8] Suc.prems show ?case by simp
qed

subsection \<open>The contract of a writer and its reader\<close>

text \<open>
  \<open>wire x\<close> is the encoding of \<open>x\<close> and \<open>valid\<close> the values the writer is meant for. The writer
  appends the encoding or reports a short buffer; the reader recovers the value from it whatever
  follows, reports a short buffer on a truncated encoding, consumes from the front and never
  panics.
\<close>

locale wire_codec =
  fixes enc :: "'a \<Rightarrow> error writer"
    and dec :: "('a, error) reader"
    and wire :: "'a \<Rightarrow> bytes"
    and valid :: "'a \<Rightarrow> bool"
  assumes enc_emits: "valid x \<Longrightarrow> emits BufferTooShort (enc x) (wire x)"
    and dec_wire: "valid x \<Longrightarrow> dec (wire x @ r) = Ok (x, r)"
    and dec_short: "valid x \<Longrightarrow> n < length (wire x) \<Longrightarrow> dec (take n (wire x)) = Err BufferTooShort"
    and dec_consumes: "consumes dec"
    and dec_total: "dec b \<noteq> Panic"
begin

lemma roundtrip:
  assumes "valid x" and "length (wire x) \<le> room w"
  shows "\<exists>w'. enc x w = Ok (length (wire x), w') \<and> written w' = written w @ wire x
           \<and> room w' = room w - length (wire x) \<and> dec (wire x @ r) = Ok (x, r)"
  using emitsD(1) [OF enc_emits, OF assms] dec_wire [OF assms(1)] by simp

lemma prefix_free:
  assumes "valid x" and "valid y" and "wire x @ r = wire y @ s"
  shows "x = y \<and> r = s"
proof -
  have "dec (wire x @ r) = Ok (y, s)"
    unfolding assms(3) by (rule dec_wire [OF assms(2)])
  then show ?thesis by (simp add: dec_wire [OF assms(1)])
qed

lemma write_list:
  assumes "list_all valid xs"
  shows "emits BufferTooShort (write_all (map enc xs)) (concat (map wire xs))"
  using assms
  by (intro emits_write_all) (auto simp: list_all2_map1 list_all2_map2 list_all2_same list_all_iff
      intro: enc_emits)

end

subsection \<open>Fixed-width integers\<close>

lemma be_word_singleton: "be_word [b] = ucast b"
  by (simp add: be_word_def)

lemma be_bytes_1: "be_bytes 1 x = [ucast x]"
  by simp

lemma take_bit_all:
  fixes x :: "'a::len word"
  shows "LENGTH('a) \<le> n \<Longrightarrow> take_bit n x = x"
  by (rule bit_word_eqI) (simp add: bit_simps)

interpretation u8: wire_codec write_u8 read_u8 "be_bytes 1" "\<lambda>_. True"
  by unfold_locales
    (auto simp: emits_def write_u8_def read_u8_def be_word_singleton consumes_def
      split: if_splits)

interpretation u16: wire_codec write_u16 read_u16 "be_bytes 2" "\<lambda>_. True"
  by unfold_locales
    (auto simp: emits_def write_u16_def read_u16_def be_word_be_bytes take_bit_all consumes_def
      split: if_splits)

interpretation u32: wire_codec write_u32 read_u32 "be_bytes 4" "\<lambda>_. True"
  by unfold_locales
    (auto simp: emits_def write_u32_def read_u32_def be_word_be_bytes take_bit_all consumes_def
      split: if_splits)

interpretation u64: wire_codec write_u64 read_u64 "be_bytes 8" "\<lambda>_. True"
  by unfold_locales
    (auto simp: emits_def write_u64_def read_u64_def be_word_be_bytes take_bit_all consumes_def
      split: if_splits)

text \<open>The 24-bit integer is the low three bytes of a \<open>u32\<close>.\<close>

lemma be_bytes_2: "be_bytes 2 x = [ucast (drop_bit 8 x), ucast x]"
  by (simp add: numeral_eq_Suc)

lemma be_bytes_3: "be_bytes 3 x = [ucast (drop_bit 16 x), ucast (drop_bit 8 x), ucast x]"
  by (simp add: numeral_eq_Suc)

lemma be_bytes_u24:
  fixes n :: u32
  shows "be_bytes 1 (ucast (drop_bit 16 (n AND 0x00FF0000)) :: u8)
           @ be_bytes 2 (ucast (n AND 0xFFFF) :: u16) = be_bytes 3 n"
proof -
  have m: "(0x00FF0000 :: u32) = push_bit 16 (mask 8)" "(0xFFFF :: u32) = mask 16"
    by (simp_all add: mask_eq_exp_minus_1)
  show ?thesis
    unfolding m be_bytes_1 be_bytes_2 be_bytes_3 by (auto simp: bit_eq_iff bit_simps)
qed

lemma read_u24_be_bytes:
  fixes n :: u32
  assumes "n < 2 ^ 24"
  shows "read_u24 (be_bytes 3 n @ r) = Ok (n, r)"
proof -
  have b: "i < 24" if "bit n i" for i
    using bit_lt [of n 24 i] assms that by (simp add: word_less_nat_alt)
  define hi where "hi = (ucast (be_word [ucast (drop_bit 16 n), ucast (drop_bit 8 n)] :: u16) :: u32)"
  have hi: "hi = take_bit 16 (drop_bit 8 n)"
    unfolding hi_def be_word_def
    by (rule bit_word_eqI) (auto simp: bit_simps not_less add.commute)
  have "push_bit 8 hi + ucast (ucast n :: u8) = (push_bit 8 hi OR ucast (ucast n :: u8))"
    by (rule disjunctive_add) (auto simp: hi bit_simps)
  also have "\<dots> = n"
    unfolding hi by (rule bit_word_eqI) (auto simp: bit_simps; auto dest!: b)
  finally have "push_bit 8 hi + ucast (ucast n :: u8) = n" .
  then show ?thesis
    by (simp add: read_u24_def be_bytes_3 be_word_singleton Let_def hi_def)
qed

lemma write_u24_emits [emit_rules]: "emits BufferTooShort (write_u24 x) (be_bytes 3 x)"
proof -
  have "put_slice (be_bytes 2 (ucast (x AND 0xFFFF) :: u16))
          (put_slice (be_bytes 1 (ucast (drop_bit 16 (x AND 0x00FF0000)) :: u8)) w)
        = put_slice (be_bytes 3 x) w" for w
    unfolding put_slice_append be_bytes_u24 ..
  then show ?thesis by (auto simp: emits_def write_u24_def)
qed

interpretation u24: wire_codec write_u24 read_u24 "be_bytes 3" "\<lambda>n. n < 2 ^ 24"
proof unfold_locales
  fix x :: u32 and r
  assume "x < 2 ^ 24"
  then show "read_u24 (be_bytes 3 x @ r) = Ok (x, r)" by (rule read_u24_be_bytes)
qed (auto simp: write_u24_emits read_u24_def consumes_def Let_def split: if_splits)

subsection \<open>Variable-length integers\<close>

text \<open>The two tag bits do not touch the value, and survive in the top of the first byte.\<close>

lemma bit_consts:
  "bit (0x4000 :: int) i \<longleftrightarrow> i = 14"
  "bit (0x3fff :: int) i \<longleftrightarrow> i < 14"
  "bit (0x80000000 :: int) i \<longleftrightarrow> i = 31"
  "bit (0x3fffffff :: int) i \<longleftrightarrow> i < 30"
  "bit (0xc000000000000000 :: int) i \<longleftrightarrow> i = 62 \<or> i = 63"
  "bit (0x3fffffffffffffff :: int) i \<longleftrightarrow> i < 62"
proof -
  have "(0x4000 :: int) = 2 ^ 14" by simp
  then show "bit (0x4000 :: int) i \<longleftrightarrow> i = 14" by (simp only: bit_exp_iff) auto
  have "(0x3fff :: int) = mask 14" by (simp add: mask_eq_exp_minus_1)
  then show "bit (0x3fff :: int) i \<longleftrightarrow> i < 14" by (simp only: bit_mask_iff) auto
  have "(0x80000000 :: int) = 2 ^ 31" by simp
  then show "bit (0x80000000 :: int) i \<longleftrightarrow> i = 31" by (simp only: bit_exp_iff) auto
  have "(0x3fffffff :: int) = mask 30" by (simp add: mask_eq_exp_minus_1)
  then show "bit (0x3fffffff :: int) i \<longleftrightarrow> i < 30" by (simp only: bit_mask_iff) auto
  have "(0xc000000000000000 :: int) = push_bit 62 (mask 2)" by (simp add: mask_eq_exp_minus_1 push_bit_eq_mult)
  then show "bit (0xc000000000000000 :: int) i \<longleftrightarrow> i = 62 \<or> i = 63" by (simp only: bit_push_bit_iff bit_mask_iff) auto
  have "(0x3fffffffffffffff :: int) = mask 62" by (simp add: mask_eq_exp_minus_1)
  then show "bit (0x3fffffffffffffff :: int) i \<longleftrightarrow> i < 62" by (simp only: bit_mask_iff) auto
qed

lemma varint_1:
  assumes "n \<le> 63"
  shows "ucast (ucast (n :: u64) :: u8) = n"
    and "drop_bit 6 (ucast n :: u8) = 0"
proof -
  have b: "i < 6" if "bit n i" for i
    using bit_lt [of n 6 i] assms that by (simp add: word_le_nat_alt)
  show "ucast (ucast (n :: u64) :: u8) = n"
    by (auto intro!: bit_word_eqI simp: bit_simps; auto dest!: b)
  show "drop_bit 6 (ucast n :: u8) = 0"
    by (auto intro!: bit_word_eqI simp: bit_simps; auto dest!: b)
qed

lemma varint_2:
  assumes "n \<le> 16383"
  shows "ucast (((ucast (n :: u64) :: u16) OR 0x4000) AND 0x3fff) = n"
    and "drop_bit 14 ((ucast n :: u16) OR 0x4000) = 1"
proof -
  have b: "i < 14" if "bit n i" for i
    using bit_lt [of n 14 i] assms that by (simp add: word_le_nat_alt)
  show "ucast (((ucast (n :: u64) :: u16) OR 0x4000) AND 0x3fff) = n"
    by (auto intro!: bit_word_eqI simp: bit_simps bit_consts ; auto dest!: b)
  show "drop_bit 14 ((ucast n :: u16) OR 0x4000) = 1"
    by (auto intro!: bit_word_eqI simp: bit_simps bit_consts ; auto dest!: b)
qed

lemma varint_4:
  assumes "n \<le> 1073741823"
  shows "ucast (((ucast (n :: u64) :: u32) OR 0x80000000) AND 0x3fffffff) = n"
    and "drop_bit 30 ((ucast n :: u32) OR 0x80000000) = 2"
proof -
  have b: "i < 30" if "bit n i" for i
    using bit_lt [of n 30 i] assms that by (simp add: word_le_nat_alt)
  have c: "bit (2::int) i \<longleftrightarrow> i = 1" for i using bit_exp_iff [where ?'a = int, of 1 i] by auto
  show "ucast (((ucast (n :: u64) :: u32) OR 0x80000000) AND 0x3fffffff) = n"
    by (auto intro!: bit_word_eqI simp: bit_simps bit_consts c ; auto dest!: b)
  show "drop_bit 30 ((ucast n :: u32) OR 0x80000000) = 2"
    by (auto intro!: bit_word_eqI simp: bit_simps bit_consts c ; auto dest!: b)
qed

lemma varint_8:
  assumes "n \<le> VINT_MAX"
  shows "(n OR 0xc000000000000000) AND 0x3fffffffffffffff = n"
    and "drop_bit 62 (n OR 0xc000000000000000) = 3"
proof -
  have b: "i < 62" if "bit n i" for i
    using bit_lt [of n 62 i] assms that by (simp add: word_le_nat_alt VINT_MAX_def)
  have c: "bit (3::int) i \<longleftrightarrow> i < 2" for i using bit_mask_iff [where ?'a = int, of 2 i] by (auto simp: mask_eq_exp_minus_1)
  show "(n OR 0xc000000000000000) AND 0x3fffffffffffffff = n"
    by (auto intro!: bit_word_eqI simp: bit_simps bit_consts c ; auto dest!: b)
  show "drop_bit 62 (n OR 0xc000000000000000) = 3"
    by (auto intro!: bit_word_eqI simp: bit_simps bit_consts c ; auto dest!: b)
qed

lemma hd_be_bytes: "0 < k \<Longrightarrow> be_bytes k x ! 0 = ucast (drop_bit (8 * (k - 1)) x)"
proof (induction k arbitrary: x)
  case (Suc k) 
  show ?case
  proof (cases "k = 0")
    case False
    then have "8 * (k - 1) + 8 = 8 * k" by simp
    with False Suc.IH [of "drop_bit 8 x"] show ?thesis by (simp add: nth_append)
  qed simp
qed simp

lemma drop_bit_ucast:
  fixes x :: "'a::len word"
  shows "LENGTH('a) = k + 8 \<Longrightarrow> drop_bit 6 (ucast (drop_bit k x) :: u8) = ucast (drop_bit (k+6) x)"
  by (rule bit_word_eqI)
    (auto simp: bit_simps add.commute add.left_commute dest: bit_imp_le_length)
text \<open>What \<open>write_varint\<close> appends.\<close>

definition varint_bytes :: "u64 \<Rightarrow> bytes" where
  "varint_bytes n =
     (if n \<le> 63 then be_bytes 1 (ucast n :: u8)
      else if n \<le> 16383 then be_bytes 2 ((ucast n :: u16) OR 0x4000)
      else if n \<le> 1073741823 then be_bytes 4 ((ucast n :: u32) OR 0x80000000)
      else be_bytes 8 (n OR 0xc000000000000000))"

lemma length_varint_bytes: "n \<le> VINT_MAX \<Longrightarrow> encode_varint_len n = Ok (length (varint_bytes n))"
  by (simp add: encode_varint_len_def varint_bytes_def VINT_MAX_def)

lemma decode_varint_len_total: "\<exists>len \<in> {1, 2, 4, 8}. decode_varint_len first = Ok len"
proof -
  have "unat first < 256" using unsigned_less [of first] by simp
  then have "unat first div 64 < 4" by simp
  then have "drop_bit 6 first < 4"
    by (simp add: word_less_nat_alt drop_bit_eq_div unat_div)
  then have "drop_bit 6 first \<in> {0, 1, 2, 3}"
    by (auto simp: word_less_nat_alt word_unat_eq_iff)
  then show ?thesis by (auto simp: decode_varint_len_def)
qed

lemma varint_2_bytes:
  assumes "n \<le> 16383"
  shows "read_varint (be_bytes 2 ((ucast n :: u16) OR 0x4000) @ r) = Ok (n, r)"
proof -
  let ?x = "(ucast n :: u16) OR 0x4000"
  have "drop_bit 6 (be_bytes 2 ?x ! 0) = 1"
    using drop_bit_ucast [of 8 ?x] varint_2(2) [OF assms] by (simp add: hd_be_bytes)
  then have "decode_varint_len (be_bytes 2 ?x ! 0) = Ok 2"
    by (simp add: decode_varint_len_def)
  then show ?thesis
    by (simp add: read_varint_def nth_append u16.dec_wire varint_2(1) [OF assms])
qed

lemma varint_4_bytes:
  assumes "n \<le> 1073741823"
  shows "read_varint (be_bytes 4 ((ucast n :: u32) OR 0x80000000) @ r) = Ok (n, r)"
proof -
  let ?x = "(ucast n :: u32) OR 0x80000000"
  have "drop_bit 6 (be_bytes 4 ?x ! 0) = 2"
    using drop_bit_ucast [of 24 ?x] varint_4(2) [OF assms] by (simp add: hd_be_bytes)
  then have "decode_varint_len (be_bytes 4 ?x ! 0) = Ok 4"
    by (simp add: decode_varint_len_def)
  then show ?thesis
    by (simp add: read_varint_def nth_append u32.dec_wire varint_4(1) [OF assms])
qed

lemma varint_8_bytes:
  assumes "n \<le> VINT_MAX"
  shows "read_varint (be_bytes 8 (n OR 0xc000000000000000) @ r) = Ok (n, r)"
proof -
  let ?x = "n OR 0xc000000000000000"
  have "drop_bit 6 (be_bytes 8 ?x ! 0) = 3"
    using drop_bit_ucast [of 56 ?x] varint_8(2) [OF assms] by (simp add: hd_be_bytes)
  then have "decode_varint_len (be_bytes 8 ?x ! 0) = Ok 8"
    by (simp add: decode_varint_len_def)
  then show ?thesis
    by (simp add: read_varint_def nth_append u64.dec_wire varint_8(1) [OF assms])
qed

lemma read_varint_varint_bytes:
  assumes "n \<le> VINT_MAX"
  shows "read_varint (varint_bytes n @ r) = Ok (n, r)"
proof (cases "n \<le> 63")
  case True
  then show ?thesis
    using varint_1 [OF True]
    by (simp add: read_varint_def varint_bytes_def decode_varint_len_def be_word_singleton read_u8_def)
next
  case False
  with assms show ?thesis
    by (auto simp: varint_bytes_def varint_2_bytes varint_4_bytes varint_8_bytes)
qed

lemma read_varint_consumes [consume_rules]: "consumes read_varint"
  unfolding consumes_def read_varint_def
  by (auto simp: bind_r_Ok_iff read_u8_def read_u16_def read_u32_def read_u64_def split: if_splits)

lemma read_varint_total [no_panic]: "read_varint b \<noteq> Panic"
  using decode_varint_len_total [of "b ! 0"]
  by (auto simp: read_varint_def bind_r_Panic_iff u8.dec_total u16.dec_total u32.dec_total
      u64.dec_total)

lemma read_varint_Ok_len:
  assumes "read_varint b = Ok (v, r)"
  shows "b \<noteq> [] \<and> length r < length b \<and> decode_varint_len (b ! 0) = Ok (length b - length r)"
  using assms
  by (auto simp: read_varint_def bind_r_Ok_iff read_u8_def read_u16_def read_u32_def read_u64_def
      Suc_le_eq split: if_splits)

lemma read_varint_short:
  assumes "n \<le> VINT_MAX" and "k < length (varint_bytes n)"
  shows "read_varint (take k (varint_bytes n)) = Err BufferTooShort"
proof -
  have "decode_varint_len (varint_bytes n ! 0) = Ok (length (varint_bytes n))"
    using read_varint_Ok_len [of "varint_bytes n" n "[]"] read_varint_varint_bytes [OF assms(1), of "[]"]
    by simp
  with assms(2) show ?thesis by (auto simp: read_varint_def Suc_le_eq)
qed

lemma word_and_le:
  fixes x m :: "'a::len word"
  shows "unat (x AND m) \<le> unat m"
  by (metis word_and_le1 word_le_nat_alt)

lemma read_varint_bound:
  assumes "read_varint b = Ok (v, r)"
  shows "v \<le> VINT_MAX"
proof -
  have "unat (x AND 0x3fff) \<le> 0x3fffffffffffffff" for x :: u16
    using word_and_le [of x "0x3fff"] by simp
  moreover have "unat (x AND 0x3fffffff) \<le> 0x3fffffffffffffff" for x :: u32
    using word_and_le [of x "0x3fffffff"] by simp
  moreover have "unat (x AND 0x3fffffffffffffff) \<le> 0x3fffffffffffffff" for x :: u64
    using word_and_le [of x "0x3fffffffffffffff"] by simp
  moreover have "unat x \<le> 0x3fffffffffffffff" for x :: u8
    using unsigned_less [of x, where ?'a = nat] by simp
  ultimately show ?thesis
    using assms
    by (auto simp: read_varint_def bind_r_Ok_iff VINT_MAX_def word_le_nat_alt unat_ucast_up
        less_imp_le le_trans split: if_splits)
qed

interpretation varint: wire_codec write_varint read_varint varint_bytes "\<lambda>n. n \<le> VINT_MAX"
proof unfold_locales
  fix x :: u64
  assume x: "x \<le> VINT_MAX"
  then show "emits BufferTooShort (write_varint x) (varint_bytes x)"
    unfolding emits_def write_varint_def length_varint_bytes [OF x]
    by (auto simp: write_varint_with_len_def varint_bytes_def)
qed (auto simp: read_varint_varint_bytes read_varint_short read_varint_consumes read_varint_total)

text \<open>A value that does not fit a varint makes the encoder panic.\<close>

lemma small_varint: "n \<le> 0x3fffffff \<Longrightarrow> n \<le> VINT_MAX"
  by (simp add: VINT_MAX_def word_le_nat_alt)

lemma write_varint_too_large: "VINT_MAX < n \<Longrightarrow> write_varint n w = Panic"
  by (auto simp: write_varint_def encode_varint_len_def VINT_MAX_def word_less_nat_alt word_le_nat_alt)

subsection \<open>Byte slices and addresses\<close>

lemma write_bytes_emits [emit_rules]: "emits BufferTooShort (write_bytes bs) bs"
  by (auto simp: emits_def write_bytes_def)

lemma read_bytes_append [parse_simps]: "length p = n \<Longrightarrow> read_bytes n (p @ r) = Ok (p, r)"
  by (simp add: read_bytes_def)

lemma read_bytes_consumes [consume_rules]: "consumes (read_bytes n)"
  by (auto simp: consumes_def read_bytes_def split: if_splits)

lemma read_bytes_total [no_panic, simp]: "read_bytes n b \<noteq> Panic"
  by (simp add: read_bytes_def)

lemma read_with_varint_length_append [parse_simps]:
  assumes "length p < 2 ^ 62"
  shows "read_with_varint_length (varint_bytes (as_u64 (length p)) @ p @ r) = Ok (p, r)"
proof -
  have u: "unat (as_u64 (length p)) = length p" using assms by (simp add: unat_of_nat_u64)
  with assms have "as_u64 (length p) \<le> VINT_MAX" by (simp add: VINT_MAX_def word_le_nat_alt)
  then show ?thesis
    by (simp add: read_with_varint_length_def varint.dec_wire u parse_simps)
qed

lemma read_with_varint_length_consumes [consume_rules]: "consumes read_with_varint_length"
  unfolding read_with_varint_length_def by (intro consume_rules)

lemma read_with_varint_length_total [no_panic]: "read_with_varint_length b \<noteq> Panic"
  by (auto simp: read_with_varint_length_def bind_r_Panic_iff read_varint_total)

lemma read_with_u8_length_consumes [consume_rules]: "consumes read_with_u8_length"
  unfolding read_with_u8_length_def by (intro consume_rules u8.dec_consumes)

lemma read_with_u8_length_total [no_panic]: "read_with_u8_length b \<noteq> Panic"
  by (auto simp: read_with_u8_length_def bind_r_Panic_iff u8.dec_total)

lemma read_with_u8_length_append [parse_simps]:
  assumes "length p < 256"
  shows "read_with_u8_length (be_bytes 1 (word_of_nat (length p) :: u8) @ p @ r) = Ok (p, r)"
  using assms by (simp add: read_with_u8_length_def u8.dec_wire parse_simps unat_of_nat
      del: be_bytes.simps One_nat_def)

interpretation ipv4: wire_codec write_ipv4_addr read_ipv4_addr "\<lambda>a. a" "\<lambda>a. length a = 4"
  by unfold_locales
    (auto simp: emits_def write_ipv4_addr_def read_ipv4_addr_def consumes_def split: if_splits)

interpretation ipv6: wire_codec write_ipv6_addr read_ipv6_addr "\<lambda>a. a" "\<lambda>a. length a = 16"
  by unfold_locales
    (auto simp: emits_def write_ipv6_addr_def read_ipv6_addr_def consumes_def split: if_splits)

lemmas int_emits [emit_rules] =
  u8.enc_emits [OF TrueI] u16.enc_emits [OF TrueI] u32.enc_emits [OF TrueI]
  u64.enc_emits [OF TrueI] varint.enc_emits

lemmas int_parses [parse_simps] =
  u8.dec_wire [OF TrueI] u16.dec_wire [OF TrueI] u24.dec_wire u32.dec_wire [OF TrueI]
  u64.dec_wire [OF TrueI] varint.dec_wire

lemmas int_consumes [consume_rules] =
  u8.dec_consumes u16.dec_consumes u24.dec_consumes u32.dec_consumes u64.dec_consumes

lemmas int_total [no_panic] =
  u8.dec_total u16.dec_total u24.dec_total u32.dec_total u64.dec_total

subsection \<open>Properties\<close>

text \<open>C25: a variable-length integer is written in the number of bytes that \<open>encode_varint_len\<close>
  predicts, and read back whatever follows it in the buffer.\<close>

theorem varint_roundtrip:
  assumes "n \<le> VINT_MAX" and "8 \<le> room w"
  shows "\<exists>bs. encode_varint_len n = Ok (length bs) \<and> write_varint n w = Ok (length bs, put_slice bs w)
    \<and> (\<forall>r. read_varint (bs @ r) = Ok (n, r))"
proof -
  have "length (varint_bytes n) \<le> room w" using assms(2) by (simp add: varint_bytes_def)
  then have "write_varint n w = Ok (length (varint_bytes n), put_slice (varint_bytes n) w)"
    by (rule emitsD(1) [OF varint.enc_emits [OF assms(1)]])
  then show ?thesis
    using length_varint_bytes [OF assms(1)] varint.dec_wire [OF assms(1)] by blast
qed

theorem varint_roundtrip_witness:
  "(151288809941952652 :: u64) \<le> VINT_MAX \<and>
   (\<exists>bs. encode_varint_len 151288809941952652 = Ok (length bs)
     \<and> write_varint 151288809941952652 (new_wbuf 8) = Ok (length bs, put_slice bs (new_wbuf 8))
     \<and> (\<forall>r. read_varint (bs @ r) = Ok (151288809941952652, r)))"
  using varint_roundtrip [of 151288809941952652 "new_wbuf 8"] by (simp add: VINT_MAX_def new_wbuf_def)

text \<open>Reading a variable-length integer from untrusted bytes never panics; a value that is
  returned fits 62 bits and was taken from a non-empty prefix of the buffer.\<close>

theorem read_varint_safe:
  "read_varint b \<noteq> Panic \<and>
   (\<forall>n r. read_varint b = Ok (n, r) \<longrightarrow> n \<le> VINT_MAX \<and> (\<exists>p. b = p @ r \<and> p \<noteq> []))"
proof (intro conjI allI impI)
  show "read_varint b \<noteq> Panic" by (rule read_varint_total)
  fix n r
  assume r: "read_varint b = Ok (n, r)"
  then show "n \<le> VINT_MAX" by (rule read_varint_bound)
  from r obtain p where "b = p @ r" using consumesD [OF read_varint_consumes] by blast
  moreover have "length r < length b" using read_varint_Ok_len [OF r] by simp
  ultimately show "\<exists>p. b = p @ r \<and> p \<noteq> []" by auto
qed

theorem read_varint_safe_witness:
  "read_varint [0x7b, 0xbd, 0x01] = Ok (15293, [0x01]) \<and> (15293 :: u64) \<le> VINT_MAX
     \<and> (\<exists>p. [0x7b, 0xbd, 0x01 :: u8] = p @ [0x01] \<and> p \<noteq> [])"
proof -
  have "read_varint [0x7b, 0xbd, 0x01] = Ok (15293, [0x01])"
    by (simp add: read_varint_def decode_varint_len_def read_u16_def be_word_def Let_def)
  with read_varint_safe [of "[0x7b, 0xbd, 0x01]"] show ?thesis by blast
qed

end
