(* ===== verification/BTree_Map.thy ===== *)
theory BTree_Map
  imports Prelude
begin

text \<open>
  The ordered map of the standard library (\<open>std::collections::BTreeMap\<close>) as the sources use it:
  an association list with strictly increasing keys, so that iteration order is the list order.
  The locale \<open>ordered_map\<close> states what its clients rely on, in terms of the set of entries.
\<close>

type_synonym ('k, 'v) btree = "('k \<times> 'v) list"

definition bt_wf :: "('k::linorder, 'v) btree \<Rightarrow> bool" where
  "bt_wf m \<longleftrightarrow> sorted_wrt (<) (map fst m)"

fun bt_insert :: "'k::linorder \<Rightarrow> 'v \<Rightarrow> ('k, 'v) btree \<Rightarrow> ('k, 'v) btree" where
  "bt_insert k v [] = [(k, v)]"
| "bt_insert k v ((a, b) # m) =
     (if k < a then (k, v) # (a, b) # m
      else if k = a then (k, v) # m
      else (a, b) # bt_insert k v m)"

definition bt_remove :: "'k \<Rightarrow> ('k, 'v) btree \<Rightarrow> ('k, 'v) btree" where
  "bt_remove k m = filter (\<lambda>p. fst p \<noteq> k) m"

text \<open>\<open>m.range(..=k).next_back()\<close>, \<open>m.range(k..).next()\<close> and \<open>m.range((Excluded(k), Unbounded)).next()\<close>.\<close>

definition bt_last_le :: "'k::linorder \<Rightarrow> ('k, 'v) btree \<Rightarrow> ('k \<times> 'v) option" where
  "bt_last_le k m = (let xs = filter (\<lambda>p. fst p \<le> k) m in if xs = [] then None else Some (last xs))"

definition bt_first_ge :: "'k::linorder \<Rightarrow> ('k, 'v) btree \<Rightarrow> ('k \<times> 'v) option" where
  "bt_first_ge k m = find (\<lambda>p. k \<le> fst p) m"

definition bt_first_gt :: "'k::linorder \<Rightarrow> ('k, 'v) btree \<Rightarrow> ('k \<times> 'v) option" where
  "bt_first_gt k m = find (\<lambda>p. k < fst p) m"

definition bt_first :: "('k, 'v) btree \<Rightarrow> ('k \<times> 'v) option" where
  "bt_first m = (case m of [] \<Rightarrow> None | p # _ \<Rightarrow> Some p)"

definition bt_last :: "('k, 'v) btree \<Rightarrow> ('k \<times> 'v) option" where
  "bt_last m = (if m = [] then None else Some (last m))"

definition bt_pop_first :: "('k, 'v) btree \<Rightarrow> ('k, 'v) btree" where
  "bt_pop_first m = tl m"

subsection \<open>The interface\<close>

locale ordered_map =
  fixes wf :: "'m \<Rightarrow> bool"
    and entries :: "'m \<Rightarrow> ('k::linorder \<times> 'v) set"
    and ins :: "'k \<Rightarrow> 'v \<Rightarrow> 'm \<Rightarrow> 'm"
    and del :: "'k \<Rightarrow> 'm \<Rightarrow> 'm"
    and last_le :: "'k \<Rightarrow> 'm \<Rightarrow> ('k \<times> 'v) option"
    and first_ge :: "'k \<Rightarrow> 'm \<Rightarrow> ('k \<times> 'v) option"
    and first_gt :: "'k \<Rightarrow> 'm \<Rightarrow> ('k \<times> 'v) option"
  assumes wf_ins: "wf m \<Longrightarrow> wf (ins k v m)"
    and wf_del: "wf m \<Longrightarrow> wf (del k m)"
    and functional: "wf m \<Longrightarrow> (k, v) \<in> entries m \<Longrightarrow> (k, v') \<in> entries m \<Longrightarrow> v = v'"
    and finite_entries: "finite (entries m)"
    and entries_ins: "wf m \<Longrightarrow> entries (ins k v m) = insert (k, v) {p \<in> entries m. fst p \<noteq> k}"
    and entries_del: "wf m \<Longrightarrow> entries (del k m) = {p \<in> entries m. fst p \<noteq> k}"
    and last_le_iff: "wf m \<Longrightarrow> last_le k m = Some p \<longleftrightarrow>
      p \<in> entries m \<and> fst p \<le> k \<and> (\<forall>q \<in> entries m. fst q \<le> k \<longrightarrow> fst q \<le> fst p)"
    and first_ge_iff: "wf m \<Longrightarrow> first_ge k m = Some p \<longleftrightarrow>
      p \<in> entries m \<and> k \<le> fst p \<and> (\<forall>q \<in> entries m. k \<le> fst q \<longrightarrow> fst p \<le> fst q)"
    and first_gt_iff: "wf m \<Longrightarrow> first_gt k m = Some p \<longleftrightarrow>
      p \<in> entries m \<and> k < fst p \<and> (\<forall>q \<in> entries m. k < fst q \<longrightarrow> fst p \<le> fst q)"
    and last_le_None: "wf m \<Longrightarrow> last_le k m = None \<longleftrightarrow> (\<forall>q \<in> entries m. k < fst q)"
    and first_ge_None: "wf m \<Longrightarrow> first_ge k m = None \<longleftrightarrow> (\<forall>q \<in> entries m. fst q < k)"
    and first_gt_None: "wf m \<Longrightarrow> first_gt k m = None \<longleftrightarrow> (\<forall>q \<in> entries m. fst q \<le> k)"
begin

lemma ins_fresh:
  "wf m \<Longrightarrow> k \<notin> fst ` entries m \<Longrightarrow> entries (ins k v m) = insert (k, v) (entries m)"
  by (auto simp: entries_ins)

lemma del_entry:
  assumes "wf m" and "p \<in> entries m"
  shows "entries (del (fst p) m) = entries m - {p}"
  using assms functional [OF assms(1)] by (cases p) (fastforce simp: entries_del)

lemma last_le_lookup:
  assumes "wf m" and "(k, v) \<in> entries m"
  shows "last_le k m = Some (k, v)"
  using assms by (simp add: last_le_iff)

lemma ins_lookup: "wf m \<Longrightarrow> last_le k (ins k v m) = Some (k, v)"
  by (rule last_le_lookup) (simp_all add: wf_ins entries_ins)

lemma neighbours:
  assumes "wf m" and "last_le k m = Some p" and "first_gt k m = Some q" and "r \<in> entries m"
  shows "fst r \<le> fst p \<or> fst q \<le> fst r"
  using assms by (cases "fst r \<le> k") (auto simp: last_le_iff first_gt_iff)

end

subsection \<open>The association list implements it\<close>

lemma bt_wf_Cons: "bt_wf (p # m) \<longleftrightarrow> (\<forall>q \<in> set m. fst p < fst q) \<and> bt_wf m"
  by (simp add: bt_wf_def)

lemma bt_wf_Nil [simp]: "bt_wf []"
  by (simp add: bt_wf_def)

lemma set_bt_insert:
  "bt_wf m \<Longrightarrow> set (bt_insert k v m) = insert (k, v) {p \<in> set m. fst p \<noteq> k}"
  by (induction k v m rule: bt_insert.induct) (auto simp: bt_wf_Cons)

lemma bt_wf_insert: "bt_wf m \<Longrightarrow> bt_wf (bt_insert k v m)"
  by (induction k v m rule: bt_insert.induct) (auto simp: bt_wf_Cons set_bt_insert)

lemma bt_wf_filter: "bt_wf m \<Longrightarrow> bt_wf (filter P m)"
  by (induction m) (auto simp: bt_wf_Cons)

lemma bt_wf_functional:
  "bt_wf m \<Longrightarrow> (k, v) \<in> set m \<Longrightarrow> (k, v') \<in> set m \<Longrightarrow> v = v'"
  by (induction m) (auto simp: bt_wf_Cons)

lemma bt_wf_inj: "bt_wf m \<Longrightarrow> p \<in> set m \<Longrightarrow> q \<in> set m \<Longrightarrow> fst p = fst q \<Longrightarrow> p = q"
  using bt_wf_functional by (cases p; cases q) fastforce

lemma bt_wf_last: "bt_wf m \<Longrightarrow> q \<in> set m \<Longrightarrow> fst q \<le> fst (last m)"
  by (induction m) (auto simp: bt_wf_Cons order.strict_implies_order)

lemma find_first:
  assumes "bt_wf m"
  shows "find P m = Some p \<longleftrightarrow> p \<in> set m \<and> P p \<and> (\<forall>q \<in> set m. P q \<longrightarrow> fst p \<le> fst q)"
  using assms
proof (induction m)
  case Nil
  then show ?case by simp
next
  case (Cons a m)
  then have lt: "\<forall>q \<in> set m. fst a < fst q" and wf: "bt_wf m" by (auto simp: bt_wf_Cons)
  show ?case
  proof (cases "P a")
    case True
    with lt show ?thesis by (auto simp: less_imp_le not_le [symmetric])
  next
    case False
    with Cons.IH [OF wf] show ?thesis by auto
  qed
qed

interpretation bt: ordered_map bt_wf set bt_insert bt_remove bt_last_le bt_first_ge bt_first_gt
proof unfold_locales
  fix m :: "('a, 'b) btree" and k p
  assume wf: "bt_wf m"
  let ?xs = "filter (\<lambda>p. fst p \<le> k) m"
  have wfx: "bt_wf ?xs" using wf by (rule bt_wf_filter)
  show "bt_last_le k m = Some p \<longleftrightarrow>
      p \<in> set m \<and> fst p \<le> k \<and> (\<forall>q \<in> set m. fst q \<le> k \<longrightarrow> fst q \<le> fst p)"
  proof
    assume "bt_last_le k m = Some p"
    then have "?xs \<noteq> []" and p: "p = last ?xs" by (auto simp: bt_last_le_def Let_def split: if_splits)
    then have "p \<in> set ?xs" using last_in_set by blast
    moreover have "\<forall>q \<in> set ?xs. fst q \<le> fst p" using bt_wf_last [OF wfx] p by auto
    ultimately show "p \<in> set m \<and> fst p \<le> k \<and> (\<forall>q \<in> set m. fst q \<le> k \<longrightarrow> fst q \<le> fst p)"
      by auto
  next
    assume a: "p \<in> set m \<and> fst p \<le> k \<and> (\<forall>q \<in> set m. fst q \<le> k \<longrightarrow> fst q \<le> fst p)"
    then have ne: "?xs \<noteq> []" and px: "p \<in> set ?xs" by (auto simp: filter_empty_conv)
    have "last ?xs \<in> set ?xs" using ne by (rule last_in_set)
    with a have "fst (last ?xs) \<le> fst p" by auto
    with bt_wf_last [OF wfx px] have "fst (last ?xs) = fst p" by simp
    with bt_wf_inj [OF wfx \<open>last ?xs \<in> set ?xs\<close> px] have "last ?xs = p" .
    with ne show "bt_last_le k m = Some p" by (simp add: bt_last_le_def Let_def)
  qed
qed (auto simp: bt_wf_insert bt_remove_def bt_wf_filter bt_wf_functional set_bt_insert
    bt_first_ge_def bt_first_gt_def find_first find_None_iff not_le not_less bt_last_le_def Let_def
    filter_empty_conv dest: bt_wf_functional)

lemmas bt_laws = bt.wf_ins bt.wf_del bt.entries_ins bt.entries_del

end
