(* ===== verification/Ranges.thy ===== *)
theory Ranges
  imports BTree_Map
begin

text \<open>
  Range sets (src/ranges.rs): a set of integers kept as disjoint, non-adjacent half-open ranges in
  an ordered map from start to end, with an optional bound on the number of ranges. The operations
  that only compare bounds are stated over any linear order; those that add or subtract one are
  over \<open>u64\<close>.

  \<open>rs_wf\<close> is the representation invariant and \<open>rs_elems\<close> the set of integers represented. Every
  operation keeps the invariant and is the set operation it stands for; a well-formed
  representation is determined by its elements.
\<close>

record 'a rangeset =
  rs_set :: "('a, 'a) btree"
  rs_cap :: nat

definition rs_new :: "nat \<Rightarrow> 'a rangeset" where
  "rs_new cap = \<lparr>rs_set = [], rs_cap = cap\<rparr>"

definition rs_default :: "'a rangeset" where
  "rs_default = rs_new (2 ^ 64 - 1)"

definition rs_is_empty :: "'a rangeset \<Rightarrow> bool" where
  "rs_is_empty s \<longleftrightarrow> rs_set s = []"

definition rs_len :: "'a rangeset \<Rightarrow> nat" where
  "rs_len s = length (rs_set s)"

definition prev_to :: "('a::linorder, 'a) btree \<Rightarrow> 'a \<Rightarrow> ('a \<times> 'a) option" where
  "prev_to m elem = bt_last_le elem m"

definition next_to :: "('a::linorder, 'a) btree \<Rightarrow> 'a \<Rightarrow> ('a \<times> 'a) option" where
  "next_to m elem = bt_first_ge elem m"

definition next_after :: "('a::linorder, 'a) btree \<Rightarrow> 'a \<Rightarrow> ('a \<times> 'a) option" where
  "next_after m elem = bt_first_gt elem m"

lemma length_bt_remove_found:
  "bt_first_ge k m = Some p \<Longrightarrow> length (bt_remove (fst p) m) < length m"
  unfolding bt_first_ge_def bt_remove_def
  by (auto simp: find_Some_iff intro!: length_filter_less)

text \<open>The loop of \<open>insert\<close> that merges the following ranges.\<close>

function merge_next :: "('a::linorder, 'a) btree \<Rightarrow> 'a \<Rightarrow> 'a \<Rightarrow> ('a, 'a) btree \<times> 'a" where
  "merge_next m start end =
     (case next_to m start of
        None \<Rightarrow> (m, end)
      | Some r \<Rightarrow>
          if end < fst r then (m, end)
          else merge_next (bt_remove (fst r) m) start (max (snd r) end))"
  by pat_completeness auto
termination
  by (relation "measure (\<lambda>(m, _, _). length m)")
    (auto simp: next_to_def dest: length_bt_remove_found)

declare merge_next.simps [simp del]

text \<open>The end of \<open>insert\<close>: merge, make room, insert.\<close>

definition insert_merged :: "nat \<Rightarrow> ('a::linorder, 'a) btree \<Rightarrow> 'a \<Rightarrow> 'a \<Rightarrow> ('a, 'a) btree" where
  "insert_merged cap m start end =
     (let (m', end') = merge_next m start end;
          m'' = (if cap \<le> length m' then bt_pop_first m' else m')
      in bt_insert start end' m'')"

definition rs_insert :: "'a::linorder \<Rightarrow> 'a \<Rightarrow> 'a rangeset \<Rightarrow> 'a rangeset" where
  "rs_insert start end s =
     (if \<not> start < end then s
      else case prev_to (rs_set s) start of
        None \<Rightarrow> s\<lparr>rs_set := insert_merged (rs_cap s) (rs_set s) start end\<rparr>
      | Some r \<Rightarrow>
          if end \<le> snd r then s
          else if start \<le> snd r
          then s\<lparr>rs_set := insert_merged (rs_cap s) (bt_remove (fst r) (rs_set s)) (fst r) end\<rparr>
          else s\<lparr>rs_set := insert_merged (rs_cap s) (rs_set s) start end\<rparr>)"

text \<open>The loop of \<open>remove\<close> over the following ranges.\<close>

function remove_next :: "('a::linorder, 'a) btree \<Rightarrow> 'a \<Rightarrow> 'a \<Rightarrow> ('a, 'a) btree" where
  "remove_next m start end =
     (case next_to m start of
        None \<Rightarrow> m
      | Some r \<Rightarrow>
          if end < fst r then m
          else if end < snd r then bt_insert end (snd r) (bt_remove (fst r) m)
          else remove_next (bt_remove (fst r) m) start end)"
  by pat_completeness auto
termination
  by (relation "measure (\<lambda>(m, _, _). length m)")
    (auto simp: next_to_def dest: length_bt_remove_found)

declare remove_next.simps [simp del]

text \<open>The part of \<open>remove\<close> that cuts an overlapping preceding range.\<close>

definition cut_overlap :: "('a::linorder, 'a) btree \<Rightarrow> 'a \<times> 'a \<Rightarrow> 'a \<Rightarrow> 'a \<Rightarrow> ('a, 'a) btree" where
  "cut_overlap m r start end =
     (let m = bt_remove (fst r) m;
          m = (if fst r < start then bt_insert (fst r) start m else m)
      in if end < snd r then bt_insert end (snd r) m else m)"

definition rs_remove :: "'a::linorder \<Rightarrow> 'a \<Rightarrow> 'a rangeset \<Rightarrow> 'a rangeset" where
  "rs_remove start end s =
     (if rs_is_empty s \<or> \<not> start < end then s
      else case prev_to (rs_set s) start of
        None \<Rightarrow> s\<lparr>rs_set := remove_next (rs_set s) start end\<rparr>
      | Some r \<Rightarrow>
          if start < snd r then
            let m = cut_overlap (rs_set s) r start end
            in if end \<le> snd r then s\<lparr>rs_set := m\<rparr>
               else s\<lparr>rs_set := remove_next m start end\<rparr>
          else s\<lparr>rs_set := remove_next (rs_set s) start end\<rparr>)"

definition rs_clear :: "'a rangeset \<Rightarrow> 'a rangeset" where
  "rs_clear s = s\<lparr>rs_set := []\<rparr>"

definition rs_filter :: "'a::linorder \<Rightarrow> 'a \<Rightarrow> 'a rangeset \<Rightarrow> ('a \<times> 'a) option" where
  "rs_filter start end s =
     (if rs_is_empty s then Some (start, end)
      else
        let new_end = (case next_after (rs_set s) start of
                         Some r \<Rightarrow> if fst r < end then fst r else end
                       | None \<Rightarrow> end)
        in case prev_to (rs_set s) start of
             Some r \<Rightarrow>
               if end \<le> snd r then None
               else if start < snd r then Some (snd r, new_end)
               else Some (start, new_end)
           | None \<Rightarrow> Some (start, new_end))"

definition in_range :: "'a::linorder \<Rightarrow> 'a \<times> 'a \<Rightarrow> bool" where
  "in_range elem r \<longleftrightarrow> fst r \<le> elem \<and> elem < snd r"

definition rs_contains :: "'a::linorder \<Rightarrow> 'a rangeset \<Rightarrow> bool" where
  "rs_contains elem s =
     (if (case prev_to (rs_set s) elem of Some p \<Rightarrow> in_range elem p | None \<Rightarrow> False) then True
      else if (case next_to (rs_set s) elem of Some n \<Rightarrow> in_range elem n | None \<Rightarrow> False) then True
      else False)"

definition peek_min :: "'a rangeset \<Rightarrow> ('a \<times> 'a) option" where
  "peek_min s = bt_first (rs_set s)"

definition pop_min :: "'a rangeset \<Rightarrow> ('a \<times> 'a) option \<times> 'a rangeset" where
  "pop_min s =
     (case peek_min s of
        None \<Rightarrow> (None, s)
      | Some r \<Rightarrow> (Some r, s\<lparr>rs_set := bt_remove (fst r) (rs_set s)\<rparr>))"

definition rs_min :: "'a rangeset \<Rightarrow> 'a option" where
  "rs_min s = map_option fst (bt_first (rs_set s))"

definition rs_eq_range :: "'a rangeset \<Rightarrow> 'a \<times> 'a \<Rightarrow> bool" where
  "rs_eq_range s other \<longleftrightarrow> rs_len s = 1 \<and> peek_min s = Some other"

text \<open>The operations that step by one.\<close>

definition rs_max :: "u64 rangeset \<Rightarrow> u64 option" where
  "rs_max s = map_option (\<lambda>r. snd r - 1) (bt_last (rs_set s))"

definition add_elem :: "u64 \<Rightarrow> u64 rangeset \<Rightarrow> u64 rangeset" where
  "add_elem elem s = rs_insert elem (elem + 1) s"

definition remove_elem :: "u64 \<Rightarrow> u64 rangeset \<Rightarrow> u64 rangeset" where
  "remove_elem elem s = rs_remove elem (elem + 1) s"

definition remove_until_step :: "u64 \<Rightarrow> u64 \<times> u64 \<Rightarrow> u64 rangeset \<Rightarrow> u64 rangeset" where
  "remove_until_step elem r s =
     (let s' = s\<lparr>rs_set := bt_remove (fst r) (rs_set s)\<rparr>
      in if elem + 1 < snd r then rs_insert (elem + 1) (snd r) s' else s')"

definition remove_until :: "u64 \<Rightarrow> u64 rangeset \<Rightarrow> u64 rangeset" where
  "remove_until elem s =
     fold (remove_until_step elem) (filter (\<lambda>r. fst r \<le> elem) (rs_set s)) s"

text \<open>The element iterators of \<open>flatten\<close>: the remaining ranges and the range being walked.\<close>

record flatten =
  fl_set :: "(u64 \<times> u64) list"
  fl_next :: u64
  fl_end :: u64

definition rs_flatten :: "u64 rangeset \<Rightarrow> flatten" where
  "rs_flatten s = \<lparr>fl_set = rs_set s, fl_next = 0, fl_end = 0\<rparr>"

definition flatten_next :: "flatten \<Rightarrow> u64 option \<times> flatten" where
  "flatten_next f =
     (if fl_next f = fl_end f then
        (case fl_set f of
           [] \<Rightarrow> (None, f)
         | r # rs \<Rightarrow> (Some (fst r), f\<lparr>fl_set := rs, fl_next := fst r + 1, fl_end := snd r\<rparr>))
      else (Some (fl_next f), f\<lparr>fl_next := fl_next f + 1\<rparr>))"

definition flatten_next_back :: "flatten \<Rightarrow> u64 option \<times> flatten" where
  "flatten_next_back f =
     (if fl_next f = fl_end f then
        (if fl_set f = [] then (None, f)
         else let r = last (fl_set f)
              in (Some (snd r - 1),
                  f\<lparr>fl_set := butlast (fl_set f), fl_next := fst r, fl_end := snd r - 1\<rparr>))
      else (Some (fl_end f - 1), f\<lparr>fl_end := fl_end f - 1\<rparr>))"

subsection \<open>Representation invariant and abstraction\<close>

definition separated :: "('a::linorder \<times> 'a) set \<Rightarrow> bool" where
  "separated E \<longleftrightarrow> (\<forall>p \<in> E. fst p < snd p) \<and>
     (\<forall>p \<in> E. \<forall>q \<in> E. fst p < fst q \<longrightarrow> snd p < fst q)"

definition covered :: "('a::linorder \<times> 'a) set \<Rightarrow> 'a set" where
  "covered E = (\<Union>p \<in> E. {fst p ..< snd p})"

definition rs_wf :: "'a::linorder rangeset \<Rightarrow> bool" where
  "rs_wf s \<longleftrightarrow> bt_wf (rs_set s) \<and> separated (set (rs_set s))"

definition rs_elems :: "'a::linorder rangeset \<Rightarrow> 'a set" where
  "rs_elems s = covered (set (rs_set s))"

lemma separated_subset: "separated E \<Longrightarrow> F \<subseteq> E \<Longrightarrow> separated F"
  unfolding separated_def by blast

lemma covered_empty [simp]: "covered {} = {}"
  by (simp add: covered_def)

lemma covered_insert [simp]: "covered (insert p E) = {fst p ..< snd p} \<union> covered E"
  by (simp add: covered_def)

lemma covered_mono: "E \<subseteq> F \<Longrightarrow> covered E \<subseteq> covered F"
  by (auto simp: covered_def)

lemma covered_remove: "p \<in> E \<Longrightarrow> covered E = {fst p ..< snd p} \<union> covered (E - {p})"
  by (auto simp: covered_def)

lemma covered_disjoint:
  "(\<And>p. p \<in> E \<Longrightarrow> {fst p ..< snd p} \<inter> X = {}) \<Longrightarrow> covered E \<inter> X = {}"
  unfolding covered_def by blast

lemma separated_insert:
  assumes "separated E" and "s < e" and "\<forall>p \<in> E. snd p < s \<or> e < fst p"
  shows "separated (insert (s, e) E)"
proof -
  have ne: "fst p < snd p" if "p \<in> E" for p using assms(1) that by (simp add: separated_def)
  have right: "e < fst q" if "q \<in> E" and "s < fst q" for q
    using assms(3) ne [OF that(1)] that by (meson less_trans not_less_iff_gr_or_eq)
  have left: "snd p < s" if "p \<in> E" and "fst p < s" for p
    using assms(2,3) that by (meson less_trans not_less_iff_gr_or_eq)
  show ?thesis using assms(1,2) right left by (auto simp: separated_def)
qed

lemma separated_apart:
  "separated E \<Longrightarrow> p \<in> E \<Longrightarrow> q \<in> E \<Longrightarrow> fst p \<noteq> fst q \<Longrightarrow> snd p < fst q \<or> snd q < fst p"
  unfolding separated_def by (metis neqE)

lemma rs_wf_new [simp]: "rs_wf (rs_new cap)" "rs_wf rs_default"
  by (simp_all add: rs_wf_def rs_default_def rs_new_def separated_def)

lemma rs_elems_new [simp]: "rs_elems (rs_new cap) = {}" "rs_elems rs_default = {}"
  by (simp_all add: rs_elems_def rs_default_def rs_new_def)

subsection \<open>Insertion\<close>

text \<open>What the merging loop leaves: ranges strictly apart from the grown range.\<close>

lemma merge_next_spec:
  assumes "bt_wf m" and "separated (set m)" and "start < end"
    and "\<forall>p \<in> set m. fst p < start \<longrightarrow> snd p < start"
    and "merge_next m start end = (m', end')"
  shows "bt_wf m' \<and> separated (set m') \<and> set m' \<subseteq> set m \<and> end \<le> end'
    \<and> (\<forall>p \<in> set m'. snd p < start \<or> end' < fst p)
    \<and> covered (set m') \<union> {start ..< end'} = covered (set m) \<union> {start ..< end}"
  using assms
proof (induction m start "end" rule: merge_next.induct)
  case (1 m start "end")
  show ?case
  proof (cases "next_to m start")
    case None
    then have "\<forall>q \<in> set m. fst q < start"
      using "1.prems"(1) by (simp add: next_to_def bt.first_ge_None)
    moreover have "m' = m" "end' = end"
      using "1.prems"(5) None by (simp_all add: merge_next.simps [of m start "end"])
    ultimately show ?thesis using "1.prems" by auto
  next
    case (Some r)
    then have r: "r \<in> set m" "start \<le> fst r" "\<forall>q \<in> set m. start \<le> fst q \<longrightarrow> fst r \<le> fst q"
      using "1.prems"(1) by (simp_all add: next_to_def bt.first_ge_iff)
    show ?thesis
    proof (cases "end < fst r")
      case True
      then have eq: "m' = m" "end' = end"
        using "1.prems"(5) Some by (simp_all add: merge_next.simps [of m start "end"])
      have "snd p < start \<or> end < fst p" if "p \<in> set m" for p
        using that r(3) True "1.prems"(4) by (cases "fst p < start") (auto simp: not_less)
      with eq "1.prems" show ?thesis by auto
    next
      case False
      let ?m = "bt_remove (fst r) m"
      have del: "set ?m = set m - {r}" using bt.del_entry [OF "1.prems"(1) r(1)] .
      have rec: "merge_next ?m start (max (snd r) end) = (m', end')"
        using "1.prems"(5) Some False by (simp add: merge_next.simps [of m start "end"])
      have IH: "bt_wf m' \<and> separated (set m') \<and> set m' \<subseteq> set ?m \<and> max (snd r) end \<le> end'
        \<and> (\<forall>p \<in> set m'. snd p < start \<or> end' < fst p)
        \<and> covered (set m') \<union> {start ..< end'} = covered (set ?m) \<union> {start ..< max (snd r) end}"
      proof (rule "1.IH" [OF Some False])
        show "bt_wf ?m" using "1.prems"(1) by (rule bt.wf_del)
        show "separated (set ?m)" using "1.prems"(2) by (rule separated_subset) (simp add: del)
        show "start < max (snd r) end" using "1.prems"(3) by (simp add: less_max_iff_disj)
        show "\<forall>p \<in> set ?m. fst p < start \<longrightarrow> snd p < start" using "1.prems"(4) by (simp add: del)
        show "merge_next ?m start (max (snd r) end) = (m', end')" by (rule rec)
      qed
      have "{start ..< max (snd r) end} = {start ..< end} \<union> {fst r ..< snd r}"
        using r(2) False "1.prems"(3) by (auto simp: max_def not_less)
      with IH covered_remove [OF r(1)] del show ?thesis by auto
    qed
  qed
qed

text \<open>Ranges that survive the eviction of the first one.\<close>

lemma set_bt_pop_first: "set (bt_pop_first m) \<subseteq> set m"
  by (cases m) (auto simp: bt_pop_first_def)

lemma bt_wf_pop_first: "bt_wf m \<Longrightarrow> bt_wf (bt_pop_first m)"
  by (cases m) (auto simp: bt_pop_first_def bt_wf_Cons)

lemma length_bt_insert_le: "length (bt_insert k v m) \<le> Suc (length m)"
  by (induction k v m rule: bt_insert.induct) auto

lemma length_merge_next: "merge_next m start end = (m', end') \<Longrightarrow> length m' \<le> length m"
proof (induction m start "end" rule: merge_next.induct)
  case (1 m start "end")
  then show ?case
    by (auto simp: merge_next.simps [of m start "end"] bt_remove_def
        intro: le_trans [OF _ length_filter_le] split: option.splits if_splits)
qed

lemma insert_merged_spec:
  assumes "bt_wf m" and "separated (set m)" and "start < end"
    and "\<forall>p \<in> set m. fst p < start \<longrightarrow> snd p < start"
  shows "bt_wf (insert_merged cap m start end)"
    and "separated (set (insert_merged cap m start end))"
    and "covered (set (insert_merged cap m start end)) \<subseteq> covered (set m) \<union> {start ..< end}"
    and "{start ..< end} \<subseteq> covered (set (insert_merged cap m start end))"
    and "length m < cap \<Longrightarrow>
      covered (set (insert_merged cap m start end)) = covered (set m) \<union> {start ..< end}"
    and "length (insert_merged cap m start end) \<le> max 1 (max cap (length m))"
proof -
  obtain m' end' where mn: "merge_next m start end = (m', end')" by fastforce
  note spec = merge_next_spec [OF assms mn]
  define m'' where "m'' = (if cap \<le> length m' then bt_pop_first m' else m')"
  have im: "insert_merged cap m start end = bt_insert start end' m''"
    by (simp add: insert_merged_def mn m''_def Let_def)
  have sub: "set m'' \<subseteq> set m'" using set_bt_pop_first by (auto simp: m''_def)
  have wf: "bt_wf m''" using spec by (auto simp: m''_def intro: bt_wf_pop_first)
  have lt: "start < end'" using spec assms(3) by (meson less_le_trans)
  have fresh: "start \<notin> fst ` set m''"
  proof
    assume "start \<in> fst ` set m''"
    then obtain p where p: "p \<in> set m'" "fst p = start" using sub by auto
    then have "fst p < snd p" using spec by (auto simp: separated_def)
    with p spec lt show False by (metis less_asym)
  qed
  have ent: "set (bt_insert start end' m'') = insert (start, end') (set m'')"
    using bt.ins_fresh [OF wf fresh] .
  show "bt_wf (insert_merged cap m start end)" unfolding im using wf by (rule bt.wf_ins)
  show "separated (set (insert_merged cap m start end))"
    unfolding im ent using spec sub lt
    by (intro separated_insert) (auto intro: separated_subset)
  show "covered (set (insert_merged cap m start end)) \<subseteq> covered (set m) \<union> {start ..< end}"
    unfolding im ent using spec covered_mono [OF sub] by auto
  show "{start ..< end} \<subseteq> covered (set (insert_merged cap m start end))"
    unfolding im ent using spec by auto
  show "covered (set (insert_merged cap m start end)) = covered (set m) \<union> {start ..< end}"
    if "length m < cap"
  proof -
    have "m'' = m'" using length_merge_next [OF mn] that by (simp add: m''_def)
    then show ?thesis unfolding im ent using spec by auto
  qed
  show "length (insert_merged cap m start end) \<le> max 1 (max cap (length m))"
    unfolding im
    using length_bt_insert_le [of start end' m''] length_merge_next [OF mn]
    by (auto simp: m''_def bt_pop_first_def)
qed

lemma before_prev:
  assumes "bt_wf m" and "separated (set m)" and "prev_to m start = Some r"
    and "p \<in> set m" and "fst p < fst r \<or> fst p < start \<and> p \<noteq> r"
  shows "snd p < fst r \<and> snd p < start"
proof -
  have r: "r \<in> set m" "fst r \<le> start" "\<forall>q \<in> set m. fst q \<le> start \<longrightarrow> fst q \<le> fst r"
    using assms(1,3) by (simp_all add: prev_to_def bt.last_le_iff)
  have "fst p \<le> fst r" using assms(4,5) r(3) by (auto intro: less_imp_le)
  moreover have "fst p \<noteq> fst r" using assms(4,5) r(1) bt_wf_inj [OF assms(1)] by blast
  ultimately have "snd p < fst r" using assms(2,4) r(1) by (simp add: separated_def)
  with r(2) show ?thesis by (meson less_le_trans)
qed

text \<open>
  The four facts about one insertion, for the caller's choice of branch: the ranges, the elements,
  the elements when there is room, and the number of ranges.
\<close>

definition insertion :: "'a::linorder rangeset \<Rightarrow> 'a \<Rightarrow> 'a \<Rightarrow> 'a rangeset \<Rightarrow> bool" where
  "insertion s start end t \<longleftrightarrow>
     rs_wf t \<and> rs_cap t = rs_cap s
     \<and> rs_elems t \<subseteq> rs_elems s \<union> {start ..< end} \<and> {start ..< end} \<subseteq> rs_elems t
     \<and> (rs_len s < rs_cap s \<longrightarrow> rs_elems t = rs_elems s \<union> {start ..< end})
     \<and> (rs_len s \<le> max 1 (rs_cap s) \<longrightarrow> rs_len t \<le> max 1 (rs_cap s))"

lemma insertion_merged:
  assumes "rs_wf s" and "start < end" and "\<forall>p \<in> set (rs_set s). fst p < start \<longrightarrow> snd p < start"
  shows "insertion s start end
    (s\<lparr>rs_set := insert_merged (rs_cap s) (rs_set s) start end\<rparr>)"
proof -
  have wf: "bt_wf (rs_set s)" "separated (set (rs_set s))" using assms(1) by (simp_all add: rs_wf_def)
  note spec = insert_merged_spec [OF wf assms(2,3), of "rs_cap s"]
  show ?thesis
    using spec(1-5) spec(6) by (auto simp: insertion_def rs_wf_def rs_elems_def rs_len_def)
qed

lemma insertion_from:
  assumes "insertion s' start' end t" and "rs_cap s' = rs_cap s" and "rs_len s' \<le> rs_len s"
    and "rs_elems s' \<union> {start' ..< end} = rs_elems s \<union> {start ..< end}"
    and "{start ..< end} \<subseteq> {start' ..< end}"
  shows "insertion s start end t"
proof -
  have "{start ..< end} \<subseteq> rs_elems t"
    using assms(1,5) unfolding insertion_def by blast
  then show ?thesis using assms(1-4) unfolding insertion_def by simp
qed

lemma rs_insert_insertion:
  assumes "rs_wf s"
  shows "insertion s start end (rs_insert start end s)"
proof -
  let ?m = "rs_set s"
  have wf: "bt_wf ?m" "separated (set ?m)" using assms by (simp_all add: rs_wf_def)
  show ?thesis
  proof (cases "start < end")
    case False
    then show ?thesis using assms by (simp add: rs_insert_def insertion_def)
  next
    case lt: True
    show ?thesis
    proof (cases "prev_to ?m start")
      case None
      then have "\<forall>q \<in> set ?m. start < fst q" using wf(1) by (simp add: prev_to_def bt.last_le_None)
      then have "\<forall>p \<in> set ?m. fst p < start \<longrightarrow> snd p < start" by (auto dest: less_asym)
      with assms lt have "insertion s start end
          (s\<lparr>rs_set := insert_merged (rs_cap s) ?m start end\<rparr>)" by (rule insertion_merged)
      with None lt show ?thesis by (simp add: rs_insert_def)
    next
      case (Some r)
      have r: "r \<in> set ?m" "fst r \<le> start" using Some wf(1) by (simp_all add: prev_to_def bt.last_le_iff)
      have ne: "fst r < snd r" using r(1) wf(2) by (simp add: separated_def)
      have cov: "{fst r ..< snd r} \<subseteq> rs_elems s" using r(1) by (auto simp: rs_elems_def covered_def)
      consider "end \<le> snd r" | "snd r < end" "start \<le> snd r" | "snd r < end" "snd r < start"
        by fastforce
      then show ?thesis
      proof cases
        case 1
        then have "{start ..< end} \<subseteq> {fst r ..< snd r}" using r(2) by auto
        with cov have "{start ..< end} \<subseteq> rs_elems s" by blast
        then show ?thesis
          using 1 lt Some assms by (auto simp: rs_insert_def insertion_def)
      next
        case 2
        let ?s = "s\<lparr>rs_set := bt_remove (fst r) ?m\<rparr>"
        have del: "set (bt_remove (fst r) ?m) = set ?m - {r}" using bt.del_entry [OF wf(1) r(1)] .
        have "rs_wf ?s"
          using wf by (auto simp: rs_wf_def del intro: bt.wf_del separated_subset)
        moreover have "fst r < end" using ne 2 by (meson less_trans)
        moreover have "\<forall>p \<in> set (rs_set ?s). fst p < fst r \<longrightarrow> snd p < fst r"
          using before_prev [OF wf Some] by (simp add: del)
        ultimately have i: "insertion ?s (fst r) end
            (?s\<lparr>rs_set := insert_merged (rs_cap ?s) (rs_set ?s) (fst r) end\<rparr>)"
          by (rule insertion_merged)
        have "rs_elems ?s \<union> {fst r ..< end} = rs_elems s \<union> {start ..< end}"
          using covered_remove [OF r(1)] r(2) 2 ne by (auto simp: rs_elems_def del not_less)
        moreover have "{start ..< end} \<subseteq> {fst r ..< end}" using r(2) by auto
        moreover have "rs_len ?s < rs_len s"
          using r(1) by (auto simp: rs_len_def bt_remove_def intro: length_filter_less)
        ultimately have "insertion s start end
            (s\<lparr>rs_set := insert_merged (rs_cap s) (bt_remove (fst r) ?m) (fst r) end\<rparr>)"
          using insertion_from [OF i, of s start] by simp
        with 2 lt Some show ?thesis by (auto simp: rs_insert_def)
      next
        case 3
        have "\<forall>p \<in> set ?m. fst p < start \<longrightarrow> snd p < start"
          using before_prev [OF wf Some] 3 by blast
        with assms lt have "insertion s start end
            (s\<lparr>rs_set := insert_merged (rs_cap s) ?m start end\<rparr>)" by (rule insertion_merged)
        with 3 lt Some show ?thesis by (auto simp: rs_insert_def)
      qed
    qed
  qed
qed

subsection \<open>Removal\<close>

lemma insert_apart:
  assumes "bt_wf m" and "separated (set m)" and "k < v" and "\<forall>p \<in> set m. snd p < k \<or> v < fst p"
  shows "bt_wf (bt_insert k v m)" and "set (bt_insert k v m) = insert (k, v) (set m)"
    and "separated (set (bt_insert k v m))"
proof -
  have "k \<notin> fst ` set m"
  proof
    assume "k \<in> fst ` set m"
    then obtain p where p: "p \<in> set m" "fst p = k" by blast
    then have "fst p < snd p" using assms(2) by (auto simp: separated_def)
    with p assms(3,4) show False by (metis less_asym)
  qed
  then show eq: "set (bt_insert k v m) = insert (k, v) (set m)" using bt.ins_fresh [OF assms(1)] by metis
  show "bt_wf (bt_insert k v m)" using assms(1) by (rule bt.wf_ins)
  show "separated (set (bt_insert k v m))" unfolding eq using assms(2-4) by (rule separated_insert)
qed

lemma apart_from:
  assumes "bt_wf m" and "separated (set m)" and "r \<in> set m" and "p \<in> set m - {r}"
  shows "snd p < fst r \<or> snd r < fst p"
proof -
  have "fst p \<noteq> fst r" using assms(3,4) bt_wf_inj [OF assms(1)] by blast
  then show ?thesis using separated_apart [OF assms(2)] assms(3,4) by blast
qed

text \<open>Cutting one range of a separated set down to its upper part.\<close>

lemma cut_range:
  assumes "bt_wf m" and "separated (set m)" and "r \<in> set m" and "fst r \<le> k" and "k < snd r"
  shows "set (bt_insert k (snd r) (bt_remove (fst r) m)) = insert (k, snd r) (set m - {r})"
    and "separated (insert (k, snd r) (set m - {r}))"
proof -
  have del: "set (bt_remove (fst r) m) = set m - {r}" using bt.del_entry [OF assms(1,3)] .
  have wf: "bt_wf (bt_remove (fst r) m)" "separated (set (bt_remove (fst r) m))"
    using assms(1,2) by (auto simp: del intro: bt.wf_del separated_subset)
  have "\<forall>p \<in> set (bt_remove (fst r) m). snd p < k \<or> snd r < fst p"
    unfolding del using apart_from [OF assms(1-3)] assms(4) by (meson less_le_trans)
  note i = insert_apart [OF wf assms(5) this]
  show "set (bt_insert k (snd r) (bt_remove (fst r) m)) = insert (k, snd r) (set m - {r})"
    using i(2) del by simp
  with i(3) show "separated (insert (k, snd r) (set m - {r}))" by simp
qed

lemma remove_next_spec:
  assumes "bt_wf m" and "separated (set m)" and "start < end"
    and "\<forall>p \<in> set m. fst p < start \<longrightarrow> snd p \<le> start"
  shows "bt_wf (remove_next m start end) \<and> separated (set (remove_next m start end))
    \<and> covered (set (remove_next m start end)) = covered (set m) - {start ..< end}"
  using assms
proof (induction m start "end" rule: remove_next.induct)
  case (1 m start "end")
  note rn = remove_next.simps [of m start "end"]
  have low: "{fst p ..< snd p} \<inter> {start ..< end} = {}" if "p \<in> set m" "fst p < start" for p
    using that "1.prems"(4) by (auto dest: less_le_trans)
  show ?case
  proof (cases "next_to m start")
    case None
    then have "\<forall>q \<in> set m. fst q < start"
      using "1.prems"(1) by (simp add: next_to_def bt.first_ge_None)
    with low have "covered (set m) \<inter> {start ..< end} = {}" by (intro covered_disjoint) blast
    with None "1.prems" show ?thesis by (auto simp: rn)
  next
    case (Some r)
    then have r: "r \<in> set m" "start \<le> fst r" "\<forall>q \<in> set m. start \<le> fst q \<longrightarrow> fst r \<le> fst q"
      using "1.prems"(1) by (simp_all add: next_to_def bt.first_ge_iff)
    have ne: "fst r < snd r" using r(1) "1.prems"(2) by (simp add: separated_def)
    have high: "snd r < fst p" if "p \<in> set m - {r}" "\<not> fst p < start" for p
    proof -
      have "fst p \<noteq> fst r" using that r(1) bt_wf_inj [OF "1.prems"(1)] by blast
      then have "fst r < fst p" using that r(3) by (auto simp: not_less le_less)
      then show ?thesis using that r(1) "1.prems"(2) by (auto simp: separated_def)
    qed
    have cov: "covered (set m) = {fst r ..< snd r} \<union> covered (set m - {r})"
      using r(1) by (rule covered_remove)
    consider "end < fst r" | "fst r \<le> end" "end < snd r" | "fst r \<le> end" "snd r \<le> end"
      by fastforce
    then show ?thesis
    proof cases
      case 1
      have "{fst p ..< snd p} \<inter> {start ..< end} = {}" if "p \<in> set m" for p
      proof (cases "fst p < start")
        case True
        with that show ?thesis by (rule low)
      next
        case False
        then have "end < fst p" using r(3) that 1 by (auto simp: not_less dest: less_le_trans)
        then show ?thesis by auto
      qed
      then have "covered (set m) \<inter> {start ..< end} = {}" by (rule covered_disjoint)
      with 1 Some "1.prems" show ?thesis by (auto simp: rn)
    next
      case 2
      note cut = cut_range [OF "1.prems"(1,2) r(1) 2]
      have "{fst p ..< snd p} \<inter> {start ..< end} = {}" if "p \<in> set m - {r}" for p
        using low [of p] high [of p] that 2 by (cases "fst p < start") (auto dest: less_trans)
      then have "covered (set m - {r}) \<inter> {start ..< end} = {}" by (rule covered_disjoint)
      moreover have "{fst r ..< snd r} - {start ..< end} = {end ..< snd r}"
        using r(2) 2 by auto
      ultimately have "covered (insert (end, snd r) (set m - {r})) = covered (set m) - {start ..< end}"
        unfolding cov covered_insert by auto
      moreover have "remove_next m start end = bt_insert end (snd r) (bt_remove (fst r) m)"
        using Some 2 by (auto simp: rn)
      moreover have "bt_wf (bt_insert end (snd r) (bt_remove (fst r) m))"
        using "1.prems"(1) by (intro bt_laws)
      ultimately show ?thesis using cut by simp
    next
      case 3
      let ?m = "bt_remove (fst r) m"
      have del: "set ?m = set m - {r}" using bt.del_entry [OF "1.prems"(1) r(1)] .
      have "bt_wf (remove_next ?m start end) \<and> separated (set (remove_next ?m start end))
        \<and> covered (set (remove_next ?m start end)) = covered (set ?m) - {start ..< end}"
      proof (rule "1.IH" [OF Some])
        show "\<not> end < fst r" "\<not> end < snd r" using 3 by auto
        show "bt_wf ?m" using "1.prems"(1) by (rule bt.wf_del)
        show "separated (set ?m)" using "1.prems"(2) by (rule separated_subset) (simp add: del)
        show "\<forall>p \<in> set ?m. fst p < start \<longrightarrow> snd p \<le> start" using "1.prems"(4) by (simp add: del)
        show "start < end" by (rule "1.prems"(3))
      qed
      moreover have "{fst r ..< snd r} \<subseteq> {start ..< end}" using r(2) 3 by auto
      moreover have "remove_next m start end = remove_next ?m start end"
        using Some 3 by (auto simp: rn)
      ultimately show ?thesis unfolding cov del by auto
    qed
  qed
qed

text \<open>The overlapping preceding range is cut to what lies outside the removed range.\<close>

lemma cut_prev:
  assumes "bt_wf m" and "separated (set m)"
    and r: "r \<in> set m" and le: "fst r \<le> start" and lt: "start < end" "start < snd r"
  defines "m2 \<equiv> cut_overlap m r start end"
  shows "bt_wf m2" and "separated (set m2)"
    and "covered (set m2) = covered (set m) - ({fst r ..< snd r} \<inter> {start ..< end})"
    and "p \<in> set m2 \<Longrightarrow> fst p < start \<Longrightarrow> snd p \<le> start"
proof -
  let ?m = "bt_remove (fst r) m"
  define m1 where "m1 = (if fst r < start then bt_insert (fst r) start ?m else ?m)"
  have m2: "m2 = (if end < snd r then bt_insert end (snd r) m1 else m1)"
    by (simp add: m2_def m1_def cut_overlap_def Let_def)
  have del: "set ?m = set m - {r}" using bt.del_entry [OF assms(1) r] .
  have ap: "snd p < fst r \<or> snd r < fst p" if "p \<in> set ?m" for p
    using apart_from [OF assms(1,2) r] that del by simp
  have ne: "fst r < snd r" using r assms(2) by (simp add: separated_def)
  have wf: "bt_wf ?m" "separated (set ?m)"
    using assms(1,2) by (auto simp: del intro: bt.wf_del separated_subset)
  have "\<forall>p \<in> set ?m. snd p < fst r \<or> start < fst p" using ap lt(2) by (meson less_trans)
  note i1 = insert_apart [OF wf _ this]
  have w1: "bt_wf m1" "separated (set m1)" using i1 wf by (auto simp: m1_def)
  have s1: "set m1 = (if fst r < start then insert (fst r, start) (set m - {r}) else set m - {r})"
    using i1(2) del by (simp add: m1_def)
  have "\<forall>p \<in> set m1. snd p < end \<or> snd r < fst p"
    using ap lt le s1 del by (auto split: if_splits) (meson le_less_trans less_trans)+
  note i2 = insert_apart [OF w1 _ this]
  show "bt_wf m2" "separated (set m2)" using i2 w1 by (auto simp: m2)
  have s2: "set m2 = (if end < snd r then insert (end, snd r) (set m1) else set m1)"
    using i2(2) by (simp add: m2)
  have "covered (set ?m) \<inter> {fst r ..< snd r} = {}"
    using ap by (intro covered_disjoint) (fastforce dest: less_trans le_less_trans)
  then have "covered (set m) - ({fst r ..< snd r} \<inter> {start ..< end})
      = covered (set m - {r}) \<union> ({fst r ..< snd r} - {start ..< end})"
    using covered_remove [OF r] del by auto
  also have "{fst r ..< snd r} - {start ..< end} = {fst r ..< start} \<union> {end ..< snd r}"
    using le lt by auto
  finally show "covered (set m2) = covered (set m) - ({fst r ..< snd r} \<inter> {start ..< end})"
    using le by (auto simp: s2 s1)
  show "snd p \<le> start" if p: "p \<in> set m2" "fst p < start"
  proof -
    consider "p = (end, snd r)" | "p = (fst r, start)" | "p \<in> set m - {r}"
      using p(1) by (auto simp: s2 s1 split: if_splits)
    then show ?thesis
    proof cases
      case 3
      then have "snd p < fst r" using ap [of p] del p(2) lt(2) by (auto dest: less_trans)
      with le show ?thesis by (meson less_imp_le less_le_trans)
    qed (use p(2) lt in auto)
  qed
qed

lemma rs_remove_spec:
  assumes "rs_wf s"
  shows "rs_wf (rs_remove start end s) \<and> rs_elems (rs_remove start end s) = rs_elems s - {start ..< end}
    \<and> rs_cap (rs_remove start end s) = rs_cap s"
proof (cases "rs_is_empty s \<or> \<not> start < end")
  case True
  then show ?thesis using assms by (auto simp: rs_remove_def rs_is_empty_def rs_elems_def)
next
  case False
  let ?m = "rs_set s"
  have lt: "start < end" using False by simp
  have wf: "bt_wf ?m" "separated (set ?m)" using assms by (simp_all add: rs_wf_def)
  show ?thesis
  proof (cases "prev_to ?m start")
    case None
    then have "\<forall>q \<in> set ?m. start < fst q" using wf(1) by (simp add: prev_to_def bt.last_le_None)
    then have "\<forall>p \<in> set ?m. fst p < start \<longrightarrow> snd p \<le> start" by (auto dest: less_asym)
    from remove_next_spec [OF wf lt this] None False show ?thesis
      by (simp add: rs_remove_def rs_wf_def rs_elems_def)
  next
    case (Some r)
    have r: "r \<in> set ?m" "fst r \<le> start" using Some wf(1) by (simp_all add: prev_to_def bt.last_le_iff)
    show ?thesis
    proof (cases "start < snd r")
      case False
      then have "\<forall>p \<in> set ?m. fst p < start \<longrightarrow> snd p \<le> start"
        using before_prev [OF wf Some] by (metis less_imp_le not_less)
      from remove_next_spec [OF wf lt this] Some False \<open>\<not> (rs_is_empty s \<or> \<not> start < end)\<close>
      show ?thesis by (simp add: rs_remove_def rs_wf_def rs_elems_def)
    next
      case True
      note cut = cut_prev [OF wf r(1,2) lt True]
      show ?thesis
      proof (cases "end \<le> snd r")
        case le: True
        then have "{fst r ..< snd r} \<inter> {start ..< end} = {start ..< end}" using r(2) by auto
        with cut(1-3) le True Some \<open>\<not> (rs_is_empty s \<or> \<not> start < end)\<close> show ?thesis
          by (simp add: rs_remove_def rs_wf_def rs_elems_def Let_def)
      next
        case gt: False
        have "\<forall>p \<in> set (cut_overlap ?m r start end). fst p < start \<longrightarrow> snd p \<le> start"
          using cut(4) by blast
        note rn = remove_next_spec [OF cut(1,2) lt this]
        have "covered (set ?m) - ({fst r ..< snd r} \<inter> {start ..< end}) - {start ..< end}
          = covered (set ?m) - {start ..< end}" by blast
        with rn have "covered (set (remove_next (cut_overlap ?m r start end) start end))
          = covered (set ?m) - {start ..< end}" by (simp only: cut(3))
        with rn gt True Some \<open>\<not> (rs_is_empty s \<or> \<not> start < end)\<close>
        show ?thesis by (simp add: rs_remove_def rs_wf_def rs_elems_def Let_def)
      qed
    qed
  qed
qed
subsection \<open>Queries\<close>

lemma rs_contains_iff:
  assumes "rs_wf s"
  shows "rs_contains x s \<longleftrightarrow> x \<in> rs_elems s"
proof
  have wf: "bt_wf (rs_set s)" using assms by (simp add: rs_wf_def)
  show "x \<in> rs_elems s" if "rs_contains x s"
    using that wf
    by (auto simp: rs_contains_def in_range_def rs_elems_def covered_def prev_to_def next_to_def
        bt.last_le_iff bt.first_ge_iff split: if_splits option.splits)
  assume "x \<in> rs_elems s"
  then obtain p where p: "p \<in> set (rs_set s)" "fst p \<le> x" "x < snd p"
    by (auto simp: rs_elems_def covered_def)
  have "prev_to (rs_set s) x = Some p"
    unfolding prev_to_def bt.last_le_iff [OF wf]
  proof (intro conjI ballI impI)
    fix q assume q: "q \<in> set (rs_set s)" "fst q \<le> x"
    show "fst q \<le> fst p"
    proof (rule ccontr)
      assume "\<not> fst q \<le> fst p"
      then have "snd p < fst q" using assms p(1) q(1) by (simp add: rs_wf_def separated_def)
      with p(3) q(2) show False by (meson less_le_trans less_asym)
    qed
  qed (use p in auto)
  then show "rs_contains x s" using p by (simp add: rs_contains_def in_range_def)
qed

text \<open>Two well-formed representations of the same set are the same list of ranges.\<close>

lemma first_range_bounds:
  assumes "bt_wf (p # m)" and "separated (set (p # m))"
  shows "fst p \<in> covered (set (p # m))" and "snd p \<notin> covered (set (p # m))"
    and "\<And>x. x \<in> covered (set (p # m)) \<Longrightarrow> fst p \<le> x"
    and "\<And>x. fst p \<le> x \<Longrightarrow> x < snd p \<Longrightarrow> x \<in> covered (set (p # m))"
    and "covered (set m) = covered (set (p # m)) - {fst p ..< snd p}"
proof -
  have ne: "fst p < snd p" using assms(2) by (simp add: separated_def)
  have gt: "snd p < fst q" if "q \<in> set m" for q
    using assms that by (auto simp: separated_def bt_wf_Cons)
  have above: "snd p < x" if "x \<in> covered (set m)" for x
    using that gt unfolding covered_def by (auto dest: less_le_trans)
  show "fst p \<in> covered (set (p # m))" using ne by simp
  show "snd p \<notin> covered (set (p # m))" using above [of "snd p"] by auto
  show "fst p \<le> x" if "x \<in> covered (set (p # m))" for x
    using that above [of x] ne by auto
  show "x \<in> covered (set (p # m))" if "fst p \<le> x" "x < snd p" for x
    using that by simp
  show "covered (set m) = covered (set (p # m)) - {fst p ..< snd p}"
  proof -
    have "covered (set m) \<inter> {fst p ..< snd p} = {}" by (auto dest!: above)
    then show ?thesis by auto
  qed
qed

lemma ranges_unique:
  assumes "bt_wf m" "separated (set m)" "bt_wf m'" "separated (set m')"
    and "covered (set m) = covered (set m')"
  shows "m = m'"
  using assms
proof (induction m arbitrary: m')
  case Nil
  have "m' = []"
  proof (cases m')
    case (Cons p n)
    with first_range_bounds(1) [of p n] Nil.prems show ?thesis by simp
  qed
  then show ?case by simp
next
  case (Cons p m)
  note bp = first_range_bounds [OF Cons.prems(1,2)]
  from bp(1) Cons.prems(5) have "m' \<noteq> []" by auto
  then obtain q n where m': "m' = q # n" by (cases m') auto
  note bq = first_range_bounds [OF Cons.prems(3) [unfolded m'] Cons.prems(4) [unfolded m']]
  note eq = Cons.prems(5) [unfolded m']
  have s: "fst p = fst q"
    using bp(1,3) bq(1,3) eq by (metis order_antisym)
  have ne: "fst p < snd p" "fst q < snd q"
    using Cons.prems(2,4) by (simp_all add: m' separated_def)
  have e: "snd p = snd q"
  proof (rule ccontr)
    assume "snd p \<noteq> snd q"
    then consider "snd p < snd q" | "snd q < snd p" by fastforce
    then show False
    proof cases
      case 1
      then show False using bq(4) [of "snd p"] bp(2) eq s ne by auto
    next
      case 2
      then show False using bp(4) [of "snd q"] bq(2) eq s ne by auto
    qed
  qed
  have "m = n"
  proof (rule Cons.IH)
    show "bt_wf m" "bt_wf n" using Cons.prems(1,3) by (simp_all add: m' bt_wf_Cons)
    show "separated (set m)" "separated (set n)"
      using Cons.prems(2,4) by (auto simp: m' intro: separated_subset)
    show "covered (set m) = covered (set n)" using bp(5) bq(5) eq s e by simp
  qed
  with s e m' show ?case by (simp add: prod_eq_iff)
qed

lemma rs_filter_spec:
  assumes "rs_wf s" and "start < end"
  shows "case rs_filter start end s of
      None \<Rightarrow> {start ..< end} \<subseteq> rs_elems s
    | Some (a, b) \<Rightarrow> start \<le> a \<and> a < b \<and> b \<le> end \<and> {a ..< b} \<inter> rs_elems s = {}
        \<and> {start ..< a} \<subseteq> rs_elems s \<and> (b < end \<longrightarrow> b \<in> rs_elems s)"
proof (cases "rs_is_empty s")
  case True
  then show ?thesis using assms(2) by (simp add: rs_filter_def rs_is_empty_def rs_elems_def)
next
  case False
  let ?m = "rs_set s"
  have wf: "bt_wf ?m" "separated (set ?m)" using assms(1) by (simp_all add: rs_wf_def)
  define nend where "nend = (case next_after ?m start of
      Some r \<Rightarrow> if fst r < end then fst r else end | None \<Rightarrow> end)"
  have starts: "fst p \<in> rs_elems s" if "p \<in> set ?m" for p
    using that wf(2) by (auto simp: rs_elems_def covered_def separated_def)
  have nend: "start < nend \<and> nend \<le> end \<and> (nend < end \<longrightarrow> nend \<in> rs_elems s)
      \<and> (\<forall>p \<in> set ?m. start < fst p \<longrightarrow> nend \<le> fst p)
      \<and> (nend = end \<or> (\<exists>q \<in> set ?m. start < fst q \<and> nend = fst q))"
  proof (cases "next_after ?m start")
    case None
    then have "\<forall>q \<in> set ?m. fst q \<le> start" using wf(1) by (simp add: next_after_def bt.first_gt_None)
    then show ?thesis using assms(2) None by (auto simp: nend_def dest: leD)
  next
    case (Some q)
    then have q: "q \<in> set ?m" "start < fst q" "\<forall>p \<in> set ?m. start < fst p \<longrightarrow> fst q \<le> fst p"
      using wf(1) by (simp_all add: next_after_def bt.first_gt_iff)
    then show ?thesis using starts [OF q(1)] assms(2) Some by (auto simp: nend_def)
  qed
  have free: "{a ..< nend} \<inter> rs_elems s = {}"
    if "\<forall>p \<in> set ?m. fst p \<le> start \<longrightarrow> snd p \<le> a" for a
    unfolding rs_elems_def Int_commute [of "{a ..< nend}"]
  proof (rule covered_disjoint)
    fix p assume p: "p \<in> set ?m"
    show "{fst p ..< snd p} \<inter> {a ..< nend} = {}"
    proof (cases "fst p \<le> start")
      case True
      with that p show ?thesis by (auto dest: less_le_trans)
    next
      case False
      then have "nend \<le> fst p" using nend p by auto
      then show ?thesis by auto
    qed
  qed
  show ?thesis
  proof (cases "prev_to ?m start")
    case None
    then have "\<forall>q \<in> set ?m. start < fst q" using wf(1) by (simp add: prev_to_def bt.last_le_None)
    then have "{start ..< nend} \<inter> rs_elems s = {}" by (intro free) (auto dest: leD)
    moreover have "rs_filter start end s = Some (start, nend)"
      using None False by (simp add: rs_filter_def nend_def Let_def)
    ultimately show ?thesis using nend by simp
  next
    case (Some r)
    have r: "r \<in> set ?m" "fst r \<le> start" using Some wf(1) by (simp_all add: prev_to_def bt.last_le_iff)
    have in_r: "{fst r ..< snd r} \<subseteq> rs_elems s" using r(1) by (auto simp: rs_elems_def covered_def)
    have le: "snd p \<le> max (snd r) start" if "p \<in> set ?m" "fst p \<le> start" for p
    proof (cases "p = r")
      case False
      then have "fst p < fst r \<or> fst p < start \<and> p \<noteq> r"
        using that Some r bt_wf_inj [OF wf(1) that(1) r(1)] wf(1)
        by (auto simp: prev_to_def bt.last_le_iff le_less)
      then show ?thesis using before_prev [OF wf Some that(1)] by (auto simp: le_max_iff_disj)
    qed simp
    consider "end \<le> snd r" | "snd r < end" "start < snd r" | "snd r \<le> start" by fastforce
    then show ?thesis
    proof cases
      case 1
      then have "{start ..< end} \<subseteq> {fst r ..< snd r}" using r(2) by auto
      with in_r have "{start ..< end} \<subseteq> rs_elems s" by blast
      with 1 False Some show ?thesis by (simp add: rs_filter_def)
    next
      case 2
      then have "\<forall>p \<in> set ?m. fst p \<le> start \<longrightarrow> snd p \<le> snd r"
        using le by (metis less_imp_le max.absorb1)
      then have "{snd r ..< nend} \<inter> rs_elems s = {}" by (rule free)
      moreover have "{start ..< snd r} \<subseteq> rs_elems s"
        using r(2) by (intro order_trans [OF _ in_r]) auto
      moreover have "snd r < nend"
        using nend
      proof (elim conjE disjE)
        assume "\<exists>q \<in> set ?m. start < fst q \<and> nend = fst q"
        then obtain q where q: "q \<in> set ?m" "start < fst q" "nend = fst q" by blast
        then show ?thesis using r wf(2) by (auto simp: separated_def)
      qed (use 2 in simp)
      moreover have "rs_filter start end s = Some (snd r, nend)"
        using 2 False Some by (auto simp: rs_filter_def nend_def Let_def)
      ultimately show ?thesis using 2 nend by simp
    next
      case 3
      then have "\<forall>p \<in> set ?m. fst p \<le> start \<longrightarrow> snd p \<le> start"
        using le by (metis max.absorb2)
      then have "{start ..< nend} \<inter> rs_elems s = {}" by (rule free)
      moreover have "rs_filter start end s = Some (start, nend)"
        using 3 False Some assms(2) by (auto simp: rs_filter_def nend_def Let_def)
      ultimately show ?thesis using nend by simp
    qed
  qed
qed

text \<open>Removing the smallest range.\<close>

lemma bt_remove_first: "bt_wf (r # m) \<Longrightarrow> bt_remove (fst r) (r # m) = m"
  by (auto simp: bt_remove_def bt_wf_Cons intro!: filter_True)

lemma pop_min_spec:
  assumes "rs_wf s" and "pop_min s = (Some r, t)"
  shows "rs_wf t \<and> rs_set s = r # rs_set t \<and> rs_elems t = rs_elems s - {fst r ..< snd r}"
proof -
  from assms(2) obtain m where m: "rs_set s = r # m" and t: "t = s\<lparr>rs_set := bt_remove (fst r) (rs_set s)\<rparr>"
    by (auto simp: pop_min_def peek_min_def bt_first_def split: option.splits list.splits)
  have wf: "bt_wf (r # m)" "separated (set (r # m))" using assms(1) m by (simp_all add: rs_wf_def)
  have "bt_remove (fst r) (r # m) = m" using wf(1) by (rule bt_remove_first)
  then show ?thesis
    using t m wf first_range_bounds(5) [OF wf]
    by (auto simp: rs_wf_def rs_elems_def bt_wf_Cons intro: separated_subset)
qed

text \<open>Dropping a prefix of the integers.\<close>

lemma less_Suc_word:
  fixes a x :: "'a::len word"
  assumes "a < - 1"
  shows "a + 1 \<le> x \<longleftrightarrow> a < x"
  using unat_Suc_small [OF assms] by (simp add: word_le_nat_alt word_less_nat_alt Suc_le_eq)

lemma remove_until_steps:
  assumes "rs_wf s" and "elem < - 1" and "rs_set s = xs @ ys" and "rs_len s \<le> rs_cap s"
    and "\<forall>r \<in> set xs. fst r \<le> elem" and "\<forall>r \<in> set ys. elem < fst r"
  shows "rs_wf (fold (remove_until_step elem) xs s)
    \<and> rs_elems (fold (remove_until_step elem) xs s) = {x \<in> rs_elems s. elem < x}"
  using assms
proof (induction xs arbitrary: s)
  case Nil
  have "elem < x" if "x \<in> rs_elems s" for x
    using that Nil.prems(3,6) by (auto simp: rs_elems_def covered_def dest: less_le_trans)
  with Nil.prems show ?case by auto
next
  case (Cons r xs)
  let ?t = "s\<lparr>rs_set := xs @ ys\<rparr>"
  have wf: "bt_wf (r # xs @ ys)" "separated (set (r # xs @ ys))"
    using Cons.prems(1,3) by (simp_all add: rs_wf_def)
  have "bt_remove (fst r) (r # xs @ ys) = xs @ ys"
    using wf(1) by (rule bt_remove_first)
  then have st: "remove_until_step elem r s =
      (if elem + 1 < snd r then rs_insert (elem + 1) (snd r) ?t else ?t)"
    using Cons.prems(3) by (simp add: remove_until_step_def Let_def)
  have wft: "rs_wf ?t" using wf by (auto simp: rs_wf_def bt_wf_Cons intro: separated_subset)
  have elt: "rs_elems ?t = rs_elems s - {fst r ..< snd r}"
    using first_range_bounds(5) [OF wf] Cons.prems(3) by (simp add: rs_elems_def)
  have inr: "x \<in> rs_elems s" if "fst r \<le> x" "x < snd r" for x
    using Cons.prems(3) that by (auto simp: rs_elems_def)
  have lent: "rs_len ?t < rs_cap ?t" using Cons.prems(3,4) by (simp add: rs_len_def)
  show ?case
  proof (cases "elem + 1 < snd r")
    case False
    have "elem + 1 < snd r" if "elem < x" "x < snd r" for x
      using that less_Suc_word [OF Cons.prems(2), of x] by (meson le_less_trans)
    with False have "\<not> x < snd r" if "elem < x" for x using that by blast
    with Cons.IH [OF wft Cons.prems(2)] Cons.prems(5,6) lent st False elt show ?thesis
      by (auto simp: less_imp_le)
  next
    case True
    have "xs = []"
    proof (cases xs)
      case (Cons q qs)
      then have "snd r < fst q" using wf by (auto simp: separated_def bt_wf_Cons)
      moreover have "fst q \<le> elem" using Cons.prems(5) Cons by simp
      ultimately have "snd r \<le> elem" by simp
      moreover have "elem < elem + 1" using less_Suc_word [OF assms(2), of "elem + 1"] by simp
      ultimately show ?thesis using True by simp
    qed simp
    moreover have "insertion ?t (elem + 1) (snd r) (rs_insert (elem + 1) (snd r) ?t)"
      using wft by (rule rs_insert_insertion)
    ultimately have "rs_wf (rs_insert (elem + 1) (snd r) ?t)"
      and "rs_elems (rs_insert (elem + 1) (snd r) ?t) = rs_elems ?t \<union> {elem + 1 ..< snd r}"
      using lent by (simp_all add: insertion_def)
    moreover have "elem < x" if "x \<in> rs_elems ?t" for x
      using that \<open>xs = []\<close> Cons.prems(6) by (auto simp: rs_elems_def covered_def dest: less_le_trans)
    moreover have "fst r \<le> elem" using Cons.prems(5) by simp
    ultimately show ?thesis
      using st True \<open>xs = []\<close> elt inr by (auto simp: less_Suc_word [OF assms(2)])
  qed
qed

lemma remove_until_spec:
  assumes "rs_wf s" and "elem < - 1" and "rs_len s \<le> rs_cap s"
  shows "rs_wf (remove_until elem s) \<and> rs_elems (remove_until elem s) = {x \<in> rs_elems s. elem < x}"
proof -
  have split: "filter (\<lambda>r. fst r \<le> elem) m @ filter (\<lambda>r. \<not> fst r \<le> elem) m = m"
    if "bt_wf m" for m :: "(u64, u64) btree"
    using that
  proof (induction m)
    case (Cons p m)
    show ?case
    proof (cases "fst p \<le> elem")
      case True
      with Cons show ?thesis by (simp add: bt_wf_Cons)
    next
      case False
      then have "filter (\<lambda>r. fst r \<le> elem) m = []" "filter (\<lambda>r. \<not> fst r \<le> elem) m = m"
        using Cons.prems by (auto simp: bt_wf_Cons filter_empty_conv filter_id_conv)
      with False show ?thesis by simp
    qed
  qed simp
  have "bt_wf (rs_set s)" using assms(1) by (simp add: rs_wf_def)
  then show ?thesis
    unfolding remove_until_def
    by (intro remove_until_steps [OF assms(1,2) split [symmetric] assms(3)]) auto
qed

text \<open>Prepending a lower range: the shape in which ACK ranges arrive.\<close>

lemma rs_insert_below:
  assumes "rs_wf s" and "start < end" and "\<forall>p \<in> set (rs_set s). end < fst p" and "rs_len s < rs_cap s"
  shows "rs_insert start end s = s\<lparr>rs_set := (start, end) # rs_set s\<rparr>"
proof -
  have wf: "bt_wf ((start, end) # rs_set s)" "separated (set ((start, end) # rs_set s))"
    using assms by (auto simp: rs_wf_def bt_wf_Cons intro: less_trans separated_insert)
  have ins: "insertion s start end (rs_insert start end s)" using assms(1) by (rule rs_insert_insertion)
  then have "rs_set (rs_insert start end s) = (start, end) # rs_set s"
    using wf assms(4)
    by (intro ranges_unique) (auto simp: insertion_def rs_wf_def rs_elems_def)
  moreover have "rs_cap (rs_insert start end s) = rs_cap s" using ins by (simp add: insertion_def)
  ultimately show ?thesis by simp
qed

subsection \<open>Properties\<close>

text \<open>C26: inserting a range into a range set keeps the representation invariant and the capacity
  bound, and the set then represents the union; only a set that is already at its capacity gives up
  elements, and never those just inserted.\<close>

theorem range_insert_correct:
  fixes s :: "'a::linorder rangeset"
  assumes "rs_wf s"
  shows "rs_wf (rs_insert a b s) \<and> rs_cap (rs_insert a b s) = rs_cap s
    \<and> {a ..< b} \<subseteq> rs_elems (rs_insert a b s) \<and> rs_elems (rs_insert a b s) \<subseteq> rs_elems s \<union> {a ..< b}
    \<and> (rs_len s < rs_cap s \<longrightarrow> rs_elems (rs_insert a b s) = rs_elems s \<union> {a ..< b})
    \<and> (rs_len s \<le> max 1 (rs_cap s) \<longrightarrow> rs_len (rs_insert a b s) \<le> max 1 (rs_cap s))"
  using rs_insert_insertion [OF assms, of a b] by (simp add: insertion_def)

theorem range_insert_correct_witness:
  "rs_wf (rs_insert 5 9 (rs_insert 1 (3 :: nat) (rs_new 4)))
    \<and> rs_elems (rs_insert 5 9 (rs_insert 1 (3 :: nat) (rs_new 4)))
      = rs_elems (rs_insert 1 (3 :: nat) (rs_new 4)) \<union> {5 ..< 9}"
proof -
  let ?s = "rs_insert 1 (3 :: nat) (rs_new 4)"
  have "rs_wf ?s" using range_insert_correct [of "rs_new 4" 1 "3 :: nat"] by simp
  moreover have "rs_len ?s < rs_cap ?s"
    by (simp add: rs_insert_def rs_new_def prev_to_def bt_last_le_def insert_merged_def merge_next.simps next_to_def
        bt_first_ge_def rs_len_def)
  ultimately show ?thesis using range_insert_correct [of ?s 5 9] by simp
qed

text \<open>removing a range keeps the invariant and the set then represents the difference;
  membership, the first uncovered subrange and the smallest range are those of the represented
  set.\<close>

theorem range_remove_correct:
  fixes s :: "'a::linorder rangeset"
  assumes "rs_wf s"
  shows "rs_wf (rs_remove a b s) \<and> rs_elems (rs_remove a b s) = rs_elems s - {a ..< b}
    \<and> (rs_contains x s \<longleftrightarrow> x \<in> rs_elems s)
    \<and> (a < b \<longrightarrow> (case rs_filter a b s of
         None \<Rightarrow> {a ..< b} \<subseteq> rs_elems s
       | Some (c, d) \<Rightarrow> a \<le> c \<and> c < d \<and> d \<le> b \<and> {c ..< d} \<inter> rs_elems s = {}
           \<and> {a ..< c} \<subseteq> rs_elems s \<and> (d < b \<longrightarrow> d \<in> rs_elems s)))"
  using rs_remove_spec [OF assms, of a b] rs_contains_iff [OF assms, of x] rs_filter_spec [OF assms, of a b]
  by simp

theorem range_remove_correct_witness:
  "rs_wf (rs_remove 4 6 (rs_insert 2 (9 :: nat) (rs_new 4)))
    \<and> rs_elems (rs_remove 4 6 (rs_insert 2 (9 :: nat) (rs_new 4)))
      = rs_elems (rs_insert 2 (9 :: nat) (rs_new 4)) - {4 ..< 6}"
proof -
  have "rs_wf (rs_insert 2 (9 :: nat) (rs_new 4))"
    using rs_insert_insertion [of "rs_new 4" 2 "9 :: nat"] by (simp add: insertion_def)
  then show ?thesis using range_remove_correct [of "rs_insert 2 (9 :: nat) (rs_new 4)" 4 6] by simp
qed

text \<open>A well-formed range set is the only representation of its elements, so that comparing
  representations, as \<open>PartialEq\<close> does, compares sets.\<close>

theorem range_set_canonical:
  fixes s t :: "'a::linorder rangeset"
  assumes "rs_wf s" and "rs_wf t"
  shows "rs_set s = rs_set t \<longleftrightarrow> rs_elems s = rs_elems t"
  using ranges_unique [of "rs_set s" "rs_set t"] assms by (auto simp: rs_wf_def rs_elems_def)

theorem range_set_canonical_witness:
  "rs_wf (rs_new 1 :: nat rangeset) \<and> rs_wf (rs_new 2 :: nat rangeset) \<and>
   (rs_set (rs_new 1 :: nat rangeset) = rs_set (rs_new 2) \<longleftrightarrow> rs_elems (rs_new 1 :: nat rangeset) = rs_elems (rs_new 2))"
  using range_set_canonical [of "rs_new 1 :: nat rangeset" "rs_new 2"] by simp

end
