(* ===== verification/Packet.thy ===== *)
theory Packet
  imports Codec Ranges
begin

unbundle bit_operations_syntax

text \<open>
  QUIC packets (src/packet.rs): headers in long and short form, packet number truncation and
  recovery, header protection, and the packets built without a connection (Version Negotiation,
  Retry, Stateless Reset). Connection identifiers (src/lib.rs) are the bytes a \<open>ConnectionId\<close>
  dereferences to, at most 20.

  The AEAD is a parameter: \<open>new_mask\<close> maps a ciphertext sample to the five mask bytes, \<open>seal\<close> and
  \<open>open_aead\<close> encrypt and decrypt a payload, \<open>retry_tag\<close> authenticates the Retry pseudo-packet.
  Random bytes are parameters too.
\<close>

subsection \<open>Connection identifiers and versions\<close>

type_synonym cid = bytes

definition MAX_CID_LEN :: nat where
  "MAX_CID_LEN = 20"

definition cid_new :: "bytes \<Rightarrow> cid" where
  "cid_new bs = take (min (length bs) MAX_CID_LEN) bs"

definition QUIC_VERSION_V1 :: u32 where
  "QUIC_VERSION_V1 = 0x00000001"

definition version_is_supported :: "u32 \<Rightarrow> bool" where
  "version_is_supported v \<longleftrightarrow> v = QUIC_VERSION_V1"

definition MIN_RESET_PACKET_LEN :: nat where
  "MIN_RESET_PACKET_LEN = 21"

definition RESET_TOKEN_LEN :: nat where
  "RESET_TOKEN_LEN = 16"

subsection \<open>Packet types\<close>

definition HEADER_LONG_FORM_BIT :: u8 where "HEADER_LONG_FORM_BIT = 0x80"
definition HEADER_FIXED_BIT :: u8 where "HEADER_FIXED_BIT = 0x40"
definition HEADER_KEY_PHASE_BIT :: u8 where "HEADER_KEY_PHASE_BIT = 0x04"
definition PKT_TYPE_MASK :: u8 where "PKT_TYPE_MASK = 0x30"
definition PKT_NUM_LEN_MASK :: u8 where "PKT_NUM_LEN_MASK = 0x03"
definition MAX_PKT_NUM_LEN :: nat where "MAX_PKT_NUM_LEN = 4"
definition SAMPLE_LEN :: nat where "SAMPLE_LEN = 16"
definition TAG_LEN :: nat where "TAG_LEN = 16"

lemmas packet_consts = HEADER_LONG_FORM_BIT_def HEADER_FIXED_BIT_def HEADER_KEY_PHASE_BIT_def
  PKT_TYPE_MASK_def PKT_NUM_LEN_MASK_def MAX_PKT_NUM_LEN_def SAMPLE_LEN_def TAG_LEN_def

datatype packet_type = VersionNegotiation | Initial | ZeroRTT | Handshake | Retry | OneRTT

datatype level = LInitial | LZeroRTT | LHandshake | LOneRTT

datatype space_id = SInitial | SHandshake | SData | SDataExt u64

fun packet_to_level :: "packet_type \<Rightarrow> level res" where
  "packet_to_level Initial = Ok LInitial"
| "packet_to_level ZeroRTT = Ok LZeroRTT"
| "packet_to_level Handshake = Ok LHandshake"
| "packet_to_level OneRTT = Ok LOneRTT"
| "packet_to_level _ = Err InternalError"

fun packet_to_space :: "packet_type \<Rightarrow> space_id res" where
  "packet_to_space Initial = Ok SInitial"
| "packet_to_space Handshake = Ok SHandshake"
| "packet_to_space ZeroRTT = Ok SData"
| "packet_to_space OneRTT = Ok SData"
| "packet_to_space _ = Err InternalError"

fun space_to_level :: "space_id \<Rightarrow> level" where
  "space_to_level SInitial = LInitial"
| "space_to_level SHandshake = LHandshake"
| "space_to_level SData = LOneRTT"
| "space_to_level (SDataExt _) = LOneRTT"

subsection \<open>Packet headers\<close>

record packet_header =
  ph_pkt_type :: packet_type
  ph_version :: u32
  ph_dcid :: cid
  ph_scid :: cid
  ph_pkt_num_len :: nat
  ph_pkt_num :: u64
  ph_token :: "bytes option"
  ph_key_phase :: bool

definition long_header :: "u8 \<Rightarrow> bool" where
  "long_header header_first_byte \<longleftrightarrow> header_first_byte AND HEADER_LONG_FORM_BIT \<noteq> 0"

fun long_type_bits :: "packet_type \<Rightarrow> u8 res" where
  "long_type_bits Initial = Ok 0x00"
| "long_type_bits ZeroRTT = Ok 0x01"
| "long_type_bits Handshake = Ok 0x02"
| "long_type_bits Retry = Ok 0x03"
| "long_type_bits _ = Err InternalError"

definition header_to_bytes :: "packet_header \<Rightarrow> error writer" where
  "header_to_bytes h w =
     (if ph_pkt_type h = OneRTT then
        let first = HEADER_FIXED_BIT;
            first = (if ph_key_phase h then first OR HEADER_KEY_PHASE_BIT else first);
            first = first OR word_of_nat (ph_pkt_num_len h - 1)
        in write_all [write_u8 first, write_bytes (ph_dcid h)] w
      else
        bind_r (long_type_bits (ph_pkt_type h)) (\<lambda>t.
        let first = HEADER_LONG_FORM_BIT OR HEADER_FIXED_BIT;
            first = first OR push_bit 4 t;
            first = first OR word_of_nat (ph_pkt_num_len h - 1);
            common = [write_u8 first, write_u32 (ph_version h),
                      write_u8 (word_of_nat (length (ph_dcid h))), write_bytes (ph_dcid h),
                      write_u8 (word_of_nat (length (ph_scid h))), write_bytes (ph_scid h)]
        in case ph_pkt_type h of
             Initial \<Rightarrow>
               (case ph_token h of
                  Some v \<Rightarrow>
                    write_all (common @ [write_varint (as_u64 (length v)), write_bytes v]) w
                | None \<Rightarrow> write_all (common @ [write_varint 0]) w)
           | Retry \<Rightarrow>
               write_all (common @ [\<lambda>w. bind_r (unwrap (ph_token h)) (\<lambda>v. write_bytes v w)]) w
           | _ \<Rightarrow> write_all common w))"

text \<open>The packet type of a long header, and the token of Initial and Retry packets.\<close>

definition long_packet_type :: "u32 \<Rightarrow> u8 \<Rightarrow> packet_type res" where
  "long_packet_type version first =
     (if version = 0 then Ok VersionNegotiation
      else let t = drop_bit 4 (first AND PKT_TYPE_MASK) in
        if t = 0x00 then Ok Initial
        else if t = 0x01 then Ok ZeroRTT
        else if t = 0x02 then Ok Handshake
        else if t = 0x03 then Ok Retry
        else Err InvalidPacket)"

definition read_token :: "packet_type \<Rightarrow> (bytes option, error) reader" where
  "read_token pkt_type b =
     (case pkt_type of
        Initial \<Rightarrow>
          bind_r (read_varint b) (\<lambda>(token_len, b).
          if 0 < token_len
          then bind_r (read_bytes (as_usize token_len) b) (\<lambda>(t, b). Ok (Some t, b))
          else Ok (None, b))
      | Retry \<Rightarrow>
          if length b < TAG_LEN then Err InvalidPacket
          else bind_r (read_bytes (length b - TAG_LEN) b) (\<lambda>(t, b). Ok (Some t, b))
      | _ \<Rightarrow> Ok (None, b))"

definition header_from_bytes :: "bytes \<Rightarrow> nat \<Rightarrow> (packet_header \<times> nat) res" where
  "header_from_bytes buf dcid_len =
     bind_r (read_u8 buf) (\<lambda>(first, b).
     if \<not> long_header first then
       bind_r (read_bytes dcid_len b) (\<lambda>(dcid, b).
       Ok (\<lparr>ph_pkt_type = OneRTT, ph_version = 0, ph_dcid = cid_new dcid, ph_scid = [], ph_pkt_num_len = 0,
            ph_pkt_num = 0, ph_token = None, ph_key_phase = False\<rparr>, length buf - length b))
     else
       bind_r (read_u32 b) (\<lambda>(version, b).
       bind_r (long_packet_type version first) (\<lambda>pkt_type.
       bind_r (read_u8 b) (\<lambda>(dcid_len, b).
       if version_is_supported version \<and> word_of_nat MAX_CID_LEN < dcid_len
       then Err InvalidPacket else
       bind_r (read_bytes (unat dcid_len) b) (\<lambda>(dcid, b).
       bind_r (read_u8 b) (\<lambda>(scid_len, b).
       if version_is_supported version \<and> word_of_nat MAX_CID_LEN < scid_len
       then Err InvalidPacket else
       bind_r (read_bytes (unat scid_len) b) (\<lambda>(scid, b).
       bind_r (read_token pkt_type b) (\<lambda>(token, b).
       Ok (\<lparr>ph_pkt_type = pkt_type, ph_version = version, ph_dcid = cid_new dcid, ph_scid = cid_new scid,
            ph_pkt_num_len = 0, ph_pkt_num = 0, ph_token = token, ph_key_phase = False\<rparr>,
           length buf - length b)))))))))"

definition header_info :: "bytes \<Rightarrow> nat \<Rightarrow> (bool \<times> u32 \<times> cid) res" where
  "header_info buf dcid_len =
     bind_r (read_u8 buf) (\<lambda>(first, b).
     if \<not> long_header first then
       bind_r (read_bytes dcid_len b) (\<lambda>(dcid, b). Ok (False, 0, cid_new dcid))
     else
       bind_r (read_u32 b) (\<lambda>(version, b).
       bind_r (read_u8 b) (\<lambda>(dcid_len, b).
       bind_r (read_bytes (unat dcid_len) b) (\<lambda>(dcid, b).
       Ok (True, version, cid_new dcid)))))"

subsection \<open>Packet and header protection\<close>

text \<open>\<open>for i in 0..n { buf[i] ^= mask[i + 1] }\<close> on the packet number field.\<close>

definition mask_pkt_num :: "bytes \<Rightarrow> bytes \<Rightarrow> bytes res" where
  "mask_pkt_num msk pn =
     (if length msk < length pn + 1 then Panic
      else Ok (map2 (XOR) pn (take (length pn) (drop 1 msk))))"

definition mask_first :: "u8 \<Rightarrow> u8 \<Rightarrow> u8" where
  "mask_first m first =
     (if long_header first then first XOR (m AND 0x0f) else first XOR (m AND 0x1f))"

definition encrypt_header :: "(bytes \<Rightarrow> bytes res) \<Rightarrow> bytes \<Rightarrow> nat \<Rightarrow> bytes \<Rightarrow> bytes res" where
  "encrypt_header new_mask hdr_buf pn_len payload =
     (if MAX_PKT_NUM_LEN < pn_len then Panic
      else let sample_start = MAX_PKT_NUM_LEN - pn_len in
      if length payload < sample_start + SAMPLE_LEN then Panic
      else bind_r (new_mask (take SAMPLE_LEN (drop sample_start payload))) (\<lambda>msk.
        case (hdr_buf, msk) of
          (first # rest, m # _) \<Rightarrow>
            if length rest < pn_len then Panic
            else bind_r (mask_pkt_num msk (drop (length rest - pn_len) rest)) (\<lambda>pn.
              Ok (mask_first m first # take (length rest - pn_len) rest @ pn))
        | _ \<Rightarrow> Panic))"

definition encrypt_packet ::
  "(bytes \<Rightarrow> bytes res) \<Rightarrow>
   (u32 option \<Rightarrow> u64 \<Rightarrow> bytes \<Rightarrow> bytes \<Rightarrow> nat \<Rightarrow> bytes option \<Rightarrow> (nat \<times> bytes) res) \<Rightarrow>
   bytes \<Rightarrow> u32 option \<Rightarrow> u64 \<Rightarrow> nat \<Rightarrow> nat \<Rightarrow> nat \<Rightarrow> bytes option \<Rightarrow> (nat \<times> bytes) res" where
  "encrypt_packet new_mask seal pkt_buf cid_seq pkt_num pkt_num_len payload_len payload_offset extra =
     (if length pkt_buf < payload_offset + payload_len then Err BufferTooShort
      else let pkt_hdr = take payload_offset pkt_buf; payload = drop payload_offset pkt_buf in
      bind_r (seal cid_seq pkt_num pkt_hdr payload payload_len extra) (\<lambda>(ciphertext_len, payload).
      bind_r (encrypt_header new_mask pkt_hdr pkt_num_len payload) (\<lambda>pkt_hdr.
      Ok (payload_offset + ciphertext_len, pkt_hdr @ payload))))"

definition decrypt_payload ::
  "(u32 option \<Rightarrow> u64 \<Rightarrow> bytes \<Rightarrow> bytes \<Rightarrow> bytes res) \<Rightarrow>
   bytes \<Rightarrow> nat \<Rightarrow> nat \<Rightarrow> u32 option \<Rightarrow> u64 \<Rightarrow> bytes res" where
  "decrypt_payload open_aead pkt_buf payload_offset payload_len cid_seq pkt_num =
     (if length pkt_buf < payload_offset + payload_len then Err BufferTooShort
      else open_aead cid_seq pkt_num (take payload_offset pkt_buf)
             (take payload_len (drop payload_offset pkt_buf)))"

definition decode_pkt_num_field :: "bytes \<Rightarrow> u64 res" where
  "decode_pkt_num_field b =
     (if length b = 1 then bind_r (read_u8 b) (\<lambda>(v, _). Ok (ucast v))
      else if length b = 2 then bind_r (read_u16 b) (\<lambda>(v, _). Ok (ucast v))
      else if length b = 3 then bind_r (read_u24 b) (\<lambda>(v, _). Ok (ucast v))
      else if length b = 4 then bind_r (read_u32 b) (\<lambda>(v, _). Ok (ucast v))
      else Err InvalidPacket)"

definition decrypt_header ::
  "(bytes \<Rightarrow> bytes res) \<Rightarrow> bytes \<Rightarrow> nat \<Rightarrow> packet_header \<Rightarrow> bool \<Rightarrow> (bytes \<times> packet_header) res" where
  "decrypt_header new_mask pkt_buf pkt_num_offset hdr plaintext_mode =
     (let pkt_buf_min = (if \<not> plaintext_mode then pkt_num_offset + MAX_PKT_NUM_LEN + SAMPLE_LEN
                         else pkt_num_offset + MAX_PKT_NUM_LEN) in
      if length pkt_buf < pkt_buf_min then Err BufferTooShort
      else
        bind_r
          (if \<not> plaintext_mode then
             bind_r (new_mask (take SAMPLE_LEN (drop (pkt_num_offset + MAX_PKT_NUM_LEN) pkt_buf)))
               (\<lambda>msk. case msk of
                    [] \<Rightarrow> Panic
                  | m # _ \<Rightarrow>
                      let first = mask_first m (pkt_buf ! 0);
                          pn_len = unat ((first AND PKT_NUM_LEN_MASK) + 1)
                      in bind_r (mask_pkt_num msk (take pn_len (drop pkt_num_offset pkt_buf)))
                           (\<lambda>pn. Ok (first, pn_len, pn)))
           else
             let first = pkt_buf ! 0; pn_len = unat ((first AND PKT_NUM_LEN_MASK) + 1)
             in Ok (first, pn_len, take pn_len (drop pkt_num_offset pkt_buf)))
          (\<lambda>(first, pn_len, pn).
             bind_r (decode_pkt_num_field pn) (\<lambda>n.
             let buf = take pkt_num_offset pkt_buf @ pn @ drop (pkt_num_offset + pn_len) pkt_buf;
                 hdr = hdr\<lparr>ph_pkt_num_len := pn_len, ph_pkt_num := n\<rparr>
             in Ok (buf[0 := first],
                    if ph_pkt_type hdr = OneRTT
                    then hdr\<lparr>ph_key_phase := (first AND HEADER_KEY_PHASE_BIT \<noteq> 0)\<rparr> else hdr))))"

subsection \<open>Packet numbers\<close>

definition decode_packet_num :: "u64 \<Rightarrow> u64 \<Rightarrow> nat \<Rightarrow> u64" where
  "decode_packet_num largest_pn truncated_pn pkt_num_len =
     (let pn_nbits = pkt_num_len * 8;
          expected_pn = largest_pn + 1;
          pn_win = push_bit pn_nbits 1;
          pn_hwin = pn_win div 2;
          pn_mask = pn_win - 1;
          candidate_pn = (expected_pn AND NOT pn_mask) OR truncated_pn
      in if candidate_pn + pn_hwin \<le> expected_pn \<and> candidate_pn < push_bit 62 1 - pn_win
         then candidate_pn + pn_win
         else if candidate_pn > expected_pn + pn_hwin \<and> candidate_pn \<ge> pn_win
         then candidate_pn - pn_win
         else candidate_pn)"

definition encode_packet_num :: "u64 \<Rightarrow> nat \<Rightarrow> error writer" where
  "encode_packet_num pkt_num len w =
     bind_r
       (if len = 1 then write_u8 (ucast pkt_num) w
        else if len = 2 then write_u16 (ucast pkt_num) w
        else if len = 3 then write_u24 (ucast pkt_num) w
        else if len = 4 then write_u32 (ucast pkt_num) w
        else Err InvalidPacket)
       (\<lambda>(_, w). Ok (len, w))"

text \<open>Number of significant bits; \<open>leading_zeros\<close> of a \<open>u64\<close> is 64 minus it.\<close>

fun bit_width :: "nat \<Rightarrow> nat" where
  "bit_width n = (if n = 0 then 0 else Suc (bit_width (n div 2)))"

declare bit_width.simps [simp del]

definition leading_zeros :: "u64 \<Rightarrow> nat" where
  "leading_zeros x = 64 - bit_width (unat x)"

definition packet_num_len :: "u64 \<Rightarrow> u64 option \<Rightarrow> nat" where
  "packet_num_len pkt_num largest_acked =
     (let num_unacked = (case largest_acked of
                           Some a \<Rightarrow> saturating_sub pkt_num a
                         | None \<Rightarrow> saturating_add pkt_num 1);
          min_bits = 64 - leading_zeros num_unacked + 1
      in (min_bits + 7) div 8)"

subsection \<open>Packets sent outside a connection\<close>

definition version_negotiation :: "u8 \<Rightarrow> bytes \<Rightarrow> bytes \<Rightarrow> error writer" where
  "version_negotiation rnd scid dcid =
     write_all [write_u8 (rnd OR HEADER_LONG_FORM_BIT), write_u32 0,
                write_u8 (word_of_nat (length dcid)), write_bytes dcid,
                write_u8 (word_of_nat (length scid)), write_bytes scid,
                write_u32 QUIC_VERSION_V1]"

definition retry_pseudo_packet :: "bytes \<Rightarrow> bytes \<Rightarrow> bytes res" where
  "retry_pseudo_packet retry_hdr odcid =
     bind_r (write_all [write_u8 (word_of_nat (length odcid)), write_bytes odcid, write_bytes retry_hdr]
               (new_wbuf (1 + length odcid + length retry_hdr)))
       (\<lambda>(_, w). Ok (written w))"

definition compute_retry_integrity_tag ::
  "(bytes \<Rightarrow> bytes res) \<Rightarrow> bytes \<Rightarrow> bytes \<Rightarrow> u32 \<Rightarrow> bytes res" where
  "compute_retry_integrity_tag retry_tag retry_hdr odcid version =
     bind_r (retry_pseudo_packet retry_hdr odcid) retry_tag"

definition retry ::
  "(bytes \<Rightarrow> bytes res) \<Rightarrow> bytes \<Rightarrow> bytes \<Rightarrow> bytes \<Rightarrow> bytes \<Rightarrow> u32 \<Rightarrow> nat \<Rightarrow> bytes res" where
  "retry retry_tag scid dcid odcid token version out_len =
     (if \<not> version_is_supported version then Err UnknownVersion
      else
        let hdr = \<lparr>ph_pkt_type = Retry, ph_version = version, ph_dcid = cid_new dcid, ph_scid = cid_new scid,
                   ph_pkt_num_len = 0, ph_pkt_num = 0, ph_token = Some token, ph_key_phase = False\<rparr>
        in bind_r (header_to_bytes hdr (new_wbuf out_len)) (\<lambda>(hdr_len, w).
           bind_r (compute_retry_integrity_tag retry_tag (written w) odcid version) (\<lambda>tag.
           bind_r (write_bytes tag w) (\<lambda>(_, w).
           Ok (written w)))))"

definition verify_retry_integrity_tag ::
  "(bytes \<Rightarrow> bytes res) \<Rightarrow> bytes \<Rightarrow> bytes \<Rightarrow> u32 \<Rightarrow> unit res" where
  "verify_retry_integrity_tag retry_tag buf odcid version =
     (if length buf < TAG_LEN then Err BufferTooShort
      else bind_r
        (compute_retry_integrity_tag retry_tag (take (length buf - TAG_LEN) buf) odcid version)
        (\<lambda>tag. if drop (length buf - TAG_LEN) buf = tag then Ok () else Err CryptoFail))"

definition stateless_reset :: "bytes \<Rightarrow> nat \<Rightarrow> bytes \<Rightarrow> nat \<Rightarrow> (nat \<times> bytes) res" where
  "stateless_reset rnd pkt_len token out_len =
     (if out_len < pkt_len then Err BufferTooShort
      else if pkt_len < MIN_RESET_PACKET_LEN then Err InternalError
      else if length token \<noteq> RESET_TOKEN_LEN then Err InternalError
      else
        let unpredict_len = pkt_len - RESET_TOKEN_LEN;
            out = take unpredict_len rnd;
            out = out[0 := (out ! 0 AND 0x3f) OR HEADER_FIXED_BIT]
        in bind_r (write_bytes token \<lparr>written = out, room = out_len - unpredict_len\<rparr>)
             (\<lambda>(_, w). Ok (pkt_len, written w)))"

subsection \<open>Packet numbers: truncation and recovery\<close>

lemma bit_width_bound: "n < 2 ^ bit_width n"
proof (induction n rule: bit_width.induct)
  case (1 n)
  show ?case
  proof (cases "n = 0")
    case False
    with 1 have "n div 2 < 2 ^ bit_width (n div 2)" by simp
    then show ?thesis using False by (subst bit_width.simps) auto
  qed (simp add: bit_width.simps)
qed

lemma bit_width_le: "n < 2 ^ k \<Longrightarrow> bit_width n \<le> k"
proof (induction k arbitrary: n)
  case 0
  then show ?case by (simp add: bit_width.simps)
next
  case (Suc k)
  then have "bit_width (n div 2) \<le> k" by (intro Suc.IH) auto
  then show ?case by (subst bit_width.simps) auto
qed

lemma packet_num_len_eq:
  "packet_num_len pn acked = (bit_width (case acked of Some a \<Rightarrow> unat pn - unat a
     | None \<Rightarrow> min (unat pn + 1) (2 ^ 64 - 1)) + 8) div 8"
proof -
  have "bit_width (unat x) \<le> 64" for x :: u64
    using unsigned_less [of x] by (intro bit_width_le) simp
  then show ?thesis
    by (auto simp: packet_num_len_def leading_zeros_def Let_def unat_saturating_sub
        unat_saturating_add split: option.splits)
qed

text \<open>The chosen length leaves half a window above the oldest unacknowledged packet.\<close>

lemma packet_num_len_window:
  assumes "packet_num_len pn (Some a) = len"
  shows "unat pn < unat a + 2 ^ (8 * len - 1)"
proof -
  let ?n = "unat pn - unat a"
  have "bit_width ?n \<le> 8 * len - 1"
    using assms by (simp add: packet_num_len_eq)
  then have "(2::nat) ^ bit_width ?n \<le> 2 ^ (8 * len - 1)" by simp
  with bit_width_bound [of ?n] show ?thesis by linarith
qed

lemma unat_candidate:
  fixes e t :: u64
  assumes "unat t < 2 ^ n" and "n \<le> 32" and "unat e < 2 ^ 63"
  shows "unat ((e AND NOT (push_bit n 1 - 1)) OR t) = unat e - unat e mod 2 ^ n + unat t"
proof -
  have m: "push_bit n (1::u64) - 1 = mask n" by (simp add: mask_eq_exp_minus_1 push_bit_eq_mult)
  have tb: "i < n" if "bit t i" for i using assms(1) that by (rule bit_lt)
  have or: "(e AND NOT (mask n)) OR t = (e AND NOT (mask n)) + t"
    by (rule disjunctive_add [symmetric]) (auto simp: bit_simps dest: tb)
  have "(e AND NOT (mask n)) + take_bit n e = (e AND NOT (mask n)) OR take_bit n e"
    by (rule disjunctive_add) (auto simp: bit_simps)
  also have "\<dots> = e" by (rule bit_word_eqI) (auto simp: bit_simps)
  finally have "e AND NOT (mask n) = e - take_bit n e" by (simp add: algebra_simps)
  moreover have tk: "unat (take_bit n e) = unat e mod 2 ^ n"
    by (simp only: unsigned_take_bit_eq) (simp add: take_bit_eq_mod)
  moreover have "take_bit n e \<le> e" unfolding word_le_nat_alt tk by simp
  ultimately have x: "unat (e AND NOT (mask n)) = unat e - unat e mod 2 ^ n"
    by (simp add: unat_sub)
  have "(2::nat) ^ n \<le> 2 ^ 32" using assms(2) by (rule power_increasing) simp
  with assms x have "unat (e AND NOT (mask n)) + unat t < 2 ^ LENGTH(64)" by simp
  then have "unat ((e AND NOT (mask n)) + t) = unat (e AND NOT (mask n)) + unat t"
    by (rule unat_add_small)
  with x or m show ?thesis by simp
qed

text \<open>Recovery from the residue, on natural numbers: the candidate is at most one window away.\<close>

lemma residue_recovery:
  fixes e p w :: nat
  assumes w: "w = 2 * h" and "0 < h" and "e < p + h" and "p \<le> e + h"
  defines "c \<equiv> e - e mod w + p mod w"
  shows "p = c \<or> (p = c + w \<and> c + h \<le> e) \<or> (c = p + w \<and> e + h < c)"
proof -
  define q where "q = e div w"
  define q' where "q' = p div w"
  have e: "e = q * w + e mod w" "e mod w < w"
    using assms(2) w unfolding q_def by (simp_all only: div_mult_mod_eq) simp
  have p: "p = q' * w + p mod w" "p mod w < w"
    using assms(2) w unfolding q'_def by (simp_all only: div_mult_mod_eq) simp
  have c: "c = q * w + p mod w" using e(1) by (simp add: c_def)
  have "\<not> q + 2 \<le> q'"
  proof
    assume "q + 2 \<le> q'"
    then have "(q + 2) * w \<le> q' * w" by (rule mult_le_mono1)
    then have "q * w + 2 * w \<le> q' * w" by (simp add: add_mult_distrib)
    with e p assms(2-4) w show False by linarith
  qed
  moreover have "\<not> q' + 2 \<le> q"
  proof
    assume "q' + 2 \<le> q"
    then have "(q' + 2) * w \<le> q * w" by (rule mult_le_mono1)
    then have "q' * w + 2 * w \<le> q * w" by (simp add: add_mult_distrib)
    with e p assms(2-4) w show False by linarith
  qed
  ultimately consider "q' = q" | "q' = Suc q" | "q = Suc q'" by linarith
  then show ?thesis
  proof cases
    case 1
    with c p(1) show ?thesis by simp
  next
    case 2
    then have "p = c + w" using c p(1) by simp
    with w assms(4) show ?thesis by simp
  next
    case 3
    then have "c = p + w" using c p(1) by simp
    with w assms(3) show ?thesis by simp
  qed
qed

lemma decode_packet_num_correct:
  assumes len: "len \<in> {1, 2, 3, 4}" and pn: "unat pn < 2 ^ 62" and lg: "unat largest < 2 ^ 62"
    and lo: "unat largest + 1 < unat pn + 2 ^ (8 * len - 1)"
    and hi: "unat pn \<le> unat largest + 1 + 2 ^ (8 * len - 1)"
  shows "decode_packet_num largest (take_bit (8 * len) pn) len = pn"
proof -
  define n where "n = 8 * len"
  have n: "n \<le> 32" "0 < n" using len by (auto simp: n_def)
  define h :: nat where "h = 2 ^ (n - 1)"
  define e where "e = largest + 1"
  define t where "t = take_bit n pn"
  define W :: u64 where "W = push_bit n 1"
  define B :: u64 where "B = push_bit 62 1 - W"
  define c where "c = (e AND NOT (push_bit n 1 - 1)) OR t"
  have w: "2 * h = 2 ^ n" using n(2) by (cases n) (simp_all add: h_def)
  have "h \<le> 2 ^ 31" unfolding h_def using n by (intro power_increasing) auto
  then have h: "0 < h" "h \<le> 2147483648" by (simp_all add: h_def)
  have ue: "unat e = unat largest + 1" using lg by (simp add: e_def unat_word_ariths)
  have ut: "unat t = unat pn mod 2 ^ n"
    unfolding t_def by (simp only: unsigned_take_bit_eq) (simp add: take_bit_eq_mod)
  have uc: "unat c = unat e - unat e mod 2 ^ n + unat pn mod 2 ^ n"
    unfolding c_def using n(1) ue lg ut by (subst unat_candidate) simp_all
  have uw: "unat W = 2 * h"
  proof -
    have "(2::nat) ^ n < 2 ^ 64" using n(1) by (intro power_strict_increasing) auto
    then show ?thesis
      unfolding W_def unsigned_push_bit_eq
      using w n(1) by (simp add: push_bit_eq_mult take_bit_nat_eq_self)
  qed
  have uh: "unat (W div 2) = h" using uw by (simp add: unat_div)
  have "unat e < unat pn + h" "unat pn \<le> unat e + h"
    using lo hi ue by (simp_all add: h_def n_def)
  then have cases: "unat pn = unat c \<or> (unat pn = unat c + 2 * h \<and> unat c + h \<le> unat e)
      \<or> (unat c = unat pn + 2 * h \<and> unat e + h < unat c)"
    using residue_recovery [of "2 * h" h "unat e" "unat pn"] h(1) uc w by simp
  have bounds: "unat c < 2 ^ 62 + 2 ^ 32" "unat e \<le> 2 ^ 62"
    using cases pn h(2) ue lg by auto
  have sums: "unat (c + W div 2) = unat c + h" "unat (e + W div 2) = unat e + h"
    "unat (c + W) = unat c + 2 * h"
    using bounds h(2) uw uh by (simp_all add: unat_add_small)
  have big: "unat B = 4611686018427387904 - 2 * h"
  proof -
    have "unat (push_bit 62 1 :: u64) = 4611686018427387904" by simp
    moreover from this have "W \<le> push_bit 62 1"
      unfolding word_le_nat_alt uw using h(2) by simp
    ultimately show ?thesis using uw by (simp add: B_def unat_sub)
  qed
  have "decode_packet_num largest t len =
    (if c + W div 2 \<le> e \<and> c < B then c + W
     else if c > e + W div 2 \<and> c \<ge> W then c - W else c)"
    by (simp add: decode_packet_num_def Let_def c_def e_def n_def B_def W_def mult.commute)
  also have "\<dots> = pn"
    using cases
  proof (elim disjE conjE)
    assume "unat pn = unat c"
    moreover from this have "\<not> unat c + h \<le> unat e" "\<not> unat e + h < unat c"
      using \<open>unat e < unat pn + h\<close> \<open>unat pn \<le> unat e + h\<close> by simp_all
    ultimately show ?thesis by (simp add: word_le_nat_alt word_less_nat_alt sums word_unat_eq_iff)
  next
    assume a: "unat pn = unat c + 2 * h" "unat c + h \<le> unat e"
    then have "unat c < 4611686018427387904 - 2 * h" using pn by simp
    with a show ?thesis
      by (simp add: word_le_nat_alt word_less_nat_alt sums big word_unat_eq_iff)
  next
    assume a: "unat c = unat pn + 2 * h" "unat e + h < unat c"
    then have "\<not> unat c + h \<le> unat e" "2 * h \<le> unat c" by simp_all
    moreover from this have "unat (c - W) = unat pn"
      using a uw by (subst unat_sub) (simp_all add: word_le_nat_alt)
    ultimately show ?thesis
      using a by (simp add: word_le_nat_alt word_less_nat_alt sums uw word_unat_eq_iff)
  qed
  finally show ?thesis by (simp add: t_def n_def)
qed

text \<open>What the encoder writes is what the receiver truncates to.\<close>

lemma encode_packet_num_emits:
  assumes "len \<in> {1, 2, 3, 4}"
  shows "emits BufferTooShort (encode_packet_num pn len) (be_bytes len pn)"
proof -
  have e: "be_bytes 1 (ucast pn :: u8) = be_bytes 1 pn" "be_bytes 2 (ucast pn :: u16) = be_bytes 2 pn"
    "be_bytes 3 (ucast pn :: u32) = be_bytes 3 pn" "be_bytes 4 (ucast pn :: u32) = be_bytes 4 pn"
    by (simp_all add: be_bytes_ucast del: be_bytes.simps One_nat_def)
  show ?thesis
    using assms int_emits(1) [of "ucast pn"] int_emits(2) [of "ucast pn"]
      write_u24_emits [of "ucast pn"] int_emits(3) [of "ucast pn"]
    unfolding e by (auto simp: emits_def encode_packet_num_def)
qed

lemma encode_packet_num_invalid:
  "len \<notin> {1, 2, 3, 4} \<Longrightarrow> encode_packet_num pn len w = Err InvalidPacket"
  by (simp add: encode_packet_num_def)

lemma be_bytes_3_take_bit: "be_bytes 3 (take_bit 24 x) = be_bytes 3 (x :: u32)"
  unfolding be_bytes_3 by (auto intro!: bit_word_eqI simp: bit_simps)

lemma decode_pkt_num_field_be_bytes:
  fixes pn :: u64
  assumes "len \<in> {1, 2, 3, 4}"
  shows "decode_pkt_num_field (be_bytes len pn) = Ok (take_bit (8 * len) pn)"
proof -
  have e: "be_bytes 1 pn = be_bytes 1 (ucast pn :: u8)" "be_bytes 2 pn = be_bytes 2 (ucast pn :: u16)"
    "be_bytes 3 pn = be_bytes 3 (take_bit 24 (ucast pn) :: u32)" "be_bytes 4 pn = be_bytes 4 (ucast pn :: u32)"
    by (simp_all add: be_bytes_ucast be_bytes_3_take_bit del: be_bytes.simps One_nat_def)
  have c: "ucast (ucast pn :: u8) = take_bit 8 pn" "ucast (ucast pn :: u16) = take_bit 16 pn"
    "ucast (take_bit 24 (ucast pn) :: u32) = take_bit 24 pn" "ucast (ucast pn :: u32) = take_bit 32 pn"
    by (rule bit_word_eqI, auto simp: bit_simps)+
  have "take_bit 24 (ucast pn :: u32) < 2 ^ 24"
    using take_bit_nat_less_exp [of 24 "unat (ucast pn :: u32)"]
    by (simp add: word_less_nat_alt unsigned_take_bit_eq)
  note rd = u8.dec_wire [OF TrueI, of _ "[]"] u16.dec_wire [OF TrueI, of _ "[]"]
    u24.dec_wire [OF this, of "[]"] u32.dec_wire [OF TrueI, of _ "[]"]
  from assms consider "len = 1" | "len = 2" | "len = 3" | "len = 4" by blast
  then show ?thesis
    using rd c unfolding decode_pkt_num_field_def
    by cases (simp_all add: e del: be_bytes.simps One_nat_def)
qed

subsection \<open>Header protection\<close>

lemma long_header_bit: "long_header x \<longleftrightarrow> bit x 7"
proof -
  have "bit (0x80 :: int) n \<longleftrightarrow> n = 7" for n
    using bit_exp_iff [where ?'a = int, of 7 n] by auto
  then have "x AND 0x80 = (if bit x 7 then 0x80 else 0)"
    by (intro bit_word_eqI) (auto simp: bit_simps)
  then show ?thesis by (simp add: long_header_def packet_consts)
qed

lemma long_header_mask_first [simp]: "long_header (mask_first m x) = long_header x"
  by (simp add: mask_first_def long_header_bit bit_simps)

lemma mask_first_twice [simp]: "mask_first m (mask_first m x) = x"
proof -
  have "long_header (x XOR (m AND 0x0f)) = long_header x" "long_header (x XOR (m AND 0x1f)) = long_header x"
    by (simp_all add: long_header_bit bit_simps)
  then show ?thesis by (simp add: mask_first_def xor.assoc)
qed

lemma map2_xor_twice: "length m = length xs \<Longrightarrow> map2 (XOR) (map2 (XOR) xs m) m = (xs :: bytes)"
  by (induction m xs rule: list_induct2) (simp_all add: xor.assoc)

lemma decode_pkt_num_field_eq:
  assumes "length pn \<in> {1, 2, 3, 4}"
  shows "decode_pkt_num_field pn = Ok (be_word pn)"
proof -
  have "pn = be_bytes (length pn) (be_word pn :: u64)"
    using assms by (intro be_bytes_be_word [symmetric]) auto
  moreover have "take_bit (8 * length pn) (be_word pn) = (be_word pn :: u64)"
    by (rule bit_word_eqI) (auto simp: bit_simps dest: bit_be_word)
  ultimately show ?thesis using decode_pkt_num_field_be_bytes [OF assms, of "be_word pn"] by simp
qed

lemma pkt_num_len_field: "unat ((first AND PKT_NUM_LEN_MASK) + 1) \<in> {1, 2, 3, 4}"
proof -
  have "unat (first AND 3) \<le> 3" using word_and_le [of first 3] by simp
  moreover from this have "unat ((first AND 3) + 1) = unat (first AND 3) + 1"
    by (intro trans [OF unat_add_small]) simp_all
  ultimately show ?thesis by (simp add: packet_consts) linarith
qed

lemma header_protection:
  assumes msk: "new_mask (take SAMPLE_LEN (drop (MAX_PKT_NUM_LEN - length pn) payload)) = Ok msk" "length msk = 5"
    and pn: "length pn = unat ((first AND PKT_NUM_LEN_MASK) + 1)"
    and payload: "MAX_PKT_NUM_LEN - length pn + SAMPLE_LEN \<le> length payload"
  shows "\<exists>hdr'. encrypt_header new_mask (first # mid @ pn) (length pn) payload = Ok hdr'
    \<and> length hdr' = length (first # mid @ pn)
    \<and> decrypt_header new_mask (hdr' @ payload) (Suc (length mid)) h False
       = Ok (first # mid @ pn @ payload,
             (if ph_pkt_type h = OneRTT then h\<lparr>ph_pkt_num_len := length pn, ph_pkt_num := be_word pn,
                ph_key_phase := (first AND HEADER_KEY_PHASE_BIT \<noteq> 0)\<rparr>
              else h\<lparr>ph_pkt_num_len := length pn, ph_pkt_num := be_word pn\<rparr>))"
proof -
  have len: "length pn \<in> {1, 2, 3, 4}" unfolding pn by (rule pkt_num_len_field)
  then have le: "length pn \<le> 4" by auto
  obtain m ms where m: "msk = m # ms" "length ms = 4" using msk(2) by (cases msk) auto
  define pn' where "pn' = map2 (XOR) pn (take (length pn) ms)"
  define hdr' where "hdr' = mask_first m first # mid @ pn'"
  have lp: "length pn' = length pn" using le m by (simp add: pn'_def)
  have enc: "encrypt_header new_mask (first # mid @ pn) (length pn) payload = Ok hdr'"
    using le payload msk m
    by (simp add: encrypt_header_def packet_consts mask_pkt_num_def pn'_def hdr'_def Let_def)
  have unmask: "map2 (XOR) pn' (take (length pn) ms) = pn"
    unfolding pn'_def using le m by (intro map2_xor_twice) simp
  have "drop (Suc (length mid) + 4) (hdr' @ payload) = drop (4 - length pn) payload"
    unfolding add.commute [of "Suc (length mid)"] drop_drop [symmetric]
    using le lp by (simp add: hdr'_def)
  then have dec: "decrypt_header new_mask (hdr' @ payload) (Suc (length mid)) h False
       = Ok (first # mid @ pn @ payload,
             (if ph_pkt_type h = OneRTT then h\<lparr>ph_pkt_num_len := length pn, ph_pkt_num := be_word pn,
                ph_key_phase := (first AND HEADER_KEY_PHASE_BIT \<noteq> 0)\<rparr>
              else h\<lparr>ph_pkt_num_len := length pn, ph_pkt_num := be_word pn\<rparr>))"
    using le payload msk m lp unmask
    by (simp add: decrypt_header_def packet_consts mask_pkt_num_def hdr'_def Let_def
        pn [symmetric, unfolded packet_consts] decode_pkt_num_field_eq [OF len])
  show ?thesis using enc dec lp by (intro exI [of _ hdr']) (simp add: hdr'_def)
qed
subsection \<open>Header encoding and parsing\<close>

text \<open>What the peer reads back from a header. The packet number fields are under header protection; a short
  header carries only the destination connection ID, and only Initial and Retry packets carry a token.\<close>

definition parsed_header :: "packet_header \<Rightarrow> packet_header" where
  "parsed_header h =
     (if ph_pkt_type h = OneRTT
      then \<lparr>ph_pkt_type = OneRTT, ph_version = 0, ph_dcid = ph_dcid h, ph_scid = [],
            ph_pkt_num_len = 0, ph_pkt_num = 0, ph_token = None, ph_key_phase = False\<rparr>
      else \<lparr>ph_pkt_type = ph_pkt_type h, ph_version = ph_version h, ph_dcid = ph_dcid h,
            ph_scid = ph_scid h, ph_pkt_num_len = 0, ph_pkt_num = 0,
            ph_token = (if ph_pkt_type h = Initial \<and> ph_token h \<noteq> Some [] then ph_token h
                        else if ph_pkt_type h = Retry then ph_token h else None),
            ph_key_phase = False\<rparr>)"

definition header_ok :: "packet_header \<Rightarrow> bool" where
  "header_ok h \<longleftrightarrow> length (ph_dcid h) \<le> MAX_CID_LEN \<and> length (ph_scid h) \<le> MAX_CID_LEN
     \<and> ph_version h \<noteq> 0 \<and> ph_pkt_type h \<noteq> VersionNegotiation \<and> ph_pkt_num_len h \<le> MAX_PKT_NUM_LEN
     \<and> (\<forall>t. ph_token h = Some t \<longrightarrow> length t < 2 ^ 62) \<and> (ph_pkt_type h = Retry \<longrightarrow> ph_token h \<noteq> None)"

definition short_first :: "packet_header \<Rightarrow> u8" where
  "short_first h = (if ph_key_phase h then HEADER_FIXED_BIT OR HEADER_KEY_PHASE_BIT else HEADER_FIXED_BIT)
     OR word_of_nat (ph_pkt_num_len h - 1)"

definition long_first :: "packet_header \<Rightarrow> u8 \<Rightarrow> u8" where
  "long_first h t = ((HEADER_LONG_FORM_BIT OR HEADER_FIXED_BIT) OR push_bit 4 t) OR word_of_nat (ph_pkt_num_len h - 1)"

lemma pn_len_cases:
  assumes "ph_pkt_num_len h \<le> MAX_PKT_NUM_LEN"
  shows "ph_pkt_num_len h - 1 \<in> {0, 1, 2, 3}"
  using assms by (auto simp: MAX_PKT_NUM_LEN_def)

lemma short_first_form: "ph_pkt_num_len h \<le> MAX_PKT_NUM_LEN \<Longrightarrow> \<not> long_header (short_first h)"
  using pn_len_cases [of h] by (auto simp: short_first_def long_header_def packet_consts)

lemma long_first_form:
  assumes "ph_pkt_num_len h \<le> MAX_PKT_NUM_LEN" and "t \<in> {0, 1, 2, 3}"
  shows "long_header (long_first h t)" and "drop_bit 4 (long_first h t AND PKT_TYPE_MASK) = t"
  using pn_len_cases [OF assms(1)] assms(2)
  by (auto simp: long_first_def long_header_def packet_consts)

definition token_field :: "packet_header \<Rightarrow> bytes" where
  "token_field h = (case ph_pkt_type h of
       Initial \<Rightarrow> (case ph_token h of
           Some v \<Rightarrow> varint_bytes (as_u64 (length v)) @ v
         | None \<Rightarrow> varint_bytes 0)
     | Retry \<Rightarrow> (case ph_token h of Some v \<Rightarrow> v | None \<Rightarrow> [])
     | _ \<Rightarrow> [])"

definition header_wire :: "packet_header \<Rightarrow> bytes" where
  "header_wire h = (case long_type_bits (ph_pkt_type h) of
       Ok t \<Rightarrow> be_bytes 1 (long_first h t) @ be_bytes 4 (ph_version h)
         @ be_bytes 1 (word_of_nat (length (ph_dcid h)) :: u8) @ ph_dcid h
         @ be_bytes 1 (word_of_nat (length (ph_scid h)) :: u8) @ ph_scid h @ token_field h
     | _ \<Rightarrow> be_bytes 1 (short_first h) @ ph_dcid h)"

lemma small_len_varint: "n < 2 ^ 62 \<Longrightarrow> as_u64 n \<le> VINT_MAX"
  by (simp add: VINT_MAX_def word_le_nat_alt unat_of_nat_u64)

lemma header_to_bytes_emits:
  assumes "header_ok h"
  shows "emits BufferTooShort (header_to_bytes h) (header_wire h)"
proof (cases "ph_pkt_type h = OneRTT")
  case True
  have "emits BufferTooShort (write_all [write_u8 (short_first h), write_bytes (ph_dcid h)])
     (concat [be_bytes 1 (short_first h), ph_dcid h])"
    by (intro emits_write_all) (simp add: emit_rules del: be_bytes.simps One_nat_def)
  moreover have "header_to_bytes h = write_all [write_u8 (short_first h), write_bytes (ph_dcid h)]"
    using True by (intro ext) (simp add: header_to_bytes_def short_first_def Let_def)
  ultimately show ?thesis using True by (simp add: header_wire_def)
next
  case False
  with assms obtain t where t: "long_type_bits (ph_pkt_type h) = Ok t" "t \<in> {0, 1, 2, 3}"
    by (cases "ph_pkt_type h") (auto simp: header_ok_def)
  define common where "common = [write_u8 (long_first h t), write_u32 (ph_version h),
    write_u8 (word_of_nat (length (ph_dcid h))), write_bytes (ph_dcid h),
    write_u8 (word_of_nat (length (ph_scid h))), write_bytes (ph_scid h)]"
  define rest where "rest = (case ph_pkt_type h of
      Initial \<Rightarrow> (case ph_token h of
          Some v \<Rightarrow> [write_varint (as_u64 (length v)), write_bytes v]
        | None \<Rightarrow> [write_varint 0])
    | Retry \<Rightarrow> (case ph_token h of Some v \<Rightarrow> [write_bytes v] | None \<Rightarrow> [])
    | _ \<Rightarrow> [])"
  have "list_all2 (emits BufferTooShort) rest
      (case ph_pkt_type h of
        Initial \<Rightarrow> (case ph_token h of
            Some v \<Rightarrow> [varint_bytes (as_u64 (length v)), v]
          | None \<Rightarrow> [varint_bytes 0])
      | Retry \<Rightarrow> (case ph_token h of Some v \<Rightarrow> [v] | None \<Rightarrow> [])
      | _ \<Rightarrow> [])" (is "list_all2 _ _ ?rs")
    using assms
    by (auto simp: rest_def emit_rules header_ok_def small_len_varint
        split: packet_type.splits option.splits)
  moreover have "list_all2 (emits BufferTooShort) common
      [be_bytes 1 (long_first h t), be_bytes 4 (ph_version h),
       be_bytes 1 (word_of_nat (length (ph_dcid h)) :: u8), ph_dcid h,
       be_bytes 1 (word_of_nat (length (ph_scid h)) :: u8), ph_scid h]" (is "list_all2 _ _ ?cs")
    by (simp add: common_def emit_rules del: be_bytes.simps One_nat_def)
  ultimately have "emits BufferTooShort (write_all (common @ rest)) (concat (?cs @ ?rs))"
    by (intro emits_write_all list_all2_appendI)
  moreover have "concat (?cs @ ?rs) = header_wire h"
    using t(1) by (auto simp: header_wire_def token_field_def split: packet_type.splits option.splits)
  moreover have "header_to_bytes h = write_all (common @ rest)"
    using assms False t(1)
    by (intro ext) (auto simp: header_to_bytes_def common_def rest_def long_first_def Let_def
        header_ok_def write_all_def split: packet_type.splits option.splits)
  ultimately show ?thesis by simp
qed

lemma cid_new_short [simp]: "length bs \<le> MAX_CID_LEN \<Longrightarrow> cid_new bs = bs"
  by (simp add: cid_new_def)

lemma unat_cid_len: "length bs \<le> MAX_CID_LEN \<Longrightarrow> unat (word_of_nat (length bs) :: u8) = length bs"
  by (simp add: MAX_CID_LEN_def unat_of_nat)

lemma cid_len_ok:
  "length bs \<le> MAX_CID_LEN \<Longrightarrow> \<not> word_of_nat MAX_CID_LEN < (word_of_nat (length bs) :: u8)"
  by (simp add: word_less_nat_alt unat_cid_len) (simp add: MAX_CID_LEN_def)

lemma header_from_bytes_short:
  assumes "header_ok h" and "ph_pkt_type h = OneRTT"
  shows "header_from_bytes (header_wire h @ rest) (length (ph_dcid h)) =
    Ok (parsed_header h, length (header_wire h))"
proof -
  have "\<not> long_header (short_first h)" using assms short_first_form by (simp add: header_ok_def)
  with assms show ?thesis
    by (simp add: header_from_bytes_def header_wire_def parse_simps parsed_header_def header_ok_def
        del: be_bytes.simps One_nat_def)
qed

lemma header_from_bytes_long:
  assumes "header_ok h" and "ph_pkt_type h \<in> {Initial, ZeroRTT, Handshake}"
  shows "header_from_bytes (header_wire h @ rest) n = Ok (parsed_header h, length (header_wire h))"
proof -
  obtain t where t: "long_type_bits (ph_pkt_type h) = Ok t" "t \<in> {0, 1, 2, 3}"
    using assms(2) by auto
  have ok: "length (ph_dcid h) \<le> MAX_CID_LEN" "length (ph_scid h) \<le> MAX_CID_LEN"
    "ph_pkt_num_len h \<le> MAX_PKT_NUM_LEN" "ph_version h \<noteq> 0"
    using assms(1) by (auto simp: header_ok_def)
  note lf = long_first_form [OF ok(3) t(2)]
  have tok: "length v < 2 ^ 62" if "ph_token h = Some v" for v
    using assms(1) that by (simp add: header_ok_def)
  have tz: "0 < as_u64 (length v) \<longleftrightarrow> v \<noteq> []" if "length v < 2 ^ 62" for v :: bytes
    using that by (simp add: word_less_nat_alt unat_of_nat_u64)
  define b where "b = token_field h @ rest"
  have "header_wire h @ rest = be_bytes 1 (long_first h t) @ be_bytes 4 (ph_version h)
      @ be_bytes 1 (word_of_nat (length (ph_dcid h)) :: u8) @ ph_dcid h
      @ be_bytes 1 (word_of_nat (length (ph_scid h)) :: u8) @ ph_scid h @ b"
    using t(1) by (simp add: header_wire_def b_def)
  moreover have "length (header_wire h) = 7 + length (ph_dcid h) + length (ph_scid h) + length (token_field h)"
    using t(1) by (simp add: header_wire_def)
  moreover have "long_packet_type (ph_version h) (long_first h t) = Ok (ph_pkt_type h)"
    using t(1) lf(2) ok(4) assms(2) by (auto simp: long_packet_type_def Let_def)
  moreover have "read_token (ph_pkt_type h) b = Ok (ph_token (parsed_header h), rest)"
    using assms(2) tok tz
    by (auto simp: b_def read_token_def token_field_def parsed_header_def parse_simps
        small_len_varint unat_of_nat_u64 split: option.splits)
  moreover have "ph_pkt_type h \<noteq> OneRTT" "length b = length (token_field h) + length rest"
    using assms(2) by (auto simp: b_def)
  ultimately show ?thesis
    using ok lf(1)
    by (simp add: header_from_bytes_def parse_simps parsed_header_def
        unat_cid_len cid_len_ok del: be_bytes.simps One_nat_def)
qed

lemma header_from_bytes_retry:
  assumes "header_ok h" and "ph_pkt_type h = Retry" and "length tag = TAG_LEN"
  shows "header_from_bytes (header_wire h @ tag) n = Ok (parsed_header h, length (header_wire h))"
proof -
  have t: "long_type_bits (ph_pkt_type h) = Ok 3" using assms(2) by simp
  have ok: "length (ph_dcid h) \<le> MAX_CID_LEN" "length (ph_scid h) \<le> MAX_CID_LEN"
    "ph_pkt_num_len h \<le> MAX_PKT_NUM_LEN" "ph_version h \<noteq> 0"
    using assms(1) by (auto simp: header_ok_def)
  have lf: "long_header (long_first h 3)" "drop_bit 4 (long_first h 3 AND PKT_TYPE_MASK) = 3"
    using long_first_form [OF ok(3), of 3] by simp_all
  obtain v where v: "ph_token h = Some v" using assms(1,2) by (auto simp: header_ok_def)
  have "header_wire h @ tag = be_bytes 1 (long_first h 3) @ be_bytes 4 (ph_version h)
      @ be_bytes 1 (word_of_nat (length (ph_dcid h)) :: u8) @ ph_dcid h
      @ be_bytes 1 (word_of_nat (length (ph_scid h)) :: u8) @ ph_scid h @ v @ tag"
    using assms(2) v by (simp add: header_wire_def token_field_def)
  moreover have "length (header_wire h) = 7 + length (ph_dcid h) + length (ph_scid h) + length v"
    using assms(2) v by (simp add: header_wire_def token_field_def)
  moreover have "long_packet_type (ph_version h) (long_first h 3) = Ok (ph_pkt_type h)"
    using lf(2) ok(4) assms(2) by (simp add: long_packet_type_def Let_def)
  moreover have "read_token (ph_pkt_type h) (v @ tag) = Ok (ph_token (parsed_header h), tag)"
    using assms(2,3) v by (simp add: read_token_def parsed_header_def parse_simps)
  ultimately show ?thesis
    using ok lf(1) assms(2)
    by (simp add: header_from_bytes_def parse_simps parsed_header_def
        unat_cid_len cid_len_ok del: be_bytes.simps One_nat_def)
qed

subsection \<open>Parsing untrusted headers\<close>

lemma read_token_total [no_panic]: "read_token t b \<noteq> Panic"
  by (auto simp: read_token_def bind_r_Panic_iff read_varint_total split: packet_type.splits)

lemma read_token_consumes [consume_rules]: "consumes (read_token t)"
proof (cases t)
  case Initial
  have "consumes (\<lambda>b. bind_r (read_varint b) (\<lambda>(n, b). if 0 < n
      then bind_r (read_bytes (as_usize n) b) (\<lambda>(t, b). Ok (Some t, b)) else Ok (None, b)))"
    by (intro consume_rules)
  with Initial show ?thesis by (simp add: consumes_def read_token_def)
next
  case Retry
  then show ?thesis
    by (auto simp: consumes_def read_token_def bind_r_Ok_iff read_bytes_def)
qed (simp_all add: consumes_def read_token_def)

lemma header_from_bytes_total:
  "header_from_bytes buf n \<noteq> Panic"
  by (auto simp: header_from_bytes_def bind_r_Panic_iff int_total read_token_total long_packet_type_def
      Let_def split: if_splits)

lemma header_from_bytes_bounds:
  assumes "header_from_bytes buf n = Ok (h, used)"
  shows "used \<le> length buf" and "length (ph_dcid h) \<le> MAX_CID_LEN" and "length (ph_scid h) \<le> MAX_CID_LEN"
  using assms
  by (auto simp: header_from_bytes_def bind_r_Ok_iff cid_new_def split: if_splits)

lemma header_info_agrees:
  assumes "header_from_bytes buf n = Ok (h, used)"
  shows "header_info buf n = Ok (ph_pkt_type h \<noteq> OneRTT, ph_version h, ph_dcid h)"
  using assms
  by (auto simp: header_from_bytes_def header_info_def bind_r_Ok_iff long_packet_type_def Let_def split: if_splits)

subsection \<open>Retry and Stateless Reset\<close>

lemma retry_pseudo_packet_eq:
  "retry_pseudo_packet hdr odcid = Ok (word_of_nat (length odcid) # odcid @ hdr)"
proof -
  have "emits BufferTooShort
      (write_all [write_u8 (word_of_nat (length odcid)), write_bytes odcid, write_bytes hdr])
      (concat [be_bytes 1 (word_of_nat (length odcid) :: u8), odcid, hdr])"
    by (intro emits_write_all) (simp add: emit_rules del: be_bytes.simps One_nat_def)
  from emitsD(1) [OF this, of "new_wbuf (1 + length odcid + length hdr)"] show ?thesis
    by (simp add: retry_pseudo_packet_def new_wbuf_def)
qed

lemma cid_new_length: "length (cid_new bs) \<le> MAX_CID_LEN"
  by (simp add: cid_new_def)

lemma retry_layout:
  assumes "length token < 2 ^ 62" and "retry retry_tag scid dcid odcid token version n = Ok pkt"
  obtains hdr tag where "header_ok hdr" and "ph_pkt_type hdr = Retry" and "ph_version hdr = version"
    and "ph_dcid hdr = cid_new dcid" and "ph_scid hdr = cid_new scid" and "ph_token hdr = Some token"
    and "pkt = header_wire hdr @ tag"
    and "compute_retry_integrity_tag retry_tag (header_wire hdr) odcid version = Ok tag"
proof -
  define hdr where "hdr = \<lparr>ph_pkt_type = Retry, ph_version = version, ph_dcid = cid_new dcid,
    ph_scid = cid_new scid, ph_pkt_num_len = 0, ph_pkt_num = 0, ph_token = Some token,
    ph_key_phase = False\<rparr>"
  from assms(2) have v: "version_is_supported version"
    by (auto simp: retry_def split: if_splits)
  then have ok: "header_ok hdr"
    using assms(1) cid_new_length
    by (auto simp: header_ok_def hdr_def version_is_supported_def QUIC_VERSION_V1_def)
  from header_to_bytes_emits [OF ok]
  have e: "header_to_bytes hdr (new_wbuf n) = (if length (header_wire hdr) \<le> n
      then Ok (length (header_wire hdr), put_slice (header_wire hdr) (new_wbuf n)) else Err BufferTooShort)"
    by (simp add: emits_def new_wbuf_def)
  have "retry retry_tag scid dcid odcid token version n =
    bind_r (header_to_bytes hdr (new_wbuf n)) (\<lambda>(hdr_len, w).
           bind_r (compute_retry_integrity_tag retry_tag (written w) odcid version) (\<lambda>tag.
           bind_r (write_bytes tag w) (\<lambda>(_, w).
           Ok (written w))))"
    using v by (simp add: retry_def hdr_def)
  with assms(2) e obtain tag where
    "compute_retry_integrity_tag retry_tag (header_wire hdr) odcid version = Ok tag"
    "pkt = header_wire hdr @ tag"
    by (auto simp: bind_r_Ok_iff write_bytes_def new_wbuf_def split: if_splits)
  with ok show ?thesis by (intro that [of hdr tag]) (simp_all add: hdr_def)
qed

lemma retry_verifies:
  assumes tag: "\<And>p t. retry_tag p = Ok t \<Longrightarrow> length t = TAG_LEN"
    and "length token < 2 ^ 62" and "retry retry_tag scid dcid odcid token version n = Ok pkt"
  shows "verify_retry_integrity_tag retry_tag pkt odcid version = Ok ()"
    and "\<exists>h. header_from_bytes pkt k = Ok (h, length pkt - TAG_LEN) \<and> ph_pkt_type h = Retry
           \<and> ph_dcid h = cid_new dcid \<and> ph_scid h = cid_new scid \<and> ph_token h = Some token"
proof -
  obtain hdr t where h: "header_ok hdr" "ph_pkt_type hdr = Retry" "ph_version hdr = version"
    "ph_dcid hdr = cid_new dcid" "ph_scid hdr = cid_new scid" "ph_token hdr = Some token"
    "pkt = header_wire hdr @ t"
    "compute_retry_integrity_tag retry_tag (header_wire hdr) odcid version = Ok t"
    by (rule retry_layout [OF assms(2,3)])
  from h(8) have len: "length t = TAG_LEN"
    by (auto simp: compute_retry_integrity_tag_def bind_r_Ok_iff intro: tag)
  with h show "verify_retry_integrity_tag retry_tag pkt odcid version = Ok ()"
    by (simp add: verify_retry_integrity_tag_def)
  from header_from_bytes_retry [OF h(1,2) len, of k] h len
  show "\<exists>h. header_from_bytes pkt k = Ok (h, length pkt - TAG_LEN) \<and> ph_pkt_type h = Retry
           \<and> ph_dcid h = cid_new dcid \<and> ph_scid h = cid_new scid \<and> ph_token h = Some token"
    by (auto simp: parsed_header_def)
qed

text \<open>A Stateless Reset looks like a short header packet and ends in the token.\<close>

lemma stateless_reset_format:
  assumes "stateless_reset rnd pkt_len token out_len = Ok (n, pkt)" and "pkt_len \<le> length rnd"
  shows "n = pkt_len" and "length pkt = pkt_len" and "drop (pkt_len - RESET_TOKEN_LEN) pkt = token"
    and "pkt ! 0 AND 0xc0 = HEADER_FIXED_BIT"
proof -
  let ?u = "pkt_len - RESET_TOKEN_LEN"
  from assms(1) have g: "pkt_len \<le> out_len" "MIN_RESET_PACKET_LEN \<le> pkt_len" "length token = RESET_TOKEN_LEN"
    by (auto simp: stateless_reset_def split: if_splits)
  then have u: "0 < ?u" "?u \<le> length rnd" "?u + RESET_TOKEN_LEN = pkt_len"
    using assms(2) by (auto simp: MIN_RESET_PACKET_LEN_def RESET_TOKEN_LEN_def)
  define out where "out = (take ?u rnd)[0 := (take ?u rnd ! 0 AND 0x3f) OR HEADER_FIXED_BIT]"
  have out: "length out = ?u" "out ! 0 = (rnd ! 0 AND 0x3f) OR HEADER_FIXED_BIT"
    using u by (auto simp: out_def)
  have p: "n = pkt_len" "pkt = out @ token"
    using assms(1) g u(3) by (auto simp: stateless_reset_def Let_def write_bytes_def out_def split: if_splits)
  then show "n = pkt_len" "length pkt = pkt_len" "drop (pkt_len - RESET_TOKEN_LEN) pkt = token"
    using out u g(3) by auto
  have "((x AND 0x3f) OR 0x40) AND 0xc0 = (0x40 :: u8)" for x :: u8
    by (simp add: bit.conj_disj_distrib2 and.assoc)
  then show "pkt ! 0 AND 0xc0 = HEADER_FIXED_BIT"
    using p(2) out u(1) by (simp add: nth_append HEADER_FIXED_BIT_def)
qed

subsection \<open>Properties\<close>

text \<open>C27: a packet number truncated to the length that the sender computes from the largest
  acknowledged packet is recovered exactly by a receiver that has seen that packet and nothing
  newer than the packet itself.\<close>

theorem packet_number_recovered:
  assumes "packet_num_len pn (Some acked) = len" and "len \<le> 4"
    and "acked \<le> largest" and "largest < pn" and "unat pn < 2 ^ 62" and "len \<le> room w"
  shows "\<exists>bs. encode_packet_num pn len w = Ok (len, put_slice bs w) \<and> length bs = len
    \<and> (\<exists>t. decode_pkt_num_field bs = Ok t \<and> decode_packet_num largest t len = pn)"
proof -
  have "1 \<le> packet_num_len pn (Some acked)" by (simp add: packet_num_len_eq)
  then have len: "len \<in> {1, 2, 3, 4}" using assms(1,2) by auto
  have n: "unat acked \<le> unat largest" "unat largest < unat pn"
    using assms(3,4) by (simp_all add: word_le_nat_alt word_less_nat_alt)
  have "decode_packet_num largest (take_bit (8 * len) pn) len = pn"
    using len n assms(5) packet_num_len_window [OF assms(1)]
    by (intro decode_packet_num_correct) auto
  moreover have "decode_pkt_num_field (be_bytes len pn) = Ok (take_bit (8 * len) pn)"
    using len by (rule decode_pkt_num_field_be_bytes)
  moreover have "encode_packet_num pn len w = Ok (len, put_slice (be_bytes len pn) w)"
    using emitsD(1) [OF encode_packet_num_emits [OF len], where w = w] assms(6) by simp
  ultimately show ?thesis by (metis length_be_bytes)
qed

theorem packet_number_recovered_witness:
  "\<exists>bs. encode_packet_num 0xac5c02 2 (new_wbuf 2) = Ok (2, put_slice bs (new_wbuf 2)) \<and> length bs = 2
    \<and> (\<exists>t. decode_pkt_num_field bs = Ok t \<and> decode_packet_num 0xabe8bd t 2 = 0xac5c02)"
proof -
  have "packet_num_len 0xac5c02 (Some 0xabe8b3) = 2"
    by (simp add: packet_num_len_eq bit_width.simps)
  then show ?thesis
    using packet_number_recovered [of "0xac5c02" "0xabe8b3" 2 "0xabe8bd" "new_wbuf 2"]
    by (simp add: new_wbuf_def)
qed

text \<open>C28: header protection is undone exactly: removing it from a protected packet restores the
  header and the packet number field, and reports the packet number and key phase that were
  protected, for any mask generator that is a function of the sample.\<close>

theorem header_protection_roundtrip:
  assumes "new_mask (take SAMPLE_LEN (drop (MAX_PKT_NUM_LEN - length pn) payload)) = Ok msk"
    and "length msk = 5"
    and "length pn = unat ((first AND PKT_NUM_LEN_MASK) + 1)"
    and "MAX_PKT_NUM_LEN - length pn + SAMPLE_LEN \<le> length payload"
  shows "\<exists>hdr'. encrypt_header new_mask (first # mid @ pn) (length pn) payload = Ok hdr'
    \<and> length hdr' = length (first # mid @ pn)
    \<and> (\<exists>h'. decrypt_header new_mask (hdr' @ payload) (Suc (length mid)) h False
              = Ok (first # mid @ pn @ payload, h')
          \<and> ph_pkt_num_len h' = length pn \<and> ph_pkt_num h' = be_word pn
          \<and> (ph_pkt_type h = OneRTT \<longrightarrow> ph_key_phase h' = (first AND HEADER_KEY_PHASE_BIT \<noteq> 0)))"
  using header_protection [of new_mask pn payload msk first mid h] assms by fastforce

theorem header_protection_roundtrip_witness:
  "let h = \<lparr>ph_pkt_type = OneRTT, ph_version = 0, ph_dcid = [9, 8], ph_scid = [], ph_pkt_num_len = 0,
             ph_pkt_num = 0, ph_token = None, ph_key_phase = False\<rparr>;
       pn = [7, 6]; gen = (\<lambda>_. Ok [0xff, 1, 2, 3, 4]); payload = replicate 20 0
   in \<exists>hdr'. encrypt_header gen (0x41 # [9, 8] @ pn) (length pn) payload = Ok hdr'
    \<and> length hdr' = length (0x41 # [9, 8] @ pn)
    \<and> (\<exists>h'. decrypt_header gen (hdr' @ payload) (Suc (length [9, 8 :: u8])) h False
              = Ok (0x41 # [9, 8] @ pn @ payload, h')
          \<and> ph_pkt_num_len h' = length pn \<and> ph_pkt_num h' = be_word pn
          \<and> (ph_pkt_type h = OneRTT \<longrightarrow> ph_key_phase h' = (0x41 AND HEADER_KEY_PHASE_BIT \<noteq> 0)))"
  unfolding Let_def
  by (rule header_protection_roundtrip [where msk = "[0xff, 1, 2, 3, 4]"]) (simp_all add: packet_consts)

text \<open>C29: a packet header is written as one string of octets, or the encoder reports a short buffer, and the decoder
  returns from these octets what they carry, and their number: for a long header the type, the version and both
  connection IDs; for a 1-RTT header, given the length of the destination connection ID, only that ID, with
  version 0 and no source connection ID. The token is returned from an Initial packet (none if it was empty) and
  from a Retry packet, and from no other type, which do not carry one. The packet number, its length and the key
  phase are under header protection and are returned as zero. Anything may follow the header, but for a Retry
  packet, whose token extends to the 16 octets of the integrity tag that end the packet. Version negotiation
  packets have an encoder of their own and are not covered.\<close>

theorem packet_header_roundtrip:
  assumes "header_ok h" and "ph_pkt_type h = Retry \<longrightarrow> length rest = 16"
  shows "\<exists>bs. (\<forall>w. header_to_bytes h w = (if length bs \<le> room w then Ok (length bs, put_slice bs w) else Err BufferTooShort))
    \<and> header_from_bytes (bs @ rest) (length (ph_dcid h)) =
        Ok (\<lparr>ph_pkt_type = ph_pkt_type h, ph_version = (if ph_pkt_type h = OneRTT then 0 else ph_version h),
             ph_dcid = ph_dcid h, ph_scid = (if ph_pkt_type h = OneRTT then [] else ph_scid h),
             ph_pkt_num_len = 0, ph_pkt_num = 0,
             ph_token = (if ph_pkt_type h = Initial \<and> ph_token h \<noteq> Some [] \<or> ph_pkt_type h = Retry then ph_token h else None),
             ph_key_phase = False\<rparr>, length bs)"
proof -
  have "header_from_bytes (header_wire h @ rest) (length (ph_dcid h)) = Ok (parsed_header h, length (header_wire h))"
    using header_from_bytes_short [OF assms(1)] header_from_bytes_long [OF assms(1)] header_from_bytes_retry [OF assms(1)] assms
    by (cases "ph_pkt_type h") (auto simp: header_ok_def TAG_LEN_def)
  moreover have "parsed_header h = \<lparr>ph_pkt_type = ph_pkt_type h, ph_version = (if ph_pkt_type h = OneRTT then 0 else ph_version h),
             ph_dcid = ph_dcid h, ph_scid = (if ph_pkt_type h = OneRTT then [] else ph_scid h),
             ph_pkt_num_len = 0, ph_pkt_num = 0,
             ph_token = (if ph_pkt_type h = Initial \<and> ph_token h \<noteq> Some [] \<or> ph_pkt_type h = Retry then ph_token h else None),
             ph_key_phase = False\<rparr>"
    by (simp add: parsed_header_def)
  ultimately show ?thesis using header_to_bytes_emits [OF assms(1)]
    by (intro exI [of _ "header_wire h"]) (simp add: emits_def)
qed

theorem packet_header_roundtrip_witness:
  "let h = \<lparr>ph_pkt_type = Initial, ph_version = 1, ph_dcid = [1, 2], ph_scid = [3], ph_pkt_num_len = 2,
             ph_pkt_num = 7, ph_token = Some [5, 5], ph_key_phase = False\<rparr>
   in \<exists>bs. (\<forall>w. header_to_bytes h w = (if length bs \<le> room w then Ok (length bs, put_slice bs w) else Err BufferTooShort))
    \<and> header_from_bytes (bs @ [0xaa]) (length (ph_dcid h)) = Ok (h\<lparr>ph_pkt_num_len := 0, ph_pkt_num := 0\<rparr>, length bs)"
  using packet_header_roundtrip [of "\<lparr>ph_pkt_type = Initial, ph_version = 1, ph_dcid = [1, 2], ph_scid = [3],
      ph_pkt_num_len = 2, ph_pkt_num = 7, ph_token = Some [5, 5], ph_key_phase = False\<rparr>" "[0xaa]"]
  by (simp add: header_ok_def packet_consts MAX_CID_LEN_def)

text \<open>C30: parsing a header from untrusted bytes never panics; a header that is returned lies inside
  the buffer, has connection IDs of at most 20 bytes, and agrees with what \<open>header_info\<close> extracts
  from the same bytes.\<close>

theorem packet_header_parse_safe:
  "header_from_bytes buf n \<noteq> Panic \<and>
   (\<forall>h used. header_from_bytes buf n = Ok (h, used) \<longrightarrow> used \<le> length buf
      \<and> length (ph_dcid h) \<le> MAX_CID_LEN \<and> length (ph_scid h) \<le> MAX_CID_LEN
      \<and> header_info buf n = Ok (ph_pkt_type h \<noteq> OneRTT, ph_version h, ph_dcid h))"
  using header_from_bytes_total header_from_bytes_bounds header_info_agrees by blast

theorem packet_header_parse_safe_witness:
  "\<exists>h used. header_from_bytes [0x40, 1, 2, 3] 3 = Ok (h, used) \<and> used \<le> 4 \<and> length (ph_dcid h) \<le> MAX_CID_LEN
     \<and> header_info [0x40, 1, 2, 3] 3 = Ok (False, ph_version h, ph_dcid h)"
proof -
  have "\<exists>h used. header_from_bytes [0x40, 1, 2, 3] 3 = Ok (h, used) \<and> ph_pkt_type h = OneRTT"
    by (simp add: header_from_bytes_def read_u8_def read_bytes_def be_word_def long_header_def packet_consts)
  with packet_header_parse_safe [of "[0x40, 1, 2, 3]" 3] show ?thesis by fastforce
qed

text \<open>The client accepts the Retry packet that the server builds: its integrity tag verifies,
  and it parses as a Retry packet with the addressed connection IDs and the token.\<close>

theorem retry_packet_accepted:
  assumes "\<And>p t. retry_tag p = Ok t \<Longrightarrow> length t = TAG_LEN"
    and "length token < 2 ^ 62" and "retry retry_tag scid dcid odcid token version n = Ok pkt"
  shows "verify_retry_integrity_tag retry_tag pkt odcid version = Ok () \<and>
    (\<exists>h. header_from_bytes pkt k = Ok (h, length pkt - TAG_LEN) \<and> ph_pkt_type h = Retry
       \<and> ph_dcid h = cid_new dcid \<and> ph_scid h = cid_new scid \<and> ph_token h = Some token)"
proof
  show "verify_retry_integrity_tag retry_tag pkt odcid version = Ok ()"
    by (rule retry_verifies(1)) (use assms in auto)
  show "\<exists>h. header_from_bytes pkt k = Ok (h, length pkt - TAG_LEN) \<and> ph_pkt_type h = Retry
       \<and> ph_dcid h = cid_new dcid \<and> ph_scid h = cid_new scid \<and> ph_token h = Some token"
    by (rule retry_verifies(2)) (use assms in auto)
qed

theorem retry_packet_accepted_witness:
  "\<exists>pkt. retry (\<lambda>p. Ok (replicate 16 0)) [1] [2] [3] [4, 5] 1 64 = Ok pkt
     \<and> verify_retry_integrity_tag (\<lambda>p. Ok (replicate 16 0)) pkt [3] 1 = Ok ()"
proof -
  let ?t = "\<lambda>p :: bytes. Ok (replicate 16 0) :: bytes res"
  let ?h = "\<lparr>ph_pkt_type = Retry, ph_version = 1, ph_dcid = [2], ph_scid = [1], ph_pkt_num_len = 0,
    ph_pkt_num = 0, ph_token = Some [4, 5], ph_key_phase = False\<rparr>"
  have ok: "header_ok ?h" by (simp add: header_ok_def MAX_CID_LEN_def)
  have "length (header_wire ?h) = 11" by (simp add: header_wire_def token_field_def)
  with emitsD(1) [OF header_to_bytes_emits [OF ok], of "new_wbuf 64"]
  have "header_to_bytes ?h (new_wbuf 64) = Ok (11, put_slice (header_wire ?h) (new_wbuf 64))"
    by (simp add: new_wbuf_def)
  then have "\<exists>pkt. retry ?t [1] [2] [3] [4, 5] 1 64 = Ok pkt"
    using \<open>length (header_wire ?h) = 11\<close>
    by (simp add: retry_def version_is_supported_def QUIC_VERSION_V1_def MAX_CID_LEN_def
        compute_retry_integrity_tag_def retry_pseudo_packet_eq write_bytes_def new_wbuf_def)
  then obtain pkt where p: "retry ?t [1] [2] [3] [4, 5] 1 64 = Ok pkt" by blast
  have "verify_retry_integrity_tag ?t pkt [3] 1 = Ok ()"
    using retry_packet_accepted [OF _ _ p] by (simp add: TAG_LEN_def)
  with p show ?thesis by blast
qed

end
