(* ===== verification/Frame.thy ===== *)
theory Frame
  imports Packet Ranges
begin

unbundle bit_operations_syntax

text \<open>
  QUIC frames (src/frame.rs): the frame type, its encoder \<open>frame_to_bytes\<close>, the length predictor
  \<open>frame_wire_len\<close>, the decoder \<open>frame_from_bytes\<close> with the rules on which frames a packet type
  may carry, and the two classifications of frames.

  \<open>frame_wire\<close> is the encoding as a byte list. The encoder appends it, the predictor returns its
  length and the decoder reads it back; the decoder never panics, makes progress and stays inside
  its buffer on any input.
\<close>

subsection \<open>Frames\<close>

record ecn_counts =
  ect0_count :: u64
  ect1_count :: u64
  ecn_ce_count :: u64

datatype frame =
    Paddings nat
  | Ping "(nat \<times> nat) option"
  | Ack u64 "u64 rangeset" "ecn_counts option"
  | ResetStream u64 u64 u64
  | StopSending u64 u64
  | Crypto u64 nat bytes
  | NewToken bytes
  | Stream u64 u64 nat bool bytes
  | MaxData u64
  | MaxStreamData u64 u64
  | MaxStreams bool u64
  | DataBlocked u64
  | StreamDataBlocked u64 u64
  | StreamsBlocked bool u64
  | NewConnectionId u64 u64 cid bytes
  | RetireConnectionId u64
  | PathChallenge bytes
  | PathResponse bytes
  | ConnectionClose u64 u64 bytes
  | ApplicationClose u64 bytes
  | HandshakeDone
  | PathAbandon u64 u64 bytes
  | PathStatus u64 u64 u64

definition MAX_STREAM_SIZE :: u64 where
  "MAX_STREAM_SIZE = push_bit 62 1"

fun ack_eliciting :: "frame \<Rightarrow> bool" where
  "ack_eliciting (Paddings _) = False"
| "ack_eliciting (Ack _ _ _) = False"
| "ack_eliciting (ApplicationClose _ _) = False"
| "ack_eliciting (ConnectionClose _ _ _) = False"
| "ack_eliciting _ = True"

fun probing :: "frame \<Rightarrow> bool" where
  "probing (Paddings _) = True"
| "probing (NewConnectionId _ _ _ _) = True"
| "probing (PathChallenge _) = True"
| "probing (PathResponse _) = True"
| "probing _ = False"

text \<open>The match of \<open>validate_frame\<close>; earlier clauses take precedence as in the source.\<close>

fun validate_frame :: "packet_type \<Rightarrow> frame \<Rightarrow> bool" where
  "validate_frame _ (Paddings _) = True"
| "validate_frame _ (Ping _) = True"
| "validate_frame ZeroRTT (Ack _ _ _) = False"
| "validate_frame ZeroRTT (Crypto _ _ _) = False"
| "validate_frame ZeroRTT HandshakeDone = False"
| "validate_frame ZeroRTT (NewToken _) = False"
| "validate_frame ZeroRTT (PathResponse _) = False"
| "validate_frame ZeroRTT (RetireConnectionId _) = False"
| "validate_frame ZeroRTT (ConnectionClose _ _ _) = False"
| "validate_frame _ (Ack _ _ _) = True"
| "validate_frame _ (Crypto _ _ _) = True"
| "validate_frame _ (ConnectionClose _ _ _) = True"
| "validate_frame OneRTT _ = True"
| "validate_frame ZeroRTT _ = True"
| "validate_frame _ _ = False"

subsection \<open>Encoding\<close>

definition crypto_header_wire_len :: "u64 \<Rightarrow> nat res" where
  "crypto_header_wire_len offset = sum_r [Ok 1, encode_varint_len offset, Ok 2]"

definition encode_crypto_header :: "u64 \<Rightarrow> u64 \<Rightarrow> error writer" where
  "encode_crypto_header offset len =
     write_all [write_varint 0x06, write_varint offset, write_varint_with_len len 2]"

definition stream_header_wire_len :: "u64 \<Rightarrow> u64 \<Rightarrow> nat res" where
  "stream_header_wire_len stream_id offset =
     sum_r [Ok 1, encode_varint_len stream_id, encode_varint_len offset, Ok 2]"

definition encode_stream_header :: "u64 \<Rightarrow> u64 \<Rightarrow> u64 \<Rightarrow> bool \<Rightarrow> error writer" where
  "encode_stream_header stream_id offset len fin =
     (let frame_type = (0b00001110 :: u8);
          frame_type = (if fin then frame_type OR 0x01 else frame_type)
      in write_all [write_varint (ucast frame_type), write_varint stream_id, write_varint offset,
                    write_varint_with_len len 2])"

text \<open>The gap and length fields that the loop over the remaining ranges computes.\<close>

fun ack_range_fields :: "u64 \<Rightarrow> (u64 \<times> u64) list \<Rightarrow> u64 list" where
  "ack_range_fields smallest_ack [] = []"
| "ack_range_fields smallest_ack (r # it) =
     (let gap = smallest_ack - snd r - 1;
          ack_range_len = (snd r - 1) - fst r
      in gap # ack_range_len # ack_range_fields (fst r) it)"

definition ecn_fields :: "ecn_counts option \<Rightarrow> u64 list" where
  "ecn_fields ecn = (case ecn of
       Some e \<Rightarrow> [ect0_count e, ect1_count e, ecn_ce_count e]
     | None \<Rightarrow> [])"

definition ack_to_bytes :: "u64 \<Rightarrow> u64 rangeset \<Rightarrow> ecn_counts option \<Rightarrow> error writer" where
  "ack_to_bytes ack_delay ack_ranges ecn w =
     (let frame_type = (if ecn = None then 0x02 else 0x03) in
      case rev (rs_set ack_ranges) of
        [] \<Rightarrow> bind_r (write_varint frame_type w) (\<lambda>_. Panic)
      | first # it \<Rightarrow>
          write_all (map write_varint
            ([frame_type, snd first - 1, ack_delay, as_u64 (length it), (snd first - 1) - fst first]
             @ ack_range_fields (fst first) it @ ecn_fields ecn)) w)"

text \<open>The arms of \<open>to_bytes\<close> for the frames that carry data or acknowledge it.\<close>

fun data_frame_to_bytes :: "frame \<Rightarrow> error writer" where
  "data_frame_to_bytes (Paddings len) = write_all (replicate len (write_varint 0x00))"
| "data_frame_to_bytes (Ping _) = write_all [write_varint 0x01]"
| "data_frame_to_bytes (Ack ack_delay ack_ranges ecn) = ack_to_bytes ack_delay ack_ranges ecn"
| "data_frame_to_bytes (ResetStream stream_id error_code final_size) =
     write_all [write_varint 0x04, write_varint stream_id, write_varint error_code,
                write_varint final_size]"
| "data_frame_to_bytes (StopSending stream_id error_code) =
     write_all [write_varint 0x05, write_varint stream_id, write_varint error_code]"
| "data_frame_to_bytes (Crypto offset len data) =
     write_all [encode_crypto_header offset (as_u64 len), write_bytes data]"
| "data_frame_to_bytes (NewToken token) =
     write_all [write_varint 0x07, write_varint (as_u64 (length token)), write_bytes token]"
| "data_frame_to_bytes (Stream stream_id offset len fin data) =
     write_all [encode_stream_header stream_id offset (as_u64 len) fin, write_bytes data]"
| "data_frame_to_bytes _ = write_all []"

fun frame_to_bytes :: "frame \<Rightarrow> error writer" where
  "frame_to_bytes (MaxData limit) = write_all [write_varint 0x10, write_varint limit]"
| "frame_to_bytes (MaxStreamData stream_id limit) =
     write_all [write_varint 0x11, write_varint stream_id, write_varint limit]"
| "frame_to_bytes (MaxStreams bidi limit) =
     write_all [write_varint (if bidi then 0x12 else 0x13), write_varint limit]"
| "frame_to_bytes (DataBlocked limit) = write_all [write_varint 0x14, write_varint limit]"
| "frame_to_bytes (StreamDataBlocked stream_id limit) =
     write_all [write_varint 0x15, write_varint stream_id, write_varint limit]"
| "frame_to_bytes (StreamsBlocked bidi limit) =
     write_all [write_varint (if bidi then 0x16 else 0x17), write_varint limit]"
| "frame_to_bytes (NewConnectionId seq_num retire_prior_to conn_id reset_token) =
     write_all [write_varint 0x18, write_varint seq_num, write_varint retire_prior_to,
                write_u8 (word_of_nat (length conn_id)), write_bytes conn_id,
                write_bytes reset_token]"
| "frame_to_bytes (RetireConnectionId seq_num) = write_all [write_varint 0x19, write_varint seq_num]"
| "frame_to_bytes (PathChallenge data) = write_all [write_varint 0x1a, write_bytes data]"
| "frame_to_bytes (PathResponse data) = write_all [write_varint 0x1b, write_bytes data]"
| "frame_to_bytes (ConnectionClose error_code frame_type reason) =
     write_all [write_varint 0x1c, write_varint error_code, write_varint frame_type,
                write_varint (as_u64 (length reason)), write_bytes reason]"
| "frame_to_bytes (ApplicationClose error_code reason) =
     write_all [write_varint 0x1d, write_varint error_code,
                write_varint (as_u64 (length reason)), write_bytes reason]"
| "frame_to_bytes HandshakeDone = write_all [write_varint 0x1e]"
| "frame_to_bytes (PathAbandon dcid_seq_num error_code reason) =
     write_all [write_varint 0x15228c05, write_varint dcid_seq_num, write_varint error_code,
                write_varint (as_u64 (length reason)), write_bytes reason]"
| "frame_to_bytes (PathStatus dcid_seq_num seq_num status) =
     write_all [write_varint 0x15228c06, write_varint dcid_seq_num, write_varint seq_num,
                write_varint status]"
| "frame_to_bytes f = data_frame_to_bytes f"

definition ack_wire_len :: "u64 \<Rightarrow> u64 rangeset \<Rightarrow> ecn_counts option \<Rightarrow> nat res" where
  "ack_wire_len ack_delay ack_ranges ecn =
     (case rev (rs_set ack_ranges) of
        [] \<Rightarrow> Panic
      | first # it \<Rightarrow>
          sum_r ([Ok 1, encode_varint_len (snd first - 1), encode_varint_len ack_delay,
                  encode_varint_len (as_u64 (length it)),
                  encode_varint_len ((snd first - 1) - fst first)]
                 @ map encode_varint_len (ack_range_fields (fst first) it)
                 @ map encode_varint_len (ecn_fields ecn)))"

fun data_frame_wire_len :: "frame \<Rightarrow> nat res" where
  "data_frame_wire_len (Paddings len) = Ok len"
| "data_frame_wire_len (Ping _) = Ok 1"
| "data_frame_wire_len (Ack ack_delay ack_ranges ecn) = ack_wire_len ack_delay ack_ranges ecn"
| "data_frame_wire_len (ResetStream stream_id error_code final_size) =
     sum_r [Ok 1, encode_varint_len stream_id, encode_varint_len error_code,
            encode_varint_len final_size]"
| "data_frame_wire_len (StopSending stream_id error_code) =
     sum_r [Ok 1, encode_varint_len stream_id, encode_varint_len error_code]"
| "data_frame_wire_len (Crypto offset _ data) =
     sum_r [Ok 1, encode_varint_len offset, Ok 2, Ok (length data)]"
| "data_frame_wire_len (NewToken token) =
     sum_r [Ok 1, encode_varint_len (as_u64 (length token)), Ok (length token)]"
| "data_frame_wire_len (Stream stream_id offset _ _ data) =
     sum_r [Ok 1, encode_varint_len stream_id, encode_varint_len offset, Ok 2, Ok (length data)]"
| "data_frame_wire_len _ = Ok 0"

fun frame_wire_len :: "frame \<Rightarrow> nat res" where
  "frame_wire_len (MaxData limit) = sum_r [Ok 1, encode_varint_len limit]"
| "frame_wire_len (MaxStreamData stream_id limit) =
     sum_r [Ok 1, encode_varint_len stream_id, encode_varint_len limit]"
| "frame_wire_len (MaxStreams _ limit) = sum_r [Ok 1, encode_varint_len limit]"
| "frame_wire_len (DataBlocked limit) = sum_r [Ok 1, encode_varint_len limit]"
| "frame_wire_len (StreamDataBlocked stream_id limit) =
     sum_r [Ok 1, encode_varint_len stream_id, encode_varint_len limit]"
| "frame_wire_len (StreamsBlocked _ limit) = sum_r [Ok 1, encode_varint_len limit]"
| "frame_wire_len (NewConnectionId seq_num retire_prior_to conn_id reset_token) =
     sum_r [Ok 1, encode_varint_len seq_num, encode_varint_len retire_prior_to, Ok 1,
            Ok (length conn_id), Ok (length reset_token)]"
| "frame_wire_len (RetireConnectionId seq_num) = sum_r [Ok 1, encode_varint_len seq_num]"
| "frame_wire_len (PathChallenge _) = Ok (1 + 8)"
| "frame_wire_len (PathResponse _) = Ok (1 + 8)"
| "frame_wire_len (ConnectionClose error_code frame_type reason) =
     sum_r [Ok 1, encode_varint_len error_code, encode_varint_len frame_type,
            encode_varint_len (as_u64 (length reason)), Ok (length reason)]"
| "frame_wire_len (ApplicationClose error_code reason) =
     sum_r [Ok 1, encode_varint_len error_code, encode_varint_len (as_u64 (length reason)),
            Ok (length reason)]"
| "frame_wire_len HandshakeDone = Ok 1"
| "frame_wire_len (PathAbandon dcid_seq_num error_code reason) =
     sum_r [Ok 4, encode_varint_len dcid_seq_num, encode_varint_len error_code,
            encode_varint_len (as_u64 (length reason)), Ok (length reason)]"
| "frame_wire_len (PathStatus dcid_seq_num seq_num status) =
     sum_r [Ok 4, encode_varint_len dcid_seq_num, encode_varint_len seq_num,
            encode_varint_len status]"
| "frame_wire_len f = data_frame_wire_len f"

subsection \<open>Decoding\<close>

text \<open>The loop of \<open>parse_ack_frame\<close> over the ranges below the first one.\<close>

primrec parse_ack_ranges :: "nat \<Rightarrow> u64 \<Rightarrow> u64 rangeset \<Rightarrow> (u64 rangeset, error) reader" where
  "parse_ack_ranges 0 smallest_ack ack_ranges b = Ok (ack_ranges, b)"
| "parse_ack_ranges (Suc n) smallest_ack ack_ranges b =
     bind_r (read_varint b) (\<lambda>(gap, b).
     if smallest_ack < 2 + gap then Err FrameEncodingError else
     let largest_ack = (smallest_ack - gap) - 2 in
     bind_r (read_varint b) (\<lambda>(ack_range_len, b).
     if largest_ack < ack_range_len then Err FrameEncodingError else
     let smallest_ack = largest_ack - ack_range_len in
     parse_ack_ranges n smallest_ack (rs_insert smallest_ack (largest_ack + 1) ack_ranges) b))"

definition read_ecn_counts :: "(ecn_counts, error) reader" where
  "read_ecn_counts b =
     bind_r (read_varint b) (\<lambda>(ect0, b).
     bind_r (read_varint b) (\<lambda>(ect1, b).
     bind_r (read_varint b) (\<lambda>(ce, b).
     Ok (\<lparr>ect0_count = ect0, ect1_count = ect1, ecn_ce_count = ce\<rparr>, b))))"

definition parse_ack_frame :: "u64 \<Rightarrow> bytes \<Rightarrow> (frame \<times> nat) res" where
  "parse_ack_frame frame_type buf =
     (let first = (ucast frame_type :: u8) in
      bind_r (read_varint buf) (\<lambda>(largest_ack, b).
      bind_r (read_varint b) (\<lambda>(ack_delay, b).
      bind_r (read_varint b) (\<lambda>(range_count, b).
      bind_r (read_varint b) (\<lambda>(ack_range_len, b).
      if largest_ack < ack_range_len then Err FrameEncodingError else
      let smallest_ack = largest_ack - ack_range_len;
          ack_ranges = rs_insert smallest_ack (largest_ack + 1) rs_default in
      bind_r (parse_ack_ranges (unat range_count) smallest_ack ack_ranges b) (\<lambda>(ack_ranges, b).
      bind_r (if first AND 0x01 \<noteq> 0
              then bind_r (read_ecn_counts b) (\<lambda>(ecn, b). Ok (Some ecn, b))
              else Ok (None, b)) (\<lambda>(ecn, b).
      Ok (Ack ack_delay ack_ranges ecn, length buf - length b))))))))"

text \<open>The run of padding bytes after the first one.\<close>

fun skip_paddings :: "nat \<Rightarrow> bytes \<Rightarrow> nat \<times> bytes" where
  "skip_paddings len [] = (len, [])"
| "skip_paddings len (x # b) = (if x = 0x00 then skip_paddings (len + 1) b else (len, x # b))"

definition read_crypto_frame :: "(frame, error) reader" where
  "read_crypto_frame b =
     bind_r (read_varint b) (\<lambda>(offset, b).
     bind_r (read_varint b) (\<lambda>(len, b).
     let len = as_usize len in
     if length b < len then Err BufferTooShort else
     let data = take len b in
     bind_r (skip_bytes len b) (\<lambda>b.
     Ok (Crypto offset len data, b))))"

definition read_stream_frame :: "u64 \<Rightarrow> (frame, error) reader" where
  "read_stream_frame frame_type b =
     (let first = (ucast frame_type :: u8) in
      bind_r (read_varint b) (\<lambda>(stream_id, b).
      bind_r (if first AND 0x04 \<noteq> 0 then read_varint b else Ok (0, b)) (\<lambda>(offset, b).
      bind_r (if first AND 0x02 \<noteq> 0
              then bind_r (read_varint b) (\<lambda>(len, b). Ok (as_usize len, b))
              else Ok (length b, b)) (\<lambda>(len, b).
      if MAX_STREAM_SIZE \<le> offset + as_u64 len then Err FrameEncodingError else
      let fin = (first AND 0x01 \<noteq> 0) in
      if length b < len then Err BufferTooShort else
      let data = take len b in
      bind_r (skip_bytes len b) (\<lambda>b.
      Ok (Stream stream_id offset len fin data, b))))))"

definition read_new_connection_id :: "(frame, error) reader" where
  "read_new_connection_id b =
     bind_r (read_varint b) (\<lambda>(seq_num, b).
     bind_r (read_varint b) (\<lambda>(retire_prior_to, b).
     bind_r (read_with_u8_length b) (\<lambda>(cid, b).
     bind_r (read_bytes 16 b) (\<lambda>(token, b).
     Ok (NewConnectionId seq_num retire_prior_to (cid_new cid) token, b)))))"

text \<open>Frames whose body is one, two or three integers, or integers and a counted string.\<close>

definition read1 :: "(u64 \<Rightarrow> frame) \<Rightarrow> (frame, error) reader" where
  "read1 f b = bind_r (read_varint b) (\<lambda>(x, b). Ok (f x, b))"

definition read2 :: "(u64 \<Rightarrow> u64 \<Rightarrow> frame) \<Rightarrow> (frame, error) reader" where
  "read2 f b = bind_r (read_varint b) (\<lambda>(x, b). read1 (f x) b)"

definition read3 :: "(u64 \<Rightarrow> u64 \<Rightarrow> u64 \<Rightarrow> frame) \<Rightarrow> (frame, error) reader" where
  "read3 f b = bind_r (read_varint b) (\<lambda>(x, b). read2 (f x) b)"

definition read_string :: "(bytes \<Rightarrow> frame) \<Rightarrow> (frame, error) reader" where
  "read_string f b = bind_r (read_with_varint_length b) (\<lambda>(s, b). Ok (f s, b))"

definition read_int_string :: "(u64 \<Rightarrow> bytes \<Rightarrow> frame) \<Rightarrow> (frame, error) reader" where
  "read_int_string f b = bind_r (read_varint b) (\<lambda>(x, b). read_string (f x) b)"

definition read_ints_string :: "(u64 \<Rightarrow> u64 \<Rightarrow> bytes \<Rightarrow> frame) \<Rightarrow> (frame, error) reader" where
  "read_ints_string f b = bind_r (read_varint b) (\<lambda>(x, b). read_int_string (f x) b)"

definition read_array8 :: "(bytes \<Rightarrow> frame) \<Rightarrow> (frame, error) reader" where
  "read_array8 f b = bind_r (read_bytes 8 b) (\<lambda>(d, b). Ok (f d, b))"

text \<open>The arms of the match on the frame type: types \<open>0x00\<close> to \<open>0x0f\<close>, and the others.\<close>

definition read_data_frame :: "u64 \<Rightarrow> (frame, error) reader" where
  "read_data_frame frame_type b =
     (if frame_type = 0x00 then let (len, b) = skip_paddings 1 b in Ok (Paddings len, b)
      else if frame_type = 0x01 then Ok (Ping None, b)
      else if frame_type = 0x02 \<or> frame_type = 0x03 then
        bind_r (parse_ack_frame frame_type b) (\<lambda>(frame, len).
        bind_r (skip_bytes len b) (\<lambda>b. Ok (frame, b)))
      else if frame_type = 0x04 then read3 ResetStream b
      else if frame_type = 0x05 then read2 StopSending b
      else if frame_type = 0x06 then read_crypto_frame b
      else if frame_type = 0x07 then read_string NewToken b
      else read_stream_frame frame_type b)"

definition read_frame :: "u64 \<Rightarrow> (frame, error) reader" where
  "read_frame frame_type b =
     (if frame_type \<le> 0x0f then read_data_frame frame_type b
      else if frame_type = 0x10 then read1 MaxData b
      else if frame_type = 0x11 then read2 MaxStreamData b
      else if frame_type = 0x12 then read1 (MaxStreams True) b
      else if frame_type = 0x13 then read1 (MaxStreams False) b
      else if frame_type = 0x14 then read1 DataBlocked b
      else if frame_type = 0x15 then read2 StreamDataBlocked b
      else if frame_type = 0x16 then read1 (StreamsBlocked True) b
      else if frame_type = 0x17 then read1 (StreamsBlocked False) b
      else if frame_type = 0x18 then read_new_connection_id b
      else if frame_type = 0x19 then read1 RetireConnectionId b
      else if frame_type = 0x1a then read_array8 PathChallenge b
      else if frame_type = 0x1b then read_array8 PathResponse b
      else if frame_type = 0x1c then read_ints_string ConnectionClose b
      else if frame_type = 0x1d then read_int_string ApplicationClose b
      else if frame_type = 0x1e then Ok (HandshakeDone, b)
      else if frame_type = 0x15228c05 then read_ints_string PathAbandon b
      else if frame_type = 0x15228c06 then read3 PathStatus b
      else Err FrameEncodingError)"

definition frame_from_bytes :: "bytes \<Rightarrow> packet_type \<Rightarrow> (frame \<times> nat) res" where
  "frame_from_bytes buf pkt =
     bind_r (read_varint buf) (\<lambda>(frame_type, b).
     bind_r (read_frame frame_type b) (\<lambda>(frame, b).
     if \<not> validate_frame pkt frame then Err InvalidPacket
     else Ok (frame, length buf - length b)))"

subsection \<open>What a frame looks like on the wire\<close>

definition len2_bytes :: "nat \<Rightarrow> bytes" where
  "len2_bytes n = be_bytes 2 ((ucast (as_u64 n) :: u16) OR 0x4000)"

definition ack_fields :: "u64 \<Rightarrow> u64 rangeset \<Rightarrow> ecn_counts option \<Rightarrow> u64 list" where
  "ack_fields delay s ecn =
     (let first = last (rs_set s); it = tl (rev (rs_set s)) in
      [if ecn = None then 0x02 else 0x03, snd first - 1, delay, as_u64 (length it),
       (snd first - 1) - fst first] @ ack_range_fields (fst first) it @ ecn_fields ecn)"

fun frame_parts :: "frame \<Rightarrow> bytes list" where
  "frame_parts (Paddings n) = replicate n (varint_bytes 0x00)"
| "frame_parts (Ping _) = [varint_bytes 0x01]"
| "frame_parts (Ack d s ecn) = map varint_bytes (ack_fields d s ecn)"
| "frame_parts (ResetStream i e n) = map varint_bytes [0x04, i, e, n]"
| "frame_parts (StopSending i e) = map varint_bytes [0x05, i, e]"
| "frame_parts (Crypto off n data) = [varint_bytes 0x06 @ varint_bytes off @ len2_bytes n, data]"
| "frame_parts (NewToken t) = [varint_bytes 0x07, varint_bytes (as_u64 (length t)), t]"
| "frame_parts (Stream i off n fin data) =
     [varint_bytes (if fin then 0x0f else 0x0e) @ varint_bytes i @ varint_bytes off @ len2_bytes n, data]"
| "frame_parts (MaxData m) = map varint_bytes [0x10, m]"
| "frame_parts (MaxStreamData i m) = map varint_bytes [0x11, i, m]"
| "frame_parts (MaxStreams bidi m) = map varint_bytes [if bidi then 0x12 else 0x13, m]"
| "frame_parts (DataBlocked m) = map varint_bytes [0x14, m]"
| "frame_parts (StreamDataBlocked i m) = map varint_bytes [0x15, i, m]"
| "frame_parts (StreamsBlocked bidi m) = map varint_bytes [if bidi then 0x16 else 0x17, m]"
| "frame_parts (NewConnectionId n r c t) =
     [varint_bytes 0x18, varint_bytes n, varint_bytes r, be_bytes 1 (word_of_nat (length c) :: u8), c, t]"
| "frame_parts (RetireConnectionId n) = map varint_bytes [0x19, n]"
| "frame_parts (PathChallenge d) = [varint_bytes 0x1a, d]"
| "frame_parts (PathResponse d) = [varint_bytes 0x1b, d]"
| "frame_parts (ConnectionClose e t r) =
     [varint_bytes 0x1c, varint_bytes e, varint_bytes t, varint_bytes (as_u64 (length r)), r]"
| "frame_parts (ApplicationClose e r) =
     [varint_bytes 0x1d, varint_bytes e, varint_bytes (as_u64 (length r)), r]"
| "frame_parts HandshakeDone = [varint_bytes 0x1e]"
| "frame_parts (PathAbandon d e r) =
     [varint_bytes 0x15228c05, varint_bytes d, varint_bytes e, varint_bytes (as_u64 (length r)), r]"
| "frame_parts (PathStatus d n s) = map varint_bytes [0x15228c06, d, n, s]"

definition frame_wire :: "frame \<Rightarrow> bytes" where
  "frame_wire f = concat (frame_parts f)"

text \<open>Frames that the encoder is meant for: integers fit a variable-length integer, fixed-size
  fields have their size, the length field agrees with the data and fits two bytes, and an ACK has
  at least one range.\<close>

definition ack_ok :: "u64 rangeset \<Rightarrow> bool" where
  "ack_ok s \<longleftrightarrow> rs_wf s \<and> rs_set s \<noteq> [] \<and> snd (last (rs_set s)) \<le> VINT_MAX + 1"

fun frame_ok :: "frame \<Rightarrow> bool" where
  "frame_ok (Paddings n) = True"
| "frame_ok (Ping _) = True"
| "frame_ok (Ack d s ecn) = (d \<le> VINT_MAX \<and> ack_ok s \<and> list_all (\<lambda>n. n \<le> VINT_MAX) (ecn_fields ecn))"
| "frame_ok (ResetStream i e n) = list_all (\<lambda>n. n \<le> VINT_MAX) [i, e, n]"
| "frame_ok (StopSending i e) = list_all (\<lambda>n. n \<le> VINT_MAX) [i, e]"
| "frame_ok (Crypto off n data) = (off \<le> VINT_MAX \<and> n = length data \<and> n \<le> 16383)"
| "frame_ok (NewToken t) = (length t < 2 ^ 62)"
| "frame_ok (Stream i off n fin data) = (i \<le> VINT_MAX \<and> off \<le> VINT_MAX
     \<and> n = length data \<and> n \<le> 16383 \<and> unat off + n < 2 ^ 62)"
| "frame_ok (MaxData m) = (m \<le> VINT_MAX)"
| "frame_ok (MaxStreamData i m) = list_all (\<lambda>n. n \<le> VINT_MAX) [i, m]"
| "frame_ok (MaxStreams bidi m) = (m \<le> VINT_MAX)"
| "frame_ok (DataBlocked m) = (m \<le> VINT_MAX)"
| "frame_ok (StreamDataBlocked i m) = list_all (\<lambda>n. n \<le> VINT_MAX) [i, m]"
| "frame_ok (StreamsBlocked bidi m) = (m \<le> VINT_MAX)"
| "frame_ok (NewConnectionId n r c t) = (list_all (\<lambda>n. n \<le> VINT_MAX) [n, r] \<and> length c \<le> MAX_CID_LEN
     \<and> length t = RESET_TOKEN_LEN)"
| "frame_ok (RetireConnectionId n) = (n \<le> VINT_MAX)"
| "frame_ok (PathChallenge d) = (length d = 8)"
| "frame_ok (PathResponse d) = (length d = 8)"
| "frame_ok (ConnectionClose e t r) = (list_all (\<lambda>n. n \<le> VINT_MAX) [e, t] \<and> length r < 2 ^ 62)"
| "frame_ok (ApplicationClose e r) = (e \<le> VINT_MAX \<and> length r < 2 ^ 62)"
| "frame_ok HandshakeDone = True"
| "frame_ok (PathAbandon d e r) = (list_all (\<lambda>n. n \<le> VINT_MAX) [d, e] \<and> length r < 2 ^ 62)"
| "frame_ok (PathStatus d n s) = list_all (\<lambda>n. n \<le> VINT_MAX) [d, n, s]"

text \<open>What the peer reads back: the probe size of a PING is not transmitted, and the ranges of an
  ACK arrive in a set of the default capacity.\<close>

fun received :: "frame \<Rightarrow> frame" where
  "received (Ping _) = Ping None"
| "received (Ack d s ecn) = Ack d (rs_default\<lparr>rs_set := rs_set s\<rparr>) ecn"
| "received f = f"

subsection \<open>The ranges of an ACK frame\<close>

fun ack_chain :: "u64 \<Rightarrow> (u64 \<times> u64) list \<Rightarrow> bool" where
  "ack_chain s [] = True"
| "ack_chain s (r # it) = (fst r < snd r \<and> snd r < s \<and> ack_chain (fst r) it)"

lemma ack_chainI:
  assumes "sorted_wrt (\<lambda>p q. snd q < fst p) (p # it)" and "\<forall>q \<in> set it. fst q < snd q"
  shows "ack_chain (fst p) it"
  using assms by (induction it arbitrary: p) auto

lemma ack_ok_ranges:
  assumes "ack_ok s"
  obtains p it where "rev (rs_set s) = p # it" and "fst p < snd p" and "snd p \<le> VINT_MAX + 1"
    and "ack_chain (fst p) it" and "p = last (rs_set s)"
proof -
  let ?m = "rs_set s"
  from assms have wf: "bt_wf ?m" "separated (set ?m)" and ne: "?m \<noteq> []" "snd (last ?m) \<le> VINT_MAX + 1"
    by (auto simp: ack_ok_def rs_wf_def)
  have "sorted_wrt (\<lambda>p q. fst p < fst q) ?m"
    using wf(1) by (simp add: bt_wf_def sorted_wrt_map)
  then have "sorted_wrt (\<lambda>p q. snd p < fst q) ?m"
    by (rule sorted_wrt_mono_rel [rotated]) (use wf(2) in \<open>auto simp: separated_def\<close>)
  then have srt: "sorted_wrt (\<lambda>p q. snd q < fst p) (rev ?m)"
    by (simp add: sorted_wrt_rev)
  obtain p it where r: "rev ?m = p # it" using ne(1) by (cases "rev ?m") auto
  then have "?m = rev it @ [p]" by (metis rev_rev_ident rev.simps(2))
  then have l: "p = last ?m" "set ?m = insert p (set it)" by auto
  have "ack_chain (fst p) it"
    using srt wf(2) r l(2) by (intro ack_chainI) (auto simp: separated_def)
  moreover have "fst p < snd p" using wf(2) l(2) by (auto simp: separated_def)
  ultimately show ?thesis using that r l(1) ne(2) by blast
qed

lemma ack_chain_length: "ack_chain s it \<Longrightarrow> 2 * length it \<le> unat s"
proof (induction it arbitrary: s)
  case (Cons r it)
  then have "2 * length it \<le> unat (fst r)" "unat (fst r) < unat (snd r)" "unat (snd r) < unat s"
    by (auto simp: word_less_nat_alt)
  then show ?case by simp
qed simp

lemma ack_step_arith:
  fixes a b s :: u64
  assumes "a < b" and "b < s"
  shows "\<not> s < 2 + (s - b - 1)" and "(s - (s - b - 1)) - 2 = b - 1" and "\<not> b - 1 < b - 1 - a"
    and "s - b - 1 \<le> s" and "b - 1 - a \<le> s" and "b - 1 < s"
proof -
  have n: "unat a < unat b" "unat b < unat s" "unat s < 2 ^ 64"
    using assms unsigned_less [of s] by (auto simp: word_less_nat_alt)
  have 1: "unat (s - b) = unat s - unat b" using assms by (simp add: unat_sub)
  then have 2: "unat (s - b - 1) = unat s - unat b - 1" using n by (simp add: unat_sub word_le_nat_alt)
  have 3: "unat (b - 1) = unat b - 1" using n by (simp add: unat_sub word_le_nat_alt)
  then have 4: "unat (b - 1 - a) = unat b - 1 - unat a" using n by (simp add: unat_sub word_le_nat_alt)
  have "unat (2 + (s - b - 1)) = 2 + unat (s - b - 1)" using 2 n by (subst unat_add_small) auto
  with 2 n show "\<not> s < 2 + (s - b - 1)" by (simp add: word_less_nat_alt)
  show "(s - (s - b - 1)) - 2 = b - 1" by simp
  show "\<not> b - 1 < b - 1 - a" "b - 1 - a \<le> s" using 3 4 n by (auto simp: word_less_nat_alt word_le_nat_alt)
  show "s - b - 1 \<le> s" using 2 by (simp add: word_le_nat_alt)
  show "b - 1 < s" using 3 n by (simp add: word_less_nat_alt)
qed

lemma ack_range_fields_bound:
  "ack_chain s it \<Longrightarrow> s \<le> VINT_MAX \<Longrightarrow> list_all (\<lambda>n. n \<le> VINT_MAX) (ack_range_fields s it)"
proof (induction it arbitrary: s)
  case (Cons r it)
  then have "s - snd r - 1 \<le> VINT_MAX" "snd r - 1 - fst r \<le> VINT_MAX" "fst r \<le> VINT_MAX"
    using ack_step_arith(4,5) [of "fst r" "snd r" s] by auto
  with Cons show ?case by (simp add: Let_def)
qed simp

lemma parse_ack_ranges_wire:
  assumes "ack_chain s it" and "s \<le> VINT_MAX" and "rs_wf rset" and "\<forall>p \<in> set (rs_set rset). s \<le> fst p"
    and "length it + rs_len rset < rs_cap rset"
  shows "parse_ack_ranges (length it) s rset (concat (map varint_bytes (ack_range_fields s it)) @ rest)
    = Ok (rset\<lparr>rs_set := rev it @ rs_set rset\<rparr>, rest)"
  using assms
proof (induction it arbitrary: s rset)
  case (Cons r it)
  obtain a b where r: "r = (a, b)" by (cases r)
  with Cons.prems have c: "a < b" "b < s" "ack_chain a it" by auto
  note ar = ack_step_arith [OF c(1,2)]
  have le: "s - b - 1 \<le> VINT_MAX" "b - 1 - a \<le> VINT_MAX" "a \<le> VINT_MAX"
    using ar(4,5) c Cons.prems(2) by auto
  have below: "\<forall>p \<in> set (rs_set rset). b < fst p" using Cons.prems(4) c(2) by auto
  have le_a: "\<forall>p \<in> set (rs_set rset). a \<le> fst p"
    using below c(1) by (meson less_imp_le less_trans)
  have ins: "rs_insert a b rset = rset\<lparr>rs_set := (a, b) # rs_set rset\<rparr>"
    using Cons.prems c(1) below by (intro rs_insert_below) auto
  have wf: "rs_wf (rset\<lparr>rs_set := (a, b) # rs_set rset\<rparr>)"
    using rs_insert_insertion [OF Cons.prems(3), of a b] ins by (simp add: insertion_def)
  have "parse_ack_ranges (length it) a (rset\<lparr>rs_set := (a, b) # rs_set rset\<rparr>)
      (concat (map varint_bytes (ack_range_fields a it)) @ rest)
    = Ok (rset\<lparr>rs_set := rev it @ (a, b) # rs_set rset\<rparr>, rest)"
    using Cons.IH [OF c(3) le(3) wf] Cons.prems(5) le_a by (auto simp: rs_len_def)
  with ar le ins show ?case by (simp add: r parse_simps Let_def)
qed simp


lemma ecn_wire:
  assumes "list_all (\<lambda>n. n \<le> VINT_MAX) (ecn_fields (Some e))"
  shows "read_ecn_counts (concat (map varint_bytes (ecn_fields (Some e))) @ rest) = Ok (e, rest)"
  using assms by (simp add: read_ecn_counts_def ecn_fields_def parse_simps)

lemma first_range_arith:
  fixes a e :: u64
  assumes "a < e" and "e \<le> VINT_MAX + 1"
  shows "a \<le> VINT_MAX" and "e - 1 \<le> VINT_MAX" and "e - 1 - a \<le> VINT_MAX" and "\<not> e - 1 < e - 1 - a"
proof -
  have n: "unat a < unat e" "unat e \<le> 4611686018427387904"
    using assms by (simp_all add: word_less_nat_alt word_le_nat_alt VINT_MAX_def)
  have 1: "unat (e - 1) = unat e - 1" using n by (simp add: unat_sub word_le_nat_alt)
  have 2: "unat (e - 1 - a) = unat e - 1 - unat a"
    using n 1 by (simp add: unat_sub word_le_nat_alt)
  from n 1 2 show "a \<le> VINT_MAX" "e - 1 \<le> VINT_MAX" "e - 1 - a \<le> VINT_MAX" "\<not> e - 1 < e - 1 - a"
    by (simp_all add: word_le_nat_alt word_less_nat_alt VINT_MAX_def)
qed

lemma parse_ack_frame_wire:
  assumes "frame_ok (Ack d s ecn)"
  shows "parse_ack_frame (if ecn = None then 0x02 else 0x03)
      (concat (map varint_bytes (tl (ack_fields d s ecn))) @ rest)
    = Ok (received (Ack d s ecn), length (concat (map varint_bytes (tl (ack_fields d s ecn)))))"
proof -
  from assms have d: "d \<le> VINT_MAX" and ecn: "list_all (\<lambda>n. n \<le> VINT_MAX) (ecn_fields ecn)"
    and ok: "ack_ok s" by auto
  from ok obtain p it where r: "rev (rs_set s) = p # it" "fst p < snd p" "snd p \<le> VINT_MAX + 1"
    "ack_chain (fst p) it" "p = last (rs_set s)" by (rule ack_ok_ranges)
  note b = first_range_arith [OF r(2,3)]
  have l: "length it < 2 ^ 61" using ack_chain_length [OF r(4)] b(1) by (simp add: word_le_nat_alt VINT_MAX_def)
  then have c: "unat (as_u64 (length it)) = length it" "as_u64 (length it) \<le> VINT_MAX"
    by (simp_all add: unat_of_nat_u64 small_len_varint)
  have ins: "rs_insert (fst p) (snd p) rs_default = rs_default\<lparr>rs_set := [p]\<rparr>"
    using rs_insert_below [OF rs_wf_new(2) r(2)]
    by (simp add: rs_default_def rs_new_def rs_len_def)
  have wf: "rs_wf (rs_default\<lparr>rs_set := [p]\<rparr>)"
    using rs_insert_insertion [of rs_default "fst p" "snd p"] ins by (simp add: insertion_def)
  have loop: "parse_ack_ranges (length it) (fst p) (rs_default\<lparr>rs_set := [p]\<rparr>)
      (concat (map varint_bytes (ack_range_fields (fst p) it)) @ t) =
      Ok (rs_default\<lparr>rs_set := rs_set s\<rparr>, t)" for t
  proof -
    have "rev it @ [p] = rs_set s" using r(1) by (metis rev.simps(2) rev_rev_ident)
    then show ?thesis
      using parse_ack_ranges_wire [OF r(4) b(1) wf, of t] l
      by (simp add: rs_len_def rs_default_def rs_new_def)
  qed
  have it: "tl (rev (rs_set s)) = it" using r(1) by simp
  show ?thesis
  proof (cases ecn)
    case None
    show ?thesis
      using b c d ins loop
      by (simp add: None parse_ack_frame_def ack_fields_def it r(5) [symmetric] Let_def
          parse_simps ecn_fields_def)
  next
    case (Some e)
    have "read_ecn_counts (concat (map varint_bytes (ecn_fields (Some e))) @ rest) = Ok (e, rest)"
      using ecn Some by (intro ecn_wire) simp
    then show ?thesis
      using b c d ins loop
      by (simp add: Some parse_ack_frame_def ack_fields_def it r(5) [symmetric] Let_def
          parse_simps)
  qed
qed

lemma ack_fields_bound:
  assumes "frame_ok (Ack d s ecn)"
  shows "list_all (\<lambda>n. n \<le> VINT_MAX) (ack_fields d s ecn)"
proof -
  from assms have ok: "ack_ok s" by simp
  then obtain p it where r: "rev (rs_set s) = p # it" "fst p < snd p" "snd p \<le> VINT_MAX + 1"
    "ack_chain (fst p) it" "p = last (rs_set s)" by (rule ack_ok_ranges)
  note b = first_range_arith [OF r(2,3)]
  have "length it < 2 ^ 62"
    using ack_chain_length [OF r(4)] b(1) by (simp add: word_le_nat_alt VINT_MAX_def)
  then have "as_u64 (length it) \<le> VINT_MAX" by (rule small_len_varint)
  moreover have "tl (rev (rs_set s)) = it" using r(1) by simp
  moreover have "(2 :: u64) \<le> VINT_MAX" "(3 :: u64) \<le> VINT_MAX" by (simp_all add: VINT_MAX_def)
  ultimately show ?thesis
    using assms b ack_range_fields_bound [OF r(4) b(1)]
    by (simp add: ack_fields_def r(5) [symmetric] Let_def)
qed

lemma ack_to_bytes_fields:
  assumes "ack_ok s"
  shows "ack_to_bytes d s ecn = write_all (map write_varint (ack_fields d s ecn))"
    and "ack_wire_len d s ecn = sum_r (Ok 1 # map encode_varint_len (tl (ack_fields d s ecn)))"
proof -
  from assms obtain p it where r: "rev (rs_set s) = p # it" "p = last (rs_set s)"
    by (rule ack_ok_ranges)
  show "ack_to_bytes d s ecn = write_all (map write_varint (ack_fields d s ecn))"
    "ack_wire_len d s ecn = sum_r (Ok 1 # map encode_varint_len (tl (ack_fields d s ecn)))"
    unfolding fun_eq_iff ack_to_bytes_def ack_wire_len_def ack_fields_def Let_def r(1) r(2) [symmetric]
    by (simp_all del: sum_r.simps)
qed

subsection \<open>The encoder and the length predictor\<close>

lemma write_len2_emits [emit_rules]:
  "emits BufferTooShort (write_varint_with_len (as_u64 n) 2) (len2_bytes n)"
  by (simp add: emits_def write_varint_with_len_def len2_bytes_def not_less)

lemma encode_crypto_header_emits [emit_rules]:
  assumes "off \<le> VINT_MAX"
  shows "emits BufferTooShort (encode_crypto_header off (as_u64 n))
    (varint_bytes 0x06 @ varint_bytes off @ len2_bytes n)"
proof -
  have "emits BufferTooShort (write_all [write_varint 0x06, write_varint off, write_varint_with_len (as_u64 n) 2])
     (concat [varint_bytes 0x06, varint_bytes off, len2_bytes n])"
    using assms by (intro emits_write_all) (simp add: emit_rules VINT_MAX_def)
  then show ?thesis by (simp add: encode_crypto_header_def)
qed

lemma encode_stream_header_emits [emit_rules]:
  assumes "i \<le> VINT_MAX" and "off \<le> VINT_MAX"
  shows "emits BufferTooShort (encode_stream_header i off (as_u64 n) fin)
    (varint_bytes (if fin then 0x0f else 0x0e) @ varint_bytes i @ varint_bytes off @ len2_bytes n)"
proof -
  let ?t = "if fin then 0x0f else 0x0e :: u64"
  have "emits BufferTooShort (write_all [write_varint ?t, write_varint i, write_varint off,
        write_varint_with_len (as_u64 n) 2])
     (concat [varint_bytes ?t, varint_bytes i, varint_bytes off, len2_bytes n])"
    using assms by (intro emits_write_all) (simp add: emit_rules VINT_MAX_def)
  moreover have "encode_stream_header i off (as_u64 n) fin =
      write_all [write_varint ?t, write_varint i, write_varint off, write_varint_with_len (as_u64 n) 2]"
    by (simp add: encode_stream_header_def)
  ultimately show ?thesis by simp
qed

lemma frame_to_bytes_emits:
  assumes "frame_ok f"
  shows "emits BufferTooShort (frame_to_bytes f) (frame_wire f)"
proof (cases f)
  case (Paddings n)
  have "list_all2 (emits BufferTooShort) (replicate n (write_varint 0)) (replicate n (varint_bytes 0))"
    by (simp add: list_all2_conv_all_nth emit_rules VINT_MAX_def)
  with Paddings show ?thesis unfolding frame_wire_def by (simp add: emits_write_all)
next
  case (Ack d s ecn)
  with assms have "ack_ok s" by simp
  with Ack show ?thesis
    using varint.write_list [OF ack_fields_bound [OF assms [unfolded Ack]]]
    by (simp add: frame_wire_def ack_to_bytes_fields)
next
  case (Stream i off n fin data)
  then show ?thesis
    using assms unfolding frame_wire_def
    by (auto simp: emit_rules simp del: concat.simps intro!: emits_write_all split del: if_split)
qed (use assms in \<open>auto simp: frame_wire_def emit_rules small_varint small_len_varint
      simp del: be_bytes.simps One_nat_def concat.simps intro!: emits_write_all\<close>)

lemma sum_r_varints:
  "list_all (\<lambda>n. n \<le> VINT_MAX) xs \<Longrightarrow>
    sum_r (map encode_varint_len xs) = Ok (length (concat (map varint_bytes xs)))"
  by (induction xs) (auto simp: length_varint_bytes)

lemma length_varint_small: "n \<le> 63 \<Longrightarrow> length (varint_bytes n) = 1"
  by (simp add: varint_bytes_def)

lemma length_len2_bytes [simp]: "length (len2_bytes n) = 2"
  by (simp add: len2_bytes_def)

lemma frame_wire_len_eq:
  assumes "frame_ok f"
  shows "frame_wire_len f = Ok (length (frame_wire f))"
proof (cases f)
  case (Paddings n)
  then show ?thesis by (simp add: frame_wire_def length_concat length_varint_small sum_list_replicate)
next
  case (Ack d s ecn)
  define xs where "xs = tl (ack_fields d s ecn)"
  have f: "ack_fields d s ecn = (if ecn = None then 2 else 3) # xs"
    by (simp add: xs_def ack_fields_def Let_def)
  have "list_all (\<lambda>n. n \<le> VINT_MAX) xs" using ack_fields_bound [OF assms [unfolded Ack]] f by simp
  then have "sum_r (map encode_varint_len xs) = Ok (length (concat (map varint_bytes xs)))"
    by (rule sum_r_varints)
  moreover have "ack_wire_len d s ecn = sum_r (Ok 1 # map encode_varint_len xs)"
    using ack_to_bytes_fields(2) assms Ack by (simp add: xs_def)
  ultimately show ?thesis by (simp add: Ack frame_wire_def f length_varint_small)
qed (use assms in \<open>auto simp: frame_wire_def length_varint_bytes small_len_varint length_varint_small
      varint_bytes_def [of "0x15228c05"] varint_bytes_def [of "0x15228c06"]\<close>)


subsection \<open>The decoder reads back what the encoder wrote\<close>

lemma len2_parse [parse_simps]:
  assumes "n \<le> 16383"
  shows "read_varint (len2_bytes n @ r) = Ok (as_u64 n, r)"
  unfolding len2_bytes_def
  using assms by (intro varint_2_bytes) (simp add: word_le_nat_alt unat_of_nat_u64)

text \<open>A run of paddings is read to its end, over the zero octets that follow it.\<close>

abbreviation leading_zeros :: "bytes \<Rightarrow> nat" where
  "leading_zeros b \<equiv> length (takeWhile (\<lambda>x. x = 0) b)"

lemma skip_paddings_wire:
  "skip_paddings k (replicate n 0 @ rest) = (k + n + leading_zeros rest, dropWhile (\<lambda>x. x = 0) rest)"
proof (induction n arbitrary: k)
  case 0
  show ?case by (induction rest arbitrary: k) auto
qed simp

lemma frame_from_bytes_paddings_run:
  assumes "0 < n"
  shows "frame_from_bytes (frame_wire (Paddings n) @ rest) pkt =
    Ok (Paddings (n + leading_zeros rest), length (frame_wire (Paddings n)) + leading_zeros rest)"
proof -
  from assms obtain k where n: "n = Suc k" by (cases n) auto
  have z: "varint_bytes 0 = [0]" by (simp add: varint_bytes_def)
  have "frame_wire (Paddings n) = replicate n 0"
    by (simp add: frame_wire_def z concat_replicate_single)
  moreover have "read_varint (0 # b) = Ok (0, b)" for b
    using varint.dec_wire [of 0 b] by (simp add: z)
  moreover have "length rest = leading_zeros rest + length (dropWhile (\<lambda>x. x = 0) rest)"
    by (metis length_append takeWhile_dropWhile_id)
  ultimately show ?thesis
    using skip_paddings_wire [of 1 k rest]
    by (simp add: n frame_from_bytes_def read_frame_def read_data_frame_def)
qed

text \<open>A padding run must end where the encoder ended it.\<close>

definition delimited :: "frame \<Rightarrow> bytes \<Rightarrow> bool" where
  "delimited f rest = (case f of
       Paddings n \<Rightarrow> 0 < n \<and> (rest = [] \<or> hd rest \<noteq> 0)
     | _ \<Rightarrow> True)"

lemma frame_from_bytes_paddings:
  assumes "delimited (Paddings n) rest"
  shows "frame_from_bytes (frame_wire (Paddings n) @ rest) pkt = Ok (Paddings n, length (frame_wire (Paddings n)))"
proof -
  have "leading_zeros rest = 0" using assms by (cases rest) (auto simp: delimited_def)
  then show ?thesis using frame_from_bytes_paddings_run [of n rest pkt] assms by (simp add: delimited_def)
qed

lemma frame_from_bytes_ack:
  assumes "frame_ok (Ack d s ecn)" and "validate_frame pkt (Ack d s ecn)"
  shows "frame_from_bytes (frame_wire (Ack d s ecn) @ rest) pkt =
    Ok (received (Ack d s ecn), length (frame_wire (Ack d s ecn)))"
proof -
  define t :: u64 where "t = (if ecn = None then 2 else 3)"
  define ws where "ws = concat (map varint_bytes (tl (ack_fields d s ecn)))"
  have w: "frame_wire (Ack d s ecn) = varint_bytes t @ ws"
    by (simp add: frame_wire_def ws_def t_def ack_fields_def Let_def)
  have t: "t \<le> VINT_MAX" "t \<le> 0xf" "t \<noteq> 0" "t \<noteq> 1" "t = 2 \<or> t = 3"
    by (simp_all add: t_def VINT_MAX_def)
  have "parse_ack_frame t (ws @ rest) = Ok (received (Ack d s ecn), length ws)"
    using parse_ack_frame_wire [OF assms(1), of rest] by (simp add: t_def ws_def)
  moreover have "validate_frame pkt (received (Ack d s ecn))"
    using assms(2) by (cases pkt) auto
  ultimately show ?thesis
    using t unfolding w
    by (simp add: frame_from_bytes_def read_frame_def read_data_frame_def parse_simps skip_bytes_def)
qed

lemma frame_from_bytes_stream:
  assumes "frame_ok (Stream i off n fin data)" and "validate_frame pkt (Stream i off n fin data)"
  shows "frame_from_bytes (frame_wire (Stream i off n fin data) @ rest) pkt =
    Ok (Stream i off n fin data, length (frame_wire (Stream i off n fin data)))"
proof -
  define t :: u64 where "t = (if fin then 0x0f else 0x0e)"
  have ok: "i \<le> VINT_MAX" "off \<le> VINT_MAX" "n = length data" "n \<le> 16383" "unat off + n < 2 ^ 62"
    using assms(1) by auto
  have w: "frame_wire (Stream i off n fin data) =
      varint_bytes t @ varint_bytes i @ varint_bytes off @ len2_bytes n @ data"
    by (simp add: frame_wire_def t_def)
  have t: "t \<le> VINT_MAX" "t \<le> 0x0f" "t \<notin> {0, 1, 2, 3, 4, 5, 6, 7}"
      "(ucast t :: u8) AND 0x04 \<noteq> 0" "(ucast t :: u8) AND 0x02 \<noteq> 0" "(ucast t :: u8) AND 0x01 \<noteq> 0 \<longleftrightarrow> fin"
    by (simp_all add: t_def VINT_MAX_def)
  have "unat (off + as_u64 n) = unat off + n"
    using ok(4,5) by (subst unat_add_small) (simp_all add: unat_of_nat_u64)
  then have "\<not> MAX_STREAM_SIZE \<le> off + as_u64 n"
    using ok(5) by (simp add: MAX_STREAM_SIZE_def word_le_nat_alt)
  moreover have "unat (as_u64 n) = n" using ok(4) by (simp add: unat_of_nat_u64)
  ultimately have "read_stream_frame t (varint_bytes i @ varint_bytes off @ len2_bytes n @ data @ rest) =
      Ok (Stream i off n fin data, rest)"
    using ok t by (simp add: read_stream_frame_def parse_simps skip_bytes_def)
  then show ?thesis
    using t assms(2) unfolding w
    by (simp add: frame_from_bytes_def read_frame_def read_data_frame_def parse_simps)
qed

lemmas read_frame_defs = frame_from_bytes_def read_frame_def read_data_frame_def read1_def read2_def
  read3_def read_string_def read_int_string_def read_ints_string_def read_array8_def
  read_crypto_frame_def read_new_connection_id_def skip_bytes_def

lemma validate_bidi:
  "validate_frame pkt (MaxStreams bidi m) \<longleftrightarrow> pkt \<in> {OneRTT, ZeroRTT}"
  "validate_frame pkt (StreamsBlocked bidi m) \<longleftrightarrow> pkt \<in> {OneRTT, ZeroRTT}"
  by (cases pkt; simp)+

lemma frame_from_bytes_wire:
  assumes "frame_ok f" and "validate_frame pkt f" and "delimited f rest"
  shows "frame_from_bytes (frame_wire f @ rest) pkt = Ok (received f, length (frame_wire f))"
proof (cases f)
  case (Paddings n)
  then show ?thesis using assms frame_from_bytes_paddings by simp
next
  case (Ack d s ecn)
  then show ?thesis using assms frame_from_bytes_ack by blast
next
  case (Stream i off n fin data)
  then show ?thesis using assms frame_from_bytes_stream by simp
qed (use assms in \<open>auto simp: frame_wire_def read_frame_defs parse_simps small_varint small_len_varint unat_of_nat_u64
      validate_bidi MAX_CID_LEN_def RESET_TOKEN_LEN_def simp del: be_bytes.simps One_nat_def\<close>)


subsection \<open>Decoding untrusted input\<close>

lemma skip_bytes_consumes: "skip_bytes n b = Ok r \<Longrightarrow> \<exists>p. b = p @ r"
  by (auto simp: skip_bytes_def split: if_splits)

lemma skip_paddings_consumes: "skip_paddings k b = (n, r) \<Longrightarrow> \<exists>p. b = p @ r"
  by (induction k b rule: skip_paddings.induct) (auto split: if_splits intro: exI [of _ "_ # _"])

lemma consumes_map [consume_rules]: "consumes f \<Longrightarrow> consumes (\<lambda>b. bind_r (f b) (\<lambda>(v, r). Ok (g v, r)))"
  by (auto simp: consumes_def bind_r_Ok_iff)

lemma reader_consumes [consume_rules]:
  "consumes (read1 f1)" "consumes (read2 f2)" "consumes (read3 f3)" "consumes (read_string g)"
  "consumes (read_int_string g1)" "consumes (read_ints_string g2)" "consumes (read_array8 h)"
  unfolding read1_def read2_def read3_def read_string_def read_int_string_def read_ints_string_def
    read_array8_def
  by (intro consume_rules)+

lemma read_new_connection_id_consumes [consume_rules]: "consumes read_new_connection_id"
  unfolding read_new_connection_id_def by (intro consume_rules)

lemma take_skip_consumes:
  "consumes (\<lambda>b. if length b < n then Err e else bind_r (skip_bytes n b) (\<lambda>r. Ok (F (take n b), r)))"
  by (auto simp: consumes_def bind_r_Ok_iff dest: skip_bytes_consumes)

lemma read_crypto_frame_consumes [consume_rules]: "consumes read_crypto_frame"
  unfolding read_crypto_frame_def Let_def by (intro consume_rules take_skip_consumes)

lemma read_stream_frame_consumes [consume_rules]: "consumes (read_stream_frame t)"
proof -
  have "consumes (\<lambda>b. if P then Err e else
      if length b < n then Err e' else bind_r (skip_bytes n b) (\<lambda>r. Ok (F (take n b), r)))"
    for P e e' n and F :: "bytes \<Rightarrow> frame"
    using take_skip_consumes [of n e' F] by (simp add: consumes_def)
  moreover have "consumes (\<lambda>b. if P then bind_r (read_varint b) (\<lambda>(n, b). Ok (as_usize n, b))
      else Ok (length b, b))" for P
    using consumes_map [OF read_varint_consumes, of unat] by (simp add: consumes_def)
  moreover have "consumes (\<lambda>b. if P then read_varint b else Ok (0, b))" for P
    by (intro consume_rules)
  ultimately show ?thesis
    unfolding read_stream_frame_def Let_def by (intro consumes_bind read_varint_consumes)
qed

lemma read_frame_consumes: "consumes (read_frame t)"
proof -
  have "consumes (\<lambda>b. let (n, b) = skip_paddings 1 b in Ok (Paddings n, b))"
    by (auto simp: consumes_def split: prod.splits dest: skip_paddings_consumes)
  moreover have "consumes (\<lambda>b. bind_r (parse_ack_frame t b) (\<lambda>(frame, n).
      bind_r (skip_bytes n b) (\<lambda>b. Ok (frame, b))))"
    by (auto simp: consumes_def bind_r_Ok_iff dest: skip_bytes_consumes)
  ultimately have "consumes (read_data_frame t)"
    unfolding read_data_frame_def by (intro consume_rules)
  then show ?thesis unfolding read_frame_def by (intro consume_rules)
qed

lemma frame_from_bytes_progress:
  assumes "frame_from_bytes buf pkt = Ok (f, n)"
  shows "0 < n" and "n \<le> length buf" and "validate_frame pkt f"
proof -
  from assms obtain t b b' where r: "read_varint buf = Ok (t, b)" "read_frame t b = Ok (f, b')"
    "validate_frame pkt f" "n = length buf - length b'"
    by (auto simp: frame_from_bytes_def bind_r_Ok_iff split: if_splits)
  have "length b' \<le> length b" using consumes_length [OF read_frame_consumes r(2)] .
  moreover have "length b < length buf" using read_varint_Ok_len [OF r(1)] by simp
  ultimately show "0 < n" "n \<le> length buf" "validate_frame pkt f" using r by auto
qed

lemma read_frame_total_aux [no_panic]:
  "skip_bytes n b \<noteq> Panic" "read1 f1 b \<noteq> Panic" "read2 f2 b \<noteq> Panic" "read3 f3 b \<noteq> Panic"
  "read_string g b \<noteq> Panic" "read_int_string g1 b \<noteq> Panic" "read_ints_string g2 b \<noteq> Panic"
  "read_array8 h b \<noteq> Panic" "read_new_connection_id b \<noteq> Panic" "read_crypto_frame b \<noteq> Panic"
  "read_ecn_counts b \<noteq> Panic" "read_stream_frame t b \<noteq> Panic"
  by (auto simp: read_frame_defs read_ecn_counts_def read_stream_frame_def Let_def bind_r_Panic_iff
      read_varint_total read_with_varint_length_total read_with_u8_length_total split: if_splits)

lemma parse_ack_ranges_total [no_panic]: "parse_ack_ranges n s rset b \<noteq> Panic"
  by (induction n arbitrary: s rset b)
    (auto simp: bind_r_Panic_iff read_varint_total Let_def split: if_splits)

lemma parse_ack_frame_total [no_panic]: "parse_ack_frame t b \<noteq> Panic"
  by (auto simp: parse_ack_frame_def Let_def bind_r_Panic_iff read_varint_total read_frame_total_aux
      parse_ack_ranges_total split: if_splits)

lemma frame_from_bytes_total: "frame_from_bytes buf pkt \<noteq> Panic"
  by (auto simp: frame_from_bytes_def read_frame_def read_data_frame_def bind_r_Panic_iff read_varint_total
      read_frame_total_aux parse_ack_frame_total split: if_splits prod.splits)

text \<open>The ranges of a decoded ACK can be encoded again.\<close>

lemma parse_ack_ranges_ok:
  assumes "parse_ack_ranges n s rset b = Ok (rset', r)"
    and "ack_ok rset" and "\<forall>p \<in> set (rs_set rset). s \<le> fst p"
    and "2 * rs_len rset + unat s \<le> 2 ^ 62 + 2" and "rs_cap rset = 2 ^ 64 - 1"
  shows "ack_ok rset' \<and> rs_cap rset' = 2 ^ 64 - 1"
  using assms
proof (induction n arbitrary: s rset b)
  case (Suc n)
  from Suc.prems(1) obtain gap b1 len b2 where
    g: "\<not> s < 2 + gap" and v: "gap \<le> VINT_MAX" and l: "\<not> (s - gap) - 2 < len"
    and rec: "parse_ack_ranges n (s - gap - 2 - len) (rs_insert (s - gap - 2 - len) (s - gap - 2 + 1) rset) b2
        = Ok (rset', r)"
    by (auto simp: bind_r_Ok_iff Let_def dest: read_varint_bound split: if_splits)
  define la where "la = s - gap - 2"
  define sm where "sm = la - len"
  have u2: "unat (2 + gap) = 2 + unat gap"
    using v by (subst unat_add_small) (auto simp: VINT_MAX_def word_le_nat_alt)
  have la: "unat la = unat s - unat gap - 2" "unat gap + 2 \<le> unat s"
  proof -
    show le: "unat gap + 2 \<le> unat s" using g u2 by (simp add: word_less_nat_alt)
    have "unat (s - gap) = unat s - unat gap" using le by (simp add: unat_sub word_le_nat_alt)
    then show "unat la = unat s - unat gap - 2" using le by (simp add: la_def unat_sub word_le_nat_alt)
  qed
  have sm: "unat sm = unat la - unat len" "unat len \<le> unat la"
    using l by (auto simp: la_def sm_def unat_sub word_less_nat_alt word_le_nat_alt)
  have la1: "unat (la + 1) = unat la + 1" using la by (intro unat_Suc_small [of _ s, THEN trans]) (auto simp: word_less_nat_alt)
  have lt: "sm < la + 1" "la + 1 < s" using la sm la1 by (auto simp: word_less_nat_alt)
  have below: "\<forall>p \<in> set (rs_set rset). la + 1 < fst p" using Suc.prems(3) lt(2) by auto
  have ins: "rs_insert sm (la + 1) rset = rset\<lparr>rs_set := (sm, la + 1) # rs_set rset\<rparr>"
    using Suc.prems(2,4,5) lt(1) below by (intro rs_insert_below) (auto simp: ack_ok_def)
  have "rs_wf (rs_insert sm (la + 1) rset)"
    using rs_insert_insertion Suc.prems(2) by (auto simp: ack_ok_def insertion_def)
  then have ok: "ack_ok (rset\<lparr>rs_set := (sm, la + 1) # rs_set rset\<rparr>)"
    using Suc.prems(2) by (auto simp: ins ack_ok_def)
  have ge: "\<forall>p \<in> set ((sm, la + 1) # rs_set rset). sm \<le> fst p"
    using below lt(1) by (auto intro: less_imp_le less_trans)
  show ?case
    using Suc.IH [OF rec [folded la_def sm_def, unfolded ins] ok] ge Suc.prems(4,5) sm la
    by (auto simp: rs_len_def)
qed simp

lemma parse_ack_frame_ok:
  assumes "parse_ack_frame t b = Ok (f, n)"
  shows "frame_ok f \<and> received f = f"
proof -
  from assms obtain la c1 d c2 cnt c3 len c4 s c5 ecn c6 where
    f: "f = Ack d s ecn" and r: "read_varint b = Ok (la, c1)" "read_varint c1 = Ok (d, c2)"
    and len: "\<not> la < len"
    and p: "parse_ack_ranges cnt (la - len) (rs_insert (la - len) (la + 1) rs_default) c4 = Ok (s, c5)"
    and ecn: "ecn = None \<or> (\<exists>e. ecn = Some e \<and> read_ecn_counts c5 = Ok (e, c6))"
    by (auto simp: parse_ack_frame_def bind_r_Ok_iff Let_def split: if_splits)
  from r have la: "la \<le> VINT_MAX" and d: "d \<le> VINT_MAX" by (auto dest: read_varint_bound)
  have la1: "unat (la + 1) = unat la + 1" "unat (la - len) = unat la - unat len"
    using la len by (auto simp: unat_sub unat_add_small VINT_MAX_def word_le_nat_alt word_less_nat_alt)
  have lt: "la - len < la + 1" using la1 by (simp add: word_less_nat_alt)
  have ins: "rs_insert (la - len) (la + 1) rs_default = rs_default\<lparr>rs_set := [(la - len, la + 1)]\<rparr>"
    using rs_insert_below [OF rs_wf_new(2) lt] by (simp add: rs_default_def rs_new_def rs_len_def)
  have "ack_ok (rs_default\<lparr>rs_set := [(la - len, la + 1)]\<rparr>)"
    using rs_insert_insertion [OF rs_wf_new(2), of "la - len" "la + 1"] la la1
    by (simp add: ack_ok_def ins insertion_def word_le_nat_alt VINT_MAX_def)
  then have "ack_ok s \<and> rs_cap s = 2 ^ 64 - 1"
    using la la1 by (intro parse_ack_ranges_ok [OF p [unfolded ins]])
      (auto simp: rs_len_def rs_default_def rs_new_def word_le_nat_alt VINT_MAX_def)
  moreover have "list_all (\<lambda>n. n \<le> VINT_MAX) (ecn_fields ecn)"
    using ecn by (auto simp: read_ecn_counts_def ecn_fields_def bind_r_Ok_iff dest: read_varint_bound
        split: if_splits)
  ultimately show ?thesis using d f by (simp add: rs_default_def rs_new_def)
qed

definition short_data :: "frame \<Rightarrow> bool" where
  "short_data f = (case f of
       Crypto _ n _ \<Rightarrow> n \<le> 16383
     | Stream _ _ n _ _ \<Rightarrow> n \<le> 16383
     | _ \<Rightarrow> True)"

lemma read_stream_frame_ok:
  assumes "read_stream_frame t b = Ok (f, r)" and "length b < 2 ^ 62"
  shows "\<exists>i off n fin data. f = Stream i off n fin data \<and> i \<le> VINT_MAX \<and> off \<le> VINT_MAX
    \<and> length data = n \<and> unat off + n < 2 ^ 62"
proof -
  define first :: u8 where "first = ucast t"
  from assms(1) obtain i c1 off c2 n c3 where i: "read_varint b = Ok (i, c1)"
    and off: "(if first AND 0x04 \<noteq> 0 then read_varint c1 else Ok (0, c1)) = Ok (off, c2)"
    and n: "(if first AND 0x02 \<noteq> 0 then bind_r (read_varint c2) (\<lambda>(len, b). Ok (as_usize len, b))
             else Ok (length c2, c2)) = Ok (n, c3)"
    and fin: "(if MAX_STREAM_SIZE \<le> off + as_u64 n then Err FrameEncodingError
               else if length c3 < n then Err BufferTooShort
               else bind_r (skip_bytes n c3) (\<lambda>b. Ok (Stream i off n (first AND 0x01 \<noteq> 0) (take n c3), b)))
             = Ok (f, r)"
    unfolding read_stream_frame_def Let_def first_def bind_pair_Ok_iff by blast
  from off have off: "off = 0 \<and> c2 = c1 \<or> read_varint c1 = Ok (off, c2)" by (auto split: if_splits)
  from n have n: "n = length c2 \<or> (\<exists>k. read_varint c2 = Ok (k, c3) \<and> n = unat k)"
    by (auto simp: bind_pair_Ok_iff split: if_splits)
  from fin have f: "f = Stream i off n (first AND 0x01 \<noteq> 0) (take n c3)"
    and lt: "\<not> MAX_STREAM_SIZE \<le> off + as_u64 n" and le: "n \<le> length c3"
    by (auto simp: bind_r_Ok_iff split: if_splits)
  have bounds: "i \<le> VINT_MAX" "off \<le> VINT_MAX" using i off by (auto dest: read_varint_bound)
  have "length c1 \<le> length b" "length c2 \<le> length c1"
    using i off consumes_length [OF read_varint_consumes] by blast+
  then have small: "n < 2 ^ 62" using n assms(2)
    by (auto dest!: read_varint_bound simp: VINT_MAX_def word_le_nat_alt)
  have "unat (off + as_u64 n) = unat off + n"
    using bounds small by (subst unat_add_small) (simp_all add: unat_of_nat_u64 VINT_MAX_def word_le_nat_alt)
  with lt have "unat off + n < 2 ^ 62" by (simp add: MAX_STREAM_SIZE_def word_le_nat_alt)
  with f bounds le show ?thesis by auto
qed

lemma read_with_varint_length_bound:
  "read_with_varint_length b = Ok (s, r) \<Longrightarrow> length s \<le> length b"
  by (auto simp: read_with_varint_length_def bind_r_Ok_iff read_bytes_def split: if_splits
      dest!: consumes_length [OF read_varint_consumes])

lemma read_string_ok:
  "read_string g b = Ok (f, r) \<Longrightarrow> \<exists>s. f = g s \<and> length s \<le> length b"
  "read_int_string g1 b = Ok (f, r) \<Longrightarrow> \<exists>x s. f = g1 x s \<and> x \<le> VINT_MAX \<and> length s \<le> length b"
  "read_ints_string g2 b = Ok (f, r) \<Longrightarrow> \<exists>x y s. f = g2 x y s \<and> x \<le> VINT_MAX \<and> y \<le> VINT_MAX \<and> length s \<le> length b"
proof -
  show 1: "read_string g b = Ok (f, r) \<Longrightarrow> \<exists>s. f = g s \<and> length s \<le> length b" for g b
    by (auto simp: read_string_def bind_r_Ok_iff dest: read_with_varint_length_bound)
  show 2: "read_int_string g1 b = Ok (f, r) \<Longrightarrow> \<exists>x s. f = g1 x s \<and> x \<le> VINT_MAX \<and> length s \<le> length b" for g1 b
    unfolding read_int_string_def bind_r_Ok_iff
    by (force dest: 1 read_varint_bound consumes_length [OF read_varint_consumes])
  show "read_ints_string g2 b = Ok (f, r) \<Longrightarrow> \<exists>x y s. f = g2 x y s \<and> x \<le> VINT_MAX \<and> y \<le> VINT_MAX \<and> length s \<le> length b"
    unfolding read_ints_string_def bind_r_Ok_iff
    by (force dest: 2 read_varint_bound consumes_length [OF read_varint_consumes])
qed

lemma read_ints_ok:
  "read1 f1 b = Ok (f, r) \<Longrightarrow> \<exists>x. f = f1 x \<and> x \<le> VINT_MAX"
  "read2 f2 b = Ok (f, r) \<Longrightarrow> \<exists>x y. f = f2 x y \<and> x \<le> VINT_MAX \<and> y \<le> VINT_MAX"
  "read3 f3 b = Ok (f, r) \<Longrightarrow> \<exists>x y z. f = f3 x y z \<and> x \<le> VINT_MAX \<and> y \<le> VINT_MAX \<and> z \<le> VINT_MAX"
proof -
  show 1: "read1 f1 b = Ok (f, r) \<Longrightarrow> \<exists>x. f = f1 x \<and> x \<le> VINT_MAX" for f1 b
    by (auto simp: read1_def bind_r_Ok_iff dest: read_varint_bound)
  show 2: "read2 f2 b = Ok (f, r) \<Longrightarrow> \<exists>x y. f = f2 x y \<and> x \<le> VINT_MAX \<and> y \<le> VINT_MAX" for f2 b
    unfolding read2_def bind_r_Ok_iff by (force dest: 1 read_varint_bound)
  show "read3 f3 b = Ok (f, r) \<Longrightarrow> \<exists>x y z. f = f3 x y z \<and> x \<le> VINT_MAX \<and> y \<le> VINT_MAX \<and> z \<le> VINT_MAX"
    unfolding read3_def bind_r_Ok_iff by (force dest: 2 read_varint_bound)
qed

lemma read_array8_ok: "read_array8 h b = Ok (f, r) \<Longrightarrow> \<exists>d. f = h d \<and> length d = 8"
  by (auto simp: read_array8_def bind_r_Ok_iff read_bytes_def split: if_splits)

lemma read_new_connection_id_ok:
  "read_new_connection_id b = Ok (f, r) \<Longrightarrow> frame_ok f \<and> received f = f"
  by (auto simp: read_new_connection_id_def bind_r_Ok_iff read_bytes_def cid_new_length RESET_TOKEN_LEN_def
      dest: read_varint_bound split: if_splits)

lemma read_crypto_frame_ok:
  "read_crypto_frame b = Ok (f, r) \<Longrightarrow> \<exists>off n data. f = Crypto off n data \<and> off \<le> VINT_MAX \<and> length data = n"
  unfolding read_crypto_frame_def bind_r_Ok_iff
  by (force dest: read_varint_bound simp: Let_def bind_r_Ok_iff split: if_splits)

lemma read_frame_ok:
  assumes "read_frame t b = Ok (f, r)" and "length b < 2 ^ 62" and "short_data f"
  shows "frame_ok f \<and> received f = f"
proof (cases "t \<le> 0x0f")
  case True
  with assms(1) have r: "read_data_frame t b = Ok (f, r)" by (simp add: read_frame_def)
  show ?thesis
    using r assms(2,3)
    by (auto simp: read_data_frame_def bind_r_Ok_iff short_data_def split: if_splits prod.splits
        dest!: parse_ack_frame_ok read_ints_ok read_crypto_frame_ok read_string_ok read_stream_frame_ok)
next
  case False
  with assms show ?thesis
    by (auto simp: read_frame_def split: if_splits
        dest!: read_ints_ok read_string_ok read_array8_ok read_new_connection_id_ok)
qed

lemma frame_from_bytes_ok:
  assumes "frame_from_bytes buf pkt = Ok (f, n)" and "length buf < 2 ^ 62" and "short_data f"
  shows "frame_ok f" and "received f = f"
proof -
  from assms(1) obtain t b r where "read_varint buf = Ok (t, b)" "read_frame t b = Ok (f, r)"
    by (auto simp: frame_from_bytes_def bind_r_Ok_iff split: if_splits)
  moreover from this have "length b < 2 ^ 62"
    using assms(2) consumes_length [OF read_varint_consumes] by fastforce
  ultimately show "frame_ok f" "received f = f" using read_frame_ok assms(3) by blast+
qed

subsection \<open>Properties\<close>

text \<open>C31: every frame that satisfies the field limits (and is not an empty run of paddings) is written as one string
  of octets, or the encoder reports a short buffer; and these octets are read back in any packet type that may
  carry the frame, whatever follows them, ACK ranges, counted strings and flags included. Three frames are not
  read back as they were given: a run of paddings is read together with the zero octets that follow it; the size
  that a PING records for its path MTU probe is not transmitted; and the ranges of an ACK arrive in a set of the
  default capacity.\<close>

theorem frame_roundtrip:
  fixes rest :: bytes
  assumes "frame_ok f" and "validate_frame pkt f" and "f \<noteq> Paddings 0"
  defines "z \<equiv> length (takeWhile (\<lambda>x. x = 0) rest)"
  shows "\<exists>bs. (\<forall>w. frame_to_bytes f w =
        (if length bs \<le> room w then Ok (length bs, put_slice bs w) else Err BufferTooShort))
    \<and> frame_from_bytes (bs @ rest) pkt =
        (case f of
           Paddings n \<Rightarrow> Ok (Paddings (n + z), length bs + z)
         | Ping _ \<Rightarrow> Ok (Ping None, length bs)
         | Ack d s ecn \<Rightarrow> Ok (Ack d (rs_default\<lparr>rs_set := rs_set s\<rparr>) ecn, length bs)
         | _ \<Rightarrow> Ok (f, length bs))"
proof (intro exI [of _ "frame_wire f"] conjI allI)
  show "frame_to_bytes f w = (if length (frame_wire f) \<le> room w then Ok (length (frame_wire f), put_slice (frame_wire f) w)
      else Err BufferTooShort)" for w
    using frame_to_bytes_emits [OF assms(1)] by (simp add: emits_def)
  show "frame_from_bytes (frame_wire f @ rest) pkt =
        (case f of
           Paddings n \<Rightarrow> Ok (Paddings (n + z), length (frame_wire f) + z)
         | Ping _ \<Rightarrow> Ok (Ping None, length (frame_wire f))
         | Ack d s ecn \<Rightarrow> Ok (Ack d (rs_default\<lparr>rs_set := rs_set s\<rparr>) ecn, length (frame_wire f))
         | _ \<Rightarrow> Ok (f, length (frame_wire f)))"
  proof (cases "\<exists>n. f = Paddings n")
    case True
    then obtain n where "f = Paddings n" by blast
    then show ?thesis using frame_from_bytes_paddings_run [of n rest pkt] assms(3) by (simp add: z_def)
  next
    case False
    then have "delimited f rest" by (cases f) (simp_all add: delimited_def)
    from frame_from_bytes_wire [OF assms(1,2) this] False show ?thesis by (cases f) simp_all
  qed
qed

theorem frame_roundtrip_witness:
  "\<exists>bs. (\<forall>w. frame_to_bytes (Ack 7 \<lparr>rs_set = [(1, 3), (5, 9)], rs_cap = 68\<rparr> None) w =
        (if length bs \<le> room w then Ok (length bs, put_slice bs w) else Err BufferTooShort))
    \<and> frame_from_bytes (bs @ [0, 1]) OneRTT = Ok (Ack 7 (rs_default\<lparr>rs_set := [(1, 3), (5, 9)]\<rparr>) None, length bs)"
  using frame_roundtrip [of "Ack 7 \<lparr>rs_set = [(1, 3), (5, 9)], rs_cap = 68\<rparr> None" OneRTT "[0, 1]"]
  by (simp add: ack_ok_def rs_wf_def bt_wf_def separated_def VINT_MAX_def ecn_fields_def)

text \<open>\<open>wire_len\<close> predicts exactly how many bytes \<open>to_bytes\<close> writes, and \<open>to_bytes\<close> fails
  with \<open>BufferTooShort\<close>, and not otherwise, when they do not fit.\<close>

theorem frame_wire_len_exact:
  assumes "frame_ok f"
  shows "\<exists>n. frame_wire_len f = Ok n \<and>
    (\<forall>w. if n \<le> room w then \<exists>bs. length bs = n \<and> frame_to_bytes f w = Ok (n, put_slice bs w)
         else frame_to_bytes f w = Err BufferTooShort)"
  using frame_wire_len_eq [OF assms] frame_to_bytes_emits [OF assms] unfolding emits_def by auto

theorem frame_wire_len_exact_witness:
  "\<exists>n. frame_wire_len (Stream 4 100 3 True [1, 2, 3]) = Ok n \<and>
    (\<forall>w. if n \<le> room w then \<exists>bs. length bs = n \<and> frame_to_bytes (Stream 4 100 3 True [1, 2, 3]) w = Ok (n, put_slice bs w)
         else frame_to_bytes (Stream 4 100 3 True [1, 2, 3]) w = Err BufferTooShort)"
  by (rule frame_wire_len_exact) (simp add: VINT_MAX_def)

text \<open>C32: decoding a frame from untrusted bytes never panics; a decoded frame consumed at least one
  byte and at most the buffer, so that the loop over the frames of a packet ends, and it is one that
  the packet type may carry.\<close>

theorem frame_decode_safe:
  "frame_from_bytes buf pkt \<noteq> Panic \<and>
   (\<forall>f n. frame_from_bytes buf pkt = Ok (f, n) \<longrightarrow> 0 < n \<and> n \<le> length buf \<and> validate_frame pkt f)"
  using frame_from_bytes_total frame_from_bytes_progress by blast

theorem frame_decode_safe_witness:
  "frame_from_bytes [0x1e, 0] OneRTT = Ok (HandshakeDone, 1) \<and> 1 \<le> length [0x1e, 0 :: u8]
     \<and> validate_frame OneRTT HandshakeDone"
proof -
  have "frame_from_bytes [0x1e, 0] OneRTT = Ok (HandshakeDone, 1)"
    by (simp add: read_frame_defs read_varint_def decode_varint_len_def read_u8_def be_word_def Let_def)
  with frame_decode_safe [of "[0x1e, 0]" OneRTT] show ?thesis by blast
qed

text \<open>A decoded frame satisfies the field limits of the encoder: packet numbers, offsets and
  identifiers fit 62 bits, stream data ends below \<open>2 ^ 62\<close> and the ranges of an ACK are well formed
  and not empty. Encoding it and decoding the result gives the same frame (when its data, if any,
  fits the two-byte length field that the encoder uses).\<close>

theorem frame_reencode:
  assumes "frame_from_bytes buf pkt = Ok (f, n)" and "length buf < 2 ^ 62" and "short_data f"
    and "delimited f rest"
  shows "frame_ok f \<and> (\<exists>bs. (\<forall>w. length bs \<le> room w \<longrightarrow> frame_to_bytes f w = Ok (length bs, put_slice bs w))
    \<and> frame_from_bytes (bs @ rest) pkt = Ok (f, length bs))"
  using frame_from_bytes_ok [OF assms(1-3)] frame_from_bytes_wire [OF _ frame_from_bytes_progress(3) [OF assms(1)] assms(4)]
    emitsD(1) [OF frame_to_bytes_emits] by (metis (no_types, lifting))

theorem frame_reencode_witness:
  "frame_ok (MaxData 5) \<and> (\<exists>bs. (\<forall>w. length bs \<le> room w \<longrightarrow> frame_to_bytes (MaxData 5) w = Ok (length bs, put_slice bs w))
    \<and> frame_from_bytes (bs @ [0]) OneRTT = Ok (MaxData 5, length bs))"
proof (rule frame_reencode)
  show "frame_from_bytes [0x10, 5] OneRTT = Ok (MaxData 5, 2)"
    by (simp add: read_frame_defs read_varint_def decode_varint_len_def read_u8_def be_word_def Let_def)
qed (simp_all add: short_data_def delimited_def)

text \<open>Which frames a packet may carry (RFC 9000, Table 3): Initial and Handshake packets carry
  only PADDING, PING, ACK, CRYPTO and CONNECTION\_CLOSE; a 0-RTT packet carries none of ACK, CRYPTO,
  HANDSHAKE\_DONE, NEW\_TOKEN, PATH\_RESPONSE, RETIRE\_CONNECTION\_ID and CONNECTION\_CLOSE; a 1-RTT packet
  carries every frame.\<close>

theorem frames_allowed:
  "(validate_frame Initial f \<longleftrightarrow> (case f of Paddings _ \<Rightarrow> True | Ping _ \<Rightarrow> True | Ack _ _ _ \<Rightarrow> True
       | Crypto _ _ _ \<Rightarrow> True | ConnectionClose _ _ _ \<Rightarrow> True | _ \<Rightarrow> False))
   \<and> (validate_frame Handshake f \<longleftrightarrow> validate_frame Initial f)
   \<and> (validate_frame ZeroRTT f \<longleftrightarrow> (case f of Ack _ _ _ \<Rightarrow> False | Crypto _ _ _ \<Rightarrow> False | HandshakeDone \<Rightarrow> False
       | NewToken _ \<Rightarrow> False | PathResponse _ \<Rightarrow> False | RetireConnectionId _ \<Rightarrow> False
       | ConnectionClose _ _ _ \<Rightarrow> False | _ \<Rightarrow> True))
   \<and> validate_frame OneRTT f"
  by (cases f) simp_all

end
