(* ===== verification/Window.thy ===== *)
theory Window
  imports Prelude
begin

unbundle bit_operations_syntax

text \<open>
  The sliding window that detects duplicate packet numbers (src/window.rs). \<open>win_seen\<close> is what the
  window knows: every number below it, and those whose bit is set. A number that was inserted is
  known for ever after, and inside the window nothing else is, as long as the numbers do not jump
  by \<open>2 ^ 32\<close> or more at once.
\<close>

definition SEQ_NUM_WINDOW_SIZE :: u64 where
  "SEQ_NUM_WINDOW_SIZE = 128"

record seq_num_window =
  win_lower :: u64
  win_window :: u128

definition win_default :: seq_num_window where
  "win_default = \<lparr>win_lower = 0, win_window = 0\<rparr>"

definition win_upper :: "seq_num_window \<Rightarrow> u64" where
  "win_upper w = saturating_add (win_lower w) SEQ_NUM_WINDOW_SIZE - 1"

text \<open>\<open>diff as u32\<close> keeps the low 32 bits; a release build shifts \<open>1_u128\<close> by the low 7 bits of
  the count.\<close>

definition win_bit :: "u64 \<Rightarrow> u128" where
  "win_bit n = push_bit (unat n mod 128) 1"

definition win_insert :: "u64 \<Rightarrow> seq_num_window \<Rightarrow> seq_num_window" where
  "win_insert seq w =
     (if seq < win_lower w then w
      else
        let w = (if win_upper w < seq then
                   let diff = seq - win_upper w;
                       shift = unat (ucast diff :: u32)
                   in \<lparr>win_lower = win_lower w + diff,
                       win_window = (case checked_shl (win_window w) shift of Some x \<Rightarrow> x | None \<Rightarrow> 0)\<rparr>
                 else w)
        in w\<lparr>win_window := win_window w OR win_bit (win_upper w - seq)\<rparr>)"

definition win_contains :: "u64 \<Rightarrow> seq_num_window \<Rightarrow> bool" where
  "win_contains seq w =
     (if win_upper w < seq then False
      else if seq < win_lower w then True
      else win_window w AND win_bit (win_upper w - seq) \<noteq> 0)"

subsection \<open>What the window knows\<close>

text \<open>Packet numbers are below \<open>2 ^ 62\<close>, far from where the window would saturate.\<close>

definition win_ok :: "seq_num_window \<Rightarrow> bool" where
  "win_ok w \<longleftrightarrow> unat (win_lower w) < 2 ^ 62"

lemma unat_win_upper: "win_ok w \<Longrightarrow> unat (win_upper w) = unat (win_lower w) + 127"
  by (simp add: win_ok_def win_upper_def SEQ_NUM_WINDOW_SIZE_def saturating_add_def unat_sub
      unat_add_small word_le_nat_alt)

lemma and_push_bit: "x AND push_bit k 1 \<noteq> 0 \<longleftrightarrow> bit x k" for x :: "'a::len word"
  by (simp add: bit_iff_and_push_bit_not_eq_0)

lemma win_bit_upper:
  assumes "win_ok w" and "win_lower w \<le> seq" and "seq \<le> win_upper w"
  shows "win_bit (win_upper w - seq) = push_bit (unat (win_lower w) + 127 - unat seq) 1"
proof -
  have "unat (win_upper w - seq) = unat (win_lower w) + 127 - unat seq"
    using assms by (simp add: unat_sub unat_win_upper word_le_nat_alt)
  moreover have "unat (win_lower w) + 127 - unat seq < 128"
    using assms(2) by (simp add: word_le_nat_alt)
  ultimately show ?thesis by (simp add: win_bit_def)
qed

lemma win_contains_bit:
  assumes "win_ok w"
  shows "win_contains seq w \<longleftrightarrow> unat seq < unat (win_lower w) \<or>
    (unat seq \<le> unat (win_lower w) + 127 \<and> bit (win_window w) (unat (win_lower w) + 127 - unat seq))"
proof (cases "win_lower w \<le> seq \<and> seq \<le> win_upper w")
  case True
  then have le: "win_lower w \<le> seq" "seq \<le> win_upper w" by simp_all
  have "win_contains seq w \<longleftrightarrow> bit (win_window w) (unat (win_lower w) + 127 - unat seq)"
    using le unfolding win_contains_def win_bit_upper [OF assms le] and_push_bit by auto
  with le show ?thesis using unat_win_upper [OF assms] by (auto simp: word_le_nat_alt)
next
  case False
  then show ?thesis
    using unat_win_upper [OF assms]
    by (auto simp: win_contains_def word_le_nat_alt word_less_nat_alt)
qed

text \<open>Inserting slides the window just far enough, and forgets only what slides out below.\<close>

lemma win_insert_lower:
  assumes "win_ok w" and "unat seq < 2 ^ 62"
  shows "unat (win_lower (win_insert seq w)) = max (unat (win_lower w)) (unat seq - 127)"
    and "win_ok (win_insert seq w)"
proof -
  have lower: "unat (win_lower w + (seq - win_upper w)) = unat seq - 127" if "win_upper w < seq"
  proof -
    have d: "unat (seq - win_upper w) = unat seq - (unat (win_lower w) + 127)"
      using that assms by (simp add: unat_sub unat_win_upper less_imp_le)
    then show ?thesis
      using that assms by (subst unat_add_small) (auto simp: unat_win_upper word_less_nat_alt)
  qed
  show l: "unat (win_lower (win_insert seq w)) = max (unat (win_lower w)) (unat seq - 127)"
    using lower assms unat_win_upper [OF assms(1)]
    by (auto simp: win_insert_def Let_def word_less_nat_alt)
  then show "win_ok (win_insert seq w)" using assms by (simp add: win_ok_def)
qed

lemma win_insert_slide:
  assumes "win_ok w" and "unat seq < 2 ^ 62" and "win_upper w < seq"
  defines "sh \<equiv> (unat seq - (unat (win_lower w) + 127)) mod 2 ^ 32"
  shows "bit (win_window (win_insert seq w)) k \<longleftrightarrow> k = 0 \<or> (sh \<le> k \<and> k < 128 \<and> bit (win_window w) (k - sh))"
proof -
  let ?d = "seq - win_upper w"
  define x where "x = (case checked_shl (win_window w) sh of Some x \<Rightarrow> x | None \<Rightarrow> 0)"
  have d: "unat ?d = unat seq - (unat (win_lower w) + 127)"
    using assms by (simp add: unat_sub unat_win_upper less_imp_le)
  then have sh: "unat (ucast ?d :: u32) = sh"
    by (simp add: sh_def unsigned_ucast_eq take_bit_eq_mod)
  have lt: "\<not> seq < win_lower w"
    using assms unat_win_upper [OF assms(1)] by (simp add: word_less_nat_alt)
  have w1: "win_insert seq w = (let v = \<lparr>win_lower = win_lower w + ?d, win_window = x\<rparr>
      in v\<lparr>win_window := x OR win_bit (win_upper v - seq)\<rparr>)"
    using assms(3) lt sh by (simp add: win_insert_def Let_def x_def)
  define v where "v = \<lparr>win_lower = win_lower w + ?d, win_window = x\<rparr>"
  have "win_insert seq w = v\<lparr>win_window := x OR win_bit (win_upper v - seq)\<rparr>"
    using w1 by (simp add: v_def)
  moreover have "win_upper v = seq"
  proof -
    have "win_lower v = win_lower (win_insert seq w)" using w1 by (simp add: v_def)
    then have l: "unat (win_lower v) = max (unat (win_lower w)) (unat seq - 127)" "win_ok v"
      using win_insert_lower [OF assms(1,2)] by (simp_all add: win_ok_def)
    moreover have "unat (win_lower w) + 127 < unat seq"
      using assms(3) unat_win_upper [OF assms(1)] by (simp add: word_less_nat_alt)
    ultimately have "unat (win_upper v) = unat seq" by (simp add: unat_win_upper)
    then show ?thesis by (simp add: word_unat_eq_iff)
  qed
  ultimately have "bit (win_window (win_insert seq w)) k \<longleftrightarrow> bit x k \<or> k = 0"
    by (auto simp: bit_simps win_bit_def)
  moreover have "bit x k \<longleftrightarrow> sh \<le> k \<and> k < 128 \<and> bit (win_window w) (k - sh)"
    by (auto simp: x_def checked_shl_def bit_simps)
  ultimately show ?thesis by auto
qed

lemma win_insert_inside:
  assumes "win_ok w" and "win_lower w \<le> seq" and "seq \<le> win_upper w"
  shows "win_insert seq w =
    w\<lparr>win_window := win_window w OR push_bit (unat (win_lower w) + 127 - unat seq) 1\<rparr>"
  using assms(2,3) win_bit_upper [OF assms] by (auto simp: win_insert_def Let_def)

lemma win_insert_contains:
  assumes "win_ok w" and "unat seq < 2 ^ 62" and "unat seq < unat (win_lower w) + 2 ^ 32"
  shows "win_contains s (win_insert seq w) \<longleftrightarrow>
    s = seq \<or> win_contains s w \<or> unat s + 127 < unat seq"
proof -
  let ?l = "unat (win_lower w)"
  consider (old) "seq < win_lower w" | (inside) "win_lower w \<le> seq" "seq \<le> win_upper w"
    | (slide) "win_upper w < seq" by fastforce
  then show ?thesis
  proof cases
    case old
    then have "win_insert seq w = w" "unat seq < ?l" by (auto simp: win_insert_def word_less_nat_alt)
    then show ?thesis using win_contains_bit [OF assms(1), of s] by auto
  next
    case inside
    have le: "?l \<le> unat seq" "unat seq \<le> ?l + 127"
      using inside unat_win_upper [OF assms(1)] by (simp_all add: word_le_nat_alt)
    have low: "win_lower (win_insert seq w) = win_lower w"
      by (simp add: win_insert_inside [OF assms(1) inside])
    have bits: "bit (win_window (win_insert seq w)) k \<longleftrightarrow> bit (win_window w) k \<or> k = ?l + 127 - unat seq" for k
      using le by (auto simp: win_insert_inside [OF assms(1) inside] bit_simps)
    have "win_contains s (win_insert seq w) \<longleftrightarrow> unat s < ?l \<or> unat s \<le> ?l + 127 \<and>
        (bit (win_window w) (?l + 127 - unat s) \<or> ?l + 127 - unat s = ?l + 127 - unat seq)"
      unfolding win_contains_bit [OF win_insert_lower(2) [OF assms(1,2)]] low bits ..
    moreover have "?l + 127 - unat s = ?l + 127 - unat seq \<longleftrightarrow> s = seq" if "unat s \<le> ?l + 127"
      using that le by (auto simp: word_unat_eq_iff)
    ultimately show ?thesis using le win_contains_bit [OF assms(1), of s] by auto
  next
    case slide
    then have gt: "?l + 127 < unat seq" using unat_win_upper [OF assms(1)] by (simp add: word_less_nat_alt)
    let ?l' = "unat (win_lower (win_insert seq w))"
    have l': "?l' = unat seq - 127" using win_insert_lower(1) [OF assms(1,2)] gt by simp
    have sh: "(unat seq - (?l + 127)) mod 2 ^ 32 = unat seq - (?l + 127)" using assms(3) by simp
    have "win_contains s (win_insert seq w) \<longleftrightarrow> unat s < unat seq - 127 \<or> (unat s \<le> unat seq \<and>
        (unat seq - unat s = 0 \<or> (unat seq - (?l + 127) \<le> unat seq - unat s \<and> unat seq - unat s < 128 \<and>
         bit (win_window w) (unat seq - unat s - (unat seq - (?l + 127))))))"
      using win_contains_bit [OF win_insert_lower(2) [OF assms(1,2)], of s] l' gt
      unfolding win_insert_slide [OF assms(1,2) slide] sh by auto
    also have "\<dots> \<longleftrightarrow> s = seq \<or> unat s + 127 < unat seq \<or>
        (unat s < ?l \<or> unat s \<le> ?l + 127 \<and> bit (win_window w) (?l + 127 - unat s))"
    proof -
      have "unat seq - unat s - (unat seq - (?l + 127)) = ?l + 127 - unat s"
        if "unat s \<le> ?l + 127" using that gt by simp
      then show ?thesis using gt by (auto simp: word_unat_eq_iff)
    qed
    finally show ?thesis using win_contains_bit [OF assms(1), of s] by auto
  qed
qed

lemma win_insert_keeps:
  assumes "win_ok w" and "unat seq < 2 ^ 62" and "win_contains s w \<or> s = seq"
  shows "win_contains s (win_insert seq w)"
proof (cases "unat seq < unat (win_lower w) + 2 ^ 32")
  case True
  then show ?thesis using win_insert_contains [OF assms(1,2)] assms(3) by auto
next
  case False
  let ?l = "unat (win_lower w)"
  have l': "unat (win_lower (win_insert seq w)) = unat seq - 127"
    using win_insert_lower(1) [OF assms(1,2)] False by simp
  have ok: "win_ok (win_insert seq w)" using win_insert_lower(2) [OF assms(1,2)] .
  have slide: "win_upper w < seq" using False unat_win_upper [OF assms(1)] by (simp add: word_less_nat_alt)
  show ?thesis
  proof (cases "s = seq")
    case True
    then show ?thesis
      using win_contains_bit [OF ok, of s] l' False win_insert_slide [OF assms(1,2) slide, of 0] by simp
  next
    case neq: False
    then have "unat s \<le> ?l + 127" using assms(3) win_contains_bit [OF assms(1), of s] by auto
    then have "unat s < unat (win_lower (win_insert seq w))" using l' False by simp
    then show ?thesis using win_contains_bit [OF ok, of s] by simp
  qed
qed

subsection \<open>The contract of a duplicate detector\<close>

locale dup_detector =
  fixes ins :: "'a \<Rightarrow> 's \<Rightarrow> 's"
    and has :: "'a \<Rightarrow> 's \<Rightarrow> bool"
    and ok :: "'s \<Rightarrow> bool"
    and valid :: "'a \<Rightarrow> bool"
  assumes ins_ok: "ok w \<Longrightarrow> valid x \<Longrightarrow> ok (ins x w)"
    and ins_has: "ok w \<Longrightarrow> valid x \<Longrightarrow> has x (ins x w)"
    and ins_keeps: "ok w \<Longrightarrow> valid x \<Longrightarrow> has y w \<Longrightarrow> has y (ins x w)"
begin

lemma fold_ok: "ok w \<Longrightarrow> list_all valid xs \<Longrightarrow> ok (fold ins xs w)"
  by (induction xs arbitrary: w) (auto simp: ins_ok)

lemma fold_keeps: "ok w \<Longrightarrow> list_all valid xs \<Longrightarrow> has y w \<Longrightarrow> has y (fold ins xs w)"
  by (induction xs arbitrary: w) (auto simp: ins_ok ins_keeps)

lemma replay_detected:
  "ok w \<Longrightarrow> list_all valid xs \<Longrightarrow> y \<in> set xs \<Longrightarrow> has y (fold ins xs w)"
  by (induction xs arbitrary: w) (auto simp: ins_ok ins_has fold_keeps)

end

interpretation win: dup_detector win_insert win_contains win_ok "\<lambda>seq. unat seq < 2 ^ 62"
  by unfold_locales (auto simp: win_insert_lower(2) win_insert_keeps)

subsection \<open>Properties\<close>

text \<open>C33: no packet number is accepted twice: whatever numbers were inserted into a fresh window, in
  whatever order and however far they jump, each of them is reported as seen afterwards.\<close>

theorem window_replay_detected:
  assumes "list_all (\<lambda>seq. unat seq < 2 ^ 62) seqs" and "seq \<in> set seqs"
  shows "win_contains seq (fold win_insert seqs win_default)"
  using assms by (intro win.replay_detected) (simp_all add: win_ok_def win_default_def)

theorem window_replay_detected_witness:
  "win_contains 3 (fold win_insert [0, 3, 200, 1000000] win_default)"
  by (rule window_replay_detected) simp_all

text \<open>And a number is not reported as seen without reason: after an insertion that advances the
  window by less than \<open>2 ^ 32\<close>, exactly the inserted number, the numbers seen before, and those more
  than 127 below the inserted one are reported.\<close>

theorem window_insert_exact:
  assumes "win_ok w" and "unat seq < 2 ^ 62" and "unat seq < unat (win_lower w) + 2 ^ 32"
  shows "win_contains s (win_insert seq w) \<longleftrightarrow> s = seq \<or> win_contains s w \<or> unat s + 127 < unat seq"
  using assms by (rule win_insert_contains)

theorem window_insert_exact_witness:
  "win_contains 5 (win_insert 200 win_default) \<longleftrightarrow>
     (5 :: u64) = 200 \<or> win_contains 5 win_default \<or> unat (5 :: u64) + 127 < unat (200 :: u64)"
  by (rule window_insert_exact) (simp_all add: win_ok_def win_default_def)

text \<open>a jump of \<open>2 ^ 32\<close> or more breaks this: the shift count is cut to 32 bits, so bits of the
  old window survive and a number that was never received is reported as a duplicate.\<close>

theorem window_jump_false_positive:
  "win_contains (2 ^ 32 + 127) (win_insert (2 ^ 32 + 128) (win_insert 127 win_default))"
  by (simp add: win_insert_def win_contains_def win_default_def win_upper_def SEQ_NUM_WINDOW_SIZE_def
      saturating_add_def win_bit_def checked_shl_def Let_def)

end
