(* ===== verification/Flow_Control.thy ===== *)
theory Flow_Control
  imports Prelude
begin

text \<open>
  Receive-side flow control with an auto-tuned window (src/connection/flowcontrol.rs). Instants and
  durations are natural numbers of nanoseconds; the difference of two instants saturates at zero,
  as \<open>Instant - Instant\<close> does.

  \<open>fc_ok\<close> says that the counters are ordered and stay clear of \<open>2 ^ 63\<close>. Under it the limit the
  code advertises never goes back.
\<close>

record flow_control =
  fc_read_off :: u64
  fc_recv_off :: u64
  fc_max_data :: u64
  fc_window :: u64
  fc_max_window :: u64
  fc_last_updated :: "nat option"

definition fc_new :: "u64 \<Rightarrow> u64 \<Rightarrow> flow_control" where
  "fc_new window max_window =
     \<lparr>fc_read_off = 0, fc_recv_off = 0, fc_max_data = window, fc_window = window,
      fc_max_window = max_window, fc_last_updated = None\<rparr>"

definition increase_recv_off :: "u64 \<Rightarrow> flow_control \<Rightarrow> flow_control" where
  "increase_recv_off delta fc = fc\<lparr>fc_recv_off := fc_recv_off fc + delta\<rparr>"

definition increase_read_off :: "u64 \<Rightarrow> flow_control \<Rightarrow> flow_control" where
  "increase_read_off delta fc = fc\<lparr>fc_read_off := fc_read_off fc + delta\<rparr>"

definition should_send_max_data :: "flow_control \<Rightarrow> bool" where
  "should_send_max_data fc \<longleftrightarrow> (fc_max_data fc - fc_read_off fc) * 2 < fc_window fc"

definition max_data_next :: "flow_control \<Rightarrow> u64" where
  "max_data_next fc = fc_read_off fc + fc_window fc"

definition update_max_data :: "nat \<Rightarrow> flow_control \<Rightarrow> flow_control" where
  "update_max_data now fc = fc\<lparr>fc_max_data := max_data_next fc, fc_last_updated := Some now\<rparr>"

definition autotune_window :: "nat \<Rightarrow> nat \<Rightarrow> flow_control \<Rightarrow> flow_control" where
  "autotune_window now srtt fc =
     (case fc_last_updated fc of
        Some last_updated \<Rightarrow>
          if now - last_updated < srtt * 2
          then fc\<lparr>fc_window := min (fc_window fc * 2) (fc_max_window fc)\<rparr>
          else fc
      | None \<Rightarrow> fc)"

definition ensure_window_lower_bound :: "u64 \<Rightarrow> flow_control \<Rightarrow> flow_control" where
  "ensure_window_lower_bound min_window fc = fc\<lparr>fc_window := max (fc_window fc) min_window\<rparr>"

subsection \<open>Invariant\<close>

text \<open>The application reads no more than was received, the peer sends no more than it may (the
  stream code checks this before it counts the data), and the sizes are those of real windows.\<close>

definition fc_ok :: "flow_control \<Rightarrow> bool" where
  "fc_ok fc \<longleftrightarrow> fc_read_off fc \<le> fc_recv_off fc \<and> fc_recv_off fc \<le> fc_max_data fc
     \<and> unat (fc_max_data fc) < 2 ^ 62 \<and> unat (fc_window fc) < 2 ^ 62 \<and> unat (fc_max_window fc) < 2 ^ 62"

lemma fc_ok_new: "unat window < 2 ^ 62 \<Longrightarrow> unat max_window < 2 ^ 62 \<Longrightarrow> fc_ok (fc_new window max_window)"
  by (simp add: fc_ok_def fc_new_def)

lemma fc_ok_recv:
  assumes "fc_ok fc" and "unat (fc_recv_off fc) + unat delta \<le> unat (fc_max_data fc)"
  shows "fc_ok (increase_recv_off delta fc)"
    and "unat (fc_recv_off (increase_recv_off delta fc)) = unat (fc_recv_off fc) + unat delta"
  using assms by (auto simp: fc_ok_def increase_recv_off_def word_le_nat_alt unat_add_small)

lemma fc_ok_read:
  assumes "fc_ok fc" and "unat (fc_read_off fc) + unat delta \<le> unat (fc_recv_off fc)"
  shows "fc_ok (increase_read_off delta fc)"
    and "unat (fc_read_off (increase_read_off delta fc)) = unat (fc_read_off fc) + unat delta"
  using assms by (auto simp: fc_ok_def increase_read_off_def word_le_nat_alt unat_add_small)

lemma should_send_iff:
  assumes "fc_ok fc"
  shows "should_send_max_data fc \<longleftrightarrow>
    2 * (unat (fc_max_data fc) - unat (fc_read_off fc)) < unat (fc_window fc)"
proof -
  have "unat (fc_max_data fc - fc_read_off fc) = unat (fc_max_data fc) - unat (fc_read_off fc)"
    using assms by (auto simp: fc_ok_def unat_sub)
  moreover from this have "unat ((fc_max_data fc - fc_read_off fc) * 2) =
      2 * (unat (fc_max_data fc) - unat (fc_read_off fc))"
    using assms by (subst unat_mult_small) (auto simp: fc_ok_def)
  ultimately show ?thesis by (simp add: should_send_max_data_def word_less_nat_alt)
qed

lemma unat_max_data_next: "fc_ok fc \<Longrightarrow> unat (max_data_next fc) = unat (fc_read_off fc) + unat (fc_window fc)"
  by (simp add: max_data_next_def fc_ok_def word_le_nat_alt unat_add_small)

text \<open>A MAX_DATA frame raises the limit, and restores a full window for the application.\<close>

lemma update_max_data_grows:
  assumes "fc_ok fc" and "should_send_max_data fc"
  shows "fc_max_data fc < fc_max_data (update_max_data now fc)"
    and "unat (fc_max_data (update_max_data now fc)) - unat (fc_read_off fc) = unat (fc_window fc)"
    and "unat (fc_read_off fc) + unat (fc_window fc) < 2 ^ 62 \<Longrightarrow> fc_ok (update_max_data now fc)"
    and "\<not> should_send_max_data (update_max_data now fc)"
proof -
  have n: "unat (fc_max_data (update_max_data now fc)) = unat (fc_read_off fc) + unat (fc_window fc)"
    using unat_max_data_next [OF assms(1)] by (simp add: update_max_data_def)
  have s: "2 * (unat (fc_max_data fc) - unat (fc_read_off fc)) < unat (fc_window fc)"
    using assms should_send_iff by blast
  show g: "fc_max_data fc < fc_max_data (update_max_data now fc)"
    using n s by (simp add: word_less_nat_alt)
  show "unat (fc_max_data (update_max_data now fc)) - unat (fc_read_off fc) = unat (fc_window fc)"
    using n by simp
  show "unat (fc_read_off fc) + unat (fc_window fc) < 2 ^ 62 \<Longrightarrow> fc_ok (update_max_data now fc)"
    using assms(1) n g by (auto simp: fc_ok_def update_max_data_def)
  show "\<not> should_send_max_data (update_max_data now fc)"
  proof -
    have d: "max_data_next fc - fc_read_off fc = fc_window fc" by (simp add: max_data_next_def)
    have "unat (fc_window fc * 2) = 2 * unat (fc_window fc)"
      using assms(1) by (simp add: fc_ok_def unat_word_ariths)
    then show ?thesis
      by (simp add: should_send_max_data_def update_max_data_def d word_less_nat_alt)
  qed
qed

text \<open>Auto-tuning only grows the window, and never past its maximum.\<close>

lemma autotune_window_grows:
  assumes "fc_ok fc" and "fc_window fc \<le> fc_max_window fc"
  shows "fc_window fc \<le> fc_window (autotune_window now srtt fc)"
    and "fc_window (autotune_window now srtt fc) \<le> fc_max_window fc"
    and "fc_ok (autotune_window now srtt fc)"
proof -
  have d: "unat (fc_window fc * 2) = 2 * unat (fc_window fc)"
    using assms(1) by (simp add: fc_ok_def unat_word_ariths)
  then have le: "fc_window fc \<le> fc_window fc * 2" by (simp add: word_le_nat_alt)
  show "fc_window fc \<le> fc_window (autotune_window now srtt fc)"
    "fc_window (autotune_window now srtt fc) \<le> fc_max_window fc"
    using le assms(2) by (auto simp: autotune_window_def split: option.splits)
  then show "fc_ok (autotune_window now srtt fc)"
    using assms by (auto simp: fc_ok_def autotune_window_def word_le_nat_alt split: option.splits)
qed

subsection \<open>Properties\<close>

text \<open>the advertised limit never goes back: when the code decides to send MAX\_DATA, the new limit
  is larger than the old one and leaves the application a full window, the counters stay ordered,
  and no further update is due until more data is read.\<close>

theorem max_data_advances:
  assumes "fc_ok fc" and "should_send_max_data fc" and "unat (fc_read_off fc) + unat (fc_window fc) < 2 ^ 62"
  shows "fc_max_data fc < fc_max_data (update_max_data now fc)
    \<and> unat (fc_max_data (update_max_data now fc)) - unat (fc_read_off fc) = unat (fc_window fc)
    \<and> fc_ok (update_max_data now fc) \<and> \<not> should_send_max_data (update_max_data now fc)"
  using update_max_data_grows [OF assms(1,2)] assms(3) by blast

theorem max_data_advances_witness:
  "let fc = increase_read_off 60 (increase_recv_off 80 (fc_new 100 200))
   in fc_max_data fc < fc_max_data (update_max_data 9 fc)
    \<and> unat (fc_max_data (update_max_data 9 fc)) - unat (fc_read_off fc) = unat (fc_window fc)
    \<and> fc_ok (update_max_data 9 fc) \<and> \<not> should_send_max_data (update_max_data 9 fc)"
  unfolding Let_def
  by (rule max_data_advances)
    (simp_all add: fc_ok_def fc_new_def increase_read_off_def increase_recv_off_def should_send_max_data_def)

end
