(* ===== verification/Rtt.thy ===== *)
theory Rtt
  imports Main
begin

text \<open>
  Round-trip time estimation (src/connection/rtt.rs). Durations are natural numbers of nanoseconds;
  dividing a \<open>Duration\<close> rounds down. The invariant \<open>rtt_sampled\<close> ties the extremes to
  the samples and bounds the smoothed estimate and the variation by them.
\<close>

definition TIMER_GRANULARITY :: nat where
  "TIMER_GRANULARITY = 1000000"

record rtt_estimator =
  latest_rtt :: nat
  smoothed_rtt_opt :: "nat option"
  rttvar :: nat
  min_rtt :: nat
  max_rtt :: nat

definition rtt_new :: "nat \<Rightarrow> rtt_estimator" where
  "rtt_new initial_rtt =
     \<lparr>latest_rtt = initial_rtt, smoothed_rtt_opt = None, rttvar = initial_rtt div 2,
      min_rtt = initial_rtt, max_rtt = initial_rtt\<rparr>"

definition smoothed_rtt :: "rtt_estimator \<Rightarrow> nat" where
  "smoothed_rtt r = (case smoothed_rtt_opt r of Some s \<Rightarrow> s | None \<Rightarrow> latest_rtt r)"

definition pto_base :: "rtt_estimator \<Rightarrow> nat" where
  "pto_base r = smoothed_rtt r + max (4 * rttvar r) TIMER_GRANULARITY"

definition try_set_init_rtt :: "nat \<Rightarrow> rtt_estimator \<Rightarrow> rtt_estimator" where
  "try_set_init_rtt init_rtt r =
     (if smoothed_rtt_opt r \<noteq> None then r
      else r\<lparr>latest_rtt := init_rtt, smoothed_rtt_opt := None, rttvar := init_rtt div 2,
             min_rtt := init_rtt, max_rtt := init_rtt\<rparr>)"

definition rtt_update :: "nat \<Rightarrow> nat \<Rightarrow> rtt_estimator \<Rightarrow> rtt_estimator" where
  "rtt_update ack_delay rtt r =
     (let r = r\<lparr>latest_rtt := rtt\<rparr>;
          r = r\<lparr>min_rtt := min (min_rtt r) (latest_rtt r)\<rparr>;
          r = r\<lparr>max_rtt := max (max_rtt r) (latest_rtt r)\<rparr>
      in case smoothed_rtt_opt r of
           Some smoothed \<Rightarrow>
             let adjusted_rtt = (if min_rtt r + ack_delay \<le> latest_rtt r
                                 then latest_rtt r - ack_delay else latest_rtt r);
                 var_sample = (if adjusted_rtt < smoothed then smoothed - adjusted_rtt
                               else adjusted_rtt - smoothed)
             in r\<lparr>rttvar := (3 * rttvar r + var_sample) div 4,
                  smoothed_rtt_opt := Some ((7 * smoothed + adjusted_rtt) div 8)\<rparr>
         | None \<Rightarrow>
             r\<lparr>smoothed_rtt_opt := Some (latest_rtt r), rttvar := latest_rtt r div 2,
               min_rtt := latest_rtt r, max_rtt := latest_rtt r\<rparr>)"

subsection \<open>Invariant\<close>

text \<open>The state after samples: the extreme samples are \<open>lo\<close> and \<open>hi\<close>, the first one was \<open>first\<close>.\<close>

definition rtt_sampled :: "nat \<Rightarrow> nat \<Rightarrow> nat \<Rightarrow> rtt_estimator \<Rightarrow> bool" where
  "rtt_sampled first lo hi r \<longleftrightarrow> min_rtt r = lo \<and> max_rtt r = hi \<and>
     (\<exists>s. smoothed_rtt_opt r = Some s \<and> lo \<le> s \<and> s \<le> hi) \<and> rttvar r \<le> max (first div 2) (hi - lo)"

lemma rtt_sampled_first:
  "smoothed_rtt_opt r = None \<Longrightarrow> rtt_sampled rtt rtt rtt (rtt_update ack_delay rtt r)"
  by (simp add: rtt_sampled_def rtt_update_def Let_def)

lemma rtt_sampled_update:
  assumes "rtt_sampled first lo hi r"
  shows "rtt_sampled first (min lo rtt) (max hi rtt) (rtt_update ack_delay rtt r)"
proof -
  obtain s where s: "smoothed_rtt_opt r = Some s" "lo \<le> s" "s \<le> hi" and e: "min_rtt r = lo" "max_rtt r = hi"
    and v: "rttvar r \<le> max (first div 2) (hi - lo)"
    using assms by (auto simp: rtt_sampled_def)
  define lo' hi' where "lo' = min lo rtt" and "hi' = max hi rtt"
  define adj where "adj = (if lo' + ack_delay \<le> rtt then rtt - ack_delay else rtt)"
  define var where "var = (if adj < s then s - adj else adj - s)"
  define b where "b = max (first div 2) (hi' - lo')"
  have a: "lo' \<le> adj" "adj \<le> hi'" "lo' \<le> s" "s \<le> hi'" using s by (auto simp: adj_def lo'_def hi'_def)
  have "lo' \<le> lo" "hi \<le> hi'" by (simp_all add: lo'_def hi'_def)
  then have "rttvar r \<le> b" using v by (auto simp: b_def le_max_iff_disj)
  moreover have "var \<le> hi' - lo'" using a by (auto simp: var_def)
  then have "var \<le> b" by (simp add: b_def)
  ultimately have "(3 * rttvar r + var) div 4 \<le> 4 * b div 4" by (intro div_le_mono) linarith
  moreover have "8 * lo' div 8 \<le> (7 * s + adj) div 8" using a by (intro div_le_mono) linarith
  moreover have "(7 * s + adj) div 8 \<le> 8 * hi' div 8" using a by (intro div_le_mono) linarith
  moreover have "rtt_update ack_delay rtt r = r\<lparr>latest_rtt := rtt, min_rtt := lo', max_rtt := hi',
      rttvar := (3 * rttvar r + var) div 4, smoothed_rtt_opt := Some ((7 * s + adj) div 8)\<rparr>"
    using s(1) by (simp add: rtt_update_def Let_def lo'_def hi'_def adj_def var_def e cong: if_cong split del: if_split)
  ultimately show ?thesis by (simp add: rtt_sampled_def b_def lo'_def hi'_def)
qed

lemma rtt_unsampled:
  "smoothed_rtt_opt r = None \<Longrightarrow> smoothed_rtt_opt (fold try_set_init_rtt inits r) = None"
  by (induction inits arbitrary: r) (simp_all add: try_set_init_rtt_def)

lemma rtt_sampled_fold:
  assumes "rtt_sampled first (Min S) (Max S) r" and "finite S" and "S \<noteq> {}"
  shows "rtt_sampled first (Min (S \<union> snd ` set samples)) (Max (S \<union> snd ` set samples))
    (fold (\<lambda>(d, s). rtt_update d s) samples r)"
  using assms
proof (induction samples arbitrary: S r)
  case (Cons x samples)
  obtain d s where x: "x = (d, s)" by fastforce
  have "rtt_sampled first (Min (insert s S)) (Max (insert s S)) (rtt_update d s r)"
    using rtt_sampled_update [OF Cons.prems(1), of s d] Cons.prems(2,3) by (simp add: min.commute max.commute)
  from Cons.IH [OF this] Cons.prems show ?case by (simp add: x)
qed simp

lemma latest_after: "latest_rtt (rtt_update d s r) = s"
  by (simp add: rtt_update_def Let_def split: option.split)

subsection \<open>Properties\<close>



end
