(* ===== verification/Pmtu.thy ===== *)
theory Pmtu
  imports Main "HOL-Library.Log_Nat"
begin

text \<open>
  Path MTU discovery (src/connection/pmtu.rs). Sizes are natural numbers; the probe counter stays
  below \<open>MAX_PROBE_COUNT\<close>, so its width plays no role. The test
  \<open>current as f64 / ceiling as f64 >= 0.99\<close> is written in integers: for datagram sizes the
  rounding error of the division is far below the distance of the quotient to \<open>0.99\<close>, and an exact
  \<open>99 / 100\<close> rounds to the literal.

  The discovery is a binary search: every acknowledged probe raises the validated size, every
  probe declared lost three times lowers the ceiling, and each halves the distance between the two.
\<close>

definition DEFAULT_SEND_UDP_PAYLOAD_SIZE :: nat where
  "DEFAULT_SEND_UDP_PAYLOAD_SIZE = 1200"

definition MAX_PACKET_SIZE_IPV4 :: nat where "MAX_PACKET_SIZE_IPV4 = 1472"
definition MAX_PACKET_SIZE_IPV6 :: nat where "MAX_PACKET_SIZE_IPV6 = 1452"
definition MAX_PROBE_COUNT :: nat where "MAX_PROBE_COUNT = 3"

record dplpmtud =
  should_probe :: bool
  current_size :: nat
  probe_size :: "nat option"
  probe_count :: nat
  failed_size :: nat
  max_pmtu :: nat
  is_ipv6 :: bool

definition dplpmtud_new :: "bool \<Rightarrow> nat \<Rightarrow> bool \<Rightarrow> dplpmtud" where
  "dplpmtud_new enable mtu v6 =
     (let mtu = (if mtu = DEFAULT_SEND_UDP_PAYLOAD_SIZE
                 then if v6 then MAX_PACKET_SIZE_IPV6 else MAX_PACKET_SIZE_IPV4
                 else mtu)
      in \<lparr>should_probe = enable, current_size = DEFAULT_SEND_UDP_PAYLOAD_SIZE, probe_size = None,
          probe_count = 0, failed_size = 0, max_pmtu = mtu, is_ipv6 = v6\<rparr>)"

definition cal_mtu_ceiling :: "nat \<Rightarrow> dplpmtud \<Rightarrow> nat" where
  "cal_mtu_ceiling peer_max_udp_payload d =
     (let mtu_ceiling = (if 0 < failed_size d then failed_size d else max_pmtu d)
      in if peer_max_udp_payload < mtu_ceiling then peer_max_udp_payload else mtu_ceiling)"

definition cal_probe_size :: "nat \<Rightarrow> dplpmtud \<Rightarrow> nat" where
  "cal_probe_size peer_max_udp_payload d =
     (let mtu_ceiling = cal_mtu_ceiling peer_max_udp_payload d
      in if failed_size d = 0 \<and> mtu_ceiling < 1500 then mtu_ceiling
         else (current_size d + mtu_ceiling) div 2)"

definition check_finish :: "nat \<Rightarrow> dplpmtud \<Rightarrow> bool" where
  "check_finish peer_max_udp_payload d =
     (let mtu_ceiling = cal_mtu_ceiling peer_max_udp_payload d
      in mtu_ceiling \<le> current_size d \<or> 99 * mtu_ceiling \<le> 100 * current_size d)"

definition get_probe_size :: "nat \<Rightarrow> dplpmtud \<Rightarrow> nat \<times> dplpmtud" where
  "get_probe_size peer_max_udp_payload d =
     (case probe_size d of
        Some s \<Rightarrow> (s, d)
      | None \<Rightarrow> let s = cal_probe_size peer_max_udp_payload d in (s, d\<lparr>probe_size := Some s\<rparr>))"

definition on_pmtu_probe_sent :: "nat \<Rightarrow> dplpmtud \<Rightarrow> dplpmtud" where
  "on_pmtu_probe_sent pkt_size d = d\<lparr>should_probe := False\<rparr>"

definition on_pmtu_probe_acked :: "nat \<Rightarrow> nat \<Rightarrow> dplpmtud \<Rightarrow> dplpmtud" where
  "on_pmtu_probe_acked pkt_size peer_max_udp_payload d =
     (let d = d\<lparr>current_size := max (current_size d) pkt_size, probe_count := 0\<rparr>;
          d = d\<lparr>probe_size := Some (cal_probe_size peer_max_udp_payload d)\<rparr>
      in d\<lparr>should_probe := \<not> check_finish peer_max_udp_payload d\<rparr>)"

definition on_pmtu_probe_lost :: "nat \<Rightarrow> nat \<Rightarrow> dplpmtud \<Rightarrow> dplpmtud" where
  "on_pmtu_probe_lost pkt_size peer_max_udp_payload d =
     (if Some pkt_size \<noteq> probe_size d then d
      else
        let d = d\<lparr>probe_count := probe_count d + 1\<rparr> in
        if probe_count d < MAX_PROBE_COUNT then d\<lparr>should_probe := True\<rparr>
        else
          let d = d\<lparr>failed_size := pkt_size\<rparr>;
              d = d\<lparr>probe_size := Some (cal_probe_size peer_max_udp_payload d), probe_count := 0\<rparr>
          in d\<lparr>should_probe := \<not> check_finish peer_max_udp_payload d\<rparr>)"

subsection \<open>The search\<close>

text \<open>One probe: its size is fixed, it is sent, and it is acknowledged or declared lost.\<close>

definition probe_round :: "nat \<Rightarrow> bool \<Rightarrow> dplpmtud \<Rightarrow> dplpmtud" where
  "probe_round peer acked d =
     (let (s, d) = get_probe_size peer d;
          d = on_pmtu_probe_sent s d
      in if acked then on_pmtu_probe_acked s peer d else on_pmtu_probe_lost s peer d)"

text \<open>Runs of \<open>n\<close> probes; \<open>net s acked\<close> says which outcomes the network allows for a probe of size \<open>s\<close>.\<close>

inductive pmtu_run :: "nat \<Rightarrow> (nat \<Rightarrow> bool \<Rightarrow> bool) \<Rightarrow> dplpmtud \<Rightarrow> nat \<Rightarrow> dplpmtud \<Rightarrow> bool"
  for peer net d where
  run_none: "pmtu_run peer net d 0 d"
| run_probe: "pmtu_run peer net d n d' \<Longrightarrow> should_probe d' \<Longrightarrow> net (fst (get_probe_size peer d')) acked \<Longrightarrow>
    pmtu_run peer net d (Suc n) (probe_round peer acked d')"

lemma acked_current: "current_size (on_pmtu_probe_acked s peer d) = max (current_size d) s"
  by (simp add: on_pmtu_probe_acked_def Let_def)

text \<open>While the search runs, the probe is the computed one and at most two losses are counted.\<close>

definition searching :: "nat \<Rightarrow> dplpmtud \<Rightarrow> bool" where
  "searching peer d \<longleftrightarrow> 1200 \<le> current_size d \<and> probe_count d \<le> 2 \<and>
     (should_probe d \<longrightarrow> probe_size d \<in> {None, Some (cal_probe_size peer d)} \<and>
        (check_finish peer d \<longrightarrow> failed_size d = 0))"

definition probe_gap :: "nat \<Rightarrow> dplpmtud \<Rightarrow> nat" where
  "probe_gap peer d = cal_mtu_ceiling peer d - current_size d - 1"

definition probes_left :: "nat \<Rightarrow> dplpmtud \<Rightarrow> nat" where
  "probes_left peer d =
     (if should_probe d
      then 3 * (floorlog 2 (probe_gap peer d) + (if failed_size d = 0 then 1 else 0)) + (3 - probe_count d)
      else 0)"

lemma probe_above:
  assumes "\<not> check_finish peer d" and "1200 \<le> current_size d"
  shows "current_size d + 6 \<le> cal_probe_size peer d" and "cal_probe_size peer d \<le> cal_mtu_ceiling peer d"
    and "current_size d + 12 \<le> cal_mtu_ceiling peer d"
  using assms by (auto simp: check_finish_def cal_probe_size_def Let_def)

lemma floorlog_half:
  assumes "g' \<le> g div 2" and "0 < g"
  shows "floorlog 2 g' < floorlog 2 g"
proof -
  have "floorlog 2 g = floorlog 2 (g div 2) + 1" using assms(2) by (subst compute_floorlog) simp
  then show ?thesis using floorlog_mono [OF assms(1), of 2] by simp
qed

lemma limits_update [simp]:
  "cal_mtu_ceiling peer (d\<lparr>should_probe := a\<rparr>) = cal_mtu_ceiling peer d"
  "cal_mtu_ceiling peer (d\<lparr>probe_size := b\<rparr>) = cal_mtu_ceiling peer d"
  "cal_mtu_ceiling peer (d\<lparr>probe_count := c\<rparr>) = cal_mtu_ceiling peer d"
  "cal_mtu_ceiling peer (d\<lparr>current_size := c\<rparr>) = cal_mtu_ceiling peer d"
  "cal_probe_size peer (d\<lparr>should_probe := a\<rparr>) = cal_probe_size peer d"
  "cal_probe_size peer (d\<lparr>probe_size := b\<rparr>) = cal_probe_size peer d"
  "cal_probe_size peer (d\<lparr>probe_count := c\<rparr>) = cal_probe_size peer d"
  "check_finish peer (d\<lparr>should_probe := a\<rparr>) = check_finish peer d"
  "check_finish peer (d\<lparr>probe_size := b\<rparr>) = check_finish peer d"
  "check_finish peer (d\<lparr>probe_count := c\<rparr>) = check_finish peer d"
  "cal_probe_size peer (d\<lparr>probe_count := c, failed_size := f\<rparr>) = cal_probe_size peer (d\<lparr>failed_size := f\<rparr>)"
  "check_finish peer (d\<lparr>probe_count := c, failed_size := f\<rparr>) = check_finish peer (d\<lparr>failed_size := f\<rparr>)"
  by (simp_all add: cal_mtu_ceiling_def cal_probe_size_def check_finish_def Let_def)

text \<open>The parts of the state that change in a round.\<close>

lemma probe_round_eq:
  assumes "searching peer d" and "should_probe d"
  defines "s \<equiv> cal_probe_size peer d" and "d0 \<equiv> d\<lparr>probe_size := Some (cal_probe_size peer d), should_probe := False\<rparr>"
  shows "fst (get_probe_size peer d) = s" "probe_round peer True d = on_pmtu_probe_acked s peer d0"
    "probe_round peer False d = on_pmtu_probe_lost s peer d0"
proof -
  have "get_probe_size peer d = (s, d\<lparr>probe_size := Some s\<rparr>)"
  proof (cases "probe_size d")
    case (Some x)
    then have "x = s" using assms(1,2) by (auto simp: searching_def s_def)
    moreover have "d\<lparr>probe_size := Some x\<rparr> = d" using Some by (cases d) simp
    ultimately show ?thesis using Some by (simp add: get_probe_size_def)
  qed (simp add: get_probe_size_def s_def Let_def)
  then show "fst (get_probe_size peer d) = s" "probe_round peer True d = on_pmtu_probe_acked s peer d0"
    "probe_round peer False d = on_pmtu_probe_lost s peer d0"
    by (simp_all add: probe_round_def on_pmtu_probe_sent_def d0_def s_def)
qed

lemma acked_fields:
  "current_size (on_pmtu_probe_acked s peer d) = max (current_size d) s"
  "failed_size (on_pmtu_probe_acked s peer d) = failed_size d"
  "max_pmtu (on_pmtu_probe_acked s peer d) = max_pmtu d"
  "probe_count (on_pmtu_probe_acked s peer d) = 0"
  "probe_size (on_pmtu_probe_acked s peer d) = Some (cal_probe_size peer (on_pmtu_probe_acked s peer d))"
  "should_probe (on_pmtu_probe_acked s peer d) = (\<not> check_finish peer (on_pmtu_probe_acked s peer d))"
  "cal_mtu_ceiling peer (on_pmtu_probe_acked s peer d) = cal_mtu_ceiling peer d"
  by (simp_all add: on_pmtu_probe_acked_def Let_def)

lemma lost_fields:
  assumes "probe_size d = Some s"
  shows "current_size (on_pmtu_probe_lost s peer d) = current_size d"
    "max_pmtu (on_pmtu_probe_lost s peer d) = max_pmtu d"
    "Suc (probe_count d) < MAX_PROBE_COUNT \<Longrightarrow>
       on_pmtu_probe_lost s peer d = d\<lparr>probe_count := Suc (probe_count d), should_probe := True\<rparr>"
    "\<not> Suc (probe_count d) < MAX_PROBE_COUNT \<Longrightarrow> probe_count (on_pmtu_probe_lost s peer d) = 0
       \<and> failed_size (on_pmtu_probe_lost s peer d) = s
       \<and> probe_size (on_pmtu_probe_lost s peer d) = Some (cal_probe_size peer (on_pmtu_probe_lost s peer d))
       \<and> should_probe (on_pmtu_probe_lost s peer d) = (\<not> check_finish peer (on_pmtu_probe_lost s peer d))"
  using assms by (simp_all add: on_pmtu_probe_lost_def Let_def)

lemma lost_not_finished:
  assumes inv: "searching peer d" and on: "should_probe d" and nf: "\<not> check_finish peer d'"
    and c': "cal_mtu_ceiling peer d' = (if 0 < cal_probe_size peer d then min (cal_probe_size peer d) peer else min (max_pmtu d) peer)"
    and cur: "current_size d' = current_size d"
  shows "\<not> check_finish peer d"
proof
  assume fin: "check_finish peer d"
  with inv on have fz: "failed_size d = 0" by (simp add: searching_def)
  let ?c = "cal_mtu_ceiling peer d"
  have c: "?c = min (max_pmtu d) peer" using fz by (simp add: cal_mtu_ceiling_def Let_def)
  have f: "99 * ?c \<le> 100 * current_size d" using fin by (auto simp: check_finish_def Let_def)
  have "99 * cal_mtu_ceiling peer d' \<le> 100 * current_size d"
  proof (cases "?c < 1500")
    case True
    then have "cal_probe_size peer d = ?c" using fz by (simp add: cal_probe_size_def Let_def)
    then show ?thesis using c' c f by (auto split: if_splits)
  next
    case False
    then have "cal_probe_size peer d = (current_size d + ?c) div 2" by (simp add: cal_probe_size_def Let_def)
    then have "99 * cal_probe_size peer d \<le> 100 * current_size d" using f by linarith
    moreover have "0 < cal_probe_size peer d" using False \<open>cal_probe_size peer d = _\<close> by simp
    ultimately show ?thesis using c' by auto
  qed
  then show False using nf cur by (simp add: check_finish_def Let_def)
qed

text \<open>A round keeps the invariant and leaves fewer probes.\<close>

lemma probe_round_search:
  assumes inv: "searching peer d" and on: "should_probe d"
  shows "searching peer (probe_round peer acked d) \<and> probes_left peer (probe_round peer acked d) < probes_left peer d
    \<and> current_size d \<le> current_size (probe_round peer acked d)"
proof (cases acked)
  case True
  let ?s = "cal_probe_size peer d"
  let ?d0 = "d\<lparr>probe_size := Some ?s, should_probe := False\<rparr>"
  define d' where "d' = on_pmtu_probe_acked ?s peer ?d0"
  note f = acked_fields [where s = ?s and peer = peer and d = ?d0, folded d'_def, simplified]
  have e: "probe_round peer acked d = d'" using probe_round_eq(2) [OF inv on] True by (simp add: d'_def)
  have cur: "1200 \<le> current_size d" using inv by (simp add: searching_def)
  have "probes_left peer d' < probes_left peer d"
  proof (cases "check_finish peer d'")
    case True
    with f inv on show ?thesis by (auto simp: probes_left_def searching_def)
  next
    case False
    then have nf: "\<not> check_finish peer d" using f by (auto simp: check_finish_def Let_def max_def split: if_splits)
    note b = probe_above [OF nf cur]
    have half: "?s = (current_size d + cal_mtu_ceiling peer d) div 2"
      using False f b by (auto simp: cal_probe_size_def check_finish_def Let_def)
    have "probe_gap peer d' \<le> probe_gap peer d div 2" "0 < probe_gap peer d"
      using f b half by (auto simp: probe_gap_def max_def)
    from floorlog_half [OF this] f inv on show ?thesis by (auto simp: probes_left_def searching_def)
  qed
  moreover have "searching peer d'" using f cur by (auto simp: searching_def)
  ultimately show ?thesis using e f by simp
next
  case False
  let ?s = "cal_probe_size peer d"
  let ?d0 = "d\<lparr>probe_size := Some ?s, should_probe := False\<rparr>"
  define d' where "d' = on_pmtu_probe_lost ?s peer ?d0"
  have e: "probe_round peer acked d = d'" using probe_round_eq(3) [OF inv on] False by (simp add: d'_def)
  have cur: "1200 \<le> current_size d" and pc: "probe_count d \<le> 2" using inv by (auto simp: searching_def)
  show ?thesis
  proof (cases "probe_count d < 2")
    case True
    then have d': "d' = d\<lparr>probe_size := Some ?s, should_probe := True, probe_count := Suc (probe_count d)\<rparr>"
      using lost_fields(3) [of ?d0 ?s peer] by (simp add: d'_def MAX_PROBE_COUNT_def)
    then show ?thesis unfolding e using inv on True
      by (auto simp: searching_def probes_left_def probe_gap_def)
  next
    case third: False
    have f: "probe_count d' = 0" "failed_size d' = ?s" "probe_size d' = Some (cal_probe_size peer d')"
      "should_probe d' = (\<not> check_finish peer d')" "current_size d' = current_size d" "max_pmtu d' = max_pmtu d"
      using lost_fields [of ?d0 ?s peer] third by (simp_all add: d'_def MAX_PROBE_COUNT_def)
    have "probes_left peer d' < probes_left peer d"
    proof (cases "check_finish peer d'")
      case True
      with f on pc show ?thesis by (auto simp: probes_left_def)
    next
      case False
      have c': "cal_mtu_ceiling peer d' = (if 0 < ?s then min ?s peer else min (max_pmtu d) peer)"
        using f by (auto simp: cal_mtu_ceiling_def Let_def)
      have nf: "\<not> check_finish peer d" by (rule lost_not_finished [OF inv on False c' f(5)])
      note b = probe_above [OF nf cur]
      have "cal_mtu_ceiling peer d \<le> peer" by (simp add: cal_mtu_ceiling_def Let_def)
      then have c: "cal_mtu_ceiling peer d' = ?s" using c' b by auto
      have mono: "floorlog 2 (probe_gap peer d') \<le> floorlog 2 (probe_gap peer d)"
        using b c f by (intro floorlog_mono) (simp add: probe_gap_def)
      show ?thesis
      proof (cases "failed_size d = 0")
        case True
        with mono f on pc b show ?thesis by (auto simp: probes_left_def)
      next
        case failed: False
        then have "?s = (current_size d + cal_mtu_ceiling peer d) div 2" by (simp add: cal_probe_size_def Let_def)
        then have "probe_gap peer d' \<le> probe_gap peer d div 2" "0 < probe_gap peer d"
          using b c f by (auto simp: probe_gap_def)
        from floorlog_half [OF this] failed f on pc b show ?thesis by (auto simp: probes_left_def)
      qed
    qed
    moreover have "searching peer d'" using f cur by (auto simp: searching_def)
    ultimately show ?thesis using e f by simp
  qed
qed

lemma searching_new: "searching peer (dplpmtud_new enable mtu v6)"
  by (simp add: searching_def dplpmtud_new_def Let_def DEFAULT_SEND_UDP_PAYLOAD_SIZE_def)

lemma pmtu_run_search:
  assumes "pmtu_run peer net d n d'" and "searching peer d"
  shows "searching peer d' \<and> n + probes_left peer d' \<le> probes_left peer d"
  using assms
proof (induction rule: pmtu_run.induct)
  case (run_probe n d' acked)
  then show ?case using probe_round_search [of peer d' acked] by simp
qed simp

text \<open>On a path that carries packets of at most \<open>M\<close> bytes the validated size stays below \<open>M\<close> and the ceiling
  above it.\<close>

definition honest_state :: "nat \<Rightarrow> nat \<Rightarrow> dplpmtud \<Rightarrow> bool" where
  "honest_state M limit d \<longleftrightarrow> current_size d \<le> M \<and> (failed_size d = 0 \<or> M < failed_size d) \<and> max_pmtu d = limit"

lemma probe_round_honest:
  assumes inv: "searching peer d" and on: "should_probe d" and h: "honest_state M limit d"
  shows "honest_state M limit (probe_round peer (cal_probe_size peer d \<le> M) d)"
proof (cases "cal_probe_size peer d \<le> M")
  case True
  then show ?thesis using h probe_round_eq(2) [OF inv on] by (simp add: honest_state_def acked_fields)
next
  case False
  let ?s = "cal_probe_size peer d"
  let ?d0 = "d\<lparr>probe_size := Some ?s, should_probe := False\<rparr>"
  have "probe_round peer False d = on_pmtu_probe_lost ?s peer ?d0" using probe_round_eq(3) [OF inv on] .
  then show ?thesis using h False lost_fields [of ?d0 ?s peer]
    by (cases "Suc (probe_count d) < MAX_PROBE_COUNT") (simp_all add: honest_state_def)
qed

lemma pmtu_run_honest:
  assumes "pmtu_run peer (\<lambda>s acked. acked = (s \<le> M)) d n d'" and "searching peer d" and "honest_state M limit d"
  shows "honest_state M limit d'"
  using assms
proof (induction rule: pmtu_run.induct)
  case (run_probe n d' acked)
  then have "searching peer d'" using pmtu_run_search by blast
  then show ?case using run_probe probe_round_honest [of peer d' M limit] probe_round_eq(1) [of peer d'] by simp
qed simp

lemma stopped_finished:
  assumes "pmtu_run peer net d n d'" and "searching peer d" and "should_probe d" and "\<not> should_probe d'"
  shows "check_finish peer d'"
  using assms
proof (induction rule: pmtu_run.induct)
  case (run_probe n d' acked)
  let ?s = "cal_probe_size peer d'"
  let ?d0 = "d'\<lparr>probe_size := Some ?s, should_probe := False\<rparr>"
  have inv: "searching peer d'" using pmtu_run_search [OF run_probe.hyps(1) run_probe.prems(1)] by blast
  note e = probe_round_eq(2,3) [OF inv run_probe.hyps(2)]
  show ?case
    using run_probe.prems(3) e acked_fields(6) [of ?s peer ?d0] lost_fields [of ?d0 ?s peer]
    by (cases acked; cases "Suc (probe_count d') < MAX_PROBE_COUNT") auto
qed simp

subsection \<open>Properties\<close>

text \<open>C35: The search for the path MTU ends and finds it. Whatever becomes of the probes, at most
  \<open>3 (log + 2)\<close> of them are sent, where \<open>log\<close> is the number of binary digits of the distance between the
  first size of 1200 bytes and the largest size to be tried; the validated size is never less than 1200, and
  an acknowledgement never lowers it. On a path that carries the packets of up to \<open>M\<close> bytes (\<open>M\<close> at least
  1200) and no others, when the search has stopped, the validated size is at most \<open>M\<close> and at least 99
  percent of \<open>M\<close> or of the largest size to be tried, whichever is smaller.\<close>

theorem pmtu_search_converges:
  assumes "pmtu_run peer net (dplpmtud_new enable mtu v6) n d"
  defines "limit \<equiv> min (max_pmtu (dplpmtud_new enable mtu v6)) peer"
  shows "n \<le> 3 * (floorlog 2 (limit - 1201) + 2) \<and> 1200 \<le> current_size d
    \<and> (\<forall>s. current_size d \<le> current_size (on_pmtu_probe_acked s peer d))
    \<and> (enable \<and> \<not> should_probe d \<and> 1200 \<le> M \<and> net = (\<lambda>s acked. acked = (s \<le> M)) \<longrightarrow>
         current_size d \<le> M \<and> 99 * min M limit \<le> 100 * current_size d)"
proof (intro conjI impI allI)
  let ?d0 = "dplpmtud_new enable mtu v6"
  note s = pmtu_run_search [OF assms(1) searching_new]
  have new: "current_size ?d0 = 1200" "failed_size ?d0 = 0" "probe_count ?d0 = 0" "should_probe ?d0 = enable"
    by (simp_all add: dplpmtud_new_def Let_def DEFAULT_SEND_UDP_PAYLOAD_SIZE_def)
  then have ceil: "cal_mtu_ceiling peer ?d0 = limit" by (simp add: cal_mtu_ceiling_def Let_def limit_def)
  have "probes_left peer ?d0 \<le> 3 * (floorlog 2 (limit - 1201) + 2)"
    unfolding probes_left_def probe_gap_def new ceil by simp
  then show "n \<le> 3 * (floorlog 2 (limit - 1201) + 2)" using s by linarith
  show "1200 \<le> current_size d" using s by (simp add: searching_def)
  show "current_size d \<le> current_size (on_pmtu_probe_acked x peer d)" for x by (simp add: acked_fields)
  assume h: "enable \<and> \<not> should_probe d \<and> 1200 \<le> M \<and> net = (\<lambda>s acked. acked = (s \<le> M))"
  have "honest_state M (max_pmtu ?d0) d"
    using pmtu_run_honest [of peer M ?d0 n d] assms(1) h searching_new new by (simp add: honest_state_def)
  moreover have "check_finish peer d" using stopped_finished [OF assms(1) searching_new] h new by simp
  then have "99 * cal_mtu_ceiling peer d \<le> 100 * current_size d" by (auto simp: check_finish_def Let_def)
  ultimately show "current_size d \<le> M" "99 * min M limit \<le> 100 * current_size d"
    by (auto simp: honest_state_def cal_mtu_ceiling_def limit_def Let_def split: if_splits)
qed

theorem pmtu_search_converges_witness:
  "pmtu_run 65527 (\<lambda>s acked. acked = (s \<le> 1472)) (dplpmtud_new True 1200 False) 1
     (probe_round 65527 True (dplpmtud_new True 1200 False))
   \<and> 99 * 1472 \<le> 100 * current_size (probe_round 65527 True (dplpmtud_new True 1200 False))"
proof -
  let ?new = "dplpmtud_new True 1200 False" and ?out = "probe_round 65527 True (dplpmtud_new True 1200 False)"
  have size: "cal_probe_size 65527 ?new = 1472" "should_probe ?new"
    by (simp_all add: dplpmtud_new_def Let_def DEFAULT_SEND_UDP_PAYLOAD_SIZE_def MAX_PACKET_SIZE_IPV4_def cal_probe_size_def cal_mtu_ceiling_def)
  note e = probe_round_eq [OF searching_new [of 65527 True 1200 False] size(2), unfolded size(1)]
  have run: "pmtu_run 65527 (\<lambda>s acked. acked = (s \<le> 1472)) ?new (Suc 0) ?out"
    by (rule run_probe [OF run_none size(2)]) (simp add: e)
  have "current_size ?out = 1472" "cal_mtu_ceiling 65527 ?out = 1472"
    unfolding e(2) acked_fields
    by (simp_all add: dplpmtud_new_def Let_def DEFAULT_SEND_UDP_PAYLOAD_SIZE_def MAX_PACKET_SIZE_IPV4_def cal_mtu_ceiling_def)
  then have "\<not> should_probe ?out" unfolding e(2) by (simp add: acked_fields(6)) (simp add: check_finish_def)
  moreover have "max_pmtu ?new = 1472" by (simp add: dplpmtud_new_def Let_def DEFAULT_SEND_UDP_PAYLOAD_SIZE_def MAX_PACKET_SIZE_IPV4_def)
  ultimately show ?thesis using pmtu_search_converges [OF run, of 1472] run by simp
qed

end
