(* ===== verification/Timer.thy ===== *)
theory Timer
  imports Main
begin

text \<open>
  The timers of a connection (src/connection/timer.rs): one optional expiration time per timer,
  in an array indexed by the timer. Instants are natural numbers of nanoseconds.
\<close>

datatype timer =
    LossDetection | TimerAck | Pacer | Idle | HandshakeTimer | Draining | KeyDiscard | KeepAlive
  | PathChallengeTimer

fun timer_index :: "timer \<Rightarrow> nat" where
  "timer_index LossDetection = 0"
| "timer_index TimerAck = 1"
| "timer_index Pacer = 2"
| "timer_index Idle = 3"
| "timer_index HandshakeTimer = 4"
| "timer_index Draining = 5"
| "timer_index KeyDiscard = 6"
| "timer_index KeepAlive = 7"
| "timer_index PathChallengeTimer = 8"

definition TIMER_COUNT :: nat where
  "TIMER_COUNT = 9"

record timer_table =
  expires :: "nat option list"

definition timer_table_default :: timer_table where
  "timer_table_default = \<lparr>expires = replicate TIMER_COUNT None\<rparr>"

definition timer_set :: "timer \<Rightarrow> nat \<Rightarrow> timer_table \<Rightarrow> timer_table" where
  "timer_set timer time t = t\<lparr>expires := (expires t)[timer_index timer := Some time]\<rparr>"

definition timer_get :: "timer \<Rightarrow> timer_table \<Rightarrow> nat option" where
  "timer_get timer t = expires t ! timer_index timer"

definition timer_stop :: "timer \<Rightarrow> timer_table \<Rightarrow> timer_table" where
  "timer_stop timer t = t\<lparr>expires := (expires t)[timer_index timer := None]\<rparr>"

definition next_timeout :: "timer_table \<Rightarrow> nat option" where
  "next_timeout t =
     (case List.map_filter id (expires t) of
        [] \<Rightarrow> None
      | x # xs \<Rightarrow> Some (fold min xs x))"

definition is_expired :: "timer \<Rightarrow> nat \<Rightarrow> timer_table \<Rightarrow> bool" where
  "is_expired timer after t =
     (case expires t ! timer_index timer of Some x \<Rightarrow> x \<le> after | None \<Rightarrow> False)"

subsection \<open>The table as a map\<close>

definition timers_ok :: "timer_table \<Rightarrow> bool" where
  "timers_ok t \<longleftrightarrow> length (expires t) = TIMER_COUNT"

lemma timer_index_less: "timer_index timer < TIMER_COUNT"
  by (cases timer) (simp_all add: TIMER_COUNT_def)

lemma timer_index_inj: "timer_index a = timer_index b \<longleftrightarrow> a = b"
  by (cases a; cases b; simp)

lemma timer_index_surj: "i < TIMER_COUNT \<Longrightarrow> \<exists>timer. timer_index timer = i"
proof -
  assume "i < TIMER_COUNT"
  then have "i \<in> {0, 1, 2, 3, 4, 5, 6, 7, 8}" by (auto simp: TIMER_COUNT_def)
  then show ?thesis
    by (elim insertE emptyE) (metis timer_index.simps)+
qed

lemma timers_ok_ops [simp]:
  "timers_ok timer_table_default" "timers_ok t \<Longrightarrow> timers_ok (timer_set a x t)"
  "timers_ok t \<Longrightarrow> timers_ok (timer_stop a t)"
  by (simp_all add: timers_ok_def timer_table_default_def timer_set_def timer_stop_def)

lemma timer_get_ops:
  assumes "timers_ok t"
  shows "timer_get b (timer_set a x t) = (if b = a then Some x else timer_get b t)"
    and "timer_get b (timer_stop a t) = (if b = a then None else timer_get b t)"
  using assms timer_index_less [of a] timer_index_less [of b] timer_index_inj [of a b]
  by (auto simp: timers_ok_def timer_get_def timer_set_def timer_stop_def nth_list_update)

lemma timer_get_default: "timer_get a timer_table_default = None"
  using timer_index_less [of a] by (simp add: timer_get_def timer_table_default_def)

lemma armed_times:
  assumes "timers_ok t"
  shows "set (List.map_filter id (expires t)) = {x. \<exists>timer. timer_get timer t = Some x}"
proof -
  have "(\<exists>timer. timer_get timer t = Some x) \<longleftrightarrow> Some x \<in> set (expires t)" for x
    using assms timer_index_less timer_index_surj
    unfolding timers_ok_def timer_get_def in_set_conv_nth by metis
  then show ?thesis by (force simp: List.map_filter_def)
qed

text \<open>The next timeout is the earliest armed timer.\<close>

lemma next_timeout_spec:
  assumes "timers_ok t"
  shows "next_timeout t = None \<longleftrightarrow> (\<forall>timer. timer_get timer t = None)"
    and "next_timeout t = Some x \<longleftrightarrow> (\<exists>timer. timer_get timer t = Some x)
      \<and> (\<forall>timer y. timer_get timer t = Some y \<longrightarrow> x \<le> y)"
proof -
  define ts where "ts = List.map_filter id (expires t)"
  have ts: "set ts = {x. \<exists>timer. timer_get timer t = Some x}"
    unfolding ts_def by (rule armed_times [OF assms])
  have n: "next_timeout t = (if ts = [] then None else Some (Min (set ts)))"
    by (auto simp: next_timeout_def ts_def [symmetric] Min.set_eq_fold [symmetric] split: list.splits)
  have e: "ts = [] \<longleftrightarrow> (\<forall>timer. timer_get timer t = None)"
    unfolding set_empty [symmetric] ts by (auto intro: option.exhaust)
  then show "next_timeout t = None \<longleftrightarrow> (\<forall>timer. timer_get timer t = None)"
    using n by simp
  show "next_timeout t = Some x \<longleftrightarrow> (\<exists>timer. timer_get timer t = Some x)
      \<and> (\<forall>timer y. timer_get timer t = Some y \<longrightarrow> x \<le> y)"
  proof (cases "ts = []")
    case True
    then show ?thesis using n e by simp
  next
    case False
    then have "Min (set ts) = x \<longleftrightarrow> x \<in> set ts \<and> (\<forall>y \<in> set ts. x \<le> y)"
      by (intro Min_eq_iff) auto
    then show ?thesis using n False by (auto simp: ts)
  qed
qed

lemma is_expired_iff: "is_expired a now t \<longleftrightarrow> (\<exists>x. timer_get a t = Some x \<and> x \<le> now)"
  by (auto simp: is_expired_def timer_get_def split: option.splits)

subsection \<open>Properties\<close>

text \<open>\<open>next_timeout\<close> is the earliest expiration of an armed timer: some timer has expired at a
  time exactly when the next timeout is not later, and with no armed timer there is none. Setting and
  stopping a timer touch only that timer.\<close>

theorem next_timeout_earliest:
  assumes "timers_ok t"
  shows "((\<exists>timer. is_expired timer now t) \<longleftrightarrow> (\<exists>x. next_timeout t = Some x \<and> x \<le> now))
    \<and> (next_timeout t = None \<longleftrightarrow> (\<forall>timer. timer_get timer t = None))
    \<and> timer_get b (timer_set a x t) = (if b = a then Some x else timer_get b t)
    \<and> timer_get b (timer_stop a t) = (if b = a then None else timer_get b t)"
proof (intro conjI)
  note spec = next_timeout_spec [OF assms]
  show "(\<exists>timer. is_expired timer now t) \<longleftrightarrow> (\<exists>x. next_timeout t = Some x \<and> x \<le> now)"
  proof
    assume "\<exists>timer. is_expired timer now t"
    then obtain timer x where x: "timer_get timer t = Some x" "x \<le> now" by (auto simp: is_expired_iff)
    then obtain y where y: "next_timeout t = Some y" using spec(1) by (cases "next_timeout t") auto
    with x spec(2) [of y] show "\<exists>x. next_timeout t = Some x \<and> x \<le> now" by (meson le_trans)
  qed (use spec(2) in \<open>auto simp: is_expired_iff\<close>)
  show "next_timeout t = None \<longleftrightarrow> (\<forall>timer. timer_get timer t = None)" by (rule spec(1))
  show "timer_get b (timer_set a x t) = (if b = a then Some x else timer_get b t)"
    "timer_get b (timer_stop a t) = (if b = a then None else timer_get b t)"
    by (rule timer_get_ops [OF assms])+
qed

theorem next_timeout_earliest_witness:
  "(\<exists>timer. is_expired timer 50 (timer_set Idle 40 timer_table_default)) \<longleftrightarrow>
     (\<exists>x. next_timeout (timer_set Idle 40 timer_table_default) = Some x \<and> x \<le> 50)"
  using next_timeout_earliest [of "timer_set Idle 40 timer_table_default" 50] by simp

end
