(* ===== verification/Cid.thy ===== *)
theory Cid
  imports Frame
begin

text \<open>
  Connection ID management (src/connection/cid.rs): the bounded queue of connection IDs and the
  manager of the IDs issued to the peer (source) and received from it (destination). Methods
  return the receiver as they leave it, also when they fail.
\<close>

subsection \<open>The bounded queue\<close>

definition MAX_CIDS_COUNT :: u64 where
  "MAX_CIDS_COUNT = 16"

record cid_item =
  ci_cid :: cid
  ci_seq :: u64
  ci_reset_token :: "u128 option"
  ci_path_id :: "nat option"

record cid_deque =
  cq_queue :: "cid_item list"
  cq_capacity :: nat

definition cq_new :: "nat \<Rightarrow> cid_deque" where
  "cq_new capacity = \<lparr>cq_queue = [], cq_capacity = capacity\<rparr>"

definition cq_get :: "u64 \<Rightarrow> cid_deque \<Rightarrow> cid_item option" where
  "cq_get seq q = find (\<lambda>c. ci_seq c = seq) (cq_queue q)"

text \<open>Writing through the reference that \<open>get_mut\<close> returns.\<close>

fun update_seq :: "u64 \<Rightarrow> (cid_item \<Rightarrow> cid_item) \<Rightarrow> cid_item list \<Rightarrow> cid_item list" where
  "update_seq seq f [] = []"
| "update_seq seq f (c # cs) = (if ci_seq c = seq then f c # cs else c # update_seq seq f cs)"

definition cq_insert :: "cid_item \<Rightarrow> (unit, error, cid_deque) meth" where
  "cq_insert c q =
     (if length (cq_queue q) = cq_capacity q then (Err ConnectionIdLimitError, q)
      else (Ok (), q\<lparr>cq_queue := cq_queue q @ [c]\<rparr>))"

definition cq_clear :: "cid_deque \<Rightarrow> cid_deque" where
  "cq_clear q = q\<lparr>cq_queue := []\<rparr>"

definition cq_remove :: "u64 \<Rightarrow> (cid_item option, error, cid_deque) meth" where
  "cq_remove seq q =
     (if cq_queue q = [] then (Err InternalError, q)
      else if length (cq_queue q) = 1 \<and> cq_get seq q \<noteq> None then (Err InternalError, q)
      else (Ok (find (\<lambda>c. ci_seq c = seq) (cq_queue q)),
            q\<lparr>cq_queue := remove_first (\<lambda>c. ci_seq c = seq) (cq_queue q)\<rparr>))"

text \<open>The items that \<open>remove_lower\<close> hands to its callback, in order, and the queue it leaves.\<close>

definition cq_remove_lower :: "u64 \<Rightarrow> cid_deque \<Rightarrow> cid_item list \<times> cid_deque" where
  "cq_remove_lower seq q =
     (filter (\<lambda>c. ci_seq c < seq) (cq_queue q),
      q\<lparr>cq_queue := filter (\<lambda>c. \<not> ci_seq c < seq) (cq_queue q)\<rparr>)"

definition cq_enlarge :: "nat \<Rightarrow> cid_deque \<Rightarrow> cid_deque" where
  "cq_enlarge capacity q = (if cq_capacity q < capacity then q\<lparr>cq_capacity := capacity\<rparr> else q)"

subsection \<open>The manager\<close>

record cid_mgr =
  dcids :: cid_deque
  scids :: cid_deque
  dcid_limit :: nat
  scid_limit :: nat
  zero_length_scid :: bool
  zero_length_dcid :: bool
  next_scid_seq :: u64
  retire_prior_to :: u64
  scids_to_advertise :: "u64 list"
  largest_peer_retire_prior_to :: u64
  dcids_to_retire :: "u64 list"

text \<open>\<open>n * 2 - 1\<close> in a \<open>usize\<close> wraps for \<open>n = 0\<close>.\<close>

definition doubled_capacity :: "nat \<Rightarrow> nat" where
  "doubled_capacity n = (n * 2 + (2 ^ 64 - 1)) mod 2 ^ 64"

definition mgr_new :: "nat \<Rightarrow> cid \<Rightarrow> nat \<Rightarrow> u128 option \<Rightarrow> cid_mgr" where
  "mgr_new limit initial_scid initial_path_id reset_token =
     (let (_, q) = cq_insert \<lparr>ci_cid = initial_scid, ci_seq = 0, ci_reset_token = reset_token,
                              ci_path_id = Some initial_path_id\<rparr> (cq_new (doubled_capacity 2))
      in \<lparr>dcids = cq_new (doubled_capacity limit), scids = q, dcid_limit = limit, scid_limit = 2,
          zero_length_scid = (initial_scid = []), zero_length_dcid = False, next_scid_seq = 1,
          retire_prior_to = 0, scids_to_advertise = [], largest_peer_retire_prior_to = 0,
          dcids_to_retire = []\<rparr>)"

definition set_initial_dcid :: "cid \<Rightarrow> u128 option \<Rightarrow> nat option \<Rightarrow> cid_mgr \<Rightarrow> cid_mgr" where
  "set_initial_dcid c reset_token path_id m =
     m\<lparr>zero_length_dcid := (c = []),
       dcids := snd (cq_insert \<lparr>ci_cid = c, ci_seq = 0, ci_reset_token = reset_token,
                               ci_path_id = path_id\<rparr> (cq_clear (dcids m)))\<rparr>"

definition set_scid_limit :: "u64 \<Rightarrow> cid_mgr \<Rightarrow> cid_mgr" where
  "set_scid_limit limit m =
     (let limit = max (unat (min limit MAX_CIDS_COUNT)) 2
      in m\<lparr>scid_limit := limit, scids := cq_enlarge (2 * limit - 1) (scids m)\<rparr>)"

definition get_scid :: "u64 \<Rightarrow> cid_mgr \<Rightarrow> cid_item res" where
  "get_scid seq m = ok_or (cq_get seq (scids m)) InternalError"

definition get_dcid :: "u64 \<Rightarrow> cid_mgr \<Rightarrow> cid_item res" where
  "get_dcid seq m = ok_or (cq_get seq (dcids m)) InternalError"

definition find_scid :: "cid \<Rightarrow> cid_mgr \<Rightarrow> (u64 \<times> nat option) option" where
  "find_scid c m = map_option (\<lambda>i. (ci_seq i, ci_path_id i)) (find (\<lambda>i. ci_cid i = c) (cq_queue (scids m)))"

definition mark_scid_used :: "u64 \<Rightarrow> nat \<Rightarrow> (unit, error, cid_mgr) meth" where
  "mark_scid_used scid_seq path_id m =
     (case cq_get scid_seq (scids m) of
        None \<Rightarrow> (Err InternalError, m)
      | Some _ \<Rightarrow>
          (Ok (), m\<lparr>scids := (scids m)\<lparr>cq_queue :=
             update_seq scid_seq (\<lambda>e. e\<lparr>ci_path_id := Some path_id\<rparr>) (cq_queue (scids m))\<rparr>\<rparr>))"

definition mark_dcid_used :: "u64 \<Rightarrow> nat \<Rightarrow> (unit, error, cid_mgr) meth" where
  "mark_dcid_used dcid_seq path_id m =
     (case cq_get dcid_seq (dcids m) of
        None \<Rightarrow> (Err InternalError, m)
      | Some _ \<Rightarrow>
          (Ok (), m\<lparr>dcids := (dcids m)\<lparr>cq_queue :=
             update_seq dcid_seq (\<lambda>e. e\<lparr>ci_path_id := Some path_id\<rparr>) (cq_queue (dcids m))\<rparr>\<rparr>))"

definition unused_scids :: "cid_mgr \<Rightarrow> nat" where
  "unused_scids m = length (filter (\<lambda>c. ci_path_id c = None) (cq_queue (scids m)))"

definition unused_dcids :: "cid_mgr \<Rightarrow> nat" where
  "unused_dcids m =
     (if zero_length_dcid m then 0
      else length (filter (\<lambda>e. ci_path_id e = None) (cq_queue (dcids m))))"

definition lowest_active_scid_seq :: "cid_mgr \<Rightarrow> u64 res" where
  "lowest_active_scid_seq m =
     ok_or (min_opt (map ci_seq (filter (\<lambda>c. retire_prior_to m \<le> ci_seq c) (cq_queue (scids m)))))
       InternalError"

definition lowest_unused_dcid_seq :: "cid_mgr \<Rightarrow> u64 option" where
  "lowest_unused_dcid_seq m =
     min_opt (map ci_seq (filter (\<lambda>c. ci_path_id c = None) (cq_queue (dcids m))))"

definition mark_scid_to_advertise :: "u64 \<Rightarrow> bool \<Rightarrow> cid_mgr \<Rightarrow> cid_mgr" where
  "mark_scid_to_advertise seq advertise m =
     (if advertise then m\<lparr>scids_to_advertise := scids_to_advertise m @ [seq]\<rparr>
      else m\<lparr>scids_to_advertise := filter (\<lambda>s. s \<noteq> seq) (scids_to_advertise m)\<rparr>)"

definition mark_dcid_to_retire :: "u64 \<Rightarrow> bool \<Rightarrow> cid_mgr \<Rightarrow> cid_mgr" where
  "mark_dcid_to_retire seq retire m =
     (if retire then m\<lparr>dcids_to_retire := dcids_to_retire m @ [seq]\<rparr>
      else m\<lparr>dcids_to_retire := filter (\<lambda>s. s \<noteq> seq) (dcids_to_retire m)\<rparr>)"

text \<open>A method of a field, run on the manager.\<close>

definition on_scids :: "('a, error, cid_deque) meth \<Rightarrow> ('a, error, cid_mgr) meth" where
  "on_scids f m = (let (r, q) = f (scids m) in (r, m\<lparr>scids := q\<rparr>))"

definition on_dcids :: "('a, error, cid_deque) meth \<Rightarrow> ('a, error, cid_mgr) meth" where
  "on_dcids f m = (let (r, q) = f (dcids m) in (r, m\<lparr>dcids := q\<rparr>))"

text \<open>The check of the limit at the start of \<open>add_scid\<close>, and the rest of it.\<close>

definition check_scid_limit :: "bool \<Rightarrow> (unit, error, cid_mgr) meth" where
  "check_scid_limit retire_if_needed m =
     (if scid_limit m \<le> length (cq_queue (scids m)) then
        if \<not> retire_if_needed then (Err ConnectionIdLimitError, m)
        else bind_s (lift_s lowest_active_scid_seq)
               (\<lambda>s. update_s (\<lambda>m. m\<lparr>retire_prior_to := s + 1\<rparr>)) m
      else (Ok (), m))"

definition insert_scid :: "cid \<Rightarrow> u128 option \<Rightarrow> bool \<Rightarrow> nat option \<Rightarrow> (u64, error, cid_mgr) meth" where
  "insert_scid c reset_token advertise path_id m =
     (let seq = next_scid_seq m in
      if seq \<noteq> 0 \<and> reset_token = None then (Err InternalError, m)
      else
        bind_s (on_scids (cq_insert \<lparr>ci_cid = c, ci_seq = seq, ci_reset_token = reset_token,
                                     ci_path_id = path_id\<rparr>))
          (\<lambda>_ m. (Ok seq, mark_scid_to_advertise seq advertise
                            (m\<lparr>next_scid_seq := next_scid_seq m + 1\<rparr>))) m)"

definition add_scid ::
  "cid \<Rightarrow> u128 option \<Rightarrow> bool \<Rightarrow> nat option \<Rightarrow> bool \<Rightarrow> (u64, error, cid_mgr) meth" where
  "add_scid c reset_token advertise path_id retire_if_needed m =
     (if zero_length_scid m then (Err InternalError, m)
      else bind_s (check_scid_limit retire_if_needed)
             (\<lambda>_. insert_scid c reset_token advertise path_id) m)"

definition check_dcids_to_retire :: "cid_mgr \<Rightarrow> unit res" where
  "check_dcids_to_retire m =
     (if dcid_limit m * 4 < length (dcids_to_retire m) then Err ProtocolViolation else Ok ())"

text \<open>The callback of \<open>add_dcid\<close>: the paths of the retired items that have one.\<close>

definition retired_paths :: "cid_item list \<Rightarrow> (u64 \<times> nat) list" where
  "retired_paths cs = List.map_filter (\<lambda>c. map_option (Pair (ci_seq c)) (ci_path_id c)) cs"

definition retire_lower_dcids :: "u64 \<Rightarrow> ((u64 \<times> nat) list, error, cid_mgr) meth" where
  "retire_lower_dcids prior m =
     (if largest_peer_retire_prior_to m < prior then
        let (removed, q) = cq_remove_lower prior (dcids m);
            m = m\<lparr>dcids := q, dcids_to_retire := dcids_to_retire m @ map ci_seq removed,
                  largest_peer_retire_prior_to := prior\<rparr>
        in bind_s (lift_s check_dcids_to_retire) (\<lambda>_ m. (Ok (retired_paths removed), m)) m
      else (Ok [], m))"

definition add_dcid ::
  "cid \<Rightarrow> u64 \<Rightarrow> u128 \<Rightarrow> u64 \<Rightarrow> ((u64 \<times> nat) list, error, cid_mgr) meth" where
  "add_dcid c seq reset_token prior m =
     (if zero_length_dcid m then (Err ProtocolViolation, m)
      else case find (\<lambda>e. ci_cid e = c \<or> ci_seq e = seq) (cq_queue (dcids m)) of
        Some e \<Rightarrow>
          if ci_cid e \<noteq> c \<or> ci_seq e \<noteq> seq \<or> ci_reset_token e \<noteq> Some reset_token
          then (Err ProtocolViolation, m)
          else (Ok [], m)
      | None \<Rightarrow>
          if seq < prior then (Err ProtocolViolation, m)
          else if seq < largest_peer_retire_prior_to m \<and> seq \<notin> set (dcids_to_retire m) then
            bind_s (lift_s check_dcids_to_retire) (\<lambda>_ m. (Ok [], m))
              (m\<lparr>dcids_to_retire := dcids_to_retire m @ [seq]\<rparr>)
          else
            bind_s (retire_lower_dcids prior)
              (\<lambda>retired_path_ids.
                 bind_s (on_dcids (cq_insert \<lparr>ci_cid = c, ci_seq = seq,
                                             ci_reset_token = Some reset_token, ci_path_id = None\<rparr>))
                   (\<lambda>_ m. (Ok retired_path_ids, m))) m)"

definition retire_scid :: "u64 \<Rightarrow> cid \<Rightarrow> (nat option, error, cid_mgr) meth" where
  "retire_scid seq pkt_dcid m =
     (if next_scid_seq m \<le> seq then (Err ProtocolViolation, m)
      else
        bind_s (on_scids (cq_remove seq))
          (\<lambda>r. case r of
              None \<Rightarrow> (\<lambda>m. (Ok None, m))
            | Some e \<Rightarrow>
                if ci_cid e = pkt_dcid then (\<lambda>m. (Err ProtocolViolation, m))
                else bind_s (lift_s lowest_active_scid_seq)
                       (\<lambda>s m. (Ok (ci_path_id e), m\<lparr>retire_prior_to := s\<rparr>)))
          m)"

definition next_scid_to_advertise :: "cid_mgr \<Rightarrow> u64 option" where
  "next_scid_to_advertise m = (case scids_to_advertise m of [] \<Rightarrow> None | s # _ \<Rightarrow> Some s)"

definition next_dcid_to_retire :: "cid_mgr \<Rightarrow> u64 option" where
  "next_dcid_to_retire m = (case dcids_to_retire m of [] \<Rightarrow> None | s # _ \<Rightarrow> Some s)"

definition create_new_connection_id_frame :: "u64 \<Rightarrow> cid_mgr \<Rightarrow> frame res" where
  "create_new_connection_id_frame seq m =
     bind_r (ok_or (cq_get seq (scids m)) InternalError) (\<lambda>item.
     bind_r (ok_or (ci_reset_token item) InternalError) (\<lambda>token.
     Ok (NewConnectionId seq (retire_prior_to m) (ci_cid item) (be_bytes 16 token))))"

definition need_send_cid_control_frames :: "cid_mgr \<Rightarrow> bool" where
  "need_send_cid_control_frames m \<longleftrightarrow> dcids_to_retire m \<noteq> [] \<or> scids_to_advertise m \<noteq> []"

subsection \<open>Invariant\<close>

text \<open>
  Sequence numbers are unique in each queue, the queues respect their capacity, issued sequence
  numbers are below the next one, and the peer never holds more usable IDs than it allows:
  \<open>active_scids\<close> are those it has not been asked to retire.
\<close>

definition queue_ok :: "cid_deque \<Rightarrow> bool" where
  "queue_ok q \<longleftrightarrow> distinct (map ci_seq (cq_queue q)) \<and> length (cq_queue q) \<le> cq_capacity q"

definition active_scids :: "cid_mgr \<Rightarrow> cid_item list" where
  "active_scids m = filter (\<lambda>c. retire_prior_to m \<le> ci_seq c) (cq_queue (scids m))"

definition scids_ok :: "cid_mgr \<Rightarrow> bool" where
  "scids_ok m \<longleftrightarrow> queue_ok (scids m) \<and> cq_queue (scids m) \<noteq> []
     \<and> (\<forall>c \<in> set (cq_queue (scids m)). ci_seq c < next_scid_seq m)
     \<and> length (active_scids m) \<le> scid_limit m"

definition dcids_ok :: "cid_mgr \<Rightarrow> bool" where
  "dcids_ok m \<longleftrightarrow> queue_ok (dcids m) \<and> distinct (map ci_cid (cq_queue (dcids m)))"

definition mgr_ok :: "cid_mgr \<Rightarrow> bool" where
  "mgr_ok m \<longleftrightarrow> scids_ok m \<and> dcids_ok m"

subsection \<open>The queue operations keep the invariant\<close>

lemma queue_ok_insert:
  "queue_ok q \<Longrightarrow> ci_seq c \<notin> ci_seq ` set (cq_queue q) \<Longrightarrow> queue_ok (snd (cq_insert c q))"
  by (auto simp: queue_ok_def cq_insert_def)

lemma queue_ok_filter:
  "queue_ok q \<Longrightarrow> queue_ok (q\<lparr>cq_queue := filter P (cq_queue q)\<rparr>)"
  by (auto simp: queue_ok_def distinct_map_filter intro: order_trans [OF length_filter_le])

lemma cq_remove_eq:
  assumes "queue_ok q" and "cq_remove seq q = (Ok r, q')"
  shows "r = cq_get seq q" and "q' = q\<lparr>cq_queue := filter (\<lambda>c. ci_seq c \<noteq> seq) (cq_queue q)\<rparr>"
    and "cq_queue q' \<noteq> []"
proof -
  from assms have r: "r = cq_get seq q" "cq_queue q \<noteq> []"
    "\<not> (length (cq_queue q) = 1 \<and> cq_get seq q \<noteq> None)"
    and q': "q' = q\<lparr>cq_queue := remove_first (\<lambda>c. ci_seq c = seq) (cq_queue q)\<rparr>"
    by (auto simp: cq_remove_def cq_get_def split: if_splits)
  have d: "distinct (map ci_seq (cq_queue q))" using assms(1) by (simp add: queue_ok_def)
  show "r = cq_get seq q" by (fact r)
  show "q' = q\<lparr>cq_queue := filter (\<lambda>c. ci_seq c \<noteq> seq) (cq_queue q)\<rparr>"
    using q' remove_first_distinct [OF d] by simp
  have "0 < length (remove_first (\<lambda>c. ci_seq c = seq) (cq_queue q))"
    using r by (cases "cq_queue q") (auto simp: length_remove_first cq_get_def)
  then show "cq_queue q' \<noteq> []" using q' by auto
qed

lemma cq_remove_Err: "cq_remove seq q = (Err e, q') \<Longrightarrow> q' = q"
  by (auto simp: cq_remove_def split: if_splits)

lemma cq_remove_no_panic: "cq_remove seq q \<noteq> (Panic, q')"
  by (auto simp: cq_remove_def split: if_splits)

lemma map_update_seq:
  assumes "\<And>c. ci_seq (f c) = ci_seq c" and "\<And>c. ci_cid (f c) = ci_cid c"
  shows "map ci_seq (update_seq seq f cs) = map ci_seq cs"
    and "map ci_cid (update_seq seq f cs) = map ci_cid cs"
  using assms by (induction cs) auto

subsection \<open>Source connection IDs\<close>

lemma lowest_active:
  assumes "lowest_active_scid_seq m = Ok s"
  shows "\<forall>c \<in> set (active_scids m). s \<le> ci_seq c"
    and "\<exists>c \<in> set (cq_queue (scids m)). ci_seq c = s \<and> retire_prior_to m \<le> s"
  using assms by (auto simp: lowest_active_scid_seq_def ok_or_Ok_iff min_opt_Some active_scids_def)

lemma retire_lowest:
  assumes "lowest_active_scid_seq m = Ok s" and "scids_ok m"
  shows "length (filter (\<lambda>c. s + 1 \<le> ci_seq c) (cq_queue (scids m))) < length (active_scids m)"
    and "s < next_scid_seq m"
proof -
  obtain c where c: "c \<in> set (cq_queue (scids m))" "ci_seq c = s" "retire_prior_to m \<le> s"
    using lowest_active(2) [OF assms(1)] by blast
  then show lt: "s < next_scid_seq m" using assms(2) by (auto simp: scids_ok_def)
  have "s + 1 \<le> x \<longleftrightarrow> s < x" for x
    using unat_Suc_small [OF lt] by (auto simp: word_le_nat_alt word_less_nat_alt)
  then show "length (filter (\<lambda>c. s + 1 \<le> ci_seq c) (cq_queue (scids m))) < length (active_scids m)"
    unfolding active_scids_def using c by (intro length_filter_strict) auto
qed

lemma check_scid_limit_Ok:
  assumes "check_scid_limit retire m = (Ok (), m1)" and "scids_ok m"
  shows "m1 = m\<lparr>retire_prior_to := retire_prior_to m1\<rparr>"
    and "length (active_scids m1) < scid_limit m1"
proof -
  have r: "retire_prior_to m1 = retire_prior_to m \<and> length (cq_queue (scids m)) < scid_limit m \<or>
      lowest_active_scid_seq m = Ok (retire_prior_to m1 - 1)"
    and m1: "m1 = m\<lparr>retire_prior_to := retire_prior_to m1\<rparr>"
    using assms(1) by (auto simp: check_scid_limit_def bind_s_Ok_iff split: if_splits)
  show "m1 = m\<lparr>retire_prior_to := retire_prior_to m1\<rparr>" by (fact m1)
  have a: "active_scids m1 = filter (\<lambda>c. retire_prior_to m1 \<le> ci_seq c) (cq_queue (scids m))"
    "scid_limit m1 = scid_limit m"
    by (subst m1; simp add: active_scids_def)+
  have "length (active_scids m) \<le> scid_limit m" using assms(2) by (simp add: scids_ok_def)
  then show "length (active_scids m1) < scid_limit m1"
    using r retire_lowest(1) [of m "retire_prior_to m1 - 1"] assms(2)
    unfolding a by (auto intro: le_less_trans [OF length_filter_le])
qed

lemma check_scid_limit_Err: "check_scid_limit retire m = (Err e, m1) \<Longrightarrow> m1 = m"
  by (auto simp: check_scid_limit_def bind_s_def lift_s_def update_s_def split: if_splits result.splits)

lemma insert_scid_Ok:
  assumes "insert_scid c token advertise path_id m = (Ok seq, m')"
  shows "seq = next_scid_seq m" and "length (cq_queue (scids m)) \<noteq> cq_capacity (scids m)"
    and "scids m' = (scids m)\<lparr>cq_queue := cq_queue (scids m) @
      [\<lparr>ci_cid = c, ci_seq = seq, ci_reset_token = token, ci_path_id = path_id\<rparr>]\<rparr>"
    and "next_scid_seq m' = next_scid_seq m + 1" and "dcids m' = dcids m"
    and "retire_prior_to m' = retire_prior_to m" and "scid_limit m' = scid_limit m"
  using assms
  by (auto simp: insert_scid_def bind_s_Ok_iff on_scids_def cq_insert_def Let_def mark_scid_to_advertise_def
      split: if_splits prod.splits)

lemma insert_scid_Err: "insert_scid c token advertise path_id m = (Err e, m') \<Longrightarrow> m' = m"
  by (auto simp: insert_scid_def bind_s_def on_scids_def cq_insert_def Let_def split: if_splits prod.splits)

text \<open>What issuing a source connection ID does, and that it keeps the invariant on every outcome.\<close>

lemma add_scid_Ok:
  assumes "add_scid c token advertise path_id retire m = (Ok seq, m')" and "scids_ok m"
    and "unat (next_scid_seq m) < 2 ^ 64 - 1"
  shows "seq = next_scid_seq m" and "next_scid_seq m' = next_scid_seq m + 1"
    and "cq_queue (scids m') = cq_queue (scids m) @
      [\<lparr>ci_cid = c, ci_seq = seq, ci_reset_token = token, ci_path_id = path_id\<rparr>]"
    and "scids_ok m'" and "dcids m' = dcids m"
proof -
  from assms(1) obtain m1 where c: "check_scid_limit retire m = (Ok (), m1)"
    and i: "insert_scid c token advertise path_id m1 = (Ok seq, m')"
    by (auto simp: add_scid_def bind_s_Ok_iff split: if_splits)
  note m1 = check_scid_limit_Ok [OF c assms(2)] and ins = insert_scid_Ok [OF i]
  let ?item = "\<lparr>ci_cid = c, ci_seq = seq, ci_reset_token = token, ci_path_id = path_id\<rparr>"
  have e: "scids m1 = scids m" "next_scid_seq m1 = next_scid_seq m" "dcids m1 = dcids m"
    by (subst m1(1); simp)+
  show seq: "seq = next_scid_seq m" and n: "next_scid_seq m' = next_scid_seq m + 1"
    and q: "cq_queue (scids m') = cq_queue (scids m) @ [?item]" and "dcids m' = dcids m"
    using ins e by auto
  have old: "\<forall>c \<in> set (cq_queue (scids m)). ci_seq c < next_scid_seq m" "queue_ok (scids m)"
    using assms(2) by (simp_all add: scids_ok_def)
  have "queue_ok (scids m')" using old seq ins(2,3) e by (auto simp: queue_ok_def)
  moreover have "next_scid_seq m < next_scid_seq m + 1"
    using assms(3) by (simp add: word_less_nat_alt unat_add_small)
  then have "\<forall>c \<in> set (cq_queue (scids m')). ci_seq c < next_scid_seq m'"
    using old q seq n by (auto intro: less_trans)
  moreover have "length (active_scids m') \<le> scid_limit m'"
    using m1(2) ins(3,6,7) by (simp add: active_scids_def)
  ultimately show "scids_ok m'" using q by (simp add: scids_ok_def)
qed

lemma add_scid_Err:
  assumes "add_scid c token advertise path_id retire m = (Err e, m')" and "scids_ok m"
  shows "scids_ok m'" and "scids m' = scids m" and "dcids m' = dcids m"
proof -
  from assms(1) consider "m' = m" | (ins) m1 where "check_scid_limit retire m = (Ok (), m1)" "m' = m1"
    by (auto simp: add_scid_def bind_s_def split: if_splits prod.splits result.splits
        dest: check_scid_limit_Err insert_scid_Err)
  then have "scids_ok m' \<and> scids m' = scids m \<and> dcids m' = dcids m"
  proof cases
    case ins
    note m1 = check_scid_limit_Ok [OF ins(1) assms(2)]
    have "scids m1 = scids m" "next_scid_seq m1 = next_scid_seq m" "dcids m1 = dcids m"
      by (subst m1(1); simp)+
    then show ?thesis using assms(2) m1(2) ins(2) by (auto simp: scids_ok_def)
  qed (use assms(2) in simp)
  then show "scids_ok m'" "scids m' = scids m" "dcids m' = dcids m" by simp_all
qed

lemma add_scid_no_panic: "fst (add_scid c token advertise path_id retire m) \<noteq> Panic"
  by (auto simp: add_scid_def check_scid_limit_def insert_scid_def bind_s_def lift_s_def update_s_def
      on_scids_def cq_insert_def Let_def lowest_active_scid_seq_def split: if_splits prod.splits result.splits)

text \<open>Retiring a source connection ID: unknown numbers are a protocol violation, the last ID stays.\<close>

lemma retire_scid_unissued:
  "next_scid_seq m \<le> seq \<Longrightarrow> retire_scid seq pkt_dcid m = (Err ProtocolViolation, m)"
  by (simp add: retire_scid_def)

lemma retire_scid_Ok:
  assumes "retire_scid seq pkt_dcid m = (Ok pid, m')" and "scids_ok m"
  shows "cq_queue (scids m') = filter (\<lambda>c. ci_seq c \<noteq> seq) (cq_queue (scids m))"
    and "pid = (case cq_get seq (scids m) of None \<Rightarrow> None | Some e \<Rightarrow> ci_path_id e)"
    and "scids_ok m'" and "dcids m' = dcids m"
proof -
  have qok: "queue_ok (scids m)" using assms(2) by (simp add: scids_ok_def)
  from assms(1) obtain r q where rm: "cq_remove seq (scids m) = (Ok r, q)"
    and cont: "(case r of
        None \<Rightarrow> (\<lambda>m. (Ok None, m))
      | Some e \<Rightarrow> if ci_cid e = pkt_dcid then (\<lambda>m. (Err ProtocolViolation, m))
          else bind_s (lift_s lowest_active_scid_seq)
                 (\<lambda>s m. (Ok (ci_path_id e), m\<lparr>retire_prior_to := s\<rparr>))) (m\<lparr>scids := q\<rparr>) = (Ok pid, m')"
    by (auto simp: retire_scid_def bind_s_Ok_iff on_scids_def Let_def split: if_splits prod.splits)
  have rest: "r = None \<and> pid = None \<and> m' = m\<lparr>scids := q\<rparr> \<or>
      (\<exists>e s. r = Some e \<and> pid = ci_path_id e \<and> lowest_active_scid_seq (m\<lparr>scids := q\<rparr>) = Ok s
         \<and> m' = m\<lparr>scids := q, retire_prior_to := s\<rparr>)"
    using cont by (cases r) (auto simp: bind_s_Ok_iff lift_s_def simp del: lift_s_iff split: if_splits)
  note q = cq_remove_eq [OF qok rm]
  show "cq_queue (scids m') = filter (\<lambda>c. ci_seq c \<noteq> seq) (cq_queue (scids m))" "dcids m' = dcids m"
    using rest q(2) by auto
  show "pid = (case cq_get seq (scids m) of None \<Rightarrow> None | Some e \<Rightarrow> ci_path_id e)"
    using rest q(1) by auto
  have f: "scids m' = q" "next_scid_seq m' = next_scid_seq m" "scid_limit m' = scid_limit m"
    using rest by auto
  have r: "retire_prior_to m \<le> retire_prior_to m'"
    using rest lowest_active(2) [of "m\<lparr>scids := q\<rparr>"] by auto
  have "queue_ok q" using queue_ok_filter [OF qok] q(2) by simp
  moreover have "active_scids m' = filter (\<lambda>c. retire_prior_to m' \<le> ci_seq c \<and> ci_seq c \<noteq> seq) (active_scids m)"
    using r q(2) f(1) by (auto simp: active_scids_def intro!: filter_cong)
  then have "length (active_scids m') \<le> length (active_scids m)" by simp
  moreover have "\<forall>c \<in> set (cq_queue q). ci_seq c < next_scid_seq m"
    using assms(2) q(2) by (auto simp: scids_ok_def)
  ultimately show "scids_ok m'" using assms(2) f q(3) by (auto simp: scids_ok_def)
qed

lemma retire_scid_Err:
  assumes "retire_scid seq pkt_dcid m = (Err e, m')" and "scids_ok m"
  shows "scids_ok m'" and "dcids m' = dcids m"
proof -
  have qok: "queue_ok (scids m)" using assms(2) by (simp add: scids_ok_def)
  from assms(1) have "m' = m \<or> (\<exists>r q. cq_remove seq (scids m) = (Ok r, q) \<and> m' = m\<lparr>scids := q\<rparr>)"
    by (auto simp: retire_scid_def bind_s_def lift_s_def on_scids_def split: if_splits prod.splits result.splits
        option.splits dest: cq_remove_Err)
  then have "scids_ok m' \<and> dcids m' = dcids m"
  proof
    assume "\<exists>r q. cq_remove seq (scids m) = (Ok r, q) \<and> m' = m\<lparr>scids := q\<rparr>"
    then obtain r q where rm: "cq_remove seq (scids m) = (Ok r, q)" and m': "m' = m\<lparr>scids := q\<rparr>" by auto
    note q = cq_remove_eq [OF qok rm]
    have "active_scids m' = filter (\<lambda>c. ci_seq c \<noteq> seq) (active_scids m)"
      using q(2) m' by (auto simp: active_scids_def intro!: filter_cong)
    then have "length (active_scids m') \<le> length (active_scids m)" by simp
    then show ?thesis
      using assms(2) m' q queue_ok_filter [OF qok] by (auto simp: scids_ok_def)
  qed (use assms(2) in simp)
  then show "scids_ok m'" "dcids m' = dcids m" by simp_all
qed

lemma retire_scid_no_panic: "fst (retire_scid seq pkt_dcid m) \<noteq> Panic"
  by (auto simp: retire_scid_def bind_s_def lift_s_def on_scids_def cq_remove_def
      lowest_active_scid_seq_def split: if_splits prod.splits result.splits option.splits)

subsection \<open>Destination connection IDs\<close>

lemma retire_lower_dcids_dcids:
  assumes "retire_lower_dcids prior m = (r, m')"
  shows "dcids m' = (if largest_peer_retire_prior_to m < prior
      then (dcids m)\<lparr>cq_queue := filter (\<lambda>c. \<not> ci_seq c < prior) (cq_queue (dcids m))\<rparr> else dcids m)"
    and "scids m' = scids m" and "next_scid_seq m' = next_scid_seq m"
    and "retire_prior_to m' = retire_prior_to m" and "scid_limit m' = scid_limit m"
  using assms
  by (auto simp: retire_lower_dcids_def cq_remove_lower_def bind_s_def lift_s_def Let_def
      split: if_splits prod.splits result.splits)

lemma retire_lower_dcids_Ok:
  assumes "retire_lower_dcids prior m = (Ok paths, m')" and "largest_peer_retire_prior_to m < prior"
  shows "dcids_to_retire m' = dcids_to_retire m @ map ci_seq (filter (\<lambda>c. ci_seq c < prior) (cq_queue (dcids m)))"
    and "largest_peer_retire_prior_to m' = prior"
    and "paths = retired_paths (filter (\<lambda>c. ci_seq c < prior) (cq_queue (dcids m)))"
    and "length (dcids_to_retire m') \<le> dcid_limit m' * 4"
  using assms
  by (auto simp: retire_lower_dcids_def cq_remove_lower_def bind_s_Ok_iff check_dcids_to_retire_def
      split: if_splits)

lemma mgr_field_frame:
  "scids_ok (m\<lparr>dcids := q\<rparr>) = scids_ok m" "scids_ok (m\<lparr>dcids_to_retire := xs\<rparr>) = scids_ok m"
  "dcids_ok (m\<lparr>scids := q\<rparr>) = dcids_ok m" "dcids_ok (m\<lparr>dcids_to_retire := xs\<rparr>) = dcids_ok m"
  by (simp_all add: scids_ok_def dcids_ok_def active_scids_def)

lemma scids_ok_frame:
  assumes "scids_ok m" and "scids m' = scids m" and "next_scid_seq m' = next_scid_seq m"
    and "retire_prior_to m' = retire_prior_to m" and "scid_limit m' = scid_limit m"
  shows "scids_ok m'"
  using assms by (simp add: scids_ok_def active_scids_def)

lemma dcids_ok_insert:
  assumes "dcids_ok m" and "find (\<lambda>e. ci_cid e = ci_cid c \<or> ci_seq e = ci_seq c) (cq_queue (dcids m)) = None"
  shows "dcids_ok (snd (on_dcids (cq_insert c) m))"
  using assms
  by (auto simp: dcids_ok_def queue_ok_def on_dcids_def cq_insert_def find_None_iff split: prod.splits)

lemma add_dcid_ok:
  assumes "mgr_ok m"
  shows "mgr_ok (snd (add_dcid c seq token prior m))"
proof -
  let ?item = "\<lparr>ci_cid = c, ci_seq = seq, ci_reset_token = Some token, ci_path_id = None\<rparr>"
  let ?clash = "\<lambda>e. ci_cid e = c \<or> ci_seq e = seq"
  have "mgr_ok (snd (bind_s (retire_lower_dcids prior)
      (\<lambda>paths. bind_s (on_dcids (cq_insert ?item)) (\<lambda>_ m. (Ok paths, m))) m))"
    if fresh: "find ?clash (cq_queue (dcids m)) = None"
  proof -
    obtain r m1 where r: "retire_lower_dcids prior m = (r, m1)" by fastforce
    note m1 = retire_lower_dcids_dcids [OF r]
    have "dcids_ok m1" using assms m1(1) queue_ok_filter
      by (auto simp: mgr_ok_def dcids_ok_def distinct_map_filter)
    moreover have "find ?clash (cq_queue (dcids m1)) = None"
      using fresh m1(1) by (auto simp: find_None_iff)
    ultimately have d: "dcids_ok (snd (on_dcids (cq_insert ?item) m1))"
      by (intro dcids_ok_insert) simp_all
    have s: "scids_ok m1" using assms m1 by (auto simp: mgr_ok_def intro: scids_ok_frame)
    then have "scids_ok (snd (on_dcids (cq_insert ?item) m1))"
      by (auto simp: on_dcids_def mgr_field_frame split: prod.splits)
    with d s \<open>dcids_ok m1\<close> show ?thesis
      by (auto simp: bind_s_def r mgr_ok_def split: result.splits prod.splits)
  qed
  then show ?thesis
    using assms by (auto simp: add_dcid_def bind_s_def [of "lift_s _"] lift_s_def mgr_ok_def mgr_field_frame
        split: option.splits result.splits)
qed

text \<open>A NEW_CONNECTION_ID frame that is not a repetition.\<close>

lemma add_dcid_new:
  assumes "add_dcid c seq token prior m = (Ok paths, m')"
    and fresh: "find (\<lambda>e. ci_cid e = c \<or> ci_seq e = seq) (cq_queue (dcids m)) = None"
    and "largest_peer_retire_prior_to m \<le> seq"
  shows "prior \<le> seq"
    and "cq_queue (dcids m') =
      (if largest_peer_retire_prior_to m < prior
       then filter (\<lambda>c. \<not> ci_seq c < prior) (cq_queue (dcids m)) else cq_queue (dcids m))
      @ [\<lparr>ci_cid = c, ci_seq = seq, ci_reset_token = Some token, ci_path_id = None\<rparr>]"
    and "largest_peer_retire_prior_to m < prior \<Longrightarrow>
      dcids_to_retire m' = dcids_to_retire m @ map ci_seq (filter (\<lambda>c. ci_seq c < prior) (cq_queue (dcids m)))
      \<and> paths = retired_paths (filter (\<lambda>c. ci_seq c < prior) (cq_queue (dcids m)))
      \<and> length (dcids_to_retire m') \<le> dcid_limit m' * 4"
    and "largest_peer_retire_prior_to m' = max (largest_peer_retire_prior_to m) prior"
proof -
  from assms obtain m1 where le: "prior \<le> seq" and r: "retire_lower_dcids prior m = (Ok paths, m1)"
    and ins: "length (cq_queue (dcids m1)) \<noteq> cq_capacity (dcids m1)"
    and m': "m' = m1\<lparr>dcids := (dcids m1)\<lparr>cq_queue := cq_queue (dcids m1) @
      [\<lparr>ci_cid = c, ci_seq = seq, ci_reset_token = Some token, ci_path_id = None\<rparr>]\<rparr>\<rparr>"
    by (auto simp: add_dcid_def bind_s_Ok_iff on_dcids_def cq_insert_def split: if_splits prod.splits)
  show "prior \<le> seq" by (fact le)
  show "cq_queue (dcids m') =
      (if largest_peer_retire_prior_to m < prior
       then filter (\<lambda>c. \<not> ci_seq c < prior) (cq_queue (dcids m)) else cq_queue (dcids m))
      @ [\<lparr>ci_cid = c, ci_seq = seq, ci_reset_token = Some token, ci_path_id = None\<rparr>]"
    using retire_lower_dcids_dcids(1) [OF r] m' by simp
  show "largest_peer_retire_prior_to m < prior \<Longrightarrow>
      dcids_to_retire m' = dcids_to_retire m @ map ci_seq (filter (\<lambda>c. ci_seq c < prior) (cq_queue (dcids m)))
      \<and> paths = retired_paths (filter (\<lambda>c. ci_seq c < prior) (cq_queue (dcids m)))
      \<and> length (dcids_to_retire m') \<le> dcid_limit m' * 4"
    using retire_lower_dcids_Ok [OF r] m' by simp
  show "largest_peer_retire_prior_to m' = max (largest_peer_retire_prior_to m) prior"
    using retire_lower_dcids_Ok(2) [OF r] r m' by (auto simp: retire_lower_dcids_def split: if_splits)
qed

text \<open>A frame that repeats a retired ID whose retirement is still queued makes the ID usable again.\<close>

lemma add_dcid_revives:
  assumes "\<not> zero_length_dcid m" and "seq \<in> set (dcids_to_retire m)" and "prior \<le> seq"
    and "seq < largest_peer_retire_prior_to m"
    and "find (\<lambda>e. ci_cid e = c \<or> ci_seq e = seq) (cq_queue (dcids m)) = None"
    and "length (cq_queue (dcids m)) < cq_capacity (dcids m)"
  shows "\<exists>m'. add_dcid c seq token prior m = (Ok [], m') \<and>
    \<lparr>ci_cid = c, ci_seq = seq, ci_reset_token = Some token, ci_path_id = None\<rparr> \<in> set (cq_queue (dcids m'))"
proof -
  have "\<not> largest_peer_retire_prior_to m < prior" using assms(3,4) by simp
  with assms show ?thesis
    by (simp add: add_dcid_def retire_lower_dcids_def bind_s_def on_dcids_def cq_insert_def)
qed

subsection \<open>The remaining operations, and every run\<close>

lemma mgr_ok_new: "mgr_ok (mgr_new limit c pid token)"
  by (simp add: mgr_ok_def mgr_new_def scids_ok_def dcids_ok_def queue_ok_def cq_insert_def cq_new_def
      doubled_capacity_def active_scids_def)

lemma mgr_ok_set_initial_dcid: "mgr_ok m \<Longrightarrow> mgr_ok (set_initial_dcid c token pid m)"
  by (auto simp: mgr_ok_def set_initial_dcid_def scids_ok_def dcids_ok_def queue_ok_def cq_insert_def
      cq_clear_def active_scids_def)

definition new_scid_limit :: "u64 \<Rightarrow> nat" where
  "new_scid_limit limit = max (unat (min limit MAX_CIDS_COUNT)) 2"

lemma mgr_ok_set_scid_limit:
  "mgr_ok m \<Longrightarrow> scid_limit m \<le> new_scid_limit limit \<Longrightarrow> mgr_ok (set_scid_limit limit m)"
  by (auto simp: mgr_ok_def set_scid_limit_def new_scid_limit_def scids_ok_def dcids_ok_def queue_ok_def
      cq_enlarge_def active_scids_def Let_def)

lemma filter_seq_update:
  assumes "\<And>c. ci_seq (f c) = ci_seq c"
  shows "length (filter (\<lambda>c. P (ci_seq c)) (update_seq seq f cs)) = length (filter (\<lambda>c. P (ci_seq c)) cs)"
  by (induction cs) (auto simp: assms)

lemma update_seq_frame:
  fixes f :: "cid_item \<Rightarrow> cid_item"
  assumes "\<And>c. ci_seq (f c) = ci_seq c" and "\<And>c. ci_cid (f c) = ci_cid c"
  shows "length (update_seq seq f cs) = length cs" and "update_seq seq f cs = [] \<longleftrightarrow> cs = []"
    and "ci_seq ` set (update_seq seq f cs) = ci_seq ` set cs"
proof -
  show l: "length (update_seq seq f cs) = length cs" by (induction cs) auto
  then show "update_seq seq f cs = [] \<longleftrightarrow> cs = []" by (metis length_0_conv)
  show "ci_seq ` set (update_seq seq f cs) = ci_seq ` set cs"
    using map_update_seq(1) [of f seq cs] assms by (metis list.set_map)
qed

lemma mgr_ok_mark_scid_used: "mgr_ok m \<Longrightarrow> mgr_ok (snd (mark_scid_used seq pid m))"
proof -
  assume m: "mgr_ok m"
  let ?f = "\<lambda>e. e\<lparr>ci_path_id := Some pid\<rparr>"
  let ?cs = "update_seq seq ?f (cq_queue (scids m))"
  have "(\<forall>c \<in> set ?cs. ci_seq c < n) \<longleftrightarrow> (\<forall>c \<in> set (cq_queue (scids m)). ci_seq c < n)" for n
  proof -
    have b: "(\<forall>c \<in> A. ci_seq c < n) \<longleftrightarrow> (\<forall>s \<in> ci_seq ` A. s < n)" for A by simp
    have e: "ci_seq ` set ?cs = ci_seq ` set (cq_queue (scids m))" by (rule update_seq_frame) simp_all
    show ?thesis unfolding b e ..
  qed
  then show ?thesis
    using m map_update_seq(1) [of ?f] update_seq_frame(1,2) [of ?f]
      filter_seq_update [of ?f "\<lambda>s. retire_prior_to m \<le> s"]
    by (auto simp: mark_scid_used_def mgr_ok_def mgr_field_frame scids_ok_def queue_ok_def active_scids_def
        split: option.splits)
qed

lemma mgr_ok_mark_dcid_used: "mgr_ok m \<Longrightarrow> mgr_ok (snd (mark_dcid_used seq pid m))"
  using map_update_seq [of "\<lambda>e. e\<lparr>ci_path_id := Some pid\<rparr>"]
    update_seq_frame(1) [of "\<lambda>e. e\<lparr>ci_path_id := Some pid\<rparr>"]
  by (auto simp: mark_dcid_used_def mgr_ok_def mgr_field_frame dcids_ok_def queue_ok_def
      split: option.splits)

lemma mgr_ok_marks:
  "mgr_ok (mark_scid_to_advertise seq advertise m) = mgr_ok m"
  "mgr_ok (mark_dcid_to_retire seq retire m) = mgr_ok m"
  by (simp_all add: mgr_ok_def mark_scid_to_advertise_def mark_dcid_to_retire_def scids_ok_def dcids_ok_def
      active_scids_def)

lemma add_scid_mgr_ok:
  assumes "mgr_ok m" and "unat (next_scid_seq m) < 2 ^ 64 - 1"
  shows "mgr_ok (snd (add_scid c token advertise pid retire m))"
proof -
  obtain r m' where r: "add_scid c token advertise pid retire m = (r, m')" by fastforce
  have s: "scids_ok m" and d: "dcids_ok m" using assms(1) by (simp_all add: mgr_ok_def)
  have "scids_ok m' \<and> dcids m' = dcids m"
    using add_scid_Ok(4,5) [OF _ s assms(2)] add_scid_Err(1,3) [OF _ s] r
      add_scid_no_panic [of c token advertise pid retire m]
    by (cases r) auto
  then show ?thesis using d r by (simp add: mgr_ok_def dcids_ok_def)
qed

lemma retire_scid_mgr_ok:
  assumes "mgr_ok m"
  shows "mgr_ok (snd (retire_scid seq pkt_dcid m))"
proof -
  obtain r m' where r: "retire_scid seq pkt_dcid m = (r, m')" by fastforce
  have s: "scids_ok m" and d: "dcids_ok m" using assms(1) by (simp_all add: mgr_ok_def)
  have "scids_ok m' \<and> dcids m' = dcids m"
    using retire_scid_Ok(3,4) [OF _ s] retire_scid_Err [OF _ s] r
      retire_scid_no_panic [of seq pkt_dcid m]
    by (cases r) auto
  then show ?thesis using d r by (simp add: mgr_ok_def dcids_ok_def)
qed

text \<open>The calls a connection makes on its manager. The source limit is only ever raised, and the
  sequence counter does not run out.\<close>

inductive mgr_step :: "cid_mgr \<Rightarrow> cid_mgr \<Rightarrow> bool" where
  step_add_scid: "unat (next_scid_seq m) < 2 ^ 64 - 1 \<Longrightarrow>
     mgr_step m (snd (add_scid c token advertise pid retire m))"
| step_add_dcid: "mgr_step m (snd (add_dcid c seq dtoken prior m))"
| step_retire_scid: "mgr_step m (snd (retire_scid seq pkt_dcid m))"
| step_set_initial_dcid: "mgr_step m (set_initial_dcid c token pid m)"
| step_set_scid_limit: "scid_limit m \<le> new_scid_limit limit \<Longrightarrow> mgr_step m (set_scid_limit limit m)"
| step_mark_scid_used: "mgr_step m (snd (mark_scid_used seq path m))"
| step_mark_dcid_used: "mgr_step m (snd (mark_dcid_used seq path m))"
| step_mark_scid_to_advertise: "mgr_step m (mark_scid_to_advertise seq flag m)"
| step_mark_dcid_to_retire: "mgr_step m (mark_dcid_to_retire seq flag m)"

lemma mgr_step_ok: "mgr_step m m' \<Longrightarrow> mgr_ok m \<Longrightarrow> mgr_ok m'"
  by (induction rule: mgr_step.induct)
    (simp_all add: add_scid_mgr_ok add_dcid_ok retire_scid_mgr_ok mgr_ok_set_initial_dcid mgr_ok_set_scid_limit
      mgr_ok_mark_scid_used mgr_ok_mark_dcid_used mgr_ok_marks)

lemma mgr_steps_ok: "mgr_step\<^sup>*\<^sup>* m m' \<Longrightarrow> mgr_ok m \<Longrightarrow> mgr_ok m'"
  by (induction rule: rtranclp_induct) (auto intro: mgr_step_ok)

subsection \<open>Announcing a source connection ID\<close>

lemma create_new_connection_id_frame_ok:
  assumes "create_new_connection_id_frame seq m = Ok f"
    and "\<forall>c \<in> set (cq_queue (scids m)). length (ci_cid c) \<le> MAX_CID_LEN"
    and "seq \<le> VINT_MAX" and "retire_prior_to m \<le> VINT_MAX"
  shows "frame_ok f"
  using assms
  by (auto simp: create_new_connection_id_frame_def bind_r_Ok_iff ok_or_Ok_iff cq_get_def find_Some_iff
      RESET_TOKEN_LEN_def)

subsection \<open>Properties\<close>

text \<open>C36: in every state that the calls of a connection can reach, connection IDs have unique
  sequence numbers, both queues respect their capacity, at least one source ID remains, and the
  peer never holds more source IDs it was not asked to retire than its limit allows.\<close>

theorem cid_manager_invariant:
  assumes "mgr_step\<^sup>*\<^sup>* (mgr_new limit scid path token) m"
  shows "distinct (map ci_seq (cq_queue (scids m))) \<and> distinct (map ci_seq (cq_queue (dcids m)))
    \<and> distinct (map ci_cid (cq_queue (dcids m)))
    \<and> length (cq_queue (scids m)) \<le> cq_capacity (scids m) \<and> length (cq_queue (dcids m)) \<le> cq_capacity (dcids m)
    \<and> cq_queue (scids m) \<noteq> [] \<and> length (active_scids m) \<le> scid_limit m"
  using mgr_steps_ok [OF assms mgr_ok_new] by (auto simp: mgr_ok_def scids_ok_def dcids_ok_def queue_ok_def)

theorem cid_manager_invariant_witness:
  "let m = snd (add_scid [7] (Some 1) True None False (mgr_new 4 [1] 0 None))
   in distinct (map ci_seq (cq_queue (scids m))) \<and> distinct (map ci_seq (cq_queue (dcids m)))
    \<and> distinct (map ci_cid (cq_queue (dcids m)))
    \<and> length (cq_queue (scids m)) \<le> cq_capacity (scids m) \<and> length (cq_queue (dcids m)) \<le> cq_capacity (dcids m)
    \<and> cq_queue (scids m) \<noteq> [] \<and> length (active_scids m) \<le> scid_limit m"
  unfolding Let_def
  by (rule cid_manager_invariant, rule r_into_rtranclp, rule step_add_scid) (simp add: mgr_new_def cq_insert_def cq_new_def doubled_capacity_def)

text \<open>a new destination ID whose frame raises Retire Prior To is stored, every stored ID below
  that value is dropped and queued for retirement in order, the paths that used them are reported,
  and the queue of retirements stays bounded.\<close>

theorem new_connection_id_retires:
  assumes "add_dcid c seq token prior m = (Ok paths, m')"
    and "find (\<lambda>e. ci_cid e = c \<or> ci_seq e = seq) (cq_queue (dcids m)) = None"
    and "largest_peer_retire_prior_to m < prior"
  shows "prior \<le> seq
    \<and> cq_queue (dcids m') = filter (\<lambda>e. prior \<le> ci_seq e) (cq_queue (dcids m))
        @ [\<lparr>ci_cid = c, ci_seq = seq, ci_reset_token = Some token, ci_path_id = None\<rparr>]
    \<and> dcids_to_retire m' = dcids_to_retire m @ map ci_seq (filter (\<lambda>e. ci_seq e < prior) (cq_queue (dcids m)))
    \<and> paths = retired_paths (filter (\<lambda>e. ci_seq e < prior) (cq_queue (dcids m)))
    \<and> length (dcids_to_retire m') \<le> dcid_limit m' * 4 \<and> largest_peer_retire_prior_to m' = prior"
proof -
  have "\<not> seq < prior" using assms(1,2) by (auto simp: add_dcid_def split: if_splits)
  then have "largest_peer_retire_prior_to m \<le> seq" using assms(3) by auto
  from add_dcid_new [OF assms(1,2) this] assms(3) show ?thesis by (auto simp: not_less)
qed

definition dcid_example :: cid_mgr where
  "dcid_example = set_initial_dcid [9] None (Some 0) (mgr_new 4 [1] 0 None)"

theorem new_connection_id_retires_witness:
  "\<exists>m'. add_dcid [8] 1 77 1 dcid_example = (Ok [(0, 0)], m')
     \<and> dcids_to_retire m' = [0] \<and> largest_peer_retire_prior_to m' = 1"
proof -
  obtain m' where m': "add_dcid [8] 1 77 1 dcid_example = (Ok [(0, 0)], m')"
    by (simp add: add_dcid_def dcid_example_def set_initial_dcid_def mgr_new_def cq_insert_def cq_clear_def cq_new_def
        doubled_capacity_def retire_lower_dcids_def cq_remove_lower_def bind_s_def lift_s_def
        check_dcids_to_retire_def on_dcids_def retired_paths_def List.map_filter_def Let_def)
  have "dcids_to_retire m' = [0] \<and> largest_peer_retire_prior_to m' = 1"
    using new_connection_id_retires [OF m']
    by (simp add: dcid_example_def set_initial_dcid_def mgr_new_def cq_insert_def cq_clear_def cq_new_def
        doubled_capacity_def)
  with m' show ?thesis by blast
qed

text \<open>a repeated NEW\_CONNECTION\_ID frame for a retired ID whose retirement is still queued puts
  the ID back among the usable ones, below the peer's Retire Prior To.\<close>

theorem retired_connection_id_revived:
  assumes "\<not> zero_length_dcid m" and "seq \<in> set (dcids_to_retire m)" and "prior \<le> seq"
    and "seq < largest_peer_retire_prior_to m"
    and "find (\<lambda>e. ci_cid e = c \<or> ci_seq e = seq) (cq_queue (dcids m)) = None"
    and "length (cq_queue (dcids m)) < cq_capacity (dcids m)"
  shows "\<exists>m'. add_dcid c seq token prior m = (Ok [], m')
    \<and> \<lparr>ci_cid = c, ci_seq = seq, ci_reset_token = Some token, ci_path_id = None\<rparr> \<in> set (cq_queue (dcids m'))"
  using assms by (rule add_dcid_revives)

theorem retired_connection_id_revived_witness:
  "let m = (mgr_new 4 [1] 0 None)\<lparr>dcids_to_retire := [0], largest_peer_retire_prior_to := 1\<rparr>
   in \<exists>m'. add_dcid [9] 0 5 0 m = (Ok [], m')
    \<and> \<lparr>ci_cid = [9], ci_seq = 0, ci_reset_token = Some 5, ci_path_id = None\<rparr> \<in> set (cq_queue (dcids m'))"
  unfolding Let_def
  by (rule retired_connection_id_revived)
    (simp_all add: mgr_new_def cq_insert_def cq_new_def doubled_capacity_def)

text \<open>the NEW\_CONNECTION\_ID frame that announces a stored source ID is one the frame encoder is
  meant for, so the peer reads back the same sequence number, ID and reset token.\<close>

theorem announced_connection_id_received:
  assumes "create_new_connection_id_frame seq m = Ok f"
    and "\<forall>c \<in> set (cq_queue (scids m)). length (ci_cid c) \<le> MAX_CID_LEN"
    and "seq \<le> VINT_MAX" and "retire_prior_to m \<le> VINT_MAX"
  shows "\<exists>bs item token. cq_get seq (scids m) = Some item \<and> ci_reset_token item = Some token
    \<and> (\<forall>w. length bs \<le> room w \<longrightarrow> frame_to_bytes f w = Ok (length bs, put_slice bs w))
    \<and> frame_from_bytes (bs @ rest) OneRTT
        = Ok (NewConnectionId seq (retire_prior_to m) (ci_cid item) (be_bytes 16 token), length bs)"
proof -
  from assms(1) obtain item token where i: "cq_get seq (scids m) = Some item" "ci_reset_token item = Some token"
    and f: "f = NewConnectionId seq (retire_prior_to m) (ci_cid item) (be_bytes 16 token)"
    by (auto simp: create_new_connection_id_frame_def bind_r_Ok_iff ok_or_Ok_iff)
  have ok: "frame_ok f" by (rule create_new_connection_id_frame_ok [OF assms])
  have "frame_from_bytes (frame_wire f @ rest) OneRTT = Ok (received f, length (frame_wire f))"
    by (rule frame_from_bytes_wire [OF ok]) (simp_all add: f delimited_def)
  then show ?thesis
    using i emitsD(1) [OF frame_to_bytes_emits [OF ok]] by (auto simp: f intro!: exI [of _ "frame_wire f"])
qed

theorem announced_connection_id_received_witness:
  "\<exists>f bs item token. create_new_connection_id_frame 0 (mgr_new 4 [1] 0 (Some 3)) = Ok f
    \<and> cq_get 0 (scids (mgr_new 4 [1] 0 (Some 3))) = Some item \<and> ci_reset_token item = Some token
    \<and> frame_from_bytes (bs @ [0]) OneRTT = Ok (NewConnectionId 0 0 (ci_cid item) (be_bytes 16 token), length bs)"
proof -
  let ?m = "mgr_new 4 [1] 0 (Some 3)"
  obtain f where f: "create_new_connection_id_frame 0 ?m = Ok f"
    by (simp add: create_new_connection_id_frame_def mgr_new_def cq_insert_def cq_new_def doubled_capacity_def cq_get_def)
  have "retire_prior_to ?m = 0" "\<forall>c \<in> set (cq_queue (scids ?m)). length (ci_cid c) \<le> MAX_CID_LEN"
    by (simp_all add: mgr_new_def cq_insert_def cq_new_def doubled_capacity_def MAX_CID_LEN_def)
  with announced_connection_id_received [OF f, of "[0]"] f show ?thesis by (auto simp: VINT_MAX_def)
qed

end
