(* ===== verification/Token.thy ===== *)
theory Token
  imports Packet
begin

text \<open>
  Address validation tokens and stateless reset tokens (src/token.rs). The AEAD key and the HMAC
  key are parameters: \<open>seal\<close> and \<open>open_aead\<close> take the nonce, the additional data and the text. Times
  are nanoseconds relative to the Unix epoch.
\<close>

subsection \<open>Stateless reset tokens\<close>

definition reset_token_new :: "bytes \<Rightarrow> bytes res" where
  "reset_token_new data =
     (if length data < RESET_TOKEN_LEN then Err BufferTooShort
      else if length data = RESET_TOKEN_LEN then Ok data
      else Panic)"

definition reset_token_generate :: "(bytes \<Rightarrow> bytes) \<Rightarrow> cid \<Rightarrow> bytes res" where
  "reset_token_generate sign c =
     (if length (sign c) < RESET_TOKEN_LEN then Panic else Ok (take RESET_TOKEN_LEN (sign c)))"

definition reset_token_from_bytes :: "bytes \<Rightarrow> bytes res" where
  "reset_token_from_bytes buf =
     (if length buf < MIN_RESET_PACKET_LEN then Err BufferTooShort
      else Ok (drop (length buf - RESET_TOKEN_LEN) buf))"

definition reset_token_to_u128 :: "bytes \<Rightarrow> u128" where
  "reset_token_to_u128 t = be_word t"

definition reset_token_from_u128 :: "u128 \<Rightarrow> bytes" where
  "reset_token_from_u128 v = be_bytes 16 v"

subsection \<open>Address tokens\<close>

datatype address_token_type = RetryToken | ResumeToken

fun token_type_byte :: "address_token_type \<Rightarrow> u8" where
  "token_type_byte RetryToken = 0"
| "token_type_byte ResumeToken = 1"

text \<open>A socket address: the octets of the IP address and the port.\<close>

record socket_addr =
  sa_octets :: bytes
  sa_port :: u16

record address_token =
  at_type :: address_token_type
  at_issued :: int
  at_address :: socket_addr
  at_odcid :: "cid option"
  at_rscid :: "cid option"

definition NONCE_LEN :: nat where "NONCE_LEN = 12"
definition AEAD_TAG_LEN :: nat where "AEAD_TAG_LEN = 16"
definition NANOS_PER_SEC :: int where "NANOS_PER_SEC = 1000000000"

definition new_retry_token :: "int \<Rightarrow> socket_addr \<Rightarrow> cid \<Rightarrow> cid \<Rightarrow> address_token" where
  "new_retry_token now address odcid rscid =
     \<lparr>at_type = RetryToken, at_issued = now, at_address = address, at_odcid = Some odcid,
      at_rscid = Some rscid\<rparr>"

definition new_resume_token :: "int \<Rightarrow> socket_addr \<Rightarrow> address_token" where
  "new_resume_token now address =
     \<lparr>at_type = ResumeToken, at_issued = now, at_address = address, at_odcid = None, at_rscid = None\<rparr>"

definition max_token_len :: nat where
  "max_token_len = 4 + 1 + NONCE_LEN + 8 + 21 + AEAD_TAG_LEN"

definition issue_time :: "address_token \<Rightarrow> u64 res" where
  "issue_time t =
     (if at_issued t < 0 then Err InternalError
      else Ok (word_of_int (at_issued t div NANOS_PER_SEC)))"

definition additional_data :: "address_token_type \<Rightarrow> socket_addr \<Rightarrow> cid option \<Rightarrow> bytes res" where
  "additional_data token_type address rscid =
     bind_r
       (write_seq
          (write_bytes (sa_octets address) #
           (if token_type = RetryToken then
              [write_u16 (sa_port address),
               \<lambda>w. case rscid of Some r \<Rightarrow> write_bytes r w | None \<Rightarrow> Err InternalError]
            else []))
          (new_wbuf (16 + 2 + 20)))
       (\<lambda>w. Ok (written w))"

definition token_label :: bytes where
  "token_label = [0x71, 0x75, 0x69, 0x63]"

text \<open>\<open>encode\<close>: a clear header (label, type, nonce) and a sealed body (time, original cid).\<close>

definition token_encode ::
  "(bytes \<Rightarrow> bytes \<Rightarrow> bytes \<Rightarrow> bytes option) \<Rightarrow> bytes \<Rightarrow> address_token \<Rightarrow> bytes res" where
  "token_encode seal nonce t =
     bind_r (write_seq [write_bytes token_label, write_u8 (token_type_byte (at_type t)), write_bytes nonce]
               (new_wbuf max_token_len)) (\<lambda>hdr.
     bind_r (issue_time t) (\<lambda>seconds.
     bind_r (write_seq
               (write_u64 seconds #
                (if at_type t = RetryToken then
                   [\<lambda>w. case at_odcid t of
                        Some odcid \<Rightarrow> write_all [write_u8 (word_of_nat (length odcid)), write_bytes odcid] w
                      | None \<Rightarrow> Err InternalError]
                 else []))
               (new_wbuf (room hdr))) (\<lambda>body.
     bind_r (additional_data (at_type t) (at_address t) (at_rscid t)) (\<lambda>aad.
     case seal nonce aad (written body) of
       Some sealed \<Rightarrow> Ok (written hdr @ sealed)
     | None \<Rightarrow> Err InternalError))))"

definition read_token_type :: "(address_token_type, error) reader" where
  "read_token_type b =
     bind_r (read_u8 b) (\<lambda>(t, b).
     if t = 0 then Ok (RetryToken, b)
     else if t = 1 then Ok (ResumeToken, b)
     else Err InvalidToken)"

text \<open>\<open>issued.elapsed()\<close> fails for a time after \<open>now\<close>; the system clock counts seconds in an
  \<open>i64\<close>.\<close>

definition check_issued :: "int \<Rightarrow> int \<Rightarrow> u64 \<Rightarrow> int res" where
  "check_issued now lifetime seconds =
     (if 2 ^ 63 \<le> unat seconds then Err InvalidToken
      else let issued = int (unat seconds) * NANOS_PER_SEC in
        if issued \<le> now then
          if lifetime < now - issued then Err InvalidToken else Ok issued
        else Err InvalidToken)"

definition read_odcid :: "address_token_type \<Rightarrow> cid \<Rightarrow> bytes \<Rightarrow> cid option res" where
  "read_odcid token_type pkt_dcid b =
     (if token_type = RetryToken then
        bind_r (read_u8 b) (\<lambda>(cid_len, b).
        if cid_len = 0 then Ok None
        else if cid_len \<le> 20 then
          bind_r (read_bytes (unat cid_len) b) (\<lambda>(c, b). Ok (Some (cid_new c)))
        else Err InvalidToken)
      else Ok (Some pkt_dcid))"

text \<open>\<open>open_in_place\<close> decrypts the body where it is: the text is followed by the bytes of the tag.\<close>

definition token_decode ::
  "(bytes \<Rightarrow> bytes \<Rightarrow> bytes \<Rightarrow> bytes option) \<Rightarrow> int \<Rightarrow> bytes \<Rightarrow> socket_addr \<Rightarrow> cid \<Rightarrow> int
   \<Rightarrow> address_token res" where
  "token_decode open_aead now token address pkt_dcid lifetime =
     bind_r (read_bytes 4 token) (\<lambda>(label, b).
     if label \<noteq> token_label then Err InvalidToken else
     bind_r (read_token_type b) (\<lambda>(token_type, b).
     bind_r (read_bytes NONCE_LEN b) (\<lambda>(nonce, b).
     let rscid = (if token_type = RetryToken then Some pkt_dcid else None) in
     bind_r (additional_data token_type address rscid) (\<lambda>aad.
     case open_aead nonce aad b of
       None \<Rightarrow> Err InvalidToken
     | Some plain \<Rightarrow>
         let b = plain @ drop (length plain) b in
         bind_r (read_u64 b) (\<lambda>(seconds, b).
         bind_r (check_issued now lifetime seconds) (\<lambda>issued.
         bind_r (read_odcid token_type pkt_dcid b) (\<lambda>odcid.
         Ok \<lparr>at_type = token_type, at_issued = issued, at_address = address, at_odcid = odcid,
             at_rscid = rscid\<rparr>)))))))"

definition token_type_of :: "bytes \<Rightarrow> address_token_type res" where
  "token_type_of token =
     (if length token < 5 then Err InvalidToken
      else if token ! 4 = 0 then Ok RetryToken
      else if token ! 4 = 1 then Ok ResumeToken
      else Err InvalidToken)"

subsection \<open>Stateless reset tokens round trip\<close>

lemma reset_token_u128:
  "reset_token_to_u128 (reset_token_from_u128 v) = v"
  "length t = RESET_TOKEN_LEN \<Longrightarrow> reset_token_from_u128 (reset_token_to_u128 t) = t"
  using be_bytes_be_word [of t, where ?'a = 128]
  by (simp_all add: reset_token_to_u128_def reset_token_from_u128_def be_word_be_bytes take_bit_all
      RESET_TOKEN_LEN_def)

lemma reset_token_received:
  assumes "stateless_reset rnd pkt_len token out_len = Ok (n, pkt)" and "pkt_len \<le> length rnd"
  shows "reset_token_from_bytes pkt = Ok token"
proof -
  from assms(1) have "MIN_RESET_PACKET_LEN \<le> pkt_len" by (auto simp: stateless_reset_def split: if_splits)
  with stateless_reset_format [OF assms] show ?thesis by (simp add: reset_token_from_bytes_def)
qed

subsection \<open>Address tokens round trip\<close>

definition addr_ok :: "socket_addr \<Rightarrow> bool" where
  "addr_ok a \<longleftrightarrow> length (sa_octets a) = 4 \<or> length (sa_octets a) = 16"

definition aad_bytes :: "address_token_type \<Rightarrow> socket_addr \<Rightarrow> cid option \<Rightarrow> bytes" where
  "aad_bytes ty a rscid = sa_octets a @
     (case (ty, rscid) of (RetryToken, Some r) \<Rightarrow> be_bytes 2 (sa_port a) @ r | _ \<Rightarrow> [])"

lemma additional_data_eq:
  assumes "addr_ok a" and "ty = RetryToken \<Longrightarrow> \<exists>r. rscid = Some r \<and> length r \<le> MAX_CID_LEN"
  shows "additional_data ty a rscid = Ok (aad_bytes ty a rscid)"
proof (cases ty)
  case RetryToken
  then obtain r where r: "rscid = Some r" "length r \<le> MAX_CID_LEN" using assms(2) by auto
  have "write_seq [write_bytes (sa_octets a), write_u16 (sa_port a), write_bytes r] (new_wbuf (16 + 2 + 20))
     = Ok (put_slice (concat [sa_octets a, be_bytes 2 (sa_port a), r]) (new_wbuf (16 + 2 + 20)))"
    using assms(1) r
    by (subst write_seq_emits [where e = BufferTooShort and bss = "[sa_octets a, be_bytes 2 (sa_port a), r]"])
      (auto simp: emit_rules addr_ok_def new_wbuf_def MAX_CID_LEN_def simp del: be_bytes.simps)
  then show ?thesis
    using RetryToken r(1) by (simp add: additional_data_def aad_bytes_def new_wbuf_def del: write_seq.simps)
next
  case ResumeToken
  then show ?thesis
    using assms(1)
    by (auto simp: additional_data_def aad_bytes_def addr_ok_def write_bytes_def new_wbuf_def)
qed

text \<open>The text that is sealed, and the whole token.\<close>

definition token_body :: "u64 \<Rightarrow> cid option \<Rightarrow> address_token_type \<Rightarrow> bytes" where
  "token_body seconds odcid ty = be_bytes 8 seconds @
     (case (ty, odcid) of (RetryToken, Some c) \<Rightarrow> be_bytes 1 (word_of_nat (length c) :: u8) @ c | _ \<Rightarrow> [])"

text \<open>The tokens the server issues, of both types, with an address of either family and a time after the epoch.\<close>

definition token_ok :: "address_token \<Rightarrow> bool" where
  "token_ok t \<longleftrightarrow> addr_ok (at_address t) \<and> 0 \<le> at_issued t \<and> at_issued t < 2 ^ 63 * NANOS_PER_SEC \<and>
     (at_type t = RetryToken \<longrightarrow> (\<exists>c r. at_odcid t = Some c \<and> length c \<le> MAX_CID_LEN
        \<and> at_rscid t = Some r \<and> length r \<le> MAX_CID_LEN))"

lemma write_body:
  assumes "token_ok t"
  shows "write_seq (write_u64 s #
       (if at_type t = RetryToken then
          [\<lambda>w. case at_odcid t of
               Some odcid \<Rightarrow> write_all [write_u8 (word_of_nat (length odcid)), write_bytes odcid] w
             | None \<Rightarrow> Err InternalError]
        else [])) (new_wbuf 45) = Ok (put_slice (token_body s (at_odcid t) (at_type t)) (new_wbuf 45))"
proof (cases "at_type t")
  case RetryToken
  then obtain c where c: "at_odcid t = Some c" "length c \<le> 20"
    using assms by (auto simp: token_ok_def MAX_CID_LEN_def)
  have "emits BufferTooShort (write_all [write_u8 (word_of_nat (length c)), write_bytes c])
      (concat [be_bytes 1 (word_of_nat (length c) :: u8), c])"
    by (intro emits_write_all) (simp add: emit_rules del: be_bytes.simps One_nat_def)
  then have "list_all2 (emits BufferTooShort)
      [write_u64 s, write_all [write_u8 (word_of_nat (length c)), write_bytes c]]
      [be_bytes 8 s, be_bytes 1 (word_of_nat (length c) :: u8) @ c]"
    by (simp add: emit_rules del: be_bytes.simps One_nat_def)
  from write_seq_emits [OF this, of "new_wbuf 45"] show ?thesis
    using RetryToken c by (simp add: token_body_def new_wbuf_def cong: option.case_cong)
next
  case ResumeToken
  then show ?thesis
    using write_seq_emits [of BufferTooShort "[write_u64 s]" "[be_bytes 8 s]" "new_wbuf 45"]
    by (simp add: token_body_def emit_rules new_wbuf_def del: be_bytes.simps)
qed

lemma token_encode_eq:
  assumes "token_ok t" and "length nonce = NONCE_LEN"
  defines "s \<equiv> word_of_int (at_issued t div NANOS_PER_SEC)"
  shows "token_encode seal nonce t =
    (case seal nonce (aad_bytes (at_type t) (at_address t) (at_rscid t)) (token_body s (at_odcid t) (at_type t)) of
       Some sealed \<Rightarrow> Ok (token_label @ be_bytes 1 (token_type_byte (at_type t)) @ nonce @ sealed)
     | None \<Rightarrow> Err InternalError)"
proof -
  let ?ty = "token_type_byte (at_type t)"
  have "list_all2 (emits BufferTooShort) [write_bytes token_label, write_u8 ?ty, write_bytes nonce]
      [token_label, be_bytes 1 ?ty, nonce]"
    by (simp add: emit_rules del: be_bytes.simps One_nat_def)
  from write_seq_emits [OF this, of "new_wbuf max_token_len"]
  have hdr: "write_seq [write_bytes token_label, write_u8 ?ty, write_bytes nonce] (new_wbuf max_token_len) =
      Ok (put_slice (token_label @ be_bytes 1 ?ty @ nonce) (new_wbuf max_token_len))"
    using assms(2) by (simp add: new_wbuf_def max_token_len_def NONCE_LEN_def AEAD_TAG_LEN_def token_label_def)
  have room: "room (put_slice (token_label @ be_bytes 1 ?ty @ nonce) (new_wbuf max_token_len)) = 45"
    using assms(2) by (simp add: new_wbuf_def max_token_len_def NONCE_LEN_def AEAD_TAG_LEN_def token_label_def)
  have aad: "additional_data (at_type t) (at_address t) (at_rscid t) =
      Ok (aad_bytes (at_type t) (at_address t) (at_rscid t))"
    using assms(1) by (intro additional_data_eq) (auto simp: token_ok_def)
  have time: "issue_time t = Ok s" using assms(1) by (simp add: issue_time_def token_ok_def s_def)
  show ?thesis
    unfolding token_encode_def hdr bind_r.simps time room write_body [OF assms(1)] aad
    by (simp add: new_wbuf_def split: option.split)
qed

text \<open>The original connection ID that the server gets back: that of the Retry token, none if it was empty; for a
  resumption token the destination connection ID of the packet.\<close>

definition token_odcid :: "address_token \<Rightarrow> cid \<Rightarrow> cid option" where
  "token_odcid t pkt_dcid =
     (if at_type t = RetryToken then if at_odcid t = Some [] then None else at_odcid t else Some pkt_dcid)"

lemma token_roundtrip:
  assumes aead: "\<And>n a p c. seal n a p = Some c \<Longrightarrow> open_aead n a c = Some p"
    and ok: "token_ok t" and n: "length nonce = NONCE_LEN"
    and enc: "token_encode seal nonce t = Ok token"
    and dcid: "at_type t = RetryToken \<Longrightarrow> at_rscid t = Some pkt_dcid"
    and fresh: "at_issued t \<le> now" "now - (at_issued t div NANOS_PER_SEC) * NANOS_PER_SEC \<le> lifetime"
  shows "token_decode open_aead now token (at_address t) pkt_dcid lifetime =
    Ok \<lparr>at_type = at_type t, at_issued = (at_issued t div NANOS_PER_SEC) * NANOS_PER_SEC, at_address = at_address t,
        at_odcid = token_odcid t pkt_dcid, at_rscid = (if at_type t = RetryToken then Some pkt_dcid else None)\<rparr>"
proof -
  let ?ty = "at_type t" and ?a = "at_address t"
  define q where "q = at_issued t div NANOS_PER_SEC"
  define s :: u64 where "s = word_of_int q"
  have q: "0 \<le> q" "q < 2 ^ 63" "q * NANOS_PER_SEC \<le> at_issued t"
    using ok by (auto simp: q_def token_ok_def NANOS_PER_SEC_def)
  have "s = as_u64 (nat q)" using q(1) by (simp add: s_def)
  then have "unat s = nat q" using q(2) by (simp add: unat_of_nat_u64)
  then have us: "int (unat s) = q" "unat s < 2 ^ 63" using q(1,2) by simp_all
  obtain sealed where sealed: "seal nonce (aad_bytes ?ty ?a (at_rscid t)) (token_body s (at_odcid t) ?ty) = Some sealed"
    and token: "token = token_label @ be_bytes 1 (token_type_byte ?ty) @ nonce @ sealed"
    using enc by (auto simp: token_encode_eq [OF ok n] s_def q_def split: option.splits)
  note op = aead [OF sealed]
  define rscid where "rscid = (if ?ty = RetryToken then Some pkt_dcid else None)"
  have aad: "additional_data ?ty ?a rscid = Ok (aad_bytes ?ty ?a (at_rscid t))"
    using ok dcid by (subst additional_data_eq; cases ?ty) (auto simp: token_ok_def rscid_def aad_bytes_def)
  have ty: "read_token_type (be_bytes 1 (token_type_byte ?ty) @ r) = Ok (?ty, r)" for r
    by (cases ?ty) (simp_all add: read_token_type_def parse_simps del: be_bytes.simps One_nat_def)
  have issued: "check_issued now lifetime s = Ok (q * NANOS_PER_SEC)"
    using us q fresh by (simp add: check_issued_def q_def)
  have odcid: "read_odcid ?ty pkt_dcid (drop 8 (token_body s (at_odcid t) ?ty) @ r) =
      Ok (token_odcid t pkt_dcid)" for r
  proof (cases ?ty)
    case RetryToken
    then obtain c where c: "at_odcid t = Some c" "length c \<le> MAX_CID_LEN"
      using ok by (auto simp: token_ok_def)
    have "unat (word_of_nat (length c) :: u8) = length c" using c(2) by (rule unat_cid_len)
    moreover from this have "(word_of_nat (length c) :: u8) = 0 \<longleftrightarrow> c = []" "(word_of_nat (length c) :: u8) \<le> 20"
      using c(2) by (auto simp: word_le_nat_alt MAX_CID_LEN_def unat_eq_0 [symmetric])
    ultimately show ?thesis
      using RetryToken c
      by (simp add: read_odcid_def token_body_def token_odcid_def parse_simps del: be_bytes.simps One_nat_def)
  qed (simp add: read_odcid_def token_odcid_def)
  have body: "read_u64 (token_body s (at_odcid t) ?ty @ r) = Ok (s, drop 8 (token_body s (at_odcid t) ?ty) @ r)" for r
    by (simp add: token_body_def parse_simps del: be_bytes.simps)
  have lab: "length token_label = 4" by (simp add: token_label_def)
  show ?thesis
    unfolding token token_decode_def
    using n lab
    by (simp add: parse_simps ty rscid_def [symmetric] aad op body issued odcid q_def [symmetric] Let_def
        del: be_bytes.simps One_nat_def)
qed

text \<open>A token sealed for one address is refused from another of the same family.\<close>

lemma aad_bytes_inj:
  assumes "aad_bytes ty a r = aad_bytes ty b r'" and "length (sa_octets a) = length (sa_octets b)"
  shows "sa_octets a = sa_octets b"
    and "ty = RetryToken \<Longrightarrow> r = Some x \<Longrightarrow> r' = Some y \<Longrightarrow> sa_port a = sa_port b \<and> x = y"
proof -
  show "sa_octets a = sa_octets b" using assms by (auto simp: aad_bytes_def)
  assume "ty = RetryToken" "r = Some x" "r' = Some y"
  then have "be_bytes 2 (sa_port a) @ x = be_bytes 2 (sa_port b) @ y"
    using assms by (simp add: aad_bytes_def)
  then show "sa_port a = sa_port b \<and> x = y" by (rule u16.prefix_free [OF TrueI TrueI])
qed

lemma token_wrong_address:
  assumes forge: "\<And>n a b p c. seal n a p = Some c \<Longrightarrow> b \<noteq> a \<Longrightarrow> open_aead n b c = None"
    and ok: "token_ok t" and n: "length nonce = NONCE_LEN"
    and enc: "token_encode seal nonce t = Ok token"
    and addr: "addr_ok b" "length (sa_octets b) = length (sa_octets (at_address t))"
      "sa_octets b \<noteq> sa_octets (at_address t)" and "length pkt_dcid \<le> MAX_CID_LEN"
  shows "token_decode open_aead now token b pkt_dcid lifetime = Err InvalidToken"
proof -
  let ?ty = "at_type t"
  obtain p sealed where sealed: "seal nonce (aad_bytes ?ty (at_address t) (at_rscid t)) p = Some sealed"
    and token: "token = token_label @ be_bytes 1 (token_type_byte ?ty) @ nonce @ sealed"
    using enc by (auto simp: token_encode_eq [OF ok n] split: option.splits)
  define rscid where "rscid = (if ?ty = RetryToken then Some pkt_dcid else None)"
  have "aad_bytes ?ty b rscid \<noteq> aad_bytes ?ty (at_address t) (at_rscid t)"
    using addr(2,3) aad_bytes_inj(1) by metis
  then have op: "open_aead nonce (aad_bytes ?ty b rscid) sealed = None" by (rule forge [OF sealed])
  have aad: "additional_data ?ty b rscid = Ok (aad_bytes ?ty b rscid)"
    using addr(1) assms(8) by (intro additional_data_eq) (auto simp: rscid_def)
  have ty: "read_token_type (be_bytes 1 (token_type_byte ?ty) @ r) = Ok (?ty, r)" for r
    by (cases ?ty) (simp_all add: read_token_type_def parse_simps del: be_bytes.simps One_nat_def)
  have lab: "length token_label = 4" by (simp add: token_label_def)
  show ?thesis
    unfolding token token_decode_def
    using n lab
    by (simp add: parse_simps ty rscid_def [symmetric] aad op del: be_bytes.simps One_nat_def)
qed

subsection \<open>Properties\<close>

text \<open>C37: an address token that the server issued, of either type, is accepted from the same address within its
  lifetime, for any AEAD whose opening inverts its sealing. A Retry token has to come with the connection ID that
  the Retry packet announced, and gives back the original connection ID that it was issued for, or none if that
  was empty; a resumption token is not bound to a connection ID, and the destination connection ID of the packet
  takes that place. The type and the address are given back; the time of issue is kept to the second.\<close>

theorem address_token_accepted:
  assumes "\<forall>n a p c. seal n a p = Some c \<longrightarrow> open_aead n a c = Some p"
    and "token_ok t" and "length nonce = NONCE_LEN" and "token_encode seal nonce t = Ok token"
    and "at_type t = RetryToken \<longrightarrow> at_rscid t = Some pkt_dcid"
    and "at_issued t \<le> now" and "now - (at_issued t div NANOS_PER_SEC) * NANOS_PER_SEC \<le> lifetime"
  shows "token_decode open_aead now token (at_address t) pkt_dcid lifetime =
    Ok \<lparr>at_type = at_type t, at_issued = (at_issued t div NANOS_PER_SEC) * NANOS_PER_SEC, at_address = at_address t,
        at_odcid = (if at_type t = ResumeToken then Some pkt_dcid else if at_odcid t = Some [] then None else at_odcid t),
        at_rscid = (if at_type t = RetryToken then Some pkt_dcid else None)\<rparr>"
proof -
  have aead: "seal n a p = Some c \<Longrightarrow> open_aead n a c = Some p" for n a p c using assms(1) by blast
  have "token_odcid t pkt_dcid =
      (if at_type t = ResumeToken then Some pkt_dcid else if at_odcid t = Some [] then None else at_odcid t)"
    by (cases "at_type t") (simp_all add: token_odcid_def)
  with token_roundtrip [OF aead assms(2-4)] assms(5-7) show ?thesis by simp
qed

theorem address_token_accepted_witness:
  "let seal = (\<lambda>n a p. Some (a @ p)); open_aead = (\<lambda>n a c. if take (length a) c = a then Some (drop (length a) c) else None);
       a = \<lparr>sa_octets = [127, 0, 0, 1], sa_port = 443\<rparr>
   in (\<exists>token. token_encode seal (replicate 12 0) (new_retry_token 5000000000 a [1, 2] [3]) = Ok token
        \<and> token_decode open_aead 6000000000 token a [3] 1000000000 = Ok (new_retry_token 5000000000 a [1, 2] [3]))
    \<and> (\<exists>token. token_encode seal (replicate 12 0) (new_resume_token 5000000000 a) = Ok token
        \<and> token_decode open_aead 6000000000 token a [3] 1000000000 =
            Ok ((new_resume_token 5000000000 a)\<lparr>at_odcid := Some [3]\<rparr>))"
proof -
  define seal :: "bytes \<Rightarrow> bytes \<Rightarrow> bytes \<Rightarrow> bytes option" where "seal = (\<lambda>n a p. Some (a @ p))"
  define open_aead :: "bytes \<Rightarrow> bytes \<Rightarrow> bytes \<Rightarrow> bytes option" where
    "open_aead = (\<lambda>n a c. if take (length a) c = a then Some (drop (length a) c) else None)"
  define a where "a = \<lparr>sa_octets = [127, 0, 0, 1], sa_port = 443\<rparr>"
  define t where "t = new_retry_token 5000000000 a [1, 2] [3]"
  define u where "u = new_resume_token 5000000000 a"
  have ok: "token_ok t" "token_ok u"
    by (simp_all add: t_def u_def a_def token_ok_def new_retry_token_def new_resume_token_def addr_ok_def MAX_CID_LEN_def NANOS_PER_SEC_def)
  have n: "length (replicate 12 0 :: bytes) = NONCE_LEN" by (simp add: NONCE_LEN_def)
  obtain x where x: "token_encode seal (replicate 12 0) t = Ok x"
    by (simp add: token_encode_eq [OF ok(1) n] seal_def)
  obtain y where y: "token_encode seal (replicate 12 0) u = Ok y"
    by (simp add: token_encode_eq [OF ok(2) n] seal_def)
  have aead: "\<forall>n a p c. seal n a p = Some c \<longrightarrow> open_aead n a c = Some p" by (simp add: seal_def open_aead_def)
  have "token_decode open_aead 6000000000 x a [3] 1000000000 = Ok t"
    using address_token_accepted [OF aead ok(1) n x, of "[3]" 6000000000 1000000000]
    by (simp add: t_def new_retry_token_def NANOS_PER_SEC_def)
  moreover have "token_decode open_aead 6000000000 y a [3] 1000000000 = Ok (u\<lparr>at_odcid := Some [3]\<rparr>)"
    using address_token_accepted [OF aead ok(2) n y, of "[3]" 6000000000 1000000000]
    by (simp add: u_def new_resume_token_def NANOS_PER_SEC_def)
  ultimately show ?thesis using x y unfolding Let_def seal_def open_aead_def t_def u_def a_def by blast
qed

text \<open>C38: an address token is bound to the client's IP address: from another address of the same
  family it is refused, for any AEAD that rejects a changed associated text.\<close>

theorem address_token_bound:
  assumes "\<forall>n a b p c. seal n a p = Some c \<longrightarrow> b \<noteq> a \<longrightarrow> open_aead n b c = None"
    and "token_ok t" and "length nonce = NONCE_LEN" and "token_encode seal nonce t = Ok token"
    and "addr_ok b" and "length (sa_octets b) = length (sa_octets (at_address t))"
    and "sa_octets b \<noteq> sa_octets (at_address t)" and "length pkt_dcid \<le> MAX_CID_LEN"
  shows "token_decode open_aead now token b pkt_dcid lifetime = Err InvalidToken"
  by (rule token_wrong_address [OF _ assms(2-8)]) (use assms(1) in blast)

theorem address_token_bound_witness:
  "let seal = (\<lambda>n a p. if a = [127, 0, 0, 1] then Some p else None);
       open_aead = (\<lambda>n a c. if a = [127, 0, 0, 1] then Some c else None);
       t = new_resume_token 5000000000 \<lparr>sa_octets = [127, 0, 0, 1], sa_port = 443\<rparr>
   in \<exists>token. token_encode seal (replicate 12 0) t = Ok token
      \<and> token_decode open_aead 6000000000 token \<lparr>sa_octets = [127, 0, 0, 2], sa_port = 443\<rparr> [3] 1000000000
          = Err InvalidToken"
proof -
  define seal :: "bytes \<Rightarrow> bytes \<Rightarrow> bytes \<Rightarrow> bytes option" where
    "seal = (\<lambda>n a p. if a = [127, 0, 0, 1] then Some p else None)"
  define open_aead :: "bytes \<Rightarrow> bytes \<Rightarrow> bytes \<Rightarrow> bytes option" where
    "open_aead = (\<lambda>n a c. if a = [127, 0, 0, 1] then Some c else None)"
  define t where "t = new_resume_token 5000000000 \<lparr>sa_octets = [127, 0, 0, 1], sa_port = 443\<rparr>"
  have ok: "token_ok t" by (simp add: t_def token_ok_def new_resume_token_def addr_ok_def NANOS_PER_SEC_def)
  have n: "length (replicate 12 0 :: bytes) = NONCE_LEN" by (simp add: NONCE_LEN_def)
  have "aad_bytes (at_type t) (at_address t) (at_rscid t) = [127, 0, 0, 1]"
    by (simp add: t_def new_resume_token_def aad_bytes_def)
  then obtain token where e: "token_encode seal (replicate 12 0) t = Ok token"
    by (simp add: token_encode_eq [OF ok n] seal_def)
  have "token_decode open_aead 6000000000 token \<lparr>sa_octets = [127, 0, 0, 2], sa_port = 443\<rparr> [3] 1000000000
      = Err InvalidToken"
    by (rule address_token_bound [OF _ ok n e])
      (simp_all add: seal_def open_aead_def t_def new_resume_token_def addr_ok_def MAX_CID_LEN_def)
  with e show ?thesis unfolding Let_def seal_def open_aead_def t_def by blast
qed

text \<open>A stateless reset looks like a short header packet, and the receiver finds in it the token
  that was derived from the connection ID, also after the detour over an integer.\<close>

theorem stateless_reset_recognised:
  assumes "reset_token_generate sign c = Ok token"
    and "stateless_reset rnd pkt_len token out_len = Ok (n, pkt)" and "pkt_len \<le> length rnd"
  shows "n = pkt_len \<and> length pkt = pkt_len \<and> pkt ! 0 AND 0xc0 = HEADER_FIXED_BIT
    \<and> reset_token_from_bytes pkt = Ok token \<and> reset_token_from_u128 (reset_token_to_u128 token) = token"
proof -
  have "length token = RESET_TOKEN_LEN"
    using assms(1) by (auto simp: reset_token_generate_def split: if_splits)
  then show ?thesis
    using stateless_reset_format [OF assms(2,3)] reset_token_received [OF assms(2,3)] reset_token_u128(2) by blast
qed

theorem stateless_reset_recognised_witness:
  "\<exists>n pkt. stateless_reset (replicate 40 255) 30 (replicate 16 7) 100 = Ok (n, pkt)
    \<and> reset_token_from_bytes pkt = Ok (replicate 16 7) \<and> length pkt = 30"
proof -
  have g: "reset_token_generate (\<lambda>_. replicate 32 7) [1] = Ok (replicate 16 7)"
    by (simp add: reset_token_generate_def RESET_TOKEN_LEN_def)
  obtain n pkt where r: "stateless_reset (replicate 40 255) 30 (replicate 16 7) 100 = Ok (n, pkt)"
    by (simp add: stateless_reset_def RESET_TOKEN_LEN_def MIN_RESET_PACKET_LEN_def write_bytes_def Let_def
        del: replicate.simps)
  from stateless_reset_recognised [OF g r] r show ?thesis by auto
qed

end
