(* ===== verification/Trans_Param.thy ===== *)
theory Trans_Param
  imports Token
begin

text \<open>
  Transport parameters (src/trans_param.rs): the parameter record, its encoder and decoder, and the
  server's preferred address. Socket addresses are those of \<open>Token\<close>: octets and port.

  The decoder reads a sequence of parameters, refuses repeated ones and checks each value, so that
  whatever it accepts satisfies \<open>tp_valid\<close>. What the peer reads from an encoding is \<open>tp_received\<close>:
  the parameters themselves, but for those that the encoder leaves out.
\<close>

subsection \<open>Preferred address\<close>

record preferred_address =
  pa_ipv4 :: "socket_addr option"
  pa_ipv6 :: "socket_addr option"
  pa_cid :: cid
  pa_token :: bytes

definition pa_wire_len :: "preferred_address \<Rightarrow> nat" where
  "pa_wire_len p = 4 + 2 + 16 + 2 + 1 + length (pa_cid p) + 16"

definition pa_to_bytes :: "preferred_address \<Rightarrow> error writer" where
  "pa_to_bytes p =
     write_all
       ((case pa_ipv4 p of
           Some a \<Rightarrow> [write_bytes (sa_octets a), write_u16 (sa_port a)]
         | None \<Rightarrow> [write_bytes (replicate 4 0), write_u16 0]) @
        (case pa_ipv6 p of
           Some a \<Rightarrow> [write_bytes (sa_octets a), write_u16 (sa_port a)]
         | None \<Rightarrow> [write_bytes (replicate 16 0), write_u16 0]) @
        [write_u8 (word_of_nat (length (pa_cid p))), write_bytes (pa_cid p), write_bytes (pa_token p)])"

definition is_unspecified :: "bytes \<Rightarrow> bool" where
  "is_unspecified octets \<longleftrightarrow> list_all (\<lambda>x. x = 0) octets"

definition opt_addr :: "bytes \<Rightarrow> u16 \<Rightarrow> socket_addr option" where
  "opt_addr octets port =
     (if is_unspecified octets \<and> port = 0 then None else Some \<lparr>sa_octets = octets, sa_port = port\<rparr>)"

definition pa_from_bytes :: "bytes \<Rightarrow> (preferred_address \<times> nat) res" where
  "pa_from_bytes buf =
     bind_r (read_ipv4_addr buf) (\<lambda>(ipv4_addr, b).
     bind_r (read_u16 b) (\<lambda>(ipv4_port, b).
     bind_r (read_ipv6_addr b) (\<lambda>(ipv6_addr, b).
     bind_r (read_u16 b) (\<lambda>(ipv6_port, b).
     bind_r (read_u8 b) (\<lambda>(cid_len, b).
     bind_r (read_bytes (unat cid_len) b) (\<lambda>(c, b).
     bind_r (read_bytes RESET_TOKEN_LEN b) (\<lambda>(token, b).
     bind_r (reset_token_new token) (\<lambda>token.
     Ok (\<lparr>pa_ipv4 = opt_addr ipv4_addr ipv4_port, pa_ipv6 = opt_addr ipv6_addr ipv6_port,
          pa_cid = cid_new c, pa_token = token\<rparr>, length buf - length b)))))))))"

subsection \<open>The parameters\<close>

record transport_params =
  original_destination_connection_id :: "cid option"
  max_idle_timeout :: u64
  stateless_reset_token :: "u128 option"
  max_udp_payload_size :: u64
  initial_max_data :: u64
  initial_max_stream_data_bidi_local :: u64
  initial_max_stream_data_bidi_remote :: u64
  initial_max_stream_data_uni :: u64
  initial_max_streams_bidi :: u64
  initial_max_streams_uni :: u64
  ack_delay_exponent :: u64
  max_ack_delay :: u64
  disable_active_migration :: bool
  preferred_address :: "preferred_address option"
  active_conn_id_limit :: u64
  initial_source_connection_id :: "cid option"
  retry_source_connection_id :: "cid option"
  enable_multipath :: bool
  disable_encryption :: bool

definition tp_default :: transport_params where
  "tp_default =
     \<lparr>original_destination_connection_id = None, max_idle_timeout = 0, stateless_reset_token = None,
      max_udp_payload_size = 65527, initial_max_data = 0, initial_max_stream_data_bidi_local = 0,
      initial_max_stream_data_bidi_remote = 0, initial_max_stream_data_uni = 0,
      initial_max_streams_bidi = 0, initial_max_streams_uni = 0, ack_delay_exponent = 3,
      max_ack_delay = 25, disable_active_migration = False, preferred_address = None,
      active_conn_id_limit = 2, initial_source_connection_id = None,
      retry_source_connection_id = None, enable_multipath = False, disable_encryption = False\<rparr>"

definition MAX_STREAMS_PER_TYPE :: u64 where
  "MAX_STREAMS_PER_TYPE = push_bit 60 1"

text \<open>The match on the parameter id: reads one value into the record. The branches for integers
  share the read of the value; the surplus of a value is ignored.\<close>

definition int_value :: "bytes \<Rightarrow> u64 res" where
  "int_value val = bind_r (read_varint val) (\<lambda>(x, _). Ok x)"

definition decode_param :: "bool \<Rightarrow> u64 \<Rightarrow> bytes \<Rightarrow> transport_params \<Rightarrow> transport_params res" where
  "decode_param is_server i val tp =
     (if i = 0x0000 then
        if is_server then Err TransportParameterError
        else Ok (tp\<lparr>original_destination_connection_id := Some (cid_new val)\<rparr>)
      else if i = 0x0001 then bind_r (int_value val) (\<lambda>x. Ok (tp\<lparr>max_idle_timeout := x\<rparr>))
      else if i = 0x0002 then
        if is_server then Err TransportParameterError
        else bind_r (read_bytes 16 val) (\<lambda>(t, _).
          Ok (tp\<lparr>stateless_reset_token := Some (be_word t)\<rparr>))
      else if i = 0x0003 then
        bind_r (int_value val) (\<lambda>x.
        if x < 1200 then Err TransportParameterError else Ok (tp\<lparr>max_udp_payload_size := x\<rparr>))
      else if i = 0x0004 then bind_r (int_value val) (\<lambda>x. Ok (tp\<lparr>initial_max_data := x\<rparr>))
      else if i = 0x0005 then
        bind_r (int_value val) (\<lambda>x. Ok (tp\<lparr>initial_max_stream_data_bidi_local := x\<rparr>))
      else if i = 0x0006 then
        bind_r (int_value val) (\<lambda>x. Ok (tp\<lparr>initial_max_stream_data_bidi_remote := x\<rparr>))
      else if i = 0x0007 then
        bind_r (int_value val) (\<lambda>x. Ok (tp\<lparr>initial_max_stream_data_uni := x\<rparr>))
      else if i = 0x0008 then
        bind_r (int_value val) (\<lambda>m.
        if MAX_STREAMS_PER_TYPE < m then Err TransportParameterError
        else Ok (tp\<lparr>initial_max_streams_bidi := m\<rparr>))
      else if i = 0x0009 then
        bind_r (int_value val) (\<lambda>m.
        if MAX_STREAMS_PER_TYPE < m then Err TransportParameterError
        else Ok (tp\<lparr>initial_max_streams_uni := m\<rparr>))
      else if i = 0x000a then
        bind_r (int_value val) (\<lambda>x.
        if 20 < x then Err TransportParameterError else Ok (tp\<lparr>ack_delay_exponent := x\<rparr>))
      else if i = 0x000b then
        bind_r (int_value val) (\<lambda>x.
        if 2 ^ 14 \<le> x then Err TransportParameterError else Ok (tp\<lparr>max_ack_delay := x\<rparr>))
      else if i = 0x000c then Ok (tp\<lparr>disable_active_migration := True\<rparr>)
      else if i = 0x000d then
        if is_server then Err TransportParameterError
        else bind_r (pa_from_bytes val) (\<lambda>(p, _). Ok (tp\<lparr>preferred_address := Some p\<rparr>))
      else if i = 0x000e then
        bind_r (int_value val) (\<lambda>x.
        if x < 2 then Err TransportParameterError else Ok (tp\<lparr>active_conn_id_limit := x\<rparr>))
      else if i = 0x000f then Ok (tp\<lparr>initial_source_connection_id := Some (cid_new val)\<rparr>)
      else if i = 0x0010 then
        if is_server then Err TransportParameterError
        else Ok (tp\<lparr>retry_source_connection_id := Some (cid_new val)\<rparr>)
      else if i = 0x0f739bbc1b666d05 then Ok (tp\<lparr>enable_multipath := True\<rparr>)
      else if i = 0xbaad then Ok (tp\<lparr>disable_encryption := True\<rparr>)
      else Ok tp)"

text \<open>The loop over the buffer, with the ids seen so far.\<close>

function decode_params ::
  "bool \<Rightarrow> u64 set \<Rightarrow> transport_params \<Rightarrow> bytes \<Rightarrow> (transport_params \<times> bytes) res" where
  "decode_params is_server found tp buf =
     (if buf = [] then Ok (tp, buf)
      else
        case read_varint buf of
          Err e \<Rightarrow> Err e
        | Panic \<Rightarrow> Panic
        | Ok (i, b) \<Rightarrow>
            if i \<in> found then Err TransportParameterError
            else
              case read_with_varint_length b of
                Err e \<Rightarrow> Err e
              | Panic \<Rightarrow> Panic
              | Ok (val, b) \<Rightarrow>
                  bind_r (decode_param is_server i val tp)
                    (\<lambda>tp. decode_params is_server (insert i found) tp b))"
  by pat_completeness auto
termination
proof (relation "measure (\<lambda>(_, _, _, buf). length buf)", goal_cases)
  case 1
  then show ?case by simp
next
  case (2 is_server found tp buf p i b q val b' tp')
  then have "length b < length buf" using read_varint_Ok_len by blast
  moreover have "length b' \<le> length b"
    using 2 consumes_length [OF read_with_varint_length_consumes] by blast
  ultimately show ?case by simp
qed

declare decode_params.simps [simp del]

definition tp_decode :: "bytes \<Rightarrow> bool \<Rightarrow> (transport_params \<times> nat) res" where
  "tp_decode buf is_server =
     bind_r (decode_params is_server {} tp_default buf) (\<lambda>(tp, b). Ok (tp, length buf - length b))"

subsection \<open>Encoding\<close>

text \<open>The three shapes of a parameter: an integer, a byte string, an empty value.\<close>

definition int_param :: "u64 \<Rightarrow> u64 \<Rightarrow> error writer list" where
  "int_param i x =
     [write_varint i, \<lambda>w. bind_r (encode_varint_len x) (\<lambda>n. write_varint (as_u64 n) w), write_varint x]"

definition bytes_param :: "u64 \<Rightarrow> bytes \<Rightarrow> error writer list" where
  "bytes_param i bs = [write_varint i, write_varint (as_u64 (length bs)), write_bytes bs]"

definition flag_param :: "u64 \<Rightarrow> error writer list" where
  "flag_param i = [write_varint i, write_varint 0]"

definition tp_writers :: "transport_params \<Rightarrow> bool \<Rightarrow> error writer list list" where
  "tp_writers tp is_server =
     [if is_server then (case original_destination_connection_id tp of
          Some odcid \<Rightarrow> bytes_param 0x0000 odcid | None \<Rightarrow> []) else [],
      if max_idle_timeout tp \<noteq> 0 then int_param 0x0001 (max_idle_timeout tp) else [],
      if is_server then (case stateless_reset_token tp of
          Some token \<Rightarrow> [write_varint 0x0002, write_varint 16, write_bytes (be_bytes 16 token)]
        | None \<Rightarrow> []) else [],
      if max_udp_payload_size tp \<noteq> 0 then int_param 0x0003 (max_udp_payload_size tp) else [],
      if initial_max_data tp \<noteq> 0 then int_param 0x0004 (initial_max_data tp) else [],
      if initial_max_stream_data_bidi_local tp \<noteq> 0
        then int_param 0x0005 (initial_max_stream_data_bidi_local tp) else [],
      if initial_max_stream_data_bidi_remote tp \<noteq> 0
        then int_param 0x0006 (initial_max_stream_data_bidi_remote tp) else [],
      if initial_max_stream_data_uni tp \<noteq> 0
        then int_param 0x0007 (initial_max_stream_data_uni tp) else [],
      if initial_max_streams_bidi tp \<noteq> 0 then int_param 0x0008 (initial_max_streams_bidi tp) else [],
      if initial_max_streams_uni tp \<noteq> 0 then int_param 0x0009 (initial_max_streams_uni tp) else [],
      if ack_delay_exponent tp \<noteq> 0 then int_param 0x000a (ack_delay_exponent tp) else [],
      if max_ack_delay tp \<noteq> 0 then int_param 0x000b (max_ack_delay tp) else [],
      if disable_active_migration tp then flag_param 0x000c else [],
      case preferred_address tp of
        Some p \<Rightarrow> [write_varint 0x000d, write_varint (as_u64 (pa_wire_len p)), pa_to_bytes p]
      | None \<Rightarrow> [],
      if 2 \<le> active_conn_id_limit tp then int_param 0x000e (active_conn_id_limit tp) else [],
      case initial_source_connection_id tp of Some scid \<Rightarrow> bytes_param 0x000f scid | None \<Rightarrow> [],
      if is_server then (case retry_source_connection_id tp of
          Some scid \<Rightarrow> bytes_param 0x0010 scid | None \<Rightarrow> []) else [],
      if enable_multipath tp then flag_param 0x0f739bbc1b666d05 else [],
      if disable_encryption tp then flag_param 0xbaad else []]"

definition tp_encode :: "transport_params \<Rightarrow> bool \<Rightarrow> error writer" where
  "tp_encode tp is_server = write_all (concat (tp_writers tp is_server))"

subsection \<open>Preferred address round trip\<close>

definition pa_ok :: "preferred_address \<Rightarrow> bool" where
  "pa_ok p \<longleftrightarrow> (\<forall>a. pa_ipv4 p = Some a \<longrightarrow> length (sa_octets a) = 4 \<and> opt_addr (sa_octets a) (sa_port a) = Some a)
     \<and> (\<forall>a. pa_ipv6 p = Some a \<longrightarrow> length (sa_octets a) = 16 \<and> opt_addr (sa_octets a) (sa_port a) = Some a)
     \<and> length (pa_cid p) \<le> MAX_CID_LEN \<and> length (pa_token p) = RESET_TOKEN_LEN"

definition addr_bytes :: "nat \<Rightarrow> socket_addr option \<Rightarrow> bytes" where
  "addr_bytes n a = (case a of
       Some a \<Rightarrow> sa_octets a @ be_bytes 2 (sa_port a)
     | None \<Rightarrow> replicate n 0 @ be_bytes 2 (0 :: u16))"

definition pa_bytes :: "preferred_address \<Rightarrow> bytes" where
  "pa_bytes p = addr_bytes 4 (pa_ipv4 p) @ addr_bytes 16 (pa_ipv6 p)
     @ be_bytes 1 (word_of_nat (length (pa_cid p)) :: u8) @ pa_cid p @ pa_token p"

lemma pa_to_bytes_emits: "emits BufferTooShort (pa_to_bytes p) (pa_bytes p)"
proof -
  have "list_all2 (emits BufferTooShort)
      ((case pa_ipv4 p of Some a \<Rightarrow> [write_bytes (sa_octets a), write_u16 (sa_port a)]
        | None \<Rightarrow> [write_bytes (replicate 4 0), write_u16 0]) @
       (case pa_ipv6 p of Some a \<Rightarrow> [write_bytes (sa_octets a), write_u16 (sa_port a)]
        | None \<Rightarrow> [write_bytes (replicate 16 0), write_u16 0]) @
       [write_u8 (word_of_nat (length (pa_cid p))), write_bytes (pa_cid p), write_bytes (pa_token p)])
      ((case pa_ipv4 p of Some a \<Rightarrow> [sa_octets a, be_bytes 2 (sa_port a)]
        | None \<Rightarrow> [replicate 4 0, be_bytes 2 (0 :: u16)]) @
       (case pa_ipv6 p of Some a \<Rightarrow> [sa_octets a, be_bytes 2 (sa_port a)]
        | None \<Rightarrow> [replicate 16 0, be_bytes 2 (0 :: u16)]) @
       [be_bytes 1 (word_of_nat (length (pa_cid p)) :: u8), pa_cid p, pa_token p])"
    by (intro list_all2_appendI; auto simp: emit_rules simp del: be_bytes.simps One_nat_def replicate.simps
        split: option.splits)
  from emits_write_all [OF this] show ?thesis
    by (auto simp: pa_to_bytes_def pa_bytes_def addr_bytes_def split: option.splits)
qed

lemma length_pa_bytes: "pa_ok p \<Longrightarrow> length (pa_bytes p) = pa_wire_len p"
  by (auto simp: pa_ok_def pa_bytes_def pa_wire_len_def addr_bytes_def RESET_TOKEN_LEN_def split: option.splits)

lemma opt_addr_unspecified: "opt_addr (replicate n 0) 0 = None"
  by (simp add: opt_addr_def is_unspecified_def list_all_length)

lemma addr_bytes_split:
  assumes "\<forall>a. x = Some a \<longrightarrow> length (sa_octets a) = n \<and> opt_addr (sa_octets a) (sa_port a) = Some a"
  obtains octets port where "addr_bytes n x = octets @ be_bytes 2 port" and "length octets = n"
    and "opt_addr octets port = x"
  using assms opt_addr_unspecified [of n]
  by (cases x) (auto simp: addr_bytes_def)

lemma pa_from_bytes_wire:
  assumes "pa_ok p"
  shows "pa_from_bytes (pa_bytes p @ r) = Ok (p, length (pa_bytes p))"
proof -
  obtain o4 p4 where a4: "addr_bytes 4 (pa_ipv4 p) = o4 @ be_bytes 2 p4" "length o4 = 4" "opt_addr o4 p4 = pa_ipv4 p"
    using assms by (auto simp: pa_ok_def intro: addr_bytes_split)
  obtain o6 p6 where a6: "addr_bytes 16 (pa_ipv6 p) = o6 @ be_bytes 2 p6" "length o6 = 16" "opt_addr o6 p6 = pa_ipv6 p"
    using assms by (auto simp: pa_ok_def intro: addr_bytes_split)
  have c: "length (pa_cid p) \<le> MAX_CID_LEN" "length (pa_token p) = RESET_TOKEN_LEN"
    using assms by (simp_all add: pa_ok_def)
  have w: "pa_bytes p = o4 @ be_bytes 2 p4 @ o6 @ be_bytes 2 p6
      @ be_bytes 1 (word_of_nat (length (pa_cid p)) :: u8) @ pa_cid p @ pa_token p"
    by (simp add: pa_bytes_def a4(1) a6(1))
  show ?thesis
    unfolding w pa_from_bytes_def
    using a4(2,3) a6(2,3) c ipv4.dec_wire ipv6.dec_wire
    by (simp add: parse_simps unat_cid_len reset_token_new_def del: be_bytes.simps One_nat_def)
qed

subsection \<open>The encoding as a table\<close>

text \<open>One row per parameter, in the order of the encoder: whether it is sent, its id, its value.\<close>

type_synonym row = "bool \<times> u64 \<times> bytes"

definition bytes_of :: "bytes option \<Rightarrow> bytes" where
  "bytes_of x = (case x of Some bs \<Rightarrow> bs | None \<Rightarrow> [])"

definition tp_rows :: "transport_params \<Rightarrow> bool \<Rightarrow> row list" where
  "tp_rows tp srv =
     [(srv \<and> original_destination_connection_id tp \<noteq> None, 0x0000, bytes_of (original_destination_connection_id tp)),
      (max_idle_timeout tp \<noteq> 0, 0x0001, varint_bytes (max_idle_timeout tp)),
      (srv \<and> stateless_reset_token tp \<noteq> None, 0x0002, bytes_of (map_option (be_bytes 16) (stateless_reset_token tp))),
      (max_udp_payload_size tp \<noteq> 0, 0x0003, varint_bytes (max_udp_payload_size tp)),
      (initial_max_data tp \<noteq> 0, 0x0004, varint_bytes (initial_max_data tp)),
      (initial_max_stream_data_bidi_local tp \<noteq> 0, 0x0005, varint_bytes (initial_max_stream_data_bidi_local tp)),
      (initial_max_stream_data_bidi_remote tp \<noteq> 0, 0x0006, varint_bytes (initial_max_stream_data_bidi_remote tp)),
      (initial_max_stream_data_uni tp \<noteq> 0, 0x0007, varint_bytes (initial_max_stream_data_uni tp)),
      (initial_max_streams_bidi tp \<noteq> 0, 0x0008, varint_bytes (initial_max_streams_bidi tp)),
      (initial_max_streams_uni tp \<noteq> 0, 0x0009, varint_bytes (initial_max_streams_uni tp)),
      (ack_delay_exponent tp \<noteq> 0, 0x000a, varint_bytes (ack_delay_exponent tp)),
      (max_ack_delay tp \<noteq> 0, 0x000b, varint_bytes (max_ack_delay tp)),
      (disable_active_migration tp, 0x000c, []),
      (preferred_address tp \<noteq> None, 0x000d, bytes_of (map_option pa_bytes (preferred_address tp))),
      (2 \<le> active_conn_id_limit tp, 0x000e, varint_bytes (active_conn_id_limit tp)),
      (initial_source_connection_id tp \<noteq> None, 0x000f, bytes_of (initial_source_connection_id tp)),
      (srv \<and> retry_source_connection_id tp \<noteq> None, 0x0010, bytes_of (retry_source_connection_id tp)),
      (enable_multipath tp, 0x0f739bbc1b666d05, []),
      (disable_encryption tp, 0xbaad, [])]"

fun row_bytes :: "row \<Rightarrow> bytes" where
  "row_bytes (p, i, v) = (if p then varint_bytes i @ varint_bytes (as_u64 (length v)) @ v else [])"

definition tp_wire :: "transport_params \<Rightarrow> bool \<Rightarrow> bytes" where
  "tp_wire tp srv = concat (map row_bytes (tp_rows tp srv))"

definition tp_ok :: "transport_params \<Rightarrow> bool" where
  "tp_ok tp \<longleftrightarrow>
     (\<forall>c. original_destination_connection_id tp = Some c \<longrightarrow> length c \<le> MAX_CID_LEN)
   \<and> max_idle_timeout tp \<le> VINT_MAX
   \<and> 1200 \<le> max_udp_payload_size tp \<and> max_udp_payload_size tp \<le> VINT_MAX
   \<and> initial_max_data tp \<le> VINT_MAX
   \<and> initial_max_stream_data_bidi_local tp \<le> VINT_MAX
   \<and> initial_max_stream_data_bidi_remote tp \<le> VINT_MAX
   \<and> initial_max_stream_data_uni tp \<le> VINT_MAX
   \<and> initial_max_streams_bidi tp \<le> MAX_STREAMS_PER_TYPE
   \<and> initial_max_streams_uni tp \<le> MAX_STREAMS_PER_TYPE
   \<and> ack_delay_exponent tp \<le> 20 \<and> max_ack_delay tp < 2 ^ 14
   \<and> (\<forall>p. preferred_address tp = Some p \<longrightarrow> pa_ok p)
   \<and> 2 \<le> active_conn_id_limit tp \<and> active_conn_id_limit tp \<le> VINT_MAX
   \<and> (\<forall>c. initial_source_connection_id tp = Some c \<longrightarrow> length c \<le> MAX_CID_LEN)
   \<and> (\<forall>c. retry_source_connection_id tp = Some c \<longrightarrow> length c \<le> MAX_CID_LEN)"

lemma int_param_emits:
  assumes "i \<le> VINT_MAX" and "x \<le> VINT_MAX"
  shows "emits BufferTooShort (write_all (int_param i x)) (row_bytes (True, i, varint_bytes x))"
proof -
  have l: "as_u64 (length (varint_bytes x)) \<le> VINT_MAX"
    by (rule small_len_varint) (simp add: varint_bytes_def)
  have "(\<lambda>w. bind_r (encode_varint_len x) (\<lambda>n. write_varint (as_u64 n) w)) =
      write_varint (as_u64 (length (varint_bytes x)))"
    by (simp add: length_varint_bytes [OF assms(2)])
  then show ?thesis
    unfolding int_param_def using assms l
    by (intro emits_write_list [where bss = "[varint_bytes i, varint_bytes (as_u64 (length (varint_bytes x))), varint_bytes x]"])
      (simp_all add: emit_rules)
qed

lemma bytes_param_emits:
  assumes "i \<le> VINT_MAX" and "length bs < 2 ^ 62"
  shows "emits BufferTooShort (write_all (bytes_param i bs)) (row_bytes (True, i, bs))"
  unfolding bytes_param_def using assms small_len_varint [OF assms(2)]
  by (intro emits_write_list [where bss = "[varint_bytes i, varint_bytes (as_u64 (length bs)), bs]"])
    (simp_all add: emit_rules)

lemma flag_param_emits:
  assumes "i \<le> VINT_MAX"
  shows "emits BufferTooShort (write_all (flag_param i)) (row_bytes (True, i, []))"
  unfolding flag_param_def using assms
  by (intro emits_write_list [where bss = "[varint_bytes i, varint_bytes 0]"])
    (simp_all add: emit_rules VINT_MAX_def)

lemma pa_param_emits:
  assumes "pa_ok p"
  shows "emits BufferTooShort (write_all [write_varint 0x000d, write_varint (as_u64 (pa_wire_len p)), pa_to_bytes p])
    (row_bytes (True, 0x000d, pa_bytes p))"
proof -
  have "pa_wire_len p < 2 ^ 62" using assms by (simp add: pa_ok_def pa_wire_len_def MAX_CID_LEN_def)
  then have "as_u64 (pa_wire_len p) \<le> VINT_MAX" by (rule small_len_varint)
  then show ?thesis
    using pa_to_bytes_emits [of p] length_pa_bytes [OF assms]
    by (intro emits_write_list [where bss = "[varint_bytes 0x000d, varint_bytes (as_u64 (pa_wire_len p)), pa_bytes p]"])
      (simp_all add: emit_rules VINT_MAX_def)
qed

lemma token_param_emits:
  "emits BufferTooShort (write_all [write_varint 0x0002, write_varint 16, write_bytes (be_bytes 16 token)])
    (row_bytes (True, 0x0002, be_bytes 16 token))"
  by (intro emits_write_list [where bss = "[varint_bytes 0x0002, varint_bytes 16, be_bytes 16 token]"])
    (simp_all add: emit_rules VINT_MAX_def del: be_bytes.simps)

lemma row_bytes_False: "row_bytes (False, i, v) = []"
  by simp

lemma opt_cid_len:
  "(\<forall>c. x = Some c \<longrightarrow> length c \<le> MAX_CID_LEN) \<Longrightarrow> x = Some c \<Longrightarrow> length c < 2 ^ 62"
  by (auto simp: MAX_CID_LEN_def)

lemma streams_varint: "x \<le> MAX_STREAMS_PER_TYPE \<Longrightarrow> x \<le> VINT_MAX"
  by (simp add: MAX_STREAMS_PER_TYPE_def VINT_MAX_def word_le_nat_alt)

lemma tp_ok_varints:
  assumes "tp_ok tp"
  shows "initial_max_streams_bidi tp \<le> VINT_MAX" and "initial_max_streams_uni tp \<le> VINT_MAX"
    and "ack_delay_exponent tp \<le> VINT_MAX" and "max_ack_delay tp \<le> VINT_MAX"
  using assms
  by (simp_all add: tp_ok_def streams_varint) (simp_all add: VINT_MAX_def word_le_nat_alt word_less_nat_alt)

lemma tp_writers_emit:
  assumes "tp_ok tp"
  shows "list_all2 (\<lambda>ws bs. emits BufferTooShort (write_all ws) bs) (tp_writers tp srv)
    (map row_bytes (tp_rows tp srv))"
proof -
  note [simp del] = row_bytes.simps be_bytes.simps
  note rules = emits_none int_param_emits bytes_param_emits flag_param_emits pa_param_emits token_param_emits
  show ?thesis
    unfolding tp_writers_def tp_rows_def list.map list_all2_Cons list_all2_Nil
    using assms tp_ok_varints [OF assms]
    by (intro conjI TrueI)
      (auto simp: tp_ok_def row_bytes_False bytes_of_def small_varint [simplified] VINT_MAX_def MAX_CID_LEN_def
        intro!: rules split: option.splits)
qed


lemma tp_encode_emits:
  assumes "tp_ok tp"
  shows "emits BufferTooShort (tp_encode tp srv) (tp_wire tp srv)"
  using emits_concat [OF tp_writers_emit [OF assms]] by (simp add: tp_encode_def tp_wire_def)

subsection \<open>The decoder on the table\<close>

fun fold_rows :: "bool \<Rightarrow> row list \<Rightarrow> transport_params \<Rightarrow> transport_params res" where
  "fold_rows srv [] tp = Ok tp"
| "fold_rows srv ((p, i, v) # rows) tp =
     bind_r (if p then decode_param srv i v tp else Ok tp) (fold_rows srv rows)"

definition row_ok :: "row \<Rightarrow> bool" where
  "row_ok r \<longleftrightarrow> fst (snd r) \<le> VINT_MAX \<and> length (snd (snd r)) < 2 ^ 62"

definition sent_ids :: "row list \<Rightarrow> u64 set" where
  "sent_ids rows = {i. \<exists>v. (True, i, v) \<in> set rows}"

lemma decode_params_rows:
  assumes "\<forall>r \<in> set rows. row_ok r" and "distinct (map (\<lambda>r. fst (snd r)) rows)"
    and "\<forall>r \<in> set rows. fst (snd r) \<notin> found"
  shows "decode_params srv found tp (concat (map row_bytes rows) @ b) =
    bind_r (fold_rows srv rows tp) (\<lambda>tp. decode_params srv (found \<union> sent_ids rows) tp b)"
  using assms
proof (induction rows arbitrary: found tp)
  case Nil
  then show ?case by (simp add: sent_ids_def)
next
  case (Cons r rows)
  obtain p i v where r: "r = (p, i, v)" by (cases r)
  have ok: "i \<le> VINT_MAX" "length v < 2 ^ 62" "i \<notin> found"
    using Cons.prems by (auto simp: r row_ok_def)
  show ?case
  proof (cases p)
    case False
    then have "sent_ids (r # rows) = sent_ids rows" by (auto simp: r sent_ids_def)
    then show ?thesis using False Cons by (simp add: r)
  next
    case True
    have ne: "varint_bytes i \<noteq> []"
      using varint.dec_wire [OF ok(1), of "[]"] by (auto simp: read_varint_def)
    define rest where "rest = concat (map row_bytes rows) @ b"
    have "sent_ids (r # rows) = insert i (sent_ids rows)" using True by (auto simp: r sent_ids_def)
    then have "decode_params srv (insert i found) tp' rest =
        bind_r (fold_rows srv rows tp') (\<lambda>tp. decode_params srv (found \<union> sent_ids (r # rows)) tp b)" for tp'
      unfolding rest_def using Cons.prems by (subst Cons.IH) (auto simp: r)
    then show ?thesis
      using True ok ne
      by (subst decode_params.simps)
        (simp add: r rest_def [symmetric] parse_simps bind_r_assoc del: be_bytes.simps)
  qed
qed

lemma int_value_wire: "x \<le> VINT_MAX \<Longrightarrow> int_value (varint_bytes x) = Ok x"
  using varint.dec_wire [of x "[]"] by (simp add: int_value_def)

text \<open>Each row sets its field, or leaves it.\<close>

lemma int_rows:
  "x \<le> VINT_MAX \<Longrightarrow> bind_r (if x \<noteq> 0 then decode_param srv 1 (varint_bytes x) t else Ok t) k =
     k (t\<lparr>max_idle_timeout := (if x \<noteq> 0 then x else max_idle_timeout t)\<rparr>)"
  "x \<le> VINT_MAX \<Longrightarrow> bind_r (if x \<noteq> 0 then decode_param srv 4 (varint_bytes x) t else Ok t) k =
     k (t\<lparr>initial_max_data := (if x \<noteq> 0 then x else initial_max_data t)\<rparr>)"
  "x \<le> VINT_MAX \<Longrightarrow> bind_r (if x \<noteq> 0 then decode_param srv 5 (varint_bytes x) t else Ok t) k =
     k (t\<lparr>initial_max_stream_data_bidi_local := (if x \<noteq> 0 then x else initial_max_stream_data_bidi_local t)\<rparr>)"
  "x \<le> VINT_MAX \<Longrightarrow> bind_r (if x \<noteq> 0 then decode_param srv 6 (varint_bytes x) t else Ok t) k =
     k (t\<lparr>initial_max_stream_data_bidi_remote := (if x \<noteq> 0 then x else initial_max_stream_data_bidi_remote t)\<rparr>)"
  "x \<le> VINT_MAX \<Longrightarrow> bind_r (if x \<noteq> 0 then decode_param srv 7 (varint_bytes x) t else Ok t) k =
     k (t\<lparr>initial_max_stream_data_uni := (if x \<noteq> 0 then x else initial_max_stream_data_uni t)\<rparr>)"
  "1200 \<le> x \<Longrightarrow> x \<le> VINT_MAX \<Longrightarrow>
     bind_r (if x \<noteq> 0 then decode_param srv 3 (varint_bytes x) t else Ok t) k =
     k (t\<lparr>max_udp_payload_size := (if x \<noteq> 0 then x else max_udp_payload_size t)\<rparr>)"
  "x \<le> MAX_STREAMS_PER_TYPE \<Longrightarrow> x \<le> VINT_MAX \<Longrightarrow>
     bind_r (if x \<noteq> 0 then decode_param srv 8 (varint_bytes x) t else Ok t) k =
     k (t\<lparr>initial_max_streams_bidi := (if x \<noteq> 0 then x else initial_max_streams_bidi t)\<rparr>)"
  "x \<le> MAX_STREAMS_PER_TYPE \<Longrightarrow> x \<le> VINT_MAX \<Longrightarrow>
     bind_r (if x \<noteq> 0 then decode_param srv 9 (varint_bytes x) t else Ok t) k =
     k (t\<lparr>initial_max_streams_uni := (if x \<noteq> 0 then x else initial_max_streams_uni t)\<rparr>)"
  "x \<le> 20 \<Longrightarrow> x \<le> VINT_MAX \<Longrightarrow>
     bind_r (if x \<noteq> 0 then decode_param srv 0x0a (varint_bytes x) t else Ok t) k =
     k (t\<lparr>ack_delay_exponent := (if x \<noteq> 0 then x else ack_delay_exponent t)\<rparr>)"
  "x < 2 ^ 14 \<Longrightarrow> x \<le> VINT_MAX \<Longrightarrow>
     bind_r (if x \<noteq> 0 then decode_param srv 0x0b (varint_bytes x) t else Ok t) k =
     k (t\<lparr>max_ack_delay := (if x \<noteq> 0 then x else max_ack_delay t)\<rparr>)"
  "x \<le> VINT_MAX \<Longrightarrow> bind_r (if 2 \<le> x then decode_param srv 0x0e (varint_bytes x) t else Ok t) k =
     k (t\<lparr>active_conn_id_limit := (if 2 \<le> x then x else active_conn_id_limit t)\<rparr>)"
  by (auto simp: decode_param_def int_value_wire not_less not_le)

lemma flag_rows:
  "bind_r (if b then decode_param srv 0x0c [] t else Ok t) k =
     k (t\<lparr>disable_active_migration := (b \<or> disable_active_migration t)\<rparr>)"
  "bind_r (if b then decode_param srv 0x0f739bbc1b666d05 [] t else Ok t) k =
     k (t\<lparr>enable_multipath := (b \<or> enable_multipath t)\<rparr>)"
  "bind_r (if b then decode_param srv 0xbaad [] t else Ok t) k =
     k (t\<lparr>disable_encryption := (b \<or> disable_encryption t)\<rparr>)"
  by (auto simp: decode_param_def intro: arg_cong [where f = k])

definition short_cid :: "cid option \<Rightarrow> bool" where
  "short_cid x \<longleftrightarrow> (\<forall>c. x = Some c \<longrightarrow> length c \<le> MAX_CID_LEN)"

lemma cid_rows:
  "short_cid x \<Longrightarrow> bind_r (if srv \<and> x \<noteq> None then decode_param (\<not> srv) 0 (bytes_of x) t else Ok t) k =
     k (t\<lparr>original_destination_connection_id := (if srv \<and> x \<noteq> None then x else original_destination_connection_id t)\<rparr>)"
  "short_cid x \<Longrightarrow> bind_r (if srv \<and> x \<noteq> None then decode_param (\<not> srv) 0x10 (bytes_of x) t else Ok t) k =
     k (t\<lparr>retry_source_connection_id := (if srv \<and> x \<noteq> None then x else retry_source_connection_id t)\<rparr>)"
  "short_cid x \<Longrightarrow> bind_r (if x \<noteq> None then decode_param srv' 0x0f (bytes_of x) t else Ok t) k =
     k (t\<lparr>initial_source_connection_id := (if x \<noteq> None then x else initial_source_connection_id t)\<rparr>)"
  by (auto simp: decode_param_def short_cid_def bytes_of_def split: option.splits)

lemma token_row:
  "bind_r (if srv \<and> x \<noteq> None then decode_param (\<not> srv) 2 (bytes_of (map_option (be_bytes 16) x)) t else Ok t) k =
     k (t\<lparr>stateless_reset_token := (if srv \<and> x \<noteq> None then x else stateless_reset_token t)\<rparr>)"
proof (cases x)
  case (Some v)
  have "read_bytes 16 (be_bytes 16 v) = Ok (be_bytes 16 v, [])"
    using read_bytes_append [of "be_bytes 16 v" 16 "[]"] by simp
  then show ?thesis
    using Some by (simp add: decode_param_def bytes_of_def be_word_be_bytes take_bit_all del: be_bytes.simps)
qed simp

lemma preferred_row:
  assumes "\<forall>p. x = Some p \<longrightarrow> srv \<and> pa_ok p"
  shows "bind_r (if x \<noteq> None then decode_param (\<not> srv) 0x0d (bytes_of (map_option pa_bytes x)) t else Ok t) k =
     k (t\<lparr>preferred_address := (if x \<noteq> None then x else preferred_address t)\<rparr>)"
proof (cases x)
  case (Some p)
  with assms pa_from_bytes_wire [of p "[]"] have "pa_from_bytes (pa_bytes p) = Ok (p, length (pa_bytes p))" "srv"
    by auto
  then show ?thesis using Some by (simp add: decode_param_def bytes_of_def)
qed simp

text \<open>What the peer reads: the server-only parameters of a client are not sent, and a zero
  \<open>ack_delay_exponent\<close> or \<open>max_ack_delay\<close> is left out, which the peer takes for the default.\<close>

definition tp_received :: "transport_params \<Rightarrow> bool \<Rightarrow> transport_params" where
  "tp_received tp srv =
     (let tp = tp\<lparr>ack_delay_exponent := (if ack_delay_exponent tp = 0 then 3 else ack_delay_exponent tp),
                  max_ack_delay := (if max_ack_delay tp = 0 then 25 else max_ack_delay tp)\<rparr>
      in if srv then tp
         else tp\<lparr>original_destination_connection_id := None, stateless_reset_token := None,
                 retry_source_connection_id := None\<rparr>)"

lemma fold_tp_rows:
  assumes "tp_ok tp" and "srv \<or> preferred_address tp = None"
  shows "fold_rows (\<not> srv) (tp_rows tp srv) tp_default = Ok (tp_received tp srv)"
proof -
  have cids: "short_cid (original_destination_connection_id tp)" "short_cid (initial_source_connection_id tp)"
    "short_cid (retry_source_connection_id tp)" "\<forall>p. preferred_address tp = Some p \<longrightarrow> srv \<and> pa_ok p"
    using assms by (auto simp: tp_ok_def short_cid_def)
  have ints: "max_idle_timeout tp \<le> VINT_MAX" "1200 \<le> max_udp_payload_size tp" "max_udp_payload_size tp \<le> VINT_MAX"
    "initial_max_data tp \<le> VINT_MAX" "initial_max_stream_data_bidi_local tp \<le> VINT_MAX"
    "initial_max_stream_data_bidi_remote tp \<le> VINT_MAX" "initial_max_stream_data_uni tp \<le> VINT_MAX"
    "initial_max_streams_bidi tp \<le> MAX_STREAMS_PER_TYPE" "initial_max_streams_uni tp \<le> MAX_STREAMS_PER_TYPE"
    "ack_delay_exponent tp \<le> 20" "max_ack_delay tp < 2 ^ 14" "2 \<le> active_conn_id_limit tp"
    "active_conn_id_limit tp \<le> VINT_MAX"
    using assms(1) by (simp_all only: tp_ok_def)
  have nz: "max_udp_payload_size tp \<noteq> 0" using ints(2) by auto
  have if_neq: "(if x \<noteq> a then y else z) = (if x = a then z else y)" "(if x = a then a else x) = x"
    for x a :: 'x and y z :: 'y by simp_all
  have "fold_rows (\<not> srv) (tp_rows tp srv) tp_default =
    Ok \<lparr>original_destination_connection_id =
          (if srv \<and> original_destination_connection_id tp \<noteq> None then original_destination_connection_id tp else None),
        max_idle_timeout = max_idle_timeout tp,
        stateless_reset_token = (if srv \<and> stateless_reset_token tp \<noteq> None then stateless_reset_token tp else None),
        max_udp_payload_size = max_udp_payload_size tp, initial_max_data = initial_max_data tp,
        initial_max_stream_data_bidi_local = initial_max_stream_data_bidi_local tp,
        initial_max_stream_data_bidi_remote = initial_max_stream_data_bidi_remote tp,
        initial_max_stream_data_uni = initial_max_stream_data_uni tp,
        initial_max_streams_bidi = initial_max_streams_bidi tp, initial_max_streams_uni = initial_max_streams_uni tp,
        ack_delay_exponent = (if ack_delay_exponent tp = 0 then 3 else ack_delay_exponent tp),
        max_ack_delay = (if max_ack_delay tp = 0 then 25 else max_ack_delay tp),
        disable_active_migration = disable_active_migration tp, preferred_address = preferred_address tp,
        active_conn_id_limit = active_conn_id_limit tp, initial_source_connection_id = initial_source_connection_id tp,
        retry_source_connection_id =
          (if srv \<and> retry_source_connection_id tp \<noteq> None then retry_source_connection_id tp else None),
        enable_multipath = enable_multipath tp, disable_encryption = disable_encryption tp\<rparr>"
    apply (simp only: tp_rows_def tp_default_def fold_rows.simps transport_params.simps
        int_rows flag_rows cid_rows token_row preferred_row [OF cids(4)] cids(1-3) ints(1-11,13) tp_ok_varints [OF assms(1)])
    apply (simp only: if_neq nz ints(12) if_True if_False simp_thms)
    done
  then show ?thesis
    by (cases srv; cases tp) (auto simp: tp_received_def Let_def)
qed

lemma tp_rows_ok:
  assumes "tp_ok tp"
  shows "\<forall>r \<in> set (tp_rows tp srv). row_ok r" and "distinct (map (\<lambda>r. fst (snd r)) (tp_rows tp srv))"
proof -
  have v: "length (varint_bytes x) < 2 ^ 62" for x by (simp add: varint_bytes_def)
  have c: "length (bytes_of x) < 2 ^ 62" if "short_cid x" for x
    using that by (auto simp: short_cid_def bytes_of_def MAX_CID_LEN_def split: option.splits)
  have cids: "short_cid (original_destination_connection_id tp)" "short_cid (initial_source_connection_id tp)"
    "short_cid (retry_source_connection_id tp)"
    using assms by (auto simp: tp_ok_def short_cid_def)
  have t: "length (bytes_of (map_option (be_bytes 16) x)) < 2 ^ 62" for x :: "u128 option"
    by (cases x) (simp_all add: bytes_of_def)
  have p: "length (bytes_of (map_option pa_bytes (preferred_address tp))) < 2 ^ 62"
    using assms by (cases "preferred_address tp")
      (auto simp: tp_ok_def bytes_of_def length_pa_bytes pa_wire_len_def pa_ok_def MAX_CID_LEN_def)
  show "\<forall>r \<in> set (tp_rows tp srv). row_ok r"
    unfolding tp_rows_def list.set row_ok_def
    using v c t p cids by (simp add: small_varint VINT_MAX_def del: map_option_eq_Some)
  show "distinct (map (\<lambda>r. fst (snd r)) (tp_rows tp srv))"
    by (simp add: tp_rows_def)
qed

lemma tp_decode_wire:
  assumes "tp_ok tp" and "srv \<or> preferred_address tp = None"
  shows "tp_decode (tp_wire tp srv) (\<not> srv) = Ok (tp_received tp srv, length (tp_wire tp srv))"
proof -
  have "decode_params (\<not> srv) {} tp_default (tp_wire tp srv) = Ok (tp_received tp srv, [])"
    using decode_params_rows [OF tp_rows_ok [OF assms(1), of srv], of "{}" "\<not> srv" tp_default "[]"]
    by (simp add: fold_tp_rows [OF assms] tp_wire_def decode_params.simps)
  then show ?thesis by (simp add: tp_decode_def)
qed

subsection \<open>Decoding untrusted parameters\<close>

definition tp_valid :: "bool \<Rightarrow> transport_params \<Rightarrow> bool" where
  "tp_valid is_server tp \<longleftrightarrow> 1200 \<le> max_udp_payload_size tp
     \<and> initial_max_streams_bidi tp \<le> MAX_STREAMS_PER_TYPE \<and> initial_max_streams_uni tp \<le> MAX_STREAMS_PER_TYPE
     \<and> ack_delay_exponent tp \<le> 20 \<and> max_ack_delay tp < 2 ^ 14 \<and> 2 \<le> active_conn_id_limit tp
     \<and> (is_server \<longrightarrow> original_destination_connection_id tp = None \<and> stateless_reset_token tp = None
          \<and> preferred_address tp = None \<and> retry_source_connection_id tp = None)"

lemma tp_valid_default: "tp_valid is_server tp_default"
  by (simp add: tp_valid_def tp_default_def MAX_STREAMS_PER_TYPE_def)

lemma decode_param_valid:
  assumes "decode_param is_server i val tp = Ok tp'" and "tp_valid is_server tp"
  shows "tp_valid is_server tp'"
  using assms
  by (simp add: decode_param_def bind_r_Ok_iff split: if_splits)
    (auto simp: tp_valid_def not_less not_le)

lemma decode_params_valid:
  "decode_params is_server found tp buf = Ok (tp', b) \<Longrightarrow> tp_valid is_server tp \<Longrightarrow> tp_valid is_server tp' \<and> b = []"
proof (induction is_server found tp buf rule: decode_params.induct)
  case (1 is_server found tp buf)
  note IH = "1.IH" and prems = "1.prems"
  show ?case
  proof (cases "buf = []")
    case True
    then show ?thesis using prems by (simp add: decode_params.simps)
  next
    case False
    from prems(1) False obtain i b1 x b2 tp1 where
      r: "read_varint buf = Ok (i, b1)" "i \<notin> found" "read_with_varint_length b1 = Ok (x, b2)"
        "decode_param is_server i x tp = Ok tp1"
        "decode_params is_server (insert i found) tp1 b2 = Ok (tp', b)"
      by (subst (asm) decode_params.simps)
        (auto simp: bind_r_Ok_iff split: result.splits if_splits prod.splits)
    then show ?thesis
      using IH [OF False r(1) refl r(2) r(3) refl r(4,5)] decode_param_valid [OF r(4)] prems(2) by blast
  qed
qed

lemma pa_from_bytes_total [no_panic]: "pa_from_bytes b \<noteq> Panic"
  by (auto simp: pa_from_bytes_def bind_r_Panic_iff int_total ipv4.dec_total ipv6.dec_total
      reset_token_new_def read_bytes_def split: if_splits)

lemma decode_param_total [no_panic]: "decode_param is_server i val tp \<noteq> Panic"
  by (auto simp: decode_param_def bind_r_Panic_iff int_value_def read_varint_total pa_from_bytes_total
      split: if_splits)

lemma decode_params_total [no_panic]: "decode_params is_server found tp buf \<noteq> Panic"
proof (induction is_server found tp buf rule: decode_params.induct)
  case (1 is_server found tp buf)
  then show ?case
    by (subst decode_params.simps)
      (auto simp: bind_r_Panic_iff decode_param_total read_varint_total read_with_varint_length_total
        split: result.splits prod.splits)
qed

lemma tp_decode_total: "tp_decode buf is_server \<noteq> Panic"
  by (auto simp: tp_decode_def bind_r_Panic_iff decode_params_total)

lemma tp_decode_valid:
  assumes "tp_decode buf is_server = Ok (tp, n)"
  shows "tp_valid is_server tp" and "n = length buf"
proof -
  from assms obtain b where "decode_params is_server {} tp_default buf = Ok (tp, b)" "n = length buf - length b"
    by (auto simp: tp_decode_def bind_r_Ok_iff)
  with decode_params_valid [OF _ tp_valid_default] show "tp_valid is_server tp" "n = length buf" by fastforce+
qed

text \<open>A repeated parameter is an error, whatever the rest of the buffer.\<close>

lemma tp_decode_duplicate:
  assumes "\<forall>r \<in> set rows. row_ok r" and "distinct (map (\<lambda>r. fst (snd r)) rows)"
    and "(True, i, v) \<in> set rows" and "fold_rows is_server rows tp_default = Ok tp"
  shows "tp_decode (concat (map row_bytes rows) @ varint_bytes i @ rest) is_server = Err TransportParameterError"
proof -
  have i: "i \<in> sent_ids rows" "i \<le> VINT_MAX" using assms(1,3) by (auto simp: sent_ids_def row_ok_def)
  then have ne: "varint_bytes i \<noteq> []"
    using varint.dec_wire [of i "[]"] by (auto simp: read_varint_def)
  have "decode_params is_server (sent_ids rows) tp (varint_bytes i @ rest) = Err TransportParameterError"
    using i ne by (subst decode_params.simps) (simp add: parse_simps)
  then show ?thesis
    using decode_params_rows [OF assms(1,2), of "{}" is_server tp_default "varint_bytes i @ rest"] assms(4)
    by (simp add: tp_decode_def)
qed

subsection \<open>Properties\<close>

text \<open>C39: transport parameters within their documented ranges are encoded whenever they fit, and the
  peer, in the opposite role, decodes \<open>tp_received\<close>: the parameters sent, except that a zero
  \<open>ack_delay_exponent\<close> or \<open>max_ack_delay\<close> is not sent and becomes the default at the peer.\<close>

theorem transport_params_roundtrip:
  assumes "tp_ok tp" and "is_server \<or> preferred_address tp = None" and "length (tp_wire tp is_server) \<le> room w"
  shows "\<exists>bs. tp_encode tp is_server w = Ok (length bs, put_slice bs w)
    \<and> tp_decode bs (\<not> is_server) = Ok (tp_received tp is_server, length bs)"
  using emitsD(1) [OF tp_encode_emits [OF assms(1)] assms(3)] tp_decode_wire [OF assms(1,2)] by blast

theorem transport_params_roundtrip_witness:
  "\<exists>bs. tp_encode (tp_default\<lparr>ack_delay_exponent := 0\<rparr>) False (new_wbuf 1000) = Ok (length bs, put_slice bs (new_wbuf 1000))
    \<and> tp_decode bs True = Ok (tp_default, length bs)"
proof -
  let ?t = "tp_default\<lparr>ack_delay_exponent := 0\<rparr>"
  have ok: "tp_ok ?t"
    by (simp add: tp_ok_def tp_default_def VINT_MAX_def MAX_STREAMS_PER_TYPE_def word_le_nat_alt)
  have len: "length (tp_wire ?t False) \<le> room (new_wbuf 1000)"
    by (simp add: tp_wire_def tp_rows_def tp_default_def new_wbuf_def varint_bytes_def
        bytes_of_def)
  have "tp_received ?t False = tp_default" by (simp add: tp_received_def tp_default_def)
  with transport_params_roundtrip [OF ok _ len] show ?thesis by (simp add: tp_default_def)
qed

text \<open>C40: decoding any bytes never panics; what is accepted consumes the whole buffer, respects
  every limit of the specification, and a server accepts no parameter that only servers may send.\<close>

theorem transport_params_decode_valid:
  assumes "tp_decode buf is_server = r"
  shows "r \<noteq> Panic \<and> (\<forall>tp n. r = Ok (tp, n) \<longrightarrow> tp_valid is_server tp \<and> n = length buf)"
  using assms tp_decode_total tp_decode_valid by blast

theorem transport_params_decode_valid_witness:
  "\<exists>tp n. tp_decode (tp_wire tp_default False) True = Ok (tp, n) \<and> tp_valid True tp
    \<and> n = length (tp_wire tp_default False)"
proof -
  have ok: "tp_ok tp_default"
    by (simp add: tp_ok_def tp_default_def VINT_MAX_def MAX_STREAMS_PER_TYPE_def word_le_nat_alt)
  obtain tp n where d: "tp_decode (tp_wire tp_default False) True = Ok (tp, n)"
    using tp_decode_wire [OF ok, of False] by (simp add: tp_default_def)
  with transport_params_decode_valid [OF d] show ?thesis by auto
qed

text \<open>A parameter that occurs a second time is refused, whatever follows it.\<close>

theorem duplicate_parameter_refused:
  assumes "\<forall>r \<in> set rows. row_ok r" and "distinct (map (\<lambda>r. fst (snd r)) rows)"
    and "(True, i, v) \<in> set rows" and "fold_rows is_server rows tp_default = Ok tp"
  shows "tp_decode (concat (map row_bytes rows) @ varint_bytes i @ rest) is_server = Err TransportParameterError"
  using assms by (rule tp_decode_duplicate)

theorem duplicate_parameter_refused_witness:
  "tp_decode (concat (map row_bytes [(True, 0x0c, [])]) @ varint_bytes 0x0c @ [0]) True = Err TransportParameterError"
  by (rule duplicate_parameter_refused [where v = "[]"])
    (simp_all add: row_ok_def VINT_MAX_def decode_param_def word_le_nat_alt)

end
