(* ===== verification/Recv_Buf.thy ===== *)
theory Recv_Buf
  imports Errors BTree_Map Flow_Control
begin

text \<open>
  The receive side of a stream: \<open>RangeBuf\<close> and \<open>RecvBuf\<close> of src/connection/stream.rs. Chunks are
  kept in an ordered map whose key is the end of the chunk; the arrival time of a chunk, which no
  operation reads, is left out. \<open>Bytes::advance\<close> and \<open>Bytes::split_off\<close> assert that the position
  lies in the buffer. An output slice is given by its length; \<open>rv_read\<close> returns the bytes it
  copies to the front of it.

  \<open>rv_bytes\<close> abstracts the map to the set of received and unread bytes with their offsets. Under
  \<open>rv_ok\<close>, writing adds exactly the bytes that are neither read nor there yet, and reading takes
  the longest run that starts at the read offset.
\<close>

subsection \<open>Range buffers\<close>

record range_buf =
  rb_data :: bytes
  rb_off :: u64
  rb_fin :: bool

definition rb_new :: "bytes \<Rightarrow> u64 \<Rightarrow> bool \<Rightarrow> range_buf" where
  "rb_new buf off fin = \<lparr>rb_data = buf, rb_off = off, rb_fin = fin\<rparr>"

definition rb_max_off :: "range_buf \<Rightarrow> u64" where
  "rb_max_off b = rb_off b + as_u64 (length (rb_data b))"

definition rb_is_empty :: "range_buf \<Rightarrow> bool" where
  "rb_is_empty b \<longleftrightarrow> length (rb_data b) = 0"

definition rb_advance :: "nat \<Rightarrow> range_buf \<Rightarrow> range_buf res" where
  "rb_advance count b =
     (if length (rb_data b) < count then Panic
      else Ok (b\<lparr>rb_data := drop count (rb_data b), rb_off := rb_off b + as_u64 count\<rparr>))"

definition rb_split_off :: "nat \<Rightarrow> range_buf \<Rightarrow> (range_buf \<times> range_buf) res" where
  "rb_split_off n b =
     (if length (rb_data b) < n then Panic
      else Ok (b\<lparr>rb_data := take n (rb_data b), rb_fin := False\<rparr>,
               b\<lparr>rb_data := drop n (rb_data b), rb_off := rb_off b + as_u64 n\<rparr>))"

subsection \<open>The receive buffer\<close>

record recv_buf =
  rv_data :: "(u64, range_buf) btree"
  rv_read_off :: u64
  rv_recv_off :: u64
  rv_fin_off :: "u64 option"
  rv_error :: "u64 option"
  rv_shutdown :: bool
  rv_flow :: flow_control

definition rv_new :: "u64 \<Rightarrow> u64 \<Rightarrow> recv_buf" where
  "rv_new max_data max_window =
     \<lparr>rv_data = [], rv_read_off = 0, rv_recv_off = 0, rv_fin_off = None, rv_error = None,
      rv_shutdown = False, rv_flow = fc_new max_data max_window\<rparr>"

definition rv_is_fin :: "recv_buf \<Rightarrow> bool" where
  "rv_is_fin r \<longleftrightarrow> rv_fin_off r = Some (rv_read_off r)"

definition rv_ready :: "recv_buf \<Rightarrow> bool" where
  "rv_ready r = (case bt_first (rv_data r) of Some (_, buf) \<Rightarrow> rb_off buf = rv_read_off r | None \<Rightarrow> False)"

text \<open>The loop over the chunks that end at or after the start of \<open>buf\<close>: what is left of \<open>buf\<close>, or
  nothing when a chunk covers it, and the queue with the parts that were split off.\<close>

fun merge_chunks :: "range_buf list \<Rightarrow> range_buf \<Rightarrow> range_buf list \<Rightarrow> (range_buf option \<times> range_buf list) res" where
  "merge_chunks [] buf tmp = Ok (Some buf, tmp)"
| "merge_chunks (b # bs) buf tmp =
     (if rb_max_off buf < rb_off b then Ok (Some buf, tmp)
      else if rb_off b \<le> rb_off buf \<and> rb_max_off buf \<le> rb_max_off b then Ok (None, tmp)
      else if rb_off b \<le> rb_off buf \<and> rb_off buf < rb_max_off b then
        bind_r (rb_advance (unat (rb_max_off b - rb_off buf)) buf) (\<lambda>buf. merge_chunks bs buf tmp)
      else if rb_off buf < rb_off b \<and> rb_off b < rb_max_off buf then
        bind_r (rb_split_off (unat (rb_off b - rb_off buf)) buf) (\<lambda>(buf, piece).
        merge_chunks bs buf (tmp @ [piece]))
      else merge_chunks bs buf tmp)"

definition discard_read :: "recv_buf \<Rightarrow> range_buf \<Rightarrow> range_buf res" where
  "discard_read r buf =
     (if rb_off buf < rv_read_off r then rb_advance (unat (rv_read_off r - rb_off buf)) buf else Ok buf)"

definition merge_overlaps :: "recv_buf \<Rightarrow> range_buf \<Rightarrow> range_buf list \<Rightarrow> (range_buf option \<times> range_buf list) res" where
  "merge_overlaps r buf tmp =
     (if rb_off buf < rv_recv_off r \<or> rb_is_empty buf
      then merge_chunks (map snd (filter (\<lambda>p. rb_off buf \<le> fst p) (rv_data r))) buf tmp
      else Ok (Some buf, tmp))"

definition store_piece :: "range_buf \<Rightarrow> recv_buf \<Rightarrow> recv_buf" where
  "store_piece buf r =
     (let r = r\<lparr>rv_recv_off := max (rv_recv_off r) (rb_max_off buf)\<rparr> in
      if rv_shutdown r then r else r\<lparr>rv_data := bt_insert (rb_max_off buf) buf (rv_data r)\<rparr>)"

text \<open>The queue loses bytes whenever a part is put back, so the loop ends.\<close>

lemma rb_split_off_length:
  "rb_split_off n b = Ok (c, d) \<Longrightarrow>
     length (rb_data c) = n \<and> length (rb_data c) + length (rb_data d) = length (rb_data b)"
  by (auto simp: rb_split_off_def split: if_splits)

abbreviation rb_len :: "range_buf \<Rightarrow> nat" where
  "rb_len b \<equiv> length (rb_data b)"

lemma merge_chunks_length:
  "merge_chunks bs buf tmp = Ok (ob, tmp') \<Longrightarrow>
     tmp' = tmp \<or> sum_list (map rb_len tmp') < sum_list (map rb_len tmp) + rb_len buf"
proof (induction bs arbitrary: buf tmp)
  case (Cons b bs)
  note IH = Cons.IH and prems = Cons.prems
  consider (stop) "tmp' = tmp"
    | (adv) buf' where "rb_advance (unat (rb_max_off b - rb_off buf)) buf = Ok buf'" "merge_chunks bs buf' tmp = Ok (ob, tmp')"
    | (split) c d where "rb_off buf < rb_off b"
        "rb_split_off (unat (rb_off b - rb_off buf)) buf = Ok (c, d)" "merge_chunks bs c (tmp @ [d]) = Ok (ob, tmp')"
    | (skip) "merge_chunks bs buf tmp = Ok (ob, tmp')"
    using prems by (auto simp: bind_r_Ok_iff split: if_splits)
  then show ?case
  proof cases
    case adv
    then show ?thesis using IH [of buf' tmp] by (auto simp: rb_advance_def split: if_splits)
  next
    case split
    then have "0 < unat (rb_off b - rb_off buf)" by (simp add: unat_gt_0)
    with rb_split_off_length [OF split(2)] have "rb_len d < rb_len buf" "rb_len c + rb_len d = rb_len buf" by linarith+
    with IH [OF split(3)] show ?thesis by auto
  qed (use IH in auto)
qed simp

lemma merge_overlaps_shrinks:
  assumes "discard_read r buf = Ok buf'" and "merge_overlaps r buf' tmp = Ok (ob, tmp')"
  shows "(tmp', buf # tmp) \<in> measures [\<lambda>tmp. sum_list (map rb_len tmp), length]"
proof -
  have "rb_len buf' \<le> rb_len buf"
    using assms(1) by (auto simp: discard_read_def rb_advance_def split: if_splits)
  moreover have "tmp' = tmp \<or> sum_list (map rb_len tmp') < sum_list (map rb_len tmp) + rb_len buf'"
    using assms(2) merge_chunks_length by (auto simp: merge_overlaps_def split: if_splits)
  ultimately show ?thesis by auto
qed

function write_pieces :: "range_buf list \<Rightarrow> (unit, error, recv_buf) meth" where
  "write_pieces [] r = (Ok (), r)"
| "write_pieces (buf # tmp) r =
     (case discard_read r buf of
        Err e \<Rightarrow> (Err e, r)
      | Panic \<Rightarrow> (Panic, r)
      | Ok buf' \<Rightarrow>
          case merge_overlaps r buf' tmp of
            Err e \<Rightarrow> (Err e, r)
          | Panic \<Rightarrow> (Panic, r)
          | Ok (None, tmp') \<Rightarrow> write_pieces tmp' r
          | Ok (Some c, tmp') \<Rightarrow> write_pieces tmp' (store_piece c r))"
  by pat_completeness auto
termination
  by (relation "inv_image (measures [\<lambda>tmp. sum_list (map rb_len tmp), length]) fst")
    (use merge_overlaps_shrinks in \<open>fastforce simp del: in_measures\<close>)+

definition rv_write :: "u64 \<Rightarrow> bytes \<Rightarrow> bool \<Rightarrow> (unit, error, recv_buf) meth" where
  "rv_write offset data fin r =
     (let buf = rb_new data offset fin in
      if fc_max_data (rv_flow r) < rb_max_off buf then (Err FlowControlError, r)
      else if (case rv_fin_off r of
                 Some fin_off \<Rightarrow> fin_off < rb_max_off buf \<or> (rb_fin buf \<and> fin_off \<noteq> rb_max_off buf)
               | None \<Rightarrow> False) then (Err FinalSizeError, r)
      else if rb_fin buf \<and> rb_max_off buf < rv_recv_off r then (Err FinalSizeError, r)
      else if rv_is_fin r then (Ok (), r)
      else
        let r = (if rb_fin buf then r\<lparr>rv_fin_off := Some (rb_max_off buf)\<rparr> else r) in
        if \<not> rb_fin buf \<and> rb_is_empty buf then (Ok (), r)
        else if rb_max_off buf \<le> rv_read_off r \<and> \<not> rb_is_empty buf then (Ok (), r)
        else write_pieces [buf] r)"

text \<open>The loop of \<open>read\<close> over the entries: the bytes copied, the read offset and the entries left.\<close>

fun read_entries :: "nat \<Rightarrow> u64 \<Rightarrow> (u64, range_buf) btree \<Rightarrow> bytes \<times> u64 \<times> (u64, range_buf) btree" where
  "read_entries cap read_off [] = ([], read_off, [])"
| "read_entries cap read_off ((k, buf) # m) =
     (if 0 < cap \<and> rb_off buf = read_off then
        let buf_len = min (rb_len buf) cap in
        if buf_len < rb_len buf then
          (take buf_len (rb_data buf), read_off + as_u64 buf_len,
           (k, buf\<lparr>rb_data := drop buf_len (rb_data buf), rb_off := rb_off buf + as_u64 buf_len\<rparr>) # m)
        else
          let (out, read_off, m) = read_entries (cap - buf_len) (read_off + as_u64 buf_len) m
          in (take buf_len (rb_data buf) @ out, read_off, m)
      else ([], read_off, (k, buf) # m))"

definition rv_read :: "nat \<Rightarrow> (bytes \<times> bool, error, recv_buf) meth" where
  "rv_read cap r =
     (if \<not> rv_ready r then (Err Done, r)
      else case rv_error r of
        Some e \<Rightarrow> (Err (StreamReset e), r\<lparr>rv_data := []\<rparr>)
      | None \<Rightarrow>
          let (out, read_off, data) = read_entries cap (rv_read_off r) (rv_data r);
              r = r\<lparr>rv_data := data, rv_read_off := read_off,
                    rv_flow := increase_read_off (as_u64 (length out)) (rv_flow r)\<rparr>
          in (Ok (out, rv_is_fin r), r))"

definition rv_reset :: "u64 \<Rightarrow> u64 \<Rightarrow> (nat, error, recv_buf) meth" where
  "rv_reset error_code final_size r =
     (if (case rv_fin_off r of Some fin_off \<Rightarrow> fin_off \<noteq> final_size | None \<Rightarrow> False)
      then (Err FinalSizeError, r)
      else if final_size < rv_recv_off r then (Err FinalSizeError, r)
      else
        let max_rx_off_delta = final_size - rv_recv_off r in
        if rv_error r \<noteq> None then (Ok (unat max_rx_off_delta), r)
        else
          bind_s (rv_write final_size [] True) (\<lambda>_ r.
            (Ok (unat max_rx_off_delta), r\<lparr>rv_read_off := final_size\<rparr>))
          (r\<lparr>rv_error := Some error_code, rv_data := []\<rparr>))"

definition rv_shut :: "(u64, error, recv_buf) meth" where
  "rv_shut r =
     (if rv_shutdown r then (Err Done, r)
      else (Ok (rv_recv_off r - rv_read_off r),
            r\<lparr>rv_shutdown := True, rv_data := [], rv_read_off := rv_recv_off r\<rparr>))"

definition rv_update_max_data :: "nat \<Rightarrow> recv_buf \<Rightarrow> recv_buf" where
  "rv_update_max_data now r = r\<lparr>rv_flow := update_max_data now (rv_flow r)\<rparr>"

definition rv_autotune_window :: "nat \<Rightarrow> nat \<Rightarrow> recv_buf \<Rightarrow> recv_buf" where
  "rv_autotune_window now srtt r = r\<lparr>rv_flow := autotune_window now srtt (rv_flow r)\<rparr>"

definition rv_should_send_max_data :: "recv_buf \<Rightarrow> bool" where
  "rv_should_send_max_data r \<longleftrightarrow> rv_fin_off r = None \<and> should_send_max_data (rv_flow r)"


subsection \<open>Abstraction and invariant\<close>

definition lo :: "range_buf \<Rightarrow> nat" where
  "lo b = unat (rb_off b)"

definition hi :: "range_buf \<Rightarrow> nat" where
  "hi b = unat (rb_off b) + rb_len b"

definition rb_ok :: "range_buf \<Rightarrow> bool" where
  "rb_ok b \<longleftrightarrow> hi b < 2 ^ 64"

definition rb_bytes :: "range_buf \<Rightarrow> (nat \<times> u8) set" where
  "rb_bytes b = {(p, x). lo b \<le> p \<and> p < hi b \<and> x = rb_data b ! (p - lo b)}"

definition rv_bytes :: "recv_buf \<Rightarrow> (nat \<times> u8) set" where
  "rv_bytes r = (\<Union>e \<in> set (rv_data r). rb_bytes (snd e))"

definition apart :: "range_buf \<Rightarrow> range_buf \<Rightarrow> bool" where
  "apart b c \<longleftrightarrow> hi b \<le> lo c \<or> hi c \<le> lo b"

definition rv_ok :: "recv_buf \<Rightarrow> bool" where
  "rv_ok r \<longleftrightarrow> bt_wf (rv_data r)
     \<and> (\<forall>e \<in> set (rv_data r). rb_ok (snd e) \<and> fst e = rb_max_off (snd e)
          \<and> rv_read_off r \<le> rb_off (snd e) \<and> fst e \<le> rv_recv_off r
          \<and> (rb_data (snd e) = [] \<longrightarrow> rv_fin_off r = Some (fst e)))
     \<and> (\<forall>e \<in> set (rv_data r). \<forall>d \<in> set (rv_data r). e \<noteq> d \<longrightarrow> apart (snd e) (snd d))
     \<and> rv_read_off r \<le> rv_recv_off r
     \<and> (\<forall>f. rv_fin_off r = Some f \<longrightarrow> rv_recv_off r \<le> f)
     \<and> (rv_shutdown r \<longrightarrow> rv_data r = [])"

lemma lo_le_hi: "lo b \<le> hi b"
  by (simp add: lo_def hi_def)

lemma hi_lo: "hi b = lo b + rb_len b"
  by (simp add: lo_def hi_def)

lemma empty_iff: "rb_data b = [] \<longleftrightarrow> hi b = lo b"
  by (simp add: lo_def hi_def)

lemma unat_max_off: "rb_ok b \<Longrightarrow> unat (rb_max_off b) = hi b"
  by (simp add: rb_ok_def rb_max_off_def hi_def unat_add_small unat_of_nat_u64)

lemma fst_rb_bytes: "fst ` rb_bytes b = {lo b ..< hi b}"
  by (force simp: rb_bytes_def)

text \<open>\<open>c\<close> holds a part of \<open>b\<close>, at the same place.\<close>

definition part_of :: "range_buf \<Rightarrow> range_buf \<Rightarrow> bool" where
  "part_of c b \<longleftrightarrow> lo b \<le> lo c \<and> hi c \<le> hi b \<and> rb_bytes c \<subseteq> rb_bytes b"

lemma part_of_refl [simp]: "part_of b b"
  by (simp add: part_of_def)

lemma part_of_trans: "part_of a b \<Longrightarrow> part_of b c \<Longrightarrow> part_of a c"
  by (auto simp: part_of_def)

lemma rb_advance_spec:
  assumes "rb_ok b" and "n \<le> rb_len b"
  shows "\<exists>c. rb_advance n b = Ok c \<and> part_of c b \<and> lo c = lo b + n \<and> hi c = hi b \<and> rb_ok c \<and> rb_fin c = rb_fin b"
proof -
  define c where "c = b\<lparr>rb_data := drop n (rb_data b), rb_off := rb_off b + as_u64 n\<rparr>"
  have "unat (rb_off b + as_u64 n) = unat (rb_off b) + n"
    using assms by (simp add: rb_ok_def hi_def unat_add_small unat_of_nat_u64)
  then have c: "lo c = lo b + n" "hi c = hi b" using assms(2) by (simp_all add: c_def lo_def hi_def)
  moreover from c have "rb_bytes c \<subseteq> rb_bytes b"
    using assms(2) by (auto simp: rb_bytes_def c_def add.commute)
  ultimately have "part_of c b" "rb_ok c" using assms(1) by (simp_all add: part_of_def rb_ok_def)
  then show ?thesis using assms c by (intro exI [of _ c]) (simp add: rb_advance_def c_def)
qed

lemma rb_split_off_spec:
  assumes "rb_ok b" and "n \<le> rb_len b"
  shows "\<exists>c d. rb_split_off n b = Ok (c, d) \<and> part_of c b \<and> part_of d b \<and> rb_ok c \<and> rb_ok d
    \<and> lo c = lo b \<and> hi c = lo b + n \<and> lo d = lo b + n \<and> hi d = hi b"
proof -
  define c where "c = b\<lparr>rb_data := take n (rb_data b), rb_fin := False\<rparr>"
  define d where "d = b\<lparr>rb_data := drop n (rb_data b), rb_off := rb_off b + as_u64 n\<rparr>"
  have "unat (rb_off b + as_u64 n) = unat (rb_off b) + n"
    using assms by (simp add: rb_ok_def hi_def unat_add_small unat_of_nat_u64)
  then have b: "lo c = lo b" "hi c = lo b + n" "lo d = lo b + n" "hi d = hi b"
    using assms(2) by (simp_all add: c_def d_def lo_def hi_def)
  moreover from b have "rb_bytes c \<subseteq> rb_bytes b" "rb_bytes d \<subseteq> rb_bytes b"
    using assms(2) by (auto simp: rb_bytes_def c_def d_def add.commute hi_lo)
  moreover have "lo b + n \<le> hi b" using assms(2) by (simp add: hi_lo)
  ultimately have "part_of c b" "part_of d b" "rb_ok c" "rb_ok d" using assms(1) by (simp_all add: part_of_def rb_ok_def)
  then show ?thesis using assms b by (intro exI [of _ c] exI [of _ d]) (simp add: rb_split_off_def c_def d_def)
qed

text \<open>What the loop over the chunks guarantees: the parts left cover what the chunks do not, and the
  part that is to be stored lies apart from every chunk.\<close>

definition merged :: "range_buf list \<Rightarrow> range_buf \<Rightarrow> range_buf option \<Rightarrow> range_buf list \<Rightarrow> bool" where
  "merged bs buf ob ps \<longleftrightarrow>
     (\<forall>c \<in> set_option ob \<union> set ps. part_of c buf \<and> rb_ok c \<and> (rb_data c = [] \<longrightarrow> c = buf))
   \<and> (rb_data buf = [] \<longrightarrow> ps = [])
   \<and> {lo buf ..< hi buf} \<subseteq> (\<Union>c \<in> set_option ob \<union> set ps \<union> set bs. {lo c ..< hi c})
   \<and> (\<forall>c. ob = Some c \<longrightarrow> (\<forall>b \<in> set bs. apart c b))
   \<and> (rb_data buf = [] \<and> ob \<noteq> None \<longrightarrow> (\<forall>b \<in> set bs. hi b \<noteq> hi buf))
   \<and> (rb_data buf = [] \<and> ob = None \<longrightarrow> (\<exists>b \<in> set bs. hi buf \<le> hi b))"

lemma merged_step:
  assumes m: "merged bs c ob ps" and c: "part_of c buf" and e: "\<And>e. part_of e c \<Longrightarrow> apart e b"
    and qs: "\<forall>d \<in> set qs. part_of d buf \<and> rb_ok d \<and> rb_data d \<noteq> []"
    and empty: "rb_data c = [] \<or> rb_data buf = [] \<Longrightarrow> c = buf \<and> qs = [] \<and> hi b \<noteq> hi buf"
    and cover: "{lo buf ..< hi buf} \<subseteq> {lo b ..< hi b} \<union> {lo c ..< hi c} \<union> (\<Union>d \<in> set qs. {lo d ..< hi d})"
  shows "merged (b # bs) buf ob (qs @ ps)"
  unfolding merged_def
proof (intro conjI)
  note m = m [unfolded merged_def]
  show "\<forall>x \<in> set_option ob \<union> set (qs @ ps). part_of x buf \<and> rb_ok x \<and> (rb_data x = [] \<longrightarrow> x = buf)"
  proof
    fix x assume "x \<in> set_option ob \<union> set (qs @ ps)"
    then consider "x \<in> set qs" | "x \<in> set_option ob \<union> set ps" by auto
    then show "part_of x buf \<and> rb_ok x \<and> (rb_data x = [] \<longrightarrow> x = buf)"
    proof cases
      case 2
      then have "part_of x c" "rb_ok x" "rb_data x = [] \<longrightarrow> x = c" using m by blast+
      then show ?thesis using part_of_trans [OF _ c] empty by blast
    qed (use qs in blast)
  qed
  show "rb_data buf = [] \<longrightarrow> qs @ ps = []" using m empty by auto
  show "{lo buf ..< hi buf} \<subseteq> (\<Union>x \<in> set_option ob \<union> set (qs @ ps) \<union> set (b # bs). {lo x ..< hi x})"
  proof
    fix x assume "x \<in> {lo buf ..< hi buf}"
    with cover consider "x \<in> {lo b ..< hi b}" | "x \<in> {lo c ..< hi c}" | "x \<in> (\<Union>d \<in> set qs. {lo d ..< hi d})"
      by blast
    then show "x \<in> (\<Union>x \<in> set_option ob \<union> set (qs @ ps) \<union> set (b # bs). {lo x ..< hi x})"
    proof cases
      case 2
      then have "x \<in> (\<Union>c \<in> set_option ob \<union> set ps \<union> set bs. {lo c ..< hi c})" using m by blast
      then show ?thesis by auto
    qed auto
  qed
  show "\<forall>x. ob = Some x \<longrightarrow> (\<forall>y \<in> set (b # bs). apart x y)" using m e by auto
  show "rb_data buf = [] \<and> ob \<noteq> None \<longrightarrow> (\<forall>y \<in> set (b # bs). hi y \<noteq> hi buf)" using m empty by auto
  show "rb_data buf = [] \<and> ob = None \<longrightarrow> (\<exists>y \<in> set (b # bs). hi buf \<le> hi y)" using m empty by auto
qed

lemma merged_more:
  assumes m: "merged bs buf ob ps" and "set bs \<subseteq> set cs"
    and low: "\<forall>b \<in> set cs - set bs. hi b \<le> lo buf \<and> (rb_data buf = [] \<longrightarrow> hi b \<noteq> hi buf)"
  shows "merged cs buf ob ps"
proof -
  note m = m [unfolded merged_def]
  have "apart c b" if "ob = Some c" "b \<in> set cs" for b c
  proof (cases "b \<in> set bs")
    case False
    then have "hi b \<le> lo buf" using low that by blast
    moreover have "lo buf \<le> lo c" using m that(1) by (simp add: part_of_def)
    ultimately show ?thesis by (simp add: apart_def)
  qed (use m that in blast)
  moreover have "{lo buf ..< hi buf} \<subseteq> (\<Union>c \<in> set_option ob \<union> set ps \<union> set cs. {lo c ..< hi c})"
    using m assms(2) by (meson UN_mono Un_mono order_refl subset_trans)
  moreover have "hi b \<noteq> hi buf" if "rb_data buf = []" "ob \<noteq> None" "b \<in> set cs" for b
    using m low that by (cases "b \<in> set bs") auto
  moreover have "rb_data buf = [] \<and> ob = None \<longrightarrow> (\<exists>b \<in> set cs. hi buf \<le> hi b)"
    using m assms(2) by auto
  ultimately show ?thesis unfolding merged_def using m by simp
qed

lemma merge_chunks_spec:
  assumes "sorted_wrt (\<lambda>b c. hi b \<le> lo c) bs" and "\<forall>b \<in> set bs. rb_ok b" and "rb_ok buf"
  shows "\<exists>ob ps. merge_chunks bs buf tmp = Ok (ob, tmp @ ps) \<and> merged bs buf ob ps"
  using assms
proof (induction bs arbitrary: buf tmp)
  case Nil
  then show ?case by (auto simp: merged_def)
next
  case (Cons b bs)
  have sorted: "sorted_wrt (\<lambda>b c. hi b \<le> lo c) bs" "\<forall>c \<in> set bs. hi b \<le> lo c" and ok: "\<forall>b \<in> set bs. rb_ok b" "rb_ok b"
    and buf: "rb_ok buf"
    using Cons.prems by auto
  note IH = Cons.IH [OF sorted(1) ok(1)]
  have cmp: "rb_max_off buf < rb_off b \<longleftrightarrow> hi buf < lo b" "rb_off b \<le> rb_off buf \<longleftrightarrow> lo b \<le> lo buf"
    "rb_max_off buf \<le> rb_max_off b \<longleftrightarrow> hi buf \<le> hi b" "rb_off buf < rb_max_off b \<longleftrightarrow> lo buf < hi b"
    "rb_off buf < rb_off b \<longleftrightarrow> lo buf < lo b" "rb_off b < rb_max_off buf \<longleftrightarrow> lo b < hi buf"
    using unat_max_off [OF buf] unat_max_off [OF ok(2)] by (simp_all add: word_less_nat_alt word_le_nat_alt lo_def)
  consider (before) "hi buf < lo b" | (covered) "lo b \<le> lo buf" "hi buf \<le> hi b"
    | (front) "\<not> hi buf < lo b" "\<not> hi buf \<le> hi b" "lo b \<le> lo buf" "lo buf < hi b"
    | (tail) "\<not> hi buf < lo b" "\<not> lo b \<le> lo buf" "lo b < hi buf"
    | (skip) "\<not> hi buf < lo b" "\<not> (lo b \<le> lo buf \<and> hi buf \<le> hi b)" "\<not> (lo b \<le> lo buf \<and> lo buf < hi b)"
        "\<not> (lo buf < lo b \<and> lo b < hi buf)"
    by linarith
  then show ?case
  proof cases
    case before
    then have "\<forall>c \<in> set (b # bs). hi buf < lo c"
      using sorted(2) lo_le_hi [of b] by (simp, meson less_le_trans)
    then have "\<forall>c \<in> set (b # bs). hi buf < lo c \<and> hi buf < hi c"
      using lo_le_hi less_le_trans by blast
    then have "merged (b # bs) buf (Some buf) []"
      using buf by (auto simp: merged_def apart_def less_imp_le)
    with before show ?thesis by (auto simp: cmp)
  next
    case covered
    then have "merged (b # bs) buf None []" by (force simp: merged_def)
    with covered show ?thesis using lo_le_hi [of buf] by (auto simp: cmp)
  next
    case front
    have "unat (rb_max_off b - rb_off buf) = hi b - lo buf"
      using front(4) unat_max_off [OF ok(2)] by (subst unat_sub) (simp_all add: word_le_nat_alt lo_def)
    moreover have "hi b - lo buf \<le> rb_len buf" using front by (simp add: hi_lo [of buf])
    ultimately obtain c where c: "rb_advance (unat (rb_max_off b - rb_off buf)) buf = Ok c" "part_of c buf"
      "lo c = hi b" "hi c = hi buf" "rb_ok c"
      using rb_advance_spec [OF buf, of "hi b - lo buf"] front(4) by auto
    from IH [OF c(5), of tmp] obtain ob ps where ih: "merge_chunks bs c tmp = Ok (ob, tmp @ ps)" "merged bs c ob ps" by blast
    have ne: "rb_data c \<noteq> []" "rb_data buf \<noteq> []" using front c by (simp_all add: empty_iff)
    have "merged (b # bs) buf ob ps"
      using merged_step [OF ih(2) c(2), of b "[]"] ne c front
      by (simp add: apart_def part_of_def ivl_disj_un_two(3))
    then show ?thesis using front c(1) ih(1) by (auto simp: cmp)
  next
    case tail
    have "unat (rb_off b - rb_off buf) = lo b - lo buf"
      using tail(2) by (subst unat_sub) (simp_all add: word_le_nat_alt lo_def)
    moreover have "lo b - lo buf \<le> rb_len buf" using tail by (simp add: hi_lo [of buf])
    ultimately obtain c d where c: "rb_split_off (unat (rb_off b - rb_off buf)) buf = Ok (c, d)" "part_of c buf"
      "part_of d buf" "rb_ok c" "rb_ok d" "lo c = lo buf" "hi c = lo b" "lo d = lo b" "hi d = hi buf"
      using rb_split_off_spec [OF buf, of "lo b - lo buf"] tail(2) by auto
    from IH [OF c(4), of "tmp @ [d]"] obtain ob ps where ih: "merge_chunks bs c (tmp @ [d]) = Ok (ob, tmp @ [d] @ ps)"
      "merged bs c ob ps" by auto
    have ne: "rb_data c \<noteq> []" "rb_data buf \<noteq> []" "rb_data d \<noteq> []" using tail c by (simp_all add: empty_iff)
    have "{lo buf ..< hi buf} \<subseteq> {lo b ..< hi b} \<union> {lo buf ..< lo b} \<union> {lo b ..< hi buf}" by auto
    then have "merged (b # bs) buf ob (d # ps)"
      using merged_step [OF ih(2) c(2), of b "[d]"] ne c tail by (auto simp: apart_def part_of_def)
    then show ?thesis using tail c(1) ih(1) by (auto simp: cmp)
  next
    case skip
    from IH [OF buf, of tmp] obtain ob ps where ih: "merge_chunks bs buf tmp = Ok (ob, tmp @ ps)" "merged bs buf ob ps" by blast
    have "merged (b # bs) buf ob ps"
      using merged_step [OF ih(2) part_of_refl, of b "[]"] skip lo_le_hi [of b]
      by (auto simp: apart_def part_of_def empty_iff)
    then show ?thesis using skip ih(1) by (auto simp: cmp)
  qed
qed


subsection \<open>Writing\<close>

lemma rv_okD:
  assumes "rv_ok r" and "e \<in> set (rv_data r)"
  shows "rb_ok (snd e)" and "unat (fst e) = hi (snd e)" and "unat (rv_read_off r) \<le> lo (snd e)"
    and "hi (snd e) \<le> unat (rv_recv_off r)" and "rb_data (snd e) = [] \<Longrightarrow> rv_fin_off r = Some (fst e)"
  using assms unat_max_off by (fastforce simp: rv_ok_def word_le_nat_alt lo_def)+

lemma rv_chunks_sorted:
  assumes "rv_ok r"
  shows "sorted_wrt (\<lambda>b c. hi b \<le> lo c) (map snd (filter (\<lambda>p. k \<le> fst p) (rv_data r)))"
proof -
  have wf: "sorted_wrt (\<lambda>e d. fst e < fst d) (filter (\<lambda>p. k \<le> fst p) (rv_data r))"
    using assms by (auto simp: rv_ok_def bt_wf_def sorted_wrt_map intro: sorted_wrt_filter)
  have "hi (snd e) \<le> lo (snd d)" if "e \<in> set (rv_data r)" "d \<in> set (rv_data r)" "fst e < fst d" for e d
  proof -
    have "apart (snd e) (snd d)" using assms that by (auto simp: rv_ok_def)
    moreover have "hi (snd e) < hi (snd d)"
      using that rv_okD(2) [OF assms] by (simp add: word_less_nat_alt)
    ultimately show ?thesis by (auto simp: apart_def) (use lo_le_hi [of "snd e"] in linarith)
  qed
  then show ?thesis unfolding sorted_wrt_map by (intro sorted_wrt_mono_rel [OF _ wf]) auto
qed

text \<open>A piece that the loop may still have to store.\<close>

definition piece_ok :: "recv_buf \<Rightarrow> range_buf \<Rightarrow> bool" where
  "piece_ok r x \<longleftrightarrow> rb_ok x
     \<and> (if rb_data x = [] then rv_fin_off r = Some (rb_off x) \<and> rv_read_off r \<le> rb_off x
        else unat (rv_read_off r) < hi x)
     \<and> (\<forall>f. rv_fin_off r = Some f \<longrightarrow> hi x \<le> unat f)"

lemma discard_read_spec:
  assumes "piece_ok r x"
  shows "\<exists>y. discard_read r x = Ok y \<and> part_of y x \<and> hi y = hi x \<and> lo y = max (lo x) (unat (rv_read_off r))
    \<and> rb_ok y \<and> piece_ok r y"
proof (cases "rb_off x < rv_read_off r")
  case True
  then have ne: "rb_data x \<noteq> []" and ro: "unat (rv_read_off r) < hi x"
    using assms by (auto simp: piece_ok_def split: if_splits)
  have "unat (rv_read_off r - rb_off x) = unat (rv_read_off r) - lo x"
    using True by (subst unat_sub) (simp_all add: lo_def)
  moreover have "unat (rv_read_off r) - lo x \<le> rb_len x" using ro by (simp add: hi_lo)
  ultimately obtain y where y: "rb_advance (unat (rv_read_off r - rb_off x)) x = Ok y" "part_of y x"
    "lo y = unat (rv_read_off r)" "hi y = hi x" "rb_ok y"
    using rb_advance_spec [of x "unat (rv_read_off r) - lo x"] assms True
    by (auto simp: piece_ok_def word_less_nat_alt lo_def)
  have "rb_data y \<noteq> []" using y ro by (simp add: empty_iff)
  then have "piece_ok r y" using assms y ne by (auto simp: piece_ok_def split: if_splits)
  with y True show ?thesis by (auto simp: discard_read_def word_less_nat_alt lo_def)
next
  case False
  then have "discard_read r x = Ok x" "max (lo x) (unat (rv_read_off r)) = lo x"
    by (simp_all add: discard_read_def word_less_nat_alt lo_def)
  then show ?thesis using assms by (auto simp: piece_ok_def)
qed

lemma merge_overlaps_spec:
  assumes ok: "rv_ok r" and buf: "piece_ok r buf" "unat (rv_read_off r) \<le> lo buf"
  shows "\<exists>ob ps. merge_overlaps r buf tmp = Ok (ob, tmp @ ps) \<and> merged (map snd (rv_data r)) buf ob ps"
proof -
  let ?bs = "map snd (filter (\<lambda>p. rb_off buf \<le> fst p) (rv_data r))"
  have rbuf: "rb_ok buf" using buf by (simp add: piece_ok_def)
  have low: "hi (snd e) < lo buf" if "e \<in> set (rv_data r)" "\<not> rb_off buf \<le> fst e" for e
    using that rv_okD(2) [OF ok that(1)] by (simp add: word_le_nat_alt lo_def)
  show ?thesis
  proof (cases "rb_off buf < rv_recv_off r \<or> rb_is_empty buf")
    case True
    have "\<forall>b \<in> set ?bs. rb_ok b" using rv_okD(1) [OF ok] by auto
    from merge_chunks_spec [OF rv_chunks_sorted [OF ok] this rbuf, of tmp] obtain ob ps where
      m: "merge_chunks ?bs buf tmp = Ok (ob, tmp @ ps)" "merged ?bs buf ob ps" by blast
    have "merged (map snd (rv_data r)) buf ob ps"
      by (rule merged_more [OF m(2)]) (use low lo_le_hi [of buf] in fastforce)+
    with True m(1) show ?thesis by (auto simp: merge_overlaps_def)
  next
    case False
    then have "unat (rv_recv_off r) \<le> lo buf" "rb_data buf \<noteq> []"
      by (simp_all add: rb_is_empty_def word_le_nat_alt not_less lo_def)
    then have "\<forall>b \<in> set (map snd (rv_data r)). hi b \<le> lo buf" using rv_okD(4) [OF ok] by fastforce
    moreover have "merged [] buf (Some buf) []" using rbuf by (simp add: merged_def)
    ultimately have "merged (map snd (rv_data r)) buf (Some buf) []"
      using merged_more \<open>rb_data buf \<noteq> []\<close> by fastforce
    with False show ?thesis by (auto simp: merge_overlaps_def)
  qed
qed


lemma store_piece_fields [simp]:
  "rv_read_off (store_piece c r) = rv_read_off r" "rv_fin_off (store_piece c r) = rv_fin_off r"
  "rv_error (store_piece c r) = rv_error r" "rv_shutdown (store_piece c r) = rv_shutdown r"
  "rv_flow (store_piece c r) = rv_flow r" "rv_recv_off (store_piece c r) = max (rv_recv_off r) (rb_max_off c)"
  by (simp_all add: store_piece_def Let_def)

text \<open>Storing a part that lies apart from every chunk adds its bytes; at most an empty chunk, which
  marks the end of the stream, gives way to it.\<close>

lemma store_piece_spec:
  assumes ok: "rv_ok r" and c: "piece_ok r c" "unat (rv_read_off r) \<le> lo c"
    and apart: "\<forall>b \<in> set (map snd (rv_data r)). apart c b"
    and fresh: "rb_data c = [] \<longrightarrow> (\<forall>b \<in> set (map snd (rv_data r)). hi b \<noteq> hi c)"
  shows "rv_ok (store_piece c r)"
    and "\<not> rv_shutdown r \<Longrightarrow> rv_bytes (store_piece c r) = rv_bytes r \<union> rb_bytes c"
proof -
  have rc: "rb_ok c" using c by (simp add: piece_ok_def)
  have mo: "unat (rb_max_off c) = hi c" using rc by (rule unat_max_off)
  have wf: "bt_wf (rv_data r)" using ok by (simp add: rv_ok_def)
  have gone: "rb_data (snd e) = []" if "e \<in> set (rv_data r)" "fst e = rb_max_off c" for e
  proof -
    have "hi (snd e) = hi c" using rv_okD(2) [OF ok that(1)] that(2) mo by simp
    moreover from this have "rb_data c \<noteq> []" using fresh that(1) by auto
    moreover have "Recv_Buf.apart c (snd e)" using apart that(1) by simp
    ultimately show ?thesis
      using lo_le_hi [of c] lo_le_hi [of "snd e"] by (auto simp: apart_def empty_iff)
  qed
  have fin: "\<forall>f. rv_fin_off r = Some f \<longrightarrow> max (rv_recv_off r) (rb_max_off c) \<le> f"
    using ok c mo by (auto simp: rv_ok_def piece_ok_def word_le_nat_alt max_def)
  have efin: "rb_data c = [] \<longrightarrow> rv_fin_off r = Some (rb_max_off c)"
    using c by (auto simp: piece_ok_def rb_max_off_def)
  have ro: "rv_read_off r \<le> rb_off c" using c(2) by (simp add: word_le_nat_alt lo_def)
  let ?m = "bt_insert (rb_max_off c) c (rv_data r)"
  have set: "set ?m = insert (rb_max_off c, c) {e \<in> set (rv_data r). fst e \<noteq> rb_max_off c}"
    using wf by (rule set_bt_insert)
  show "rv_ok (store_piece c r)"
  proof (cases "rv_shutdown r")
    case True
    then show ?thesis using ok fin by (auto simp: rv_ok_def store_piece_def max_def)
  next
    case False
    have d: "rv_data (store_piece c r) = ?m" using False by (simp add: store_piece_def Let_def)
    have "rb_ok (snd e) \<and> fst e = rb_max_off (snd e) \<and> rv_read_off r \<le> rb_off (snd e)
        \<and> fst e \<le> max (rv_recv_off r) (rb_max_off c) \<and> (rb_data (snd e) = [] \<longrightarrow> rv_fin_off r = Some (fst e))"
      if "e \<in> set ?m" for e
      using that ok rc ro efin unfolding set by (auto simp: rv_ok_def le_max_iff_disj)
    moreover have "Recv_Buf.apart (snd e) (snd d)" if "e \<in> set ?m" "d \<in> set ?m" "e \<noteq> d" for e d
      using that ok apart unfolding set by (auto simp: rv_ok_def apart_def)
    ultimately show ?thesis
      using ok wf fin False unfolding rv_ok_def d by (simp add: bt_wf_insert le_max_iff_disj) metis
  qed
  assume "\<not> rv_shutdown r"
  then have d: "rv_data (store_piece c r) = ?m" by (simp add: store_piece_def Let_def)
  have "rb_bytes (snd e) = {}" if "e \<in> set (rv_data r)" "fst e = rb_max_off c" for e
    using gone [OF that] by (auto simp: rb_bytes_def empty_iff)
  then show "rv_bytes (store_piece c r) = rv_bytes r \<union> rb_bytes c"
    unfolding rv_bytes_def d set by auto
qed

text \<open>The loop of \<open>write\<close>, for pieces of one buffer.\<close>

definition written_from :: "range_buf list \<Rightarrow> recv_buf \<Rightarrow> recv_buf \<Rightarrow> bool" where
  "written_from tmp r r' \<longleftrightarrow> rv_ok r'
     \<and> rv_read_off r' = rv_read_off r \<and> rv_fin_off r' = rv_fin_off r \<and> rv_error r' = rv_error r
     \<and> rv_shutdown r' = rv_shutdown r \<and> rv_flow r' = rv_flow r
     \<and> rv_recv_off r \<le> rv_recv_off r' \<and> (\<forall>x \<in> set tmp. hi x \<le> unat (rv_recv_off r'))
     \<and> (rv_recv_off r' = rv_recv_off r \<or> (\<exists>x \<in> set tmp. unat (rv_recv_off r') \<le> hi x))
     \<and> (\<not> rv_shutdown r \<longrightarrow> rv_bytes r' = rv_bytes r
          \<union> {(p, x) \<in> (\<Union>c \<in> set tmp. rb_bytes c). unat (rv_read_off r) \<le> p \<and> p \<notin> fst ` rv_bytes r})"

lemma piece_ok_part:
  assumes "piece_ok r b" and "part_of c b" and "rb_ok c" and "rb_data c = [] \<longrightarrow> c = b" and "unat (rv_read_off r) \<le> lo b"
  shows "piece_ok r c"
proof (cases "rb_data c = []")
  case False
  then have "lo c < hi c" using lo_le_hi [of c] by (simp add: empty_iff)
  moreover have "lo b \<le> lo c" "hi c \<le> hi b" using assms(2) by (simp_all add: part_of_def)
  ultimately show ?thesis
    using assms(1,3,5) False by (auto simp: piece_ok_def intro: order_trans)
qed (use assms in simp)

lemma bytes_step:
  fixes R B C P T :: "(nat \<times> u8) set"
  assumes sv: "single_valued (B \<union> T)" and sub: "C \<subseteq> B" "P \<subseteq> B"
    and new: "\<forall>p \<in> fst ` C. k \<le> p \<and> p \<notin> fst ` R"
    and cover: "\<forall>p \<in> fst ` B. k \<le> p \<longrightarrow> p \<notin> fst ` R \<longrightarrow> p \<in> fst ` C \<union> fst ` P"
  shows "(R \<union> C) \<union> {(p, x) \<in> T \<union> P. k \<le> p \<and> p \<notin> fst ` (R \<union> C)}
    = R \<union> {(p, x) \<in> B \<union> T. k \<le> p \<and> p \<notin> fst ` R}" (is "?l = ?r")
proof
  show "?l \<subseteq> ?r"
  proof
    fix e assume "e \<in> ?l"
    then consider "e \<in> R" | "e \<in> C" | "e \<in> T \<union> P" "k \<le> fst e" "fst e \<notin> fst ` (R \<union> C)" by auto
    then show "e \<in> ?r"
    proof cases
      case 2
      then have "k \<le> fst e" "fst e \<notin> fst ` R" "e \<in> B" using new sub by auto
      then show ?thesis by (cases e) simp
    next
      case 3
      then have "e \<in> B \<union> T" "fst e \<notin> fst ` R" using sub by auto
      then show ?thesis using 3(2) by (cases e) simp
    qed simp
  qed
  have eq: "x = y" if "(p, x) \<in> B \<union> T" "(p, y) \<in> B \<union> T" for p x y
    using that sv by (auto simp: single_valued_def)
  show "?r \<subseteq> ?l"
  proof
    fix e assume "e \<in> ?r"
    then obtain p x where e: "e = (p, x)" and "(p, x) \<in> R \<or> ((p, x) \<in> B \<union> T \<and> k \<le> p \<and> p \<notin> fst ` R)"
      by (cases e) auto
    then consider "(p, x) \<in> R" | "(p, x) \<in> B \<union> T" "k \<le> p" "p \<notin> fst ` R" by blast
    then show "e \<in> ?l"
    proof cases
      case 2
      show ?thesis
      proof (cases "p \<in> fst ` C")
        case True
        then obtain y where "(p, y) \<in> C" by auto
        with eq [of p x y] 2(1) sub(1) show ?thesis by (auto simp: e)
      next
        case False
        consider "(p, x) \<in> T" | "(p, x) \<in> B" using 2(1) by blast
        then show ?thesis
        proof cases
          case 1
          with 2 False show ?thesis by (auto simp: e image_Un)
        next
          case 2
          then have "p \<in> fst ` P" using cover \<open>k \<le> p\<close> \<open>p \<notin> fst ` R\<close> False by force
          then obtain y where "(p, y) \<in> P" by auto
          with eq [of p x y] 2 sub(2) have "(p, x) \<in> P" by auto
          then show ?thesis using \<open>k \<le> p\<close> \<open>p \<notin> fst ` R\<close> False by (auto simp: e image_Un)
        qed
      qed
    qed (simp add: e)
  qed
qed

text \<open>One round of the loop: \<open>b\<close> is what is left of a piece after the read bytes are discarded.\<close>

definition after_merge :: "range_buf option \<Rightarrow> recv_buf \<Rightarrow> recv_buf" where
  "after_merge ob r = (case ob of None \<Rightarrow> r | Some c \<Rightarrow> store_piece c r)"

lemma after_merge_fields [simp]:
  "rv_read_off (after_merge ob r) = rv_read_off r" "rv_fin_off (after_merge ob r) = rv_fin_off r"
  "rv_error (after_merge ob r) = rv_error r" "rv_shutdown (after_merge ob r) = rv_shutdown r"
  "rv_flow (after_merge ob r) = rv_flow r"
  by (simp_all add: after_merge_def split: option.split)

lemma merged_parts:
  assumes "piece_ok r b" and "unat (rv_read_off r) \<le> lo b" and "merged bs b ob ps" and "c \<in> set_option ob \<union> set ps"
  shows "part_of c b" and "piece_ok r c" and "unat (rv_read_off r) \<le> lo c"
proof -
  have c: "part_of c b" "rb_ok c" "rb_data c = [] \<longrightarrow> c = b" using assms(3,4) unfolding merged_def by blast+
  then show "part_of c b" "unat (rv_read_off r) \<le> lo c" using assms(2) by (auto simp: part_of_def)
  show "piece_ok r c" by (rule piece_ok_part [OF assms(1) c assms(2)])
qed

lemma after_merge_ok:
  assumes ok: "rv_ok r" and b: "piece_ok r b" "unat (rv_read_off r) \<le> lo b" and m: "merged (map snd (rv_data r)) b ob ps"
  shows "rv_ok (after_merge ob r)"
    and "\<not> rv_shutdown r \<Longrightarrow> rv_bytes (after_merge ob r) = rv_bytes r \<union> (\<Union>c \<in> set_option ob. rb_bytes c)"
proof (atomize (full), cases ob)
  case (Some c)
  note md = m [unfolded merged_def]
  have "rb_data c = [] \<longrightarrow> (\<forall>e \<in> set (map snd (rv_data r)). hi e \<noteq> hi c)"
    "\<forall>e \<in> set (map snd (rv_data r)). apart c e" using md Some by auto
  then show "rv_ok (after_merge ob r) \<and>
      (\<not> rv_shutdown r \<longrightarrow> rv_bytes (after_merge ob r) = rv_bytes r \<union> (\<Union>c \<in> set_option ob. rb_bytes c))"
    using store_piece_spec [OF ok merged_parts(2,3) [OF b m]] Some by (simp add: after_merge_def)
qed (use ok in \<open>simp add: after_merge_def\<close>)

lemma after_merge_recv_off:
  assumes "\<forall>c \<in> set_option ob. rb_ok c \<and> hi c \<le> n"
  shows "rv_recv_off r \<le> rv_recv_off (after_merge ob r)"
    and "\<forall>c \<in> set_option ob. hi c \<le> unat (rv_recv_off (after_merge ob r))"
    and "rv_recv_off (after_merge ob r) = rv_recv_off r \<or> unat (rv_recv_off (after_merge ob r)) \<le> n"
  using assms unat_max_off by (auto simp: after_merge_def max_def word_le_nat_alt split: option.splits)

lemma merged_reach:
  assumes ok: "rv_ok r" and m: "merged (map snd (rv_data r)) b ob ps"
    and k: "rv_recv_off r \<le> k" "\<forall>c \<in> set_option ob \<union> set ps. hi c \<le> unat k"
  shows "hi b \<le> unat k"
proof -
  note md = m [unfolded merged_def]
  have chunk: "hi c \<le> unat k" if "c \<in> set_option ob \<union> set ps \<union> set (map snd (rv_data r))" for c
    using that k rv_okD(4) [OF ok] by (force simp: word_le_nat_alt)
  show ?thesis
  proof (cases "rb_data b = []")
    case True
    show ?thesis
    proof (cases ob)
      case None
      then obtain e where "e \<in> set (map snd (rv_data r))" "hi b \<le> hi e" using md True by auto
      then show ?thesis using chunk [of e] by auto
    next
      case (Some c)
      then have "part_of c b" using md by simp
      then have "hi c = hi b" using True lo_le_hi [of c] by (auto simp: part_of_def empty_iff)
      then show ?thesis using chunk [of c] Some by simp
    qed
  next
    case False
    then have "hi b - 1 \<in> {lo b ..< hi b}" using lo_le_hi [of b] by (auto simp: empty_iff)
    then have "hi b - 1 \<in> (\<Union>c \<in> set_option ob \<union> set ps \<union> set (map snd (rv_data r)). {lo c ..< hi c})"
      using md by blast
    then obtain c where "c \<in> set_option ob \<union> set ps \<union> set (map snd (rv_data r))" "hi b - 1 < hi c" by auto
    then show ?thesis using chunk [of c] by linarith
  qed
qed

lemma merged_bytes:
  assumes b: "piece_ok r b" "part_of b buf" "hi b = hi buf" "lo b = max (lo buf) (unat (rv_read_off r))"
    and m: "merged (map snd (rv_data r)) b ob ps" and sv: "single_valued (rb_bytes buf \<union> T)"
  defines "C \<equiv> \<Union>c \<in> set_option ob. rb_bytes c"
  shows "(rv_bytes r \<union> C) \<union> {(p, x) \<in> T \<union> (\<Union>c \<in> set ps. rb_bytes c).
        unat (rv_read_off r) \<le> p \<and> p \<notin> fst ` (rv_bytes r \<union> C)}
      = rv_bytes r \<union> {(p, x) \<in> rb_bytes buf \<union> T. unat (rv_read_off r) \<le> p \<and> p \<notin> fst ` rv_bytes r}"
proof (rule bytes_step [OF sv])
  note md = m [unfolded merged_def]
  have lob: "unat (rv_read_off r) \<le> lo b" using b(4) by simp
  note part = merged_parts [OF b(1) lob m]
  show "C \<subseteq> rb_bytes buf" "(\<Union>c \<in> set ps. rb_bytes c) \<subseteq> rb_bytes buf"
    using part(1) b(2) by (fastforce simp: C_def part_of_def)+
  have "unat (rv_read_off r) \<le> p \<and> p \<notin> fst ` rv_bytes r" if c: "ob = Some c" "lo c \<le> p" "p < hi c" for c p
  proof -
    have "apart c e" if "e \<in> set (map snd (rv_data r))" for e using md c(1) that by blast
    then have "p \<notin> fst ` rv_bytes r" using c(2,3) by (fastforce simp: rv_bytes_def rb_bytes_def apart_def)
    then show ?thesis using part(3) [of c] c by simp
  qed
  then show "\<forall>p \<in> fst ` C. unat (rv_read_off r) \<le> p \<and> p \<notin> fst ` rv_bytes r"
    by (auto simp: C_def rb_bytes_def)
  show "\<forall>p \<in> fst ` rb_bytes buf. unat (rv_read_off r) \<le> p \<longrightarrow> p \<notin> fst ` rv_bytes r \<longrightarrow>
      p \<in> fst ` C \<union> fst ` (\<Union>c \<in> set ps. rb_bytes c)"
  proof (intro ballI impI)
    fix p assume p: "p \<in> fst ` rb_bytes buf" "unat (rv_read_off r) \<le> p" "p \<notin> fst ` rv_bytes r"
    then have "p \<in> {lo b ..< hi b}" using b(3,4) by (simp add: fst_rb_bytes)
    then have "p \<in> (\<Union>c \<in> set_option ob \<union> set ps \<union> set (map snd (rv_data r)). {lo c ..< hi c})"
      using md by blast
    moreover have "p \<notin> (\<Union>c \<in> set (map snd (rv_data r)). {lo c ..< hi c})"
      using p(3) by (auto simp: rv_bytes_def image_UN fst_rb_bytes)
    ultimately show "p \<in> fst ` C \<union> fst ` (\<Union>c \<in> set ps. rb_bytes c)"
      by (auto simp: C_def image_UN fst_rb_bytes)
  qed
qed

lemma write_pieces_spec:
  assumes "rv_ok r" and "\<forall>x \<in> set tmp. piece_ok r x" and "single_valued (\<Union>c \<in> set tmp. rb_bytes c)"
  shows "\<exists>r'. write_pieces tmp r = (Ok (), r') \<and> written_from tmp r r'"
  using assms
proof (induction tmp r rule: write_pieces.induct)
  case (1 r)
  then show ?case by (simp add: written_from_def)
next
  case (2 buf tmp r)
  note IH = "2.IH" and ok = "2.prems"(1) and pieces = "2.prems"(2) and sv = "2.prems"(3)
  obtain b where b: "discard_read r buf = Ok b" "part_of b buf" "hi b = hi buf"
    "lo b = max (lo buf) (unat (rv_read_off r))" "rb_ok b" "piece_ok r b"
    using discard_read_spec [of r buf] pieces by auto
  then have lob: "unat (rv_read_off r) \<le> lo b" by simp
  obtain ob ps where m: "merge_overlaps r b tmp = Ok (ob, tmp @ ps)" "merged (map snd (rv_data r)) b ob ps"
    using merge_overlaps_spec [OF ok b(6) lob, of tmp] by blast
  define r1 where "r1 = after_merge ob r"
  have eq: "write_pieces (buf # tmp) r = write_pieces (tmp @ ps) r1"
    using b(1) m(1) by (simp add: r1_def after_merge_def split: option.split)
  note part = merged_parts [OF b(6) lob m(2)]
  have sub: "rb_bytes c \<subseteq> rb_bytes buf" "hi c \<le> hi buf" if "c \<in> set_option ob \<union> set ps" for c
    using part(1) [OF that] b(2) by (auto simp: part_of_def)
  note r1 = after_merge_ok [OF ok b(6) lob m(2), folded r1_def]
  have "\<forall>c \<in> set_option ob. rb_ok c \<and> hi c \<le> hi buf" using part(2) sub(2) by (auto simp: piece_ok_def)
  note ro = after_merge_recv_off [OF this, of r, folded r1_def]
  have "(\<Union>c \<in> set (tmp @ ps). rb_bytes c) \<subseteq> (\<Union>c \<in> set (buf # tmp). rb_bytes c)" using sub(1) by fastforce
  then have "single_valued (\<Union>c \<in> set (tmp @ ps). rb_bytes c)" using sv by (rule single_valued_subset)
  moreover have "\<forall>x \<in> set (tmp @ ps). piece_ok r1 x"
    using pieces part(2) by (auto simp: piece_ok_def r1_def)
  ultimately obtain r' where r': "write_pieces (tmp @ ps) r1 = (Ok (), r')" "written_from (tmp @ ps) r1 r'"
    using IH(1) [OF b(1) m(1)] IH(2) [OF b(1) m(1)] r1(1) by (cases ob) (auto simp: r1_def after_merge_def)
  note w = r'(2) [unfolded written_from_def r1_def after_merge_fields, folded r1_def]
  have "rv_recv_off r \<le> rv_recv_off r'" "\<forall>c \<in> set_option ob \<union> set ps. hi c \<le> unat (rv_recv_off r')"
    using w ro by (auto simp: word_le_nat_alt intro: order_trans)
  then have "hi buf \<le> unat (rv_recv_off r')" using merged_reach [OF ok m(2)] b(3) by simp
  moreover have "rv_recv_off r' = rv_recv_off r \<or> (\<exists>x \<in> set (buf # tmp). unat (rv_recv_off r') \<le> hi x)"
    using w ro(3) sub(2) by (auto intro: order_trans)
  moreover have "rv_bytes r' = rv_bytes r \<union> {(p, x) \<in> rb_bytes buf \<union> (\<Union>c \<in> set tmp. rb_bytes c).
      unat (rv_read_off r) \<le> p \<and> p \<notin> fst ` rv_bytes r}" if "\<not> rv_shutdown r"
    using merged_bytes [OF b(6,2-4) m(2), of "\<Union>c \<in> set tmp. rb_bytes c"] sv w r1(2) [OF that] that by simp
  ultimately have "written_from (buf # tmp) r r'"
    unfolding written_from_def using w ro(1) by auto
  then show ?case using eq r'(1) by auto
qed


declare write_pieces.simps [simp del]

text \<open>A frame is accepted when it stays within the flow control limit and agrees with what is known
  of the final size; a violation of the limit is reported first.\<close>

definition acceptable :: "nat \<Rightarrow> bool \<Rightarrow> recv_buf \<Rightarrow> bool" where
  "acceptable n fin r \<longleftrightarrow>
     (\<forall>f. rv_fin_off r = Some f \<longrightarrow> n \<le> unat f \<and> (fin \<longrightarrow> n = unat f)) \<and> (fin \<longrightarrow> unat (rv_recv_off r) \<le> n)"

definition wrote :: "u64 \<Rightarrow> bytes \<Rightarrow> bool \<Rightarrow> recv_buf \<Rightarrow> recv_buf \<Rightarrow> bool" where
  "wrote off data fin r r' \<longleftrightarrow> rv_ok r'
     \<and> rv_read_off r' = rv_read_off r \<and> rv_error r' = rv_error r \<and> rv_shutdown r' = rv_shutdown r
     \<and> rv_flow r' = rv_flow r
     \<and> rv_fin_off r' = (if fin then Some (off + as_u64 (length data)) else rv_fin_off r)
     \<and> unat (rv_recv_off r') = (if data = [] \<and> \<not> fin then unat (rv_recv_off r)
          else max (unat (rv_recv_off r)) (unat off + length data))
     \<and> (\<not> rv_shutdown r \<longrightarrow> rv_bytes r' = rv_bytes r
          \<union> {(p, x). unat off \<le> p \<and> p < unat off + length data \<and> x = data ! (p - unat off)
                \<and> unat (rv_read_off r) \<le> p \<and> p \<notin> fst ` rv_bytes r})"

lemma rb_bytes_new:
  "rb_bytes (rb_new data off fin) = {(p, x). unat off \<le> p \<and> p < unat off + length data \<and> x = data ! (p - unat off)}"
  by (simp add: rb_bytes_def rb_new_def lo_def hi_def)

lemma single_valued_rb_bytes: "single_valued (rb_bytes b)"
  by (auto simp: single_valued_def rb_bytes_def)

lemma rv_ok_set_fin:
  assumes "rv_ok r" and "rv_recv_off r \<le> f" and "\<forall>g. rv_fin_off r = Some g \<longrightarrow> f = g"
  shows "rv_ok (r\<lparr>rv_fin_off := Some f\<rparr>)"
proof -
  have "rv_fin_off r = Some x \<Longrightarrow> x = f" for x using assms(3) by auto
  then show ?thesis using assms(1,2) by (fastforce simp: rv_ok_def)
qed

lemma wrote_nothing:
  assumes ok: "rv_ok r" and n: "unat off + length data < 2 ^ 64" "acceptable (unat off + length data) fin r"
    and old: "data = [] \<and> \<not> fin \<or> unat off + length data \<le> unat (rv_read_off r)"
  shows "wrote off data fin r (if fin then r\<lparr>rv_fin_off := Some (off + as_u64 (length data))\<rparr> else r)"
proof -
  let ?f = "off + as_u64 (length data)"
  have f: "unat ?f = unat off + length data" using n(1) by (simp add: unat_add_small unat_of_nat_u64)
  have "rv_ok (r\<lparr>rv_fin_off := Some ?f\<rparr>)" if fin
    using n(2) f that by (intro rv_ok_set_fin [OF ok]) (auto simp: acceptable_def word_le_nat_alt word_unat_eq_iff)
  moreover have "unat (rv_read_off r) \<le> unat (rv_recv_off r)" using ok by (simp add: rv_ok_def word_le_nat_alt)
  ultimately show ?thesis using ok old by (auto simp: wrote_def rv_bytes_def)
qed

lemma wrote_pieces:
  assumes ok: "rv_ok r" and n: "unat off + length data < 2 ^ 64" "acceptable (unat off + length data) fin r"
    and new: "data = [] \<longrightarrow> fin" "data \<noteq> [] \<longrightarrow> unat (rv_read_off r) < unat off + length data"
  defines "r1 \<equiv> if fin then r\<lparr>rv_fin_off := Some (off + as_u64 (length data))\<rparr> else r"
  shows "\<exists>r'. write_pieces [rb_new data off fin] r1 = (Ok (), r') \<and> wrote off data fin r r'"
proof -
  let ?f = "off + as_u64 (length data)" and ?buf = "rb_new data off fin"
  have f: "unat ?f = unat off + length data" using n(1) by (simp add: unat_add_small unat_of_nat_u64)
  have ok1: "rv_ok r1"
    using n(2) f ok by (auto simp: r1_def acceptable_def word_le_nat_alt word_unat_eq_iff intro!: rv_ok_set_fin)
  have hi: "hi ?buf = unat off + length data" "rb_ok ?buf" using n(1) by (simp_all add: rb_new_def hi_def rb_ok_def)
  have "rv_read_off r \<le> rv_recv_off r" using ok by (simp add: rv_ok_def)
  then have "rv_read_off r \<le> off" if "data = []"
    using that new(1) n(2) by (auto simp: acceptable_def word_le_nat_alt)
  moreover have "\<forall>g. rv_fin_off r1 = Some g \<longrightarrow> unat off + length data \<le> unat g"
    using n(2) f by (auto simp: r1_def acceptable_def)
  ultimately have "piece_ok r1 ?buf"
    using hi new by (auto simp: piece_ok_def rb_new_def r1_def)
  then obtain r' where r': "write_pieces [?buf] r1 = (Ok (), r')" "written_from [?buf] r1 r'"
    using write_pieces_spec [OF ok1, of "[?buf]"] single_valued_rb_bytes by auto
  have fields: "rv_read_off r1 = rv_read_off r" "rv_recv_off r1 = rv_recv_off r" "rv_error r1 = rv_error r"
    "rv_shutdown r1 = rv_shutdown r" "rv_flow r1 = rv_flow r" "rv_bytes r1 = rv_bytes r"
    "rv_fin_off r1 = (if fin then Some ?f else rv_fin_off r)"
    by (simp_all add: r1_def rv_bytes_def)
  note w = r'(2) [unfolded written_from_def fields list.set hi, simplified, unfolded hi rb_bytes_new]
  have "unat (rv_recv_off r') = max (unat (rv_recv_off r)) (unat off + length data)"
    using w by (auto simp: word_le_nat_alt)
  then have "wrote off data fin r r'" using w new(1) unfolding wrote_def by auto
  with r'(1) show ?thesis by blast
qed

lemma rv_write_spec:
  assumes ok: "rv_ok r" and n: "unat off + length data < 2 ^ 64"
  defines "n \<equiv> unat off + length data"
  shows "rv_write off data fin r =
      (if unat (fc_max_data (rv_flow r)) < n then (Err FlowControlError, r)
       else if \<not> acceptable n fin r then (Err FinalSizeError, r)
       else (Ok (), snd (rv_write off data fin r)))"
    and "n \<le> unat (fc_max_data (rv_flow r)) \<Longrightarrow> acceptable n fin r \<Longrightarrow> wrote off data fin r (snd (rv_write off data fin r))"
proof -
  define buf where "buf = rb_new data off fin"
  have buf: "rb_ok buf" "hi buf = n" "lo buf = unat off" "rb_off buf = off" "rb_data buf = data" "rb_fin buf = fin"
    using n by (simp_all add: buf_def rb_new_def rb_ok_def hi_def lo_def n_def)
  have mo: "unat (rb_max_off buf) = n" "rb_max_off buf = off + as_u64 (length data)"
    using unat_max_off [OF buf(1)] buf by (simp_all add: rb_max_off_def)
  have guards: "fc_max_data (rv_flow r) < rb_max_off buf \<longleftrightarrow> unat (fc_max_data (rv_flow r)) < n"
    "(case rv_fin_off r of Some fin_off \<Rightarrow> fin_off < rb_max_off buf \<or> (rb_fin buf \<and> fin_off \<noteq> rb_max_off buf) | None \<Rightarrow> False)
      \<or> (rb_fin buf \<and> rb_max_off buf < rv_recv_off r) \<longleftrightarrow> \<not> acceptable n fin r"
    using mo buf(6) by (auto simp: acceptable_def word_less_nat_alt word_unat_eq_iff not_less split: option.splits)
  have "\<exists>r'. rv_write off data fin r = (Ok (), r') \<and> wrote off data fin r r'"
    if acc: "n \<le> unat (fc_max_data (rv_flow r))" "acceptable n fin r"
  proof -
    have g: "\<not> fc_max_data (rv_flow r) < rb_max_off buf"
      "\<not> (case rv_fin_off r of Some fin_off \<Rightarrow> fin_off < rb_max_off buf \<or> (rb_fin buf \<and> fin_off \<noteq> rb_max_off buf) | None \<Rightarrow> False)"
      "\<not> (rb_fin buf \<and> rb_max_off buf < rv_recv_off r)"
      using guards acc by auto
    let ?r1 = "if fin then r\<lparr>rv_fin_off := Some (off + as_u64 (length data))\<rparr> else r"
    have w: "rv_write off data fin r = (if rv_is_fin r then (Ok (), r)
        else if \<not> fin \<and> data = [] \<or> n \<le> unat (rv_read_off r) \<and> data \<noteq> [] then (Ok (), ?r1)
        else write_pieces [buf] ?r1)"
      unfolding rv_write_def buf_def [symmetric] Let_def using g mo buf(5,6)
      by (simp add: rb_is_empty_def word_le_nat_alt cong: if_cong)
    show ?thesis
    proof (cases "rv_is_fin r")
      case True
      then have f: "rv_fin_off r = Some (rv_read_off r)" by (simp add: rv_is_fin_def)
      then have "n \<le> unat (rv_read_off r)" "?r1 = r"
        using acc(2) mo by (auto simp: acceptable_def word_unat_eq_iff)
      then show ?thesis using wrote_nothing [OF ok n acc(2) [unfolded n_def]] True w by (auto simp: n_def)
    next
      case False
      then show ?thesis
        using wrote_nothing [OF ok n acc(2) [unfolded n_def]] wrote_pieces [OF ok n acc(2) [unfolded n_def]] w
        by (auto simp: n_def buf_def)
    qed
  qed
  then show "n \<le> unat (fc_max_data (rv_flow r)) \<Longrightarrow> acceptable n fin r \<Longrightarrow> wrote off data fin r (snd (rv_write off data fin r))"
    "rv_write off data fin r =
      (if unat (fc_max_data (rv_flow r)) < n then (Err FlowControlError, r)
       else if \<not> acceptable n fin r then (Err FinalSizeError, r)
       else (Ok (), snd (rv_write off data fin r)))"
    using guards by (auto simp: rv_write_def buf_def [symmetric] Let_def split: if_splits)
qed


lemma rv_write_OkD:
  assumes "rv_ok r" and "unat off + length data < 2 ^ 64" and "rv_write off data fin r = (Ok (), r')"
  shows "wrote off data fin r r'"
  using rv_write_spec [OF assms(1,2), of fin] unfolding assms(3) by (auto split: if_splits simp: not_less)

lemma rv_write_ErrD:
  assumes "rv_ok r" and "unat off + length data < 2 ^ 64" and "rv_write off data fin r = (Err e, r')"
  shows "r' = r" and "e = FlowControlError \<or> e = FinalSizeError"
  using rv_write_spec(1) [OF assms(1,2), of fin] unfolding assms(3) by (auto split: if_splits)

subsection \<open>Reading\<close>

definition entries_bytes :: "(u64, range_buf) btree \<Rightarrow> (nat \<times> u8) set" where
  "entries_bytes m = (\<Union>e \<in> set m. rb_bytes (snd e))"

definition entries_ok :: "u64 \<Rightarrow> (u64, range_buf) btree \<Rightarrow> bool" where
  "entries_ok ro m \<longleftrightarrow> sorted_wrt (\<lambda>e d. fst e < fst d \<and> hi (snd e) \<le> lo (snd d)) m
     \<and> (\<forall>e \<in> set m. rb_ok (snd e) \<and> fst e = rb_max_off (snd e) \<and> ro \<le> rb_off (snd e))"

lemma entries_ok_Cons:
  "entries_ok ro (e # m) \<longleftrightarrow> rb_ok (snd e) \<and> fst e = rb_max_off (snd e) \<and> ro \<le> rb_off (snd e)
     \<and> (\<forall>d \<in> set m. fst e < fst d \<and> hi (snd e) \<le> lo (snd d)) \<and> entries_ok ro m"
  by (auto simp: entries_ok_def)

lemma entries_ok_mono:
  "entries_ok ro m \<Longrightarrow> (\<forall>e \<in> set m. ro' \<le> rb_off (snd e)) \<Longrightarrow> entries_ok ro' m"
  by (auto simp: entries_ok_def)

definition took :: "nat \<Rightarrow> u64 \<Rightarrow> (u64, range_buf) btree \<Rightarrow> bytes \<Rightarrow> u64 \<Rightarrow> (u64, range_buf) btree \<Rightarrow> bool" where
  "took cap ro m out ro' m' \<longleftrightarrow> length out \<le> cap \<and> unat ro' = unat ro + length out
     \<and> (\<forall>i < length out. (unat ro + i, out ! i) \<in> entries_bytes m)
     \<and> entries_bytes m' = {e \<in> entries_bytes m. unat ro' \<le> fst e}
     \<and> entries_ok ro' m' \<and> fst ` set m' \<subseteq> fst ` set m
     \<and> (\<forall>e \<in> set m'. rb_data (snd e) = [] \<longrightarrow> e \<in> set m)
     \<and> (length out = cap \<or> unat ro' \<notin> fst ` entries_bytes m')"

lemma entries_bytes_ge:
  assumes "entries_ok ro m" and "e \<in> entries_bytes m"
  shows "unat ro \<le> fst e"
  using assms by (fastforce simp: entries_ok_def entries_bytes_def rb_bytes_def word_le_nat_alt lo_def)

lemma took_nothing:
  assumes "entries_ok ro m" and "cap = 0 \<or> unat ro \<notin> fst ` entries_bytes m"
  shows "took cap ro m [] ro m"
  using assms entries_bytes_ge [OF assms(1)] by (auto simp: took_def)

lemma took_partly:
  assumes ok: "entries_ok ro ((k, b) # m)" and "rb_off b = ro" and "cap < rb_len b"
  shows "took cap ro ((k, b) # m) (take cap (rb_data b)) (ro + as_u64 cap)
    ((k, b\<lparr>rb_data := drop cap (rb_data b), rb_off := rb_off b + as_u64 cap\<rparr>) # m)"
proof -
  define c where "c = b\<lparr>rb_data := drop cap (rb_data b), rb_off := rb_off b + as_u64 cap\<rparr>"
  have b: "rb_ok b" "k = rb_max_off b" "\<forall>d \<in> set m. k < fst d \<and> hi b \<le> lo (snd d)" "entries_ok ro m"
    using ok by (auto simp: entries_ok_Cons)
  have c: "lo c = lo b + cap" "hi c = hi b" "rb_ok c"
    using rb_advance_spec [OF b(1), of cap] assms(3) by (simp_all add: rb_advance_def c_def [symmetric])
  have lo: "lo b = unat ro" "unat (ro + as_u64 cap) = unat ro + cap"
    using assms(2) c(1) by (simp_all add: lo_def c_def)
  have key: "k = rb_max_off c"
    using unat_max_off [OF b(1)] unat_max_off [OF c(3)] c(2) b(2) by (simp add: word_unat_eq_iff)
  have m: "hi b \<le> fst e" if "e \<in> entries_bytes m" for e
    using that b(3) by (fastforce simp: entries_bytes_def rb_bytes_def)
  have "lo b + cap \<le> hi b" using assms(3) by (simp add: hi_lo)
  moreover have "rb_bytes c = {e \<in> rb_bytes b. lo b + cap \<le> fst e}"
    using c(1,2) assms(3) by (auto simp: rb_bytes_def c_def)
  ultimately have bytes: "entries_bytes ((k, c) # m) = {e \<in> entries_bytes ((k, b) # m). lo b + cap \<le> fst e}"
    using m by (fastforce simp: entries_bytes_def)
  have "entries_ok (ro + as_u64 cap) ((k, c) # m)"
    using b c key lo \<open>lo b + cap \<le> hi b\<close>
    by (auto simp: entries_ok_Cons word_le_nat_alt lo_def [symmetric] intro!: entries_ok_mono [OF b(4)]
        intro: order_trans)
  moreover have "(unat ro + i, rb_data b ! i) \<in> rb_bytes b" if "i < cap" for i
    using that assms(3) lo(1) by (simp add: rb_bytes_def hi_lo)
  moreover have "rb_data c \<noteq> []" using assms(3) by (simp add: c_def)
  ultimately show ?thesis
    unfolding took_def c_def [symmetric] using lo bytes assms(3) by (auto simp: entries_bytes_def)
qed

lemma took_whole:
  assumes ok: "entries_ok ro ((k, b) # m)" and "rb_off b = ro" and "rb_len b \<le> cap"
    and t: "took (cap - rb_len b) (ro + as_u64 (rb_len b)) m out ro' m'"
  shows "took cap ro ((k, b) # m) (rb_data b @ out) ro' m'"
proof -
  have b: "rb_ok b" "\<forall>d \<in> set m. hi b \<le> lo (snd d)" using ok by (auto simp: entries_ok_Cons)
  have lo: "lo b = unat ro" "unat (ro + as_u64 (rb_len b)) = hi b"
    using unat_max_off [OF b(1)] assms(2) by (simp_all add: lo_def rb_max_off_def)
  have "fst e < hi b" if "e \<in> rb_bytes b" for e using that by (auto simp: rb_bytes_def)
  then have bytes: "entries_bytes m' = {e \<in> entries_bytes ((k, b) # m). unat ro' \<le> fst e}"
    using t lo(2) by (fastforce simp: took_def entries_bytes_def)
  have nth: "(unat ro + i, (rb_data b @ out) ! i) \<in> entries_bytes ((k, b) # m)" if "i < rb_len b + length out" for i
  proof (cases "i < rb_len b")
    case True
    then show ?thesis using lo(1) by (simp add: entries_bytes_def rb_bytes_def hi_lo nth_append)
  next
    case False
    have "\<forall>j < length out. (hi b + j, out ! j) \<in> entries_bytes m" using t lo(2) by (simp add: took_def)
    moreover have "i - rb_len b < length out" using False that by linarith
    ultimately have "(hi b + (i - rb_len b), out ! (i - rb_len b)) \<in> entries_bytes m" by blast
    moreover have "hi b + (i - rb_len b) = unat ro + i" using False lo(1) by (simp add: hi_lo)
    ultimately show ?thesis using False by (simp add: entries_bytes_def nth_append)
  qed
  note t = t [unfolded took_def]
  show ?thesis
    unfolding took_def
  proof (intro conjI)
    show "length (rb_data b @ out) \<le> cap" "unat ro' = unat ro + length (rb_data b @ out)"
      using t lo assms(3) by (auto simp: hi_lo)
    have "length out = cap - rb_len b \<or> unat ro' \<notin> fst ` entries_bytes m'" using t by blast
    then show "length (rb_data b @ out) = cap \<or> unat ro' \<notin> fst ` entries_bytes m'" using assms(3) by auto
  qed (use t nth bytes in auto)
qed

lemma read_entries_spec:
  assumes "entries_ok ro m" and "read_entries cap ro m = (out, ro', m')"
  shows "took cap ro m out ro' m'"
  using assms
proof (induction m arbitrary: cap ro out ro' m')
  case Nil
  then show ?case by (simp add: took_def entries_bytes_def)
next
  case (Cons e m)
  obtain k b where e: "e = (k, b)" by (cases e)
  note ok = Cons.prems(1) [unfolded e]
  have b: "rb_ok b" "ro \<le> rb_off b" "\<forall>d \<in> set m. hi b \<le> lo (snd d)" and m: "entries_ok ro m"
    using ok by (auto simp: entries_ok_Cons)
  consider (stop) "cap = 0" | (gap) "rb_off b \<noteq> ro" | (partly) "0 < cap" "rb_off b = ro" "cap < rb_len b"
    | (whole) "0 < cap" "rb_off b = ro" "rb_len b \<le> cap" by linarith
  then show ?case
  proof cases
    case stop
    then show ?thesis using Cons.prems took_nothing by (auto simp: e)
  next
    case gap
    then have "unat ro < lo b" using b(2) by (simp add: lo_def word_le_nat_alt word_unat_eq_iff)
    then have "unat ro \<notin> fst ` entries_bytes ((k, b) # m)"
      using b(3) lo_le_hi [of b] by (fastforce simp: entries_bytes_def rb_bytes_def)
    then show ?thesis using gap Cons.prems took_nothing by (auto simp: e)
  next
    case partly
    then show ?thesis using took_partly [OF ok partly(2,3)] Cons.prems(2) by (auto simp: e min_def)
  next
    case whole
    obtain out2 where r: "read_entries (cap - rb_len b) (ro + as_u64 (rb_len b)) m = (out2, ro', m')"
      "out = rb_data b @ out2"
      using Cons.prems(2) whole by (auto simp: e min_def Let_def split: prod.splits)
    have "unat (ro + as_u64 (rb_len b)) = hi b"
      using unat_max_off [OF b(1)] whole(2) by (simp add: rb_max_off_def)
    then have "entries_ok (ro + as_u64 (rb_len b)) m"
      using b(3) by (intro entries_ok_mono [OF m]) (auto simp: word_le_nat_alt lo_def)
    from took_whole [OF ok whole(2,3) Cons.IH [OF this r(1)]] show ?thesis by (simp add: e r(2))
  qed
qed

lemma rv_ok_entries: "rv_ok r \<Longrightarrow> entries_ok (rv_read_off r) (rv_data r)"
proof -
  assume ok: "rv_ok r"
  have "sorted_wrt (\<lambda>b c. hi b \<le> lo c) (map snd (rv_data r))" using rv_chunks_sorted [OF ok, of 0] by simp
  then have "sorted_wrt (\<lambda>e d. fst e < fst d \<and> hi (snd e) \<le> lo (snd d)) (rv_data r)"
    using ok by (auto simp: rv_ok_def bt_wf_def sorted_wrt_map sorted_wrt_iff_nth_less)
  then show ?thesis using ok by (simp add: rv_ok_def entries_ok_def)
qed

lemma rv_bytes_less: "rv_ok r \<Longrightarrow> (p, x) \<in> rv_bytes r \<Longrightarrow> p < unat (rv_recv_off r)"
  using rv_okD(4) by (fastforce simp: rv_bytes_def rb_bytes_def)

lemma rv_read_spec:
  assumes ok: "rv_ok r" and r: "rv_read cap r = (Ok (out, fin), r')"
  shows "rv_ok r'" and "length out \<le> cap" and "unat (rv_read_off r') = unat (rv_read_off r) + length out"
    and "\<forall>i < length out. (unat (rv_read_off r) + i, out ! i) \<in> rv_bytes r"
    and "rv_bytes r' = {e \<in> rv_bytes r. unat (rv_read_off r') \<le> fst e}"
    and "length out = cap \<or> unat (rv_read_off r') \<notin> fst ` rv_bytes r'"
    and "fin = rv_is_fin r'" and "rv_fin_off r' = rv_fin_off r" and "rv_recv_off r' = rv_recv_off r"
    and "rv_shutdown r' = rv_shutdown r" and "rv_error r' = rv_error r"
    and "rv_flow r' = increase_read_off (as_u64 (length out)) (rv_flow r)"
proof -
  obtain ro m where re: "read_entries cap (rv_read_off r) (rv_data r) = (out, ro, m)"
    and r': "r' = r\<lparr>rv_data := m, rv_read_off := ro, rv_flow := increase_read_off (as_u64 (length out)) (rv_flow r)\<rparr>"
      "fin = rv_is_fin r'"
    using r by (auto simp: rv_read_def Let_def split: if_splits option.splits prod.splits)
  have t: "took cap (rv_read_off r) (rv_data r) out ro m" by (rule read_entries_spec [OF rv_ok_entries [OF ok] re])
  have eb: "entries_bytes (rv_data r) = rv_bytes r" "entries_bytes m = rv_bytes r'"
    by (simp_all add: entries_bytes_def rv_bytes_def r')
  have ro: "rv_read_off r' = ro" by (simp add: r')
  show "length out \<le> cap" "unat (rv_read_off r') = unat (rv_read_off r) + length out"
    and new: "\<forall>i < length out. (unat (rv_read_off r) + i, out ! i) \<in> rv_bytes r"
    and "rv_bytes r' = {e \<in> rv_bytes r. unat (rv_read_off r') \<le> fst e}"
    "length out = cap \<or> unat (rv_read_off r') \<notin> fst ` rv_bytes r'"
    using t unfolding took_def eb ro by blast+
  have keys: "fst ` set m \<subseteq> fst ` set (rv_data r)" and eok: "entries_ok ro m"
    and empty: "\<forall>e \<in> set m. rb_data (snd e) = [] \<longrightarrow> e \<in> set (rv_data r)"
    using t by (simp_all add: took_def)
  have srt: "sorted_wrt (\<lambda>e d. fst e < fst d \<and> hi (snd e) \<le> lo (snd d)) m" using eok by (simp add: entries_ok_def)
  have "apart (snd e) (snd d)" if "e \<in> set m" "d \<in> set m" "e \<noteq> d" for e d
    using that srt by (auto simp: apart_def sorted_wrt_iff_nth_less in_set_conv_nth) (metis nat_neq_iff)
  moreover have "bt_wf m" unfolding bt_wf_def sorted_wrt_map by (rule sorted_wrt_mono_rel [OF _ srt]) simp
  moreover have "fst e \<le> rv_recv_off r" if mem: "e \<in> set m" for e
  proof -
    have "fst e \<in> fst ` set (rv_data r)" using mem keys by blast
    then obtain d where "d \<in> set (rv_data r)" "fst e = fst d" by auto
    then show ?thesis using rv_okD(2,4) [OF ok] by (simp add: word_le_nat_alt)
  qed
  moreover have "ro \<le> rv_recv_off r"
  proof (cases "out = []")
    case True
    then show ?thesis using t ok by (simp add: took_def rv_ok_def word_le_nat_alt)
  next
    case False
    then have "(unat (rv_read_off r) + (length out - 1), out ! (length out - 1)) \<in> rv_bytes r" using new by simp
    from rv_bytes_less [OF ok this] show ?thesis using t False by (simp add: took_def word_le_nat_alt)
  qed
  moreover have "rb_data (snd e) = [] \<longrightarrow> rv_fin_off r = Some (fst e)" if "e \<in> set m" for e
    using that empty rv_okD(5) [OF ok] by blast
  moreover have "rv_shutdown r \<longrightarrow> m = []" using ok keys by (auto simp: rv_ok_def)
  ultimately show "rv_ok r'"
    unfolding rv_ok_def using ok eok by (simp add: r' rv_ok_def entries_ok_def)
qed (use r in \<open>auto simp: rv_read_def Let_def split: if_splits option.splits prod.splits\<close>)


subsection \<open>Reset and shutdown\<close>

lemma rv_ok_new: "rv_ok (rv_new max_data max_window)"
  by (simp add: rv_ok_def rv_new_def)

lemma rv_ok_flow: "rv_ok (r\<lparr>rv_flow := fc\<rparr>) \<longleftrightarrow> rv_ok r" "rv_bytes (r\<lparr>rv_flow := fc\<rparr>) = rv_bytes r"
  by (simp_all add: rv_ok_def rv_bytes_def)

lemma rv_ok_clear: "rv_ok r \<Longrightarrow> rv_ok (r\<lparr>rv_data := []\<rparr>)"
  by (simp add: rv_ok_def)

lemma rv_ok_error: "rv_ok (r\<lparr>rv_error := e\<rparr>) \<longleftrightarrow> rv_ok r"
  by (simp add: rv_ok_def)

lemma rv_shut_spec:
  assumes "rv_ok r" and "\<not> rv_shutdown r"
  shows "\<exists>r'. rv_shut r = (Ok (rv_recv_off r - rv_read_off r), r') \<and> rv_ok r' \<and> rv_shutdown r' \<and> rv_data r' = []
    \<and> rv_read_off r' = rv_recv_off r"
  using assms by (auto simp: rv_shut_def rv_ok_def)

text \<open>An empty final frame on an empty buffer leaves a marker at the final offset.\<close>

lemma rv_write_marker:
  assumes ok: "rv_ok r" and "rv_data r = []" and "\<not> rv_shutdown r" and "\<not> rv_is_fin r"
    and w: "rv_write f [] True r = (Ok (), r')"
  shows "rv_data r' = [(f, rb_new [] f True)]"
proof -
  have acc: "rv_recv_off r \<le> f"
    using w by (auto simp: rv_write_def Let_def rb_new_def rb_max_off_def split: if_splits)
  have "\<not> f < rv_read_off r" using acc ok by (auto simp: rv_ok_def)
  then have "discard_read (r\<lparr>rv_fin_off := Some f\<rparr>) (rb_new [] f True) = Ok (rb_new [] f True)"
    by (auto simp: discard_read_def rb_new_def)
  then have "write_pieces [rb_new [] f True] (r\<lparr>rv_fin_off := Some f\<rparr>) =
      (Ok (), store_piece (rb_new [] f True) (r\<lparr>rv_fin_off := Some f\<rparr>))"
    using assms(2) by (simp add: write_pieces.simps merge_overlaps_def rb_new_def)
  then have "r' = store_piece (rb_new [] f True) (r\<lparr>rv_fin_off := Some f\<rparr>)"
    using w assms(4) by (auto simp: rv_write_def Let_def rb_new_def rb_max_off_def rb_is_empty_def split: if_splits)
  then show ?thesis using assms(2,3) by (simp add: store_piece_def Let_def rb_max_off_def rb_new_def)
qed

lemma rv_ok_skip:
  assumes ok: "rv_ok r" and "rv_bytes r = {}" and "rv_fin_off r = Some (rv_recv_off r)"
  shows "rv_ok (r\<lparr>rv_read_off := rv_recv_off r\<rparr>)"
proof -
  have "rv_recv_off r \<le> rb_off (snd e)" if e: "e \<in> set (rv_data r)" for e
  proof -
    have "rb_bytes (snd e) = {}" using assms(2) e by (auto simp: rv_bytes_def)
    then have "fst ` rb_bytes (snd e) = {}" by simp
    then have "rb_data (snd e) = []" using lo_le_hi [of "snd e"] by (simp add: fst_rb_bytes empty_iff)
    then have "fst e = rv_recv_off r" "rb_off (snd e) = fst e"
      using rv_okD(5) [OF ok e] assms(3) ok e by (auto simp: rv_ok_def rb_max_off_def)
    then show ?thesis by simp
  qed
  then show ?thesis using ok assms(3) by (auto simp: rv_ok_def)
qed

lemma rv_reset_cases:
  assumes ok: "rv_ok r" and "rv_reset code final_size r = (res, r')"
  obtains (refused) e where "res = Err e" "rv_ok r'"
    | (repeated) "rv_error r \<noteq> None" "r' = r" "res = Ok (unat (final_size - rv_recv_off r))" "rv_recv_off r \<le> final_size"
    | (applied) w where "rv_error r = None" "rv_write final_size [] True (r\<lparr>rv_error := Some code, rv_data := []\<rparr>) = (Ok (), w)"
      "wrote final_size [] True (r\<lparr>rv_error := Some code, rv_data := []\<rparr>) w"
      "r' = w\<lparr>rv_read_off := final_size\<rparr>" "res = Ok (unat (final_size - rv_recv_off r))" "rv_recv_off r \<le> final_size"
proof -
  let ?r = "r\<lparr>rv_error := Some code, rv_data := []\<rparr>"
  have ok0: "rv_ok ?r" using ok by (simp add: rv_ok_def)
  have n: "unat final_size + length ([] :: bytes) < 2 ^ 64" using unat_u64_bound [of final_size] by simp
  note w = rv_write_spec [OF ok0 n, of True, simplified]
  show thesis
  proof (cases "(case rv_fin_off r of Some f \<Rightarrow> f \<noteq> final_size | None \<Rightarrow> False) \<or> final_size < rv_recv_off r")
    case True
    then have "rv_reset code final_size r = (Err FinalSizeError, r)" by (auto simp: rv_reset_def)
    then show thesis using assms refused [of FinalSizeError] by simp
  next
    case False
    then have eq: "rv_reset code final_size r = (if rv_error r \<noteq> None then (Ok (unat (final_size - rv_recv_off r)), r)
        else bind_s (rv_write final_size [] True) (\<lambda>_ x. (Ok (unat (final_size - rv_recv_off r)), x\<lparr>rv_read_off := final_size\<rparr>)) ?r)"
      by (simp add: rv_reset_def Let_def)
    from False have le: "rv_recv_off r \<le> final_size" and acc: "acceptable (unat final_size) True ?r"
      by (auto simp: acceptable_def word_le_nat_alt not_less split: option.splits)
    show thesis
    proof (cases "rv_error r")
      case (Some e)
      then show thesis using eq assms(2) le repeated by simp
    next
      case None
      consider e where "rv_write final_size [] True ?r = (Err e, ?r)"
        | x where "rv_write final_size [] True ?r = (Ok (), x)" "wrote final_size [] True ?r x"
        using w acc by (metis linorder_not_less sndI)
      then show thesis
      proof cases
        case 1
        then have "res = Err e" "r' = ?r" using eq None assms(2) by (simp_all add: bind_s_def)
        then show thesis using ok0 refused by blast
      next
        case 2
        then have "res = Ok (unat (final_size - rv_recv_off r))" "r' = x\<lparr>rv_read_off := final_size\<rparr>"
          using eq None assms(2) by (simp_all add: bind_s_def)
        then show thesis using None 2 le applied by blast
      qed
    qed
  qed
qed

lemma rv_reset_spec:
  assumes ok: "rv_ok r" and reset: "rv_reset code final_size r = (res, r')"
  shows "rv_ok r'" and "res \<noteq> Panic"
    and "res = Ok n \<Longrightarrow> unat (rv_recv_off r) + n = unat final_size"
    and "res = Ok n \<Longrightarrow> rv_error r = None \<Longrightarrow> rv_is_fin r' \<and> rv_bytes r' = {} \<and> rv_error r' = Some code"
    and "res = Ok n \<Longrightarrow> rv_error r = None \<Longrightarrow> \<not> rv_shutdown r \<Longrightarrow> \<not> rv_is_fin r \<Longrightarrow>
      rv_read cap r' = (Err (StreamReset code), r'\<lparr>rv_data := []\<rparr>)"
proof -
  let ?r = "r\<lparr>rv_error := Some code, rv_data := []\<rparr>"
  have "rv_ok r' \<and> res \<noteq> Panic \<and> (res = Ok n \<longrightarrow> unat (rv_recv_off r) + n = unat final_size)
    \<and> (res = Ok n \<longrightarrow> rv_error r = None \<longrightarrow> rv_is_fin r' \<and> rv_bytes r' = {} \<and> rv_error r' = Some code)
    \<and> (res = Ok n \<longrightarrow> rv_error r = None \<longrightarrow> \<not> rv_shutdown r \<longrightarrow> \<not> rv_is_fin r \<longrightarrow>
        rv_read cap r' = (Err (StreamReset code), r'\<lparr>rv_data := []\<rparr>))"
    using ok reset
  proof (cases rule: rv_reset_cases)
    case refused
    then show ?thesis by simp
  next
    case repeated
    then show ?thesis using ok by (auto simp: unat_sub word_le_nat_alt)
  next
    case (applied w)
    note wr = applied(3) [unfolded wrote_def]
    have b: "rv_bytes w = {}" using wr by (cases "rv_shutdown r") (auto simp: rv_bytes_def rv_ok_def)
    have f: "rv_fin_off w = Some final_size" "rv_recv_off w = final_size"
      using wr applied(6) by (auto simp: word_unat_eq_iff word_le_nat_alt)
    have "rv_ok r'" using rv_ok_skip [of w] wr b f applied(4) by simp
    moreover have "rv_read cap r' = (Err (StreamReset code), r'\<lparr>rv_data := []\<rparr>)" if "\<not> rv_shutdown r" "\<not> rv_is_fin r"
    proof -
      have "rv_data w = [(final_size, rb_new [] final_size True)]"
        by (rule rv_write_marker [OF _ _ _ _ applied(2)]) (use that ok in \<open>simp_all add: rv_ok_def rv_is_fin_def\<close>)
      then show ?thesis using wr applied(4) by (simp add: rv_read_def rv_ready_def bt_first_def rb_new_def)
    qed
    ultimately show ?thesis
      using wr f b applied(4-6) by (auto simp: rv_is_fin_def rv_bytes_def unat_sub word_le_nat_alt)
  qed
  then show "rv_ok r'" "res \<noteq> Panic" "res = Ok n \<Longrightarrow> unat (rv_recv_off r) + n = unat final_size"
    "res = Ok n \<Longrightarrow> rv_error r = None \<Longrightarrow> rv_is_fin r' \<and> rv_bytes r' = {} \<and> rv_error r' = Some code"
    "res = Ok n \<Longrightarrow> rv_error r = None \<Longrightarrow> \<not> rv_shutdown r \<Longrightarrow> \<not> rv_is_fin r \<Longrightarrow>
      rv_read cap r' = (Err (StreamReset code), r'\<lparr>rv_data := []\<rparr>)"
    by blast+
qed


subsection \<open>Reassembly\<close>

text \<open>A peer sends the bytes \<open>s\<close> in frames of any size, in any order, possibly more than once; the
  application reads in between. The state carries what was delivered and the offsets that arrived.\<close>

inductive recv_step :: "bytes \<Rightarrow> bytes \<times> nat set \<times> recv_buf \<Rightarrow> bytes \<times> nat set \<times> recv_buf \<Rightarrow> bool" for s where
  step_frame: "recv_step s (out, R, r) (out, R \<union> {unat off ..< unat off + n}, r')"
    if "unat off + n \<le> length s" and "fin \<longrightarrow> unat off + n = length s"
      and "rv_write off (take n (drop (unat off) s)) fin r = (Ok (), r')"
| step_refused: "recv_step s (out, R, r) (out, R, r')"
    if "unat off + n \<le> length s" and "rv_write off (take n (drop (unat off) s)) fin r = (Err e, r')"
| step_read: "recv_step s (out, R, r) (out @ d, R, r')" if "rv_read cap r = (Ok (d, f), r')"
| step_max_data: "recv_step s (out, R, r) (out, R, rv_update_max_data now r)"
| step_autotune: "recv_step s (out, R, r) (out, R, rv_autotune_window now srtt r)"

definition reassembly :: "bytes \<Rightarrow> bytes \<times> nat set \<times> recv_buf \<Rightarrow> bool" where
  "reassembly s = (\<lambda>(out, R, r). rv_ok r \<and> \<not> rv_shutdown r \<and> rv_error r = None
     \<and> unat (rv_read_off r) \<le> length s \<and> out = take (unat (rv_read_off r)) s
     \<and> {..< unat (rv_read_off r)} \<subseteq> R \<and> R \<subseteq> {..< length s}
     \<and> rv_bytes r = {(p, x). p \<in> R \<and> unat (rv_read_off r) \<le> p \<and> x = s ! p}
     \<and> (\<forall>f. rv_fin_off r = Some f \<longrightarrow> unat f = length s))"

lemma reassembly_frame:
  assumes inv: "reassembly s (out, R, r)" and "length s < 2 ^ 64"
    and fr: "unat off + n \<le> length s" "fin \<longrightarrow> unat off + n = length s"
      "rv_write off (take n (drop (unat off) s)) fin r = (Ok (), r')"
  shows "reassembly s (out, R \<union> {unat off ..< unat off + n}, r')"
proof -
  let ?data = "take n (drop (unat off) s)"
  have inv: "rv_ok r" "\<not> rv_shutdown r" "rv_error r = None" "unat (rv_read_off r) \<le> length s"
    "out = take (unat (rv_read_off r)) s" "{..< unat (rv_read_off r)} \<subseteq> R" "R \<subseteq> {..< length s}"
    "rv_bytes r = {(p, x). p \<in> R \<and> unat (rv_read_off r) \<le> p \<and> x = s ! p}"
    "\<forall>f. rv_fin_off r = Some f \<longrightarrow> unat f = length s"
    using inv by (simp_all add: reassembly_def)
  have len: "length ?data = n" "unat off + length ?data < 2 ^ 64" using fr(1) assms(2) by simp_all
  have w: "wrote off ?data fin r r'"
    using rv_write_OkD [OF inv(1) len(2) fr(3)] .
  note w = w [unfolded wrote_def len(1)]
  have "rv_bytes r' = {(p, x). p \<in> R \<union> {unat off ..< unat off + n} \<and> unat (rv_read_off r') \<le> p \<and> x = s ! p}"
    using w inv(2,8) fr(1) by (auto simp: image_iff)
  moreover have "\<forall>f. rv_fin_off r' = Some f \<longrightarrow> unat f = length s"
    using w inv(9) fr assms(2) by (auto simp: unat_add_small unat_of_nat_u64 split: if_splits)
  ultimately show ?thesis
    using w inv fr(1) by (auto simp: reassembly_def)
qed

lemma reassembly_read:
  assumes inv: "reassembly s (out, R, r)" and rd: "rv_read cap r = (Ok (d, f), r')"
  shows "reassembly s (out @ d, R, r')" and "f \<longrightarrow> out @ d = s"
    and "length d = cap \<or> length (out @ d) \<notin> R"
proof -
  have inv: "rv_ok r" "\<not> rv_shutdown r" "rv_error r = None" "unat (rv_read_off r) \<le> length s"
    "out = take (unat (rv_read_off r)) s" "{..< unat (rv_read_off r)} \<subseteq> R" "R \<subseteq> {..< length s}"
    "rv_bytes r = {(p, x). p \<in> R \<and> unat (rv_read_off r) \<le> p \<and> x = s ! p}"
    "\<forall>f. rv_fin_off r = Some f \<longrightarrow> unat f = length s"
    using inv by (simp_all add: reassembly_def)
  let ?k = "unat (rv_read_off r)"
  note rs = rv_read_spec [OF inv(1) rd]
  have d: "?k + i \<in> R \<and> d ! i = s ! (?k + i)" if "i < length d" for i
    using rs(4) that inv(8) by simp
  have le: "?k + length d \<le> length s"
  proof (cases "d = []")
    case False
    then show ?thesis using d [of "length d - 1"] inv(7) by force
  qed (use inv(4) in simp)
  have out: "out @ d = take (?k + length d) s"
    using inv(4,5) le d by (auto simp: take_add intro!: nth_equalityI)
  have "p \<in> R" if "p < ?k + length d" for p
    using that inv(6) d [of "p - ?k"] by (cases "p < ?k") auto
  then show "reassembly s (out @ d, R, r')"
    using rs inv le out by (auto simp: reassembly_def)
  show "f \<longrightarrow> out @ d = s"
    using rs(3,7,8) inv(9) out by (auto simp: rv_is_fin_def)
  have "length (out @ d) = unat (rv_read_off r')" using rs(3) out le by simp
  moreover have "(unat (rv_read_off r'), s ! unat (rv_read_off r')) \<in> rv_bytes r'" if "unat (rv_read_off r') \<in> R"
    using rs(3,5) inv(8) that by simp
  ultimately show "length d = cap \<or> length (out @ d) \<notin> R" using rs(6) by force
qed

lemma reassembly_step:
  assumes "recv_step s x y" and inv: "reassembly s x" and len: "length s < 2 ^ 64"
  shows "reassembly s y"
  using assms(1)
proof (cases rule: recv_step.cases)
  case step_frame
  then show ?thesis using reassembly_frame [OF _ len] inv by blast
next
  case (step_refused off n fin r e r' out R)
  have "rv_ok r" "unat off + length (take n (drop (unat off) s)) < 2 ^ 64"
    using inv step_refused len by (auto simp: reassembly_def)
  then have "r' = r" using rv_write_ErrD(1) step_refused(4) by blast
  then show ?thesis using inv step_refused by simp
next
  case step_read
  then show ?thesis using reassembly_read(1) inv by blast
next
  case step_max_data
  then show ?thesis using inv by (simp add: reassembly_def rv_update_max_data_def rv_ok_flow)
next
  case step_autotune
  then show ?thesis using inv by (simp add: reassembly_def rv_autotune_window_def rv_ok_flow)
qed

lemma reassembly_steps:
  "(recv_step s)\<^sup>*\<^sup>* x y \<Longrightarrow> reassembly s x \<Longrightarrow> length s < 2 ^ 64 \<Longrightarrow> reassembly s y"
  by (induction rule: rtranclp_induct) (auto intro: reassembly_step)

lemma reassembly_start: "reassembly s ([], {}, rv_new max_data max_window)"
  using rv_ok_new by (simp add: reassembly_def rv_new_def rv_bytes_def)

lemma ready_at_read_off:
  assumes ok: "rv_ok r" and "unat (rv_read_off r) \<in> fst ` rv_bytes r"
  shows "rv_ready r"
proof -
  from assms(2) obtain e where e: "e \<in> set (rv_data r)" "lo (snd e) \<le> unat (rv_read_off r)" "unat (rv_read_off r) < hi (snd e)"
    by (auto simp: rv_bytes_def rb_bytes_def)
  then obtain d m where m: "rv_data r = d # m" by (cases "rv_data r") auto
  have "hi (snd d) \<le> lo (snd e)" if "d \<noteq> e"
    using rv_chunks_sorted [OF ok, of 0] e(1) that by (auto simp: m)
  moreover have "unat (rv_read_off r) \<le> lo (snd d)" using rv_okD(3) [OF ok] m by simp
  ultimately have "lo (snd d) = unat (rv_read_off r)"
    using e(2) lo_le_hi [of "snd d"] by (cases "d = e") auto
  then show ?thesis by (cases d) (simp add: rv_ready_def m bt_first_def lo_def word_unat_eq_iff)
qed

lemma reassembly_complete:
  assumes inv: "reassembly s (out, R, r)" and all: "{..< length s} \<subseteq> R"
    and cap: "length out < length s" "length s \<le> length out + cap"
  shows "\<exists>f r'. rv_read cap r = (Ok (drop (length out) s, f), r')"
proof -
  have i: "rv_ok r" "rv_error r = None" "unat (rv_read_off r) = length out"
    "rv_bytes r = {(p, x). p \<in> R \<and> unat (rv_read_off r) \<le> p \<and> x = s ! p}"
    using inv by (auto simp: reassembly_def)
  have "(length out, s ! length out) \<in> rv_bytes r" using i(3,4) all cap(1) by auto
  then have "unat (rv_read_off r) \<in> fst ` rv_bytes r" using i(3) by force
  then have "rv_ready r" by (rule ready_at_read_off [OF i(1)])
  then obtain d f r' where rd: "rv_read cap r = (Ok (d, f), r')"
    using i(2) by (cases "read_entries cap (rv_read_off r) (rv_data r)") (auto simp: rv_read_def Let_def)
  have r': "reassembly s (out @ d, R, r')" and "length d = cap \<or> length (out @ d) \<notin> R"
    using reassembly_read [OF inv rd] by blast+
  from this(2) have "length s \<le> length (out @ d)"
  proof
    assume "length (out @ d) \<notin> R"
    then show ?thesis using all by (meson lessThan_iff not_le subsetD)
  qed (use cap(2) in simp)
  moreover have "out @ d = take (length (out @ d)) s" using r' by (auto simp: reassembly_def)
  ultimately have "out @ d = s" by simp
  then have "d = drop (length out) s" by auto
  with rd show ?thesis by blast
qed

subsection \<open>Properties\<close>

text \<open>C2: a stream is reassembled: whatever the order, overlap and repetition of the frames that
  carry the bytes \<open>s\<close>, the application has always read a prefix of \<open>s\<close>, is told of the end only when
  it has read all of it, and once every byte has arrived a large enough read delivers the rest.\<close>

theorem stream_reassembled:
  assumes "(recv_step s)\<^sup>*\<^sup>* ([], {}, rv_new max_data max_window) (out, R, r)" and "length s < 2 ^ 64"
  shows "out = take (length out) s
    \<and> (\<forall>cap d f r'. rv_read cap r = (Ok (d, f), r') \<longrightarrow> out @ d = take (length (out @ d)) s \<and> (f \<longrightarrow> out @ d = s))
    \<and> (\<forall>cap. {..< length s} \<subseteq> R \<longrightarrow> length out < length s \<longrightarrow> length s \<le> length out + cap \<longrightarrow>
         (\<exists>f r'. rv_read cap r = (Ok (drop (length out) s, f), r')))"
proof -
  have inv: "reassembly s (out, R, r)"
    by (rule reassembly_steps [OF assms(1) reassembly_start assms(2)])
  have pre: "o' = take (length o') s" if "reassembly s (o', R, r')" for o' r'
    using that by (auto simp: reassembly_def)
  show ?thesis
    using pre [OF inv] pre [OF reassembly_read(1) [OF inv]] reassembly_read(2) [OF inv] reassembly_complete [OF inv]
    by blast
qed

theorem stream_reassembled_witness:
  "\<exists>out R r f r'. (recv_step [1, 2, 3])\<^sup>*\<^sup>* ([], {}, rv_new 10 20) (out, R, r)
     \<and> rv_read 5 r = (Ok ([1, 2, 3], f), r')"
proof -
  let ?s = "[1, 2, 3] :: bytes" and ?r0 = "rv_new 10 20"
  have f0: "rv_ok ?r0" "fc_max_data (rv_flow ?r0) = 10" "rv_fin_off ?r0 = None" "rv_recv_off ?r0 = 0"
    using rv_ok_new by (simp_all add: rv_new_def fc_new_def)
  obtain r1 where r1: "rv_write 1 [2, 3] True ?r0 = (Ok (), r1)" "wrote 1 [2, 3] True ?r0 r1"
    using rv_write_spec [OF f0(1), of 1 "[2, 3]" True] f0 by (auto simp: acceptable_def)
  then have f1: "rv_ok r1" "fc_max_data (rv_flow r1) = 10" "rv_fin_off r1 = Some 3"
    using f0 by (auto simp: wrote_def)
  obtain r2 where r2: "rv_write 0 [1] False r1 = (Ok (), r2)"
    using rv_write_spec [OF f1(1), of 0 "[1]" False] f1 by (auto simp: acceptable_def)
  let ?R1 = "{} \<union> {unat (1 :: u64) ..< unat (1 :: u64) + 2}"
  let ?R2 = "?R1 \<union> {unat (0 :: u64) ..< unat (0 :: u64) + 1}"
  have s1: "recv_step ?s ([], {}, ?r0) ([], ?R1, r1)" by (rule step_frame [where fin = True]) (use r1 in simp_all)
  have s2: "recv_step ?s ([], ?R1, r1) ([], ?R2, r2)" by (rule step_frame [where fin = False]) (use r2 in simp_all)
  have run: "(recv_step ?s)\<^sup>*\<^sup>* ([], {}, ?r0) ([], ?R2, r2)"
    by (rule converse_rtranclp_into_rtranclp [where r = "recv_step ?s", OF s1], rule r_into_rtranclp, rule s2)
  have "{..< length ?s} \<subseteq> ?R2" by auto
  then have "\<exists>f r'. rv_read 5 r2 = (Ok (drop (length ([] :: bytes)) ?s, f), r')"
    using stream_reassembled [OF run] by simp
  then obtain f r' where "rv_read 5 r2 = (Ok (?s, f), r')" by auto
  with run show ?thesis by blast
qed

text \<open>Data is accepted exactly when it stays within the advertised limit and agrees with the
  final size; what is accepted adds the bytes that are neither read nor received yet and changes
  none that are, and what is refused changes nothing.\<close>

theorem stream_data_accepted:
  assumes "rv_ok r" and "unat off + length data < 2 ^ 64"
  shows "case rv_write off data fin r of
      (Ok _, r') \<Rightarrow> unat off + length data \<le> unat (fc_max_data (rv_flow r)) \<and> acceptable (unat off + length data) fin r
        \<and> wrote off data fin r r'
    | (Err e, r') \<Rightarrow> r' = r \<and> (e = FlowControlError \<and> unat (fc_max_data (rv_flow r)) < unat off + length data
        \<or> e = FinalSizeError \<and> \<not> acceptable (unat off + length data) fin r)
    | (Panic, _) \<Rightarrow> False"
proof -
  note w = rv_write_spec [OF assms, of fin]
  consider "rv_write off data fin r = (Err FlowControlError, r)" "unat (fc_max_data (rv_flow r)) < unat off + length data"
    | "rv_write off data fin r = (Err FinalSizeError, r)" "\<not> acceptable (unat off + length data) fin r"
    | r' where "rv_write off data fin r = (Ok (), r')" "unat off + length data \<le> unat (fc_max_data (rv_flow r))"
        "acceptable (unat off + length data) fin r"
    using w(1) by (metis not_less)
  then show ?thesis using w(2) by cases auto
qed

theorem stream_data_accepted_witness:
  "case rv_write 3 [7, 8] False (rv_new 4 8) of
      (Ok _, r') \<Rightarrow> False
    | (Err e, r') \<Rightarrow> r' = rv_new 4 8 \<and> e = FlowControlError
    | (Panic, _) \<Rightarrow> False"
proof -
  have "unat (3 :: u64) + length [7, 8 :: u8] < 2 ^ 64" by simp
  from stream_data_accepted [OF rv_ok_new this, of 4 8 False] show ?thesis
    by (auto simp: rv_new_def fc_new_def acceptable_def split: prod.splits result.splits)
qed

text \<open>RESET\_STREAM with a final size that agrees with what was received counts the missing bytes,
  drops what was buffered and finishes the stream; the application learns of it at its next read.\<close>

theorem stream_reset_reported:
  assumes "rv_ok r" and "rv_error r = None" and "\<not> rv_shutdown r" and "\<not> rv_is_fin r"
    and "rv_reset code final_size r = (Ok n, r')"
  shows "rv_ok r' \<and> rv_is_fin r' \<and> unat (rv_recv_off r) + n = unat final_size
    \<and> rv_read cap r' = (Err (StreamReset code), r'\<lparr>rv_data := []\<rparr>)"
  using rv_reset_spec [OF assms(1,5)] assms(2-4) by blast


theorem stream_reset_reported_witness:
  "\<exists>n r'. rv_reset 7 5 (rv_new 10 20) = (Ok n, r') \<and> n = 5 \<and> rv_is_fin r'
    \<and> rv_read 3 r' = (Err (StreamReset 7), r'\<lparr>rv_data := []\<rparr>)"
proof -
  obtain n r' where r: "rv_reset 7 5 (rv_new 10 20) = (Ok n, r')"
    by (simp add: rv_reset_def rv_write_def rv_new_def fc_new_def rb_new_def rb_max_off_def rb_is_empty_def rv_is_fin_def
        write_pieces.simps discard_read_def merge_overlaps_def bind_s_def Let_def)
  have "rv_error (rv_new 10 20) = None" "\<not> rv_shutdown (rv_new 10 20)" "\<not> rv_is_fin (rv_new 10 20)" "rv_recv_off (rv_new 10 20) = 0"
    by (simp_all add: rv_new_def rv_is_fin_def)
  with stream_reset_reported [OF rv_ok_new this(1-3) r, of 3] r show ?thesis by auto
qed

end
