(* ===== verification/Send_Buf.thy ===== *)
theory Send_Buf
  imports Recv_Buf Ranges
begin

text \<open>
  The send side of a stream: \<open>SendBuf\<close> of src/connection/stream.rs. Written data is kept in chunks
  of bounded size until it is acknowledged; \<open>acked\<close> and \<open>retransmits\<close> are range sets of offsets, and
  \<open>pos\<close> is the index of the chunk from which the next bytes are sent. \<open>usize\<close> counters that the code
  mixes with offsets are 64-bit words.

  A loop that would not end returns \<open>None\<close>. Under \<open>sd_ok w\<close>, where \<open>w\<close> are the bytes the
  application has written, every call returns, and what is sent at an offset is what was written
  there.
\<close>

definition SEND_BUFFER_SIZE :: nat where
  "SEND_BUFFER_SIZE = 4096"

record send_buf =
  sd_data :: "range_buf list"
  sd_pos :: nat
  sd_write_off :: u64
  sd_unsent_off :: u64
  sd_unacked_len :: u64
  sd_max_data :: u64
  sd_blocked_at :: "u64 option"
  sd_fin_off :: "u64 option"
  sd_shutdown :: bool
  sd_acked :: "u64 rangeset"
  sd_retransmits :: "u64 rangeset"
  sd_error :: "u64 option"

definition sd_new :: "u64 \<Rightarrow> send_buf" where
  "sd_new max_data =
     \<lparr>sd_data = [], sd_pos = 0, sd_write_off = 0, sd_unsent_off = 0, sd_unacked_len = 0,
      sd_max_data = max_data, sd_blocked_at = None, sd_fin_off = None, sd_shutdown = False,
      sd_acked = rs_default, sd_retransmits = rs_default, sd_error = None\<rparr>"

definition sd_capacity :: "send_buf \<Rightarrow> nat res" where
  "sd_capacity s =
     (case sd_error s of
        Some e \<Rightarrow> Err (StreamStopped e)
      | None \<Rightarrow> Ok (unat (sd_max_data s - sd_write_off s)))"

text \<open>The loop that cuts the data into chunks, with the number of bytes cut off so far.\<close>

function push_chunks :: "bytes \<Rightarrow> nat \<Rightarrow> nat \<Rightarrow> bool \<Rightarrow> u64 \<Rightarrow> range_buf list \<Rightarrow> range_buf list \<times> u64" where
  "push_chunks data data_len len fin write_off q =
     (if SEND_BUFFER_SIZE < length data then
        let chunk = take SEND_BUFFER_SIZE data;
            len = len + length chunk;
            buf = rb_new chunk write_off (len = data_len \<and> fin)
        in push_chunks (drop SEND_BUFFER_SIZE data) data_len len fin (write_off + as_u64 (rb_len buf)) (q @ [buf])
      else if data \<noteq> [] then
        let buf = rb_new data write_off fin
        in (q @ [buf], write_off + as_u64 (rb_len buf))
      else (q, write_off))"
  by pat_completeness auto
termination
  by (relation "measure (\<lambda>(data, _). length data)") (auto simp: SEND_BUFFER_SIZE_def)

declare push_chunks.simps [simp del]

definition sd_write :: "bytes \<Rightarrow> bool \<Rightarrow> (nat, error, send_buf) meth" where
  "sd_write data fin s =
     (let max_off = sd_write_off s + as_u64 (length data) in
      bind_s (lift_s sd_capacity) (\<lambda>capacity s.
        let (data, fin) = (if capacity < length data then (take capacity data, False) else (data, fin)) in
        if (case sd_fin_off s of
              Some fin_off \<Rightarrow> fin_off < max_off \<or> (max_off = fin_off \<and> \<not> fin)
            | None \<Rightarrow> False) then (Err FinalSizeError, s)
        else
          let s = (if fin then s\<lparr>sd_fin_off := Some max_off\<rparr> else s) in
          if data = [] then (Ok 0, s)
          else
            let (q, write_off) = push_chunks data (length data) 0 fin (sd_write_off s) (sd_data s) in
            (Ok (length data),
             s\<lparr>sd_data := q, sd_write_off := write_off,
               sd_unacked_len := sd_unacked_len s + as_u64 (length data)\<rparr>)) s)"

definition sd_send_off :: "send_buf \<Rightarrow> u64" where
  "sd_send_off s = (case rs_min (sd_retransmits s) of Some off \<Rightarrow> off | None \<Rightarrow> sd_unsent_off s)"

definition sd_ready :: "send_buf \<Rightarrow> bool" where
  "sd_ready s \<longleftrightarrow> sd_data s \<noteq> [] \<and> sd_send_off s < sd_write_off s"

definition poll_transmit :: "nat \<Rightarrow> send_buf \<Rightarrow> (u64 \<times> u64) \<times> send_buf" where
  "poll_transmit max_len s =
     (case pop_min (sd_retransmits s) of
        (Some rng, rest) \<Rightarrow>
          let end = min (snd rng) (saturating_add (fst rng) (as_u64 max_len));
              rest = (if end \<noteq> snd rng then rs_insert end (snd rng) rest else rest)
          in ((fst rng, end), s\<lparr>sd_retransmits := rest\<rparr>)
      | (None, _) \<Rightarrow>
          let end = min (sd_write_off s) (saturating_add (sd_unsent_off s) (as_u64 max_len))
          in ((sd_unsent_off s, end), s\<lparr>sd_unsent_off := end\<rparr>))"

text \<open>The bytes of the range that the chunk at or after \<open>pos\<close> holds, and the next position.\<close>

function read_range :: "range_buf list \<Rightarrow> nat \<Rightarrow> u64 \<Rightarrow> u64 \<Rightarrow> bytes res \<times> nat" where
  "read_range data pos start end =
     (if pos < length data then
        let segment = data ! pos in
        if rb_off segment \<le> start \<and> start < rb_max_off segment then
          let a = unat (start - rb_off segment);
              b = min (unat (end - rb_off segment)) (rb_len segment);
              pos = (if b = rb_len segment then pos + 1 else pos)
          in (if b < a then Panic else Ok (take (b - a) (drop a (rb_data segment))), pos)
        else read_range data (pos + 1) start end
      else (Ok [], pos))"
  by pat_completeness auto
termination
  by (relation "measure (\<lambda>(data, pos, _). length data - pos)") auto

declare read_range.simps [simp del]

text \<open>The inner loop of \<open>read\<close>. When \<open>read_range\<close> finds nothing, neither the range nor the position
  changes any more and the loop does not end.\<close>

primrec copy_range :: "nat \<Rightarrow> range_buf list \<Rightarrow> nat \<Rightarrow> u64 \<Rightarrow> u64 \<Rightarrow> (bytes \<times> nat) res option" where
  "copy_range 0 data pos start end = (if start = end then Some (Ok ([], pos)) else None)"
| "copy_range (Suc n) data pos start end =
     (if start = end then Some (Ok ([], pos))
      else case read_range data pos start end of
        (Ok d, pos) \<Rightarrow>
          (case copy_range n data pos (start + as_u64 (length d)) end of
             None \<Rightarrow> None
           | Some r \<Rightarrow> Some (bind_r r (\<lambda>(ds, pos). Ok (d @ ds, pos))))
      | (Err e, _) \<Rightarrow> Some (Err e)
      | (Panic, _) \<Rightarrow> Some Panic)"

text \<open>The outer loop, with the bytes copied so far. The fuel of the inner loop is the length of the
  range, that of the outer one the room in the output.\<close>

definition may_send :: "nat \<Rightarrow> u64 \<Rightarrow> send_buf \<Rightarrow> bool" where
  "may_send cap next_off s \<longleftrightarrow> 0 < cap \<and> sd_ready s \<and> sd_send_off s = next_off \<and> sd_send_off s < sd_max_data s"

primrec read_loop :: "nat \<Rightarrow> nat \<Rightarrow> u64 \<Rightarrow> bytes \<Rightarrow> send_buf \<Rightarrow> ((bytes \<times> nat \<times> u64) res \<times> send_buf) option" where
  "read_loop 0 cap next_off out s = (if may_send cap next_off s then None else Some (Ok (out, cap, next_off), s))"
| "read_loop (Suc n) cap next_off out s =
     (if may_send cap next_off s then
        let ((start, end), s) = poll_transmit cap s in
        case copy_range (unat (end - start)) (sd_data s) (sd_pos s) start end of
          None \<Rightarrow> None
        | Some (Err e) \<Rightarrow> Some (Err e, s)
        | Some Panic \<Rightarrow> Some (Panic, s)
        | Some (Ok (d, pos)) \<Rightarrow>
            read_loop n (cap - unat (end - start)) (next_off + (end - start)) (out @ d) (s\<lparr>sd_pos := pos\<rparr>)
      else Some (Ok (out, cap, next_off), s))"

definition sd_read :: "nat \<Rightarrow> send_buf \<Rightarrow> ((bytes \<times> bool) res \<times> send_buf) option" where
  "sd_read cap s =
     (case read_loop (Suc cap) cap (sd_send_off s) [] s of
        None \<Rightarrow> None
      | Some (r, s) \<Rightarrow>
          Some (bind_r r (\<lambda>(out, _, next_off). Ok (out, sd_fin_off s = Some next_off)), s))"

definition sd_ack_off :: "send_buf \<Rightarrow> u64" where
  "sd_ack_off s = (case rs_set (sd_acked s) of (start, end) # _ \<Rightarrow> (if start = 0 then end else 0) | [] \<Rightarrow> 0)"

definition sd_ack :: "u64 \<Rightarrow> nat \<Rightarrow> send_buf \<Rightarrow> send_buf" where
  "sd_ack off len s = s\<lparr>sd_acked := rs_insert off (off + as_u64 len) (sd_acked s)\<rparr>"

text \<open>The loop that drops acknowledged bytes from the front, and counts the chunks it removes.\<close>

fun drop_front :: "nat \<Rightarrow> range_buf list \<Rightarrow> nat \<Rightarrow> (range_buf list \<times> nat) res" where
  "drop_front to_advance q blocks =
     (if 0 < to_advance then
        case q of
          [] \<Rightarrow> Panic
        | front # q' \<Rightarrow>
            if rb_len front \<le> to_advance then drop_front (to_advance - rb_len front) q' (blocks + 1)
            else bind_r (rb_advance to_advance front) (\<lambda>front. Ok (front # q', blocks))
      else Ok (q, blocks))"

declare drop_front.simps [simp del]

definition ack_and_drop :: "u64 \<Rightarrow> nat \<Rightarrow> (unit, error, send_buf) meth" where
  "ack_and_drop off len s =
     (if sd_data s = [] then (Ok (), s\<lparr>sd_retransmits := rs_clear (sd_retransmits s)\<rparr>)
      else
        let s = sd_ack off len s;
            s = s\<lparr>sd_retransmits := rs_remove off (off + as_u64 len) (sd_retransmits s)\<rparr>;
            ack_off = sd_ack_off s
        in if ack_off < off then (Ok (), s)
           else
             let base_off = sd_write_off s - sd_unacked_len s;
                 to_advance = ack_off - base_off;
                 s = s\<lparr>sd_unacked_len := sd_unacked_len s - to_advance\<rparr>
             in case drop_front (unat to_advance) (sd_data s) 0 of
                  Err e \<Rightarrow> (Err e, s)
                | Panic \<Rightarrow> (Panic, s)
                | Ok (q, drop_blocks) \<Rightarrow> (Ok (), s\<lparr>sd_data := q, sd_pos := sd_pos s - drop_blocks\<rparr>))"

text \<open>The loop of \<open>retransmit\<close> over the acknowledged ranges.\<close>

fun lost_ranges :: "(u64 \<times> u64) list \<Rightarrow> u64 \<Rightarrow> u64 \<Rightarrow> u64 rangeset \<Rightarrow> u64 \<times> u64 \<times> u64 rangeset" where
  "lost_ranges [] start end rt = (start, end, rt)"
| "lost_ranges (r # rs) start end rt =
     (if end \<le> fst r then (start, end, rt)
      else if snd r \<le> start then lost_ranges rs start end rt
      else if start < fst r then
        if end \<le> snd r then (start, fst r, rt)
        else lost_ranges rs (snd r) end (rs_insert start (fst r) rt)
      else
        if end \<le> snd r then (start, start, rt)
        else lost_ranges rs (snd r) end rt)"

definition retransmit :: "u64 \<Rightarrow> nat \<Rightarrow> send_buf \<Rightarrow> send_buf" where
  "retransmit off len s =
     (if sd_data s = [] then s
      else if off + as_u64 len \<le> sd_ack_off s then s
      else
        let (start, end, rt) = lost_ranges (rs_set (sd_acked s)) off (off + as_u64 len) (sd_retransmits s);
            old_send_off = sd_send_off s;
            s = s\<lparr>sd_retransmits := rs_insert start end rt\<rparr>
        in if sd_send_off s < old_send_off then s\<lparr>sd_pos := 0\<rparr> else s)"

definition filter_acked :: "u64 \<Rightarrow> u64 \<Rightarrow> send_buf \<Rightarrow> (u64 \<times> u64) option" where
  "filter_acked start end s = rs_filter start end (sd_acked s)"

definition sd_reset :: "send_buf \<Rightarrow> (u64 \<times> u64) \<times> send_buf" where
  "sd_reset s =
     (let unsent_len = saturating_sub (sd_write_off s) (sd_unsent_off s);
          s = s\<lparr>sd_fin_off := Some (sd_unsent_off s), sd_data := []\<rparr>;
          s = sd_ack 0 (unat (sd_unsent_off s)) s;
          s = s\<lparr>sd_pos := 0, sd_write_off := sd_unsent_off s\<rparr>
      in ((sd_unsent_off s, unsent_len), s))"

definition sd_stop :: "u64 \<Rightarrow> (u64 \<times> u64, error, send_buf) meth" where
  "sd_stop error_code s =
     (if sd_error s \<noteq> None then (Err Done, s)
      else let (r, s) = sd_reset s in (Ok r, s\<lparr>sd_error := Some error_code\<rparr>))"

definition sd_shut :: "(u64 \<times> u64, error, send_buf) meth" where
  "sd_shut s =
     (if sd_shutdown s then (Err Done, s)
      else let (r, s) = sd_reset (s\<lparr>sd_shutdown := True\<rparr>) in (Ok r, s))"

definition sd_update_max_data :: "u64 \<Rightarrow> send_buf \<Rightarrow> send_buf" where
  "sd_update_max_data max_data s = s\<lparr>sd_max_data := max (sd_max_data s) max_data\<rparr>"

definition sd_update_blocked_at :: "u64 option \<Rightarrow> send_buf \<Rightarrow> send_buf" where
  "sd_update_blocked_at blocked_at s = s\<lparr>sd_blocked_at := blocked_at\<rparr>"

definition sd_is_fin :: "send_buf \<Rightarrow> bool" where
  "sd_is_fin s \<longleftrightarrow> sd_fin_off s = Some (sd_write_off s)"

definition sd_is_complete :: "send_buf \<Rightarrow> bool" where
  "sd_is_complete s =
     (case sd_fin_off s of
        Some fin_off \<Rightarrow> fin_off = 0 \<or> rs_eq_range (sd_acked s) (0, fin_off)
      | None \<Rightarrow> False)"

definition sd_is_stopped :: "send_buf \<Rightarrow> bool" where
  "sd_is_stopped s \<longleftrightarrow> sd_error s \<noteq> None"


subsection \<open>Sets of offsets\<close>

text \<open>What the send buffer relies on in its two range sets.\<close>

locale offset_set =
  fixes ok :: "'s \<Rightarrow> bool" and elems :: "'s \<Rightarrow> u64 set"
    and ins :: "u64 \<Rightarrow> u64 \<Rightarrow> 's \<Rightarrow> 's" and del :: "u64 \<Rightarrow> u64 \<Rightarrow> 's \<Rightarrow> 's" and least :: "'s \<Rightarrow> u64 option"
  assumes ins_ok: "ok s \<Longrightarrow> ok (ins a b s)" and del_ok: "ok s \<Longrightarrow> ok (del a b s)"
    and elems_ins: "ok s \<Longrightarrow> elems (ins a b s) = elems s \<union> {a ..< b}"
    and elems_del: "ok s \<Longrightarrow> elems (del a b s) = elems s - {a ..< b}"
    and least_None: "ok s \<Longrightarrow> least s = None \<longleftrightarrow> elems s = {}"
    and least_Some: "ok s \<Longrightarrow> least s = Some x \<longleftrightarrow> x \<in> elems s \<and> (\<forall>y \<in> elems s. x \<le> y)"
begin

lemma least_in: "ok s \<Longrightarrow> least s = Some x \<Longrightarrow> x \<in> elems s"
  by (simp add: least_Some)

lemma least_le: "ok s \<Longrightarrow> least s = Some x \<Longrightarrow> y \<in> elems s \<Longrightarrow> x \<le> y"
  by (simp add: least_Some)

lemma least_mono:
  assumes "ok s" and "ok t" and "elems s \<subseteq> elems t" and "least s = Some x" and "least t = Some y"
  shows "y \<le> x"
  using assms by (meson least_Some subsetD)

end

lemma length_separated:
  fixes m :: "(u64, u64) btree"
  assumes "bt_wf m" and "separated (set m)" and "m \<noteq> []"
  shows "unat (fst (hd m)) + 2 * length m \<le> 2 ^ 64"
  using assms
proof (induction m)
  case (Cons p m)
  have p: "unat (fst p) < unat (snd p)" "unat (snd p) < 2 ^ 64"
    using Cons.prems(2) unat_u64_bound [of "snd p"] by (auto simp: separated_def word_less_nat_alt)
  show ?case
  proof (cases m)
    case (Cons q m')
    then have "fst p < fst q" using Cons.prems(1) by (simp add: bt_wf_Cons)
    then have "unat (snd p) < unat (fst q)"
      using Cons.prems(2) Cons by (simp add: separated_def word_less_nat_alt)
    moreover have "bt_wf m" "separated (set m)" using Cons.prems by (auto simp: bt_wf_Cons separated_def)
    then have "unat (fst (hd m)) + 2 * length m \<le> 2 ^ 64" using Cons.IH Cons by simp
    ultimately show ?thesis using p Cons by simp
  qed (use p in simp)
qed simp

definition off_ok :: "u64 rangeset \<Rightarrow> bool" where
  "off_ok s \<longleftrightarrow> rs_wf s \<and> rs_cap s = 2 ^ 64 - 1"

lemma off_ok_default: "off_ok rs_default" "rs_elems rs_default = {}"
  by (simp_all add: off_ok_def rs_default_def rs_wf_new rs_elems_new) (simp_all add: rs_new_def)

lemma rs_len_off: "off_ok s \<Longrightarrow> rs_len s < rs_cap s"
  using length_separated [of "rs_set s"] by (cases "rs_set s") (auto simp: off_ok_def rs_wf_def rs_len_def)

lemma rs_min_iff:
  assumes "rs_wf s"
  shows "rs_min s = None \<longleftrightarrow> rs_elems s = {}"
    and "rs_min s = Some x \<longleftrightarrow> x \<in> rs_elems s \<and> (\<forall>y \<in> rs_elems s. x \<le> y)"
proof -
  show "rs_min s = None \<longleftrightarrow> rs_elems s = {}"
  proof (cases "rs_set s")
    case (Cons p m)
    then have "fst p \<in> rs_elems s" using first_range_bounds(1) [of p m] assms by (simp add: rs_elems_def rs_wf_def)
    then show ?thesis using Cons by (auto simp: rs_min_def bt_first_def)
  qed (simp add: rs_min_def bt_first_def rs_elems_def)
  show "rs_min s = Some x \<longleftrightarrow> x \<in> rs_elems s \<and> (\<forall>y \<in> rs_elems s. x \<le> y)"
  proof (cases "rs_set s")
    case (Cons p m)
    then have wf: "bt_wf (p # m)" "separated (set (p # m))" using assms by (simp_all add: rs_wf_def)
    have "fst p \<in> rs_elems s" "\<forall>y \<in> rs_elems s. fst p \<le> y"
      unfolding rs_elems_def Cons using first_range_bounds(1,3) [OF wf] by blast+
    moreover have "rs_min s = Some (fst p)" using Cons by (simp add: rs_min_def bt_first_def)
    ultimately show ?thesis by (metis antisym option.inject)
  qed (simp add: rs_min_def bt_first_def rs_elems_def)
qed

interpretation offs: offset_set off_ok rs_elems rs_insert rs_remove rs_min
proof
  fix s :: "u64 rangeset" and a b x
  assume s: "off_ok s"
  then have wf: "rs_wf s" by (simp add: off_ok_def)
  show "off_ok (rs_insert a b s)" "rs_elems (rs_insert a b s) = rs_elems s \<union> {a ..< b}"
    using rs_insert_insertion [OF wf, of a b] rs_len_off [OF s] s by (simp_all add: insertion_def off_ok_def)
  show "off_ok (rs_remove a b s)" "rs_elems (rs_remove a b s) = rs_elems s - {a ..< b}"
    using rs_remove_spec [OF wf, of a b] s by (simp_all add: off_ok_def)
  show "rs_min s = None \<longleftrightarrow> rs_elems s = {}" "rs_min s = Some x \<longleftrightarrow> x \<in> rs_elems s \<and> (\<forall>y \<in> rs_elems s. x \<le> y)"
    using rs_min_iff [OF wf] by blast+
qed


subsection \<open>Chunks laid end to end\<close>

definition contents :: "range_buf list \<Rightarrow> bytes" where
  "contents q = concat (map rb_data q)"

definition before :: "range_buf list \<Rightarrow> nat \<Rightarrow> nat" where
  "before q i = length (contents (take i q))"

definition laid :: "nat \<Rightarrow> range_buf list \<Rightarrow> bool" where
  "laid base q \<longleftrightarrow> (\<forall>i < length q. lo (q ! i) = base + before q i \<and> rb_data (q ! i) \<noteq> [])"

lemma contents_simps [simp]:
  "contents [] = []" "contents (b # q) = rb_data b @ contents q" "contents (p @ q) = contents p @ contents q"
  by (simp_all add: contents_def)

lemma before_simps [simp]:
  "before q 0 = 0" "before (b # q) (Suc i) = rb_len b + before q i" "length q \<le> i \<Longrightarrow> before q i = length (contents q)"
  "i \<le> length p \<Longrightarrow> before (p @ q) i = before p i"
  by (simp_all add: before_def)

lemma before_Suc: "i < length q \<Longrightarrow> before q (Suc i) = before q i + rb_len (q ! i)"
  by (simp add: before_def take_Suc_conv_app_nth)

lemma drop_before: "drop (before q i) (contents q) = contents (drop i q)"
proof -
  have "contents q = contents (take i q) @ contents (drop i q)" by (simp flip: contents_simps(3))
  then show ?thesis by (simp add: before_def)
qed

lemma laid_Cons: "laid base (b # q) \<longleftrightarrow> lo b = base \<and> rb_data b \<noteq> [] \<and> laid (base + rb_len b) q"
proof
  assume l: "laid base (b # q)"
  have "lo b = base \<and> rb_data b \<noteq> []" using l [unfolded laid_def, rule_format, of 0] by simp
  moreover have "laid (base + rb_len b) q"
    unfolding laid_def using l [unfolded laid_def, rule_format, of "Suc i" for i] by simp
  ultimately show "lo b = base \<and> rb_data b \<noteq> [] \<and> laid (base + rb_len b) q" by blast
next
  assume r: "lo b = base \<and> rb_data b \<noteq> [] \<and> laid (base + rb_len b) q"
  show "laid base (b # q)"
    unfolding laid_def
  proof (intro allI impI)
    fix i assume "i < length (b # q)"
    then show "lo ((b # q) ! i) = base + before (b # q) i \<and> rb_data ((b # q) ! i) \<noteq> []"
      using r by (cases i) (auto simp: laid_def)
  qed
qed

lemma laid_Nil [simp]: "laid base []"
  by (simp add: laid_def)

lemma laid_append: "laid base (p @ q) \<longleftrightarrow> laid base p \<and> laid (base + length (contents p)) q"
  by (induction p arbitrary: base) (auto simp: laid_Cons add.assoc)

lemma laid_hi: "laid base q \<Longrightarrow> i < length q \<Longrightarrow> hi (q ! i) = base + before q (Suc i)"
  by (simp add: laid_def hi_lo before_Suc)

lemma laid_ok: "laid base q \<Longrightarrow> base + length (contents q) < 2 ^ 64 \<Longrightarrow> b \<in> set q \<Longrightarrow> rb_ok b"
  by (induction q arbitrary: base) (auto simp: laid_Cons rb_ok_def hi_lo add.assoc)

text \<open>Cutting data into chunks.\<close>

lemma push_chunks_spec:
  assumes "unat off + length data < 2 ^ 64"
  shows "\<exists>cs. push_chunks data dl len fin off q = (q @ cs, off + as_u64 (length data))
    \<and> laid (unat off) cs \<and> contents cs = data"
  using assms
proof (induction data dl len fin off q rule: push_chunks.induct)
  case (1 data dl len fin off q)
  let ?n = SEND_BUFFER_SIZE
  show ?case
  proof (cases "?n < length data")
    case True
    let ?buf = "rb_new (take ?n data) off (len + length (take ?n data) = dl \<and> fin)"
    have l: "rb_len ?buf = ?n" "rb_data ?buf = take ?n data" "lo ?buf = unat off"
      using True by (simp_all add: rb_new_def lo_def)
    have off: "unat (off + as_u64 ?n) = unat off + ?n"
      using 1(2) True by (simp add: unat_add_small unat_of_nat_u64)
    have sum: "as_u64 ?n + as_u64 (length data - ?n) = as_u64 (length data)"
      using True by (simp flip: of_nat_add)
    obtain cs where cs: "push_chunks (drop ?n data) dl (len + length (take ?n data)) fin (off + as_u64 (rb_len ?buf)) (q @ [?buf])
        = ((q @ [?buf]) @ cs, off + as_u64 (rb_len ?buf) + as_u64 (length (drop ?n data)))"
      "laid (unat (off + as_u64 (rb_len ?buf))) cs" "contents cs = drop ?n data"
      using 1(1) [OF True refl refl refl] 1(2) True off l by auto
    have "push_chunks data dl len fin off q = (q @ (?buf # cs), off + as_u64 (length data))"
      using True cs(1) l sum by (subst push_chunks.simps) (simp add: Let_def add.assoc)
    moreover have "laid (unat off) (?buf # cs)" "contents (?buf # cs) = data"
      using cs(2,3) off l True by (auto simp: laid_Cons SEND_BUFFER_SIZE_def)
    ultimately show ?thesis by blast
  next
    case False
    let ?buf = "rb_new data off fin"
    have l: "rb_data ?buf = data" "lo ?buf = unat off" by (simp_all add: rb_new_def lo_def)
    show ?thesis
    proof (cases "data = []")
      case True
      then show ?thesis by (subst push_chunks.simps) auto
    next
      case ne: False
      then have "push_chunks data dl len fin off q = (q @ [?buf], off + as_u64 (length data))"
        using False l by (subst push_chunks.simps) (simp add: Let_def)
      moreover have "laid (unat off) [?buf]" "contents [?buf] = data" using ne l by (simp_all add: laid_Cons)
      ultimately show ?thesis by blast
    qed
  qed
qed

text \<open>Finding bytes by offset, from a position that is not past them.\<close>

lemma read_range_spec:
  assumes "laid base data" and "base + before data pos \<le> unat start" and "start < end"
    and "unat end \<le> base + length (contents data)" and "base + length (contents data) < 2 ^ 64" and "pos \<le> length data"
  shows "\<exists>d pos'. read_range data pos start end = (Ok d, pos') \<and> pos' \<le> length data
    \<and> d \<noteq> [] \<and> length d \<le> unat end - unat start \<and> d = take (length d) (drop (unat start - base) (contents data))
    \<and> base + before data pos' \<le> unat start + length d"
  using assms
proof (induction data pos start "end" rule: read_range.induct)
  case (1 data pos start "end")
  note IH = "1.IH" and l = "1.prems"(1) and pos = "1.prems"(2,6) and lt = "1.prems"(3,4) and small = "1.prems"(5)
  have lt': "unat start < unat end" using lt(1) by (simp add: word_less_nat_alt)
  have "pos < length data"
    using pos lt lt' by (cases "pos = length data") auto
  define seg where "seg = data ! pos"
  have ok: "rb_ok seg" using laid_ok [OF l small] \<open>pos < length data\<close> by (simp add: seg_def)
  have lo: "lo seg = base + before data pos" and hi: "hi seg = base + before data (Suc pos)"
    using l laid_hi [OF l] \<open>pos < length data\<close> by (auto simp: laid_def seg_def)
  have cmp: "rb_off seg \<le> start \<and> start < rb_max_off seg \<longleftrightarrow> unat start < hi seg"
    using unat_max_off [OF ok] pos(1) lo by (simp add: word_le_nat_alt word_less_nat_alt lo_def)
  show ?case
  proof (cases "unat start < hi seg")
    case True
    have sub: "unat (start - rb_off seg) = unat start - lo seg" "unat (end - rb_off seg) = unat end - lo seg"
      using pos(1) lo lt' by (subst unat_sub; simp add: word_le_nat_alt lo_def)+
    define a where "a = unat start - lo seg"
    define b where "b = min (unat end - lo seg) (rb_len seg)"
    define d where "d = take (b - a) (drop a (rb_data seg))"
    have ab: "a < b" "b \<le> rb_len seg" "lo seg + b \<le> unat end"
      using True lt' pos(1) lo hi_lo [of seg] by (auto simp: a_def b_def)
    have d: "length d = b - a" "d \<noteq> []" using ab by (auto simp: d_def)
    have start: "unat start = lo seg + a" using pos(1) lo by (simp add: a_def)
    have "contents (drop pos data) = rb_data seg @ contents (drop (Suc pos) data)"
      using \<open>pos < length data\<close> by (simp add: seg_def Cons_nth_drop_Suc [symmetric])
    moreover have "unat start - base = a + before data pos" using start lo by simp
    then have "drop (unat start - base) (contents data) = drop a (drop (before data pos) (contents data))"
      by (simp only: drop_drop)
    ultimately have "drop (unat start - base) (contents data) = drop a (rb_data seg @ contents (drop (Suc pos) data))"
      by (simp only: drop_before)
    then have "d = take (length d) (drop (unat start - base) (contents data))"
      using ab d(1) by (simp add: d_def)
    moreover have "base + before data (if b = rb_len seg then pos + 1 else pos) \<le> unat start + length d"
      using start d(1) ab hi lo hi_lo [of seg] by auto
    moreover have "read_range data pos start end = (Ok d, if b = rb_len seg then pos + 1 else pos)"
      using \<open>pos < length data\<close> True cmp ab
      by (subst read_range.simps) (simp add: seg_def [symmetric] sub Let_def a_def [symmetric] b_def [symmetric] d_def)
    ultimately show ?thesis using \<open>pos < length data\<close> d ab start by auto
  next
    case False
    then have "read_range data pos start end = read_range data (pos + 1) start end"
      using \<open>pos < length data\<close> cmp by (subst read_range.simps) (auto simp: seg_def [symmetric])
    moreover have "\<not> (rb_off (data ! pos) \<le> start \<and> start < rb_max_off (data ! pos))" using False cmp by (simp add: seg_def)
    ultimately show ?thesis
      using IH [OF \<open>pos < length data\<close> refl _ l _ lt small] False hi \<open>pos < length data\<close> by auto
  qed
qed


lemma copy_range_spec:
  assumes "laid base data" and "base + before data pos \<le> unat start" and "start \<le> end"
    and "unat end \<le> base + length (contents data)" and "base + length (contents data) < 2 ^ 64" and "pos \<le> length data"
    and "unat end - unat start \<le> n"
  shows "\<exists>pos'. copy_range n data pos start end
      = Some (Ok (take (unat end - unat start) (drop (unat start - base) (contents data)), pos'))
    \<and> pos' \<le> length data \<and> base + before data pos' \<le> unat end"
  using assms
proof (induction n arbitrary: pos start)
  case 0
  then show ?case by (auto simp: word_le_nat_alt word_unat_eq_iff)
next
  case (Suc n)
  show ?case
  proof (cases "start = end")
    case True
    then show ?thesis using Suc.prems by auto
  next
    case False
    then have lt: "start < end" using Suc.prems(3) by simp
    obtain d p where d: "read_range data pos start end = (Ok d, p)" "p \<le> length data" "d \<noteq> []"
      "length d \<le> unat end - unat start" "d = take (length d) (drop (unat start - base) (contents data))"
      "base + before data p \<le> unat start + length d"
      using read_range_spec [OF Suc.prems(1,2) lt Suc.prems(4-6)] by blast
    let ?s = "start + as_u64 (length d)"
    have base: "base \<le> unat start" using Suc.prems(2) by simp
    have s: "unat ?s = unat start + length d"
      using d(4) lt Suc.prems(4,5) by (simp add: unat_add_small unat_of_nat_u64 word_less_nat_alt)
    have "0 < length d" using d(3) by simp
    then have le: "?s \<le> end" "unat end - unat ?s \<le> n" "base + before data p \<le> unat ?s"
      using s d(4,6) Suc.prems(7) lt by (auto simp: word_le_nat_alt word_less_nat_alt simp del: length_greater_0_conv)
    obtain p' where ih: "copy_range n data p ?s end
        = Some (Ok (take (unat end - unat ?s) (drop (unat ?s - base) (contents data)), p'))"
      "p' \<le> length data" "base + before data p' \<le> unat end"
      using Suc.IH [OF Suc.prems(1) le(3,1) Suc.prems(4,5) d(2) le(2)] by blast
    have "unat ?s - base = length d + (unat start - base)" using s base by simp
    then have "drop (unat ?s - base) (contents data) = drop (length d) (drop (unat start - base) (contents data))"
      by (simp only: drop_drop)
    moreover have "unat end - unat start = length d + (unat end - unat ?s)" using s d(4) by simp
    ultimately have "take (unat end - unat start) (drop (unat start - base) (contents data))
        = d @ take (unat end - unat ?s) (drop (unat ?s - base) (contents data))"
      by (metis d(5) take_add)
    then show ?thesis using False d(1) ih by simp
  qed
qed

subsection \<open>Invariant\<close>

definition sd_base :: "send_buf \<Rightarrow> nat" where
  "sd_base s = unat (sd_write_off s) - unat (sd_unacked_len s)"

definition sd_ok :: "bytes \<Rightarrow> send_buf \<Rightarrow> bool" where
  "sd_ok w s \<longleftrightarrow> unat (sd_write_off s) = length w
     \<and> sd_unsent_off s \<le> sd_write_off s \<and> sd_write_off s \<le> sd_max_data s \<and> sd_unacked_len s \<le> sd_write_off s
     \<and> laid (sd_base s) (sd_data s) \<and> contents (sd_data s) = drop (sd_base s) w
     \<and> off_ok (sd_acked s) \<and> off_ok (sd_retransmits s) \<and> rs_elems (sd_acked s) \<subseteq> {..< sd_unsent_off s}
     \<and> rs_elems (sd_retransmits s) \<subseteq> {..< sd_unsent_off s} - rs_elems (sd_acked s)
     \<and> unat (sd_ack_off s) = sd_base s
     \<and> sd_pos s \<le> length (sd_data s) \<and> sd_base s + before (sd_data s) (sd_pos s) \<le> unat (sd_send_off s)
     \<and> (\<forall>f. sd_fin_off s = Some f \<longrightarrow> f = sd_write_off s) \<and> sd_error s = None \<and> \<not> sd_shutdown s"

lemma ack_off_spec:
  assumes "off_ok (sd_acked s)"
  shows "sd_ack_off s = k \<longleftrightarrow> {..< k} \<subseteq> rs_elems (sd_acked s) \<and> k \<notin> rs_elems (sd_acked s)"
proof -
  have "{..< sd_ack_off s} \<subseteq> rs_elems (sd_acked s) \<and> sd_ack_off s \<notin> rs_elems (sd_acked s)"
  proof (cases "rs_set (sd_acked s)")
    case Nil
    then show ?thesis by (auto simp: sd_ack_off_def rs_elems_def)
  next
    case (Cons p m)
    have wf: "bt_wf (p # m)" "separated (set (p # m))" using assms Cons by (simp_all add: off_ok_def rs_wf_def)
    note fr = first_range_bounds [OF wf]
    have e: "rs_elems (sd_acked s) = covered (set (p # m))" by (simp only: rs_elems_def Cons)
    show ?thesis
    proof (cases "fst p = 0")
      case True
      then show ?thesis using Cons fr(2,4) unfolding e by (cases p) (auto simp: sd_ack_off_def)
    next
      case False
      then have "0 \<notin> rs_elems (sd_acked s)" using fr(3) [of 0] unfolding e by auto
      then show ?thesis using Cons False by (cases p) (auto simp: sd_ack_off_def)
    qed
  qed
  then show ?thesis by (metis antisym_conv3 lessThan_iff subsetD)
qed

lemma send_off_spec:
  assumes "sd_ok w s"
  shows "sd_send_off s \<le> sd_unsent_off s" and "sd_base s \<le> unat (sd_send_off s)"
    and "x \<in> rs_elems (sd_retransmits s) \<Longrightarrow> sd_send_off s \<le> x"
proof -
  have ok: "off_ok (sd_retransmits s)" "rs_elems (sd_retransmits s) \<subseteq> {..< sd_unsent_off s}"
    using assms by (auto simp: sd_ok_def)
  show "sd_send_off s \<le> sd_unsent_off s"
    using ok offs.least_in [OF ok(1)] by (fastforce simp: sd_send_off_def split: option.splits)
  show "sd_base s \<le> unat (sd_send_off s)" using assms by (simp add: sd_ok_def)
  show "x \<in> rs_elems (sd_retransmits s) \<Longrightarrow> sd_send_off s \<le> x"
    using ok offs.least_None [OF ok(1)] offs.least_le [OF ok(1)] by (auto simp: sd_send_off_def split: option.splits)
qed

text \<open>The derived offsets depend on the range sets only.\<close>

lemma sd_offsets_update [simp]:
  "sd_send_off (s\<lparr>sd_fin_off := f\<rparr>) = sd_send_off s" "sd_ack_off (s\<lparr>sd_fin_off := f\<rparr>) = sd_ack_off s"
  "sd_base (s\<lparr>sd_fin_off := f\<rparr>) = sd_base s" "sd_ack_off (s\<lparr>sd_retransmits := rt\<rparr>) = sd_ack_off s"
  "sd_base (s\<lparr>sd_retransmits := rt\<rparr>) = sd_base s" "sd_base (s\<lparr>sd_acked := ak\<rparr>) = sd_base s"
  "sd_send_off (s\<lparr>sd_pos := i\<rparr>) = sd_send_off s" "sd_ack_off (s\<lparr>sd_pos := i\<rparr>) = sd_ack_off s"
  "sd_base (s\<lparr>sd_pos := i\<rparr>) = sd_base s" "sd_send_off (s\<lparr>sd_acked := ak\<rparr>) = sd_send_off s"
  "sd_send_off (s\<lparr>sd_max_data := l\<rparr>) = sd_send_off s" "sd_ack_off (s\<lparr>sd_max_data := l\<rparr>) = sd_ack_off s"
  "sd_base (s\<lparr>sd_max_data := l\<rparr>) = sd_base s"
  "sd_send_off (s\<lparr>sd_blocked_at := g\<rparr>) = sd_send_off s" "sd_ack_off (s\<lparr>sd_blocked_at := g\<rparr>) = sd_ack_off s"
  "sd_base (s\<lparr>sd_blocked_at := g\<rparr>) = sd_base s"
  by (simp_all add: sd_send_off_def sd_ack_off_def sd_base_def split: option.split)

lemma sd_ok_new: "sd_ok [] (sd_new max_data)"
  using off_ok_default
  by (simp add: sd_ok_def sd_new_def sd_base_def sd_ack_off_def sd_send_off_def)
    (simp add: rs_default_def rs_new_def)


subsection \<open>Writing\<close>

text \<open>What a call of \<open>write\<close> leaves: the bytes that fit are appended.\<close>

definition sd_appended :: "bytes \<Rightarrow> bool \<Rightarrow> send_buf \<Rightarrow> nat \<Rightarrow> send_buf \<Rightarrow> bool" where
  "sd_appended data fin s n s' \<longleftrightarrow> n = min (length data) (unat (sd_max_data s) - unat (sd_write_off s))
     \<and> unat (sd_write_off s') = unat (sd_write_off s) + n
     \<and> sd_acked s' = sd_acked s \<and> sd_retransmits s' = sd_retransmits s \<and> sd_unsent_off s' = sd_unsent_off s
     \<and> sd_max_data s' = sd_max_data s \<and> (sd_fin_off s \<noteq> None \<longrightarrow> n = 0)
     \<and> sd_fin_off s' = (if fin \<and> n = length data then Some (sd_write_off s') else sd_fin_off s)"

lemma sd_ok_append:
  assumes ok: "sd_ok w s" and n: "length w + length data < 2 ^ 64" "length w + length data \<le> unat (sd_max_data s)"
    and q: "push_chunks data (length data) 0 fin (sd_write_off s) (sd_data s) = (q, off)"
    and f: "f = None \<or> f = Some off"
  shows "sd_ok (w @ data) (s\<lparr>sd_fin_off := f, sd_data := q, sd_write_off := off,
      sd_unacked_len := sd_unacked_len s + as_u64 (length data)\<rparr>)"
    and "unat off = length w + length data"
proof -
  let ?s = "s\<lparr>sd_fin_off := f, sd_data := q, sd_write_off := off, sd_unacked_len := sd_unacked_len s + as_u64 (length data)\<rparr>"
  have wo: "unat (sd_write_off s) = length w" "sd_unacked_len s \<le> sd_write_off s" using ok by (simp_all add: sd_ok_def)
  then obtain cs where cs: "q = sd_data s @ cs" "off = sd_write_off s + as_u64 (length data)"
    "laid (length w) cs" "contents cs = data"
    using push_chunks_spec [of "sd_write_off s" data "length data" 0 fin "sd_data s"] n(1) q by auto
  show off: "unat off = length w + length data"
    using cs(2) wo n(1) by (simp add: unat_add_small unat_of_nat_u64)
  have un: "unat (sd_unacked_len s + as_u64 (length data)) = unat (sd_unacked_len s) + length data"
    using wo n(1) by (simp add: unat_add_small unat_of_nat_u64 word_le_nat_alt)
  then have base: "sd_base ?s = sd_base s" using off wo by (simp add: sd_base_def)
  have "sd_base s \<le> length w" "contents (sd_data s) = drop (sd_base s) w"
    using ok wo by (simp_all add: sd_ok_def sd_base_def)
  then have "laid (sd_base s) q" "contents q = drop (sd_base s) (w @ data)"
    using ok cs by (simp_all add: laid_append sd_ok_def)
  moreover have "sd_send_off ?s = sd_send_off s" "sd_ack_off ?s = sd_ack_off s"
    by (simp_all add: sd_send_off_def sd_ack_off_def split: option.split)
  moreover have "before q (sd_pos s) = before (sd_data s) (sd_pos s)" "sd_pos s \<le> length q"
    using ok cs(1) by (simp_all add: sd_ok_def)
  moreover have "sd_unsent_off s \<le> off" using ok off wo by (simp add: sd_ok_def word_le_nat_alt)
  ultimately show "sd_ok (w @ data) ?s"
    using ok f off un base n(2) wo unfolding sd_ok_def by (auto simp: word_le_nat_alt)
qed

lemma sd_write_spec:
  assumes ok: "sd_ok w s" and small: "unat (sd_max_data s) < 2 ^ 62" "length data < 2 ^ 62"
  shows "sd_write data fin s = (Err FinalSizeError, s) \<and> sd_fin_off s \<noteq> None
    \<or> (\<exists>n s'. sd_write data fin s = (Ok n, s') \<and> sd_appended data fin s n s' \<and> sd_ok (w @ take n data) s')"
proof -
  define n where "n = min (length data) (unat (sd_max_data s) - length w)"
  have wo: "unat (sd_write_off s) = length w" "length w \<le> unat (sd_max_data s)" "sd_error s = None"
    and fo: "\<And>f. sd_fin_off s = Some f \<Longrightarrow> f = sd_write_off s"
    using ok by (auto simp: sd_ok_def word_le_nat_alt)
  have cap: "sd_capacity s = Ok (unat (sd_max_data s) - length w)"
    using wo by (simp add: sd_capacity_def unat_sub word_le_nat_alt)
  define max_off where "max_off = sd_write_off s + as_u64 (length data)"
  have mo: "unat max_off = length w + length data"
    using small wo by (simp add: max_off_def unat_add_small unat_of_nat_u64)
  define fin' where "fin' \<longleftrightarrow> fin \<and> n = length data"
  have trunc: "(if unat (sd_max_data s) - length w < length data then (take (unat (sd_max_data s) - length w) data, False) else (data, fin))
      = (take n data, fin')"
    by (auto simp: n_def fin'_def)
  define bad where "bad \<longleftrightarrow> (case sd_fin_off s of
      Some fin_off \<Rightarrow> fin_off < max_off \<or> (max_off = fin_off \<and> \<not> fin') | None \<Rightarrow> False)"
  have eq: "sd_write data fin s = (if bad then (Err FinalSizeError, s)
      else let s = (if fin' then s\<lparr>sd_fin_off := Some max_off\<rparr> else s) in
        if take n data = [] then (Ok 0, s)
        else let (q, write_off) = push_chunks (take n data) (length (take n data)) 0 fin' (sd_write_off s) (sd_data s) in
          (Ok (length (take n data)), s\<lparr>sd_data := q, sd_write_off := write_off,
             sd_unacked_len := sd_unacked_len s + as_u64 (length (take n data))\<rparr>))"
    by (simp only: sd_write_def bind_s_def lift_s_def cap result.case prod.case trunc bad_def max_off_def [symmetric] Let_def)
  have lt: "length (take n data) = n" "length w + n < 2 ^ 64" "length w + n \<le> unat (sd_max_data s)"
    using wo small by (auto simp: n_def)
  consider (bad) bad | (empty) "\<not> bad" "n = 0" | (some) "\<not> bad" "0 < n" by auto
  then show ?thesis
  proof cases
    case bad
    then have "sd_fin_off s \<noteq> None" by (auto simp: bad_def split: option.splits)
    then show ?thesis using bad eq by simp
  next
    case empty
    define s' where "s' = (if fin' then s\<lparr>sd_fin_off := Some max_off\<rparr> else s)"
    have "sd_write data fin s = (Ok 0, s')" using empty eq by (simp add: s'_def)
    moreover have "fin' \<Longrightarrow> max_off = sd_write_off s" using empty mo wo by (simp add: fin'_def max_off_def)
    then have "sd_appended data fin s 0 s'" "sd_ok w s'"
      using ok empty wo by (auto simp: s'_def sd_appended_def n_def fin'_def sd_ok_def)
    ultimately show ?thesis by (intro disjI2 exI [of _ 0] exI [of _ s']) simp
  next
    case some
    obtain q off where q: "push_chunks (take n data) (length (take n data)) 0 fin' (sd_write_off s) (sd_data s) = (q, off)"
      by fastforce
    define f where "f = (if fin' then Some max_off else sd_fin_off s)"
    define s' where "s' = s\<lparr>sd_fin_off := f, sd_data := q, sd_write_off := off,
        sd_unacked_len := sd_unacked_len s + as_u64 (length (take n data))\<rparr>"
    have nofin: "sd_fin_off s = None"
    proof (rule ccontr)
      assume "sd_fin_off s \<noteq> None"
      then have "sd_fin_off s = Some (sd_write_off s)" using fo by auto
      then have "\<not> sd_write_off s < max_off" using some(1) by (simp add: bad_def)
      then show False using mo wo(1) some(2) by (simp add: word_less_nat_alt n_def)
    qed
    have off: "unat off = length w + n"
      using sd_ok_append(2) [OF ok _ _ q, of None] lt by simp
    have f: "f = None \<or> f = Some off"
      using nofin off mo by (auto simp: f_def fin'_def word_unat_eq_iff)
    have "sd_ok (w @ take n data) s'"
      unfolding s'_def by (rule sd_ok_append(1) [OF ok _ _ q f]) (use lt in simp_all)
    moreover have "sd_appended data fin s n s'"
      using off wo nofin mo by (auto simp: sd_appended_def s'_def f_def fin'_def n_def word_unat_eq_iff)
    moreover have "take n data \<noteq> []" using some(2) lt(1) by auto
    then have "sd_write data fin s = (Ok n, s')"
      using some(1) eq q lt(1) by (auto simp: Let_def s'_def f_def)
    ultimately show ?thesis by blast
  qed
qed

subsection \<open>Sending\<close>

lemma poll_transmit_end:
  fixes a b :: u64
  assumes "a < b" and "0 < cap" and "cap < 2 ^ 64"
  defines "e \<equiv> min b (saturating_add a (as_u64 cap))"
  shows "a < e" and "e \<le> b" and "unat e - unat a \<le> cap"
proof -
  have c: "unat (as_u64 cap) = cap" using assms(3) by (simp add: unat_of_nat_u64)
  have sat: "unat (saturating_add a (as_u64 cap)) = min (unat a + cap) (2 ^ 64 - 1)"
    by (simp add: unat_saturating_add c)
  have "unat b \<le> 2 ^ 64 - 1" using unat_u64_bound [of b] by simp
  then have e: "unat e = min (unat b) (unat a + cap)"
    using sat by (auto simp: e_def min_def word_le_nat_alt)
  show "a < e" "e \<le> b" "unat e - unat a \<le> cap"
    using e assms(1,2) by (auto simp: word_less_nat_alt word_le_nat_alt)
qed

lemma poll_transmit_spec:
  assumes ok: "sd_ok w s" and ready: "sd_ready s" and cap: "0 < cap" "cap < 2 ^ 64"
  shows "\<exists>end rt. poll_transmit cap s
        = ((sd_send_off s, end), s\<lparr>sd_retransmits := rt, sd_unsent_off := max (sd_unsent_off s) end\<rparr>)
    \<and> sd_send_off s < end \<and> unat end - unat (sd_send_off s) \<le> cap \<and> end \<le> sd_write_off s
    \<and> off_ok rt \<and> rs_elems rt = rs_elems (sd_retransmits s) - {sd_send_off s ..< end}"
proof (cases "pop_min (sd_retransmits s)")
  case (Pair r t)
  have rt: "off_ok (sd_retransmits s)" "rs_elems (sd_retransmits s) \<subseteq> {..< sd_unsent_off s}"
    and uw: "sd_unsent_off s \<le> sd_write_off s" using ok by (auto simp: sd_ok_def)
  show ?thesis
  proof (cases r)
    case None
    then have e: "rs_set (sd_retransmits s) = []"
      using Pair by (auto simp: pop_min_def peek_min_def bt_first_def split: list.splits)
    then have off: "sd_send_off s = sd_unsent_off s" "rs_elems (sd_retransmits s) = {}"
      by (simp_all add: sd_send_off_def rs_min_def bt_first_def rs_elems_def)
    define e where "e = min (sd_write_off s) (saturating_add (sd_unsent_off s) (as_u64 cap))"
    have lt: "sd_unsent_off s < sd_write_off s" using ready off by (simp add: sd_ready_def)
    note b = poll_transmit_end [OF lt cap, folded e_def]
    have "poll_transmit cap s = ((sd_unsent_off s, e), s\<lparr>sd_unsent_off := e\<rparr>)"
      using Pair None by (simp add: poll_transmit_def e_def Let_def)
    moreover have "max (sd_unsent_off s) e = e" using b(1) by simp
    ultimately show ?thesis
      using b off rt by (intro exI [of _ e] exI [of _ "sd_retransmits s"]) simp
  next
    case (Some p)
    have wf: "rs_wf (sd_retransmits s)" using rt(1) by (simp add: off_ok_def)
    note pop = pop_min_spec [OF wf Pair [unfolded Some]]
    have off: "sd_send_off s = fst p" using pop by (simp add: sd_send_off_def rs_min_def bt_first_def)
    have "p \<in> set (rs_set (sd_retransmits s))" using pop by simp
    then have p: "fst p < snd p" "{fst p ..< snd p} \<subseteq> rs_elems (sd_retransmits s)"
      using wf unfolding rs_wf_def separated_def rs_elems_def covered_def by blast+
    define e where "e = min (snd p) (saturating_add (fst p) (as_u64 cap))"
    note b = poll_transmit_end [OF p(1) cap, folded e_def]
    have "snd p \<le> sd_unsent_off s"
    proof (rule ccontr)
      assume "\<not> snd p \<le> sd_unsent_off s"
      then have "max (fst p) (sd_unsent_off s) \<in> {fst p ..< snd p}" using p(1) by auto
      then have "max (fst p) (sd_unsent_off s) \<in> {..< sd_unsent_off s}" using p(2) rt(2) by blast
      then show False by simp
    qed
    then have m: "max (sd_unsent_off s) e = sd_unsent_off s" "e \<le> sd_write_off s" using b(2) uw by auto
    define t' where "t' = (if e \<noteq> snd p then rs_insert e (snd p) t else t)"
    have "rs_cap t = rs_cap (sd_retransmits s)" using Pair Some by (auto simp: pop_min_def split: option.splits)
    then have "off_ok t" using pop rt(1) by (simp add: off_ok_def)
    then have t': "off_ok t'" "rs_elems t' = rs_elems t \<union> {e ..< snd p}"
      by (auto simp: t'_def offs.ins_ok offs.elems_ins)
    have "rs_elems t' = rs_elems (sd_retransmits s) - {fst p ..< e}"
    proof -
      have "{fst p ..< snd p} = {fst p ..< e} \<union> {e ..< snd p}" "{fst p ..< e} \<inter> {e ..< snd p} = {}"
        using b(1,2) by (simp_all add: ivl_disj_un_two(3))
      then show ?thesis using t'(2) pop p(2) by blast
    qed
    moreover have "poll_transmit cap s = ((fst p, e), s\<lparr>sd_retransmits := t'\<rparr>)"
      using Pair Some by (simp add: poll_transmit_def Let_def e_def [symmetric] t'_def)
    ultimately show ?thesis
      using b off t'(1) m by (intro exI [of _ e] exI [of _ t']) simp
  qed
qed

lemma sd_ok_polled:
  assumes ok: "sd_ok w s" and e: "sd_send_off s < end" "end \<le> sd_write_off s"
    and rt: "off_ok rt" "rs_elems rt = rs_elems (sd_retransmits s) - {sd_send_off s ..< end}"
    and pos: "pos \<le> length (sd_data s)" "sd_base s + before (sd_data s) pos \<le> unat end"
  shows "sd_ok w (s\<lparr>sd_retransmits := rt, sd_unsent_off := max (sd_unsent_off s) end, sd_pos := pos\<rparr>)"
proof -
  let ?s = "s\<lparr>sd_retransmits := rt, sd_unsent_off := max (sd_unsent_off s) end, sd_pos := pos\<rparr>"
  have "end \<le> sd_send_off ?s"
  proof (cases "rs_min rt")
    case (Some x)
    then have "x \<in> rs_elems (sd_retransmits s)" "x \<notin> {sd_send_off s ..< end}" using offs.least_in [OF rt(1)] rt(2) by auto
    then show ?thesis using send_off_spec(3) [OF ok, of x] Some by (auto simp: sd_send_off_def)
  qed (simp add: sd_send_off_def)
  then have "sd_base s + before (sd_data s) pos \<le> unat (sd_send_off ?s)" using pos(2) by (simp add: word_le_nat_alt)
  moreover have "sd_base ?s = sd_base s" "sd_ack_off ?s = sd_ack_off s" by (simp_all add: sd_base_def sd_ack_off_def)
  moreover have "rs_elems (sd_acked s) \<subseteq> {..< max (sd_unsent_off s) end}"
    "rs_elems rt \<subseteq> {..< max (sd_unsent_off s) end} - rs_elems (sd_acked s)"
    using ok rt(2) unfolding sd_ok_def by (auto simp: less_max_iff_disj)
  ultimately show ?thesis using ok rt(1) pos(1) e(2) unfolding sd_ok_def by simp
qed

text \<open>One round of the loop of \<open>read\<close> copies what was written at the offset.\<close>

lemma read_round:
  assumes ok: "sd_ok w s" and may: "may_send cap off s" and cap: "cap < 2 ^ 64"
  shows "\<exists>d s' pos end. poll_transmit cap s = ((off, end), s')
    \<and> copy_range (unat (end - off)) (sd_data s') (sd_pos s') off end = Some (Ok (d, pos))
    \<and> d \<noteq> [] \<and> length d \<le> cap \<and> length d = unat (end - off) \<and> unat end = unat off + length d
    \<and> d = take (length d) (drop (unat off) w) \<and> sd_ok w (s'\<lparr>sd_pos := pos\<rparr>)
    \<and> sd_acked s' = sd_acked s \<and> sd_fin_off s' = sd_fin_off s \<and> sd_max_data s' = sd_max_data s
    \<and> rs_elems (sd_retransmits s') = rs_elems (sd_retransmits s) - {off ..< end}
    \<and> sd_unsent_off s' = max (sd_unsent_off s) end"
proof -
  have off: "off = sd_send_off s" and "sd_ready s" "0 < cap" using may by (auto simp: may_send_def)
  then obtain "end" rt where poll: "poll_transmit cap s
        = ((off, end), s\<lparr>sd_retransmits := rt, sd_unsent_off := max (sd_unsent_off s) end\<rparr>)"
    and e: "off < end" "unat end - unat off \<le> cap" "end \<le> sd_write_off s"
    and rt: "off_ok rt" "rs_elems rt = rs_elems (sd_retransmits s) - {off ..< end}"
    using poll_transmit_spec [OF ok _ _ cap] by auto
  have inv: "laid (sd_base s) (sd_data s)" "contents (sd_data s) = drop (sd_base s) w" "unat (sd_write_off s) = length w"
    "sd_pos s \<le> length (sd_data s)" "sd_base s + before (sd_data s) (sd_pos s) \<le> unat off"
    using ok off by (simp_all add: sd_ok_def)
  have len: "sd_base s + length (contents (sd_data s)) = length w" using inv(2,3) by (simp add: sd_base_def)
  have small: "length w < 2 ^ 64" using inv(3) unat_u64_bound [of "sd_write_off s"] by simp
  have diff: "unat (end - off) = unat end - unat off" using e(1) by (simp add: unat_sub)
  have "\<exists>pos. copy_range (unat (end - off)) (sd_data s) (sd_pos s) off end
      = Some (Ok (take (unat end - unat off) (drop (unat off - sd_base s) (contents (sd_data s))), pos))
    \<and> pos \<le> length (sd_data s) \<and> sd_base s + before (sd_data s) pos \<le> unat end"
    by (rule copy_range_spec [OF inv(1,5)]) (use e len small inv(3,4) diff in \<open>simp_all add: word_le_nat_alt word_less_nat_alt\<close>)
  then obtain pos where pos: "copy_range (unat (end - off)) (sd_data s) (sd_pos s) off end
      = Some (Ok (take (unat end - unat off) (drop (unat off - sd_base s) (contents (sd_data s))), pos))"
    "pos \<le> length (sd_data s)" "sd_base s + before (sd_data s) pos \<le> unat end" by blast
  define d where "d = take (unat end - unat off) (drop (unat off) w)"
  have base: "sd_base s \<le> unat off" using inv(5) by simp
  have dd: "take (unat end - unat off) (drop (unat off - sd_base s) (contents (sd_data s))) = d"
    using base by (simp add: inv(2) d_def)
  have dl: "length d = unat end - unat off" "unat off < unat end"
    using e inv(3) by (auto simp: d_def word_less_nat_alt word_le_nat_alt)
  have "sd_ok w (s\<lparr>sd_retransmits := rt, sd_unsent_off := max (sd_unsent_off s) end, sd_pos := pos\<rparr>)"
    by (rule sd_ok_polled [OF ok]) (use e rt pos off in auto)
  then show ?thesis
    using poll pos(1) dd dl e(2) rt diff
    by (intro exI [of _ d] exI [of _ "s\<lparr>sd_retransmits := rt, sd_unsent_off := max (sd_unsent_off s) end\<rparr>"]
        exI [of _ pos] exI [of _ "end"]) (auto simp: d_def)
qed


lemma take_append_drop_slice:
  assumes "d = take (length d) (drop k w)" and "d' = take (length d') (drop (k + length d) w)"
  shows "d @ d' = take (length (d @ d')) (drop k w)"
proof -
  have "take (length (d @ d')) (drop k w) = take (length d) (drop k w) @ take (length d') (drop (k + length d) w)"
    by (simp add: take_add add.commute)
  then show ?thesis using assms by simp
qed

lemma read_loop_spec:
  assumes "sd_ok w s" and "cap < n" and "cap < 2 ^ 64"
  shows "\<exists>d cap' off' s'. read_loop n cap off out s = Some (Ok (out @ d, cap', off'), s') \<and> sd_ok w s'
    \<and> unat off' = unat off + length d \<and> d = take (length d) (drop (unat off) w) \<and> length d \<le> cap
    \<and> (may_send cap off s \<longleftrightarrow> d \<noteq> []) \<and> sd_acked s' = sd_acked s \<and> sd_fin_off s' = sd_fin_off s \<and> sd_max_data s' = sd_max_data s
    \<and> rs_elems (sd_retransmits s') = rs_elems (sd_retransmits s) - {off ..< off'}
    \<and> sd_unsent_off s' = (if d = [] then sd_unsent_off s else max (sd_unsent_off s) off')"
  using assms
proof (induction n arbitrary: cap off out s)
  case (Suc n)
  show ?case
  proof (cases "may_send cap off s")
    case False
    then show ?thesis using Suc.prems by (intro exI [of _ "[]"]) simp
  next
    case True
    obtain d s1 pos e where r: "poll_transmit cap s = ((off, e), s1)"
      "copy_range (unat (e - off)) (sd_data s1) (sd_pos s1) off e = Some (Ok (d, pos))"
      "d \<noteq> []" "length d \<le> cap" "length d = unat (e - off)" "unat e = unat off + length d"
      "d = take (length d) (drop (unat off) w)" "sd_ok w (s1\<lparr>sd_pos := pos\<rparr>)"
      "sd_acked s1 = sd_acked s" "sd_fin_off s1 = sd_fin_off s" "sd_max_data s1 = sd_max_data s"
      "rs_elems (sd_retransmits s1) = rs_elems (sd_retransmits s) - {off ..< e}"
      "sd_unsent_off s1 = max (sd_unsent_off s) e"
      using read_round [OF Suc.prems(1) True Suc.prems(3)] by blast
    have e: "off + (e - off) = e" by simp
    have "0 < length d" using r(3) by simp
    then have "cap - length d < n" "cap - length d < 2 ^ 64"
      using r(4) Suc.prems by (simp_all del: length_greater_0_conv)
    from Suc.IH [OF r(8) this, of e "out @ d"] obtain d' cap' off' s' where ih:
      "read_loop n (cap - length d) e (out @ d) (s1\<lparr>sd_pos := pos\<rparr>) = Some (Ok ((out @ d) @ d', cap', off'), s')"
      "sd_ok w s'" "unat off' = unat e + length d'" "d' = take (length d') (drop (unat e) w)" "length d' \<le> cap - length d"
      "sd_acked s' = sd_acked s" "sd_fin_off s' = sd_fin_off s" "sd_max_data s' = sd_max_data s"
      "rs_elems (sd_retransmits s') = rs_elems (sd_retransmits s1) - {e ..< off'}"
      "sd_unsent_off s' = (if d' = [] then sd_unsent_off s1 else max (sd_unsent_off s1) off')"
      using r(9-11) by auto
    have le: "off \<le> e" "e \<le> off'" using r(6) ih(3) by (simp_all add: word_le_nat_alt)
    define dd where "dd = d @ d'"
    have "read_loop (Suc n) cap off out s = Some (Ok (out @ dd, cap', off'), s')"
      using True r(1,2,5) ih(1) e by (simp add: dd_def)
    moreover have "dd = take (length dd) (drop (unat off) w)"
      unfolding dd_def by (rule take_append_drop_slice [OF r(7) ih(4) [unfolded r(6)]])
    moreover have "rs_elems (sd_retransmits s') = rs_elems (sd_retransmits s) - {off ..< off'}"
      using ih(9) r(12) ivl_disj_un_two(3) [OF le] by blast
    moreover have "sd_unsent_off s' = max (sd_unsent_off s) off'"
    proof (cases "d' = []")
      case True
      then have "off' = e" using ih(3) by (simp add: word_unat_eq_iff)
      then show ?thesis using True ih(10) r(13) by simp
    qed (use ih(10) r(13) le(2) in \<open>simp add: max.assoc max_absorb2\<close>)
    moreover have "unat off' = unat off + length dd" "length dd \<le> cap" "dd \<noteq> []"
      using ih(3,5) r(3,4,6) by (simp_all add: dd_def)
    ultimately show ?thesis using ih(2,6-8) True by auto
  qed
qed simp

text \<open>What a call of \<open>read\<close> leaves after sending \<open>d\<close>.\<close>

definition sd_sent :: "bytes \<Rightarrow> send_buf \<Rightarrow> send_buf \<Rightarrow> bool" where
  "sd_sent d s s' \<longleftrightarrow> sd_acked s' = sd_acked s \<and> sd_fin_off s' = sd_fin_off s \<and> sd_max_data s' = sd_max_data s
     \<and> rs_elems (sd_retransmits s') = rs_elems (sd_retransmits s) - {sd_send_off s ..< sd_send_off s + as_u64 (length d)}
     \<and> {..< sd_unsent_off s'} = {..< sd_unsent_off s} \<union> {sd_send_off s ..< sd_send_off s + as_u64 (length d)}"

lemma sd_read_spec:
  assumes ok: "sd_ok w s" and cap: "cap < 2 ^ 64"
  shows "\<exists>d s'. sd_read cap s = Some (Ok (d, sd_fin_off s = Some (sd_send_off s + as_u64 (length d))), s')
    \<and> sd_ok w s' \<and> sd_sent d s s' \<and> length d \<le> cap \<and> d = take (length d) (drop (unat (sd_send_off s)) w)
    \<and> (d \<noteq> [] \<longleftrightarrow> 0 < cap \<and> sd_ready s)"
proof -
  let ?off = "sd_send_off s"
  obtain d cap' off' s' where r: "read_loop (Suc cap) cap ?off [] s = Some (Ok (d, cap', off'), s')" "sd_ok w s'"
    "unat off' = unat ?off + length d" "d = take (length d) (drop (unat ?off) w)" "length d \<le> cap"
    "may_send cap ?off s \<longleftrightarrow> d \<noteq> []" "sd_acked s' = sd_acked s" "sd_fin_off s' = sd_fin_off s" "sd_max_data s' = sd_max_data s"
    "rs_elems (sd_retransmits s') = rs_elems (sd_retransmits s) - {?off ..< off'}"
    "sd_unsent_off s' = (if d = [] then sd_unsent_off s else max (sd_unsent_off s) off')"
    using read_loop_spec [OF ok _ cap, of "Suc cap" ?off "[]"] by auto
  have "length d < 2 ^ 64" using r(5) cap by simp
  then have off: "off' = ?off + as_u64 (length d)"
    using r(3) unat_u64_bound [of off'] by (simp add: word_unat_eq_iff unat_add_small unat_of_nat_u64)
  have le: "?off \<le> sd_unsent_off s" "?off \<le> off'" using send_off_spec(1) [OF ok] r(3) by (simp_all add: word_le_nat_alt)
  have "{..< sd_unsent_off s'} = {..< sd_unsent_off s} \<union> {?off ..< off'}"
  proof (cases "d = []")
    case False
    then show ?thesis using r(11) le by (auto simp: less_max_iff_disj)
  qed (use r(11) off in simp)
  then have "sd_sent d s s'" using r(7-10) off by (simp add: sd_sent_def)
  moreover have "may_send cap ?off s \<longleftrightarrow> 0 < cap \<and> sd_ready s"
    using ok by (auto simp: may_send_def sd_ready_def sd_ok_def)
  ultimately show ?thesis using r off by (intro exI [of _ d] exI [of _ s']) (simp add: sd_read_def)
qed

subsection \<open>Acknowledgements\<close>

lemma drop_front_spec:
  assumes "laid base q" and "k \<le> length (contents q)" and "base + length (contents q) < 2 ^ 64"
  shows "\<exists>q' n. drop_front k q blocks = Ok (q', blocks + n) \<and> laid (base + k) q' \<and> contents q' = drop k (contents q)
    \<and> (\<forall>i. i \<le> length q \<longrightarrow> i - n \<le> length q' \<and> (i - n = 0 \<or> k + before q' (i - n) = before q i))"
  using assms
proof (induction q arbitrary: base k blocks)
  case Nil
  then show ?case by (simp add: drop_front.simps)
next
  case (Cons b q)
  note l = Cons.prems(1) [unfolded laid_Cons]
  show ?case
  proof (cases "k = 0")
    case True
    then show ?thesis using Cons.prems by (intro exI [of _ "b # q"] exI [of _ 0]) (simp add: drop_front.simps)
  next
    case False
    show ?thesis
    proof (cases "rb_len b \<le> k")
      case True
      obtain q' n where ih: "drop_front (k - rb_len b) q (Suc blocks) = Ok (q', Suc blocks + n)"
        "laid (base + rb_len b + (k - rb_len b)) q'" "contents q' = drop (k - rb_len b) (contents q)"
        "\<And>i. i \<le> length q \<Longrightarrow> i - n \<le> length q' \<and> (i - n = 0 \<or> k - rb_len b + before q' (i - n) = before q i)"
      proof -
        have "k - rb_len b \<le> length (contents q)" "base + rb_len b + length (contents q) < 2 ^ 64" "laid (base + rb_len b) q"
          using Cons.prems(2,3) l by simp_all
        then show ?thesis using Cons.IH that by blast
      qed
      have "i - Suc n \<le> length q' \<and> (i - Suc n = 0 \<or> k + before q' (i - Suc n) = before (b # q) i)"
        if "i \<le> length (b # q)" for i
        using ih(4) [of "i - 1"] that True by (cases i) auto
      moreover have "drop_front k (b # q) blocks = Ok (q', blocks + Suc n)"
        using ih(1) True False by (simp add: drop_front.simps)
      ultimately show ?thesis
        using ih(2,3) True by (intro exI [of _ q'] exI [of _ "Suc n"]) auto
    next
      case lt: False
      have "rb_ok b" using laid_ok [OF Cons.prems(1,3)] by simp
      obtain b' where b': "rb_advance k b = Ok b'" "lo b' = lo b + k" "rb_data b' = drop k (rb_data b)"
        using rb_advance_spec [OF \<open>rb_ok b\<close>, of k] lt by (auto simp: rb_advance_def)
      have "laid (base + k) (b' # q)" using l b' lt by (auto simp: laid_Cons)
      moreover have "k + before (b' # q) i = before (b # q) i" if "i \<noteq> 0" for i
        using that b'(3) lt by (cases i) auto
      ultimately show ?thesis
        using lt False b' by (intro exI [of _ "b' # q"] exI [of _ 0]) (auto simp: drop_front.simps)
    qed
  qed
qed

text \<open>What is acknowledged counts from offset 0: the base of the buffer is the end of the first range.\<close>

lemma acked_below_base:
  assumes "sd_ok w s"
  shows "{..< sd_ack_off s} \<subseteq> rs_elems (sd_acked s)" and "sd_ack_off s \<le> sd_unsent_off s"
    and "sd_data s = [] \<longleftrightarrow> sd_ack_off s = sd_write_off s"
proof -
  have ak: "off_ok (sd_acked s)" "rs_elems (sd_acked s) \<subseteq> {..< sd_unsent_off s}" using assms by (auto simp: sd_ok_def)
  show below: "{..< sd_ack_off s} \<subseteq> rs_elems (sd_acked s)" using ack_off_spec [OF ak(1)] by blast
  show "sd_ack_off s \<le> sd_unsent_off s"
  proof (rule ccontr)
    assume "\<not> sd_ack_off s \<le> sd_unsent_off s"
    then have "sd_unsent_off s \<in> rs_elems (sd_acked s)" using below by auto
    then show False using ak(2) by blast
  qed
  have c: "contents (sd_data s) = drop (sd_base s) w" "sd_base s = unat (sd_ack_off s)" "unat (sd_write_off s) = length w"
    "laid (sd_base s) (sd_data s)" using assms by (auto simp: sd_ok_def)
  have "contents (sd_data s) = [] \<longleftrightarrow> sd_data s = []"
    using c(4) by (cases "sd_data s") (auto simp: laid_Cons)
  moreover have "sd_ack_off s \<le> sd_write_off s"
    using \<open>sd_ack_off s \<le> sd_unsent_off s\<close> assms by (auto simp: sd_ok_def)
  ultimately show "sd_data s = [] \<longleftrightarrow> sd_ack_off s = sd_write_off s"
    using c(1-3) by (auto simp: word_unat_eq_iff word_le_nat_alt)
qed

definition sd_acknowledged :: "u64 \<Rightarrow> nat \<Rightarrow> send_buf \<Rightarrow> send_buf \<Rightarrow> bool" where
  "sd_acknowledged off len s s' \<longleftrightarrow> rs_elems (sd_acked s') = rs_elems (sd_acked s) \<union> {off ..< off + as_u64 len}
     \<and> rs_elems (sd_retransmits s') = rs_elems (sd_retransmits s) - {off ..< off + as_u64 len}
     \<and> sd_unsent_off s' = sd_unsent_off s \<and> sd_write_off s' = sd_write_off s \<and> sd_fin_off s' = sd_fin_off s
     \<and> sd_max_data s' = sd_max_data s"

lemma retransmits_above_base:
  assumes "{..< k} \<subseteq> rs_elems (sd_acked s)" and "off_ok (sd_retransmits s)" and "k \<le> sd_unsent_off s"
    and "rs_elems (sd_retransmits s) \<inter> rs_elems (sd_acked s) = {}"
  shows "k \<le> sd_send_off s"
proof (cases "rs_min (sd_retransmits s)")
  case (Some x)
  then have "x \<notin> rs_elems (sd_acked s)" using offs.least_in [OF assms(2)] assms(4) by blast
  then have "k \<le> x" using assms(1) by (meson lessThan_iff not_less subsetD)
  then show ?thesis using Some by (simp add: sd_send_off_def)
qed (use assms(3) in \<open>simp add: sd_send_off_def\<close>)

lemma send_off_shrink:
  assumes "off_ok (sd_retransmits s)" and "off_ok (sd_retransmits s')" and "sd_unsent_off s' = sd_unsent_off s"
    and "rs_elems (sd_retransmits s') \<subseteq> rs_elems (sd_retransmits s)"
    and "rs_elems (sd_retransmits s) \<subseteq> {..< sd_unsent_off s}"
  shows "sd_send_off s \<le> sd_send_off s'"
proof (cases "rs_min (sd_retransmits s')")
  case None
  then show ?thesis using assms(3,5) offs.least_in [OF assms(1)]
    by (auto simp: sd_send_off_def split: option.splits)
next
  case (Some x)
  then have "x \<in> rs_elems (sd_retransmits s)" using offs.least_in [OF assms(2)] assms(4) by blast
  then show ?thesis using Some offs.least_None [OF assms(1)] offs.least_le [OF assms(1)]
    by (auto simp: sd_send_off_def split: option.splits)
qed

lemma sent_range:
  assumes "sd_ok w s" and "unat off + len \<le> unat (sd_unsent_off s)"
  shows "unat (off + as_u64 len) = unat off + len" and "off + as_u64 len \<le> sd_unsent_off s" and "off \<le> off + as_u64 len"
proof -
  have "unat off + len < 2 ^ 64" using assms(2) unat_u64_bound [of "sd_unsent_off s"] by simp
  then show u: "unat (off + as_u64 len) = unat off + len" by (simp add: unat_add_small unat_of_nat_u64)
  then show "off + as_u64 len \<le> sd_unsent_off s" "off \<le> off + as_u64 len" using assms(2) by (simp_all add: word_le_nat_alt)
qed

text \<open>The bookkeeping of an acknowledgement keeps everything but the base of the buffer.\<close>

lemma ack_noted:
  assumes ok: "sd_ok w s" and sent: "unat off + len \<le> unat (sd_unsent_off s)"
  defines "s1 \<equiv> s\<lparr>sd_acked := rs_insert off (off + as_u64 len) (sd_acked s),
      sd_retransmits := rs_remove off (off + as_u64 len) (sd_retransmits s)\<rparr>"
  shows "sd_acknowledged off len s s1" and "off_ok (sd_acked s1)" and "off_ok (sd_retransmits s1)"
    and "rs_elems (sd_acked s1) \<subseteq> {..< sd_unsent_off s}"
    and "rs_elems (sd_retransmits s1) \<subseteq> {..< sd_unsent_off s} - rs_elems (sd_acked s1)"
    and "sd_ack_off s \<le> sd_ack_off s1" and "sd_ack_off s1 \<le> sd_unsent_off s"
    and "sd_ack_off s1 < off \<Longrightarrow> sd_ack_off s1 = sd_ack_off s"
    and "sd_ack_off s1 \<le> sd_send_off s1" and "sd_send_off s \<le> sd_send_off s1"
proof -
  let ?r = "{off ..< off + as_u64 len}"
  have inv: "off_ok (sd_acked s)" "off_ok (sd_retransmits s)" "rs_elems (sd_acked s) \<subseteq> {..< sd_unsent_off s}"
    "rs_elems (sd_retransmits s) \<subseteq> {..< sd_unsent_off s} - rs_elems (sd_acked s)" using ok by (auto simp: sd_ok_def)
  show ack: "sd_acknowledged off len s s1" "off_ok (sd_acked s1)" and rt: "off_ok (sd_retransmits s1)"
    using inv by (simp_all add: s1_def sd_acknowledged_def offs.elems_ins offs.elems_del offs.ins_ok offs.del_ok)
  have ak: "rs_elems (sd_acked s1) = rs_elems (sd_acked s) \<union> ?r" "rs_elems (sd_retransmits s1) = rs_elems (sd_retransmits s) - ?r"
    using ack(1) by (simp_all add: sd_acknowledged_def)
  have "?r \<subseteq> {..< sd_unsent_off s}" using sent_range(2) [OF ok sent] by auto
  then show sub: "rs_elems (sd_acked s1) \<subseteq> {..< sd_unsent_off s}" using ak(1) inv(3) by blast
  show rsub: "rs_elems (sd_retransmits s1) \<subseteq> {..< sd_unsent_off s} - rs_elems (sd_acked s1)" using ak inv(4) by blast
  note old = ack_off_spec [OF inv(1), THEN iffD1, OF refl] and new = ack_off_spec [OF ack(2), THEN iffD1, OF refl]
  show "sd_ack_off s \<le> sd_ack_off s1" 
  proof (rule ccontr)
    assume "\<not> sd_ack_off s \<le> sd_ack_off s1"
    then have "sd_ack_off s1 \<in> {..< sd_ack_off s}" by simp
    then show False using old new ak(1) by blast
  qed
  show le: "sd_ack_off s1 \<le> sd_unsent_off s"
  proof (rule ccontr)
    assume "\<not> sd_ack_off s1 \<le> sd_unsent_off s"
    then have "sd_unsent_off s \<in> rs_elems (sd_acked s1)" using new by auto
    then show False using sub by blast
  qed
  show "sd_ack_off s1 = sd_ack_off s" if "sd_ack_off s1 < off"
  proof -
    have "{..< sd_ack_off s1} \<inter> ?r = {}" using that by auto
    then have "{..< sd_ack_off s1} \<subseteq> rs_elems (sd_acked s)" using new ak(1) by blast
    moreover have "sd_ack_off s1 \<notin> rs_elems (sd_acked s)" using new ak(1) by blast
    ultimately show ?thesis using ack_off_spec [OF inv(1), of "sd_ack_off s1"] by simp
  qed
  show "sd_ack_off s1 \<le> sd_send_off s1"
    by (rule retransmits_above_base [OF _ rt]) (use new le rsub in \<open>auto simp: s1_def\<close>)
  show "sd_send_off s \<le> sd_send_off s1"
    by (rule send_off_shrink [OF inv(2) rt]) (use ak inv(4) in \<open>auto simp: s1_def\<close>)
qed

lemma ack_and_drop_spec:
  assumes ok: "sd_ok w s" and sent: "unat off + len \<le> unat (sd_unsent_off s)"
  shows "\<exists>s'. ack_and_drop off len s = (Ok (), s') \<and> sd_ok w s' \<and> sd_acknowledged off len s s'"
proof -
  note inv = ok [unfolded sd_ok_def] and ak = acked_below_base [OF ok]
  define s1 where "s1 = s\<lparr>sd_acked := rs_insert off (off + as_u64 len) (sd_acked s),
      sd_retransmits := rs_remove off (off + as_u64 len) (sd_retransmits s)\<rparr>"
  note n = ack_noted [OF ok sent, folded s1_def]
  have f: "sd_data s1 = sd_data s" "sd_base s1 = sd_base s" "sd_write_off s1 = sd_write_off s" "sd_unacked_len s1 = sd_unacked_len s"
    "sd_pos s1 = sd_pos s" "sd_unsent_off s1 = sd_unsent_off s" "sd_max_data s1 = sd_max_data s" "sd_fin_off s1 = sd_fin_off s"
    "sd_error s1 = sd_error s" "sd_shutdown s1 = sd_shutdown s" by (simp_all add: s1_def sd_base_def)
  consider (none) "sd_data s = []" | (gap) "sd_data s \<noteq> []" "sd_ack_off s1 < off"
    | (adv) "sd_data s \<noteq> []" "\<not> sd_ack_off s1 < off" by blast
  then show ?thesis
  proof cases
    case none
    have "{..< sd_unsent_off s} \<subseteq> rs_elems (sd_acked s)" using ak none inv by simp
    then have "rs_elems (sd_acked s) = {..< sd_unsent_off s}" "rs_elems (sd_retransmits s) = {}" using inv by blast+
    moreover have "{off ..< off + as_u64 len} \<subseteq> {..< sd_unsent_off s}" using sent_range(2) [OF ok sent] by auto
    moreover have cl: "off_ok (rs_clear (sd_retransmits s))" "rs_elems (rs_clear (sd_retransmits s)) = {}"
      using inv by (simp_all add: rs_clear_def off_ok_def rs_wf_def separated_def rs_elems_def)
    ultimately have "sd_acknowledged off len s (s\<lparr>sd_retransmits := rs_clear (sd_retransmits s)\<rparr>)"
      by (auto simp: sd_acknowledged_def)
    moreover have "sd_send_off s \<le> sd_send_off (s\<lparr>sd_retransmits := rs_clear (sd_retransmits s)\<rparr>)"
      by (rule send_off_shrink) (use inv cl in auto)
    then have "sd_ok w (s\<lparr>sd_retransmits := rs_clear (sd_retransmits s)\<rparr>)"
      using inv cl unfolding sd_ok_def by (auto simp: word_le_nat_alt)
    ultimately show ?thesis using none by (simp add: ack_and_drop_def)
  next
    case gap
    have "unat (sd_send_off s) \<le> unat (sd_send_off s1)" using n(10) by (simp add: word_le_nat_alt)
    then have "sd_ok w s1" using inv n(2-5) n(8) [OF gap(2)] f unfolding sd_ok_def by auto
    moreover have "ack_and_drop off len s = (Ok (), s1)" using gap by (simp add: ack_and_drop_def sd_ack_def s1_def Let_def)
    ultimately show ?thesis using n(1) by blast
  next
    case adv
    define k where "k = unat (sd_ack_off s1) - sd_base s"
    have b: "unat (sd_ack_off s) = sd_base s" "unat (sd_write_off s) = length w" "unat (sd_unacked_len s) \<le> length w"
      using inv by (auto simp: word_le_nat_alt)
    have le: "sd_base s + k = unat (sd_ack_off s1)" "sd_base s + k \<le> length w" "length w < 2 ^ 64"
      using n(6,7) inv b unat_u64_bound [of "sd_write_off s"] by (auto simp: k_def word_le_nat_alt)
    have len: "length (contents (sd_data s)) = length w - sd_base s" using inv by simp
    have base: "sd_write_off s - sd_unacked_len s = sd_ack_off s" 
      using b inv by (simp add: word_unat_eq_iff unat_sub sd_base_def)
    have k: "unat (sd_ack_off s1 - sd_ack_off s) = k" using n(6) b by (simp add: k_def unat_sub)
    obtain q' m where q: "drop_front k (sd_data s) 0 = Ok (q', m)" "laid (sd_base s + k) q'" "contents q' = drop k (contents (sd_data s))"
      "\<And>i. i \<le> length (sd_data s) \<Longrightarrow> i - m \<le> length q' \<and> (i - m = 0 \<or> k + before q' (i - m) = before (sd_data s) i)"
    proof -
      have "k \<le> length (contents (sd_data s))" "sd_base s + length (contents (sd_data s)) < 2 ^ 64" "laid (sd_base s) (sd_data s)"
        using inv len le by (auto simp: sd_base_def)
      then show ?thesis using drop_front_spec [of "sd_base s" "sd_data s" k 0] that by fastforce
    qed
    define s2 where "s2 = s1\<lparr>sd_unacked_len := sd_unacked_len s - (sd_ack_off s1 - sd_ack_off s), sd_data := q', sd_pos := sd_pos s - m\<rparr>"
    have "sd_ack_off (s\<lparr>sd_acked := rs_insert off (off + as_u64 len) (sd_acked s)\<rparr>) = sd_ack_off s1" by (simp add: s1_def)
    then have "ack_and_drop off len s = (Ok (), s2)"
      using adv q(1) k base f by (simp add: ack_and_drop_def sd_ack_def s1_def [symmetric] Let_def s2_def)
    moreover have "sd_acknowledged off len s s2" using n(1) by (simp add: sd_acknowledged_def s2_def)
    moreover have un: "unat (sd_unacked_len s2) = unat (sd_unacked_len s) - k"
      using k le b(3) by (simp add: s2_def unat_sub word_le_nat_alt sd_base_def b)
    then have base2: "sd_base s2 = sd_base s + k" using b le f by (simp add: sd_base_def s2_def)
    have off2: "sd_send_off s2 = sd_send_off s1" "sd_ack_off s2 = sd_ack_off s1"
      by (simp_all add: s2_def sd_send_off_def sd_ack_off_def split: option.split)
    have pos: "sd_pos s - m \<le> length q'" "sd_base s + k + before q' (sd_pos s - m) \<le> unat (sd_send_off s1)"
      using q(4) [of "sd_pos s"] inv n(9,10) le by (auto simp: word_le_nat_alt)
    have "sd_ok w s2"
      using inv n(2-5) q(2,3) pos le un base2 off2 b f unfolding sd_ok_def by (simp add: s2_def word_le_nat_alt add.commute)
    ultimately show ?thesis by blast
  qed
qed

subsection \<open>Loss\<close>

lemma lost_ranges_spec:
  assumes "bt_wf m" and "separated (set m)" and "off_ok rt" and "lost_ranges m start end rt = (a, b, rt')"
  shows "off_ok rt' \<and> rs_elems rt' \<union> {a ..< b} = rs_elems rt \<union> ({start ..< end} - covered (set m))"
  using assms
proof (induction m start "end" rt rule: lost_ranges.induct)
  case (2 r m start "end" rt)
  have wf: "bt_wf m" "separated (set m)" using "2.prems"(1,2) by (auto simp: bt_wf_Cons intro: separated_subset)
  have ne: "fst r < snd r" using "2.prems"(2) by (simp add: separated_def)
  have above: "snd r < x" if x: "x \<in> covered (set m)" for x
  proof -
    obtain q where q: "q \<in> set m" "fst q \<le> x" using x by (auto simp: covered_def)
    then have "fst r < fst q" using "2.prems"(1) by (auto simp: bt_wf_Cons)
    then have "snd r < fst q" using q(1) "2.prems"(2) by (simp add: separated_def)
    then show ?thesis using q(2) by simp
  qed
  note result = "2.prems"(4) and rt = "2.prems"(3)
  consider (before) "end \<le> fst r" | (after) "fst r < end" "snd r \<le> start"
    | (second) "fst r < end" "start < snd r" "start < fst r" "end \<le> snd r"
    | (cross) "fst r < end" "start < snd r" "start < fst r" "snd r < end"
    | (inside) "fst r < end" "start < snd r" "fst r \<le> start" "end \<le> snd r"
    | (first) "fst r < end" "start < snd r" "fst r \<le> start" "snd r < end"
    by fastforce
  then show ?case
  proof cases
    case before
    have "x \<notin> {start ..< end}" if x: "x \<in> covered (set (r # m))" for x
    proof -
      have "fst r \<le> x" using above x ne by (fastforce dest: less_trans less_imp_le)
      then show ?thesis using before by auto
    qed
    then have "{start ..< end} \<inter> covered (set (r # m)) = {}" by blast
    then show ?thesis using before result rt by auto
  next
    case after
    have "{start ..< end} - covered (set (r # m)) = {start ..< end} - covered (set m)" using after by auto
    moreover have "lost_ranges m start end rt = (a, b, rt')" using after(1) [unfolded not_le [symmetric]] after(2) result by simp
    ultimately show ?thesis using "2.IH"(1) [OF _ after(2) wf rt] after(1) by simp
  next
    case second
    have "x \<in> {start ..< end} - covered (set (r # m)) \<longleftrightarrow> x \<in> {start ..< fst r}" for x
      using second above [of x] by (cases "x < fst r") (auto simp: not_less)
    then have "{start ..< end} - covered (set (r # m)) = {start ..< fst r}" by blast
    moreover have "a = start" "b = fst r" "rt' = rt"
      using second(1,2) [unfolded not_le [symmetric]] second(3,4) result by simp_all
    ultimately show ?thesis using rt by simp
  next
    case cross
    have r: "lost_ranges m (snd r) end (rs_insert start (fst r) rt) = (a, b, rt')"
      using cross(1,2,4) [unfolded not_le [symmetric]] cross(3) result by simp
    have "{start ..< end} - covered (set (r # m)) = {start ..< fst r} \<union> ({snd r ..< end} - covered (set m))"
    proof (rule set_eqI)
      fix x
      show "x \<in> {start ..< end} - covered (set (r # m)) \<longleftrightarrow> x \<in> {start ..< fst r} \<union> ({snd r ..< end} - covered (set m))"
        using cross above [of x] ne by (cases "x < fst r"; cases "x < snd r") (auto simp: not_less)
    qed
    then show ?thesis using "2.IH"(2) [OF _ _ _ _ wf offs.ins_ok [OF rt] r] offs.elems_ins [OF rt] cross by auto
  next
    case inside
    have "{start ..< end} - covered (set (r # m)) = {}" using inside by auto
    moreover have "a = b" "rt' = rt"
      using inside(1,2) [unfolded not_le [symmetric]] leD [OF inside(3)] inside(4) result by auto
    ultimately show ?thesis using rt by auto
  next
    case first
    have r: "lost_ranges m (snd r) end rt = (a, b, rt')"
      using first(1,2,4) [unfolded not_le [symmetric]] leD [OF first(3)] result by simp
    have "{start ..< end} - covered (set (r # m)) = {snd r ..< end} - covered (set m)" using first by auto
    then show ?thesis using "2.IH"(3) [OF _ _ _ _ wf rt r] first by auto
  qed
qed simp

definition sd_lost :: "u64 \<Rightarrow> nat \<Rightarrow> send_buf \<Rightarrow> send_buf \<Rightarrow> bool" where
  "sd_lost off len s s' \<longleftrightarrow> rs_elems (sd_retransmits s')
       = rs_elems (sd_retransmits s) \<union> ({off ..< off + as_u64 len} - rs_elems (sd_acked s))
     \<and> sd_acked s' = sd_acked s \<and> sd_unsent_off s' = sd_unsent_off s \<and> sd_write_off s' = sd_write_off s
     \<and> sd_fin_off s' = sd_fin_off s \<and> sd_max_data s' = sd_max_data s"

lemma retransmit_spec:
  assumes ok: "sd_ok w s" and sent: "unat off + len \<le> unat (sd_unsent_off s)"
  shows "sd_ok w (retransmit off len s) \<and> sd_lost off len s (retransmit off len s)"
proof (cases "sd_data s = [] \<or> off + as_u64 len \<le> sd_ack_off s")
  case True
  have "off + as_u64 len \<le> sd_ack_off s"
    using True acked_below_base(3) [OF ok] sent_range(2) [OF ok sent] ok by (auto simp: sd_ok_def)
  then have "{off ..< off + as_u64 len} \<subseteq> {..< sd_ack_off s}" by auto
  then have "{off ..< off + as_u64 len} - rs_elems (sd_acked s) = {}" using acked_below_base(1) [OF ok] by blast
  then show ?thesis using True ok by (auto simp: retransmit_def sd_lost_def)
next
  case False
  note inv = ok [unfolded sd_ok_def]
  obtain a b rt where l: "lost_ranges (rs_set (sd_acked s)) off (off + as_u64 len) (sd_retransmits s) = (a, b, rt)"
    by (metis prod_cases3)
  have wf: "bt_wf (rs_set (sd_acked s))" "separated (set (rs_set (sd_acked s)))" "off_ok (sd_retransmits s)"
    using inv by (auto simp: off_ok_def rs_wf_def)
  note lost = lost_ranges_spec [OF wf l, folded rs_elems_def]
  define s1 where "s1 = s\<lparr>sd_retransmits := rs_insert a b rt\<rparr>"
  have rt: "off_ok (sd_retransmits s1)"
    "rs_elems (sd_retransmits s1) = rs_elems (sd_retransmits s) \<union> ({off ..< off + as_u64 len} - rs_elems (sd_acked s))"
    using lost by (auto simp: s1_def offs.ins_ok offs.elems_ins)
  have eq: "retransmit off len s = (if sd_send_off s1 < sd_send_off s then s1\<lparr>sd_pos := 0\<rparr> else s1)"
    using False l by (simp add: retransmit_def s1_def Let_def)
  have f: "sd_base s1 = sd_base s" "sd_ack_off s1 = sd_ack_off s" "sd_unsent_off s1 = sd_unsent_off s" "sd_acked s1 = sd_acked s"
    "sd_data s1 = sd_data s" by (simp_all add: s1_def)
  have "{off ..< off + as_u64 len} \<subseteq> {..< sd_unsent_off s}" using sent_range(2) [OF ok sent] by auto
  then have sub: "rs_elems (sd_retransmits s1) \<subseteq> {..< sd_unsent_off s} - rs_elems (sd_acked s)" using rt(2) inv by blast
  have "sd_ack_off s1 \<le> sd_send_off s1"
    by (rule retransmits_above_base [OF _ rt(1)]) (use acked_below_base [OF ok] sub f in auto)
  then have base: "sd_base s \<le> unat (sd_send_off s1)" using f(2) inv by (simp add: word_le_nat_alt)
  have gen: "sd_ok w (s1\<lparr>sd_pos := i\<rparr>)"
    if "i \<le> length (sd_data s)" "sd_base s + before (sd_data s) i \<le> unat (sd_send_off s1)" for i
    using inv rt(1) sub f that unfolding sd_ok_def by (simp add: s1_def)
  have "sd_ok w (retransmit off len s)"
  proof (cases "sd_send_off s1 < sd_send_off s")
    case True
    then show ?thesis using gen [of 0] base eq by simp
  next
    case False
    then have "unat (sd_send_off s) \<le> unat (sd_send_off s1)" by (simp add: word_less_nat_alt)
    moreover have "s1\<lparr>sd_pos := sd_pos s\<rparr> = s1" by (simp add: s1_def)
    ultimately show ?thesis using gen [of "sd_pos s"] False eq inv by simp
  qed
  moreover have "sd_lost off len s (retransmit off len s)"
    using eq rt(2) by (simp add: sd_lost_def) (simp add: s1_def)
  ultimately show ?thesis ..
qed

subsection \<open>The end of the stream\<close>

lemma rs_eq_range_iff:
  assumes "off_ok s" and "0 < f"
  shows "rs_eq_range s (0, f) \<longleftrightarrow> rs_elems s = {..< f}"
proof -
  have "rs_eq_range s (0, f) \<longleftrightarrow> rs_set s = [(0, f)]"
    by (cases "rs_set s") (auto simp: rs_eq_range_def rs_len_def peek_min_def bt_first_def)
  also have "\<dots> \<longleftrightarrow> covered (set (rs_set s)) = covered (set [(0, f)])"
    using ranges_unique [of "rs_set s" "[(0, f)]"] assms by (auto simp: off_ok_def rs_wf_def separated_def bt_wf_def)
  also have "covered (set [(0, f)]) = {..< f}" by (auto simp: covered_def)
  finally show ?thesis by (simp add: rs_elems_def)
qed

lemma sd_is_complete_iff:
  assumes "sd_ok w s"
  shows "sd_is_complete s \<longleftrightarrow> sd_fin_off s \<noteq> None \<and> rs_elems (sd_acked s) = {..< sd_write_off s}"
proof (cases "sd_fin_off s")
  case (Some f)
  have ok: "f = sd_write_off s" "off_ok (sd_acked s)" "rs_elems (sd_acked s) \<subseteq> {..< sd_unsent_off s}" "sd_unsent_off s \<le> sd_write_off s"
    using assms Some by (auto simp: sd_ok_def)
  show ?thesis
  proof (cases "f = 0")
    case True
    then have "sd_unsent_off s = 0" using ok by simp
    then show ?thesis using True ok(1,3) Some by (auto simp: sd_is_complete_def)
  next
    case False
    then show ?thesis using Some ok rs_eq_range_iff [OF ok(2), of f] by (simp add: sd_is_complete_def word_gt_0)
  qed
qed (simp add: sd_is_complete_def)

lemma sd_reset_spec:
  assumes "sd_ok w s" and "sd_reset s = ((fsize, unsent), s')"
  shows "fsize = sd_unsent_off s \<and> unat unsent = length w - unat (sd_unsent_off s) \<and> sd_fin_off s' = Some fsize
    \<and> sd_write_off s' = fsize \<and> sd_data s' = [] \<and> sd_is_complete s' \<and> \<not> sd_ready s' \<and> sd_error s' = None"
proof -
  have inv: "off_ok (sd_acked s)" "rs_elems (sd_acked s) \<subseteq> {..< sd_unsent_off s}" "sd_unsent_off s \<le> sd_write_off s"
    "unat (sd_write_off s) = length w" "sd_error s = None"
    using assms(1) by (auto simp: sd_ok_def)
  have "off_ok (rs_insert 0 (sd_unsent_off s) (sd_acked s))"
    "rs_elems (rs_insert 0 (sd_unsent_off s) (sd_acked s)) = {..< sd_unsent_off s}"
    using inv by (auto simp: offs.ins_ok offs.elems_ins)
  then have "sd_unsent_off s = 0 \<or> rs_eq_range (rs_insert 0 (sd_unsent_off s) (sd_acked s)) (0, sd_unsent_off s)"
    using rs_eq_range_iff by (auto simp: word_gt_0)
  moreover have "unat (saturating_sub (sd_write_off s) (sd_unsent_off s)) = length w - unat (sd_unsent_off s)"
    using inv by (simp add: saturating_sub_def unat_sub)
  ultimately show ?thesis
    using assms(2) inv(5) by (auto simp: sd_reset_def Let_def sd_ack_def sd_is_complete_def sd_ready_def)
qed

subsection \<open>Runs of a sender\<close>

text \<open>A sender with the bytes written so far, the frames sent so far and the offsets acknowledged.
  Only what was sent is acknowledged or lost, in any order and any number of times.\<close>

type_synonym stream_frame = "u64 \<times> bytes \<times> bool"
type_synonym sender = "bytes \<times> send_buf \<times> stream_frame set \<times> nat set"

definition frame_offs :: "stream_frame \<Rightarrow> nat set" where
  "frame_offs = (\<lambda>(off, d, fin). {unat off ..< unat off + length d})"

inductive send_step :: "sender \<Rightarrow> sender \<Rightarrow> bool" where
  step_write: "send_step (w, s, F, A) (w @ take n data, s', F, A)"
    if "length data < 2 ^ 62" and "sd_write data fin s = (Ok n, s')"
| step_write_refused: "send_step (w, s, F, A) (w, s', F, A)"
    if "length data < 2 ^ 62" and "sd_write data fin s = (Err e, s')"
| step_send: "send_step (w, s, F, A) (w, s', insert (sd_send_off s, d, fin) F, A)"
    if "cap < 2 ^ 64" and "sd_read cap s = Some (Ok (d, fin), s')"
| step_ack: "send_step (w, s, F, A) (w, s', F, A \<union> frame_offs (off, d, fin))"
    if "(off, d, fin) \<in> F" and "ack_and_drop off (length d) s = (Ok (), s')"
| step_lost: "send_step (w, s, F, A) (w, retransmit off (length d) s, F, A)"
    if "(off, d, fin) \<in> F"
| step_limit: "send_step (w, s, F, A) (w, sd_update_max_data max_data s, F, A)"
    if "unat max_data < 2 ^ 62"
| step_blocked: "send_step (w, s, F, A) (w, sd_update_blocked_at blocked s, F, A)"

definition frame_ok :: "bytes \<Rightarrow> send_buf \<Rightarrow> stream_frame \<Rightarrow> bool" where
  "frame_ok w s = (\<lambda>(off, d, fin). unat off + length d \<le> unat (sd_unsent_off s)
     \<and> d = take (length d) (drop (unat off) w)
     \<and> (fin \<longrightarrow> unat off + length d = length w \<and> sd_fin_off s = Some (sd_write_off s)))"

definition sending :: "sender \<Rightarrow> bool" where
  "sending = (\<lambda>(w, s, F, A). sd_ok w s \<and> unat (sd_max_data s) < 2 ^ 62 \<and> (\<forall>f \<in> F. frame_ok w s f)
     \<and> {..< unat (sd_unsent_off s)} \<subseteq> \<Union> (frame_offs ` F) \<and> A = unat ` rs_elems (sd_acked s))"

lemma unat_image_range:
  assumes "unat (off + as_u64 n) = unat off + n"
  shows "unat ` {off ..< off + as_u64 n} = {unat off ..< unat off + n}"
proof -
  have "x \<in> unat ` {off ..< off + as_u64 n}" if "unat off \<le> x" "x < unat off + n" for x
  proof (rule image_eqI [of _ _ "as_u64 x"])
    have "x < 2 ^ 64" using that unat_u64_bound [of "off + as_u64 n"] assms by simp
    then show "x = unat (as_u64 x)" by (simp add: unat_of_nat_u64)
    then show "as_u64 x \<in> {off ..< off + as_u64 n}" using that assms by (simp add: word_le_nat_alt word_less_nat_alt)
  qed
  then show ?thesis using assms by (auto simp: word_le_nat_alt word_less_nat_alt)
qed

lemma frame_ok_mono:
  assumes "frame_ok w s f" and "sd_unsent_off s \<le> sd_unsent_off s'" and "sd_fin_off s' = sd_fin_off s"
    and "sd_write_off s' = sd_write_off s"
  shows "frame_ok w s' f"
  using assms by (auto simp: frame_ok_def word_le_nat_alt)

lemma sending_write:
  assumes inv: "sending (w, s, F, A)" and n: "length data < 2 ^ 62" and r: "sd_write data fin s = (Ok n, s')"
  shows "sending (w @ take n data, s', F, A)"
proof -
  have ok: "sd_ok w s" "unat (sd_max_data s) < 2 ^ 62" using inv by (auto simp: sending_def)
  have app: "sd_appended data fin s n s'" "sd_ok (w @ take n data) s'" using sd_write_spec [OF ok n, of fin] r by auto
  have "frame_ok (w @ take n data) s' f" if f: "f \<in> F" for f
  proof -
    obtain off d fi where fe: "f = (off, d, fi)" by (cases f)
    have fr: "unat off + length d \<le> unat (sd_unsent_off s)" "d = take (length d) (drop (unat off) w)"
      "fi \<longrightarrow> unat off + length d = length w \<and> sd_fin_off s = Some (sd_write_off s)"
      using inv f fe by (auto simp: sending_def frame_ok_def)
    have "unat off + length d \<le> length w" using fr(1) ok(1) by (auto simp: sd_ok_def word_le_nat_alt)
    then have "take (length d) (drop (unat off) (w @ take n data)) = take (length d) (drop (unat off) w)" by simp
    moreover have "n = 0 \<and> sd_write_off s' = sd_write_off s" if fi
      using fr(3) app(1) that by (auto simp: sd_appended_def word_unat_eq_iff)
    then have "fi \<longrightarrow> unat off + length d = length (w @ take n data) \<and> sd_fin_off s' = Some (sd_write_off s')"
      using fr(3) app(1) by (auto simp: sd_appended_def)
    ultimately show ?thesis using fr(1,2) app(1) fe by (simp add: frame_ok_def sd_appended_def)
  qed
  then show ?thesis using inv app by (auto simp: sending_def sd_appended_def)
qed

lemma sending_send:
  assumes inv: "sending (w, s, F, A)" and cap: "cap < 2 ^ 64" and r: "sd_read cap s = Some (Ok (d, fin), s')"
  shows "sending (w, s', insert (sd_send_off s, d, fin) F, A)"
proof -
  let ?off = "sd_send_off s"
  have ok: "sd_ok w s" "unat (sd_max_data s) < 2 ^ 62" using inv by (auto simp: sending_def)
  have rd: "fin \<longleftrightarrow> sd_fin_off s = Some (?off + as_u64 (length d))" "sd_ok w s'" "sd_sent d s s'" "length d \<le> cap"
    "d = take (length d) (drop (unat ?off) w)"
    using sd_read_spec [OF ok(1) cap] r by auto
  have wo: "unat (sd_write_off s) = length w" "unat (sd_write_off s') = length w" "sd_send_off s \<le> sd_write_off s"
    using ok(1) rd(2) send_off_spec(1) [OF ok(1)] by (auto simp: sd_ok_def)
  have "unat ?off + length d \<le> length w"
    using arg_cong [OF rd(5), of length] wo by (simp add: word_le_nat_alt)
  then have e: "unat (?off + as_u64 (length d)) = unat ?off + length d"
    using wo unat_u64_bound [of "sd_write_off s"] by (simp add: unat_add_small unat_of_nat_u64)
  have "unat ` {..< sd_unsent_off s'} = unat ` {..< sd_unsent_off s} \<union> {unat ?off ..< unat ?off + length d}"
    using rd(3) unat_image_range [OF e] by (simp add: sd_sent_def image_Un)
  moreover have im: "unat ` {..< k} = {..< unat k}" for k :: u64
  proof -
    have "{..< k} = {0 ..< 0 + as_u64 (unat k)}" by auto
    then show ?thesis using unat_image_range [of 0 "unat k"] by auto
  qed
  ultimately have un: "{..< unat (sd_unsent_off s')} = {..< unat (sd_unsent_off s)} \<union> frame_offs (?off, d, fin)"
    by (simp add: frame_offs_def)
  have mono: "unat (sd_unsent_off s) \<le> unat (sd_unsent_off s')" using un by (metis Un_upper1 lessThan_subset_iff)
  have "frame_ok w s' f" if "f \<in> F" for f
    by (rule frame_ok_mono) (use inv that mono rd(3) wo in \<open>auto simp: sending_def word_le_nat_alt sd_sent_def word_unat_eq_iff\<close>)
  moreover have "unat ?off + length d \<le> unat (sd_unsent_off s')"
  proof (cases "d = []")
    case True
    then show ?thesis using mono send_off_spec(1) [OF ok(1)] by (simp add: word_le_nat_alt)
  next
    case False
    then have "unat ?off + length d - 1 \<in> frame_offs (?off, d, fin)" by (cases d) (auto simp: frame_offs_def)
    then have "unat ?off + length d - 1 \<in> {..< unat (sd_unsent_off s')}" using un by blast
    then show ?thesis by simp
  qed
  moreover have "fin \<longrightarrow> unat ?off + length d = length w \<and> sd_fin_off s' = Some (sd_write_off s')"
  proof
    assume fin
    then have "sd_fin_off s = Some (?off + as_u64 (length d))" using rd(1) by simp
    moreover from this have "?off + as_u64 (length d) = sd_write_off s" using ok(1) by (simp add: sd_ok_def)
    moreover have "sd_write_off s' = sd_write_off s" using wo by (simp add: word_unat_eq_iff)
    ultimately show "unat ?off + length d = length w \<and> sd_fin_off s' = Some (sd_write_off s')"
      using e wo(1) rd(3) by (simp add: sd_sent_def)
  qed
  ultimately have "\<forall>f \<in> insert (?off, d, fin) F. frame_ok w s' f" using rd(5) by (simp add: frame_ok_def)
  moreover have "{..< unat (sd_unsent_off s')} \<subseteq> \<Union> (frame_offs ` insert (?off, d, fin) F)"
  proof -
    have "{..< unat (sd_unsent_off s)} \<subseteq> \<Union> (frame_offs ` F)" using inv by (simp add: sending_def)
    then show ?thesis unfolding un by blast
  qed
  ultimately show ?thesis using inv rd(2,3) by (simp add: sending_def sd_sent_def)
qed

lemma sending_sent: "sending (w, s, F, A) \<Longrightarrow> (off, d, fin) \<in> F \<Longrightarrow> unat off + length d \<le> unat (sd_unsent_off s)"
  by (auto simp: sending_def frame_ok_def)

lemma sending_ack:
  assumes inv: "sending (w, s, F, A)" and f: "(off, d, fin) \<in> F" and r: "ack_and_drop off (length d) s = (Ok (), s')"
  shows "sending (w, s', F, A \<union> frame_offs (off, d, fin))"
proof -
  have ok: "sd_ok w s" using inv by (simp add: sending_def)
  note sent = sending_sent [OF inv f]
  have a: "sd_ok w s'" "sd_acknowledged off (length d) s s'" using ack_and_drop_spec [OF ok sent] r by auto
  have "unat ` rs_elems (sd_acked s') = A \<union> frame_offs (off, d, fin)"
    using a(2) inv unat_image_range [OF sent_range(1) [OF ok sent]]
    by (simp add: sd_acknowledged_def sending_def frame_offs_def image_Un)
  moreover have "\<forall>f \<in> F. frame_ok w s' f" using inv a(2) frame_ok_mono by (auto simp: sending_def sd_acknowledged_def)
  ultimately show ?thesis using inv a by (simp add: sending_def sd_acknowledged_def)
qed

lemma sending_lost:
  assumes inv: "sending (w, s, F, A)" and f: "(off, d, fin) \<in> F"
  shows "sending (w, retransmit off (length d) s, F, A)"
proof -
  have ok: "sd_ok w s" using inv by (simp add: sending_def)
  have a: "sd_ok w (retransmit off (length d) s)" "sd_lost off (length d) s (retransmit off (length d) s)"
    using retransmit_spec [OF ok sending_sent [OF inv f]] by auto
  moreover have "\<forall>f \<in> F. frame_ok w (retransmit off (length d) s) f"
    using inv a(2) frame_ok_mono by (auto simp: sending_def sd_lost_def)
  ultimately show ?thesis using inv by (simp add: sending_def sd_lost_def)
qed

lemma sending_fields:
  assumes inv: "sending (w, s, F, A)"
  shows "unat m < 2 ^ 62 \<Longrightarrow> sending (w, sd_update_max_data m s, F, A)"
    and "sending (w, sd_update_blocked_at b s, F, A)"
proof -
  have ok: "sd_ok w s" "unat (sd_max_data s) < 2 ^ 62" using inv by (auto simp: sending_def)
  then have "sd_ok w (sd_update_blocked_at b s)" by (simp add: sd_ok_def sd_update_blocked_at_def)
  then show "sending (w, sd_update_blocked_at b s, F, A)"
    using inv by (auto simp: sending_def sd_update_blocked_at_def frame_ok_def)
  assume m: "unat m < 2 ^ 62"
  have "sd_write_off s \<le> max (sd_max_data s) m" using ok(1) by (auto simp: sd_ok_def max_def)
  then have "sd_ok w (sd_update_max_data m s)" using ok(1) by (simp add: sd_ok_def sd_update_max_data_def)
  then show "sending (w, sd_update_max_data m s, F, A)"
    using inv m by (auto simp: sending_def sd_update_max_data_def frame_ok_def max_def)
qed

lemma sending_steps:
  assumes "send_step\<^sup>*\<^sup>* ([], sd_new max_data, {}, {}) S" and "unat max_data < 2 ^ 62"
  shows "sending S"
  using assms(1)
proof (induction rule: rtranclp_induct)
  case base
  show ?case using sd_ok_new [of max_data] assms(2) by (auto simp: sending_def sd_new_def)
next
  case (step S S')
  from step.hyps(2) step.IH show ?case
  proof (induction rule: send_step.induct)
    case (step_write_refused data fin s e s' w F A)
    then have "s' = s" using sd_write_spec [of w s data fin] by (auto simp: sending_def)
    then show ?case using step_write_refused by simp
  qed (simp_all add: sending_write sending_send sending_ack sending_lost sending_fields)
qed

text \<open>The offsets queued for another transmission.\<close>

definition pending :: "send_buf \<Rightarrow> nat set" where
  "pending s = unat ` rs_elems (sd_retransmits s)"

lemma unat_image_minus: "unat ` (X - Y) = unat ` X - unat ` (Y :: u64 set)"
  by (rule image_set_diff) (simp add: inj_on_def word_unat_eq_iff)

lemma unat_image_lessThan: "unat ` {..< k} = {..< unat k}" for k :: u64
proof -
  have "{..< k} = {0 ..< 0 + as_u64 (unat k)}" by auto
  then show ?thesis using unat_image_range [of 0 "unat k"] by auto
qed

lemma pending_lost:
  assumes inv: "sending (w, s, F, A)" and f: "(off, d, fin) \<in> F"
  shows "pending (retransmit off (length d) s) = pending s \<union> (frame_offs (off, d, fin) - A)"
proof -
  have ok: "sd_ok w s" using inv by (simp add: sending_def)
  note sent = sending_sent [OF inv f]
  have "sd_lost off (length d) s (retransmit off (length d) s)" using retransmit_spec [OF ok sent] by simp
  then have "pending (retransmit off (length d) s) = pending s \<union> (unat ` {off ..< off + as_u64 (length d)} - unat ` rs_elems (sd_acked s))"
    by (simp add: sd_lost_def pending_def image_Un unat_image_minus)
  then show ?thesis using inv unat_image_range [OF sent_range(1) [OF ok sent]] by (simp add: sending_def frame_offs_def)
qed

lemma pending_apart:
  assumes "sending (w, s, F, A)"
  shows "pending s \<inter> A = {}" and "pending s \<subseteq> {..< unat (sd_unsent_off s)}"
proof -
  have sub: "rs_elems (sd_retransmits s) \<subseteq> {..< sd_unsent_off s} - rs_elems (sd_acked s)" and A: "A = unat ` rs_elems (sd_acked s)"
    using assms by (simp_all add: sending_def sd_ok_def)
  then have "pending s \<subseteq> {..< unat (sd_unsent_off s)} - A"
    using image_mono [OF sub, of unat] by (simp add: pending_def unat_image_minus unat_image_lessThan)
  then show "pending s \<inter> A = {}" "pending s \<subseteq> {..< unat (sd_unsent_off s)}" by blast+
qed

subsection \<open>Properties\<close>

text \<open>C3: whatever the order of writes, sends, acknowledgements and losses, a STREAM frame at an offset
  carries the bytes the application wrote there and only the frame that ends the finished stream has the
  fin bit; every call to send returns, and sends something when there is something to send.\<close>

theorem sent_frames_faithful:
  assumes "send_step\<^sup>*\<^sup>* ([], sd_new max_data, {}, {}) (w, s, F, A)" and "unat max_data < 2 ^ 62"
  shows "(\<forall>(off, d, fin) \<in> F. unat off + length d \<le> length w \<and> d = take (length d) (drop (unat off) w)
           \<and> (fin \<longrightarrow> unat off + length d = length w \<and> sd_is_fin s))
    \<and> (\<forall>cap. cap < 2 ^ 64 \<longrightarrow> (\<exists>d fin s'. sd_read cap s = Some (Ok (d, fin), s') \<and> (d \<noteq> [] \<longleftrightarrow> 0 < cap \<and> sd_ready s)))"
proof -
  have inv: "sending (w, s, F, A)" by (rule sending_steps [OF assms])
  then have ok: "sd_ok w s" by (simp add: sending_def)
  have "unat (sd_unsent_off s) \<le> length w" using ok by (auto simp: sd_ok_def word_le_nat_alt)
  then have "\<forall>(off, d, fin) \<in> F. unat off + length d \<le> length w \<and> d = take (length d) (drop (unat off) w)
           \<and> (fin \<longrightarrow> unat off + length d = length w \<and> sd_is_fin s)"
    using inv by (fastforce simp: sending_def frame_ok_def sd_is_fin_def)
  moreover have "\<exists>d fin s'. sd_read cap s = Some (Ok (d, fin), s') \<and> (d \<noteq> [] \<longleftrightarrow> 0 < cap \<and> sd_ready s)" if "cap < 2 ^ 64" for cap
    using sd_read_spec [OF ok that] by blast
  ultimately show ?thesis by blast
qed

lemma short_run:
  "\<exists>d fin s. send_step\<^sup>*\<^sup>* ([], sd_new 10, {}, {}) ([1, 2, 3], s, {(0, d, fin)}, {}) \<and> d \<noteq> []"
proof -
  have ok: "sd_ok [] (sd_new 10)" by (rule sd_ok_new)
  obtain n s where w: "sd_write [1, 2, 3] True (sd_new 10) = (Ok n, s)" "sd_appended [1, 2, 3] True (sd_new 10) n s"
    "sd_ok ([] @ take n [1, 2, 3]) s"
    using sd_write_spec [OF ok, of "[1, 2, 3]" True] by (auto simp: sd_new_def)
  then have n: "n = 3" and f: "sd_retransmits s = rs_default" "sd_unsent_off s = 0" "sd_write_off s = 3"
    by (simp_all add: sd_appended_def sd_new_def word_unat_eq_iff)
  then have ok': "sd_ok [1, 2, 3] s" and off: "sd_send_off s = 0"
    using w(3) by (simp_all add: sd_send_off_def) (simp_all add: rs_default_def rs_new_def rs_min_def bt_first_def)
  have "sd_data s \<noteq> []" using acked_below_base(2,3) [OF ok'] f by auto
  obtain d fin s' where r: "sd_read 10 s = Some (Ok (d, fin), s')" "d \<noteq> []"
    using sd_read_spec [OF ok', of 10] f off \<open>sd_data s \<noteq> []\<close> by (auto simp: sd_ready_def)
  have "send_step ([], sd_new 10, {}, {}) ([] @ take n [1, 2, 3], s, {}, {})" by (rule step_write [OF _ w(1)]) simp
  moreover have "send_step ([1, 2, 3], s, {}, {}) ([1, 2, 3], s', insert (sd_send_off s, d, fin) {}, {})"
    by (rule step_send [OF _ r(1)]) simp
  ultimately have "send_step\<^sup>*\<^sup>* ([], sd_new 10, {}, {}) ([1, 2, 3], s', {(0, d, fin)}, {})"
    using n off by (simp add: converse_rtranclp_into_rtranclp r_into_rtranclp)
  then show ?thesis using r(2) by blast
qed

theorem sent_frames_faithful_witness:
  "\<exists>d fin s. send_step\<^sup>*\<^sup>* ([], sd_new 10, {}, {}) ([1, 2, 3], s, {(0, d, fin)}, {}) \<and> d \<noteq> []
     \<and> d = take (length d) [1, 2, 3] \<and> (fin \<longrightarrow> length d = 3 \<and> sd_is_fin s)"
proof -
  obtain d fin s where r: "send_step\<^sup>*\<^sup>* ([], sd_new 10, {}, {}) ([1, 2, 3], s, {(0, d, fin)}, {})" "d \<noteq> []"
    using short_run by blast
  have "d = take (length d) [1, 2, 3] \<and> (fin \<longrightarrow> length d = 3 \<and> sd_is_fin s)"
    using sent_frames_faithful [OF r(1)] by simp
  with r show ?thesis by blast
qed

text \<open>C19: a lost frame is queued again exactly as far as it is not acknowledged, nothing acknowledged
  ever waits for another transmission, and the next frame starts at the smallest offset that waits.\<close>

theorem lost_data_resent:
  assumes "send_step\<^sup>*\<^sup>* ([], sd_new max_data, {}, {}) (w, s, F, A)" and "unat max_data < 2 ^ 62" and "(off, d, fin) \<in> F"
  shows "pending (retransmit off (length d) s) = pending s \<union> (frame_offs (off, d, fin) - A) \<and> pending s \<inter> A = {}
    \<and> (pending s \<noteq> {} \<longrightarrow> unat (sd_send_off s) \<in> pending s \<and> (\<forall>x \<in> pending s. unat (sd_send_off s) \<le> x))"
proof -
  have inv: "sending (w, s, F, A)" by (rule sending_steps [OF assms(1,2)])
  then have ok: "sd_ok w s" "off_ok (sd_retransmits s)" by (auto simp: sending_def sd_ok_def)
  have "unat (sd_send_off s) \<in> pending s" if "pending s \<noteq> {}"
    using that offs.least_None [OF ok(2)] offs.least_in [OF ok(2)]
    by (auto simp: pending_def sd_send_off_def split: option.splits)
  moreover have "\<forall>x \<in> pending s. unat (sd_send_off s) \<le> x"
    using send_off_spec(3) [OF ok(1)] by (auto simp: pending_def word_le_nat_alt)
  ultimately show ?thesis using pending_lost [OF inv assms(3)] pending_apart(1) [OF inv] by blast
qed

theorem lost_data_resent_witness:
  "\<exists>d fin s. send_step\<^sup>*\<^sup>* ([], sd_new 10, {}, {}) ([1, 2, 3], s, {(0, d, fin)}, {}) \<and> d \<noteq> []
     \<and> pending (retransmit 0 (length d) s) = pending s \<union> {..< length d}"
proof -
  obtain d fin s where r: "send_step\<^sup>*\<^sup>* ([], sd_new 10, {}, {}) ([1, 2, 3], s, {(0, d, fin)}, {})" "d \<noteq> []"
    using short_run by blast
  have "pending (retransmit 0 (length d) s) = pending s \<union> {..< length d}"
    using lost_data_resent [OF r(1), of 0 d fin] by (simp add: frame_offs_def atLeast0LessThan)
  with r show ?thesis by blast
qed

text \<open>C20: the send side is complete exactly when the stream is finished and every byte that was written
  has been acknowledged.\<close>

theorem send_complete_iff_acked:
  assumes "send_step\<^sup>*\<^sup>* ([], sd_new max_data, {}, {}) (w, s, F, A)" and "unat max_data < 2 ^ 62"
  shows "sd_is_complete s \<longleftrightarrow> sd_fin_off s \<noteq> None \<and> A = {..< length w}"
proof -
  have inv: "sending (w, s, F, A)" by (rule sending_steps [OF assms])
  then have ok: "sd_ok w s" "A = unat ` rs_elems (sd_acked s)" "unat (sd_write_off s) = length w"
    by (auto simp: sending_def sd_ok_def)
  have "rs_elems (sd_acked s) = {..< sd_write_off s} \<longleftrightarrow> A = unat ` {..< sd_write_off s}"
    unfolding ok(2) by (rule inj_image_eq_iff [symmetric]) (simp add: inj_on_def word_unat_eq_iff)
  then show ?thesis using sd_is_complete_iff [OF ok(1)] ok(3) by (simp add: unat_image_lessThan)
qed

theorem send_complete_iff_acked_witness:
  "\<exists>d fin s. send_step\<^sup>*\<^sup>* ([], sd_new 10, {}, {}) ([1, 2, 3], s, {(0, d, fin)}, {}) \<and> \<not> sd_is_complete s"
proof -
  obtain d fin s where r: "send_step\<^sup>*\<^sup>* ([], sd_new 10, {}, {}) ([1, 2, 3], s, {(0, d, fin)}, {})"
    using short_run by blast
  have "\<not> sd_is_complete s" using send_complete_iff_acked [OF r] by (auto dest: equalityD2)
  with r show ?thesis by blast
qed

text \<open>STOP\_SENDING ends the send side at what was sent so far and reports how much was not; nothing
  is left to send or to be acknowledged, and the application's next write fails with the peer's code.\<close>

theorem stop_sending_ends_stream:
  assumes "sd_ok w s" and "sd_stop code s = (Ok (fin_off, unsent), s')"
  shows "fin_off = sd_unsent_off s \<and> unat fin_off + unat unsent = length w \<and> sd_is_fin s' \<and> sd_is_complete s'
    \<and> \<not> sd_ready s' \<and> sd_write data fin s' = (Err (StreamStopped code), s') \<and> sd_stop code' s' = (Err Done, s')"
proof -
  obtain s1 where s1: "sd_reset s = ((fin_off, unsent), s1)" "s' = s1\<lparr>sd_error := Some code\<rparr>"
    using assms by (auto simp: sd_stop_def sd_ok_def split: prod.splits)
  note r = sd_reset_spec [OF assms(1) s1(1)]
  have "unat (sd_unsent_off s) \<le> length w" using assms(1) by (auto simp: sd_ok_def word_le_nat_alt)
  then show ?thesis
    using r s1(2) by (auto simp: sd_is_fin_def sd_is_complete_def sd_ready_def sd_stop_def sd_write_def sd_capacity_def
        bind_s_def lift_s_def Let_def)
qed

theorem stop_sending_ends_stream_witness:
  "\<exists>s'. sd_stop 7 (sd_new 10) = (Ok (0, 0), s') \<and> sd_is_complete s' \<and> sd_write [1] False s' = (Err (StreamStopped 7), s')"
proof -
  obtain a b s' where r: "sd_stop 7 (sd_new 10) = (Ok (a, b), s')" "a = 0" "b = 0"
    by (simp add: sd_stop_def sd_new_def sd_reset_def sd_ack_def Let_def saturating_sub_def)
  show ?thesis using stop_sending_ends_stream [OF sd_ok_new r(1), of "[1]" False] r by blast
qed

end
