(* ===== verification/Stream_State.thy ===== *)
theory Stream_State
  imports Recv_Buf Send_Buf Trans_Param
begin

text \<open>
  What the stream map is made of (src/connection/stream.rs): stream identifiers, a stream with its two
  buffers, the limits on the number of streams (\<open>ConcurrencyControl\<close>), the connection's send credit
  (\<open>SendCapacity\<close>) and the queues of streams that have something to send.

  \<open>cc_ok\<close> ties the sets of identifiers that are still available to the limits. Under it an identifier
  that is neither available nor beyond the limit has been opened, and stays so.
\<close>

subsection \<open>Stream identifiers\<close>

definition is_local :: "u64 \<Rightarrow> bool \<Rightarrow> bool" where
  "is_local stream_id is_server \<longleftrightarrow> stream_id AND 0x1 = (if is_server then 1 else 0)"

definition is_bidi :: "u64 \<Rightarrow> bool" where
  "is_bidi stream_id \<longleftrightarrow> stream_id AND 0x2 = 0"

subsection \<open>Transport parameters of streams\<close>

record stream_params =
  sp_max_data :: u64
  sp_max_stream_data_bidi_local :: u64
  sp_max_stream_data_bidi_remote :: u64
  sp_max_stream_data_uni :: u64
  sp_max_streams_bidi :: u64
  sp_max_streams_uni :: u64

definition sp_default :: stream_params where
  "sp_default =
     \<lparr>sp_max_data = 0, sp_max_stream_data_bidi_local = 0, sp_max_stream_data_bidi_remote = 0,
      sp_max_stream_data_uni = 0, sp_max_streams_bidi = 0, sp_max_streams_uni = 0\<rparr>"

definition sp_from :: "transport_params \<Rightarrow> stream_params" where
  "sp_from tp =
     \<lparr>sp_max_data = initial_max_data tp,
      sp_max_stream_data_bidi_local = initial_max_stream_data_bidi_local tp,
      sp_max_stream_data_bidi_remote = initial_max_stream_data_bidi_remote tp,
      sp_max_stream_data_uni = initial_max_stream_data_uni tp,
      sp_max_streams_bidi = initial_max_streams_bidi tp,
      sp_max_streams_uni = initial_max_streams_uni tp\<rparr>"

text \<open>The limits of a new stream: what may be received and what may be sent.\<close>

fun max_stream_data_limit :: "bool \<Rightarrow> bool \<Rightarrow> stream_params \<Rightarrow> stream_params \<Rightarrow> u64 \<times> u64" where
  "max_stream_data_limit True True lp pp = (sp_max_stream_data_bidi_local lp, sp_max_stream_data_bidi_remote pp)"
| "max_stream_data_limit True False lp pp = (0, sp_max_stream_data_uni pp)"
| "max_stream_data_limit False True lp pp = (sp_max_stream_data_bidi_remote lp, sp_max_stream_data_bidi_local pp)"
| "max_stream_data_limit False False lp pp = (sp_max_stream_data_uni lp, 0)"

subsection \<open>A stream\<close>

text \<open>The three flags are the bits of \<open>StreamFlags\<close>; \<open>'c\<close> is the type of the application's context.\<close>

record 'c stream =
  st_bidi :: bool
  st_local :: bool
  st_urgency :: u8
  st_incremental :: bool
  st_recv :: recv_buf
  st_send :: send_buf
  st_write_thresh :: nat
  st_want_read :: bool
  st_want_write :: bool
  st_closed :: bool
  st_context :: "'c option"

definition st_new :: "bool \<Rightarrow> bool \<Rightarrow> u64 \<Rightarrow> u64 \<Rightarrow> u64 \<Rightarrow> 'c stream" where
  "st_new bidi loc max_tx_data max_rx_data max_window =
     \<lparr>st_bidi = bidi, st_local = loc, st_urgency = 127, st_incremental = True,
      st_recv = rv_new max_rx_data max_window, st_send = sd_new max_tx_data, st_write_thresh = 1,
      st_want_read = (bidi \<or> \<not> loc), st_want_write = (bidi \<or> loc), st_closed = False, st_context = None\<rparr>"

definition st_is_readable :: "'c stream \<Rightarrow> bool" where
  "st_is_readable s \<longleftrightarrow> rv_ready (st_recv s)"

definition st_is_writable :: "'c stream \<Rightarrow> bool" where
  "st_is_writable s \<longleftrightarrow> \<not> sd_is_fin (st_send s) \<and> \<not> sd_shutdown (st_send s)
     \<and> sd_write_off (st_send s) + as_u64 (st_write_thresh s) \<le> sd_max_data (st_send s)"

definition st_is_sendable :: "'c stream \<Rightarrow> bool" where
  "st_is_sendable s \<longleftrightarrow> sd_ready (st_send s)"

text \<open>\<open>RecvBuf::is_complete\<close> is \<open>is_fin\<close>.\<close>

definition rv_is_complete :: "recv_buf \<Rightarrow> bool" where
  "rv_is_complete r \<longleftrightarrow> rv_fin_off r = Some (rv_read_off r)"

definition st_is_complete :: "'c stream \<Rightarrow> bool" where
  "st_is_complete s =
     (if st_bidi s then sd_is_complete (st_send s) \<and> rv_is_complete (st_recv s)
      else if st_local s then sd_is_complete (st_send s)
      else rv_is_complete (st_recv s))"

definition st_is_draining :: "'c stream \<Rightarrow> bool" where
  "st_is_draining s \<longleftrightarrow> rv_shutdown (st_recv s)"

definition st_mark_wantwrite :: "bool \<Rightarrow> (unit, error, 'c stream) meth" where
  "st_mark_wantwrite flag s =
     (if \<not> st_bidi s \<and> \<not> st_local s then (Err InternalError, s) else (Ok (), s\<lparr>st_want_write := flag\<rparr>))"

definition st_mark_wantread :: "bool \<Rightarrow> (unit, error, 'c stream) meth" where
  "st_mark_wantread flag s =
     (if \<not> st_bidi s \<and> st_local s then (Err InternalError, s) else (Ok (), s\<lparr>st_want_read := flag\<rparr>))"

definition st_mark_closed :: "'c stream \<Rightarrow> 'c stream" where
  "st_mark_closed s = s\<lparr>st_closed := True\<rparr>"

subsection \<open>Send credit of the connection\<close>

record send_capacity =
  sc_max_data :: u64
  sc_tx_data :: u64
  sc_capacity :: nat
  sc_blocked_at :: "u64 option"

definition sc_default :: send_capacity where
  "sc_default = \<lparr>sc_max_data = 0, sc_tx_data = 0, sc_capacity = 0, sc_blocked_at = None\<rparr>"

definition sc_update_max_data :: "u64 \<Rightarrow> send_capacity \<Rightarrow> send_capacity" where
  "sc_update_max_data max_data c = c\<lparr>sc_max_data := max (sc_max_data c) max_data\<rparr>"

definition sc_update_capacity :: "send_capacity \<Rightarrow> send_capacity" where
  "sc_update_capacity c = c\<lparr>sc_capacity := as_usize (sc_max_data c - sc_tx_data c)\<rparr>"

definition sc_update_blocked_at :: "u64 option \<Rightarrow> send_capacity \<Rightarrow> send_capacity" where
  "sc_update_blocked_at blocked_at c = c\<lparr>sc_blocked_at := blocked_at\<rparr>"

subsection \<open>Limits on the number of streams\<close>

record concurrency_control =
  peer_max_streams_bidi :: u64
  peer_max_streams_uni :: u64
  peer_opened_streams_bidi :: u64
  peer_opened_streams_uni :: u64
  local_max_streams_bidi :: u64
  local_max_streams_bidi_next :: u64
  local_max_streams_uni :: u64
  local_max_streams_uni_next :: u64
  local_opened_streams_bidi :: u64
  local_opened_streams_uni :: u64
  streams_blocked_at_bidi :: "u64 option"
  streams_blocked_at_uni :: "u64 option"
  peer_bidi_avail_ids :: "u64 rangeset"
  peer_uni_avail_ids :: "u64 rangeset"
  local_bidi_avail_ids :: "u64 rangeset"
  local_uni_avail_ids :: "u64 rangeset"

definition cc_new :: "u64 \<Rightarrow> u64 \<Rightarrow> concurrency_control" where
  "cc_new max_bidi max_uni =
     \<lparr>peer_max_streams_bidi = 0, peer_max_streams_uni = 0,
      peer_opened_streams_bidi = 0, peer_opened_streams_uni = 0,
      local_max_streams_bidi = max_bidi, local_max_streams_bidi_next = max_bidi,
      local_max_streams_uni = max_uni, local_max_streams_uni_next = max_uni,
      local_opened_streams_bidi = 0, local_opened_streams_uni = 0,
      streams_blocked_at_bidi = None, streams_blocked_at_uni = None,
      peer_bidi_avail_ids = rs_insert 0 max_bidi rs_default,
      peer_uni_avail_ids = rs_insert 0 max_uni rs_default,
      local_bidi_avail_ids = rs_default, local_uni_avail_ids = rs_default\<rparr>"

fun insert_avail_id :: "u64 \<Rightarrow> u64 \<Rightarrow> bool \<Rightarrow> bool \<Rightarrow> concurrency_control \<Rightarrow> concurrency_control" where
  "insert_avail_id start end True True c = c\<lparr>local_bidi_avail_ids := rs_insert start end (local_bidi_avail_ids c)\<rparr>"
| "insert_avail_id start end True False c = c\<lparr>local_uni_avail_ids := rs_insert start end (local_uni_avail_ids c)\<rparr>"
| "insert_avail_id start end False True c = c\<lparr>peer_bidi_avail_ids := rs_insert start end (peer_bidi_avail_ids c)\<rparr>"
| "insert_avail_id start end False False c = c\<lparr>peer_uni_avail_ids := rs_insert start end (peer_uni_avail_ids c)\<rparr>"

definition remove_avail_id :: "u64 \<Rightarrow> bool \<Rightarrow> concurrency_control \<Rightarrow> concurrency_control" where
  "remove_avail_id stream_id is_server c =
     (let i = drop_bit 2 stream_id in
      case (is_local stream_id is_server, is_bidi stream_id) of
        (True, True) \<Rightarrow> c\<lparr>local_bidi_avail_ids := remove_elem i (local_bidi_avail_ids c)\<rparr>
      | (True, False) \<Rightarrow> c\<lparr>local_uni_avail_ids := remove_elem i (local_uni_avail_ids c)\<rparr>
      | (False, True) \<Rightarrow> c\<lparr>peer_bidi_avail_ids := remove_elem i (peer_bidi_avail_ids c)\<rparr>
      | (False, False) \<Rightarrow> c\<lparr>peer_uni_avail_ids := remove_elem i (peer_uni_avail_ids c)\<rparr>)"

text \<open>\<open>Some x > y\<close> on options, with \<open>None\<close> below every \<open>Some\<close>.\<close>

definition above_opt :: "u64 \<Rightarrow> u64 option \<Rightarrow> bool" where
  "above_opt x y = (case y of None \<Rightarrow> True | Some b \<Rightarrow> b < x)"

text \<open>A raised limit cancels the blocked state.\<close>

definition cancel_streams_blocked :: "bool \<Rightarrow> concurrency_control \<Rightarrow> concurrency_control" where
  "cancel_streams_blocked bidi c =
     (if bidi then
        if above_opt (peer_max_streams_bidi c) (streams_blocked_at_bidi c) then c\<lparr>streams_blocked_at_bidi := None\<rparr> else c
      else
        if above_opt (peer_max_streams_uni c) (streams_blocked_at_uni c) then c\<lparr>streams_blocked_at_uni := None\<rparr> else c)"

definition update_peer_max_streams :: "bool \<Rightarrow> u64 \<Rightarrow> concurrency_control \<Rightarrow> concurrency_control" where
  "update_peer_max_streams bidi max_streams c =
     cancel_streams_blocked bidi
       (if bidi then
          if peer_max_streams_bidi c < max_streams
          then (insert_avail_id (peer_max_streams_bidi c) max_streams True True c)\<lparr>peer_max_streams_bidi := max_streams\<rparr>
          else c
        else
          if peer_max_streams_uni c < max_streams
          then (insert_avail_id (peer_max_streams_uni c) max_streams True False c)\<lparr>peer_max_streams_uni := max_streams\<rparr>
          else c)"

definition update_local_max_streams :: "bool \<Rightarrow> concurrency_control \<Rightarrow> concurrency_control" where
  "update_local_max_streams bidi c =
     (if bidi then
        (insert_avail_id (local_max_streams_bidi c) (local_max_streams_bidi_next c) False True c)
          \<lparr>local_max_streams_bidi := local_max_streams_bidi_next c\<rparr>
      else
        (insert_avail_id (local_max_streams_uni c) (local_max_streams_uni_next c) False False c)
          \<lparr>local_max_streams_uni := local_max_streams_uni_next c\<rparr>)"

definition peer_max_streams :: "bool \<Rightarrow> concurrency_control \<Rightarrow> u64" where
  "peer_max_streams bidi c = (if bidi then peer_max_streams_bidi c else peer_max_streams_uni c)"

definition peer_streams_left :: "bool \<Rightarrow> concurrency_control \<Rightarrow> u64" where
  "peer_streams_left bidi c =
     (if bidi then peer_max_streams_bidi c - local_opened_streams_bidi c
      else peer_max_streams_uni c - local_opened_streams_uni c)"

definition should_update_local_max_streams :: "bool \<Rightarrow> concurrency_control \<Rightarrow> bool" where
  "should_update_local_max_streams bidi c =
     (if bidi then local_max_streams_bidi_next c \<noteq> local_max_streams_bidi c
        \<and> local_max_streams_bidi c - peer_opened_streams_bidi c < local_max_streams_bidi_next c - local_max_streams_bidi c
      else local_max_streams_uni_next c \<noteq> local_max_streams_uni c
        \<and> local_max_streams_uni c - peer_opened_streams_uni c < local_max_streams_uni_next c - local_max_streams_uni c)"

definition increase_max_streams_credits :: "bool \<Rightarrow> u64 \<Rightarrow> concurrency_control \<Rightarrow> concurrency_control" where
  "increase_max_streams_credits bidi delta c =
     (if bidi then c\<lparr>local_max_streams_bidi_next := saturating_add (local_max_streams_bidi_next c) delta\<rparr>
      else c\<lparr>local_max_streams_uni_next := saturating_add (local_max_streams_uni_next c) delta\<rparr>)"

definition update_streams_blocked_at :: "bool \<Rightarrow> u64 option \<Rightarrow> concurrency_control \<Rightarrow> concurrency_control" where
  "update_streams_blocked_at bidi blocked_at c =
     (if bidi then c\<lparr>streams_blocked_at_bidi := blocked_at\<rparr> else c\<lparr>streams_blocked_at_uni := blocked_at\<rparr>)"

definition check_concurrency_limits :: "u64 \<Rightarrow> bool \<Rightarrow> (unit, error, concurrency_control) meth" where
  "check_concurrency_limits i is_server c =
     (let stream_sequence = drop_bit 2 i + 1 in
      case (is_local i is_server, is_bidi i) of
        (True, True) \<Rightarrow>
          (let n = max (local_opened_streams_bidi c) stream_sequence in
           if peer_max_streams_bidi c < n
           then (Err StreamLimitError, update_streams_blocked_at True (Some (peer_max_streams_bidi c)) c)
           else (Ok (), c\<lparr>local_opened_streams_bidi := max (local_opened_streams_bidi c) n\<rparr>))
      | (True, False) \<Rightarrow>
          (let n = max (local_opened_streams_uni c) stream_sequence in
           if peer_max_streams_uni c < n
           then (Err StreamLimitError, update_streams_blocked_at False (Some (peer_max_streams_uni c)) c)
           else (Ok (), c\<lparr>local_opened_streams_uni := max (local_opened_streams_uni c) n\<rparr>))
      | (False, True) \<Rightarrow>
          (let n = max (peer_opened_streams_bidi c) stream_sequence in
           if local_max_streams_bidi c < n then (Err StreamLimitError, c)
           else (Ok (), c\<lparr>peer_opened_streams_bidi := max (peer_opened_streams_bidi c) n\<rparr>))
      | (False, False) \<Rightarrow>
          (let n = max (peer_opened_streams_uni c) stream_sequence in
           if local_max_streams_uni c < n then (Err StreamLimitError, c)
           else (Ok (), c\<lparr>peer_opened_streams_uni := max (peer_opened_streams_uni c) n\<rparr>)))"

definition is_limited :: "u64 \<Rightarrow> bool \<Rightarrow> concurrency_control \<Rightarrow> bool" where
  "is_limited stream_id is_server c =
     (let sq = drop_bit 2 stream_id + 1 in
      case (is_local stream_id is_server, is_bidi stream_id) of
        (True, True) \<Rightarrow> peer_max_streams_bidi c < sq
      | (True, False) \<Rightarrow> peer_max_streams_uni c < sq
      | (False, True) \<Rightarrow> local_max_streams_bidi c < sq
      | (False, False) \<Rightarrow> local_max_streams_uni c < sq)"

definition is_available :: "u64 \<Rightarrow> bool \<Rightarrow> concurrency_control \<Rightarrow> bool" where
  "is_available stream_id is_server c =
     (let i = drop_bit 2 stream_id in
      case (is_local stream_id is_server, is_bidi stream_id) of
        (True, True) \<Rightarrow> rs_contains i (local_bidi_avail_ids c)
      | (True, False) \<Rightarrow> rs_contains i (local_uni_avail_ids c)
      | (False, True) \<Rightarrow> rs_contains i (peer_bidi_avail_ids c)
      | (False, False) \<Rightarrow> rs_contains i (peer_uni_avail_ids c))"

subsection \<open>Streams with something to send\<close>

text \<open>The heap of identifiers in increasing order, as a sorted list.\<close>

record priority_queue =
  pq_non_incremental :: "u64 list"
  pq_incremental :: "u64 list"

definition pq_default :: priority_queue where
  "pq_default = \<lparr>pq_non_incremental = [], pq_incremental = []\<rparr>"

definition push_sendable_queue ::
  "u64 \<Rightarrow> u8 \<Rightarrow> bool \<Rightarrow> (u8, priority_queue) btree \<Rightarrow> (u8, priority_queue) btree" where
  "push_sendable_queue stream_id urgency incremental m =
     (let q = (case map_of m urgency of None \<Rightarrow> pq_default | Some q \<Rightarrow> q);
          q = (if \<not> incremental then q\<lparr>pq_non_incremental := insort stream_id (pq_non_incremental q)\<rparr>
               else q\<lparr>pq_incremental := pq_incremental q @ [stream_id]\<rparr>)
      in bt_insert urgency q m)"

definition peek_sendable_queue ::
  "(u8, priority_queue) btree \<Rightarrow> u64 option \<times> (u8, priority_queue) btree" where
  "peek_sendable_queue m =
     (case m of
        [] \<Rightarrow> (None, m)
      | (u, q) # rest \<Rightarrow>
          (case pq_non_incremental q of
             i # _ \<Rightarrow> (Some i, m)
           | [] \<Rightarrow>
               (case pq_incremental q of
                  i # is \<Rightarrow> (Some i, (u, q\<lparr>pq_incremental := is @ [i]\<rparr>) # rest)
                | [] \<Rightarrow> (None, m))))"

definition remove_sendable_queue :: "(u8, priority_queue) btree \<Rightarrow> (u8, priority_queue) btree" where
  "remove_sendable_queue m =
     (case m of
        [] \<Rightarrow> m
      | (u, q) # rest \<Rightarrow>
          let q = (case pq_non_incremental q of
                     _ # is \<Rightarrow> q\<lparr>pq_non_incremental := is\<rparr>
                   | [] \<Rightarrow> q\<lparr>pq_incremental := butlast (pq_incremental q)\<rparr>)
          in if pq_non_incremental q = [] \<and> pq_incremental q = [] then rest else (u, q) # rest)"

subsection \<open>The four kinds of streams\<close>

text \<open>The fields of \<open>ConcurrencyControl\<close> for the streams of one initiator and one direction.\<close>

definition cc_max :: "bool \<Rightarrow> bool \<Rightarrow> concurrency_control \<Rightarrow> u64" where
  "cc_max l b c = (if l then if b then peer_max_streams_bidi c else peer_max_streams_uni c
     else if b then local_max_streams_bidi c else local_max_streams_uni c)"

definition cc_opened :: "bool \<Rightarrow> bool \<Rightarrow> concurrency_control \<Rightarrow> u64" where
  "cc_opened l b c = (if l then if b then local_opened_streams_bidi c else local_opened_streams_uni c
     else if b then peer_opened_streams_bidi c else peer_opened_streams_uni c)"

definition cc_avail :: "bool \<Rightarrow> bool \<Rightarrow> concurrency_control \<Rightarrow> u64 rangeset" where
  "cc_avail l b c = (if l then if b then local_bidi_avail_ids c else local_uni_avail_ids c
     else if b then peer_bidi_avail_ids c else peer_uni_avail_ids c)"

definition cc_next :: "bool \<Rightarrow> concurrency_control \<Rightarrow> u64" where
  "cc_next b c = (if b then local_max_streams_bidi_next c else local_max_streams_uni_next c)"

lemmas cc_views = cc_max_def cc_opened_def cc_avail_def cc_next_def

definition cc_ok :: "concurrency_control \<Rightarrow> bool" where
  "cc_ok c \<longleftrightarrow> (\<forall>l b. off_ok (cc_avail l b c) \<and> rs_elems (cc_avail l b c) \<subseteq> {..< cc_max l b c}
     \<and> cc_opened l b c \<le> cc_max l b c \<and> {cc_opened l b c ..< cc_max l b c} \<subseteq> rs_elems (cc_avail l b c))
     \<and> (\<forall>b. cc_max False b c \<le> cc_next b c)"

text \<open>An identifier that has been opened: it is within the limit and no longer available.\<close>

definition cc_used :: "bool \<Rightarrow> u64 \<Rightarrow> concurrency_control \<Rightarrow> bool" where
  "cc_used srv i c \<longleftrightarrow> \<not> is_available i srv c \<and> \<not> is_limited i srv c"

lemma cc_okD:
  assumes "cc_ok c"
  shows "off_ok (cc_avail l b c)" and "rs_elems (cc_avail l b c) \<subseteq> {..< cc_max l b c}" and "cc_opened l b c \<le> cc_max l b c"
    and "{cc_opened l b c ..< cc_max l b c} \<subseteq> rs_elems (cc_avail l b c)" and "cc_max False b c \<le> cc_next b c"
  using assms by (auto simp: cc_ok_def)

lemma drop_bit_small: "unat (drop_bit 2 (i :: u64)) < 2 ^ 62"
proof -
  have "unat (drop_bit 2 i) = unat i div 4" by (simp add: drop_bit_eq_div unat_div)
  moreover have "unat i < 2 ^ 64" using unat_u64_bound [of i] by simp
  ultimately show ?thesis by simp
qed

lemma sequence_le: "drop_bit 2 (i :: u64) + 1 \<le> n \<longleftrightarrow> drop_bit 2 i < n"
proof -
  have "unat (drop_bit 2 i + 1) = unat (drop_bit 2 i) + 1"
    using drop_bit_small [of i] by (subst unat_add_small) simp_all
  then show ?thesis by (simp add: word_le_nat_alt word_less_nat_alt Suc_le_eq)
qed

lemma is_limited_iff: "is_limited i srv c \<longleftrightarrow> cc_max (is_local i srv) (is_bidi i) c \<le> drop_bit 2 i"
  using sequence_le [of i "cc_max (is_local i srv) (is_bidi i) c"]
  by (auto simp: is_limited_def cc_max_def Let_def not_le not_less split: bool.splits)

lemma is_available_iff:
  assumes "cc_ok c"
  shows "is_available i srv c \<longleftrightarrow> drop_bit 2 i \<in> rs_elems (cc_avail (is_local i srv) (is_bidi i) c)"
proof -
  have "is_available i srv c \<longleftrightarrow> rs_contains (drop_bit 2 i) (cc_avail (is_local i srv) (is_bidi i) c)"
    by (simp add: is_available_def cc_avail_def Let_def split: bool.splits)
  moreover have "rs_wf (cc_avail (is_local i srv) (is_bidi i) c)" using cc_okD(1) [OF assms] by (simp add: off_ok_def)
  ultimately show ?thesis using rs_contains_iff by blast
qed

lemma available_not_limited: "cc_ok c \<Longrightarrow> is_available i srv c \<Longrightarrow> \<not> is_limited i srv c"
  using cc_okD(2) by (fastforce simp: is_available_iff is_limited_iff)

lemma cc_used_iff:
  assumes "cc_ok c"
  shows "cc_used srv i c \<longleftrightarrow> drop_bit 2 i \<notin> rs_elems (cc_avail (is_local i srv) (is_bidi i) c)
    \<and> drop_bit 2 i < cc_max (is_local i srv) (is_bidi i) c"
  using is_available_iff [OF assms] by (auto simp: cc_used_def is_limited_iff)

text \<open>Every operation keeps the invariant and never gives an identifier back.\<close>

definition cc_kept :: "concurrency_control \<Rightarrow> concurrency_control \<Rightarrow> bool" where
  "cc_kept c c' \<longleftrightarrow> cc_ok c' \<and> (\<forall>srv i. cc_used srv i c \<longrightarrow> cc_used srv i c')
     \<and> (\<forall>l b. cc_max l b c \<le> cc_max l b c')"

lemma cc_kept_refl [simp]: "cc_kept c c \<longleftrightarrow> cc_ok c"
  by (auto simp: cc_kept_def)

lemma cc_kept_trans: "cc_kept a b \<Longrightarrow> cc_kept b c \<Longrightarrow> cc_kept a c"
  unfolding cc_kept_def using order_trans by blast

lemma cc_keptI:
  assumes ok: "cc_ok c"
    and "\<And>l b. off_ok (cc_avail l b c')" and "\<And>l b. rs_elems (cc_avail l b c') \<subseteq> {..< cc_max l b c'}"
    and "\<And>l b. cc_opened l b c' \<le> cc_max l b c'" and "\<And>l b. {cc_opened l b c' ..< cc_max l b c'} \<subseteq> rs_elems (cc_avail l b c')"
    and "\<And>b. cc_max False b c' \<le> cc_next b c'" and mono: "\<And>l b. cc_max l b c \<le> cc_max l b c'"
    and new: "\<And>l b. rs_elems (cc_avail l b c') \<subseteq> rs_elems (cc_avail l b c) \<union> {cc_max l b c ..}"
  shows "cc_kept c c'"
proof -
  have ok': "cc_ok c'" using assms(2-6) by (simp add: cc_ok_def)
  have "cc_used srv i c'" if "cc_used srv i c" for srv i
  proof -
    let ?l = "is_local i srv" and ?b = "is_bidi i" and ?i = "drop_bit 2 i"
    have u: "?i \<notin> rs_elems (cc_avail ?l ?b c)" "?i < cc_max ?l ?b c" using that by (auto simp: cc_used_iff [OF ok])
    then have "?i \<notin> rs_elems (cc_avail ?l ?b c')" using new [of ?l ?b] by auto
    moreover have "?i < cc_max ?l ?b c'" using u(2) mono [of ?l ?b] by simp
    ultimately show ?thesis by (simp add: cc_used_iff [OF ok'])
  qed
  then show ?thesis using ok' mono by (simp add: cc_kept_def)
qed

lemma cc_ok_new: "cc_ok (cc_new max_bidi max_uni)"
proof -
  have "off_ok (rs_insert 0 m rs_default)" "rs_elems (rs_insert 0 m rs_default) = {..< m}" for m :: u64
    using off_ok_default by (auto simp: offs.ins_ok offs.elems_ins)
  then show ?thesis using off_ok_default by (auto simp: cc_ok_def cc_new_def cc_views split: if_splits)
qed

text \<open>Raising the limit of one kind of streams makes the new identifiers available.\<close>

lemma cc_kept_raise:
  assumes ok: "cc_ok c" and le: "cc_max l0 b0 c \<le> m" and nx: "\<not> l0 \<Longrightarrow> m \<le> cc_next b0 c"
    and views: "\<And>l b. cc_max l b c' = (if l = l0 \<and> b = b0 then m else cc_max l b c)"
      "\<And>l b. cc_opened l b c' = cc_opened l b c" "\<And>b. cc_next b c' = cc_next b c"
      "\<And>l b. cc_avail l b c' = (if l = l0 \<and> b = b0 then rs_insert (cc_max l b c) m (cc_avail l b c) else cc_avail l b c)"
  shows "cc_kept c c'"
proof (rule cc_keptI [OF ok])
  fix l b
  note c = cc_okD(1-4) [OF ok, of l b] cc_okD(5) [OF ok, of b]
  have all: "off_ok (cc_avail l b c') \<and> rs_elems (cc_avail l b c') \<subseteq> {..< cc_max l b c'} \<and> cc_opened l b c' \<le> cc_max l b c'
      \<and> {cc_opened l b c' ..< cc_max l b c'} \<subseteq> rs_elems (cc_avail l b c') \<and> cc_max l b c \<le> cc_max l b c'
      \<and> rs_elems (cc_avail l b c') \<subseteq> rs_elems (cc_avail l b c) \<union> {cc_max l b c ..}"
  proof (cases "l = l0 \<and> b = b0")
    case False
    then have v: "cc_avail l b c' = cc_avail l b c" "cc_max l b c' = cc_max l b c" by (auto simp: views)
    show ?thesis using c(1-4) unfolding v views(2) by blast
  next
    case raised: True
    have v: "cc_max l b c' = m" "off_ok (cc_avail l b c')"
      "rs_elems (cc_avail l b c') = rs_elems (cc_avail l b c) \<union> {cc_max l b c ..< m}"
      using c(1) raised by (simp_all add: views offs.ins_ok offs.elems_ins)
    have le': "cc_max l b c \<le> m" using le raised by simp
    have un: "{cc_opened l b c ..< m} = {cc_opened l b c ..< cc_max l b c} \<union> {cc_max l b c ..< m}"
      using ivl_disj_un_two(3) [OF c(3) le'] by simp
    have sub: "{..< cc_max l b c} \<subseteq> {..< m}" "{cc_max l b c ..< m} \<subseteq> {..< m}" "{cc_max l b c ..< m} \<subseteq> {cc_max l b c ..}"
      using le' by auto
    show ?thesis
    proof (intro conjI)
      show "rs_elems (cc_avail l b c') \<subseteq> {..< cc_max l b c'}" unfolding v(1,3) by (rule Un_least [OF subset_trans [OF c(2) sub(1)] sub(2)])
      show "cc_opened l b c' \<le> cc_max l b c'" unfolding v(1) views(2) using c(3) le' by (rule order_trans)
      show "{cc_opened l b c' ..< cc_max l b c'} \<subseteq> rs_elems (cc_avail l b c')" unfolding v(1,3) views(2) un by (rule Un_mono [OF c(4) order_refl])
      show "rs_elems (cc_avail l b c') \<subseteq> rs_elems (cc_avail l b c) \<union> {cc_max l b c ..}" unfolding v(3) by (rule Un_mono [OF order_refl sub(3)])
    qed (simp_all add: v(1,2) le')
  qed
  then show "off_ok (cc_avail l b c')" "rs_elems (cc_avail l b c') \<subseteq> {..< cc_max l b c'}" "cc_opened l b c' \<le> cc_max l b c'"
    "{cc_opened l b c' ..< cc_max l b c'} \<subseteq> rs_elems (cc_avail l b c')" "cc_max l b c \<le> cc_max l b c'"
    "rs_elems (cc_avail l b c') \<subseteq> rs_elems (cc_avail l b c) \<union> {cc_max l b c ..}" by blast+
next
  fix b
  show "cc_max False b c' \<le> cc_next b c'" using cc_okD(5) [OF ok, of b] nx by (cases "\<not> l0 \<and> b = b0") (auto simp: views)
qed

lemma cc_kept_same:
  assumes "cc_ok c" and "\<And>l b. cc_max l b c' = cc_max l b c" and "\<And>l b. cc_opened l b c' = cc_opened l b c"
    and "\<And>l b. cc_avail l b c' = cc_avail l b c" and "\<And>b. cc_next b c \<le> cc_next b c'"
  shows "cc_kept c c'"
proof (rule cc_keptI [OF assms(1)])
  fix b
  show "cc_max False b c' \<le> cc_next b c'" using cc_okD(5) [OF assms(1), of b] assms(5) [of b] by (simp add: assms(2))
qed (simp_all add: assms(2-4) cc_okD [OF assms(1)])

lemma cancel_blocked_views [simp]:
  "cc_max l b (cancel_streams_blocked bidi c) = cc_max l b c" "cc_opened l b (cancel_streams_blocked bidi c) = cc_opened l b c"
  "cc_next b (cancel_streams_blocked bidi c) = cc_next b c" "cc_avail l b (cancel_streams_blocked bidi c) = cc_avail l b c"
  by (simp_all add: cancel_streams_blocked_def cc_views)

lemma update_peer_views:
  "cc_max l b (update_peer_max_streams bidi m c) = (if l \<and> b = bidi then max (cc_max l b c) m else cc_max l b c)"
  "cc_opened l b (update_peer_max_streams bidi m c) = cc_opened l b c"
  "cc_next b (update_peer_max_streams bidi m c) = cc_next b c"
  "cc_avail l b (update_peer_max_streams bidi m c)
     = (if l \<and> b = bidi \<and> cc_max l b c < m then rs_insert (cc_max l b c) m (cc_avail l b c) else cc_avail l b c)"
  unfolding update_peer_max_streams_def cancel_blocked_views
  by (auto simp: cc_max_def max_def) (simp_all add: cc_views)

lemma cc_kept_update_peer:
  assumes ok: "cc_ok c"
  shows "cc_kept c (update_peer_max_streams bidi m c)"
proof (cases "cc_max True bidi c < m")
  case True
  show ?thesis
    by (rule cc_kept_raise [OF ok, of True bidi m]) (use True in \<open>auto simp: update_peer_views max_def\<close>)
next
  case False
  show ?thesis
    by (rule cc_kept_same [OF ok]) (use False in \<open>auto simp: update_peer_views max_def\<close>)
qed

lemma update_local_views:
  "cc_max l b (update_local_max_streams bidi c) = (if \<not> l \<and> b = bidi then cc_next b c else cc_max l b c)"
  "cc_opened l b (update_local_max_streams bidi c) = cc_opened l b c"
  "cc_next b (update_local_max_streams bidi c) = cc_next b c"
  "cc_avail l b (update_local_max_streams bidi c)
     = (if \<not> l \<and> b = bidi then rs_insert (cc_max l b c) (cc_next b c) (cc_avail l b c) else cc_avail l b c)"
  unfolding update_local_max_streams_def by (simp_all add: cc_views)

lemma cc_kept_update_local:
  assumes "cc_ok c"
  shows "cc_kept c (update_local_max_streams bidi c)"
  by (rule cc_kept_raise [OF assms, of False bidi "cc_next bidi c"])
    (use cc_okD(5) [OF assms] in \<open>auto simp: update_local_views\<close>)

lemma cc_kept_credits:
  assumes "cc_ok c"
  shows "cc_kept c (increase_max_streams_credits bidi delta c)"
proof (rule cc_kept_same [OF assms])
  fix l b
  show "cc_max l b (increase_max_streams_credits bidi delta c) = cc_max l b c"
    "cc_opened l b (increase_max_streams_credits bidi delta c) = cc_opened l b c"
    "cc_avail l b (increase_max_streams_credits bidi delta c) = cc_avail l b c"
    by (simp_all add: increase_max_streams_credits_def cc_views)
  have "x \<le> saturating_add x delta" for x :: u64
    using unat_u64_bound [of x] by (simp add: word_le_nat_alt unat_saturating_add)
  then show "cc_next b c \<le> cc_next b (increase_max_streams_credits bidi delta c)"
    by (simp add: increase_max_streams_credits_def cc_views)
qed

lemma cc_kept_blocked: "cc_ok c \<Longrightarrow> cc_kept c (update_streams_blocked_at bidi x c)"
  by (rule cc_kept_same) (auto simp: update_streams_blocked_at_def cc_views)

text \<open>Opening a stream: the check of the limit, then the identifier is taken.\<close>

lemma check_limits_views:
  "check_concurrency_limits i srv c =
     (let l = is_local i srv; b = is_bidi i; n = max (cc_opened l b c) (drop_bit 2 i + 1) in
      if cc_max l b c < n
      then (Err StreamLimitError, if l then update_streams_blocked_at b (Some (cc_max l b c)) c else c)
      else (Ok (), snd (check_concurrency_limits i srv c)))"
  by (simp add: check_concurrency_limits_def cc_max_def cc_opened_def Let_def split: bool.split)

lemma check_limits_Ok:
  assumes "check_concurrency_limits i srv c = (Ok (), c')"
  shows "cc_max l b c' = cc_max l b c" and "cc_avail l b c' = cc_avail l b c" and "cc_next b c' = cc_next b c"
    and "cc_opened l b c' = (if l = is_local i srv \<and> b = is_bidi i then max (cc_opened l b c) (drop_bit 2 i + 1) else cc_opened l b c)"
  using assms
  by (simp_all add: check_concurrency_limits_def Let_def split: bool.splits if_splits) (auto simp: cc_views)

lemma remove_avail_views:
  "cc_max l b (remove_avail_id i srv c) = cc_max l b c" "cc_opened l b (remove_avail_id i srv c) = cc_opened l b c"
  "cc_next b (remove_avail_id i srv c) = cc_next b c"
  "cc_avail l b (remove_avail_id i srv c)
     = (if l = is_local i srv \<and> b = is_bidi i then remove_elem (drop_bit 2 i) (cc_avail l b c) else cc_avail l b c)"
  by (simp_all add: remove_avail_id_def cc_views Let_def split: bool.split)

lemma check_limits_Err_iff:
  assumes ok: "cc_ok c"
  shows "fst (check_concurrency_limits i srv c) = (if is_limited i srv c then Err StreamLimitError else Ok ())"
    and "is_limited i srv c \<Longrightarrow> cc_kept c (snd (check_concurrency_limits i srv c))"
proof -
  let ?l = "is_local i srv" and ?b = "is_bidi i"
  have "cc_max ?l ?b c < max (cc_opened ?l ?b c) (drop_bit 2 i + 1) \<longleftrightarrow> is_limited i srv c"
    using cc_okD(3) [OF ok, of ?l ?b] sequence_le [of i "cc_max ?l ?b c"]
    by (auto simp: is_limited_iff less_max_iff_disj not_le not_less)
  then have c: "check_concurrency_limits i srv c =
      (if is_limited i srv c
       then (Err StreamLimitError, if ?l then update_streams_blocked_at ?b (Some (cc_max ?l ?b c)) c else c)
       else (Ok (), snd (check_concurrency_limits i srv c)))"
    by (subst check_limits_views) (simp add: Let_def)
  show "fst (check_concurrency_limits i srv c) = (if is_limited i srv c then Err StreamLimitError else Ok ())"
    by (subst c) simp
  show "is_limited i srv c \<Longrightarrow> cc_kept c (snd (check_concurrency_limits i srv c))"
    by (subst c) (simp add: cc_kept_blocked ok)
qed

lemma elems_remove_elem:
  assumes "off_ok s" and "unat x < 2 ^ 62"
  shows "off_ok (remove_elem x s)" and "rs_elems (remove_elem x s) = rs_elems s - {x}"
proof -
  have "unat (x + 1) = unat x + 1" using assms(2) by (subst unat_add_small) simp_all
  then have "{x ..< x + 1} = {x}" by (auto simp: word_le_nat_alt word_less_nat_alt word_unat_eq_iff)
  then show "off_ok (remove_elem x s)" "rs_elems (remove_elem x s) = rs_elems s - {x}"
    using assms(1) by (simp_all add: remove_elem_def offs.del_ok offs.elems_del)
qed

lemma open_stream_kept:
  assumes ok: "cc_ok c" and chk: "check_concurrency_limits i srv c = (Ok (), c1)"
  shows "cc_kept c (remove_avail_id i srv c1) \<and> cc_used srv i (remove_avail_id i srv c1)"
proof -
  let ?c = "remove_avail_id i srv c1" and ?l = "is_local i srv" and ?b = "is_bidi i" and ?i = "drop_bit 2 i"
  have nl: "\<not> is_limited i srv c" using check_limits_Err_iff(1) [OF ok, of i srv] chk by (auto split: if_splits)
  then have lt: "?i < cc_max ?l ?b c" by (simp add: is_limited_iff)
  note v1 = check_limits_Ok [OF chk] and v2 = remove_avail_views
  have mx: "cc_max l b ?c = cc_max l b c" and nx: "cc_next b ?c = cc_next b c" for l b by (simp_all add: v1 v2)
  have op: "cc_opened l b ?c = (if l = ?l \<and> b = ?b then max (cc_opened l b c) (?i + 1) else cc_opened l b c)" for l b
    by (simp add: v1 v2)
  have av: "off_ok (cc_avail l b ?c)"
    "rs_elems (cc_avail l b ?c) = (if l = ?l \<and> b = ?b then rs_elems (cc_avail l b c) - {?i} else rs_elems (cc_avail l b c))" for l b
    using cc_okD(1) [OF ok, of l b] elems_remove_elem [of "cc_avail l b c", OF _ drop_bit_small] by (auto simp: v1 v2)
  have "cc_kept c ?c"
  proof (rule cc_keptI [OF ok])
    fix l b
    note c = cc_okD(1-4) [OF ok, of l b]
    show "off_ok (cc_avail l b ?c)" by (rule av)
    show "rs_elems (cc_avail l b ?c) \<subseteq> {..< cc_max l b ?c}" using c(2) by (auto simp: av mx)
    show "cc_opened l b ?c \<le> cc_max l b ?c"
      using c(3) lt sequence_le [of i "cc_max l b c"] by (auto simp: op mx)
    show "cc_max l b c \<le> cc_max l b ?c" by (simp add: mx)
    show "rs_elems (cc_avail l b ?c) \<subseteq> rs_elems (cc_avail l b c) \<union> {cc_max l b c ..}" by (auto simp: av)
    have "?i \<notin> {max (cc_opened l b c) (?i + 1) ..< cc_max l b c}" using sequence_le [of i ?i] by auto
    then show "{cc_opened l b ?c ..< cc_max l b ?c} \<subseteq> rs_elems (cc_avail l b ?c)"
      using c(4) by (auto simp: av op mx)
  qed (use cc_okD(5) [OF ok] in \<open>simp add: mx nx\<close>)
  moreover from this have "cc_used srv i ?c" using lt by (simp add: cc_kept_def cc_used_iff av mx)
  ultimately show ?thesis ..
qed

subsection \<open>Invariants of the parts\<close>

definition sc_ok :: "send_capacity \<Rightarrow> bool" where
  "sc_ok c \<longleftrightarrow> sc_tx_data c \<le> sc_max_data c \<and> sc_capacity c = as_usize (sc_max_data c - sc_tx_data c)"

text \<open>A send buffer is open, with the bytes written to it, or it has been reset.\<close>

definition sd_ended :: "send_buf \<Rightarrow> bool" where
  "sd_ended s \<longleftrightarrow> sd_data s = [] \<and> sd_fin_off s = Some (sd_write_off s) \<and> sd_write_off s = sd_unsent_off s
     \<and> sd_send_off s \<le> sd_unsent_off s \<and> unat (sd_write_off s) < 2 ^ 62 \<and> (sd_shutdown s \<or> sd_error s \<noteq> None)"

definition sd_inv :: "send_buf \<Rightarrow> bool" where
  "sd_inv s \<longleftrightarrow> unat (sd_max_data s) < 2 ^ 62 \<and> ((\<exists>w. sd_ok w s) \<or> sd_ended s)"

definition st_ok :: "'c stream \<Rightarrow> bool" where
  "st_ok s \<longleftrightarrow> rv_ok (st_recv s) \<and> sd_inv (st_send s)"

lemma st_ok_new: "unat mtx < 2 ^ 62 \<Longrightarrow> st_ok (st_new bidi l mtx mrx w)"
  using rv_ok_new sd_ok_new by (auto simp: st_ok_def st_new_def sd_inv_def sd_new_def)

lemma sc_ok_default: "sc_ok sc_default"
  by (simp add: sc_ok_def sc_default_def)

lemma sc_ok_update:
  "sc_ok c \<Longrightarrow> sc_ok (sc_update_capacity (sc_update_max_data m c))"
  "sc_tx_data c \<le> sc_max_data c \<Longrightarrow> sc_ok (sc_update_capacity c)"
  "sc_ok c \<Longrightarrow> sc_ok (sc_update_blocked_at b c)"
  by (auto simp: sc_ok_def sc_update_capacity_def sc_update_max_data_def sc_update_blocked_at_def max_def)

lemma sc_ok_spent:
  assumes "sc_ok c" and "n \<le> sc_capacity c"
  shows "sc_ok (c\<lparr>sc_capacity := sc_capacity c - n, sc_tx_data := sc_tx_data c + as_u64 n\<rparr>)"
proof -
  have d: "unat (sc_max_data c - sc_tx_data c) = unat (sc_max_data c) - unat (sc_tx_data c)" "sc_tx_data c \<le> sc_max_data c"
    using assms(1) by (simp_all add: sc_ok_def unat_sub)
  have n: "unat (sc_tx_data c) + n \<le> unat (sc_max_data c)"
    using assms d by (auto simp: sc_ok_def word_le_nat_alt)
  then have u: "unat (sc_tx_data c + as_u64 n) = unat (sc_tx_data c) + n"
    using unat_u64_bound [of "sc_max_data c"] by (simp add: unat_add_small unat_of_nat_u64)
  then have le: "sc_tx_data c + as_u64 n \<le> sc_max_data c" using n by (simp add: word_le_nat_alt)
  then show ?thesis using assms(1) u d by (simp add: sc_ok_def unat_sub)
qed

subsection \<open>Operations on a buffer in any state\<close>

lemma sd_inv_cases:
  assumes "sd_inv s"
  obtains (active) w where "sd_ok w s" "unat (sd_max_data s) < 2 ^ 62" | (ended) "sd_ended s" "unat (sd_max_data s) < 2 ^ 62"
  using assms by (auto simp: sd_inv_def)

lemma ended_not_ready: "sd_ended s \<Longrightarrow> \<not> sd_ready s"
  by (simp add: sd_ended_def sd_ready_def)

lemma sd_send_off_updates [simp]:
  "sd_send_off (s\<lparr>sd_error := e\<rparr>) = sd_send_off s" "sd_send_off (s\<lparr>sd_shutdown := b\<rparr>) = sd_send_off s"
  "sd_send_off (s\<lparr>sd_max_data := m\<rparr>) = sd_send_off s" "sd_send_off (s\<lparr>sd_blocked_at := x\<rparr>) = sd_send_off s"
  by (simp_all add: sd_send_off_def split: option.split)

lemma sd_write_ended:
  assumes "sd_ended s" and "length data < 2 ^ 62" and "sd_write data fin s = (r, s')"
  shows "sd_ended s' \<and> (r = Ok 0 \<or> (\<exists>e. r = Err e)) \<and> sd_max_data s' = sd_max_data s"
proof -
  have e: "sd_data s = []" "sd_fin_off s = Some (sd_write_off s)" "unat (sd_write_off s) < 2 ^ 62" using assms(1) by (auto simp: sd_ended_def)
  have mo: "unat (sd_write_off s + as_u64 (length data)) = unat (sd_write_off s) + length data"
    using e(3) assms(2) by (simp add: unat_add_small unat_of_nat_u64)
  show ?thesis
  proof (cases "data = []")
    case True
    then show ?thesis using assms(1,3) e
      by (auto simp: sd_write_def bind_s_def lift_s_def sd_capacity_def Let_def sd_ended_def split: option.splits if_splits)
  next
    case False
    then have "sd_write_off s < sd_write_off s + as_u64 (length data)" using mo by (simp add: word_less_nat_alt)
    then show ?thesis using assms(1,3) e
      by (auto simp: sd_write_def bind_s_def lift_s_def sd_capacity_def Let_def sd_ended_def split: option.splits if_splits)
  qed
qed

lemma sd_inv_write:
  assumes "sd_inv s" and "length data < 2 ^ 62" and "sd_write data fin s = (r, s')"
  shows "sd_inv s'" and "r \<noteq> Panic" and "r = Ok n \<Longrightarrow> n \<le> length data" and "r = Err e \<Longrightarrow> sd_ready s' = sd_ready s"
proof -
  have "sd_inv s' \<and> r \<noteq> Panic \<and> (\<forall>n. r = Ok n \<longrightarrow> n \<le> length data) \<and> (\<forall>e. r = Err e \<longrightarrow> sd_ready s' = sd_ready s)"
    using assms(1)
  proof (cases rule: sd_inv_cases)
    case (active w)
    from sd_write_spec [OF active assms(2), of fin] show ?thesis
    proof
      assume "sd_write data fin s = (Err FinalSizeError, s) \<and> sd_fin_off s \<noteq> None"
      then show ?thesis using assms(1,3) by simp
    next
      assume "\<exists>n s'. sd_write data fin s = (Ok n, s') \<and> sd_appended data fin s n s' \<and> sd_ok (w @ take n data) s'"
      then obtain n where n: "r = Ok n" "sd_appended data fin s n s'" "sd_ok (w @ take n data) s'" using assms(3) by auto
      then show ?thesis using active(2) by (auto simp: sd_inv_def sd_appended_def)
    qed
  next
    case ended
    then show ?thesis using sd_write_ended [OF ended(1) assms(2,3)] ended_not_ready by (auto simp: sd_inv_def)
  qed
  then show "sd_inv s'" "r \<noteq> Panic" "r = Ok n \<Longrightarrow> n \<le> length data" "r = Err e \<Longrightarrow> sd_ready s' = sd_ready s" by blast+
qed

lemma sd_reset_ended:
  assumes "sd_reset s = (p, s')" and "unat (sd_unsent_off s) < 2 ^ 62" and "sd_send_off s \<le> sd_unsent_off s" and "sd_shutdown s \<or> sd_error s \<noteq> None"
  shows "sd_ended s' \<and> sd_max_data s' = sd_max_data s"
  using assms by (auto simp: sd_reset_def Let_def sd_ack_def sd_ended_def sd_send_off_def split: option.splits)

lemma sd_inv_unsent: "sd_inv s \<Longrightarrow> unat (sd_unsent_off s) < 2 ^ 62"
  by (auto simp: sd_inv_def sd_ok_def sd_ended_def word_le_nat_alt)

lemma sd_inv_send_off: "sd_inv s \<Longrightarrow> sd_send_off s \<le> sd_unsent_off s"
  using send_off_spec(1) by (auto simp: sd_inv_def sd_ended_def)

lemma sd_inv_stop:
  assumes "sd_inv s" and "sd_stop code s = (r, s')"
  shows "sd_inv s'" and "r \<noteq> Panic" and "sd_ready s' \<Longrightarrow> sd_ready s"
proof -
  obtain p t where t: "sd_reset s = (p, t)" by fastforce
  have "sd_reset (s\<lparr>sd_error := Some code\<rparr>) = (p, t\<lparr>sd_error := Some code\<rparr>)"
    using t by (auto simp: sd_reset_def Let_def sd_ack_def)
  then have "sd_ended (t\<lparr>sd_error := Some code\<rparr>)" "sd_max_data t = sd_max_data s"
    using sd_reset_ended [of "s\<lparr>sd_error := Some code\<rparr>"] sd_inv_unsent [OF assms(1)] sd_inv_send_off [OF assms(1)] by auto
  then show "sd_inv s'" "r \<noteq> Panic" "sd_ready s' \<Longrightarrow> sd_ready s"
    using assms t ended_not_ready by (auto simp: sd_stop_def sd_inv_def split: if_splits)
qed

lemma sd_inv_shut:
  assumes "sd_inv s" and "sd_shut s = (r, s')"
  shows "sd_inv s'" and "r \<noteq> Panic" and "sd_ready s' \<Longrightarrow> sd_ready s"
proof -
  obtain p t where t: "sd_reset (s\<lparr>sd_shutdown := True\<rparr>) = (p, t)" by fastforce
  then have "sd_ended t" "sd_max_data t = sd_max_data s"
    using sd_reset_ended [OF t] sd_inv_unsent [OF assms(1)] sd_inv_send_off [OF assms(1)] by auto
  then show "sd_inv s'" "r \<noteq> Panic" "sd_ready s' \<Longrightarrow> sd_ready s"
    using assms t ended_not_ready by (auto simp: sd_shut_def sd_inv_def split: if_splits)
qed

lemma ready_iff: "sd_ok w s \<Longrightarrow> sd_ready s \<longleftrightarrow> sd_send_off s < sd_write_off s"
  using acked_below_base(2,3) send_off_spec(2)
  by (fastforce simp: sd_ready_def sd_ok_def word_less_nat_alt word_le_nat_alt)

lemma sd_inv_ack:
  assumes "sd_inv s" and "unat off + len \<le> unat (sd_unsent_off s)"
  shows "\<exists>s'. ack_and_drop off len s = (Ok (), s') \<and> sd_inv s' \<and> (sd_ready s' \<longrightarrow> sd_ready s)"
  using assms(1)
proof (cases rule: sd_inv_cases)
  case (active w)
  obtain s' where a: "ack_and_drop off len s = (Ok (), s')" "sd_ok w s'" "sd_acknowledged off len s s'"
    using ack_and_drop_spec [OF active(1) assms(2)] by blast
  have "sd_send_off s \<le> sd_send_off s'"
    by (rule send_off_shrink) (use active(1) a(2,3) in \<open>auto simp: sd_ok_def sd_acknowledged_def\<close>)
  then have "sd_ready s' \<longrightarrow> sd_ready s" using ready_iff [OF active(1)] ready_iff [OF a(2)] a(3) by (auto simp: sd_acknowledged_def)
  then show ?thesis using a active(2) by (auto simp: sd_inv_def sd_acknowledged_def)
next
  case ended
  then show ?thesis by (auto simp: ack_and_drop_def sd_ended_def sd_inv_def sd_ready_def sd_send_off_def rs_clear_def rs_min_def bt_first_def)
qed

lemma sd_inv_retransmit:
  assumes "sd_inv s" and "unat off + len \<le> unat (sd_unsent_off s)"
  shows "sd_inv (retransmit off len s)"
  using assms(1)
proof (cases rule: sd_inv_cases)
  case (active w)
  then show ?thesis using retransmit_spec [OF active(1) assms(2)] by (auto simp: sd_inv_def sd_lost_def)
next
  case ended
  then show ?thesis by (auto simp: retransmit_def sd_ended_def sd_inv_def)
qed

lemma sd_inv_read:
  assumes "sd_inv s" and "cap < 2 ^ 64"
  shows "\<exists>d fin s'. sd_read cap s = Some (Ok (d, fin), s') \<and> sd_inv s'"
  using assms(1)
proof (cases rule: sd_inv_cases)
  case (active w)
  then show ?thesis using sd_read_spec [OF active(1) assms(2)] by (auto simp: sd_inv_def sd_sent_def)
next
  case ended
  have "\<not> may_send cap (sd_send_off s) s" using ended_not_ready [OF ended(1)] by (simp add: may_send_def)
  then show ?thesis using assms(1) by (simp add: sd_read_def)
qed

lemma sd_inv_fields:
  assumes "sd_inv s"
  shows "unat m < 2 ^ 62 \<Longrightarrow> sd_inv (sd_update_max_data m s)" and "sd_inv (sd_update_blocked_at b s)"
    and "sd_ready (sd_update_max_data m s) = sd_ready s" and "sd_ready (sd_update_blocked_at b s) = sd_ready s"
proof -
  show r: "sd_ready (sd_update_max_data m s) = sd_ready s" "sd_ready (sd_update_blocked_at b s) = sd_ready s"
    by (simp_all add: sd_ready_def sd_update_max_data_def sd_update_blocked_at_def)
  from assms show "sd_inv (sd_update_blocked_at b s)"
    by (cases rule: sd_inv_cases) (auto simp: sd_inv_def sd_update_blocked_at_def sd_ok_def sd_ended_def)
  assume m: "unat m < 2 ^ 62"
  from assms show "sd_inv (sd_update_max_data m s)"
  proof (cases rule: sd_inv_cases)
    case (active w)
    then have "sd_write_off s \<le> max (sd_max_data s) m" by (auto simp: sd_ok_def max_def)
    then have "sd_ok w (sd_update_max_data m s)" using active(1) by (simp add: sd_ok_def sd_update_max_data_def)
    then show ?thesis using active(2) m by (auto simp: sd_inv_def sd_update_max_data_def max_def)
  qed (use m in \<open>auto simp: sd_inv_def sd_update_max_data_def sd_ended_def max_def\<close>)
qed

lemma rv_ok_read:
  assumes "rv_ok r" and "rv_read cap r = (res, r')"
  shows "rv_ok r'" and "res \<noteq> Panic"
proof -
  show "res \<noteq> Panic" using assms(2) by (auto simp: rv_read_def Let_def split: if_splits option.splits prod.splits)
  show "rv_ok r'"
  proof (cases res)
    case (Ok p)
    then show ?thesis using rv_read_spec(1) [OF assms(1)] assms(2) by (cases p) blast
  qed (use assms rv_ok_clear in \<open>auto simp: rv_read_def Let_def split: if_splits option.splits prod.splits\<close>)
qed

end
