(* ===== verification/Stream_Map.thy ===== *)
theory Stream_Map
  imports Stream_State
begin

text \<open>
  The stream map of a connection (\<open>StreamMap\<close> of src/connection/stream.rs): the streams by identifier,
  the sets of streams that wait for the application or for a frame to be sent, connection-level flow
  control in both directions, and the handlers of the frames that concern streams. Hash maps and hash
  sets are maps and sets: the code never depends on the order in which they are iterated. A reference
  to a stream is a copy that is written back.

  The events queue is the one of src/lib.rs. When it is enabled, a closed stream stays in the map until
  the endpoint has handled the event and calls \<open>stream_destroy\<close>.
\<close>

subsection \<open>Events\<close>

datatype event =
    EvConnectionEstablished
  | EvNewToken bytes
  | EvScidToAdvertise u8
  | EvScidRetired cid
  | EvDcidAdvertised u128
  | EvDcidRetired u128
  | EvResetTokenAdvertised u128
  | EvStreamCreated u64
  | EvStreamClosed u64

type_synonym event_queue = "event list option"

definition events_enable :: event_queue where
  "events_enable = Some []"

definition events_add :: "event \<Rightarrow> event_queue \<Rightarrow> bool \<times> event_queue" where
  "events_add e q = (case q of Some events \<Rightarrow> (True, Some (events @ [e])) | None \<Rightarrow> (False, q))"

definition events_poll :: "event_queue \<Rightarrow> event option \<times> event_queue" where
  "events_poll q = (case q of Some (e # events) \<Rightarrow> (Some e, Some events) | _ \<Rightarrow> (None, q))"

definition events_is_empty :: "event_queue \<Rightarrow> bool" where
  "events_is_empty q = (case q of Some events \<Rightarrow> events = [] | None \<Rightarrow> True)"

subsection \<open>State\<close>

record 'c stream_map =
  sm_is_server :: bool
  sm_streams :: "u64 \<rightharpoonup> 'c stream"
  sm_sendable :: "(u8, priority_queue) btree"
  sm_readable :: "u64 set"
  sm_writable :: "u64 set"
  sm_reset :: "u64 \<rightharpoonup> u64 \<times> u64"
  sm_stopped :: "u64 \<rightharpoonup> u64"
  sm_almost_full :: "u64 set"
  sm_data_blocked :: "u64 \<rightharpoonup> u64"
  sm_cc :: concurrency_control
  sm_flow :: flow_control
  sm_capacity :: send_capacity
  sm_max_stream_window :: u64
  sm_rx_almost_full :: bool
  sm_next_bidi :: u64
  sm_next_uni :: u64
  sm_peer_params :: stream_params
  sm_local_params :: stream_params
  sm_events :: event_queue

definition sm_new :: "bool \<Rightarrow> u64 \<Rightarrow> u64 \<Rightarrow> stream_params \<Rightarrow> 'c stream_map" where
  "sm_new is_server max_connection_window max_stream_window local_params =
     \<lparr>sm_is_server = is_server, sm_streams = Map.empty, sm_sendable = [], sm_readable = {}, sm_writable = {},
      sm_reset = Map.empty, sm_stopped = Map.empty, sm_almost_full = {}, sm_data_blocked = Map.empty,
      sm_cc = cc_new (sp_max_streams_bidi local_params) (sp_max_streams_uni local_params),
      sm_flow = fc_new (sp_max_data local_params) max_connection_window, sm_capacity = sc_default,
      sm_max_stream_window = max_stream_window, sm_rx_almost_full = False,
      sm_next_bidi = (if is_server then 1 else 0), sm_next_uni = (if is_server then 3 else 2),
      sm_peer_params = sp_default, sm_local_params = local_params, sm_events = None\<rparr>"

definition put_stream :: "u64 \<Rightarrow> 'c stream \<Rightarrow> 'c stream_map \<Rightarrow> 'c stream_map" where
  "put_stream i s m = m\<lparr>sm_streams := (sm_streams m)(i \<mapsto> s)\<rparr>"

subsection \<open>Sets of streams\<close>

definition push_sendable :: "u64 \<Rightarrow> u8 \<Rightarrow> bool \<Rightarrow> 'c stream_map \<Rightarrow> 'c stream_map" where
  "push_sendable i urgency incremental m =
     m\<lparr>sm_sendable := push_sendable_queue i urgency incremental (sm_sendable m)\<rparr>"

definition peek_sendable :: "'c stream_map \<Rightarrow> u64 option \<times> 'c stream_map" where
  "peek_sendable m = (case peek_sendable_queue (sm_sendable m) of (r, q) \<Rightarrow> (r, m\<lparr>sm_sendable := q\<rparr>))"

definition remove_sendable :: "'c stream_map \<Rightarrow> 'c stream_map" where
  "remove_sendable m = m\<lparr>sm_sendable := remove_sendable_queue (sm_sendable m)\<rparr>"

definition mark_readable :: "u64 \<Rightarrow> bool \<Rightarrow> 'c stream_map \<Rightarrow> 'c stream_map" where
  "mark_readable i readable m =
     m\<lparr>sm_readable := (if readable then insert i (sm_readable m) else sm_readable m - {i})\<rparr>"

definition mark_writable :: "u64 \<Rightarrow> bool \<Rightarrow> 'c stream_map \<Rightarrow> 'c stream_map" where
  "mark_writable i writable m =
     m\<lparr>sm_writable := (if writable then insert i (sm_writable m) else sm_writable m - {i})\<rparr>"

definition mark_almost_full :: "u64 \<Rightarrow> bool \<Rightarrow> 'c stream_map \<Rightarrow> 'c stream_map" where
  "mark_almost_full i almost_full m =
     m\<lparr>sm_almost_full := (if almost_full then insert i (sm_almost_full m) else sm_almost_full m - {i})\<rparr>"

definition mark_blocked :: "u64 \<Rightarrow> bool \<Rightarrow> u64 \<Rightarrow> 'c stream_map \<Rightarrow> 'c stream_map" where
  "mark_blocked i blocked off m =
     m\<lparr>sm_data_blocked := (sm_data_blocked m)(i := if blocked then Some off else None)\<rparr>"

definition mark_reset :: "u64 \<Rightarrow> bool \<Rightarrow> u64 \<Rightarrow> u64 \<Rightarrow> 'c stream_map \<Rightarrow> 'c stream_map" where
  "mark_reset i reset error_code final_size m =
     m\<lparr>sm_reset := (sm_reset m)(i := if reset then Some (error_code, final_size) else None)\<rparr>"

definition mark_stopped :: "u64 \<Rightarrow> bool \<Rightarrow> u64 \<Rightarrow> 'c stream_map \<Rightarrow> 'c stream_map" where
  "mark_stopped i stopped error_code m =
     m\<lparr>sm_stopped := (sm_stopped m)(i := if stopped then Some error_code else None)\<rparr>"

definition sm_is_closed :: "u64 \<Rightarrow> 'c stream_map \<Rightarrow> bool" where
  "sm_is_closed i m =
     (case sm_streams m i of
        Some s \<Rightarrow> st_closed s
      | None \<Rightarrow> \<not> (is_available i (sm_is_server m) (sm_cc m) \<or> is_limited i (sm_is_server m) (sm_cc m)))"

definition stream_destroy :: "u64 \<Rightarrow> 'c stream_map \<Rightarrow> 'c stream_map" where
  "stream_destroy i m = m\<lparr>sm_streams := (sm_streams m)(i := None)\<rparr>"

definition mark_closed :: "u64 \<Rightarrow> bool \<Rightarrow> 'c stream_map \<Rightarrow> 'c stream_map" where
  "mark_closed i loc m =
     (if sm_is_closed i m then m
      else
        let m = (if \<not> loc then m\<lparr>sm_cc := increase_max_streams_credits (is_bidi i) 1 (sm_cc m)\<rparr> else m);
            m = mark_writable i False (mark_readable i False m);
            m = (case sm_streams m i of Some s \<Rightarrow> put_stream i (st_mark_closed s) m | None \<Rightarrow> m);
            (added, q) = events_add (EvStreamClosed i) (sm_events m);
            m = m\<lparr>sm_events := q\<rparr>
        in if added then m else stream_destroy i m)"

subsection \<open>Credit\<close>

definition max_rx_data :: "'c stream_map \<Rightarrow> u64" where
  "max_rx_data m = fc_max_data (sm_flow m)"

definition max_rx_data_next :: "'c stream_map \<Rightarrow> u64" where
  "max_rx_data_next m = max_data_next (sm_flow m)"

definition max_rx_data_left :: "'c stream_map \<Rightarrow> u64" where
  "max_rx_data_left m = fc_max_data (sm_flow m) - fc_recv_off (sm_flow m)"

definition max_tx_data_left :: "'c stream_map \<Rightarrow> u64" where
  "max_tx_data_left m = sc_max_data (sm_capacity m) - sc_tx_data (sm_capacity m)"

definition update_data_blocked_at :: "u64 option \<Rightarrow> 'c stream_map \<Rightarrow> 'c stream_map" where
  "update_data_blocked_at blocked_at m = m\<lparr>sm_capacity := sc_update_blocked_at blocked_at (sm_capacity m)\<rparr>"

definition sm_update_streams_blocked_at :: "bool \<Rightarrow> u64 option \<Rightarrow> 'c stream_map \<Rightarrow> 'c stream_map" where
  "sm_update_streams_blocked_at bidi blocked_at m = m\<lparr>sm_cc := update_streams_blocked_at bidi blocked_at (sm_cc m)\<rparr>"

definition sm_update_local_max_streams :: "bool \<Rightarrow> 'c stream_map \<Rightarrow> 'c stream_map" where
  "sm_update_local_max_streams bidi m = m\<lparr>sm_cc := update_local_max_streams bidi (sm_cc m)\<rparr>"

definition sm_max_streams :: "bool \<Rightarrow> 'c stream_map \<Rightarrow> u64" where
  "sm_max_streams bidi m = (if bidi then local_max_streams_bidi (sm_cc m) else local_max_streams_uni (sm_cc m))"

definition sm_max_streams_next :: "bool \<Rightarrow> 'c stream_map \<Rightarrow> u64" where
  "sm_max_streams_next bidi m =
     (if bidi then local_max_streams_bidi_next (sm_cc m) else local_max_streams_uni_next (sm_cc m))"

definition should_send_max_streams :: "'c stream_map \<Rightarrow> bool" where
  "should_send_max_streams m \<longleftrightarrow>
     should_update_local_max_streams True (sm_cc m) \<or> should_update_local_max_streams False (sm_cc m)"

definition streams_blocked :: "'c stream_map \<Rightarrow> bool" where
  "streams_blocked m \<longleftrightarrow> streams_blocked_at_bidi (sm_cc m) \<noteq> None \<or> streams_blocked_at_uni (sm_cc m) \<noteq> None"

definition sm_streams_blocked_at :: "bool \<Rightarrow> 'c stream_map \<Rightarrow> u64 option" where
  "sm_streams_blocked_at bidi m = (if bidi then streams_blocked_at_bidi (sm_cc m) else streams_blocked_at_uni (sm_cc m))"

definition sm_autotune_window :: "nat \<Rightarrow> nat \<Rightarrow> 'c stream_map \<Rightarrow> 'c stream_map" where
  "sm_autotune_window now srtt m = m\<lparr>sm_flow := autotune_window now srtt (sm_flow m)\<rparr>"

definition update_max_rx_data :: "nat \<Rightarrow> 'c stream_map \<Rightarrow> 'c stream_map" where
  "update_max_rx_data now m = m\<lparr>sm_flow := update_max_data now (sm_flow m)\<rparr>"

definition sm_ensure_window_lower_bound :: "u64 \<Rightarrow> 'c stream_map \<Rightarrow> 'c stream_map" where
  "sm_ensure_window_lower_bound min_window m = m\<lparr>sm_flow := ensure_window_lower_bound min_window (sm_flow m)\<rparr>"

text \<open>Data counted as consumed: the flow controller moves on and may call for a MAX_DATA frame.\<close>

definition consume_rx :: "u64 \<Rightarrow> 'c stream_map \<Rightarrow> 'c stream_map" where
  "consume_rx n m =
     (let m = m\<lparr>sm_flow := increase_read_off n (sm_flow m)\<rparr>
      in if should_send_max_data (sm_flow m) then m\<lparr>sm_rx_almost_full := True\<rparr> else m)"

text \<open>Credit given back for data that was buffered and never sent.\<close>

definition give_back_tx :: "u64 \<Rightarrow> 'c stream_map \<Rightarrow> 'c stream_map" where
  "give_back_tx unsent m =
     (let c = sm_capacity m
      in m\<lparr>sm_capacity := sc_update_capacity (c\<lparr>sc_tx_data := saturating_sub (sc_tx_data c) unsent\<rparr>)\<rparr>)"

definition need_send_max_data :: "'c stream_map \<Rightarrow> bool" where
  "need_send_max_data m \<longleftrightarrow> sm_rx_almost_full m \<and> max_rx_data m < max_rx_data_next m"

definition need_send_stream_frames :: "'c stream_map \<Rightarrow> bool" where
  "need_send_stream_frames m \<longleftrightarrow> sm_sendable m \<noteq> [] \<or> need_send_max_data m
     \<or> sc_blocked_at (sm_capacity m) \<noteq> None \<or> should_send_max_streams m \<or> sm_almost_full m \<noteq> {}
     \<or> sm_data_blocked m \<noteq> Map.empty \<or> sm_reset m \<noteq> Map.empty \<or> sm_stopped m \<noteq> Map.empty \<or> streams_blocked m"

subsection \<open>Opening a stream\<close>

text \<open>The branch of \<open>get_or_create\<close> for an identifier that is not in the map: the checks, and then the
  new stream enters the map.\<close>

definition admit_stream :: "u64 \<Rightarrow> 'c stream \<Rightarrow> 'c stream_map \<Rightarrow> 'c stream_map" where
  "admit_stream i s m =
     (let m = (if st_is_writable s then mark_writable i True m else m);
          m = (if is_bidi i then m\<lparr>sm_next_bidi := saturating_add (max (sm_next_bidi m) i) 4\<rparr>
               else m\<lparr>sm_next_uni := saturating_add (max (sm_next_uni m) i) 4\<rparr>);
          m = m\<lparr>sm_cc := remove_avail_id i (sm_is_server m) (sm_cc m)\<rparr>;
          m = m\<lparr>sm_events := snd (events_add (EvStreamCreated i) (sm_events m))\<rparr>
      in put_stream i s m)"

definition create_stream :: "u64 \<Rightarrow> bool \<Rightarrow> ('c stream, error, 'c stream_map) meth" where
  "create_stream i loc m =
     (if sm_is_closed i m then (Err Done, m)
      else if loc \<noteq> is_local i (sm_is_server m) then (Err StreamStateError, m)
      else
        let bidi = is_bidi i;
            (max_rx_data, max_tx_data) = max_stream_data_limit loc bidi (sm_local_params m) (sm_peer_params m)
        in case check_concurrency_limits i (sm_is_server m) (sm_cc m) of
             (Err e, c) \<Rightarrow> (Err e, m\<lparr>sm_cc := c\<rparr>)
           | (Panic, c) \<Rightarrow> (Panic, m\<lparr>sm_cc := c\<rparr>)
           | (Ok _, c) \<Rightarrow>
               let m = m\<lparr>sm_cc := c\<rparr>;
                   s = st_new bidi loc max_tx_data max_rx_data (sm_max_stream_window m)
               in (Ok s, admit_stream i s m))"

definition get_or_create :: "u64 \<Rightarrow> bool \<Rightarrow> ('c stream, error, 'c stream_map) meth" where
  "get_or_create i loc m =
     (if VINT_MAX < i then (Err ProtocolViolation, m)
      else case sm_streams m i of
        Some s \<Rightarrow> (Ok s, m)
      | None \<Rightarrow> create_stream i loc m)"

definition stream_set_priority :: "u64 \<Rightarrow> u8 \<Rightarrow> bool \<Rightarrow> (unit, error, 'c stream_map) meth" where
  "stream_set_priority i urgency incremental m =
     (case get_or_create i True m of
        (Err e, m) \<Rightarrow> (if e = Done then Ok () else Err e, m)
      | (Panic, m) \<Rightarrow> (Panic, m)
      | (Ok s, m) \<Rightarrow>
          if st_urgency s = urgency \<and> st_incremental s = incremental then (Ok (), m)
          else (Ok (), put_stream i (s\<lparr>st_urgency := urgency, st_incremental := incremental\<rparr>) m))"

definition stream_bidi_new :: "u8 \<Rightarrow> bool \<Rightarrow> (u64, error, 'c stream_map) meth" where
  "stream_bidi_new urgency incremental m =
     (let stream_id = sm_next_bidi m
      in bind_s (stream_set_priority stream_id urgency incremental) (\<lambda>_ m. (Ok stream_id, m)) m)"

definition stream_uni_new :: "u8 \<Rightarrow> bool \<Rightarrow> (u64, error, 'c stream_map) meth" where
  "stream_uni_new urgency incremental m =
     (let stream_id = sm_next_uni m
      in bind_s (stream_set_priority stream_id urgency incremental) (\<lambda>_ m. (Ok stream_id, m)) m)"

definition stream_set_context :: "u64 \<Rightarrow> 'c \<Rightarrow> (unit, error, 'c stream_map) meth" where
  "stream_set_context i ctx m =
     (case get_or_create i True m of
        (Err e, m) \<Rightarrow> (if e = Done then Ok () else Err e, m)
      | (Panic, m) \<Rightarrow> (Panic, m)
      | (Ok s, m) \<Rightarrow> (Ok (), put_stream i (s\<lparr>st_context := Some ctx\<rparr>) m))"

definition stream_context :: "u64 \<Rightarrow> 'c stream_map \<Rightarrow> 'c option" where
  "stream_context i m = (case sm_streams m i of Some s \<Rightarrow> st_context s | None \<Rightarrow> None)"

definition want_write :: "u64 \<Rightarrow> bool \<Rightarrow> (unit, error, 'c stream_map) meth" where
  "want_write i want m =
     (case sm_streams m i of
        Some s \<Rightarrow> (let (r, s) = st_mark_wantwrite want s in (r, put_stream i s m))
      | None \<Rightarrow> (Err Done, m))"

definition want_read :: "u64 \<Rightarrow> bool \<Rightarrow> (unit, error, 'c stream_map) meth" where
  "want_read i want m =
     (case sm_streams m i of
        Some s \<Rightarrow> (let (r, s) = st_mark_wantread want s in (r, put_stream i s m))
      | None \<Rightarrow> (Err Done, m))"

subsection \<open>The application's side\<close>

definition stream_read_offset :: "u64 \<Rightarrow> 'c stream_map \<Rightarrow> u64 option" where
  "stream_read_offset i m = map_option (\<lambda>s. rv_read_off (st_recv s)) (sm_streams m i)"

definition stream_write_offset :: "u64 \<Rightarrow> 'c stream_map \<Rightarrow> u64 option" where
  "stream_write_offset i m = map_option (\<lambda>s. sd_write_off (st_send s)) (sm_streams m i)"

definition stream_read :: "u64 \<Rightarrow> nat \<Rightarrow> (bytes \<times> bool, error, 'c stream_map) meth" where
  "stream_read i cap m =
     (if \<not> is_bidi i \<and> is_local i (sm_is_server m) then (Err StreamStateError, m)
      else case sm_streams m i of
        None \<Rightarrow> (Err StreamStateError, m)
      | Some s \<Rightarrow>
          if \<not> st_is_readable s then (Err Done, m)
          else
            let loc = st_local s;
                (r, rv) = rv_read cap (st_recv s);
                s = s\<lparr>st_recv := rv\<rparr>;
                m = put_stream i s m
            in case r of
                 Panic \<Rightarrow> (Panic, m)
               | Err e \<Rightarrow>
                   let m = (if st_is_complete s then mark_closed i loc m else m)
                   in (Err e, mark_readable i False m)
               | Ok (out, fin) \<Rightarrow>
                   let readable = st_is_readable s;
                       complete = st_is_complete s;
                       m = (if rv_should_send_max_data (st_recv s) then mark_almost_full i True m else m);
                       m = consume_rx (as_u64 (length out)) m;
                       m = (if \<not> readable then mark_readable i False m else m);
                       m = (if complete then mark_closed i loc m else m)
                   in (Ok (out, fin), m))"

text \<open>The rest of \<open>stream_write\<close> once the connection's credit is known to allow something.\<close>

definition note_blocked :: "u64 \<Rightarrow> bool \<Rightarrow> 'c stream \<Rightarrow> 'c stream_map \<Rightarrow> 'c stream_map" where
  "note_blocked i short s m =
     (if short then
        let max_data = sd_max_data (st_send s) in
        if sd_blocked_at (st_send s) \<noteq> Some max_data
        then mark_blocked i True max_data (put_stream i (s\<lparr>st_send := sd_update_blocked_at (Some max_data) (st_send s)\<rparr>) m)
        else m
      else mark_blocked i False 0 (put_stream i (s\<lparr>st_send := sd_update_blocked_at None (st_send s)\<rparr>) m))"

definition spend_tx :: "nat \<Rightarrow> 'c stream_map \<Rightarrow> 'c stream_map" where
  "spend_tx n m =
     (let c = sm_capacity m
      in m\<lparr>sm_capacity := c\<lparr>sc_capacity := sc_capacity c - n, sc_tx_data := sc_tx_data c + as_u64 n\<rparr>\<rparr>)"

definition stream_write_some :: "u64 \<Rightarrow> bytes \<Rightarrow> bool \<Rightarrow> bool \<Rightarrow> nat \<Rightarrow> 'c stream \<Rightarrow> (nat, error, 'c stream_map) meth" where
  "stream_write_some i buf fin blocked_by_cap expect_written s m =
     (let was_writable = st_is_writable s;
          was_sendable = st_is_sendable s;
          buf_len = length buf;
          (r, sd) = sd_write buf fin (st_send s);
          s = s\<lparr>st_send := sd\<rparr>;
          m = put_stream i s m
      in case r of
           Err e \<Rightarrow> (Err e, mark_writable i False m)
         | Panic \<Rightarrow> (Panic, m)
         | Ok n \<Rightarrow>
             let urgency = st_urgency s;
                 incremental = st_incremental s;
                 sendable = st_is_sendable s;
                 writable = st_is_writable s;
                 empty_fin = (buf_len = 0 \<and> fin);
                 m = note_blocked i (n < buf_len) s m;
                 m = (if (sendable \<or> empty_fin) \<and> \<not> was_sendable then push_sendable i urgency incremental m else m);
                 m = (if \<not> writable then mark_writable i False m
                      else if was_writable \<and> blocked_by_cap then mark_writable i True m else m);
                 m = spend_tx n m;
                 m = (if n < expect_written then snd (want_write i True m) else m)
             in (if n = 0 \<and> 0 < buf_len then Err Done else Ok n, m))"

definition stream_write :: "u64 \<Rightarrow> bytes \<Rightarrow> bool \<Rightarrow> (nat, error, 'c stream_map) meth" where
  "stream_write i buf fin m =
     (if \<not> is_bidi i \<and> \<not> is_local i (sm_is_server m) then (Err StreamStateError, m)
      else
        let m = (if max_tx_data_left m < as_u64 (length buf)
                 then update_data_blocked_at (Some (sc_max_data (sm_capacity m))) m else m);
            expect_written = length buf;
            capacity = sc_capacity (sm_capacity m)
        in bind_s (get_or_create i True) (\<lambda>s m.
             if capacity = 0 \<and> buf \<noteq> [] then
               let m = (if st_is_writable s then mark_writable i True m else m)
               in (Err Done, snd (want_write i True m))
             else if capacity < length buf
             then stream_write_some i (take capacity buf) False True expect_written s m
             else stream_write_some i buf fin False expect_written s m) m)"

datatype shutdown_direction = ShutdownRead | ShutdownWrite

definition stream_shutdown_read :: "u64 \<Rightarrow> u64 \<Rightarrow> 'c stream \<Rightarrow> (unit, error, 'c stream_map) meth" where
  "stream_shutdown_read i err s m =
     (if is_local i (sm_is_server m) \<and> \<not> is_bidi i then (Err StreamStateError, m)
      else
        let (r, rv) = rv_shut (st_recv s);
            m = put_stream i (s\<lparr>st_recv := rv\<rparr>) m
        in case r of
             Err e \<Rightarrow> (Err e, m)
           | Panic \<Rightarrow> (Panic, m)
           | Ok unread_len \<Rightarrow>
               let m = (if \<not> rv_is_fin rv then mark_stopped i True err m else m)
               in (Ok (), consume_rx unread_len (mark_readable i False m)))"

definition stream_shutdown_write :: "u64 \<Rightarrow> u64 \<Rightarrow> 'c stream \<Rightarrow> (unit, error, 'c stream_map) meth" where
  "stream_shutdown_write i err s m =
     (if \<not> is_local i (sm_is_server m) \<and> \<not> is_bidi i then (Err StreamStateError, m)
      else
        let (r, sd) = sd_shut (st_send s);
            m = put_stream i (s\<lparr>st_send := sd\<rparr>) m
        in case r of
             Err e \<Rightarrow> (Err e, m)
           | Panic \<Rightarrow> (Panic, m)
           | Ok (final_size, unsent) \<Rightarrow>
               (Ok (), mark_writable i False (mark_reset i True err final_size (give_back_tx unsent m))))"

definition stream_shutdown :: "u64 \<Rightarrow> shutdown_direction \<Rightarrow> u64 \<Rightarrow> (unit, error, 'c stream_map) meth" where
  "stream_shutdown i direction err m =
     (case sm_streams m i of
        None \<Rightarrow> (Err Done, m)
      | Some s \<Rightarrow>
          (case direction of
             ShutdownRead \<Rightarrow> stream_shutdown_read i err s m
           | ShutdownWrite \<Rightarrow> stream_shutdown_write i err s m))"

definition stream_capacity :: "u64 \<Rightarrow> 'c stream_map \<Rightarrow> nat res" where
  "stream_capacity i m =
     (case sm_streams m i of
        Some s \<Rightarrow> bind_r (sd_capacity (st_send s)) (\<lambda>c. Ok (min (sc_capacity (sm_capacity m)) c))
      | None \<Rightarrow> Err StreamStateError)"

definition stream_writable :: "u64 \<Rightarrow> nat \<Rightarrow> (bool, error, 'c stream_map) meth" where
  "stream_writable i len =
     bind_s (lift_s (stream_capacity i)) (\<lambda>c m.
       if len \<le> c then (Ok True, m)
       else
         let m = (if max_tx_data_left m < as_u64 len
                  then update_data_blocked_at (Some (sc_max_data (sm_capacity m))) m else m)
         in case sm_streams m i of
              None \<Rightarrow> (Panic, m)
            | Some s \<Rightarrow>
                let s = s\<lparr>st_write_thresh := max 1 len\<rparr>;
                    is_writable = st_is_writable s;
                    m = put_stream i s m
                in bind_s (lift_s (\<lambda>_. sd_capacity (st_send s))) (\<lambda>c m.
                     if c < len then
                       let max_data = sd_max_data (st_send s) in
                       (Ok False,
                        if sd_blocked_at (st_send s) \<noteq> Some max_data
                        then mark_blocked i True max_data
                               (put_stream i (s\<lparr>st_send := sd_update_blocked_at (Some max_data) (st_send s)\<rparr>) m)
                        else m)
                     else (Ok False, if is_writable then mark_writable i True m else m)) m)"

definition stream_readable :: "u64 \<Rightarrow> 'c stream_map \<Rightarrow> bool" where
  "stream_readable i m = (case sm_streams m i of Some s \<Rightarrow> st_is_readable s | None \<Rightarrow> False)"

definition stream_finished :: "u64 \<Rightarrow> 'c stream_map \<Rightarrow> bool" where
  "stream_finished i m = (case sm_streams m i of Some s \<Rightarrow> rv_is_fin (st_recv s) | None \<Rightarrow> True)"

definition check_writable :: "u64 \<Rightarrow> 'c stream_map \<Rightarrow> bool" where
  "check_writable i m =
     (case sm_streams m i of
        Some s \<Rightarrow> st_want_write s \<and>
          (case sd_capacity (st_send s) of
             Ok c \<Rightarrow> st_write_thresh s \<le> min (sc_capacity (sm_capacity m)) c
           | _ \<Rightarrow> True)
      | None \<Rightarrow> False)"

definition check_readable :: "u64 \<Rightarrow> 'c stream_map \<Rightarrow> bool" where
  "check_readable i m = (case sm_streams m i of Some s \<Rightarrow> st_want_read s | None \<Rightarrow> False)"

definition has_readable :: "'c stream_map \<Rightarrow> bool" where
  "has_readable m \<longleftrightarrow> (\<exists>i \<in> sm_readable m. check_readable i m)"

definition has_writable :: "'c stream_map \<Rightarrow> bool" where
  "has_writable m \<longleftrightarrow> sc_capacity (sm_capacity m) \<noteq> 0 \<and> (\<exists>i \<in> sm_writable m. check_writable i m)"

subsection \<open>Frames from the peer\<close>

definition on_max_data_frame_received :: "u64 \<Rightarrow> 'c stream_map \<Rightarrow> 'c stream_map" where
  "on_max_data_frame_received max_data m =
     (let c = sc_update_capacity (sc_update_max_data max_data (sm_capacity m));
          c = (if above_opt (sc_max_data c) (sc_blocked_at c) then c\<lparr>sc_blocked_at := None\<rparr> else c)
      in m\<lparr>sm_capacity := c\<rparr>)"

definition on_max_stream_data_frame_received :: "u64 \<Rightarrow> u64 \<Rightarrow> (unit, error, 'c stream_map) meth" where
  "on_max_stream_data_frame_received i max_data m =
     (if \<not> is_local i (sm_is_server m) \<and> \<not> is_bidi i then (Err StreamStateError, m)
      else case get_or_create i False m of
        (Err e, m) \<Rightarrow> (if e = Done then Ok () else Err e, m)
      | (Panic, m) \<Rightarrow> (Panic, m)
      | (Ok s, m) \<Rightarrow>
          let was_sendable = st_is_sendable s;
              s = s\<lparr>st_send := sd_update_max_data max_data (st_send s)\<rparr>;
              writable = st_is_writable s;
              m = put_stream i s m;
              m = (if st_is_sendable s \<and> \<not> was_sendable then push_sendable i (st_urgency s) (st_incremental s) m else m)
          in (Ok (), if writable then mark_writable i True m else m))"

definition on_max_streams_frame_received :: "u64 \<Rightarrow> bool \<Rightarrow> (unit, error, 'c stream_map) meth" where
  "on_max_streams_frame_received max_streams bidi m =
     (if MAX_STREAMS_PER_TYPE < max_streams then (Err FrameEncodingError, m)
      else (Ok (), m\<lparr>sm_cc := update_peer_max_streams bidi max_streams (sm_cc m)\<rparr>))"

definition on_stream_data_blocked_frame_received :: "u64 \<Rightarrow> u64 \<Rightarrow> (unit, error, 'c stream_map) meth" where
  "on_stream_data_blocked_frame_received i max_stream_data m =
     (if is_local i (sm_is_server m) \<and> \<not> is_bidi i then Err StreamStateError else Ok (), m)"

definition on_streams_blocked_frame_received :: "u64 \<Rightarrow> bool \<Rightarrow> (unit, error, 'c stream_map) meth" where
  "on_streams_blocked_frame_received max_streams bidi m =
     (if MAX_STREAMS_PER_TYPE < max_streams then Err FrameEncodingError else Ok (), m)"

text \<open>The part of \<open>on_reset_stream_frame_received\<close> after the stream has accepted the reset.\<close>

definition reset_accepted :: "u64 \<Rightarrow> bool \<Rightarrow> u64 \<Rightarrow> u64 \<Rightarrow> 'c stream \<Rightarrow> 'c stream_map \<Rightarrow> 'c stream_map" where
  "reset_accepted i was_readable max_rx_off_delta max_fc_off_delta s m =
     (let is_readable = st_is_readable s;
          m = (if \<not> was_readable \<and> is_readable then mark_readable i True m else m);
          m = (if st_is_complete s \<and> \<not> is_readable then mark_closed i (st_local s) m else m);
          m = m\<lparr>sm_flow := increase_recv_off max_rx_off_delta (sm_flow m)\<rparr>
      in consume_rx max_fc_off_delta m)"

definition on_reset_stream_frame_received :: "u64 \<Rightarrow> u64 \<Rightarrow> u64 \<Rightarrow> (unit, error, 'c stream_map) meth" where
  "on_reset_stream_frame_received i error_code final_size m =
     (if \<not> is_bidi i \<and> is_local i (sm_is_server m) then (Err StreamStateError, m)
      else
        let rx_left = max_rx_data_left m
        in case get_or_create i False m of
             (Err e, m) \<Rightarrow> (if e = Done then Ok () else Err e, m)
           | (Panic, m) \<Rightarrow> (Panic, m)
           | (Ok s, m) \<Rightarrow>
               let was_readable = st_is_readable s;
                   max_fc_off_delta = saturating_sub final_size (rv_read_off (st_recv s));
                   (r, rv) = rv_reset error_code final_size (st_recv s);
                   s = s\<lparr>st_recv := rv\<rparr>;
                   m = put_stream i s m
               in case r of
                    Err e \<Rightarrow> (Err e, m)
                  | Panic \<Rightarrow> (Panic, m)
                  | Ok delta \<Rightarrow>
                      if rx_left < as_u64 delta then (Err FlowControlError, m)
                      else (Ok (), reset_accepted i was_readable (as_u64 delta) max_fc_off_delta s m))"

definition on_stop_sending_frame_received :: "u64 \<Rightarrow> u64 \<Rightarrow> (unit, error, 'c stream_map) meth" where
  "on_stop_sending_frame_received i error_code m =
     (if \<not> is_local i (sm_is_server m) \<and> \<not> is_bidi i then (Err StreamStateError, m)
      else case get_or_create i False m of
        (Err e, m) \<Rightarrow> (if e = Done then Ok () else Err e, m)
      | (Panic, m) \<Rightarrow> (Panic, m)
      | (Ok s, m) \<Rightarrow>
          let was_writable = st_is_writable s;
              (r, sd) = sd_stop error_code (st_send s);
              m = put_stream i (s\<lparr>st_send := sd\<rparr>) m
          in (Ok (),
              case r of
                Ok (final_size, unsent) \<Rightarrow>
                  let m = mark_reset i True error_code final_size (give_back_tx unsent m)
                  in if \<not> was_writable then mark_writable i True m else m
              | _ \<Rightarrow> m))"

definition on_stream_frame_received :: "u64 \<Rightarrow> u64 \<Rightarrow> nat \<Rightarrow> bool \<Rightarrow> bytes \<Rightarrow> (unit, error, 'c stream_map) meth" where
  "on_stream_frame_received i offset len fin data m =
     (if is_local i (sm_is_server m) \<and> (\<not> is_bidi i \<or> sm_streams m i = None \<and> \<not> sm_is_closed i m)
      then (Err StreamStateError, m)
      else
        let rx_left = max_rx_data_left m
        in case get_or_create i False m of
             (Err e, m) \<Rightarrow> (if e = Done then Ok () else Err e, m)
           | (Panic, m) \<Rightarrow> (Panic, m)
           | (Ok s, m) \<Rightarrow>
               let data_max_off = offset + as_u64 len;
                   max_rx_off_delta = saturating_sub data_max_off (rv_recv_off (st_recv s))
               in if rx_left < max_rx_off_delta then (Err FlowControlError, m)
                  else
                    let was_readable = st_is_readable s;
                        was_draining = st_is_draining s;
                        (r, rv) = rv_write offset data fin (st_recv s);
                        s = s\<lparr>st_recv := rv\<rparr>;
                        m = put_stream i s m
                    in case r of
                         Err e \<Rightarrow> (Err e, m)
                       | Panic \<Rightarrow> (Panic, m)
                       | Ok _ \<Rightarrow>
                           let m = (if \<not> was_readable \<and> st_is_readable s then mark_readable i True m else m);
                               m = m\<lparr>sm_flow := increase_recv_off max_rx_off_delta (sm_flow m)\<rparr>
                           in (Ok (), if was_draining then consume_rx max_rx_off_delta m else m))"

subsection \<open>Frames acknowledged or lost\<close>

definition close_if_complete :: "u64 \<Rightarrow> 'c stream \<Rightarrow> 'c stream_map \<Rightarrow> 'c stream_map" where
  "close_if_complete i s m = (if st_is_complete s \<and> \<not> st_is_readable s then mark_closed i (st_local s) m else m)"

definition on_stream_frame_acked :: "u64 \<Rightarrow> u64 \<Rightarrow> nat \<Rightarrow> (unit, error, 'c stream_map) meth" where
  "on_stream_frame_acked i offset len m =
     (case sm_streams m i of
        None \<Rightarrow> (Ok (), m)
      | Some s \<Rightarrow>
          let (r, sd) = ack_and_drop offset len (st_send s);
              s = s\<lparr>st_send := sd\<rparr>;
              m = put_stream i s m
          in (r, if r = Ok () then close_if_complete i s m else m))"

definition on_reset_stream_frame_acked :: "u64 \<Rightarrow> 'c stream_map \<Rightarrow> 'c stream_map" where
  "on_reset_stream_frame_acked i m = (case sm_streams m i of None \<Rightarrow> m | Some s \<Rightarrow> close_if_complete i s m)"

definition on_stream_frame_lost :: "u64 \<Rightarrow> u64 \<Rightarrow> nat \<Rightarrow> bool \<Rightarrow> 'c stream_map \<Rightarrow> 'c stream_map" where
  "on_stream_frame_lost i offset len fin m =
     (case sm_streams m i of
        None \<Rightarrow> m
      | Some s \<Rightarrow>
          let was_sendable = st_is_sendable s;
              empty_fin = (len = 0 \<and> fin);
              s = s\<lparr>st_send := retransmit offset len (st_send s)\<rparr>;
              m = put_stream i s m
          in if (st_is_sendable s \<or> empty_fin) \<and> \<not> was_sendable
             then push_sendable i (st_urgency s) (st_incremental s) m else m)"

definition on_reset_stream_frame_lost :: "u64 \<Rightarrow> u64 \<Rightarrow> u64 \<Rightarrow> 'c stream_map \<Rightarrow> 'c stream_map" where
  "on_reset_stream_frame_lost i error_code final_size m =
     (if sm_streams m i \<noteq> None then mark_reset i True error_code final_size m else m)"

definition on_stop_sending_frame_lost :: "u64 \<Rightarrow> u64 \<Rightarrow> 'c stream_map \<Rightarrow> 'c stream_map" where
  "on_stop_sending_frame_lost i error_code m =
     (case sm_streams m i of
        None \<Rightarrow> m
      | Some s \<Rightarrow> if \<not> rv_is_fin (st_recv s) then mark_stopped i True error_code m else m)"

definition on_max_stream_data_frame_lost :: "u64 \<Rightarrow> 'c stream_map \<Rightarrow> 'c stream_map" where
  "on_max_stream_data_frame_lost i m = (if sm_streams m i \<noteq> None then mark_almost_full i True m else m)"

definition on_max_data_frame_lost :: "'c stream_map \<Rightarrow> 'c stream_map" where
  "on_max_data_frame_lost m = m\<lparr>sm_rx_almost_full := True\<rparr>"

definition on_stream_data_blocked_frame_lost :: "u64 \<Rightarrow> u64 \<Rightarrow> 'c stream_map \<Rightarrow> 'c stream_map" where
  "on_stream_data_blocked_frame_lost i blocked_at m =
     (case sm_streams m i of
        None \<Rightarrow> m
      | Some s \<Rightarrow> if blocked_at = sd_max_data (st_send s) then mark_blocked i True blocked_at m else m)"

definition on_data_blocked_frame_lost :: "u64 \<Rightarrow> 'c stream_map \<Rightarrow> 'c stream_map" where
  "on_data_blocked_frame_lost mx m =
     (if mx = sc_max_data (sm_capacity m) then update_data_blocked_at (Some mx) m else m)"

definition on_streams_blocked_frame_lost :: "bool \<Rightarrow> u64 \<Rightarrow> 'c stream_map \<Rightarrow> 'c stream_map" where
  "on_streams_blocked_frame_lost bidi max_streams m =
     (if max_streams = peer_max_streams bidi (sm_cc m)
      then sm_update_streams_blocked_at bidi (Some max_streams) m else m)"

definition update_peer_stream_transport_params :: "stream_params \<Rightarrow> 'c stream_map \<Rightarrow> 'c stream_map" where
  "update_peer_stream_transport_params tp m =
     (let m = m\<lparr>sm_peer_params := tp\<rparr>;
          m = m\<lparr>sm_capacity := sc_update_capacity (sc_update_max_data (sp_max_data tp) (sm_capacity m))\<rparr>;
          m = m\<lparr>sm_cc := update_peer_max_streams True (sp_max_streams_bidi tp) (sm_cc m)\<rparr>
      in m\<lparr>sm_cc := update_peer_max_streams False (sp_max_streams_uni tp) (sm_cc m)\<rparr>)"

subsection \<open>Invariant\<close>

definition sp_ok :: "stream_params \<Rightarrow> bool" where
  "sp_ok tp \<longleftrightarrow> unat (sp_max_stream_data_bidi_local tp) < 2 ^ 62 \<and> unat (sp_max_stream_data_bidi_remote tp) < 2 ^ 62
     \<and> unat (sp_max_stream_data_uni tp) < 2 ^ 62"

text \<open>A stream in the map has an identifier that was opened, of its kind, and sound buffers.\<close>

definition entry_ok :: "bool \<Rightarrow> concurrency_control \<Rightarrow> u64 \<Rightarrow> 'c stream \<Rightarrow> bool" where
  "entry_ok srv c i s \<longleftrightarrow> i \<le> VINT_MAX \<and> st_ok s \<and> cc_used srv i c \<and> st_bidi s = is_bidi i \<and> st_local s = is_local i srv"

definition sm_ok :: "'c stream_map \<Rightarrow> bool" where
  "sm_ok m \<longleftrightarrow> cc_ok (sm_cc m) \<and> sc_ok (sm_capacity m) \<and> fc_recv_off (sm_flow m) \<le> fc_max_data (sm_flow m)
     \<and> sp_ok (sm_peer_params m) \<and> (\<forall>i s. sm_streams m i = Some s \<longrightarrow> entry_ok (sm_is_server m) (sm_cc m) i s)"

text \<open>An identifier whose stream has come and gone.\<close>

definition gone :: "u64 \<Rightarrow> 'c stream_map \<Rightarrow> bool" where
  "gone i m \<longleftrightarrow> sm_streams m i = None \<and> cc_used (sm_is_server m) i (sm_cc m)"

definition sm_kept :: "'c stream_map \<Rightarrow> 'c stream_map \<Rightarrow> bool" where
  "sm_kept m m' \<longleftrightarrow> sm_ok m' \<and> sm_is_server m' = sm_is_server m \<and> cc_kept (sm_cc m) (sm_cc m') \<and> (\<forall>i. gone i m \<longrightarrow> gone i m')"

lemma sm_kept_ok: "sm_kept m m' \<Longrightarrow> sm_ok m'"
  by (simp add: sm_kept_def)

lemma sm_kept_refl [simp]: "sm_kept m m \<longleftrightarrow> sm_ok m"
  by (auto simp: sm_kept_def sm_ok_def)

lemma sm_kept_trans [trans]: "sm_kept a b \<Longrightarrow> sm_kept b c \<Longrightarrow> sm_kept a c"
  unfolding sm_kept_def using cc_kept_trans by auto

lemma sm_ok_entry: "sm_ok m \<Longrightarrow> sm_streams m i = Some s \<Longrightarrow> entry_ok (sm_is_server m) (sm_cc m) i s"
  by (simp add: sm_ok_def)

lemma sm_kept_fields:
  assumes "sm_ok m" and "sm_streams m' = sm_streams m" and "sm_cc m' = sm_cc m" and "sm_is_server m' = sm_is_server m"
    and "sm_peer_params m' = sm_peer_params m" and "sc_ok (sm_capacity m')" and "fc_recv_off (sm_flow m') \<le> fc_max_data (sm_flow m')"
  shows "sm_kept m m'"
  using assms by (auto simp: sm_kept_def sm_ok_def gone_def)

lemma sm_kept_cc:
  assumes "sm_ok m" and "cc_kept (sm_cc m) c"
  shows "sm_kept m (m\<lparr>sm_cc := c\<rparr>)"
  using assms by (auto simp: sm_kept_def sm_ok_def gone_def entry_ok_def cc_kept_def)

lemma sm_kept_put:
  assumes "sm_ok m" and "sm_streams m i = Some s0" and "st_ok s" and "st_bidi s = st_bidi s0" and "st_local s = st_local s0"
  shows "sm_kept m (put_stream i s m)"
  using assms by (auto simp: sm_kept_def sm_ok_def gone_def entry_ok_def put_stream_def)

lemma sm_kept_destroy: "sm_ok m \<Longrightarrow> sm_kept m (stream_destroy i m)"
  by (auto simp: sm_kept_def sm_ok_def gone_def stream_destroy_def)

text \<open>The rules below are applied from the outside in: the last change first.\<close>

lemma sm_kept_then: "sm_kept m0 m \<Longrightarrow> (sm_ok m \<Longrightarrow> sm_kept m m') \<Longrightarrow> sm_kept m0 m'"
  using sm_kept_trans sm_kept_ok by blast

lemma sm_kept_marks [intro]:
  assumes "sm_kept m0 m"
  shows "sm_kept m0 (mark_readable i b m)" "sm_kept m0 (mark_writable i b m)" "sm_kept m0 (mark_almost_full i b m)"
    "sm_kept m0 (mark_blocked i b off m)" "sm_kept m0 (mark_reset i b e f m)" "sm_kept m0 (mark_stopped i b e m)"
    "sm_kept m0 (push_sendable i u inc m)" "sm_kept m0 (remove_sendable m)" "sm_kept m0 (m\<lparr>sm_rx_almost_full := b\<rparr>)"
    "sm_kept m0 (m\<lparr>sm_events := q\<rparr>)" "sm_kept m0 (update_data_blocked_at x m)" "sm_kept m0 (m\<lparr>sm_sendable := sq\<rparr>)"
    "sm_kept m0 (m\<lparr>sm_next_bidi := nb\<rparr>)" "sm_kept m0 (m\<lparr>sm_next_uni := nb\<rparr>)"
  by (rule sm_kept_then [OF assms], rule sm_kept_fields; simp add: sm_ok_def mark_readable_def mark_writable_def
      mark_almost_full_def mark_blocked_def mark_reset_def mark_stopped_def push_sendable_def remove_sendable_def
      update_data_blocked_at_def sc_ok_update(3))+

lemma sm_kept_if [intro]: "(P \<Longrightarrow> sm_kept m0 a) \<Longrightarrow> (\<not> P \<Longrightarrow> sm_kept m0 b) \<Longrightarrow> sm_kept m0 (if P then a else b)"
  by simp

lemma sm_kept_destroy' [intro]: "sm_kept m0 m \<Longrightarrow> sm_kept m0 (stream_destroy i m)"
  using sm_kept_then sm_kept_destroy by blast

lemma sm_kept_closed [intro]:
  assumes "sm_kept m0 m"
  shows "sm_kept m0 (mark_closed i loc m)"
proof (cases "sm_is_closed i m")
  case False
  define m1 where "m1 = (if \<not> loc then m\<lparr>sm_cc := increase_max_streams_credits (is_bidi i) 1 (sm_cc m)\<rparr> else m)"
  have "cc_ok (sm_cc m)" using sm_kept_ok [OF assms] by (simp add: sm_ok_def)
  then have k1: "sm_kept m0 m1"
    using sm_kept_then [OF assms] assms by (simp add: m1_def sm_kept_cc cc_kept_credits)
  define m2 where "m2 = mark_writable i False (mark_readable i False m1)"
  have k2: "sm_kept m0 m2" unfolding m2_def using k1 by (intro sm_kept_marks)
  define m3 where "m3 = (case sm_streams m2 i of Some s \<Rightarrow> put_stream i (st_mark_closed s) m2 | None \<Rightarrow> m2)"
  have k3: "sm_kept m0 m3"
  proof (cases "sm_streams m2 i")
    case (Some s)
    then have "sm_kept m2 m3" using sm_kept_ok [OF k2] sm_ok_entry [OF sm_kept_ok [OF k2] Some]
      by (simp add: m3_def sm_kept_put entry_ok_def st_mark_closed_def st_ok_def)
    then show ?thesis using k2 by (rule sm_kept_trans [rotated])
  qed (use k2 in \<open>simp add: m3_def\<close>)
  obtain a q where q: "events_add (EvStreamClosed i) (sm_events m3) = (a, q)" by fastforce
  have "mark_closed i loc m = (if a then m3\<lparr>sm_events := q\<rparr> else stream_destroy i (m3\<lparr>sm_events := q\<rparr>))"
    using False q unfolding mark_closed_def Let_def m3_def m2_def m1_def by simp
  then show ?thesis using k3 by auto
qed (use assms in \<open>simp add: mark_closed_def\<close>)

lemma admit_stream_fields [simp]:
  "sm_streams (admit_stream i s m) = (sm_streams m)(i \<mapsto> s)" "sm_is_server (admit_stream i s m) = sm_is_server m"
  "sm_cc (admit_stream i s m) = remove_avail_id i (sm_is_server m) (sm_cc m)"
  "sm_peer_params (admit_stream i s m) = sm_peer_params m" "sm_capacity (admit_stream i s m) = sm_capacity m"
  "sm_flow (admit_stream i s m) = sm_flow m" "sm_sendable (admit_stream i s m) = sm_sendable m"
  by (simp_all add: admit_stream_def Let_def put_stream_def mark_writable_def)

lemma create_stream_spec:
  assumes ok: "sm_ok m" and none: "sm_streams m i = None" and v: "i \<le> VINT_MAX" and r: "create_stream i loc m = (r, m')"
  shows "sm_kept m m'" and "r \<noteq> Panic" and "sm_flow m' = sm_flow m" and "sm_capacity m' = sm_capacity m"
    and "sm_sendable m' = sm_sendable m" and "r = Ok s \<Longrightarrow> sm_streams m' = (sm_streams m)(i \<mapsto> s) \<and> \<not> st_is_sendable s"
    and "r = Err e \<Longrightarrow> sm_streams m' = sm_streams m"
    and "gone i m \<Longrightarrow> r = Err Done"
    and "r = Ok s \<Longrightarrow> entry_ok (sm_is_server m') (sm_cc m') i s"
proof -
  let ?srv = "sm_is_server m" and ?c = "check_concurrency_limits i (sm_is_server m) (sm_cc m)"
  have cc: "cc_ok (sm_cc m)" and sp: "sp_ok (sm_peer_params m)" using ok by (simp_all add: sm_ok_def)
  have closed: "sm_is_closed i m \<longleftrightarrow> cc_used ?srv i (sm_cc m)" using none by (simp add: sm_is_closed_def cc_used_def)
  have all: "sm_kept m m' \<and> r \<noteq> Panic \<and> sm_flow m' = sm_flow m \<and> sm_capacity m' = sm_capacity m \<and> sm_sendable m' = sm_sendable m
    \<and> (\<forall>s. r = Ok s \<longrightarrow> sm_streams m' = (sm_streams m)(i \<mapsto> s) \<and> \<not> st_is_sendable s \<and> entry_ok (sm_is_server m') (sm_cc m') i s)
    \<and> ((\<exists>e. r = Err e) \<longrightarrow> sm_streams m' = sm_streams m) \<and> (gone i m \<longrightarrow> r = Err Done)"
  proof (cases "sm_is_closed i m \<or> loc \<noteq> is_local i ?srv")
    case True
    then show ?thesis using r ok closed by (auto simp: create_stream_def gone_def split: if_splits)
  next
    case False
    then have nu: "\<not> cc_used ?srv i (sm_cc m)" and loc: "loc = is_local i ?srv" using closed by auto
    show ?thesis
    proof (cases "is_limited i ?srv (sm_cc m)")
      case True
      then obtain c where c: "?c = (Err StreamLimitError, c)" "cc_kept (sm_cc m) c"
        using check_limits_Err_iff [OF cc, of i ?srv] by (cases ?c) auto
      then have "r = Err StreamLimitError" "m' = m\<lparr>sm_cc := c\<rparr>"
        using r False by (auto simp: create_stream_def Let_def split: prod.splits)
      then show ?thesis using sm_kept_cc [OF ok c(2)] nu by (simp add: gone_def)
    next
      case nl: False
      then obtain c where c: "?c = (Ok (), c)" using check_limits_Err_iff(1) [OF cc, of i ?srv] by (cases ?c) auto
      note op = open_stream_kept [OF cc c]
      define mrx where "mrx = fst (max_stream_data_limit loc (is_bidi i) (sm_local_params m) (sm_peer_params m))"
      define mtx where "mtx = snd (max_stream_data_limit loc (is_bidi i) (sm_local_params m) (sm_peer_params m))"
      define s where "s = (st_new (is_bidi i) loc mtx mrx (sm_max_stream_window m) :: 'a stream)"
      have "unat mtx < 2 ^ 62" using sp by (cases loc; cases "is_bidi i"; simp add: mtx_def sp_ok_def)
      then have s: "st_ok s" "st_bidi s = is_bidi i" "st_local s = is_local i ?srv" "\<not> st_is_sendable s"
        using st_ok_new loc by (simp_all add: s_def) (simp_all add: st_new_def st_is_sendable_def sd_ready_def sd_new_def)
      define m1 where "m1 = m\<lparr>sm_cc := remove_avail_id i ?srv c\<rparr>"
      have k1: "sm_kept m m1" unfolding m1_def by (rule sm_kept_cc [OF ok]) (use op in simp)
      have r': "r = Ok s" "sm_streams m' = (sm_streams m)(i \<mapsto> s)" "sm_cc m' = sm_cc m1" "sm_is_server m' = ?srv"
        "sm_peer_params m' = sm_peer_params m" "sm_capacity m' = sm_capacity m" "sm_flow m' = sm_flow m" "sm_sendable m' = sm_sendable m"
      proof -
        have "create_stream i loc m = (Ok s, admit_stream i s (m\<lparr>sm_cc := c\<rparr>))"
          using False c unfolding create_stream_def Let_def s_def mtx_def mrx_def by (simp add: case_prod_beta)
        then have rr: "r = Ok s" "m' = admit_stream i s (m\<lparr>sm_cc := c\<rparr>)" using r by auto
        show "r = Ok s" by (rule rr(1))
        show "sm_streams m' = (sm_streams m)(i \<mapsto> s)" "sm_cc m' = sm_cc m1" "sm_is_server m' = ?srv"
          "sm_peer_params m' = sm_peer_params m" "sm_capacity m' = sm_capacity m" "sm_flow m' = sm_flow m"
          "sm_sendable m' = sm_sendable m" unfolding rr(2) m1_def by simp_all
      qed
      have e: "entry_ok ?srv (sm_cc m1) i s" using s op v by (simp add: entry_ok_def m1_def)
      have "sm_ok m'" using sm_kept_ok [OF k1] r'(2-8) e by (auto simp: sm_ok_def m1_def)
      moreover have "gone j m'" if "gone j m" for j
        using that k1 r' nu by (auto simp: gone_def sm_kept_def m1_def)
      ultimately have "sm_kept m m'" using k1 r' by (simp add: sm_kept_def)
      then show ?thesis using r' s(4) nu e by (auto simp: gone_def)
    qed
  qed
  then show "sm_kept m m'" "r \<noteq> Panic" "sm_flow m' = sm_flow m" "sm_capacity m' = sm_capacity m" "sm_sendable m' = sm_sendable m"
    "r = Ok s \<Longrightarrow> sm_streams m' = (sm_streams m)(i \<mapsto> s) \<and> \<not> st_is_sendable s" "r = Err e \<Longrightarrow> sm_streams m' = sm_streams m"
    "gone i m \<Longrightarrow> r = Err Done" "r = Ok s \<Longrightarrow> entry_ok (sm_is_server m') (sm_cc m') i s" by blast+
qed

lemma get_or_create_spec:
  assumes ok: "sm_ok m" and r: "get_or_create i loc m = (r, m')"
  shows "sm_kept m m'" and "r \<noteq> Panic" and "sm_flow m' = sm_flow m" and "sm_capacity m' = sm_capacity m"
    and "sm_sendable m' = sm_sendable m" and "r = Ok s \<Longrightarrow> sm_streams m' = (sm_streams m)(i \<mapsto> s)"
    and "r = Err e \<Longrightarrow> sm_streams m' = sm_streams m" and "gone i m \<Longrightarrow> i \<le> VINT_MAX \<Longrightarrow> r = Err Done"
    and "r = Ok s \<Longrightarrow> entry_ok (sm_is_server m') (sm_cc m') i s"
    and "r = Ok s \<Longrightarrow> st_is_sendable s \<Longrightarrow> sm_streams m i = Some s"
proof -
  have "sm_kept m m' \<and> r \<noteq> Panic \<and> sm_flow m' = sm_flow m \<and> sm_capacity m' = sm_capacity m \<and> sm_sendable m' = sm_sendable m
    \<and> (\<forall>s. r = Ok s \<longrightarrow> sm_streams m' = (sm_streams m)(i \<mapsto> s) \<and> entry_ok (sm_is_server m') (sm_cc m') i s
         \<and> (st_is_sendable s \<longrightarrow> sm_streams m i = Some s))
    \<and> ((\<exists>e. r = Err e) \<longrightarrow> sm_streams m' = sm_streams m) \<and> (gone i m \<longrightarrow> i \<le> VINT_MAX \<longrightarrow> r = Err Done)"
  proof (cases "VINT_MAX < i")
    case True
    then show ?thesis using ok r by (auto simp: get_or_create_def)
  next
    case le: False
    show ?thesis
    proof (cases "sm_streams m i")
      case (Some s)
      then have "r = Ok s" "m' = m" using r le by (auto simp: get_or_create_def)
      then show ?thesis using ok Some sm_ok_entry [OF ok Some] by (auto simp: gone_def)
    next
      case None
      then have "create_stream i loc m = (r, m')" using r le by (simp add: get_or_create_def)
      from create_stream_spec [OF ok None _ this] le show ?thesis by auto
    qed
  qed
  then show "sm_kept m m'" "r \<noteq> Panic" "sm_flow m' = sm_flow m" "sm_capacity m' = sm_capacity m" "sm_sendable m' = sm_sendable m"
    "r = Ok s \<Longrightarrow> sm_streams m' = (sm_streams m)(i \<mapsto> s)" "r = Err e \<Longrightarrow> sm_streams m' = sm_streams m"
    "gone i m \<Longrightarrow> i \<le> VINT_MAX \<Longrightarrow> r = Err Done" "r = Ok s \<Longrightarrow> entry_ok (sm_is_server m') (sm_cc m') i s"
    "r = Ok s \<Longrightarrow> st_is_sendable s \<Longrightarrow> sm_streams m i = Some s" by blast+
qed

subsection \<open>Every operation keeps the invariant\<close>

lemma sm_kept_put' [intro]:
  assumes "sm_kept m0 m" and "sm_streams m i = Some s0" and "st_ok s" and "st_bidi s = st_bidi s0" and "st_local s = st_local s0"
  shows "sm_kept m0 (put_stream i s m)"
  using sm_kept_then [OF assms(1)] sm_kept_put assms(2-5) by blast

lemma sm_kept_consume [intro]:
  assumes "sm_kept m0 m"
  shows "sm_kept m0 (consume_rx n m)"
proof (rule sm_kept_then [OF assms])
  assume "sm_ok m"
  then show "sm_kept m (consume_rx n m)"
    by (intro sm_kept_fields) (auto simp: sm_ok_def consume_rx_def increase_read_off_def Let_def)
qed

lemma word_le_diff_add:
  fixes a b d :: u64
  assumes "a \<le> b" and "d \<le> b - a"
  shows "a + d \<le> b"
proof -
  have "unat a + unat d \<le> unat b" using assms by (simp add: word_le_nat_alt unat_sub)
  then show ?thesis using unat_u64_bound [of b] by (simp add: word_le_nat_alt unat_add_small)
qed

lemma sm_kept_recv_off:
  assumes "sm_kept m0 m" and "d \<le> max_rx_data_left m"
  shows "sm_kept m0 (m\<lparr>sm_flow := increase_recv_off d (sm_flow m)\<rparr>)"
proof (rule sm_kept_then [OF assms(1)])
  assume "sm_ok m"
  then show "sm_kept m (m\<lparr>sm_flow := increase_recv_off d (sm_flow m)\<rparr>)"
    using assms(2) word_le_diff_add
    by (intro sm_kept_fields) (auto simp: sm_ok_def increase_recv_off_def max_rx_data_left_def)
qed

lemma sm_kept_give_back [intro]:
  assumes "sm_kept m0 m"
  shows "sm_kept m0 (give_back_tx n m)"
proof (rule sm_kept_then [OF assms])
  assume ok: "sm_ok m"
  have "saturating_sub x n \<le> x" for x :: u64 by (simp add: word_le_nat_alt unat_saturating_sub)
  moreover have "sc_tx_data (sm_capacity m) \<le> sc_max_data (sm_capacity m)" using ok by (simp add: sm_ok_def sc_ok_def)
  ultimately have "saturating_sub (sc_tx_data (sm_capacity m)) n \<le> sc_max_data (sm_capacity m)" by (rule order_trans)
  then show "sm_kept m (give_back_tx n m)"
    using ok by (intro sm_kept_fields) (auto simp: sm_ok_def give_back_tx_def sc_ok_update(2) Let_def)
qed

lemma sm_kept_spend:
  assumes "sm_kept m0 m" and "n \<le> sc_capacity (sm_capacity m)"
  shows "sm_kept m0 (spend_tx n m)"
proof (rule sm_kept_then [OF assms(1)])
  assume ok: "sm_ok m"
  then show "sm_kept m (spend_tx n m)"
    using assms(2) by (intro sm_kept_fields) (auto simp: sm_ok_def spend_tx_def sc_ok_spent Let_def)
qed

lemma stream_set_priority_kept:
  assumes ok: "sm_ok m" and r: "stream_set_priority i u inc m = (r, m')"
  shows "sm_kept m m' \<and> r \<noteq> Panic"
proof -
  obtain g m1 where g: "get_or_create i True m = (g, m1)" by fastforce
  note gs = get_or_create_spec [OF ok g]
  show ?thesis
  proof (cases g)
    case (Ok s)
    have "sm_kept m (put_stream i (s\<lparr>st_urgency := u, st_incremental := inc\<rparr>) m1)"
      using gs(6,9) [OF Ok] by (intro sm_kept_put' [OF gs(1)]) (auto simp: entry_ok_def st_ok_def)
    then show ?thesis using r g Ok gs(1) by (auto simp: stream_set_priority_def split: if_splits)
  qed (use r g gs(1,2) in \<open>auto simp: stream_set_priority_def split: if_splits\<close>)
qed

lemma stream_new_kept:
  assumes "sm_ok m"
  shows "stream_bidi_new u inc m = (r, m') \<Longrightarrow> sm_kept m m' \<and> r \<noteq> Panic"
    and "stream_uni_new u inc m = (r, m') \<Longrightarrow> sm_kept m m' \<and> r \<noteq> Panic"
  using stream_set_priority_kept [OF assms]
  by (fastforce simp: stream_bidi_new_def stream_uni_new_def Let_def bind_s_def split: prod.splits result.splits)+

lemma stream_set_context_kept:
  assumes ok: "sm_ok m" and r: "stream_set_context i ctx m = (r, m')"
  shows "sm_kept m m' \<and> r \<noteq> Panic"
proof -
  obtain g m1 where g: "get_or_create i True m = (g, m1)" by fastforce
  note gs = get_or_create_spec [OF ok g]
  show ?thesis
  proof (cases g)
    case (Ok s)
    have "sm_kept m (put_stream i (s\<lparr>st_context := Some ctx\<rparr>) m1)"
      using gs(6,9) [OF Ok] by (intro sm_kept_put' [OF gs(1)]) (auto simp: entry_ok_def st_ok_def)
    then show ?thesis using r g Ok by (auto simp: stream_set_context_def)
  qed (use r g gs(1,2) in \<open>auto simp: stream_set_context_def split: if_splits\<close>)
qed

lemma want_write_kept [intro]:
  assumes "sm_kept m0 m"
  shows "sm_kept m0 (snd (want_write i b m))" and "sm_kept m0 (snd (want_read i b m))"
proof -
  have "sm_kept m (snd (want_write i b m)) \<and> sm_kept m (snd (want_read i b m))"
  proof (cases "sm_streams m i")
    case (Some s)
    have "st_ok s" using sm_ok_entry [OF sm_kept_ok [OF assms] Some] by (simp add: entry_ok_def)
    then show ?thesis using Some sm_kept_ok [OF assms]
      by (auto simp: want_write_def want_read_def st_mark_wantwrite_def st_mark_wantread_def st_ok_def intro!: sm_kept_put)
  qed (use sm_kept_ok [OF assms] in \<open>simp add: want_write_def want_read_def\<close>)
  then show "sm_kept m0 (snd (want_write i b m))" "sm_kept m0 (snd (want_read i b m))"
    using sm_kept_trans [OF assms] by blast+
qed

lemma stream_read_kept:
  assumes ok: "sm_ok m" and r: "stream_read i cap m = (r, m')"
  shows "sm_kept m m' \<and> r \<noteq> Panic"
proof (cases "sm_streams m i")
  case (Some s)
  obtain q rv where rd: "rv_read cap (st_recv s) = (q, rv)" by fastforce
  have s: "st_ok s" using sm_ok_entry [OF ok Some] by (simp add: entry_ok_def)
  then have rv: "rv_ok rv" "q \<noteq> Panic" using rv_ok_read [OF _ rd] by (simp_all add: st_ok_def)
  have k: "sm_kept m (put_stream i (s\<lparr>st_recv := rv\<rparr>) m)"
    using ok Some s rv(1) by (intro sm_kept_put) (auto simp: st_ok_def)
  show ?thesis
  proof (cases "\<not> is_bidi i \<and> is_local i (sm_is_server m) \<or> \<not> st_is_readable s")
    case True
    then show ?thesis using r ok Some by (auto simp: stream_read_def split: if_splits)
  next
    case False
    show ?thesis
    proof (cases q)
      case (Ok p)
      show ?thesis using r Some False rd Ok
        by (cases p) (auto simp: stream_read_def Let_def intro!: sm_kept_closed sm_kept_marks sm_kept_consume k)
    next
      case (Err e)
      show ?thesis using r Some False rd Err
        by (auto simp: stream_read_def Let_def intro!: sm_kept_closed sm_kept_marks k)
    qed (use rv(2) in simp)
  qed
qed (use r ok in \<open>auto simp: stream_read_def split: if_splits\<close>)

lemma note_blocked_kept:
  assumes "sm_kept m0 m" and "sm_streams m i = Some s" and "st_ok s"
  shows "sm_kept m0 (note_blocked i short s m)" and "sm_capacity (note_blocked i short s m) = sm_capacity m"
proof -
  have "st_ok (s\<lparr>st_send := sd_update_blocked_at b (st_send s)\<rparr>)" for b
    using assms(3) sd_inv_fields(2) by (auto simp: st_ok_def)
  then show "sm_kept m0 (note_blocked i short s m)"
    using assms by (auto simp: note_blocked_def Let_def intro!: sm_kept_marks)
  show "sm_capacity (note_blocked i short s m) = sm_capacity m"
    by (simp add: note_blocked_def mark_blocked_def put_stream_def Let_def)
qed

lemma stream_write_some_kept:
  assumes k: "sm_kept m0 m" and s: "sm_streams m i = Some s" and n: "length buf < 2 ^ 62" "length buf \<le> sc_capacity (sm_capacity m)"
    and r: "stream_write_some i buf fin blocked ew s m = (r, m')"
  shows "sm_kept m0 m' \<and> r \<noteq> Panic"
proof -
  have ok: "st_ok s" using sm_ok_entry [OF sm_kept_ok [OF k] s] by (simp add: entry_ok_def)
  obtain q sd where w: "sd_write buf fin (st_send s) = (q, sd)" by fastforce
  have inv: "sd_inv (st_send s)" using ok by (simp add: st_ok_def)
  note ws = sd_inv_write [OF inv n(1) w]
  define s1 where "s1 = s\<lparr>st_send := sd\<rparr>"
  have s1: "st_ok s1" "st_bidi s1 = st_bidi s" "st_local s1 = st_local s" using ok ws(1) by (simp_all add: s1_def st_ok_def)
  have k1: "sm_kept m0 (put_stream i s1 m)" by (rule sm_kept_put' [OF k s]) (use s1 in auto)
  show ?thesis
  proof (cases q)
    case (Ok n')
    have le: "n' \<le> sc_capacity (sm_capacity m)" using ws(3) [OF Ok] n(2) by simp
    define m2 where "m2 = note_blocked i (n' < length buf) s1 (put_stream i s1 m)"
    have k2: "sm_kept m0 m2" "sm_capacity m2 = sm_capacity m"
      using note_blocked_kept [OF k1, of i s1] s1(1) by (simp_all add: m2_def put_stream_def)
    define m3 where "m3 = (if (st_is_sendable s1 \<or> length buf = 0 \<and> fin) \<and> \<not> st_is_sendable s
        then push_sendable i (st_urgency s1) (st_incremental s1) m2 else m2)"
    define m4 where "m4 = (if \<not> st_is_writable s1 then mark_writable i False m3
        else if st_is_writable s \<and> blocked then mark_writable i True m3 else m3)"
    have k4: "sm_kept m0 m4" unfolding m4_def m3_def using k2(1) by (intro sm_kept_if sm_kept_marks)
    have "sm_capacity m4 = sm_capacity m" using k2(2) by (simp add: m4_def m3_def push_sendable_def mark_writable_def)
    then have k5: "sm_kept m0 (spend_tx n' m4)" using sm_kept_spend [OF k4] le by simp
    have "m' = (if n' < ew then snd (want_write i True (spend_tx n' m4)) else spend_tx n' m4) \<and> r \<noteq> Panic"
      using r w Ok unfolding stream_write_some_def Let_def m4_def m3_def m2_def s1_def by (auto split: if_splits)
    then show ?thesis using k5 want_write_kept(1) by auto
  next
    case (Err e)
    then have "m' = mark_writable i False (put_stream i s1 m) \<and> r \<noteq> Panic"
      using r w unfolding stream_write_some_def Let_def s1_def by auto
    then show ?thesis using k1 by auto
  qed (use ws(2) in simp)
qed

lemma stream_write_kept:
  assumes ok: "sm_ok m" and n: "length buf < 2 ^ 62" and r: "stream_write i buf fin m = (r, m')"
  shows "sm_kept m m' \<and> r \<noteq> Panic"
proof (cases "\<not> is_bidi i \<and> \<not> is_local i (sm_is_server m)")
  case True
  then show ?thesis using r ok by (auto simp: stream_write_def)
next
  case False
  define m1 where "m1 = (if max_tx_data_left m < as_u64 (length buf)
      then update_data_blocked_at (Some (sc_max_data (sm_capacity m))) m else m)"
  have k1: "sm_kept m m1" unfolding m1_def using ok by (intro sm_kept_if sm_kept_marks) simp_all
  have cap: "sc_capacity (sm_capacity m1) = sc_capacity (sm_capacity m)"
    by (simp add: m1_def update_data_blocked_at_def sc_update_blocked_at_def)
  obtain g m2 where g: "get_or_create i True m1 = (g, m2)" by fastforce
  note gs = get_or_create_spec [OF sm_kept_ok [OF k1] g]
  have k2: "sm_kept m m2" by (rule sm_kept_trans [OF k1 gs(1)])
  have eq: "stream_write i buf fin m = bind_s (get_or_create i True) (\<lambda>s m2.
        if sc_capacity (sm_capacity m1) = 0 \<and> buf \<noteq> [] then
          (Err Done, snd (want_write i True (if st_is_writable s then mark_writable i True m2 else m2)))
        else if sc_capacity (sm_capacity m1) < length buf
        then stream_write_some i (take (sc_capacity (sm_capacity m1)) buf) False True (length buf) s m2
        else stream_write_some i buf fin False (length buf) s m2) m1"
    unfolding stream_write_def m1_def Let_def by (rule if_not_P [OF False])
  show ?thesis
  proof (cases g)
    case (Ok s)
    have s: "sm_streams m2 i = Some s" using gs(6) [OF Ok] by simp
    have c2: "sm_capacity m2 = sm_capacity m1" by (rule gs(4))
    consider (zero) "sc_capacity (sm_capacity m1) = 0 \<and> buf \<noteq> []"
      | (part) "\<not> (sc_capacity (sm_capacity m1) = 0 \<and> buf \<noteq> [])" "sc_capacity (sm_capacity m1) < length buf"
      | (whole) "\<not> (sc_capacity (sm_capacity m1) = 0 \<and> buf \<noteq> [])" "\<not> sc_capacity (sm_capacity m1) < length buf" by blast
    then show ?thesis
    proof cases
      case zero
      then have "r = Err Done" "m' = snd (want_write i True (if st_is_writable s then mark_writable i True m2 else m2))"
        using r eq g Ok by (auto simp: bind_s_def)
      then show ?thesis using want_write_kept(1) [of m] sm_kept_marks(2) [OF k2] k2 by simp
    next
      case part
      then have "stream_write_some i (take (sc_capacity (sm_capacity m1)) buf) False True (length buf) s m2 = (r, m')"
        using r eq g Ok by (auto simp: bind_s_def)
      then show ?thesis by (rule stream_write_some_kept [OF k2 s, rotated 2]) (use n part c2 in auto)
    next
      case whole
      then have "stream_write_some i buf fin False (length buf) s m2 = (r, m')" using r eq g Ok by (auto simp: bind_s_def)
      then show ?thesis by (rule stream_write_some_kept [OF k2 s, rotated 2]) (use n whole c2 in auto)
    qed
  qed (use r eq g gs(2) k2 in \<open>auto simp: bind_s_def\<close>)
qed

lemma stream_shutdown_kept:
  assumes ok: "sm_ok m" and r: "stream_shutdown i d err m = (r, m')"
  shows "sm_kept m m' \<and> r \<noteq> Panic"
proof (cases "sm_streams m i")
  case (Some s)
  have s: "st_ok s" using sm_ok_entry [OF ok Some] by (simp add: entry_ok_def)
  show ?thesis
  proof (cases d)
    case ShutdownRead
    obtain q rv where q: "rv_shut (st_recv s) = (q, rv)" by fastforce
    have "rv_ok rv \<and> q \<noteq> Panic"
      using q s rv_shut_spec [of "st_recv s"] by (auto simp: rv_shut_def st_ok_def split: if_splits)
    then have k: "sm_kept m (put_stream i (s\<lparr>st_recv := rv\<rparr>) m)" "q \<noteq> Panic"
      using ok Some s by (auto simp: st_ok_def intro!: sm_kept_put)
    then show ?thesis using r Some ShutdownRead q ok
      by (cases q) (auto simp: stream_shutdown_def stream_shutdown_read_def Let_def split: if_splits
          intro!: sm_kept_consume sm_kept_marks)
  next
    case ShutdownWrite
    obtain q sd where q: "sd_shut (st_send s) = (q, sd)" by fastforce
    then have "sd_inv sd \<and> q \<noteq> Panic" using s sd_inv_shut [of "st_send s"] by (auto simp: st_ok_def)
    then have k: "sm_kept m (put_stream i (s\<lparr>st_send := sd\<rparr>) m)" "q \<noteq> Panic"
      using ok Some s by (auto simp: st_ok_def intro!: sm_kept_put)
    then show ?thesis using r Some ShutdownWrite q ok
      by (cases q) (auto simp: stream_shutdown_def stream_shutdown_write_def Let_def split: if_splits prod.splits
          intro!: sm_kept_give_back sm_kept_marks)
  qed
qed (use r ok in \<open>auto simp: stream_shutdown_def\<close>)

lemma stream_writable_eq:
  fixes m :: "'c stream_map" and len :: nat
  assumes "sm_streams m i = Some s"
  defines "m1 \<equiv> if max_tx_data_left m < as_u64 len then update_data_blocked_at (Some (sc_max_data (sm_capacity m))) m else m"
  defines "s' \<equiv> s\<lparr>st_write_thresh := max 1 len\<rparr>"
  defines "s2 \<equiv> s'\<lparr>st_send := sd_update_blocked_at (Some (sd_max_data (st_send s'))) (st_send s')\<rparr>"
  shows "stream_writable i len m = bind_s (lift_s (stream_capacity i)) (\<lambda>c _.
      if len \<le> c then (Ok True, m)
      else bind_s (lift_s (\<lambda>_. sd_capacity (st_send s'))) (\<lambda>c m2.
        if c < len then
          (Ok False, if sd_blocked_at (st_send s') \<noteq> Some (sd_max_data (st_send s'))
             then mark_blocked i True (sd_max_data (st_send s')) (put_stream i s2 m2) else m2)
        else (Ok False, if st_is_writable s' then mark_writable i True m2 else m2)) (put_stream i s' m1)) m"
proof -
  have "sm_streams m1 i = Some s" using assms(1) by (simp add: m1_def update_data_blocked_at_def)
  then show ?thesis unfolding stream_writable_def s2_def s'_def m1_def Let_def bind_s_def lift_s_def
    by (cases "stream_capacity i m") auto
qed

lemma stream_writable_kept:
  assumes ok: "sm_ok m" and r: "stream_writable i len m = (r, m')"
  shows "sm_kept m m' \<and> r \<noteq> Panic"
proof (cases "sm_streams m i")
  case (Some s)
  have s: "st_ok s" using sm_ok_entry [OF ok Some] by (simp add: entry_ok_def)
  define m1 where "m1 = (if max_tx_data_left m < as_u64 len then update_data_blocked_at (Some (sc_max_data (sm_capacity m))) m else m)"
  have k1: "sm_kept m m1" unfolding m1_def using ok by (intro sm_kept_if sm_kept_marks) simp_all
  have s1: "sm_streams m1 i = Some s" using Some by (simp add: m1_def update_data_blocked_at_def)
  define s' where "s' = s\<lparr>st_write_thresh := max 1 len\<rparr>"
  define s2 where "s2 = s'\<lparr>st_send := sd_update_blocked_at (Some (sd_max_data (st_send s'))) (st_send s')\<rparr>"
  have ok': "st_ok s'" "st_ok s2" using s sd_inv_fields(2) by (auto simp: s'_def s2_def st_ok_def)
  have k2: "sm_kept m (put_stream i s' m1)"
    by (rule sm_kept_put' [OF k1 s1]) (use ok' in \<open>simp_all add: s'_def\<close>)
  have k3: "sm_kept m (put_stream i s2 (put_stream i s' m1))"
    by (rule sm_kept_put' [OF k2]) (use ok' in \<open>simp_all add: put_stream_def s2_def\<close>)
  have eq: "stream_writable i len m = bind_s (lift_s (stream_capacity i)) (\<lambda>c _.
      if len \<le> c then (Ok True, m)
      else bind_s (lift_s (\<lambda>_. sd_capacity (st_send s'))) (\<lambda>c m2.
        if c < len then
          (Ok False, if sd_blocked_at (st_send s') \<noteq> Some (sd_max_data (st_send s'))
             then mark_blocked i True (sd_max_data (st_send s')) (put_stream i s2 m2) else m2)
        else (Ok False, if st_is_writable s' then mark_writable i True m2 else m2)) (put_stream i s' m1)) m"
    unfolding s2_def s'_def m1_def by (rule stream_writable_eq [OF Some])
  show ?thesis
  proof (cases "sd_capacity (st_send s)")
    case (Ok c)
    then show ?thesis using r eq Some ok k2 k3
      by (auto simp: stream_capacity_def bind_s_def lift_s_def s'_def split: if_splits)
  next
    case (Err e)
    then show ?thesis using r eq Some ok by (auto simp: stream_capacity_def bind_s_def lift_s_def)
  qed (simp add: sd_capacity_def split: option.splits)
qed (use r ok in \<open>auto simp: stream_writable_def stream_capacity_def bind_s_def lift_s_def\<close>)

lemma on_max_data_kept: "sm_ok m \<Longrightarrow> sm_kept m (on_max_data_frame_received x m)"
  by (rule sm_kept_fields)
    (auto simp: sm_ok_def on_max_data_frame_received_def Let_def sc_ok_def sc_update_capacity_def sc_update_max_data_def max_def)

lemma on_max_stream_data_kept:
  assumes ok: "sm_ok m" and n: "unat max_data < 2 ^ 62" and r: "on_max_stream_data_frame_received i max_data m = (r, m')"
  shows "sm_kept m m' \<and> r \<noteq> Panic"
proof (cases "\<not> is_local i (sm_is_server m) \<and> \<not> is_bidi i")
  case True
  then show ?thesis using r ok by (auto simp: on_max_stream_data_frame_received_def)
next
  case False
  obtain g m1 where g: "get_or_create i False m = (g, m1)" by fastforce
  note gs = get_or_create_spec [OF ok g]
  show ?thesis
  proof (cases g)
    case (Ok s)
    define s' where "s' = s\<lparr>st_send := sd_update_max_data max_data (st_send s)\<rparr>"
    have s: "sm_streams m1 i = Some s" "st_ok s" using gs(6,9) [OF Ok] by (simp_all add: entry_ok_def)
    then have "st_ok s'" using sd_inv_fields(1) [OF _ n] by (simp add: s'_def st_ok_def)
    then have k: "sm_kept m (put_stream i s' m1)" by (intro sm_kept_put' [OF gs(1) s(1)]) (simp_all add: s'_def)
    have "r = Ok ()"
      "m' = (if st_is_writable s' then mark_writable i True (if st_is_sendable s' \<and> \<not> st_is_sendable s
               then push_sendable i (st_urgency s') (st_incremental s') (put_stream i s' m1) else put_stream i s' m1)
             else if st_is_sendable s' \<and> \<not> st_is_sendable s
               then push_sendable i (st_urgency s') (st_incremental s') (put_stream i s' m1) else put_stream i s' m1)"
      using r False g Ok unfolding on_max_stream_data_frame_received_def s'_def Let_def by auto
    then show ?thesis using k by (auto intro!: sm_kept_marks)
  qed (use r False g gs(1,2) in \<open>auto simp: on_max_stream_data_frame_received_def split: if_splits\<close>)
qed

lemma on_max_streams_kept:
  assumes "sm_ok m" and "on_max_streams_frame_received n bidi m = (r, m')"
  shows "sm_kept m m' \<and> r \<noteq> Panic"
  using assms by (auto simp: on_max_streams_frame_received_def sm_ok_def split: if_splits intro!: sm_kept_cc cc_kept_update_peer)

lemma reset_accepted_kept:
  assumes k: "sm_kept m0 m" and d: "d \<le> max_rx_data_left m"
  shows "sm_kept m0 (reset_accepted i was d f s m)"
proof -
  define m1 where "m1 = (if \<not> was \<and> st_is_readable s then mark_readable i True m else m)"
  define m2 where "m2 = (if st_is_complete s \<and> \<not> st_is_readable s then mark_closed i (st_local s) m1 else m1)"
  have "sm_kept m0 m2" unfolding m2_def m1_def using k by (intro sm_kept_if sm_kept_closed sm_kept_marks)
  moreover have "sm_flow m2 = sm_flow m"
    by (simp add: m2_def m1_def mark_closed_def mark_readable_def mark_writable_def put_stream_def stream_destroy_def Let_def
        split: option.split prod.split)
  ultimately have "sm_kept m0 (m2\<lparr>sm_flow := increase_recv_off d (sm_flow m2)\<rparr>)"
    using d by (intro sm_kept_recv_off) (simp_all add: max_rx_data_left_def)
  then show ?thesis unfolding reset_accepted_def Let_def m2_def m1_def by (rule sm_kept_consume)
qed

lemma on_reset_stream_kept:
  assumes ok: "sm_ok m" and r: "on_reset_stream_frame_received i e f m = (r, m')"
  shows "sm_kept m m' \<and> r \<noteq> Panic"
proof (cases "\<not> is_bidi i \<and> is_local i (sm_is_server m)")
  case True
  then show ?thesis using r ok by (auto simp: on_reset_stream_frame_received_def)
next
  case False
  obtain g m1 where g: "get_or_create i False m = (g, m1)" by fastforce
  note gs = get_or_create_spec [OF ok g]
  show ?thesis
  proof (cases g)
    case (Ok s)
    obtain q rv where q: "rv_reset e f (st_recv s) = (q, rv)" by fastforce
    define s' where "s' = s\<lparr>st_recv := rv\<rparr>"
    have s: "sm_streams m1 i = Some s" "st_ok s" using gs(6,9) [OF Ok] by (simp_all add: entry_ok_def)
    then have rv: "rv_ok rv" "q \<noteq> Panic" using rv_reset_spec(1,2) [OF _ q] by (auto simp: st_ok_def)
    have k: "sm_kept m (put_stream i s' m1)"
      by (rule sm_kept_put' [OF gs(1) s(1)]) (use s(2) rv in \<open>simp_all add: s'_def st_ok_def\<close>)
    have left: "max_rx_data_left (put_stream i s' m1) = max_rx_data_left m" using gs(3) by (simp add: max_rx_data_left_def put_stream_def)
    have eq: "on_reset_stream_frame_received i e f m =
      (case q of Err e \<Rightarrow> (Err e, put_stream i s' m1) | Panic \<Rightarrow> (Panic, put_stream i s' m1)
       | Ok delta \<Rightarrow> if max_rx_data_left m < as_u64 delta then (Err FlowControlError, put_stream i s' m1)
           else (Ok (), reset_accepted i (st_is_readable s) (as_u64 delta) (saturating_sub f (rv_read_off (st_recv s))) s' (put_stream i s' m1)))"
      using False g Ok q unfolding on_reset_stream_frame_received_def s'_def Let_def by auto
    show ?thesis
    proof (cases q)
      case (Ok delta)
      then show ?thesis using r eq k reset_accepted_kept [OF k] left by (auto split: if_splits)
    qed (use r eq k rv(2) in auto)
  qed (use r False g gs(1,2) in \<open>auto simp: on_reset_stream_frame_received_def Let_def split: if_splits\<close>)
qed

lemma on_stop_sending_kept:
  assumes ok: "sm_ok m" and r: "on_stop_sending_frame_received i e m = (r, m')"
  shows "sm_kept m m' \<and> r \<noteq> Panic"
proof (cases "\<not> is_local i (sm_is_server m) \<and> \<not> is_bidi i")
  case True
  then show ?thesis using r ok by (auto simp: on_stop_sending_frame_received_def)
next
  case False
  obtain g m1 where g: "get_or_create i False m = (g, m1)" by fastforce
  note gs = get_or_create_spec [OF ok g]
  show ?thesis
  proof (cases g)
    case (Ok s)
    obtain q sd where q: "sd_stop e (st_send s) = (q, sd)" by fastforce
    have s: "sm_streams m1 i = Some s" "st_ok s" using gs(6,9) [OF Ok] by (simp_all add: entry_ok_def)
    then have "sd_inv sd" using sd_inv_stop(1) [OF _ q] by (auto simp: st_ok_def)
    then have k: "sm_kept m (put_stream i (s\<lparr>st_send := sd\<rparr>) m1)"
      by (intro sm_kept_put' [OF gs(1) s(1)]) (use s(2) in \<open>simp_all add: st_ok_def\<close>)
    then show ?thesis using r False g Ok q
      by (cases q) (auto simp: on_stop_sending_frame_received_def Let_def split: prod.splits if_splits
          intro!: sm_kept_marks sm_kept_give_back)
  qed (use r False g gs(1,2) in \<open>auto simp: on_stop_sending_frame_received_def split: if_splits\<close>)
qed

lemma on_stream_frame_kept:
  assumes ok: "sm_ok m" and n: "unat offset + length data < 2 ^ 64"
    and r: "on_stream_frame_received i offset len fin data m = (r, m')"
  shows "sm_kept m m' \<and> r \<noteq> Panic"
proof (cases "is_local i (sm_is_server m) \<and> (\<not> is_bidi i \<or> sm_streams m i = None \<and> \<not> sm_is_closed i m)")
  case True
  then show ?thesis using r ok by (auto simp: on_stream_frame_received_def)
next
  case False
  obtain g m1 where g: "get_or_create i False m = (g, m1)" by fastforce
  note gs = get_or_create_spec [OF ok g]
  show ?thesis
  proof (cases g)
    case (Ok s)
    define d where "d = saturating_sub (offset + as_u64 len) (rv_recv_off (st_recv s))"
    obtain q rv where q: "rv_write offset data fin (st_recv s) = (q, rv)" by fastforce
    define s' where "s' = s\<lparr>st_recv := rv\<rparr>"
    define m2 where "m2 = (if \<not> st_is_readable s \<and> st_is_readable s' then mark_readable i True (put_stream i s' m1) else put_stream i s' m1)"
    have s: "sm_streams m1 i = Some s" "st_ok s" using gs(6,9) [OF Ok] by (simp_all add: entry_ok_def)
    then have ro: "rv_ok (st_recv s)" by (simp add: st_ok_def)
    have rv: "rv_ok rv \<and> q \<noteq> Panic"
    proof (cases q)
      case (Ok u)
      then show ?thesis using rv_write_OkD [OF ro n] q by (auto simp: wrote_def)
    next
      case (Err e)
      then show ?thesis using rv_write_ErrD(1) [OF ro n] q ro by auto
    next
      case Panic
      then show ?thesis using rv_write_spec(1) [OF ro n, of fin] unfolding q by (auto split: if_splits)
    qed
    have k1: "sm_kept m (put_stream i s' m1)"
      by (rule sm_kept_put' [OF gs(1) s(1)]) (use s(2) rv in \<open>simp_all add: s'_def st_ok_def\<close>)
    have k2: "sm_kept m m2" unfolding m2_def using k1 by (intro sm_kept_if sm_kept_marks)
    have left: "max_rx_data_left m2 = max_rx_data_left m"
      using gs(3) by (simp add: m2_def max_rx_data_left_def put_stream_def mark_readable_def)
    have eq: "on_stream_frame_received i offset len fin data m =
      (if max_rx_data_left m < d then (Err FlowControlError, m1)
       else case q of Err e \<Rightarrow> (Err e, put_stream i s' m1) | Panic \<Rightarrow> (Panic, put_stream i s' m1)
         | Ok _ \<Rightarrow> (Ok (), if st_is_draining s then consume_rx d (m2\<lparr>sm_flow := increase_recv_off d (sm_flow m2)\<rparr>)
                    else m2\<lparr>sm_flow := increase_recv_off d (sm_flow m2)\<rparr>))"
      using False g Ok q unfolding on_stream_frame_received_def m2_def s'_def d_def Let_def by auto
    show ?thesis
    proof (cases "max_rx_data_left m < d")
      case True
      then show ?thesis using r eq gs(1) by auto
    next
      case False
      then have "sm_kept m (m2\<lparr>sm_flow := increase_recv_off d (sm_flow m2)\<rparr>)" using sm_kept_recv_off [OF k2] left by simp
      then show ?thesis using r eq False k1 rv by (cases q) auto
    qed
  qed (use r False g gs(1,2) in \<open>auto simp: on_stream_frame_received_def Let_def split: if_splits\<close>)
qed

lemma close_if_complete_kept [intro]: "sm_kept m0 m \<Longrightarrow> sm_kept m0 (close_if_complete i s m)"
  by (auto simp: close_if_complete_def)

text \<open>Only what was sent is acknowledged or lost.\<close>

definition was_sent :: "u64 \<Rightarrow> u64 \<Rightarrow> nat \<Rightarrow> 'c stream_map \<Rightarrow> bool" where
  "was_sent i off len m \<longleftrightarrow> (\<forall>s. sm_streams m i = Some s \<longrightarrow> unat off + len \<le> unat (sd_unsent_off (st_send s)))"

lemma on_stream_acked_kept:
  assumes ok: "sm_ok m" and sent: "was_sent i off len m" and r: "on_stream_frame_acked i off len m = (r, m')"
  shows "sm_kept m m' \<and> r \<noteq> Panic"
proof (cases "sm_streams m i")
  case (Some s)
  have s: "st_ok s" using sm_ok_entry [OF ok Some] by (simp add: entry_ok_def)
  then obtain sd where a: "ack_and_drop off len (st_send s) = (Ok (), sd)" "sd_inv sd"
    using sd_inv_ack [of "st_send s" off len] sent Some by (auto simp: st_ok_def was_sent_def)
  then have "sm_kept m (put_stream i (s\<lparr>st_send := sd\<rparr>) m)"
    using ok Some s by (intro sm_kept_put) (auto simp: st_ok_def)
  then show ?thesis using r Some a by (auto simp: on_stream_frame_acked_def Let_def)
qed (use r ok in \<open>auto simp: on_stream_frame_acked_def\<close>)

lemma on_stream_lost_kept:
  assumes ok: "sm_ok m" and sent: "was_sent i off len m"
  shows "sm_kept m (on_stream_frame_lost i off len fin m)"
proof (cases "sm_streams m i")
  case (Some s)
  have s: "st_ok s" using sm_ok_entry [OF ok Some] by (simp add: entry_ok_def)
  then have "sd_inv (retransmit off len (st_send s))"
    using sd_inv_retransmit sent Some by (auto simp: st_ok_def was_sent_def)
  then have "sm_kept m (put_stream i (s\<lparr>st_send := retransmit off len (st_send s)\<rparr>) m)"
    using ok Some s by (intro sm_kept_put) (auto simp: st_ok_def)
  then show ?thesis using Some by (auto simp: on_stream_frame_lost_def Let_def intro!: sm_kept_marks)
qed (use ok in \<open>auto simp: on_stream_frame_lost_def\<close>)

lemma on_lost_kept:
  assumes ok: "sm_ok m"
  shows "sm_kept m (on_reset_stream_frame_lost i e f m)" "sm_kept m (on_stop_sending_frame_lost i e m)"
    "sm_kept m (on_max_stream_data_frame_lost i m)" "sm_kept m (on_max_data_frame_lost m)"
    "sm_kept m (on_stream_data_blocked_frame_lost i e m)" "sm_kept m (on_data_blocked_frame_lost e m)"
    "sm_kept m (on_streams_blocked_frame_lost b e m)" "sm_kept m (on_reset_stream_frame_acked i m)"
  using ok cc_kept_blocked
  by (auto simp: on_reset_stream_frame_lost_def on_stop_sending_frame_lost_def on_max_stream_data_frame_lost_def
      on_max_data_frame_lost_def on_stream_data_blocked_frame_lost_def on_data_blocked_frame_lost_def
      on_streams_blocked_frame_lost_def on_reset_stream_frame_acked_def sm_update_streams_blocked_at_def sm_ok_def
      split: option.split intro!: sm_kept_marks sm_kept_cc)

lemma limits_kept:
  assumes ok: "sm_ok m"
  shows "sm_kept m (sm_update_local_max_streams b m)" "sm_kept m (sm_update_streams_blocked_at b x m)"
    "sm_kept m (sm_autotune_window now srtt m)" "sm_kept m (sm_ensure_window_lower_bound w m)"
    "need_send_max_data m \<Longrightarrow> sm_kept m (update_max_rx_data now m)"
    "sp_ok tp \<Longrightarrow> sm_kept m (update_peer_stream_transport_params tp m)"
proof -
  have cc: "cc_ok (sm_cc m)" using ok by (simp add: sm_ok_def)
  show "sm_kept m (sm_update_local_max_streams b m)" "sm_kept m (sm_update_streams_blocked_at b x m)"
    using ok cc by (simp_all add: sm_update_local_max_streams_def sm_update_streams_blocked_at_def sm_kept_cc
        cc_kept_update_local cc_kept_blocked)
  show "sm_kept m (sm_autotune_window now srtt m)" "sm_kept m (sm_ensure_window_lower_bound w m)"
    using ok by (auto simp: sm_autotune_window_def sm_ensure_window_lower_bound_def autotune_window_def
        ensure_window_lower_bound_def sm_ok_def split: option.split intro!: sm_kept_fields)
  show "sm_kept m (update_max_rx_data now m)" if "need_send_max_data m"
    using ok that by (intro sm_kept_fields) (auto simp: update_max_rx_data_def update_max_data_def sm_ok_def
        need_send_max_data_def max_rx_data_def max_rx_data_next_def)
  assume tp: "sp_ok tp"
  define m1 where "m1 = m\<lparr>sm_peer_params := tp, sm_capacity := sc_update_capacity (sc_update_max_data (sp_max_data tp) (sm_capacity m))\<rparr>"
  have "sc_ok (sc_update_capacity (sc_update_max_data (sp_max_data tp) (sm_capacity m)))" using ok sc_ok_update(1) by (auto simp: sm_ok_def)
  then have k1: "sm_kept m m1" using ok tp by (auto simp: m1_def sm_kept_def sm_ok_def gone_def)
  define c where "c = update_peer_max_streams True (sp_max_streams_bidi tp) (sm_cc m)"
  have "cc_kept (sm_cc m) c" unfolding c_def by (rule cc_kept_update_peer [OF cc])
  moreover from this have "cc_kept c (update_peer_max_streams False (sp_max_streams_uni tp) c)"
    by (intro cc_kept_update_peer) (simp add: cc_kept_def)
  ultimately have "cc_kept (sm_cc m1) (update_peer_max_streams False (sp_max_streams_uni tp) c)"
    unfolding m1_def by (auto intro: cc_kept_trans)
  from sm_kept_cc [OF sm_kept_ok [OF k1] this] k1
  have "sm_kept m (m1\<lparr>sm_cc := update_peer_max_streams False (sp_max_streams_uni tp) c\<rparr>)" by (rule sm_kept_trans [rotated])
  moreover have "update_peer_stream_transport_params tp m = m1\<lparr>sm_cc := update_peer_max_streams False (sp_max_streams_uni tp) c\<rparr>"
    by (simp add: update_peer_stream_transport_params_def m1_def c_def Let_def)
  ultimately show "sm_kept m (update_peer_stream_transport_params tp m)" by simp
qed

end
