(* ===== verification/Stream_Run.thy ===== *)
theory Stream_Run
  imports Stream_Map
begin

text \<open>
  Runs of the stream map: every call of \<open>StreamMap\<close> that the connection makes is a step, in any order; but for
  \<open>remove_sendable\<close>, which only takes a stream out of the queue of sendable streams and is a step of the runs with
  packets (\<open>tx_step\<close> in \<open>Stream_Send\<close>).
  The guards say what the callers ensure: identifiers, offsets and limits come from variable-length
  integers below \<open>2 ^ 62\<close>, and only what was sent is acknowledged or declared lost. The theorems hold
  in every state that a run reaches from the empty map.
\<close>

subsection \<open>Steps\<close>

text \<open>What the connection does to one stream while it writes a packet: read data for a STREAM frame, and
  raise the limit announced in a MAX_STREAM_DATA frame.\<close>

definition send_from :: "u64 \<Rightarrow> nat \<Rightarrow> 'c stream_map \<Rightarrow> ((bytes \<times> bool) res \<times> 'c stream_map) option" where
  "send_from i cap m =
     (case sm_streams m i of
        None \<Rightarrow> None
      | Some s \<Rightarrow>
          (case sd_read cap (st_send s) of
             None \<Rightarrow> None
           | Some (r, sd) \<Rightarrow> Some (r, put_stream i (s\<lparr>st_send := sd\<rparr>) m)))"

definition with_recv :: "u64 \<Rightarrow> (recv_buf \<Rightarrow> recv_buf) \<Rightarrow> 'c stream_map \<Rightarrow> 'c stream_map" where
  "with_recv i f m = (case sm_streams m i of None \<Rightarrow> m | Some s \<Rightarrow> put_stream i (s\<lparr>st_recv := f (st_recv s)\<rparr>) m)"

inductive sm_step :: "'c stream_map \<Rightarrow> 'c stream_map \<Rightarrow> bool" where
  step_set_priority: "stream_set_priority i u inc m = (r, m') \<Longrightarrow> sm_step m m'"
| step_bidi_new: "stream_bidi_new u inc m = (r, m') \<Longrightarrow> sm_step m m'"
| step_uni_new: "stream_uni_new u inc m = (r, m') \<Longrightarrow> sm_step m m'"
| step_context: "stream_set_context i ctx m = (r, m') \<Longrightarrow> sm_step m m'"
| step_want: "m' = snd (want_write i b m) \<or> m' = snd (want_read i b m) \<Longrightarrow> sm_step m m'"
| step_app_read: "stream_read i cap m = (out, m') \<Longrightarrow> sm_step m m'"
| step_app_write: "length buf < 2 ^ 62 \<Longrightarrow> stream_write i buf fin m = (n, m') \<Longrightarrow> sm_step m m'"
| step_shutdown: "stream_shutdown i d err m = (r, m') \<Longrightarrow> sm_step m m'"
| step_writable: "stream_writable i len m = (ok, m') \<Longrightarrow> sm_step m m'"
| step_destroy: "sm_step m (stream_destroy i m)"
| step_recv_max_data: "sm_step m (on_max_data_frame_received mx m)"
| step_recv_max_stream_data:
    "unat mx < 2 ^ 62 \<Longrightarrow> on_max_stream_data_frame_received i mx m = (r, m') \<Longrightarrow> sm_step m m'"
| step_recv_max_streams: "on_max_streams_frame_received mx bidi m = (r, m') \<Longrightarrow> sm_step m m'"
| step_recv_reset: "on_reset_stream_frame_received i err fsize m = (r, m') \<Longrightarrow> sm_step m m'"
| step_recv_stop: "on_stop_sending_frame_received i err m = (r, m') \<Longrightarrow> sm_step m m'"
| step_recv_stream:
    "unat off + length data < 2 ^ 64 \<Longrightarrow> on_stream_frame_received i off (length data) fin data m = (r, m') \<Longrightarrow> sm_step m m'"
| step_acked: "was_sent i off len m \<Longrightarrow> on_stream_frame_acked i off len m = (r, m') \<Longrightarrow> sm_step m m'"
| step_reset_acked: "sm_step m (on_reset_stream_frame_acked i m)"
| step_lost: "was_sent i off len m \<Longrightarrow> sm_step m (on_stream_frame_lost i off len fin m)"
| step_reset_lost: "sm_step m (on_reset_stream_frame_lost i err fsize m)"
| step_stop_lost: "sm_step m (on_stop_sending_frame_lost i err m)"
| step_max_stream_data_lost: "sm_step m (on_max_stream_data_frame_lost i m)"
| step_max_data_lost: "sm_step m (on_max_data_frame_lost m)"
| step_stream_blocked_lost: "sm_step m (on_stream_data_blocked_frame_lost i mx m)"
| step_data_blocked_lost: "sm_step m (on_data_blocked_frame_lost mx m)"
| step_streams_blocked_lost: "sm_step m (on_streams_blocked_frame_lost bidi mx m)"
| step_peer_params: "sp_ok tp \<Longrightarrow> sm_step m (update_peer_stream_transport_params tp m)"
| step_peek: "sm_step m (snd (peek_sendable m))"
| step_send: "cap < 2 ^ 64 \<Longrightarrow> send_from i cap m = Some (out, m') \<Longrightarrow> sm_step m m'"
| step_max_stream_data_sent:
    "f = rv_autotune_window now srtt \<or> f = rv_update_max_data now \<Longrightarrow> sm_step m (with_recv i f m)"
| step_max_data_sent: "need_send_max_data m \<Longrightarrow> sm_step m (update_max_rx_data now m)"
| step_window: "sm_step m (sm_autotune_window now srtt m)"
| step_window_bound: "sm_step m (sm_ensure_window_lower_bound w m)"
| step_max_streams_sent: "sm_step m (sm_update_local_max_streams bidi m)"
| step_streams_blocked: "sm_step m (sm_update_streams_blocked_at bidi x m)"
| step_blocked: "sm_step m (update_data_blocked_at x m)"
| step_marks: "m' \<in> {mark_almost_full i b m, mark_blocked i b off m, mark_reset i b err fsize m, mark_stopped i b err m}
    \<Longrightarrow> sm_step m m'"
| step_events: "sm_step m (m\<lparr>sm_events := q\<rparr>)"
| step_rx_almost_full: "sm_step m (m\<lparr>sm_rx_almost_full := b\<rparr>)"

lemma sm_ok_new:
  fixes ctx :: "'c itself"
  shows "sm_ok (sm_new srv cw sw tp :: 'c stream_map)"
  by (simp add: sm_ok_def sm_new_def sp_ok_def sp_default_def sc_ok_default fc_new_def cc_ok_new)

lemma send_from_kept:
  assumes ok: "sm_ok m" and cap: "cap < 2 ^ 64" and r: "send_from i cap m = Some (out, m')"
  shows "sm_kept m m' \<and> out \<noteq> Panic"
proof -
  obtain s sd where s: "sm_streams m i = Some s" "sd_read cap (st_send s) = Some (out, sd)" "m' = put_stream i (s\<lparr>st_send := sd\<rparr>) m"
    using r by (auto simp: send_from_def split: option.splits)
  have st: "st_ok s" using sm_ok_entry [OF ok s(1)] by (simp add: entry_ok_def)
  then have "sd_inv sd" "out \<noteq> Panic" using sd_inv_read [of "st_send s" cap] cap s(2) by (auto simp: st_ok_def)
  then show ?thesis using ok s st by (auto simp: st_ok_def intro!: sm_kept_put)
qed

lemma with_recv_kept:
  assumes ok: "sm_ok m" and f: "f = rv_autotune_window now srtt \<or> f = rv_update_max_data now"
  shows "sm_kept m (with_recv i f m)"
proof (cases "sm_streams m i")
  case (Some s)
  then have "st_ok s" using sm_ok_entry [OF ok] by (auto simp: entry_ok_def)
  then have "st_ok (s\<lparr>st_recv := f (st_recv s)\<rparr>)" using f by (auto simp: st_ok_def rv_update_max_data_def rv_autotune_window_def rv_ok_flow)
  then show ?thesis using ok Some by (auto simp: with_recv_def intro!: sm_kept_put)
qed (use ok in \<open>simp add: with_recv_def\<close>)

lemma sm_step_kept:
  assumes "sm_step m m'" and ok: "sm_ok m"
  shows "sm_kept m m'"
  using assms(1)
proof cases
  case step_want
  then show ?thesis using want_write_kept ok by auto
next
  case step_marks
  then show ?thesis using sm_kept_marks ok by auto
next
  case step_peek
  then show ?thesis using ok by (auto simp: peek_sendable_def split: prod.split)
next
  case step_events
  then show ?thesis using ok sm_kept_marks by auto
next
  case step_rx_almost_full
  then show ?thesis using ok sm_kept_marks by auto
next
  case step_blocked
  then show ?thesis using ok sm_kept_marks by auto
next
  case step_destroy
  then show ?thesis using ok sm_kept_destroy by auto
next
  case step_set_priority
  then show ?thesis using stream_set_priority_kept [OF ok] by blast
next
  case step_bidi_new
  then show ?thesis using stream_new_kept(1) [OF ok] by blast
next
  case step_uni_new
  then show ?thesis using stream_new_kept(2) [OF ok] by blast
next
  case step_context
  then show ?thesis using stream_set_context_kept [OF ok] by blast
next
  case step_app_read
  then show ?thesis using stream_read_kept [OF ok] by blast
next
  case step_app_write
  then show ?thesis using stream_write_kept [OF ok] by blast
next
  case step_shutdown
  then show ?thesis using stream_shutdown_kept [OF ok] by blast
next
  case step_writable
  then show ?thesis using stream_writable_kept [OF ok] by blast
next
  case step_recv_max_data
  then show ?thesis using on_max_data_kept [OF ok] by blast
next
  case step_recv_max_stream_data
  then show ?thesis using on_max_stream_data_kept [OF ok] by blast
next
  case step_recv_max_streams
  then show ?thesis using on_max_streams_kept [OF ok] by blast
next
  case step_recv_reset
  then show ?thesis using on_reset_stream_kept [OF ok] by blast
next
  case step_recv_stop
  then show ?thesis using on_stop_sending_kept [OF ok] by blast
next
  case step_recv_stream
  then show ?thesis using on_stream_frame_kept [OF ok] by blast
next
  case step_acked
  then show ?thesis using on_stream_acked_kept [OF ok] by blast
next
  case step_lost
  then show ?thesis using on_stream_lost_kept [OF ok] by blast
next
  case step_send
  then show ?thesis using send_from_kept [OF ok] by blast
next
  case step_max_stream_data_sent
  then show ?thesis using with_recv_kept [OF ok] by blast
qed (simp_all add: on_lost_kept [OF ok] limits_kept [OF ok])

lemma sm_steps_kept: "sm_step\<^sup>*\<^sup>* m m' \<Longrightarrow> sm_ok m \<Longrightarrow> sm_kept m m'"
  by (induction rule: rtranclp_induct) (auto dest: sm_step_kept sm_kept_ok intro: sm_kept_trans)

lemma reachable_ok:
  assumes "sm_step\<^sup>*\<^sup>* (sm_new srv cw sw tp) m"
  shows "sm_ok m" and "sm_is_server m = srv"
proof -
  have "sm_kept (sm_new srv cw sw tp) m" using assms sm_ok_new by (rule sm_steps_kept)
  then show "sm_ok m" "sm_is_server m = srv" by (simp_all add: sm_kept_def) (simp add: sm_new_def)
qed

subsection \<open>Opening streams\<close>

text \<open>The stream that \<open>get_or_create\<close> builds for an identifier.\<close>

definition fresh_stream :: "u64 \<Rightarrow> 'c stream_map \<Rightarrow> 'c stream" where
  "fresh_stream i m =
     (let loc = is_local i (sm_is_server m);
          limits = max_stream_data_limit loc (is_bidi i) (sm_local_params m) (sm_peer_params m)
      in st_new (is_bidi i) loc (snd limits) (fst limits) (sm_max_stream_window m))"

lemma create_stream_result:
  assumes ok: "sm_ok m" and none: "sm_streams m i = None"
  shows "fst (create_stream i loc m) =
      (if cc_used (sm_is_server m) i (sm_cc m) then Err Done
       else if loc \<noteq> is_local i (sm_is_server m) then Err StreamStateError
       else if is_limited i (sm_is_server m) (sm_cc m) then Err StreamLimitError
       else Ok (fresh_stream i m))" (is ?A)
    and "create_stream i loc m = (Ok s, m') \<Longrightarrow>
      \<exists>c. check_concurrency_limits i (sm_is_server m) (sm_cc m) = (Ok (), c) \<and> m' = admit_stream i s (m\<lparr>sm_cc := c\<rparr>)"
proof -
  let ?srv = "sm_is_server m" and ?c = "check_concurrency_limits i (sm_is_server m) (sm_cc m)"
  have cc: "cc_ok (sm_cc m)" using ok by (simp add: sm_ok_def)
  have closed: "sm_is_closed i m \<longleftrightarrow> cc_used ?srv i (sm_cc m)" using none by (simp add: sm_is_closed_def cc_used_def)
  obtain r c where c: "?c = (r, c)" by fastforce
  have r: "r = (if is_limited i ?srv (sm_cc m) then Err StreamLimitError else Ok ())"
    using check_limits_Err_iff(1) [OF cc, of i ?srv] check_limits_Err_iff [OF cc, of i ?srv] c by (cases r) auto
  show ?A using closed c r by (auto simp: create_stream_def Let_def fresh_stream_def case_prod_beta)
  show "\<exists>c. ?c = (Ok (), c) \<and> m' = admit_stream i s (m\<lparr>sm_cc := c\<rparr>)" if "create_stream i loc m = (Ok s, m')"
    using that c r by (auto simp: create_stream_def Let_def case_prod_beta split: if_splits)
qed

lemma get_or_create_fst:
  assumes "sm_ok m"
  shows "fst (get_or_create i loc m) =
      (if VINT_MAX < i then Err ProtocolViolation
       else case sm_streams m i of
         Some s \<Rightarrow> Ok s
       | None \<Rightarrow>
           if cc_used (sm_is_server m) i (sm_cc m) then Err Done
           else if loc \<noteq> is_local i (sm_is_server m) then Err StreamStateError
           else if is_limited i (sm_is_server m) (sm_cc m) then Err StreamLimitError
           else Ok (fresh_stream i m))"
  using create_stream_result(1) [OF assms] by (auto simp: get_or_create_def split: option.split)

lemma get_or_create_admit:
  assumes "sm_ok m" and "i \<le> VINT_MAX" and "sm_streams m i = None" and "is_available i (sm_is_server m) (sm_cc m)"
    and "\<not> is_limited i (sm_is_server m) (sm_cc m)"
  shows "\<exists>c. get_or_create i (is_local i (sm_is_server m)) m = (Ok (fresh_stream i m), admit_stream i (fresh_stream i m) (m\<lparr>sm_cc := c\<rparr>))"
  using create_stream_result [OF assms(1,3), of "is_local i (sm_is_server m)"] assms
  by (cases "create_stream i (is_local i (sm_is_server m)) m") (auto simp: get_or_create_def cc_used_def)

lemma cc_used_other:
  assumes ok: "cc_ok c" and chk: "check_concurrency_limits i srv c = (Ok (), c1)" and ne: "drop_bit 2 j \<noteq> drop_bit 2 i"
  shows "cc_used srv j (remove_avail_id i srv c1) \<longleftrightarrow> cc_used srv j c"
proof -
  have ok': "cc_ok (remove_avail_id i srv c1)" using open_stream_kept [OF ok chk] by (simp add: cc_kept_def)
  have "off_ok (cc_avail l b c)" for l b using cc_okD(1) [OF ok] .
  then show ?thesis
    using ne by (simp add: cc_used_iff [OF ok] cc_used_iff [OF ok'] check_limits_Ok [OF chk] remove_avail_views
        elems_remove_elem(2) [OF _ drop_bit_small])
qed

lemma cc_new_peer:
  assumes "\<not> is_local i srv" and "n = (if is_bidi i then b else u)"
  shows "is_available i srv (cc_new b u) \<longleftrightarrow> drop_bit 2 i < n" and "is_limited i srv (cc_new b u) \<longleftrightarrow> n \<le> drop_bit 2 i"
proof -
  have mx: "cc_max (is_local i srv) (is_bidi i) (cc_new b u) = n" and op: "cc_opened (is_local i srv) (is_bidi i) (cc_new b u) = 0"
    using assms by (simp_all add: cc_views cc_new_def)
  note ok = cc_ok_new [of b u]
  have "rs_elems (cc_avail (is_local i srv) (is_bidi i) (cc_new b u)) = {..< n}"
    using cc_okD(2) [OF ok, of "is_local i srv" "is_bidi i"] cc_okD(4) [OF ok, of "is_local i srv" "is_bidi i"] mx op by auto
  then show "is_available i srv (cc_new b u) \<longleftrightarrow> drop_bit 2 i < n" by (simp add: is_available_iff [OF ok])
  show "is_limited i srv (cc_new b u) \<longleftrightarrow> n \<le> drop_bit 2 i" by (simp add: is_limited_iff mx)
qed

subsection \<open>Frames for an open stream\<close>

text \<open>Data of the peer counts beyond the highest offset that the stream has received.\<close>

definition rx_delta :: "u64 \<Rightarrow> bytes \<Rightarrow> 'c stream \<Rightarrow> u64" where
  "rx_delta off data s = saturating_sub (off + as_u64 (length data)) (rv_recv_off (st_recv s))"

lemma get_or_create_found: "i \<le> VINT_MAX \<Longrightarrow> sm_streams m i = Some s \<Longrightarrow> get_or_create i loc m = (Ok s, m)"
  by (simp add: get_or_create_def)

lemma stream_frame_open:
  assumes "i \<le> VINT_MAX" and "sm_streams m i = Some s" and "is_bidi i \<or> \<not> is_local i (sm_is_server m)"
    and w: "rv_write off data fin (st_recv s) = (r, rv)"
  defines "d \<equiv> rx_delta off data s" and "s' \<equiv> s\<lparr>st_recv := rv\<rparr>"
  defines "m1 \<equiv> put_stream i s' m"
  defines "m2 \<equiv> if \<not> st_is_readable s \<and> st_is_readable s' then mark_readable i True m1 else m1"
  defines "m3 \<equiv> m2\<lparr>sm_flow := increase_recv_off d (sm_flow m2)\<rparr>"
  shows "on_stream_frame_received i off (length data) fin data m =
    (if max_rx_data_left m < d then (Err FlowControlError, m)
     else case r of Err e \<Rightarrow> (Err e, m1) | Panic \<Rightarrow> (Panic, m1)
       | Ok _ \<Rightarrow> (Ok (), if st_is_draining s then consume_rx d m3 else m3))"
  using assms(2,3) w get_or_create_found [OF assms(1,2), of False]
  unfolding m3_def m2_def m1_def s'_def d_def on_stream_frame_received_def rx_delta_def Let_def by auto

lemma consume_rx_fields [simp]:
  "sm_streams (consume_rx n m) = sm_streams m" "sm_is_server (consume_rx n m) = sm_is_server m"
  "fc_recv_off (sm_flow (consume_rx n m)) = fc_recv_off (sm_flow m)"
  "fc_read_off (sm_flow (consume_rx n m)) = fc_read_off (sm_flow m) + n"
  "fc_max_data (sm_flow (consume_rx n m)) = fc_max_data (sm_flow m)"
  by (simp_all add: consume_rx_def Let_def increase_read_off_def)

lemma stream_frame_accepted:
  assumes "i \<le> VINT_MAX" and "sm_streams m i = Some s" and "is_bidi i \<or> \<not> is_local i (sm_is_server m)"
    and "rv_ok (st_recv s)" and "unat off + length data < 2 ^ 64"
    and r: "on_stream_frame_received i off (length data) fin data m = (Ok (), m')"
  shows "\<exists>rv. wrote off data fin (st_recv s) rv \<and> sm_streams m' = (sm_streams m)(i \<mapsto> s\<lparr>st_recv := rv\<rparr>)
    \<and> fc_recv_off (sm_flow m') = fc_recv_off (sm_flow m) + rx_delta off data s
    \<and> fc_read_off (sm_flow m') = fc_read_off (sm_flow m) + (if st_is_draining s then rx_delta off data s else 0)
    \<and> fc_max_data (sm_flow m') = fc_max_data (sm_flow m) \<and> sm_is_server m' = sm_is_server m"
proof -
  obtain q rv where q: "rv_write off data fin (st_recv s) = (q, rv)" by fastforce
  have ok: "q = Ok ()" using r stream_frame_open [OF assms(1-3) q] by (cases q) (auto split: if_splits)
  then have w: "wrote off data fin (st_recv s) rv" using rv_write_OkD assms(4,5) q by blast
  show ?thesis
    using w r stream_frame_open [OF assms(1-3) q] ok
    by (intro exI [of _ rv]) (auto simp: put_stream_def mark_readable_def increase_recv_off_def split: if_splits)
qed

lemma rx_delta_unat:
  assumes "unat off + length data < 2 ^ 64"
  shows "unat (rx_delta off data s) = unat off + length data - unat (rv_recv_off (st_recv s))"
  using assms by (simp add: rx_delta_def unat_saturating_sub unat_add_small unat_of_nat_u64)

lemma max_rx_left_unat: "sm_ok m \<Longrightarrow> unat (max_rx_data_left m) = unat (fc_max_data (sm_flow m)) - unat (fc_recv_off (sm_flow m))"
  by (simp add: sm_ok_def max_rx_data_left_def unat_sub)

lemma mark_closed_flow [simp]: "sm_flow (mark_closed i loc m) = sm_flow m"
  by (auto simp: mark_closed_def Let_def put_stream_def mark_writable_def mark_readable_def stream_destroy_def
      split: option.split prod.split)

lemma reset_accepted_flow:
  "fc_recv_off (sm_flow (reset_accepted i was d f s m)) = fc_recv_off (sm_flow m) + d"
  "fc_read_off (sm_flow (reset_accepted i was d f s m)) = fc_read_off (sm_flow m) + f"
  by (simp_all add: reset_accepted_def Let_def increase_recv_off_def mark_readable_def)

lemma reset_open:
  assumes "i \<le> VINT_MAX" and "sm_streams m i = Some s" and "is_bidi i \<or> \<not> is_local i (sm_is_server m)"
    and "rv_ok (st_recv s)" and r: "on_reset_stream_frame_received i code fsize m = (Ok (), m')"
  shows "rv_recv_off (st_recv s) \<le> fsize"
    and "fc_recv_off (sm_flow m') = fc_recv_off (sm_flow m) + (fsize - rv_recv_off (st_recv s))"
    and "fc_read_off (sm_flow m') = fc_read_off (sm_flow m) + saturating_sub fsize (rv_read_off (st_recv s))"
proof -
  obtain q rv where q: "rv_reset code fsize (st_recv s) = (q, rv)" by fastforce
  define m1 where "m1 = put_stream i (s\<lparr>st_recv := rv\<rparr>) m"
  have eq: "on_reset_stream_frame_received i code fsize m =
      (case q of Err e \<Rightarrow> (Err e, m1) | Panic \<Rightarrow> (Panic, m1)
       | Ok delta \<Rightarrow> if max_rx_data_left m < as_u64 delta then (Err FlowControlError, m1)
           else (Ok (), reset_accepted i (st_is_readable s) (as_u64 delta) (saturating_sub fsize (rv_read_off (st_recv s)))
                  (s\<lparr>st_recv := rv\<rparr>) m1))"
    using assms(2,3) q get_or_create_found [OF assms(1,2), of False]
    unfolding on_reset_stream_frame_received_def m1_def Let_def by auto
  then obtain n where n: "q = Ok n" using r by (cases q) auto
  then have m': "m' = reset_accepted i (st_is_readable s) (as_u64 n) (saturating_sub fsize (rv_read_off (st_recv s)))
      (s\<lparr>st_recv := rv\<rparr>) m1" using r eq by (auto split: if_splits)
  have sum: "unat (rv_recv_off (st_recv s)) + n = unat fsize" using rv_reset_spec(3) [OF assms(4) q n] .
  then show "rv_recv_off (st_recv s) \<le> fsize" by (simp add: word_le_nat_alt)
  have "as_u64 n = fsize - rv_recv_off (st_recv s)"
    using arg_cong [OF sum, of as_u64] by (simp add: eq_diff_eq add.commute)
  then show "fc_recv_off (sm_flow m') = fc_recv_off (sm_flow m) + (fsize - rv_recv_off (st_recv s))"
    by (simp add: m' reset_accepted_flow(1) m1_def put_stream_def)
  show "fc_read_off (sm_flow m') = fc_read_off (sm_flow m) + saturating_sub fsize (rv_read_off (st_recv s))"
    by (simp add: m' reset_accepted_flow(2) m1_def put_stream_def)
qed

subsection \<open>A small run\<close>

definition small_params :: stream_params where
  "small_params = \<lparr>sp_max_data = 100, sp_max_stream_data_bidi_local = 50, sp_max_stream_data_bidi_remote = 50,
     sp_max_stream_data_uni = 50, sp_max_streams_bidi = 3, sp_max_streams_uni = 3\<rparr>"

definition small_server :: "unit stream_map" where
  "small_server = sm_new True 100 100 small_params"

lemma small_server_fields [simp]:
  "sm_is_server small_server" "sm_streams small_server = Map.empty" "sm_cc small_server = cc_new 3 3"
  "sm_flow small_server = fc_new 100 100" "sm_next_bidi small_server = 1" "sm_events small_server = None"
  "sm_readable small_server = {}" "sm_rx_almost_full small_server = False" "sm_stopped small_server = Map.empty"
  "sm_local_params small_server = small_params" "sm_max_stream_window small_server = 100"
  by (simp_all add: small_server_def sm_new_def small_params_def)

lemma small_server_open:
  assumes "i = 0 \<or> i = 4"
  shows "\<exists>c. get_or_create i False small_server = (Ok (fresh_stream i small_server), admit_stream i (fresh_stream i small_server) (small_server\<lparr>sm_cc := c\<rparr>))"
proof -
  have n: "\<not> is_local i True" "is_bidi i" "i \<le> VINT_MAX" "drop_bit 2 i < 3"
    using assms by (auto simp: is_local_def is_bidi_def VINT_MAX_def drop_bit_eq_div)
  have ok: "sm_ok small_server" unfolding small_server_def by (rule sm_ok_new)
  show ?thesis using get_or_create_admit [OF ok n(3)] cc_new_peer [of i True 3 3 3] n by (simp add: not_le)
qed

text \<open>The peer opens stream 0 with an empty frame.\<close>

lemma small_server_stream:
  "\<exists>m. sm_step small_server m \<and> sm_streams m = [0 \<mapsto> fresh_stream 0 small_server] \<and> sm_flow m = fc_new 100 100"
proof -
  obtain c where c: "get_or_create 0 False small_server
      = (Ok (fresh_stream 0 small_server), admit_stream 0 (fresh_stream 0 small_server) (small_server\<lparr>sm_cc := c\<rparr>))"
    using small_server_open by blast
  let ?s = "fresh_stream 0 small_server"
  have l: "\<not> is_local 0 True" by (simp add: is_local_def)
  have w: "rv_write 0 [] False (st_recv ?s) = (Ok (), st_recv ?s)"
    by (simp add: rv_write_def fresh_stream_def Let_def st_new_def rv_new_def rb_new_def rb_max_off_def rb_is_empty_def)
  have z: "rv_recv_off (st_recv ?s) = 0" by (simp add: fresh_stream_def Let_def st_new_def rv_new_def)
  have d: "\<not> st_is_draining ?s" by (simp add: st_is_draining_def fresh_stream_def Let_def st_new_def rv_new_def)
  obtain m where m: "on_stream_frame_received 0 0 0 False [] small_server = (Ok (), m)"
    "sm_streams m = [0 \<mapsto> ?s]" "sm_flow m = fc_new 100 100"
    using c l w d z unfolding on_stream_frame_received_def Let_def
    by (auto simp: saturating_sub_def put_stream_def increase_recv_off_def max_rx_data_left_def fc_new_def)
  have "sm_step small_server m" using step_recv_stream [of 0 "[]" 0 False small_server "Ok ()" m] m(1) by simp
  then show ?thesis using m by blast
qed

subsection \<open>Properties of every run\<close>

text \<open>C4: in every state that the stream map reaches, the data handed to the streams stays within the peer's
  connection limit and the recorded capacity is exactly what is left of it; the data received stays within the
  limit announced to the peer; no kind of stream has been opened beyond its limit; and every stream in the map
  was opened within the limits, is of the kind its identifier says and has sound buffers.\<close>

theorem stream_map_invariant:
  assumes "sm_step\<^sup>*\<^sup>* (sm_new srv cw sw tp) m"
  shows "sc_tx_data (sm_capacity m) \<le> sc_max_data (sm_capacity m)
    \<and> sc_capacity (sm_capacity m) = unat (sc_max_data (sm_capacity m)) - unat (sc_tx_data (sm_capacity m))
    \<and> fc_recv_off (sm_flow m) \<le> fc_max_data (sm_flow m)
    \<and> (\<forall>l b. cc_opened l b (sm_cc m) \<le> cc_max l b (sm_cc m))
    \<and> (\<forall>i s. sm_streams m i = Some s \<longrightarrow>
         \<not> is_available i srv (sm_cc m) \<and> \<not> is_limited i srv (sm_cc m) \<and> st_bidi s = is_bidi i \<and> st_local s = is_local i srv
         \<and> rv_ok (st_recv s) \<and> sd_inv (st_send s))"
proof -
  note ok = reachable_ok [OF assms]
  have c: "cc_ok (sm_cc m)" "sc_ok (sm_capacity m)" "fc_recv_off (sm_flow m) \<le> fc_max_data (sm_flow m)"
    using ok(1) by (simp_all add: sm_ok_def)
  have "entry_ok srv (sm_cc m) i s" if "sm_streams m i = Some s" for i s using sm_ok_entry [OF ok(1) that] ok(2) by simp
  then show ?thesis using c cc_okD(3) [OF c(1)] by (auto simp: sc_ok_def unat_sub entry_ok_def cc_used_def st_ok_def)
qed

lemma small_run: "sm_step small_server m \<Longrightarrow> sm_step\<^sup>*\<^sup>* (sm_new True 100 100 small_params) m"
  by (simp add: small_server_def r_into_rtranclp)

theorem stream_map_invariant_witness:
  "\<exists>m :: unit stream_map. sm_step\<^sup>*\<^sup>* (sm_new True 100 100 small_params) m \<and> sm_streams m 0 \<noteq> None
     \<and> \<not> is_available 0 True (sm_cc m) \<and> cc_opened False True (sm_cc m) \<le> cc_max False True (sm_cc m)"
proof -
  obtain m where m: "sm_step small_server m" "sm_streams m = [0 \<mapsto> fresh_stream 0 small_server]"
    using small_server_stream by blast
  then show ?thesis using stream_map_invariant [OF small_run [OF m(1)]] small_run [OF m(1)] by (intro exI [of _ m]) auto
qed

text \<open>C14: no call of the stream map panics in a state that it reaches: the reads, writes, shutdowns and frames
  below return a value or an error, whatever the application asks and whatever the peer sends.\<close>

theorem stream_map_never_panics:
  assumes "sm_step\<^sup>*\<^sup>* (sm_new srv cw sw tp) m"
  shows "fst (stream_set_priority i u inc m) \<noteq> Panic \<and> fst (stream_bidi_new u inc m) \<noteq> Panic \<and> fst (stream_uni_new u inc m) \<noteq> Panic
    \<and> fst (stream_set_context i ctx m) \<noteq> Panic \<and> fst (stream_read i cap m) \<noteq> Panic
    \<and> (length buf < 2 ^ 62 \<longrightarrow> fst (stream_write i buf fin m) \<noteq> Panic)
    \<and> fst (stream_shutdown i d err m) \<noteq> Panic \<and> fst (stream_writable i len m) \<noteq> Panic
    \<and> (unat mx < 2 ^ 62 \<longrightarrow> fst (on_max_stream_data_frame_received i mx m) \<noteq> Panic)
    \<and> fst (on_max_streams_frame_received mx bidi m) \<noteq> Panic
    \<and> fst (on_reset_stream_frame_received i err fsize m) \<noteq> Panic \<and> fst (on_stop_sending_frame_received i err m) \<noteq> Panic
    \<and> (unat off + length buf < 2 ^ 64 \<longrightarrow> fst (on_stream_frame_received i off (length buf) fin buf m) \<noteq> Panic)
    \<and> (was_sent i off len m \<longrightarrow> fst (on_stream_frame_acked i off len m) \<noteq> Panic)
    \<and> (cap < 2 ^ 64 \<longrightarrow> sm_streams m i \<noteq> None \<longrightarrow> (\<exists>d fin m'. send_from i cap m = Some (Ok (d, fin), m')))"
proof -
  note ok = reachable_ok(1) [OF assms]
  have send: "\<exists>d fin m'. send_from i cap m = Some (Ok (d, fin), m')" if n: "cap < 2 ^ 64" "sm_streams m i \<noteq> None"
  proof -
    obtain s where s: "sm_streams m i = Some s" using n(2) by blast
    then have "sd_inv (st_send s)" using sm_ok_entry [OF ok] by (auto simp: entry_ok_def st_ok_def)
    then show ?thesis using sd_inv_read n(1) s by (fastforce simp: send_from_def)
  qed
  have np: "fst x \<noteq> Panic" if "\<And>r m'. x = (r, m') \<Longrightarrow> sm_kept m m' \<and> r \<noteq> Panic" for x :: "('x, error) result \<times> 'a stream_map"
    using that by (cases x) auto
  show ?thesis
    by (intro conjI impI; (rule np)?; (erule stream_set_priority_kept [OF ok] stream_new_kept(1) [OF ok] stream_new_kept(2) [OF ok]
      stream_set_context_kept [OF ok] stream_read_kept [OF ok] stream_shutdown_kept [OF ok] stream_writable_kept [OF ok]
      stream_write_kept [OF ok] on_max_stream_data_kept [OF ok] on_max_streams_kept [OF ok] on_reset_stream_kept [OF ok]
      on_stop_sending_kept [OF ok] on_stream_frame_kept [OF ok] on_stream_acked_kept [OF ok])?; (assumption | erule (1) send)?)
qed

theorem stream_map_never_panics_witness:
  "fst (on_stream_frame_received 0 0 3 False [1, 2, 3] small_server) \<noteq> Panic \<and> fst (stream_write 1 [1, 2] True small_server) \<noteq> Panic"
proof -
  have s: "sm_step\<^sup>*\<^sup>* (sm_new True 100 100 small_params) small_server" by (simp add: small_server_def)
  have "fst (on_stream_frame_received 0 0 (length [1 :: u8, 2, 3]) False [1, 2, 3] small_server) \<noteq> Panic"
    using stream_map_never_panics [OF s, of 0 0 False "()" 0 "[1, 2, 3]" False ShutdownRead 0 0 0 False 0 0] by simp
  moreover have "fst (stream_write 1 [1, 2] True small_server) \<noteq> Panic"
    using stream_map_never_panics [OF s, of 1 0 False "()" 0 "[1, 2]" True] by simp
  ultimately show ?thesis by (simp add: eval_nat_numeral)
qed

lemma used_gone: "sm_kept m m' \<Longrightarrow> sm_ok m \<Longrightarrow> sm_streams m i = Some s \<Longrightarrow> sm_streams m' i = None \<Longrightarrow> gone i m'"
  using sm_ok_entry by (fastforce simp: sm_kept_def cc_kept_def gone_def entry_ok_def)

lemma gone_get: "gone i m \<Longrightarrow> i \<le> VINT_MAX \<Longrightarrow> get_or_create i loc m = (Err Done, m)"
  by (auto simp: gone_def get_or_create_def create_stream_def sm_is_closed_def cc_used_def)

text \<open>C11: a stream that has left the map never comes back. After any further calls its identifier is still not in
  the map, no call creates it again, and a late STREAM frame for it is ignored without a change of state.\<close>

theorem closed_stream_never_reopened:
  assumes "sm_step\<^sup>*\<^sup>* (sm_new srv cw sw tp) m" and "sm_streams m i = Some s" and "sm_step\<^sup>*\<^sup>* m m'" and "sm_streams m' i = None"
    and "sm_step\<^sup>*\<^sup>* m' m''" and "i \<le> VINT_MAX"
  shows "sm_streams m'' i = None \<and> get_or_create i loc m'' = (Err Done, m'')
    \<and> (is_bidi i \<or> \<not> is_local i srv \<longrightarrow> on_stream_frame_received i off len fin data m'' = (Ok (), m''))"
proof -
  note ok = reachable_ok [OF assms(1)]
  have k: "sm_kept m m'" "sm_kept m' m''"
    using sm_steps_kept [OF assms(3) ok(1)] sm_steps_kept [OF assms(5)] sm_kept_ok by blast+
  have "gone i m'" by (rule used_gone [OF k(1) ok(1) assms(2,4)])
  then have g: "gone i m''" using k(2) by (simp add: sm_kept_def)
  then have c: "sm_is_closed i m''" "sm_streams m'' i = None" by (simp_all add: gone_def sm_is_closed_def cc_used_def)
  have srv: "sm_is_server m'' = srv" using k ok(2) by (simp add: sm_kept_def)
  show ?thesis using gone_get [OF g assms(6)] c srv by (auto simp: on_stream_frame_received_def Let_def)
qed

theorem closed_stream_never_reopened_witness:
  "\<exists>m' :: unit stream_map. sm_step\<^sup>*\<^sup>* (sm_new True 100 100 small_params) m'
     \<and> get_or_create 0 False m' = (Err Done, m') \<and> on_stream_frame_received 0 0 1 True [7] m' = (Ok (), m')"
proof -
  obtain m where m: "sm_step small_server m" "sm_streams m = [0 \<mapsto> fresh_stream 0 small_server]"
    using small_server_stream by blast
  have d: "sm_step\<^sup>*\<^sup>* m (stream_destroy 0 m)" by (intro r_into_rtranclp step_destroy)
  have "get_or_create 0 False (stream_destroy 0 m) = (Err Done, stream_destroy 0 m)
    \<and> on_stream_frame_received 0 0 1 True [7] (stream_destroy 0 m) = (Ok (), stream_destroy 0 m)"
    using closed_stream_never_reopened [OF small_run [OF m(1)] _ d _ rtranclp.rtrancl_refl, of 0] m(2)
    by (simp add: stream_destroy_def is_bidi_def)
  then show ?thesis using rtranclp_trans [OF small_run [OF m(1)] d] by blast
qed

text \<open>C13: the outcome of opening a stream. An identifier above the largest variable-length integer is a protocol
  violation; a stream in the map is returned; an identifier that was used before gives \<open>Done\<close>; one of the
  other side gives a state error; one beyond the limit of its kind a limit error; any other is opened with the
  data limits that the two endpoints announced for its kind.\<close>

theorem stream_open_result:
  assumes "sm_step\<^sup>*\<^sup>* (sm_new srv cw sw tp) m"
  shows "fst (get_or_create i loc m) =
      (if VINT_MAX < i then Err ProtocolViolation
       else case sm_streams m i of
         Some s \<Rightarrow> Ok s
       | None \<Rightarrow>
           if \<not> is_available i srv (sm_cc m) \<and> drop_bit 2 i < cc_max (is_local i srv) (is_bidi i) (sm_cc m) then Err Done
           else if loc \<noteq> is_local i srv then Err StreamStateError
           else if cc_max (is_local i srv) (is_bidi i) (sm_cc m) \<le> drop_bit 2 i then Err StreamLimitError
           else Ok (fresh_stream i m))"
  using get_or_create_fst [OF reachable_ok(1) [OF assms], of i loc] reachable_ok(2) [OF assms]
  by (auto simp: cc_used_def is_limited_iff not_le split: option.split)

theorem stream_open_result_witness:
  "fst (get_or_create 12 False small_server) = Err StreamLimitError \<and> fst (get_or_create 8 False small_server) = Ok (fresh_stream 8 small_server)
     \<and> fst (get_or_create 8 True small_server) = Err StreamStateError"
proof -
  have s: "sm_step\<^sup>*\<^sup>* (sm_new True 100 100 small_params) small_server" by (simp add: small_server_def)
  have l: "\<not> is_local 8 True" "\<not> is_local 12 True" "is_bidi 8" "is_bidi 12" "drop_bit 2 8 = (2 :: u64)" "drop_bit 2 12 = (3 :: u64)"
    by (simp_all add: is_local_def is_bidi_def drop_bit_eq_div)
  have c: "cc_max False True (cc_new 3 3) = 3" "is_available 8 True (cc_new 3 3)"
    using cc_new_peer(1) [of 8 True 3 3 3] l by (simp_all add: cc_views cc_new_def)
  show ?thesis using stream_open_result [OF s, of 12 False] stream_open_result [OF s, of 8] l c by (simp add: VINT_MAX_def)
qed

text \<open>C12: the outcome of a STREAM frame for an open stream, for every frame but an empty one without FIN beyond the
  highest offset (the code counts such a frame although it carries nothing, which is a defect with a finding of
  its own). It is a flow control error exactly when the bytes beyond those already received exceed what is left
  of the connection's limit or the frame ends beyond the stream's limit; otherwise a final size error exactly
  when it disagrees with the final size (it ends beyond it, or has FIN and ends elsewhere, or has FIN and ends
  below data already received); otherwise it is accepted, the highest offset of the stream becomes the end of
  the frame if that is larger, and the connection counts exactly the bytes by which it has moved.\<close>

theorem stream_frame_result:
  assumes "sm_step\<^sup>*\<^sup>* (sm_new srv cw sw tp) m" and "sm_streams m i = Some s" and "i \<le> VINT_MAX" and "is_bidi i \<or> \<not> is_local i srv"
    and "unat off + length data < 2 ^ 64" and "on_stream_frame_received i off (length data) fin data m = (r, m')"
    and "data \<noteq> [] \<or> fin \<or> off \<le> rv_recv_off (st_recv s)"
  defines "n \<equiv> unat off + length data" and "rv \<equiv> st_recv s"
  shows "r = (if unat (fc_max_data (sm_flow m)) - unat (fc_recv_off (sm_flow m)) < n - unat (rv_recv_off rv)
               \<or> unat (fc_max_data (rv_flow rv)) < n then Err FlowControlError
              else if \<not> acceptable n fin rv then Err FinalSizeError else Ok ())
    \<and> (r = Ok () \<longrightarrow> (\<exists>s'. sm_streams m' i = Some s' \<and> unat (rv_recv_off (st_recv s')) = max (unat (rv_recv_off rv)) n
         \<and> unat (fc_recv_off (sm_flow m')) - unat (fc_recv_off (sm_flow m)) = unat (rv_recv_off (st_recv s')) - unat (rv_recv_off rv)
         \<and> fc_recv_off (sm_flow m) \<le> fc_recv_off (sm_flow m')))"
proof -
  note ok = reachable_ok [OF assms(1)]
  have ro: "rv_ok rv" using sm_ok_entry [OF ok(1) assms(2)] by (simp add: entry_ok_def st_ok_def rv_def)
  have loc: "is_bidi i \<or> \<not> is_local i (sm_is_server m)" using assms(4) ok(2) by simp
  obtain q x where q: "rv_write off data fin rv = (q, x)" by fastforce
  have q': "q = (if unat (fc_max_data (rv_flow rv)) < n then Err FlowControlError
      else if \<not> acceptable n fin rv then Err FinalSizeError else Ok ())"
    using rv_write_spec(1) [OF ro assms(5), of fin] unfolding q n_def by (auto split: if_splits)
  have lt: "max_rx_data_left m < rx_delta off data s \<longleftrightarrow>
      unat (fc_max_data (sm_flow m)) - unat (fc_recv_off (sm_flow m)) < n - unat (rv_recv_off rv)"
    using max_rx_left_unat [OF ok(1)] rx_delta_unat [OF assms(5), of s] by (simp add: word_less_nat_alt n_def rv_def)
  have eq: "r = (if max_rx_data_left m < rx_delta off data s then Err FlowControlError else q)"
    using assms(6) stream_frame_open [OF assms(3,2) loc q [unfolded rv_def]] by (auto split: if_splits result.splits)
  have "unat (fc_recv_off (sm_flow m')) = unat (fc_recv_off (sm_flow m)) + (n - unat (rv_recv_off rv))
      \<and> (\<exists>s'. sm_streams m' i = Some s' \<and> unat (rv_recv_off (st_recv s')) = max (unat (rv_recv_off rv)) n)" if r: "r = Ok ()"
  proof
    show "\<exists>s'. sm_streams m' i = Some s' \<and> unat (rv_recv_off (st_recv s')) = max (unat (rv_recv_off rv)) n"
    proof -
      obtain x where "wrote off data fin (st_recv s) x" "sm_streams m' i = Some (s\<lparr>st_recv := x\<rparr>)"
        using stream_frame_accepted [OF assms(3,2) loc ro [unfolded rv_def] assms(5)] assms(6) r by fastforce
      moreover from this(1) have "unat (rv_recv_off x) = max (unat (rv_recv_off rv)) n"
        using assms(7) by (auto simp: wrote_def n_def rv_def word_le_nat_alt)
      ultimately show ?thesis by auto
    qed
    have "fc_recv_off (sm_flow m') = fc_recv_off (sm_flow m) + rx_delta off data s"
      using stream_frame_accepted [OF assms(3,2) loc ro [unfolded rv_def] assms(5)] assms(6) r by blast
    moreover have "unat (rx_delta off data s) \<le> unat (fc_max_data (sm_flow m)) - unat (fc_recv_off (sm_flow m))"
      using r eq lt rx_delta_unat [OF assms(5), of s] by (auto simp: n_def rv_def split: if_splits)
    moreover have "unat (fc_recv_off (sm_flow m)) \<le> unat (fc_max_data (sm_flow m))" using ok(1) by (simp add: sm_ok_def word_le_nat_alt)
    ultimately show "unat (fc_recv_off (sm_flow m')) = unat (fc_recv_off (sm_flow m)) + (n - unat (rv_recv_off rv))"
      using rx_delta_unat [OF assms(5), of s] unat_u64_bound [of "fc_max_data (sm_flow m)"]
      by (simp add: unat_add_small n_def rv_def)
  qed
  then have "r = Ok () \<longrightarrow> (\<exists>s'. sm_streams m' i = Some s' \<and> unat (rv_recv_off (st_recv s')) = max (unat (rv_recv_off rv)) n
         \<and> unat (fc_recv_off (sm_flow m')) - unat (fc_recv_off (sm_flow m)) = unat (rv_recv_off (st_recv s')) - unat (rv_recv_off rv)
         \<and> fc_recv_off (sm_flow m) \<le> fc_recv_off (sm_flow m'))"
    by (fastforce simp: word_le_nat_alt)
  then show ?thesis using eq lt q' by auto
qed

lemma fresh_recv [simp]: "st_recv (fresh_stream 0 small_server) = rv_new 50 100"
  by (simp add: fresh_stream_def Let_def st_new_def is_local_def is_bidi_def small_params_def)

theorem stream_frame_result_witness:
  "\<exists>m :: unit stream_map. sm_step\<^sup>*\<^sup>* (sm_new True 100 100 small_params) m \<and> sm_streams m 0 \<noteq> None
     \<and> fst (on_stream_frame_received 0 49 2 False [1, 2] m) = Err FlowControlError
     \<and> fst (on_stream_frame_received 0 48 2 True [1, 2] m) = Ok ()
     \<and> (\<exists>s'. sm_streams (snd (on_stream_frame_received 0 48 2 True [1, 2] m)) 0 = Some s' \<and> unat (rv_recv_off (st_recv s')) = 50)"
proof -
  obtain m where m: "sm_step small_server m" "sm_streams m = [0 \<mapsto> fresh_stream 0 small_server]" "sm_flow m = fc_new 100 100"
    using small_server_stream by blast
  have b: "is_bidi 0" by (simp add: is_bidi_def)
  let ?f = "\<lambda>off fin. on_stream_frame_received 0 off (length [1 :: u8, 2]) fin [1, 2] m"
  have in_map: "sm_streams m 0 = Some (fresh_stream 0 small_server)" and v: "(0 :: u64) \<le> VINT_MAX" using m(2) by simp_all
  note t = stream_frame_result [OF small_run [OF m(1)] in_map v disjI1 [OF b] _ prod.collapse [symmetric], of _ "[1, 2]", unfolded m(3)]
  have flow: "fc_max_data (fc_new 100 100) = 100" "fc_recv_off (fc_new 100 100) = 0" "rv_recv_off (rv_new 50 100) = 0"
    "fc_max_data (rv_flow (rv_new 50 100)) = 50" "\<And>n fin. acceptable n fin (rv_new 50 100)"
    by (simp_all add: fc_new_def rv_new_def acceptable_def)
  have "fst (?f 49 False) = Err FlowControlError" using t [of 49 False] by (simp add: flow)
  moreover have "fst (?f 48 True) = Ok ()" "\<exists>s'. sm_streams (snd (?f 48 True)) 0 = Some s' \<and> unat (rv_recv_off (st_recv s')) = 50"
    using t [of 48 True] by (auto simp: flow)
  ultimately show ?thesis using small_run [OF m(1)] in_map by (intro exI [of _ m]) (simp add: eval_nat_numeral)
qed

lemma empty_frame_once:
  assumes s: "sm_streams m 0 = Some s" "st_recv s = rv_new 50 100" and left: "40 \<le> max_rx_data_left m"
  shows "\<exists>m' s'. on_stream_frame_received 0 40 0 False [] m = (Ok (), m') \<and> sm_streams m' 0 = Some s' \<and> st_recv s' = rv_new 50 100
    \<and> fc_recv_off (sm_flow m') = fc_recv_off (sm_flow m) + 40 \<and> fc_max_data (sm_flow m') = fc_max_data (sm_flow m)"
proof -
  have w: "rv_write 40 [] False (st_recv s) = (Ok (), rv_new 50 100)"
    unfolding s(2) by (simp add: rv_write_def Let_def rv_new_def rb_new_def rb_max_off_def rb_is_empty_def fc_new_def)
  have b: "is_bidi 0 \<or> \<not> is_local 0 (sm_is_server m)" "(0 :: u64) \<le> VINT_MAX" by (simp_all add: is_bidi_def)
  have d: "rx_delta 40 [] s = 40" "\<not> st_is_draining s" using s(2) by (simp_all add: rx_delta_def saturating_sub_def rv_new_def st_is_draining_def)
  show ?thesis
    using stream_frame_open [OF b(2) s(1) b(1) w] d left by (auto simp: put_stream_def mark_readable_def increase_recv_off_def)
qed

text \<open>an empty STREAM frame that lies beyond the highest received offset is counted by the connection although
  the stream does not move: the same frame is counted again each time it arrives.\<close>

theorem empty_frame_counted:
  assumes "sm_step\<^sup>*\<^sup>* (sm_new srv cw sw tp) m" and "sm_streams m i = Some s" and "i \<le> VINT_MAX" and "is_bidi i \<or> \<not> is_local i srv"
    and "on_stream_frame_received i off 0 False [] m = (Ok (), m')"
  shows "fc_recv_off (sm_flow m') = fc_recv_off (sm_flow m) + saturating_sub off (rv_recv_off (st_recv s))
    \<and> (\<exists>s'. sm_streams m' i = Some s' \<and> rv_recv_off (st_recv s') = rv_recv_off (st_recv s))"
proof -
  note ok = reachable_ok [OF assms(1)]
  have ro: "rv_ok (st_recv s)" using sm_ok_entry [OF ok(1) assms(2)] by (simp add: entry_ok_def st_ok_def)
  have loc: "is_bidi i \<or> \<not> is_local i (sm_is_server m)" using assms(4) ok(2) by simp
  have n: "unat off + length ([] :: bytes) < 2 ^ 64" using unat_u64_bound [of off] by simp
  show ?thesis
    using stream_frame_accepted [OF assms(3,2) loc ro n, of False m'] assms(5)
    by (auto simp: rx_delta_def wrote_def word_unat_eq_iff)
qed

theorem empty_frame_counted_witness:
  "\<exists>m m1 m2 :: unit stream_map. on_stream_frame_received 0 40 0 False [] m = (Ok (), m1)
     \<and> on_stream_frame_received 0 40 0 False [] m1 = (Ok (), m2)
     \<and> fc_recv_off (sm_flow m) = 0 \<and> fc_recv_off (sm_flow m1) = 40 \<and> fc_recv_off (sm_flow m2) = 80"
proof -
  obtain m where m: "sm_step small_server m" "sm_streams m = [0 \<mapsto> fresh_stream 0 small_server]" "sm_flow m = fc_new 100 100"
    using small_server_stream by blast
  have b: "is_bidi 0" "(0 :: u64) \<le> VINT_MAX" by (simp_all add: is_bidi_def)
  note run = small_run [OF m(1)]
  obtain m1 s1 where m1: "on_stream_frame_received 0 40 0 False [] m = (Ok (), m1)" "sm_streams m1 0 = Some s1" "st_recv s1 = rv_new 50 100"
    "fc_recv_off (sm_flow m1) = 40" "fc_max_data (sm_flow m1) = 100"
    using empty_frame_once [of m "fresh_stream 0 small_server"] m by (auto simp: max_rx_data_left_def fc_new_def)
  have r1: "sm_step\<^sup>*\<^sup>* (sm_new True 100 100 small_params) m1"
    using rtranclp.rtrancl_into_rtrancl [OF run] step_recv_stream [of 40 "[]" 0 False m "Ok ()" m1] m1(1) by simp
  obtain m2 where m2: "on_stream_frame_received 0 40 0 False [] m1 = (Ok (), m2)"
    using empty_frame_once [OF m1(2,3)] m1(4,5) by (auto simp: max_rx_data_left_def)
  have "fc_recv_off (sm_flow m2) = 80"
    using empty_frame_counted [OF r1 m1(2) b(2) disjI1 [OF b(1)] m2] m1 by (simp add: saturating_sub_def rv_new_def)
  moreover have "fc_recv_off (sm_flow m) = 0" using m by (simp add: fc_new_def)
  ultimately show ?thesis using m1 m2 by blast
qed

text \<open>C18: after the application has stopped reading a stream, the bytes of a further STREAM frame are counted as
  consumed when the frame arrives, and once more when the peer resets the stream: the connection's read offset
  grows by the new bytes and by everything from the stream's read offset to the final size.\<close>

theorem drained_bytes_counted_twice:
  assumes "sm_step\<^sup>*\<^sup>* (sm_new srv cw sw tp) m" and "sm_streams m i = Some s" and "i \<le> VINT_MAX" and "is_bidi i \<or> \<not> is_local i srv"
    and "st_is_draining s" and "unat off + length data < 2 ^ 64"
    and "on_stream_frame_received i off (length data) False data m = (Ok (), m1)"
    and "on_reset_stream_frame_received i code fsize m1 = (Ok (), m2)"
    and "data \<noteq> []" and "unat (rv_recv_off (st_recv s)) \<le> unat off + length data"
  shows "fc_recv_off (sm_flow m2) = fc_recv_off (sm_flow m) + (fsize - rv_recv_off (st_recv s))
    \<and> fc_read_off (sm_flow m2) = fc_read_off (sm_flow m)
        + ((off + as_u64 (length data)) - rv_recv_off (st_recv s)) + saturating_sub fsize (rv_read_off (st_recv s))"
proof -
  note ok = reachable_ok [OF assms(1)]
  have ro: "rv_ok (st_recv s)" using sm_ok_entry [OF ok(1) assms(2)] by (simp add: entry_ok_def st_ok_def)
  have loc: "is_bidi i \<or> \<not> is_local i (sm_is_server m)" using assms(4) ok(2) by simp
  obtain rv where w: "wrote off data False (st_recv s) rv" "sm_streams m1 = (sm_streams m)(i \<mapsto> s\<lparr>st_recv := rv\<rparr>)"
    and f: "fc_recv_off (sm_flow m1) = fc_recv_off (sm_flow m) + rx_delta off data s"
      "fc_read_off (sm_flow m1) = fc_read_off (sm_flow m) + rx_delta off data s" "sm_is_server m1 = sm_is_server m"
    using stream_frame_accepted [OF assms(3,2) loc ro assms(6,7)] assms(5) by auto
  have n: "unat (off + as_u64 (length data)) = unat off + length data"
    using assms(6) by (simp add: unat_add_small unat_of_nat_u64)
  have d: "rx_delta off data s = off + as_u64 (length data) - rv_recv_off (st_recv s)"
    using assms(10) n by (simp add: rx_delta_def saturating_sub_def word_less_nat_alt)
  have r: "rv_recv_off rv = off + as_u64 (length data)" "rv_read_off rv = rv_read_off (st_recv s)" "rv_ok rv"
    using w(1) assms(9,10) n by (auto simp: wrote_def word_unat_eq_iff)
  note rs = reset_open [OF assms(3) _ _ _ assms(8), of "s\<lparr>st_recv := rv\<rparr>"]
  show ?thesis using rs(2,3) w(2) loc f r d by simp
qed

definition drained :: recv_buf where
  "drained = (rv_new 50 100)\<lparr>rv_shutdown := True\<rparr>"

lemma drained_receives:
  "rv_write 0 [1, 2] False drained = (Ok (), drained\<lparr>rv_recv_off := 2\<rparr>)"
  "\<exists>r. rv_reset 7 2 (drained\<lparr>rv_recv_off := 2\<rparr>) = (Ok 0, r)"
proof -
  note defs = rv_write_def Let_def drained_def rv_new_def fc_new_def rb_new_def rb_max_off_def rb_is_empty_def rv_is_fin_def
  show "rv_write 0 [1, 2] False drained = (Ok (), drained\<lparr>rv_recv_off := 2\<rparr>)"
    by (simp add: defs write_pieces.simps discard_read_def merge_overlaps_def store_piece_def max_def)
  show "\<exists>r. rv_reset 7 2 (drained\<lparr>rv_recv_off := 2\<rparr>) = (Ok 0, r)"
    by (simp add: defs write_pieces.simps rv_reset_def bind_s_def discard_read_def merge_overlaps_def)
qed

theorem drained_bytes_counted_twice_witness:
  "\<exists>m m1 m2 :: unit stream_map. sm_step\<^sup>*\<^sup>* (sm_new True 100 100 small_params) m
     \<and> on_stream_frame_received 0 0 2 False [1, 2] m = (Ok (), m1) \<and> on_reset_stream_frame_received 0 7 2 m1 = (Ok (), m2)
     \<and> fc_recv_off (sm_flow m2) = 2 \<and> fc_read_off (sm_flow m2) = 4"
proof -
  obtain m0 where m0: "sm_step small_server m0" "sm_streams m0 = [0 \<mapsto> fresh_stream 0 small_server]" "sm_flow m0 = fc_new 100 100"
    using small_server_stream by blast
  have z: "is_bidi 0 \<or> \<not> is_local 0 srv" "\<not> (is_local 0 srv \<and> \<not> is_bidi 0)" "(0 :: u64) \<le> VINT_MAX" for srv by (simp_all add: is_bidi_def)
  let ?s = "fresh_stream 0 small_server" and ?d = "(fresh_stream 0 small_server)\<lparr>st_recv := drained\<rparr>"
  have shut: "rv_shut (rv_new 50 100) = (Ok 0, drained)" by (simp add: rv_shut_def rv_new_def drained_def)
  obtain m where m: "stream_shutdown 0 ShutdownRead 7 m0 = (Ok (), m)" "sm_streams m 0 = Some ?d"
    "fc_recv_off (sm_flow m) = 0" "fc_read_off (sm_flow m) = 0" "fc_max_data (sm_flow m) = 100"
    using shut m0 z(2) by (auto simp: stream_shutdown_def stream_shutdown_read_def put_stream_def mark_readable_def mark_stopped_def fc_new_def Let_def)
  have run: "sm_step\<^sup>*\<^sup>* (sm_new True 100 100 small_params) m"
    using rtranclp.rtrancl_into_rtrancl [OF small_run [OF m0(1)]] step_shutdown [OF m(1)] by blast
  have f: "rx_delta 0 [1, 2] ?d = 2" "st_is_draining ?d" "max_rx_data_left m = 100"
    using m by (simp_all add: rx_delta_def drained_def rv_new_def saturating_sub_def st_is_draining_def max_rx_data_left_def)
  obtain m1 where m1: "on_stream_frame_received 0 0 (length [1 :: u8, 2]) False [1, 2] m = (Ok (), m1)"
    and s1: "sm_streams m1 0 = Some (?s\<lparr>st_recv := drained\<lparr>rv_recv_off := 2\<rparr>\<rparr>)"
    and fl: "fc_recv_off (sm_flow m1) = 2" "fc_max_data (sm_flow m1) = 100"
    using stream_frame_open [OF z(3) m(2) z(1), of 0 "[1, 2]" False "Ok ()" "drained\<lparr>rv_recv_off := 2\<rparr>"] drained_receives(1) f m
    by (auto simp: put_stream_def mark_readable_def increase_recv_off_def)
  have left: "max_rx_data_left m1 = 98" using fl by (simp add: max_rx_data_left_def)
  obtain rv where rv: "rv_reset 7 2 (drained\<lparr>rv_recv_off := 2\<rparr>) = (Ok 0, rv)" using drained_receives(2) by blast
  have b0: "is_bidi 0" by (simp add: is_bidi_def)
  have "\<exists>m2. on_reset_stream_frame_received 0 7 2 m1 = (Ok (), m2)"
    using rv get_or_create_found [OF z(3) s1, of False] b0 left unfolding on_reset_stream_frame_received_def Let_def by simp
  then obtain m2 where m2: "on_reset_stream_frame_received 0 7 2 m1 = (Ok (), m2)" by blast
  have "fc_recv_off (sm_flow m2) = 2 \<and> fc_read_off (sm_flow m2) = 4"
    using drained_bytes_counted_twice [OF run m(2) z(3) z(1) f(2) _ m1 m2] m by (simp add: drained_def rv_new_def saturating_sub_def)
  then show ?thesis using run m1 m2 by (auto simp: eval_nat_numeral)
qed

lemma kind_add4: "is_local (i + 4) srv = is_local i srv" "is_bidi (i + 4) = is_bidi i"
proof -
  have "(i + 4) mod 4 = i mod 4"
    by (simp add: word_unat_eq_iff unat_mod unat_word_ariths(1) mod_mod_cancel)
  then have "take_bit 2 (i + 4) = take_bit 2 i" by (simp add: take_bit_eq_mod)
  then have e: "(i + 4) AND 3 = i AND 3" by (simp add: take_bit_eq_mask mask_eq_exp_minus_1)
  have "(i + 4) AND 1 = i AND 1" using arg_cong [OF e, of "\<lambda>x. x AND 1"] by (simp add: and.assoc)
  then show "is_local (i + 4) srv = is_local i srv" by (simp add: is_local_def)
  have "(i + 4) AND 2 = i AND 2" using arg_cong [OF e, of "\<lambda>x. x AND 2"] by (simp add: and.assoc)
  then show "is_bidi (i + 4) = is_bidi i" by (simp add: is_bidi_def)
qed

text \<open>C16: a stream opened by the client moves the number that the server takes for its own next stream. When the client
  opens a bidirectional stream \<open>i\<close> at or above that number, and the client's following stream \<open>i + 4\<close> (which has
  to be below \<open>2 ^ 62\<close>) is neither open nor closed, then the next number the server takes is \<open>i + 4\<close>, which belongs
  to the client, and \<open>stream_bidi_new\<close> fails with \<open>StreamStateError\<close> and changes nothing, so it will fail again.
  Calls that name a stream number of the server explicitly do not depend on the counter and are not affected.\<close>

theorem peer_stream_takes_next_id:
  assumes "sm_step\<^sup>*\<^sup>* (sm_new True cw sw tp) m" and "\<not> is_local i True \<and> is_bidi i" and "sm_next_bidi m \<le> i" and "unat i + 4 < 2 ^ 62"
    and "sm_streams m i = None" and "get_or_create i False m = (Ok s, m')"
    and "sm_streams m (i + 4) = None" and "\<not> sm_is_closed (i + 4) m"
  shows "sm_next_bidi m' = i + 4 \<and> \<not> is_local (sm_next_bidi m') True \<and> stream_bidi_new u inc m' = (Err StreamStateError, m')"
proof -
  note ok = reachable_ok [OF assms(1)]
  have u4: "unat (i + 4) = unat i + 4" using assms(4) by (simp add: unat_add_small)
  have v: "i + 4 \<le> VINT_MAX" "i \<le> VINT_MAX" "i + 4 \<noteq> i"
    using assms(4) u4 by (auto simp: VINT_MAX_def word_le_nat_alt)
  have loc: "\<not> is_local (i + 4) True" "is_bidi (i + 4)" "is_bidi i" using assms(2) kind_add4 [of i] by simp_all
  obtain c where c: "check_concurrency_limits i True (sm_cc m) = (Ok (), c)" and m': "m' = admit_stream i s (m\<lparr>sm_cc := c\<rparr>)"
    using create_stream_result(2) [OF ok(1) assms(5), of False s m'] assms(6) v(2) ok(2) unfolding get_or_create_def assms(5)
    by (auto simp: leD)
  have nb: "sm_next_bidi m' = i + 4"
    using assms(3,4) loc by (simp add: m' admit_stream_def Let_def put_stream_def mark_writable_def saturating_add_def max_def)
  have srv: "sm_is_server m'" using ok(2) by (simp add: m')
  have none: "sm_streams m' (i + 4) = None" using assms(7) v by (simp add: m')
  have "unat (drop_bit 2 (i + 4)) = unat (drop_bit 2 i) + 1" by (simp add: drop_bit_eq_div unat_div u4)
  then have ne: "drop_bit 2 (i + 4) \<noteq> drop_bit 2 i" by (metis add_eq_self_zero zero_neq_one)
  have "cc_ok (sm_cc m)" using ok(1) by (simp add: sm_ok_def)
  from cc_used_other [OF this c ne] have "\<not> sm_is_closed (i + 4) m'"
    using assms(7,8) ok(2) none by (simp add: sm_is_closed_def cc_used_def m')
  then have "get_or_create (i + 4) True m' = (Err StreamStateError, m')"
    using v none loc srv by (simp add: get_or_create_def create_stream_def)
  then show ?thesis using nb loc by (simp add: stream_bidi_new_def stream_set_priority_def bind_s_def Let_def)
qed


theorem peer_stream_takes_next_id_witness:
  "\<exists>s m'. get_or_create 4 False small_server = (Ok s, m') \<and> sm_next_bidi m' = 8 \<and> stream_bidi_new 0 False m' = (Err StreamStateError, m')"
proof -
  let ?s = "fresh_stream 4 small_server"
  obtain c where c: "get_or_create 4 False small_server = (Ok ?s, admit_stream 4 ?s (small_server\<lparr>sm_cc := c\<rparr>))" (is "_ = (_, ?m)")
    using small_server_open by blast
  have s: "sm_step\<^sup>*\<^sup>* (sm_new True 100 100 small_params) small_server" by (simp add: small_server_def)
  have l: "\<not> is_local 4 True \<and> is_bidi 4" "\<not> is_local 8 True" "is_bidi 8" "drop_bit 2 8 = (2 :: u64)"
    by (simp_all add: is_local_def is_bidi_def drop_bit_eq_div)
  have "\<not> sm_is_closed 8 small_server" using l cc_new_peer(1) [of 8 True 3 3 3] by (simp add: sm_is_closed_def)
  then show ?thesis using peer_stream_takes_next_id [OF s l(1) _ _ _ c, of 0 False] c by simp
qed

end
