(* ===== verification/Stream_Queue.thy ===== *)
theory Stream_Queue
  imports Stream_Run "HOL-Library.Multiset"
begin

text \<open>
  The queue of streams that have something to send. Its contract is a scheduler: pushing adds a stream,
  peeking shows a queued stream of the most urgent kind and forgets none, and removing after a peek takes
  that one entry out. On top of it, every run of the stream map keeps each stream with data to send in the
  queue, so no data is left behind.
\<close>

subsection \<open>Contract\<close>

locale send_queue =
  fixes ok :: "'q \<Rightarrow> bool" and entries :: "'q \<Rightarrow> u64 multiset"
    and push :: "u64 \<Rightarrow> u8 \<Rightarrow> bool \<Rightarrow> 'q \<Rightarrow> 'q" and peek :: "'q \<Rightarrow> u64 option \<times> 'q" and remove :: "'q \<Rightarrow> 'q"
  assumes push_ok: "ok q \<Longrightarrow> ok (push i u inc q)" and push_entries: "ok q \<Longrightarrow> entries (push i u inc q) = add_mset i (entries q)"
    and peek_None: "ok q \<Longrightarrow> fst (peek q) = None \<longleftrightarrow> entries q = {#}"
    and peek_ok: "ok q \<Longrightarrow> ok (snd (peek q))" and peek_entries: "ok q \<Longrightarrow> entries (snd (peek q)) = entries q"
    and remove_ok: "ok q \<Longrightarrow> peek q = (Some i, q') \<Longrightarrow> ok (remove q')"
    and remove_entries: "ok q \<Longrightarrow> peek q = (Some i, q') \<Longrightarrow> entries q' = add_mset i (entries (remove q'))"
begin

lemma peeked:
  assumes "ok q" and "peek q = (Some i, q')"
  shows "entries q = add_mset i (entries (remove q'))"
  using remove_entries [OF assms] peek_entries [OF assms(1)] assms(2) by simp

lemma peek_queued: "ok q \<Longrightarrow> peek q = (Some i, q') \<Longrightarrow> i \<in># entries q"
  by (simp add: peeked)

lemma remove_shrinks: "ok q \<Longrightarrow> peek q = (Some i, q') \<Longrightarrow> size (entries (remove q')) < size (entries q)"
  by (simp add: peeked)

lemma remove_keeps: "ok q \<Longrightarrow> peek q = (Some i, q') \<Longrightarrow> j \<in># entries q \<Longrightarrow> j \<noteq> i \<Longrightarrow> j \<in># entries (remove q')"
  by (simp add: peeked)

end

subsection \<open>The queue of the stream map\<close>

definition pq_entries :: "priority_queue \<Rightarrow> u64 multiset" where
  "pq_entries q = mset (pq_non_incremental q) + mset (pq_incremental q)"

definition sq_entries :: "(u8, priority_queue) btree \<Rightarrow> u64 multiset" where
  "sq_entries m = sum_list (map (pq_entries \<circ> snd) m)"

text \<open>The levels are in order of urgency, and none is empty.\<close>

definition sq_ok :: "(u8, priority_queue) btree \<Rightarrow> bool" where
  "sq_ok m \<longleftrightarrow> bt_wf m \<and> (\<forall>p \<in> set m. pq_entries (snd p) \<noteq> {#})"

lemma sq_entries_simps [simp]: "sq_entries [] = {#}" "sq_entries (p # m) = pq_entries (snd p) + sq_entries m"
  by (simp_all add: sq_entries_def)

lemma pq_entries_simps [simp]:
  "pq_entries pq_default = {#}"
  "pq_entries (q\<lparr>pq_non_incremental := xs\<rparr>) = mset xs + mset (pq_incremental q)"
  "pq_entries (q\<lparr>pq_incremental := ys\<rparr>) = mset (pq_non_incremental q) + mset ys"
  by (simp_all add: pq_entries_def pq_default_def)

lemma sq_entries_insert:
  "bt_wf m \<Longrightarrow> pq_entries q' = add_mset i (case map_of m u of None \<Rightarrow> {#} | Some q \<Rightarrow> pq_entries q) \<Longrightarrow>
     sq_entries (bt_insert u q' m) = add_mset i (sq_entries m)"
proof (induction u q' m rule: bt_insert.induct)
  case (2 k v a b m)
  have "map_of m k = None" if "k < a" using 2(2) that by (force simp: bt_wf_Cons map_of_eq_None_iff)
  then show ?case using 2 by (auto simp: bt_wf_Cons)
qed simp

lemma sq_ok_simps [simp]:
  "sq_ok []" "sq_ok ((u, q) # m) \<longleftrightarrow> (\<forall>p \<in> set m. u < fst p) \<and> pq_entries q \<noteq> {#} \<and> sq_ok m"
  by (auto simp: sq_ok_def bt_wf_Cons)

text \<open>The three ways a peek goes: nothing queued, the least identifier of the level, or the next one in turn.\<close>

lemma peek_cases:
  assumes "sq_ok q"
  obtains (idle) "q = []" "peek_sendable_queue q = (None, [])"
    | (ordered) u p rest i xs where "q = (u, p) # rest" "pq_non_incremental p = i # xs" "peek_sendable_queue q = (Some i, q)"
    | (robin) u p rest i xs where "q = (u, p) # rest" "pq_non_incremental p = []" "pq_incremental p = i # xs"
        "peek_sendable_queue q = (Some i, (u, p\<lparr>pq_incremental := xs @ [i]\<rparr>) # rest)"
proof (cases q)
  case Nil
  then show thesis using idle by (simp add: peek_sendable_queue_def)
next
  case (Cons e rest)
  obtain u p where e: "e = (u, p)" by fastforce
  show thesis
  proof (cases "pq_non_incremental p")
    case Nil
    then obtain i xs where "pq_incremental p = i # xs"
      using assms Cons e by (cases "pq_incremental p") (auto simp: pq_entries_def)
    then show thesis using Nil Cons e robin by (simp add: peek_sendable_queue_def)
  next
    case (Cons i xs)
    then show thesis using \<open>q = e # rest\<close> e ordered by (simp add: peek_sendable_queue_def)
  qed
qed

interpretation sq: send_queue sq_ok sq_entries push_sendable_queue peek_sendable_queue remove_sendable_queue
proof
  fix q q' :: "(u8, priority_queue) btree" and i u inc
  assume ok: "sq_ok q"
  then have wf: "bt_wf q" and ne: "p \<in> set q \<Longrightarrow> pq_entries (snd p) \<noteq> {#}" for p by (auto simp: sq_ok_def)
  define p0 where "p0 = (case map_of q u of None \<Rightarrow> pq_default | Some p \<Rightarrow> p)"
  define p1 where "p1 = (if \<not> inc then p0\<lparr>pq_non_incremental := insort i (pq_non_incremental p0)\<rparr>
      else p0\<lparr>pq_incremental := pq_incremental p0 @ [i]\<rparr>)"
  have p: "push_sendable_queue i u inc q = bt_insert u p1 q" by (simp add: push_sendable_queue_def p1_def p0_def Let_def)
  have p1: "pq_entries p1 = add_mset i (pq_entries p0)" by (simp add: p1_def) (simp add: pq_entries_def)
  show "sq_ok (push_sendable_queue i u inc q)" using wf ne p1 by (auto simp: p sq_ok_def bt_wf_insert set_bt_insert)
  show "sq_entries (push_sendable_queue i u inc q) = add_mset i (sq_entries q)"
    unfolding p by (rule sq_entries_insert [OF wf]) (simp add: p1 p0_def split: option.split)
  show "fst (peek_sendable_queue q) = None \<longleftrightarrow> sq_entries q = {#}" "sq_entries (snd (peek_sendable_queue q)) = sq_entries q"
    "sq_ok (snd (peek_sendable_queue q))"
    using ok by (cases rule: peek_cases; simp add: pq_entries_def)+
  assume peek: "peek_sendable_queue q = (Some i, q')"
  show "sq_ok (remove_sendable_queue q')" "sq_entries q' = add_mset i (sq_entries (remove_sendable_queue q'))"
    using ok peek by (cases rule: peek_cases; simp add: remove_sendable_queue_def pq_entries_def Let_def split: list.split)+
qed

subsection \<open>Streams with data stay queued\<close>

definition live :: "'c stream_map \<Rightarrow> bool" where
  "live m \<longleftrightarrow> sq_ok (sm_sendable m)
     \<and> (\<forall>i s. sm_streams m i = Some s \<longrightarrow> st_is_sendable s \<longrightarrow> i \<in># sq_entries (sm_sendable m))"

lemma liveD: "live m \<Longrightarrow> sm_streams m i = Some s \<Longrightarrow> st_is_sendable s \<Longrightarrow> i \<in># sq_entries (sm_sendable m)"
  by (simp add: live_def)

lemma live_fields: "sm_streams m' = sm_streams m \<Longrightarrow> sm_sendable m' = sm_sendable m \<Longrightarrow> live m' = live m"
  by (simp add: live_def)

lemma live_marks [simp]:
  "live (mark_readable i b m) = live m" "live (mark_writable i b m) = live m" "live (mark_almost_full i b m) = live m"
  "live (mark_blocked i b off m) = live m" "live (mark_reset i b e f m) = live m" "live (mark_stopped i b e m) = live m"
  "live (m\<lparr>sm_rx_almost_full := b\<rparr>) = live m" "live (m\<lparr>sm_events := q\<rparr>) = live m" "live (update_data_blocked_at x m) = live m"
  "live (m\<lparr>sm_flow := fc\<rparr>) = live m" "live (m\<lparr>sm_capacity := c\<rparr>) = live m" "live (m\<lparr>sm_cc := cc\<rparr>) = live m"
  "live (m\<lparr>sm_peer_params := tp\<rparr>) = live m"
  by (rule live_fields; simp add: mark_readable_def mark_writable_def mark_almost_full_def mark_blocked_def mark_reset_def
      mark_stopped_def update_data_blocked_at_def)+

lemma live_consume [simp]: "live (consume_rx n m) = live m"
  by (rule live_fields) (simp_all add: consume_rx_def Let_def)

lemma live_spend [simp]: "live (spend_tx n m) = live m" "live (give_back_tx u m) = live m"
  by (rule live_fields; simp add: spend_tx_def give_back_tx_def Let_def)+

lemma live_if: "(P \<Longrightarrow> live a) \<Longrightarrow> (\<not> P \<Longrightarrow> live b) \<Longrightarrow> live (if P then a else b)"
  by simp

lemma live_put: "live m \<Longrightarrow> (st_is_sendable s \<Longrightarrow> i \<in># sq_entries (sm_sendable m)) \<Longrightarrow> live (put_stream i s m)"
  by (auto simp: live_def put_stream_def)

lemma live_put_same: "live m \<Longrightarrow> sm_streams m i = Some s0 \<Longrightarrow> st_send s = st_send s0 \<Longrightarrow> live (put_stream i s m)"
  by (rule live_put) (auto simp: st_is_sendable_def dest: liveD)

text \<open>A change to the send side that makes the stream sendable is followed by a push.\<close>

lemma live_push: "live (put_stream i s m) \<Longrightarrow> live (push_sendable i u inc (put_stream i s m))"
  by (auto simp: live_def push_sendable_def sq.push_ok sq.push_entries)

lemma live_put_push: "live m \<Longrightarrow> live (push_sendable i u inc (put_stream i s m))"
  by (auto simp: live_def push_sendable_def put_stream_def sq.push_ok sq.push_entries)

lemma live_destroy [simp]: "live m \<Longrightarrow> live (stream_destroy i m)"
  by (auto simp: live_def stream_destroy_def)

lemma live_closed: "live m \<Longrightarrow> live (mark_closed i loc m)"
proof (cases "sm_is_closed i m")
  case False
  assume l: "live m"
  define m1 where "m1 = (if \<not> loc then m\<lparr>sm_cc := increase_max_streams_credits (is_bidi i) 1 (sm_cc m)\<rparr> else m)"
  define m2 where "m2 = mark_writable i False (mark_readable i False m1)"
  define m3 where "m3 = (case sm_streams m2 i of Some s \<Rightarrow> put_stream i (st_mark_closed s) m2 | None \<Rightarrow> m2)"
  have "live m2" using l by (simp add: m2_def m1_def)
  then have l3: "live m3" by (auto simp: m3_def st_mark_closed_def intro: live_put_same split: option.split)
  obtain a q where q: "events_add (EvStreamClosed i) (sm_events m3) = (a, q)" by fastforce
  have "mark_closed i loc m = (if a then m3\<lparr>sm_events := q\<rparr> else stream_destroy i (m3\<lparr>sm_events := q\<rparr>))"
    using False q unfolding mark_closed_def Let_def m3_def m2_def m1_def by simp
  then show ?thesis using l3 by simp
qed (simp add: mark_closed_def)

lemma live_close_if: "live m \<Longrightarrow> live (close_if_complete i s m)"
  by (simp add: close_if_complete_def live_closed)

lemma get_or_create_live:
  assumes l: "live m" and ok: "sm_ok m" and r: "get_or_create i loc m = (r, m')"
  shows "live m'" and "r = Ok s \<Longrightarrow> sm_streams m' i = Some s \<and> st_ok s"
proof -
  note g = get_or_create_spec [OF ok r]
  have "live m' \<and> (\<forall>s. r = Ok s \<longrightarrow> sm_streams m' i = Some s \<and> st_ok s)"
  proof (cases r)
    case (Ok s)
    have "live (put_stream i s m)" using l g(10) [OF Ok] by (intro live_put) (auto dest: liveD)
    then show ?thesis using g(5,6,9) Ok by (auto simp: live_def put_stream_def entry_ok_def)
  next
    case (Err e)
    then show ?thesis using l g(5,7) by (simp add: live_def)
  qed (use g(2) in simp)
  then show "live m'" "r = Ok s \<Longrightarrow> sm_streams m' i = Some s \<and> st_ok s" by auto
qed

text \<open>Every call keeps the streams with data in the queue. Most leave the send side alone.\<close>

lemma live_priority:
  assumes "live m" and "sm_ok m"
  shows "stream_set_priority i u inc m = (r, m') \<Longrightarrow> live m'" and "stream_set_context i ctx m = (r, m') \<Longrightarrow> live m'"
proof -
  obtain g m1 where g: "get_or_create i True m = (g, m1)" by fastforce
  note gl = get_or_create_live [OF assms g]
  have put: "live (put_stream i s' m1)" if "g = Ok s" "st_send s' = st_send s" for s s'
    using live_put_same [OF gl(1)] gl(2) [OF that(1)] that(2) by blast
  show "live m'" if "stream_set_priority i u inc m = (r, m')"
    using that g gl(1) put by (cases g) (auto simp: stream_set_priority_def split: if_splits)
  show "live m'" if "stream_set_context i ctx m = (r, m')"
    using that g gl(1) put by (cases g) (auto simp: stream_set_context_def)
qed

lemma live_new:
  assumes "live m" and "sm_ok m"
  shows "stream_bidi_new u inc m = (r, m') \<Longrightarrow> live m'" and "stream_uni_new u inc m = (r', m') \<Longrightarrow> live m'"
  using live_priority(1) [OF assms, of _ u inc]
  by (auto simp: stream_bidi_new_def stream_uni_new_def bind_s_def Let_def split: result.splits prod.splits)

lemma live_want [simp]: "live m \<Longrightarrow> live (snd (want_write i b m))" "live m \<Longrightarrow> live (snd (want_read i b m))"
  by (auto simp: want_write_def want_read_def st_mark_wantwrite_def st_mark_wantread_def Let_def
      intro: live_put_same split: option.split)

lemma live_read:
  assumes "live m" and r: "stream_read i cap m = (r, m')"
  shows "live m'"
proof (cases "sm_streams m i")
  case (Some s)
  obtain q rv where q: "rv_read cap (st_recv s) = (q, rv)" by fastforce
  have "live (put_stream i (s\<lparr>st_recv := rv\<rparr>) m)" using assms(1) Some by (intro live_put_same) auto
  then show ?thesis using r Some q assms(1) unfolding stream_read_def Let_def
    by (auto split: if_splits result.splits prod.splits intro: live_closed)
qed (use assms in \<open>auto simp: stream_read_def split: if_splits\<close>)

text \<open>The pattern of the calls that change the send side: when the stream has become sendable, it is pushed.\<close>

lemma live_pushed:
  assumes "live m" and "sm_streams m i = Some s" and "sm_streams m' = (sm_streams m)(i \<mapsto> x)" and "sm_sendable m' = sm_sendable m"
    and "st_is_sendable x \<Longrightarrow> push \<or> st_is_sendable s"
  shows "live (if push then push_sendable i u inc m' else m')"
  using assms by (auto simp: live_def push_sendable_def sq.push_ok sq.push_entries)

lemma note_blocked_streams:
  assumes "st_ok s"
  shows "\<exists>x. sm_streams (note_blocked i short s (put_stream i s m)) = (sm_streams m)(i \<mapsto> x) \<and> st_is_sendable x = st_is_sendable s"
    and "sm_sendable (note_blocked i short s (put_stream i s m)) = sm_sendable m"
  using assms sd_inv_fields(4) [of "st_send s"]
  by (auto simp: note_blocked_def Let_def mark_blocked_def put_stream_def st_is_sendable_def st_ok_def)

lemma live_write_some:
  assumes l: "live m" and ok: "st_ok s" and s: "sm_streams m i = Some s" and n: "length buf < 2 ^ 62"
    and r: "stream_write_some i buf fin blocked ew s m = (r, m')"
  shows "live m'"
proof -
  obtain q sd where w: "sd_write buf fin (st_send s) = (q, sd)" by fastforce
  note ws = sd_inv_write [OF _ n w]
  define s1 where "s1 = s\<lparr>st_send := sd\<rparr>"
  have s1: "st_ok s1" using ok ws(1) by (simp add: s1_def st_ok_def)
  show ?thesis
  proof (cases q)
    case (Ok n')
    define m2 where "m2 = note_blocked i (n' < length buf) s1 (put_stream i s1 m)"
    define m3 where "m3 = (if (st_is_sendable s1 \<or> length buf = 0 \<and> fin) \<and> \<not> st_is_sendable s
        then push_sendable i (st_urgency s1) (st_incremental s1) m2 else m2)"
    define m4 where "m4 = (if \<not> st_is_writable s1 then mark_writable i False m3
        else if st_is_writable s \<and> blocked then mark_writable i True m3 else m3)"
    obtain x where x: "sm_streams m2 = (sm_streams m)(i \<mapsto> x)" "st_is_sendable x = st_is_sendable s1"
      using note_blocked_streams(1) [OF s1, of i "n' < length buf" m] unfolding m2_def by blast
    have "live m3" unfolding m3_def
      by (rule live_pushed [OF l s x(1)]) (use x(2) note_blocked_streams(2) [OF s1] in \<open>auto simp: m2_def\<close>)
    then have "live (spend_tx n' m4)" by (simp add: m4_def)
    moreover have "m' = (if n' < ew then snd (want_write i True (spend_tx n' m4)) else spend_tx n' m4)"
      using r w Ok unfolding stream_write_some_def Let_def m4_def m3_def m2_def s1_def by (auto split: if_splits)
    ultimately show ?thesis by simp
  next
    case (Err e)
    have "live (put_stream i s1 m)"
      using l s ws(4) [OF _ Err] ok by (intro live_put) (auto simp: s1_def st_is_sendable_def st_ok_def dest: liveD)
    moreover have "m' = mark_writable i False (put_stream i s1 m)"
      using r w Err unfolding stream_write_some_def Let_def s1_def by auto
    ultimately show ?thesis by simp
  qed (use ws(2) ok in \<open>simp add: st_ok_def\<close>)
qed

lemma live_write:
  assumes l: "live m" and ok: "sm_ok m" and n: "length buf < 2 ^ 62" and r: "stream_write i buf fin m = (r, m')"
  shows "live m'"
proof (cases "\<not> is_bidi i \<and> \<not> is_local i (sm_is_server m)")
  case True
  then show ?thesis using r l by (auto simp: stream_write_def)
next
  case False
  define m1 where "m1 = (if max_tx_data_left m < as_u64 (length buf)
      then update_data_blocked_at (Some (sc_max_data (sm_capacity m))) m else m)"
  have k1: "sm_ok m1" "live m1" using l ok sm_kept_marks(11) [of m m] sm_kept_ok by (auto simp: m1_def)
  obtain g m2 where g: "get_or_create i True m1 = (g, m2)" by fastforce
  note gl = get_or_create_live [OF k1(2,1) g]
  define c where "c = sc_capacity (sm_capacity m1)"
  have eq: "stream_write i buf fin m = bind_s (get_or_create i True) (\<lambda>s m2.
        if c = 0 \<and> buf \<noteq> [] then (Err Done, snd (want_write i True (if st_is_writable s then mark_writable i True m2 else m2)))
        else if c < length buf then stream_write_some i (take c buf) False True (length buf) s m2
        else stream_write_some i buf fin False (length buf) s m2) m1"
    unfolding stream_write_def m1_def c_def Let_def by (rule if_not_P [OF False])
  show ?thesis
  proof (cases g)
    case (Ok s)
    have s: "sm_streams m2 i = Some s" "st_ok s" using gl(2) [OF Ok] by auto
    note some = live_write_some [OF gl(1) s(2,1)]
    have "length (take c buf) < 2 ^ 62" using n by simp
    then show ?thesis using r eq g Ok some [of "take c buf"] some [of buf] n gl(1)
      by (auto simp: bind_s_def split: if_splits)
  qed (use r eq g gl(1) in \<open>auto simp: bind_s_def\<close>)
qed

lemma live_shutdown:
  assumes l: "live m" and ok: "sm_ok m" and r: "stream_shutdown i d err m = (r, m')"
  shows "live m'"
proof (cases "sm_streams m i")
  case (Some s)
  obtain q rv where q: "rv_shut (st_recv s) = (q, rv)" by fastforce
  obtain p sd where p: "sd_shut (st_send s) = (p, sd)" by fastforce
  have inv: "sd_inv (st_send s)" using sm_ok_entry [OF ok Some] by (simp add: entry_ok_def st_ok_def)
  have "live (put_stream i (s\<lparr>st_recv := rv\<rparr>) m)" using l Some by (intro live_put_same) auto
  moreover have "live (put_stream i (s\<lparr>st_send := sd\<rparr>) m)"
    using l Some sd_inv_shut(3) [OF inv p] by (intro live_put) (auto simp: st_is_sendable_def dest: liveD)
  ultimately show ?thesis using r Some q p l
    by (cases d) (auto simp: stream_shutdown_def stream_shutdown_read_def stream_shutdown_write_def Let_def
        split: if_splits result.splits)
qed (use r l in \<open>auto simp: stream_shutdown_def\<close>)

lemma live_writable:
  assumes l: "live m" and ok: "sm_ok m" and r: "stream_writable i len m = (r, m')"
  shows "live m'"
proof (cases "sm_streams m i")
  case (Some s)
  have inv: "sd_inv (st_send s)" using sm_ok_entry [OF ok Some] by (simp add: entry_ok_def st_ok_def)
  define m1 where "m1 = (if max_tx_data_left m < as_u64 len then update_data_blocked_at (Some (sc_max_data (sm_capacity m))) m else m)"
  define s1 where "s1 = s\<lparr>st_write_thresh := max 1 len\<rparr>"
  define s2 where "s2 = s1\<lparr>st_send := sd_update_blocked_at (Some (sd_max_data (st_send s1))) (st_send s1)\<rparr>"
  have m1: "live m1" "sm_streams m1 i = Some s" using l Some by (simp_all add: m1_def update_data_blocked_at_def)
  have l1: "live (put_stream i s1 m1)" using m1 by (intro live_put_same) (auto simp: s1_def)
  have l2: "live (put_stream i s2 (put_stream i s1 m1))"
    by (rule live_put [OF l1]) (use sd_inv_fields(4) [OF inv] liveD [OF m1] in \<open>auto simp: st_is_sendable_def s2_def s1_def put_stream_def\<close>)
  have eq: "stream_writable i len m = bind_s (lift_s (stream_capacity i)) (\<lambda>c _.
      if len \<le> c then (Ok True, m)
      else bind_s (lift_s (\<lambda>_. sd_capacity (st_send s1))) (\<lambda>c m2.
        if c < len then
          (Ok False, if sd_blocked_at (st_send s1) \<noteq> Some (sd_max_data (st_send s1))
             then mark_blocked i True (sd_max_data (st_send s1)) (put_stream i s2 m2) else m2)
        else (Ok False, if st_is_writable s1 then mark_writable i True m2 else m2)) (put_stream i s1 m1)) m"
    unfolding m1_def s1_def s2_def by (rule stream_writable_eq [OF Some])
  show ?thesis using r l l1 l2 unfolding eq
    by (auto simp: bind_s_def lift_s_def split: if_splits result.splits)
qed (use r l in \<open>auto simp: stream_writable_def stream_capacity_def bind_s_def lift_s_def\<close>)

lemma live_max_stream_data:
  assumes l: "live m" and ok: "sm_ok m" and r: "on_max_stream_data_frame_received i mx m = (r, m')"
  shows "live m'"
proof -
  obtain g m1 where g: "get_or_create i False m = (g, m1)" by fastforce
  note gl = get_or_create_live [OF l ok g]
  show ?thesis
  proof (cases g)
    case (Ok s)
    have s: "sm_streams m1 i = Some s" "st_ok s" using gl(2) [OF Ok] by auto
    define s1 where "s1 = s\<lparr>st_send := sd_update_max_data mx (st_send s)\<rparr>"
    have "st_is_sendable s1 = st_is_sendable s"
      using sd_inv_fields(3) [of "st_send s" mx] s(2) by (simp add: s1_def st_is_sendable_def st_ok_def)
    then have "live (put_stream i s1 m1)" using gl(1) s(1) by (intro live_put) (auto dest: liveD)
    then show ?thesis using r g Ok l unfolding on_max_stream_data_frame_received_def Let_def s1_def
      by (auto split: if_splits intro: live_push)
  qed (use r g gl(1) l in \<open>auto simp: on_max_stream_data_frame_received_def split: if_splits\<close>)
qed

lemma live_reset_accepted: "live m \<Longrightarrow> live (reset_accepted i was d f s m)"
  by (simp add: reset_accepted_def Let_def live_closed)

lemma live_recv:
  assumes l: "live m" and ok: "sm_ok m"
  shows "on_stream_frame_received i off len fin data m = (r, m') \<Longrightarrow> live m'"
    and "on_reset_stream_frame_received i code fsize m = (r, m') \<Longrightarrow> live m'"
proof -
  obtain g m1 where g: "get_or_create i False m = (g, m1)" by fastforce
  note gl = get_or_create_live [OF l ok g]
  have put: "live (put_stream i (s\<lparr>st_recv := rv\<rparr>) m1)" if "g = Ok s" for s rv
    using live_put_same [OF gl(1)] gl(2) [OF that] by simp
  show "live m'" if "on_stream_frame_received i off len fin data m = (r, m')"
    using that g gl(1) l put unfolding on_stream_frame_received_def Let_def
    by (cases g) (auto split: if_splits result.splits prod.splits)
  show "live m'" if "on_reset_stream_frame_received i code fsize m = (r, m')"
    using that g gl(1) l put unfolding on_reset_stream_frame_received_def Let_def
    by (cases g) (auto split: if_splits result.splits prod.splits intro: live_reset_accepted)
qed

lemma live_stop:
  assumes l: "live m" and ok: "sm_ok m" and r: "on_stop_sending_frame_received i err m = (r, m')"
  shows "live m'"
proof -
  obtain g m1 where g: "get_or_create i False m = (g, m1)" by fastforce
  note gl = get_or_create_live [OF l ok g]
  show ?thesis
  proof (cases g)
    case (Ok s)
    have s: "sm_streams m1 i = Some s" "sd_inv (st_send s)" using gl(2) [OF Ok] by (auto simp: st_ok_def)
    obtain p sd where p: "sd_stop err (st_send s) = (p, sd)" by fastforce
    have "live (put_stream i (s\<lparr>st_send := sd\<rparr>) m1)"
      using gl(1) s sd_inv_stop(3) [OF s(2) p] by (intro live_put) (auto simp: st_is_sendable_def dest: liveD)
    then show ?thesis using r g Ok p l unfolding on_stop_sending_frame_received_def Let_def
      by (auto split: if_splits result.splits prod.splits)
  qed (use r g gl(1) l in \<open>auto simp: on_stop_sending_frame_received_def split: if_splits\<close>)
qed

lemma live_acked:
  assumes l: "live m" and ok: "sm_ok m" and sent: "was_sent i off len m"
  shows "on_stream_frame_acked i off len m = (r, m') \<Longrightarrow> live m'" and "live (on_stream_frame_lost i off len fin m)"
proof -
  have "(on_stream_frame_acked i off len m = (r, m') \<longrightarrow> live m') \<and> live (on_stream_frame_lost i off len fin m)"
  proof (cases "sm_streams m i")
    case (Some s)
    have inv: "sd_inv (st_send s)" using sm_ok_entry [OF ok Some] by (simp add: entry_ok_def st_ok_def)
    obtain sd where sd: "ack_and_drop off len (st_send s) = (Ok (), sd)" "sd_ready sd \<Longrightarrow> sd_ready (st_send s)"
      using sd_inv_ack [OF inv] sent Some by (auto simp: was_sent_def)
    have "live (put_stream i (s\<lparr>st_send := sd\<rparr>) m)"
      using l Some sd(2) by (intro live_put) (auto simp: st_is_sendable_def dest: liveD)
    moreover have "live (on_stream_frame_lost i off len fin m)"
      using l Some live_pushed [OF l Some, of "put_stream i (s\<lparr>st_send := retransmit off len (st_send s)\<rparr>) m"]
      unfolding on_stream_frame_lost_def Let_def by (simp add: put_stream_def)
    ultimately show ?thesis using Some sd(1) by (auto simp: on_stream_frame_acked_def Let_def live_close_if)
  qed (use l in \<open>auto simp: on_stream_frame_acked_def on_stream_frame_lost_def\<close>)
  then show "on_stream_frame_acked i off len m = (r, m') \<Longrightarrow> live m'" "live (on_stream_frame_lost i off len fin m)" by auto
qed

lemma sd_read_idle: "\<not> sd_ready s \<Longrightarrow> sd_read cap s = Some (Ok ([], sd_fin_off s = Some (sd_send_off s)), s)"
  by (simp add: sd_read_def may_send_def)

lemma live_send: "live m \<Longrightarrow> send_from i cap m = Some (out, m') \<Longrightarrow> live m'"
proof -
  assume l: "live m" and r: "send_from i cap m = Some (out, m')"
  obtain s sd where s: "sm_streams m i = Some s" "sd_read cap (st_send s) = Some (out, sd)" "m' = put_stream i (s\<lparr>st_send := sd\<rparr>) m"
    using r by (auto simp: send_from_def split: option.splits)
  have "sd_ready (st_send s)" if "sd_ready sd" using that s(2) sd_read_idle [of "st_send s" cap] by auto
  then show "live m'" unfolding s(3) by (intro live_put l) (simp add: st_is_sendable_def liveD [OF l s(1)])
qed

lemma live_with_recv: "live m \<Longrightarrow> live (with_recv i f m)"
  by (auto simp: with_recv_def intro: live_put_same split: option.split)

lemma live_peek: "live m \<Longrightarrow> live (snd (peek_sendable m))"
  using sq.peek_ok [of "sm_sendable m"] sq.peek_entries [of "sm_sendable m"]
  by (auto simp: live_def peek_sendable_def split: prod.split)

lemmas live_rest = on_max_data_frame_received_def on_max_streams_frame_received_def on_reset_stream_frame_acked_def
  on_reset_stream_frame_lost_def on_stop_sending_frame_lost_def on_max_stream_data_frame_lost_def on_max_data_frame_lost_def
  on_stream_data_blocked_frame_lost_def on_data_blocked_frame_lost_def on_streams_blocked_frame_lost_def
  update_peer_stream_transport_params_def update_max_rx_data_def sm_autotune_window_def sm_ensure_window_lower_bound_def
  sm_update_local_max_streams_def sm_update_streams_blocked_at_def Let_def

lemma sm_step_live:
  assumes "sm_step m m'" and l: "live m" and ok: "sm_ok m"
  shows "live m'"
  using assms(1)
proof cases
  case step_peek
  then show ?thesis using live_peek l by simp
next
  case step_send
  then show ?thesis using live_send [OF l] by blast
next
  case step_max_stream_data_sent
  then show ?thesis using live_with_recv [OF l] by simp
next
  case step_app_read
  then show ?thesis using live_read [OF l] by blast
next
  case step_recv_max_stream_data
  then show ?thesis using live_max_stream_data [OF l ok] by blast
next
  case step_lost
  then show ?thesis using live_acked(2) [OF l ok] by blast
next
  case step_app_write
  then show ?thesis using live_write [OF l ok] by blast
next
  case step_acked
  then show ?thesis using live_acked(1) [OF l ok] by blast
qed (use l in \<open>auto simp: live_rest live_close_if split: option.split if_splits
    dest: live_priority [OF l ok] live_new [OF l ok] live_shutdown [OF l ok] live_writable [OF l ok]
      live_recv [OF l ok] live_stop [OF l ok]\<close>)

lemma live_new_map: "live (sm_new srv cw sw tp)"
  by (simp add: live_def sm_new_def)

lemma reachable_live:
  assumes "sm_step\<^sup>*\<^sup>* (sm_new srv cw sw tp) m"
  shows "live m"
  using assms
proof (induction rule: rtranclp_induct)
  case (step m m')
  then show ?case using sm_step_live reachable_ok(1) by blast
qed (rule live_new_map)

lemma live_peeks:
  assumes l: "live m" and s: "sm_streams m i = Some s" "st_is_sendable s"
  shows "i \<in># sq_entries (sm_sendable m) \<and> (\<exists>j m'. peek_sendable m = (Some j, m') \<and> j \<in># sq_entries (sm_sendable m))"
proof -
  have i: "i \<in># sq_entries (sm_sendable m)" by (rule liveD [OF l s])
  have ok: "sq_ok (sm_sendable m)" using l by (simp add: live_def)
  obtain r q where p: "peek_sendable_queue (sm_sendable m) = (r, q)" by fastforce
  then obtain j where j: "r = Some j" using sq.peek_None [OF ok] i by (cases r) auto
  then show ?thesis using i p sq.peek_queued [OF ok, of j q] by (auto simp: peek_sendable_def)
qed

end
