(* ===== verification/Stream_Send.thy ===== *)
theory Stream_Send
  imports Stream_Queue Frame "HOL-Library.Log_Nat"
begin

text \<open>
  The stream frames that a connection writes into a packet: the control frames of streams and of
  connection-level flow control, and the STREAM frames with data
  (\<open>try_write_stream_control_frames\<close> and \<open>try_write_stream_frames\<close> of
  src/connection/connection.rs). The status of the packet keeps the fields that these functions change;
  the output slice is the bytes written and the room left. The path's state, the closing flag and the
  order in which a hash set is iterated are arguments.
\<close>

subsection \<open>The packet being written\<close>

record frame_write_status =
  ws_buf :: wbuf
  ws_frames :: "frame list"
  ws_ack_eliciting :: bool
  ws_in_flight :: bool
  ws_has_data :: bool

definition write_frame_to_packet :: "frame \<Rightarrow> (unit, error, frame_write_status) meth" where
  "write_frame_to_packet f st =
     (case frame_wire_len f of
        Err e \<Rightarrow> (Err e, st)
      | Panic \<Rightarrow> (Panic, st)
      | Ok n \<Rightarrow>
          if room (ws_buf st) < n then (Err Done, st)
          else case frame_to_bytes f (ws_buf st) of
            Err e \<Rightarrow> (Err e, st)
          | Panic \<Rightarrow> (Panic, st)
          | Ok (_, b) \<Rightarrow> (Ok (), st\<lparr>ws_buf := b, ws_frames := ws_frames st @ [f]\<rparr>))"

subsection \<open>STREAM frames\<close>

definition MAX_STREAM_OVERHEAD :: nat where
  "MAX_STREAM_OVERHEAD = 19"

definition note_frame :: "frame \<Rightarrow> frame_write_status \<Rightarrow> frame_write_status" where
  "note_frame f st = st\<lparr>ws_ack_eliciting := True, ws_in_flight := True, ws_has_data := True, ws_frames := ws_frames st @ [f]\<rparr>"

text \<open>One round of the loop for a stream with data: the header has its room reserved, the data is read
  behind it, then the header is written in front.\<close>

definition write_stream_frame ::
  "bool \<Rightarrow> u64 \<Rightarrow> 'c stream \<Rightarrow> frame_write_status \<Rightarrow> (unit res \<times> 'c stream \<times> frame_write_status) option" where
  "write_stream_frame retain i s st =
     (let off = sd_send_off (st_send s);
          cap = room (ws_buf st)
      in case stream_header_wire_len i off of
           Err e \<Rightarrow> Some (Err e, s, st)
         | Panic \<Rightarrow> Some (Panic, s, st)
         | Ok hdr \<Rightarrow>
             if cap < hdr then Some (Panic, s, st)
             else case sd_read (cap - hdr) (st_send s) of
               None \<Rightarrow> None
             | Some (Err e, sd) \<Rightarrow> Some (Err e, s\<lparr>st_send := sd\<rparr>, st)
             | Some (Panic, sd) \<Rightarrow> Some (Panic, s\<lparr>st_send := sd\<rparr>, st)
             | Some (Ok (d, fin), sd) \<Rightarrow>
                 (case encode_stream_header i off (as_u64 (length d)) fin (new_wbuf hdr) of
                    Err e \<Rightarrow> Some (Err e, s\<lparr>st_send := sd\<rparr>, st)
                  | Panic \<Rightarrow> Some (Panic, s\<lparr>st_send := sd\<rparr>, st)
                  | Ok (_, h) \<Rightarrow>
                      let frame_len = hdr + length d;
                          b = \<lparr>written = written (ws_buf st) @ written h @ d, room = cap - frame_len\<rparr>;
                          f = Stream i off (length d) fin (if retain then d else [])
                      in Some (Ok (), s\<lparr>st_send := sd\<rparr>, note_frame f (st\<lparr>ws_buf := b\<rparr>))))"

definition open_sender :: "u64 \<Rightarrow> 'c stream_map \<Rightarrow> 'c stream option" where
  "open_sender i m =
     (case sm_streams m i of Some s \<Rightarrow> if \<not> sd_is_stopped (st_send s) then Some s else None | None \<Rightarrow> None)"

text \<open>A round uses up room, and skipping a stream shortens the queue.\<close>

lemma header_len_pos: "stream_header_wire_len i off = Ok n \<Longrightarrow> 0 < n"
  by (auto simp: stream_header_wire_len_def bind_r_Ok_iff)

lemma write_stream_frame_room:
  assumes "write_stream_frame retain i s st = Some (Ok u, s', st')"
  shows "room (ws_buf st') < room (ws_buf st)"
  using assms header_len_pos
  by (fastforce simp: write_stream_frame_def Let_def note_frame_def split: result.splits if_splits option.splits prod.splits)

lemma skip_shrinks:
  assumes "peek_sendable m = (Some i, m')"
  shows "size (sq_entries (sm_sendable (remove_sendable m'))) < size (sq_entries (sm_sendable m))"
proof -
  obtain q where q: "peek_sendable_queue (sm_sendable m) = (Some i, q)" "m' = m\<lparr>sm_sendable := q\<rparr>"
    using assms by (auto simp: peek_sendable_def split: prod.splits)
  then show ?thesis
    by (auto simp: peek_sendable_queue_def remove_sendable_queue_def remove_sendable_def pq_entries_def Let_def
        split: list.splits if_splits)
qed

function write_stream_frames ::
  "bool \<Rightarrow> 'c stream_map \<Rightarrow> frame_write_status \<Rightarrow> (unit res \<times> 'c stream_map \<times> frame_write_status) option" where
  "write_stream_frames retain m st =
     (case peek_sendable m of
        (None, m') \<Rightarrow> Some (Ok (), m', st)
      | (Some i, m') \<Rightarrow>
          (case open_sender i m' of
             None \<Rightarrow> write_stream_frames retain (remove_sendable m') st
           | Some s \<Rightarrow>
               (case write_stream_frame retain i s st of
                  None \<Rightarrow> None
                | Some (Err e, s', st') \<Rightarrow> Some (Err e, put_stream i s' m', st')
                | Some (Panic, s', st') \<Rightarrow> Some (Panic, put_stream i s' m', st')
                | Some (Ok _, s', st') \<Rightarrow>
                    let m'' = put_stream i s' m';
                        m''' = (if \<not> st_is_sendable s' then remove_sendable m'' else m'')
                    in if room (ws_buf st') \<le> MAX_STREAM_OVERHEAD then Some (Ok (), m''', st')
                       else write_stream_frames retain m''' st')))"
  by pat_completeness auto
termination
  by (relation "measures [\<lambda>(_, _, st). room (ws_buf st), \<lambda>(_, m, _). size (sq_entries (sm_sendable m))]")
    (auto intro: skip_shrinks [OF sym] dest: write_stream_frame_room)

declare write_stream_frames.simps [simp del]

definition try_write_stream_frames ::
  "packet_type \<Rightarrow> bool \<Rightarrow> bool res \<Rightarrow> bool \<Rightarrow> 'c stream_map \<Rightarrow> frame_write_status
    \<Rightarrow> (unit res \<times> 'c stream_map \<times> frame_write_status) option" where
  "try_write_stream_frames pkt_type closing path_active retain m st =
     (if pkt_type \<noteq> OneRTT \<and> pkt_type \<noteq> ZeroRTT \<or> closing \<or> room (ws_buf st) \<le> MAX_STREAM_OVERHEAD
      then Some (Ok (), m, st)
      else case path_active of
        Err e \<Rightarrow> Some (Err e, m, st)
      | Panic \<Rightarrow> Some (Panic, m, st)
      | Ok active \<Rightarrow> if \<not> active then Some (Ok (), m, st) else write_stream_frames retain m st)"

subsection \<open>One frame\<close>

lemma sd_inv_read_spec:
  assumes "sd_inv s" and "cap < 2 ^ 64"
  shows "\<exists>d fin s'. sd_read cap s = Some (Ok (d, fin), s') \<and> sd_inv s' \<and> length d \<le> cap \<and> unat (sd_send_off s) + length d < 2 ^ 62
    \<and> (d \<noteq> [] \<longleftrightarrow> 0 < cap \<and> sd_ready s) \<and> (sd_ready s' \<longrightarrow> sd_ready s)"
  using assms(1)
proof (cases rule: sd_inv_cases)
  case (active w)
  obtain d s' where r: "sd_read cap s = Some (Ok (d, sd_fin_off s = Some (sd_send_off s + as_u64 (length d))), s')"
    "sd_ok w s'" "sd_sent d s s'" "length d \<le> cap" "d = take (length d) (drop (unat (sd_send_off s)) w)" "d \<noteq> [] \<longleftrightarrow> 0 < cap \<and> sd_ready s"
    using sd_read_spec [OF active(1) assms(2)] by blast
  have len: "length w < 2 ^ 62" "unat (sd_send_off s) \<le> length w"
    using active send_off_spec(1) [OF active(1)] by (auto simp: sd_ok_def word_le_nat_alt)
  have "length d \<le> length w - unat (sd_send_off s)" using arg_cong [OF r(5), of length] by simp
  moreover have "sd_ready s" if "sd_ready s'" using that r(1) sd_read_idle [of s cap] by auto
  ultimately show ?thesis using r len active(2) by (intro exI conjI) (auto simp: sd_inv_def sd_sent_def)
next
  case ended
  have "unat (sd_send_off s) < 2 ^ 62"
    using sd_inv_unsent [OF assms(1)] sd_inv_send_off [OF assms(1)] by (simp add: word_le_nat_alt)
  then show ?thesis using sd_read_idle [of s cap] ended_not_ready [OF ended(1)] assms(1) by auto
qed

lemma length_varint_le: "n \<le> VINT_MAX \<Longrightarrow> length (varint_bytes n) \<le> 8"
  by (simp add: varint_bytes_def)

lemma length_len2 [simp]: "length (len2_bytes n) = 2"
  by (simp add: len2_bytes_def)

text \<open>The bytes of the header and the data are those of the STREAM frame.\<close>

lemma stream_frame_bytes:
  assumes "i \<le> VINT_MAX" and "off \<le> VINT_MAX"
  shows "\<exists>hd. stream_header_wire_len i off = Ok (length hd) \<and> length hd \<le> MAX_STREAM_OVERHEAD
    \<and> encode_stream_header i off (as_u64 (length d)) fin (new_wbuf (length hd)) = Ok (length hd, put_slice hd (new_wbuf (length hd)))
    \<and> frame_wire (Stream i off (length d) fin d) = hd @ d"
proof -
  let ?h = "varint_bytes (if fin then 0x0f else 0x0e) @ varint_bytes i @ varint_bytes off @ len2_bytes (length d)"
  have one: "length (varint_bytes (if fin then 0x0f else 0x0e)) = 1" by (simp add: length_varint_small)
  have l: "length ?h = 1 + (length (varint_bytes i) + (length (varint_bytes off) + 2))" using one by simp
  have "stream_header_wire_len i off = Ok (length ?h)"
    unfolding l by (simp add: stream_header_wire_len_def length_varint_bytes [OF assms(1)] length_varint_bytes [OF assms(2)])
  moreover have "length ?h \<le> MAX_STREAM_OVERHEAD"
    using l length_varint_le [OF assms(1)] length_varint_le [OF assms(2)] by (simp add: MAX_STREAM_OVERHEAD_def)
  moreover have "encode_stream_header i off (as_u64 (length d)) fin (new_wbuf (length ?h)) = Ok (length ?h, put_slice ?h (new_wbuf (length ?h)))"
    by (rule emitsD(1) [OF encode_stream_header_emits [OF assms]]) (simp add: new_wbuf_def)
  moreover have "frame_wire (Stream i off (length d) fin d) = ?h @ d" by (simp add: frame_wire_def)
  ultimately show ?thesis by blast
qed

lemma put_slice_eq: "put_slice bs w = \<lparr>written = written w @ bs, room = room w - length bs\<rparr>"
  by (cases w) (simp add: put_slice_def)

definition as_kept :: "bool \<Rightarrow> frame \<Rightarrow> frame" where
  "as_kept retain f = (case f of Stream i off n fin d \<Rightarrow> Stream i off n fin (if retain then d else []) | _ \<Rightarrow> f)"

lemma write_stream_frame_spec:
  assumes "st_ok s" and "i \<le> VINT_MAX" and "MAX_STREAM_OVERHEAD < room (ws_buf st)" and "room (ws_buf st) \<le> 16384"
  shows "\<exists>d fin sd st'. write_stream_frame retain i s st = Some (Ok (), s\<lparr>st_send := sd\<rparr>, st')
    \<and> sd_inv sd \<and> (sd_ready sd \<longrightarrow> sd_ready (st_send s))
    \<and> (let f = Stream i (sd_send_off (st_send s)) (length d) fin d in
       Frame.frame_ok f \<and> st' = note_frame (as_kept retain f) (st\<lparr>ws_buf := put_slice (frame_wire f) (ws_buf st)\<rparr>)
       \<and> length (frame_wire f) \<le> room (ws_buf st) \<and> (d \<noteq> [] \<longleftrightarrow> st_is_sendable s))"
proof -
  let ?off = "sd_send_off (st_send s)" and ?cap = "room (ws_buf st)"
  have inv: "sd_inv (st_send s)" using assms(1) by (simp add: st_ok_def)
  have off: "?off \<le> VINT_MAX"
    using sd_inv_unsent [OF inv] sd_inv_send_off [OF inv] by (simp add: VINT_MAX_def word_le_nat_alt)
  obtain n where n: "stream_header_wire_len i ?off = Ok n" "n \<le> MAX_STREAM_OVERHEAD" "0 < n"
    using stream_frame_bytes [OF assms(2) off] header_len_pos by blast
  have cap: "?cap - n < 2 ^ 64" "0 < ?cap - n" "\<not> ?cap < n" using assms(3,4) n by simp_all
  obtain d fin sd where r: "sd_read (?cap - n) (st_send s) = Some (Ok (d, fin), sd)" "sd_inv sd" "length d \<le> ?cap - n"
    "unat ?off + length d < 2 ^ 62" "d \<noteq> [] \<longleftrightarrow> sd_ready (st_send s)" "sd_ready sd \<longrightarrow> sd_ready (st_send s)"
    using sd_inv_read_spec [OF inv cap(1)] cap(2) by blast
  obtain hd where h: "stream_header_wire_len i ?off = Ok (length hd)"
    "encode_stream_header i ?off (as_u64 (length d)) fin (new_wbuf (length hd)) = Ok (length hd, put_slice hd (new_wbuf (length hd)))"
    "frame_wire (Stream i ?off (length d) fin d) = hd @ d"
    using stream_frame_bytes [OF assms(2) off, of d fin] by blast
  have hd: "length hd = n" using h(1) n(1) by simp
  let ?st = "note_frame (as_kept retain (Stream i ?off (length d) fin d)) (st\<lparr>ws_buf := put_slice (hd @ d) (ws_buf st)\<rparr>)"
  have "write_stream_frame retain i s st = Some (Ok (), s\<lparr>st_send := sd\<rparr>, ?st)"
    using n(1) cap(3) r(1) h(2) hd by (simp add: write_stream_frame_def Let_def as_kept_def put_slice_eq new_wbuf_def)
  moreover have "Frame.frame_ok (Stream i ?off (length d) fin d)" using assms(2,4) off r(3,4) n(3) by simp
  moreover have "length (hd @ d) \<le> ?cap" using hd r(3) cap(3) by simp
  ultimately show ?thesis using r h(3) by (intro exI [of _ d] exI [of _ fin] exI [of _ sd] exI [of _ ?st]) (auto simp: Let_def st_is_sendable_def)
qed

subsection \<open>The loop\<close>

lemma peek_fields:
  assumes "peek_sendable m = (r, m')"
  shows "sm_streams m' = sm_streams m" and "m' = m\<lparr>sm_sendable := sm_sendable m'\<rparr>" and "peek_sendable_queue (sm_sendable m) = (r, sm_sendable m')"
  using assms by (auto simp: peek_sendable_def split: prod.splits)

text \<open>After a peek, the entry of a stream that has nothing to send may go.\<close>

lemma live_remove:
  assumes l: "live m" and p: "peek_sendable m = (Some i, m')" and s: "sm_streams m2 = (sm_streams m)(i := x)"
    and q: "sm_sendable m2 = sm_sendable m'" and x: "\<And>s. x = Some s \<Longrightarrow> \<not> st_is_sendable s"
  shows "live (remove_sendable m2)"
proof -
  have ok: "sq_ok (sm_sendable m)" using l by (simp add: live_def)
  note pk = peek_fields(3) [OF p]
  show ?thesis unfolding live_def
  proof (intro conjI allI impI)
    show "sq_ok (sm_sendable (remove_sendable m2))" using sq.remove_ok [OF ok pk] by (simp add: remove_sendable_def q)
    fix j s
    assume j: "sm_streams (remove_sendable m2) j = Some s" "st_is_sendable s"
    then have "j \<noteq> i" "sm_streams m j = Some s" using s x by (auto simp: remove_sendable_def split: if_splits)
    then have "j \<in># sq_entries (sm_sendable m)" "j \<noteq> i" using liveD [OF l _ j(2)] by auto
    then show "j \<in># sq_entries (sm_sendable (remove_sendable m2))"
      using sq.remove_keeps [OF ok pk] by (simp add: remove_sendable_def q)
  qed
qed

lemma closed_sender:
  assumes "sm_ok m" and "open_sender i m = None" and "sm_streams m i = Some s"
  shows "\<not> st_is_sendable s"
proof -
  have "sd_error (st_send s) \<noteq> None" using assms(2,3) by (auto simp: open_sender_def sd_is_stopped_def split: if_splits)
  moreover have "sd_inv (st_send s)" using sm_ok_entry [OF assms(1,3)] by (simp add: entry_ok_def st_ok_def)
  ultimately have "sd_ended (st_send s)" by (auto simp: sd_inv_def sd_ok_def)
  then show ?thesis by (simp add: st_is_sendable_def ended_not_ready)
qed

text \<open>What the loop has done when it returns: frames of streams, their bytes, and no stream left that could send
  while there is room.\<close>

definition stream_frames_done :: "bool \<Rightarrow> 'c stream_map \<Rightarrow> frame_write_status \<Rightarrow> 'c stream_map \<Rightarrow> frame_write_status \<Rightarrow> frame list \<Rightarrow> bool" where
  "stream_frames_done retain m st m' st' fs \<longleftrightarrow> sm_kept m m' \<and> live m'
     \<and> (room (ws_buf st') \<le> MAX_STREAM_OVERHEAD \<or> (\<forall>i s. sm_streams m' i = Some s \<longrightarrow> \<not> st_is_sendable s))
     \<and> (\<forall>f \<in> set fs. Frame.frame_ok f \<and> (\<exists>i off n fin d. f = Stream i off n fin d))
     \<and> ws_frames st' = ws_frames st @ map (as_kept retain) fs
     \<and> written (ws_buf st') = written (ws_buf st) @ concat (map frame_wire fs)
     \<and> room (ws_buf st') + length (concat (map frame_wire fs)) = room (ws_buf st)"

definition frame_added :: "bool \<Rightarrow> frame \<Rightarrow> frame_write_status \<Rightarrow> frame_write_status \<Rightarrow> bool" where
  "frame_added retain f st st' \<longleftrightarrow> Frame.frame_ok f \<and> (\<exists>i off n fin d. f = Stream i off n fin d)
     \<and> room (ws_buf st') + length (frame_wire f) = room (ws_buf st) \<and> written (ws_buf st') = written (ws_buf st) @ frame_wire f
     \<and> ws_frames st' = ws_frames st @ [as_kept retain f]"

lemma peek_kept: "sm_ok m \<Longrightarrow> peek_sendable m = (r, m') \<Longrightarrow> sm_kept m m'"
  using sm_kept_marks(12) [of m m] peek_fields(2) by (metis sm_kept_refl)

lemma stream_skipped:
  assumes ok: "sm_ok m" "live m" and p: "peek_sendable m = (Some i, m1)" and none: "open_sender i m1 = None"
  shows "sm_kept m (remove_sendable m1)" and "live (remove_sendable m1)"
proof -
  have k: "sm_kept m m1" by (rule peek_kept [OF ok(1) p])
  then show "sm_kept m (remove_sendable m1)" by auto
  show "live (remove_sendable m1)"
    by (rule live_remove [OF ok(2) p, of _ "sm_streams m1 i"])
      (use peek_fields(1) [OF p] closed_sender [OF sm_kept_ok [OF k] none] in auto)
qed

lemma stream_served:
  assumes ok: "sm_ok m" "live m" and p: "peek_sendable m = (Some i, m1)" and os: "open_sender i m1 = Some s"
    and room: "MAX_STREAM_OVERHEAD < room (ws_buf st)" "room (ws_buf st) \<le> 16384"
  shows "\<exists>s' st' f. write_stream_frame retain i s st = Some (Ok (), s', st') \<and> frame_added retain f st st'
    \<and> sm_kept m (if \<not> st_is_sendable s' then remove_sendable (put_stream i s' m1) else put_stream i s' m1)
    \<and> live (if \<not> st_is_sendable s' then remove_sendable (put_stream i s' m1) else put_stream i s' m1)"
proof -
  have k1: "sm_kept m m1" and l1: "live m1" using peek_kept [OF ok(1) p] live_peek [OF ok(2)] p by auto
  have s: "sm_streams m1 i = Some s" using os by (auto simp: open_sender_def split: option.splits if_splits)
  have e: "st_ok s" "i \<le> VINT_MAX" using sm_ok_entry [OF sm_kept_ok [OF k1] s] by (auto simp: entry_ok_def)
  obtain d fin sd st' f where w: "write_stream_frame retain i s st = Some (Ok (), s\<lparr>st_send := sd\<rparr>, st')" "sd_inv sd"
      "sd_ready sd \<longrightarrow> sd_ready (st_send s)"
    and f: "f = Stream i (sd_send_off (st_send s)) (length d) fin d" "Frame.frame_ok f" "length (frame_wire f) \<le> room (ws_buf st)"
      "st' = note_frame (as_kept retain f) (st\<lparr>ws_buf := put_slice (frame_wire f) (ws_buf st)\<rparr>)"
    using write_stream_frame_spec [OF e room] unfolding Let_def by blast
  define s' where "s' = s\<lparr>st_send := sd\<rparr>"
  have "frame_added retain f st st'" using f by (auto simp: frame_added_def note_frame_def)
  moreover have k2: "sm_kept m (put_stream i s' m1)"
    by (rule sm_kept_put' [OF k1 s]) (use e w(2) in \<open>simp_all add: s'_def st_ok_def\<close>)
  moreover have "live (if \<not> st_is_sendable s' then remove_sendable (put_stream i s' m1) else put_stream i s' m1)"
  proof (cases "st_is_sendable s'")
    case True
    then have "i \<in># sq_entries (sm_sendable m1)" using w(3) liveD [OF l1 s] by (simp add: s'_def st_is_sendable_def)
    then show ?thesis using True l1 by (simp add: live_put)
  next
    case False
    then have "live (remove_sendable (put_stream i s' m1))"
      by (intro live_remove [OF ok(2) p, of _ "Some s'"]) (auto simp: put_stream_def peek_fields(1) [OF p])
    then show ?thesis using False by simp
  qed
  ultimately show ?thesis using w(1) unfolding s'_def by auto
qed

lemma write_stream_frames_spec:
  assumes "sm_ok m" and "live m" and "MAX_STREAM_OVERHEAD < room (ws_buf st)" and "room (ws_buf st) \<le> 16384"
  shows "\<exists>m' st' fs. write_stream_frames retain m st = Some (Ok (), m', st') \<and> stream_frames_done retain m st m' st' fs"
  using assms
proof (induction retain m st rule: write_stream_frames.induct)
  case (1 retain m st)
  note ok = "1.prems"(1,2) and room = "1.prems"(3,4)
  obtain r m1 where p: "peek_sendable m = (r, m1)" by fastforce
  show ?case
  proof (cases r)
    case None
    have "sq_entries (sm_sendable m) = {#}"
      using sq.peek_None [of "sm_sendable m"] ok(2) peek_fields(3) [OF p] None by (simp add: live_def)
    then have "\<not> st_is_sendable s" if "sm_streams m1 i = Some s" for i s
      using that liveD [OF ok(2)] peek_fields(1) [OF p] by fastforce
    moreover have "live m1" using live_peek [OF ok(2)] p by simp
    ultimately have "stream_frames_done retain m st m1 st []" using peek_kept [OF ok(1) p] by (simp add: stream_frames_done_def)
    then show ?thesis using p None by (subst write_stream_frames.simps) auto
  next
    case (Some i)
    note p' = p [unfolded Some]
    show ?thesis
    proof (cases "open_sender i m1")
      case None
      note k = stream_skipped [OF ok p' None]
      obtain m' st' fs where ih: "write_stream_frames retain (remove_sendable m1) st = Some (Ok (), m', st')"
        "stream_frames_done retain (remove_sendable m1) st m' st' fs"
        using "1.IH"(1) [OF p' [symmetric] refl None sm_kept_ok [OF k(1)] k(2) room] by blast
      have "stream_frames_done retain m st m' st' fs" using ih(2) sm_kept_trans [OF k(1)] by (auto simp: stream_frames_done_def)
      moreover have "write_stream_frames retain m st = Some (Ok (), m', st')"
        using p' None ih(1) by (subst write_stream_frames.simps) simp
      ultimately show ?thesis by blast
    next
      case os: (Some s)
      obtain s' st1 f where w: "write_stream_frame retain i s st = Some (Ok (), s', st1)" and f: "frame_added retain f st st1"
        and k: "sm_kept m (if \<not> st_is_sendable s' then remove_sendable (put_stream i s' m1) else put_stream i s' m1)" (is "sm_kept m ?m3")
        and l: "live (if \<not> st_is_sendable s' then remove_sendable (put_stream i s' m1) else put_stream i s' m1)"
        using stream_served [OF ok p' os room] by blast
      show ?thesis
      proof (cases "room (ws_buf st1) \<le> MAX_STREAM_OVERHEAD")
        case True
        then have "stream_frames_done retain m st ?m3 st1 [f]" using k l f by (simp add: stream_frames_done_def frame_added_def)
        moreover have "write_stream_frames retain m st = Some (Ok (), ?m3, st1)"
          using p' os w True by (subst write_stream_frames.simps) (simp add: Let_def)
        ultimately show ?thesis by blast
      next
        case False
        then have "MAX_STREAM_OVERHEAD < room (ws_buf st1)" "room (ws_buf st1) \<le> 16384" using f room(2) by (simp_all add: frame_added_def)
        then obtain m' st' fs where ih: "write_stream_frames retain ?m3 st1 = Some (Ok (), m', st')" "stream_frames_done retain ?m3 st1 m' st' fs"
          using "1.IH"(2) [OF p' [symmetric] refl os w refl refl _ refl refl False sm_kept_ok [OF k] l] by blast
        then have "stream_frames_done retain m st m' st' (f # fs)" using f sm_kept_trans [OF k] by (auto simp: stream_frames_done_def frame_added_def)
        moreover have "write_stream_frames retain m st = Some (Ok (), m', st')"
          using p' os w False ih(1) by (subst write_stream_frames.simps) (simp add: Let_def)
        ultimately show ?thesis by blast
      qed
    qed
  qed
qed

subsection \<open>Runs with packets\<close>

lemma try_write_spec:
  assumes ok: "sm_ok m" "live m" and room: "room (ws_buf st) \<le> 16384" and act: "act \<noteq> Panic"
  shows "\<exists>r m' st'. try_write_stream_frames pkt closing act retain m st = Some (r, m', st') \<and> r \<noteq> Panic \<and> sm_kept m m' \<and> live m'"
  using write_stream_frames_spec [OF ok _ room, of retain] ok act
  by (cases act) (fastforce simp: try_write_stream_frames_def stream_frames_done_def not_le)+

inductive tx_step :: "'c stream_map \<Rightarrow> 'c stream_map \<Rightarrow> bool" where
  tx_call: "sm_step m m' \<Longrightarrow> tx_step m m'"
| tx_frames: "room (ws_buf st) \<le> 16384 \<Longrightarrow> act \<noteq> Panic \<Longrightarrow>
    try_write_stream_frames pkt closing act retain m st = Some (r, m', st') \<Longrightarrow> tx_step m m'"

lemma tx_step_kept: "tx_step m m' \<Longrightarrow> sm_ok m \<Longrightarrow> live m \<Longrightarrow> sm_kept m m' \<and> live m'"
proof (induction rule: tx_step.induct)
  case (tx_call m m')
  then show ?case using sm_step_kept sm_step_live by blast
next
  case (tx_frames st act pkt closing retain m r m' st')
  then show ?case using try_write_spec [of m st act pkt closing retain] by auto
qed

lemma tx_reachable:
  assumes "tx_step\<^sup>*\<^sup>* (sm_new srv cw sw tp) m"
  shows "sm_ok m" and "live m" and "sm_is_server m = srv"
proof -
  have "sm_ok m \<and> live m \<and> sm_is_server m = srv"
    using assms
  proof (induction rule: rtranclp_induct)
    case base
    show ?case by (intro conjI sm_ok_new live_new_map) (simp add: sm_new_def)
  next
    case (step m m')
    then show ?case using tx_step_kept [of m m'] by (simp add: sm_kept_def)
  qed
  then show "sm_ok m" "live m" "sm_is_server m = srv" by auto
qed

lemma sm_run_tx: "sm_step\<^sup>*\<^sup>* m m' \<Longrightarrow> tx_step\<^sup>*\<^sup>* m m'"
  by (induction rule: rtranclp_induct) (auto intro: tx_call rtranclp.rtrancl_into_rtrancl)

subsection \<open>A stream with data\<close>

text \<open>A server that may open streams writes two bytes to its first stream.\<close>

lemma sd_write_two:
  "\<exists>sd. sd_write [1, 2] False (sd_new 50) = (Ok 2, sd) \<and> sd_ok [1, 2] sd \<and> sd_ready sd \<and> rs_min (sd_retransmits sd) = None"
proof -
  obtain n s where w: "sd_write [1, 2] False (sd_new 50) = (Ok n, s)" "sd_appended [1, 2] False (sd_new 50) n s"
    "sd_ok ([] @ take n [1, 2]) s"
    using sd_write_spec [OF sd_ok_new, of 50 "[1, 2]" False] by (auto simp: sd_new_def)
  then have n: "n = 2" and f: "sd_retransmits s = rs_default" "sd_unsent_off s = 0" "sd_write_off s = 2"
    by (simp_all add: sd_appended_def sd_new_def word_unat_eq_iff)
  have none: "rs_min (sd_retransmits s) = None" using f(1) by (simp add: rs_default_def rs_new_def rs_min_def bt_first_def)
  have ok: "sd_ok [1, 2] s" using w(3) n by simp
  have "sd_ready s" using ready_iff [OF ok] f none by (simp add: sd_send_off_def)
  then show ?thesis using w(1) n ok none by blast
qed

lemma small_sender:
  "\<exists>(m :: unit stream_map) s. sm_step\<^sup>*\<^sup>* (sm_new True 100 100 small_params) m \<and> sm_streams m 1 = Some s \<and> st_is_sendable s
     \<and> rs_min (sd_retransmits (st_send s)) = None \<and> sd_error (st_send s) = None \<and> \<not> sd_shutdown (st_send s)"
proof -
  define m1 where "m1 = update_peer_stream_transport_params small_params small_server"
  have st1: "sm_step small_server m1" unfolding m1_def by (rule step_peer_params) (simp add: sp_ok_def small_params_def)
  have ok1: "sm_ok m1" using reachable_ok(1) [OF small_run [OF st1]] .
  have f1: "sm_is_server m1" "sm_streams m1 = Map.empty" "sm_peer_params m1 = small_params" "sm_local_params m1 = small_params"
    "sm_max_stream_window m1 = 100" "sc_capacity (sm_capacity m1) = 100" "max_tx_data_left m1 = 100"
    by (simp_all add: m1_def update_peer_stream_transport_params_def Let_def max_tx_data_left_def)
      (simp_all add: small_server_def sm_new_def sc_default_def sc_update_capacity_def sc_update_max_data_def small_params_def)
  have l: "is_local 1 True" "is_bidi 1" "(1 :: u64) \<le> VINT_MAX" "drop_bit 2 1 = (0 :: u64)"
    by (simp_all add: is_local_def is_bidi_def VINT_MAX_def drop_bit_eq_div)
  have cc: "cc_max True True (sm_cc m1) = 3" "cc_opened True True (sm_cc m1) = 0"
    by (simp_all add: m1_def update_peer_stream_transport_params_def Let_def update_peer_views small_params_def) (simp_all add: cc_views cc_new_def)
  have ccok: "cc_ok (sm_cc m1)" using ok1 by (simp add: sm_ok_def)
  have av: "is_available 1 (sm_is_server m1) (sm_cc m1)" "\<not> is_limited 1 (sm_is_server m1) (sm_cc m1)"
    using is_available_iff [OF ccok, of 1 True] is_limited_iff [of 1 True "sm_cc m1"] cc_okD(4) [OF ccok, of True True] cc l f1(1) by auto
  let ?s = "fresh_stream 1 m1"
  obtain c where c: "get_or_create 1 True m1 = (Ok ?s, admit_stream 1 ?s (m1\<lparr>sm_cc := c\<rparr>))" (is "_ = (_, ?m2)")
    using get_or_create_admit [OF ok1 l(3) _ av] f1 l by auto
  have snd: "st_send ?s = sd_new 50" using f1 l by (simp add: fresh_stream_def Let_def st_new_def small_params_def)
  obtain sd where sd: "sd_write [1, 2] False (sd_new 50) = (Ok 2, sd)" "sd_ok [1, 2] sd" "sd_ready sd" "rs_min (sd_retransmits sd) = None"
    using sd_write_two by blast
  obtain r m' where w: "stream_write 1 [1, 2] False m1 = (r, m')" by fastforce
  have "sm_step\<^sup>*\<^sup>* (sm_new True 100 100 small_params) m'"
    using rtranclp.rtrancl_into_rtrancl [OF small_run [OF st1]] step_app_write [OF _ w] by simp
  moreover have "\<exists>s. sm_streams m' 1 = Some s \<and> st_is_sendable s \<and> rs_min (sd_retransmits (st_send s)) = None
      \<and> sd_error (st_send s) = None \<and> \<not> sd_shutdown (st_send s)"
  proof -
    have "stream_write 1 [1, 2] False m1 = stream_write_some 1 [1, 2] False False 2 ?s ?m2"
    proof -
      have "\<not> max_tx_data_left m1 < as_u64 (length [1 :: u8, 2])" "\<not> 100 < length [1 :: u8, 2]" "length [1 :: u8, 2] = 2"
        using f1 by simp_all
      then show ?thesis using c l f1(6) unfolding stream_write_def Let_def by (simp add: bind_s_def numeral_2_eq_2)
    qed
    then have m': "stream_write_some 1 [1, 2] False False 2 ?s ?m2 = (r, m')" using w by simp
    have "sm_streams m' 1 = Some (?s\<lparr>st_send := sd_update_blocked_at None sd\<rparr>)"
      using m' sd(1) snd unfolding stream_write_some_def Let_def
      by (auto simp: note_blocked_def spend_tx_def mark_writable_def push_sendable_def mark_blocked_def put_stream_def Let_def split: if_splits)
    then show ?thesis using sd(2-4) by (simp add: st_is_sendable_def sd_ready_def sd_update_blocked_at_def sd_ok_def)
  qed
  ultimately show ?thesis by blast
qed

subsection \<open>Properties\<close>

text \<open>C6: in every state that the calls of the stream map and the writing of packets reach, each stream that has data
  to send, for the first time or again, is in the queue of sendable streams, so that a peek shows a stream
  whenever one has data.\<close>

theorem sendable_streams_queued:
  assumes "tx_step\<^sup>*\<^sup>* (sm_new srv cw sw tp) m" and "sm_streams m i = Some s" and "st_is_sendable s"
  shows "i \<in># sq_entries (sm_sendable m) \<and> (\<exists>j m'. peek_sendable m = (Some j, m') \<and> j \<in># sq_entries (sm_sendable m))"
  by (rule live_peeks [OF tx_reachable(2) [OF assms(1)] assms(2,3)])

theorem sendable_streams_queued_witness:
  "\<exists>m :: unit stream_map. tx_step\<^sup>*\<^sup>* (sm_new True 100 100 small_params) m \<and> 1 \<in># sq_entries (sm_sendable m)"
proof -
  obtain m :: "unit stream_map" and s where m: "sm_step\<^sup>*\<^sup>* (sm_new True 100 100 small_params) m" "sm_streams m 1 = Some s" "st_is_sendable s"
    using small_sender by blast
  then show ?thesis using sendable_streams_queued [OF sm_run_tx [OF m(1)] m(2,3)] sm_run_tx [OF m(1)] by blast
qed

text \<open>C5: writing the STREAM frames of a packet ends and succeeds. The payload grows by whole, well-formed STREAM frames
  that the peer's decoder reads back, within the room of the packet; and when the loop stops with more room than a
  frame header needs, no stream has anything left to send.\<close>

theorem packet_filled_with_stream_data:
  assumes "tx_step\<^sup>*\<^sup>* (sm_new srv cw sw tp) m" and "pkt = OneRTT \<or> pkt = ZeroRTT"
    and "MAX_STREAM_OVERHEAD < room (ws_buf st)" and "room (ws_buf st) \<le> 16384"
  shows "\<exists>m' st' fs. try_write_stream_frames pkt False (Ok True) retain m st = Some (Ok (), m', st')
    \<and> written (ws_buf st') = written (ws_buf st) @ concat (map frame_wire fs)
    \<and> room (ws_buf st') + length (concat (map frame_wire fs)) = room (ws_buf st)
    \<and> length (ws_frames st') = length (ws_frames st) + length fs
    \<and> (\<forall>f \<in> set fs. \<forall>rest. frame_from_bytes (frame_wire f @ rest) pkt = Ok (f, length (frame_wire f)))
    \<and> (room (ws_buf st') \<le> MAX_STREAM_OVERHEAD \<or> (\<forall>i s. sm_streams m' i = Some s \<longrightarrow> \<not> st_is_sendable s))"
proof -
  note ok = tx_reachable(1,2) [OF assms(1)]
  obtain m' st' fs where r: "write_stream_frames retain m st = Some (Ok (), m', st')" and d: "stream_frames_done retain m st m' st' fs"
    using write_stream_frames_spec [OF ok assms(3,4)] by blast
  have "frame_from_bytes (frame_wire f @ rest) pkt = Ok (f, length (frame_wire f))" if f: "f \<in> set fs" for f rest
  proof -
    obtain i off n fin x where x: "f = Stream i off n fin x" "Frame.frame_ok f" using d f unfolding stream_frames_done_def by blast
    then show ?thesis unfolding x(1) by (intro frame_from_bytes_stream) (use assms(2) in auto)
  qed
  moreover have "try_write_stream_frames pkt False (Ok True) retain m st = Some (Ok (), m', st')"
    using r assms(2,3) by (auto simp: try_write_stream_frames_def)
  ultimately show ?thesis using d unfolding stream_frames_done_def by (intro exI [of _ m'] exI [of _ st'] exI [of _ fs]) simp
qed

definition empty_packet :: "nat \<Rightarrow> frame_write_status" where
  "empty_packet n = \<lparr>ws_buf = new_wbuf n, ws_frames = [], ws_ack_eliciting = False, ws_in_flight = False, ws_has_data = False\<rparr>"

lemma empty_packet_fields [simp]: "room (ws_buf (empty_packet n)) = n" "ws_frames (empty_packet n) = []"
  by (simp_all add: empty_packet_def new_wbuf_def)

theorem packet_filled_with_stream_data_witness:
  "\<exists>(m :: unit stream_map) m' st'. try_write_stream_frames OneRTT False (Ok True) False m (empty_packet 1200) = Some (Ok (), m', st')
     \<and> (room (ws_buf st') \<le> MAX_STREAM_OVERHEAD \<or> (\<forall>i s. sm_streams m' i = Some s \<longrightarrow> \<not> st_is_sendable s))"
proof -
  obtain m :: "unit stream_map" where m: "tx_step\<^sup>*\<^sup>* (sm_new True 100 100 small_params) m" using small_sender sm_run_tx by blast
  show ?thesis using packet_filled_with_stream_data [OF m, of OneRTT "empty_packet 1200" False]
    by (auto simp: MAX_STREAM_OVERHEAD_def)
qed

text \<open>a stream whose sending part the application has shut down stays in the queue and counts as open for sending:
  although a RESET_STREAM frame is due for it, the next packet also carries an empty STREAM frame with the FIN bit at the
  final size, which tells the peer that the stream ended normally.\<close>

theorem shut_down_stream_sends_fin:
  assumes "tx_step\<^sup>*\<^sup>* (sm_new srv cw sw tp) m" and "sm_streams m i = Some s" and "st_is_sendable s"
    and "sd_error (st_send s) = None" and "rs_min (sd_retransmits (st_send s)) = None"
    and "stream_shutdown i ShutdownWrite err m = (Ok (), m1)"
    and "MAX_STREAM_OVERHEAD < room (ws_buf st)" and "room (ws_buf st) \<le> 16384"
  shows "i \<in># sq_entries (sm_sendable m1) \<and> sm_reset m1 i = Some (err, sd_unsent_off (st_send s))
    \<and> (\<exists>s1 s2 st'. open_sender i m1 = Some s1 \<and> write_stream_frame retain i s1 st = Some (Ok (), s2, st')
         \<and> ws_frames st' = ws_frames st @ [Stream i (sd_unsent_off (st_send s)) 0 True []])"
proof -
  note ok = tx_reachable(1,2) [OF assms(1)]
  have q: "i \<in># sq_entries (sm_sendable m)" by (rule liveD [OF ok(2) assms(2,3)])
  obtain r sd where sd: "sd_shut (st_send s) = (r, sd)" by fastforce
  obtain fsize unsent where r: "r = Ok (fsize, unsent)"
    using assms(2,6) sd by (cases r) (auto simp: stream_shutdown_def stream_shutdown_write_def split: if_splits)
  have f: "fsize = sd_unsent_off (st_send s)" "sd_fin_off sd = Some fsize" "sd_unsent_off sd = fsize" "sd_data sd = []"
    "sd_retransmits sd = sd_retransmits (st_send s)" "sd_error sd = None"
    using sd r assms(4) by (auto simp: sd_shut_def sd_reset_def sd_ack_def Let_def split: if_splits)
  define s1 where "s1 = s\<lparr>st_send := sd\<rparr>"
  have m1: "m1 = mark_writable i False (mark_reset i True err fsize (give_back_tx unsent (put_stream i s1 m)))"
    using assms(2,6) sd r by (auto simp: stream_shutdown_def stream_shutdown_write_def s1_def split: if_splits)
  then have s: "sm_streams m1 i = Some s1" "sm_sendable m1 = sm_sendable m" "sm_reset m1 i = Some (err, fsize)"
    by (simp_all add: mark_writable_def mark_reset_def give_back_tx_def put_stream_def Let_def)
  have os: "open_sender i m1 = Some s1" using s(1) f(6) by (simp add: open_sender_def sd_is_stopped_def s1_def)
  have k: "sm_kept m m1" using stream_shutdown_kept [OF ok(1) assms(6)] by simp
  have e: "st_ok s1" "i \<le> VINT_MAX" using sm_ok_entry [OF sm_kept_ok [OF k] s(1)] by (auto simp: entry_ok_def)
  have off: "sd_send_off sd = fsize" using f(3,5) assms(5) by (simp add: sd_send_off_def)
  have "\<not> sd_ready sd" using f(4) by (simp add: sd_ready_def)
  then have idle: "sd_read cap sd = Some (Ok ([], True), sd)" for cap using sd_read_idle [of sd cap] f(2) off by simp
  obtain d fin sd' st' where w: "write_stream_frame retain i s1 st = Some (Ok (), s1\<lparr>st_send := sd'\<rparr>, st')"
      "st' = note_frame (as_kept retain (Stream i fsize (length d) fin d)) (st\<lparr>ws_buf := put_slice (frame_wire (Stream i fsize (length d) fin d)) (ws_buf st)\<rparr>)"
    using write_stream_frame_spec [OF e assms(7,8), of retain] off unfolding Let_def by (auto simp: s1_def)
  have "ws_frames st' = ws_frames st @ [Stream i fsize 0 True []]"
    using w(1) idle off by (auto simp: write_stream_frame_def s1_def Let_def note_frame_def split: result.splits if_splits prod.splits)
  then show ?thesis using q s os w(1) f(1) by auto
qed

theorem shut_down_stream_sends_fin_witness:
  "\<exists>(m :: unit stream_map) m1 s1 s2 st' off. stream_shutdown 1 ShutdownWrite 7 m = (Ok (), m1) \<and> sm_reset m1 1 = Some (7, off)
     \<and> open_sender 1 m1 = Some s1 \<and> write_stream_frame False 1 s1 (empty_packet 1200) = Some (Ok (), s2, st')
     \<and> ws_frames st' = [Stream 1 off 0 True []]"
proof -
  obtain m :: "unit stream_map" and s where m: "sm_step\<^sup>*\<^sup>* (sm_new True 100 100 small_params) m" "sm_streams m 1 = Some s" "st_is_sendable s"
    "rs_min (sd_retransmits (st_send s)) = None" "sd_error (st_send s) = None" "\<not> sd_shutdown (st_send s)"
    using small_sender by blast
  have "is_bidi 1" by (simp add: is_bidi_def)
  moreover obtain p sd where "sd_shut (st_send s) = (Ok p, sd)"
    using m(6) by (cases "sd_reset ((st_send s)\<lparr>sd_shutdown := True\<rparr>)") (simp add: sd_shut_def)
  ultimately have "\<exists>m1. stream_shutdown 1 ShutdownWrite 7 m = (Ok (), m1)"
    using m(2) by (cases p) (simp add: stream_shutdown_def stream_shutdown_write_def)
  then obtain m1 where m1: "stream_shutdown 1 ShutdownWrite 7 m = (Ok (), m1)" by blast
  have "\<exists>s1 s2 st'. sm_reset m1 1 = Some (7, sd_unsent_off (st_send s)) \<and> open_sender 1 m1 = Some s1
      \<and> write_stream_frame False 1 s1 (empty_packet 1200) = Some (Ok (), s2, st') \<and> ws_frames st' = [Stream 1 (sd_unsent_off (st_send s)) 0 True []]"
    using shut_down_stream_sends_fin [OF sm_run_tx [OF m(1)] m(2,3,5,4) m1, of "empty_packet 1200" False] by (simp add: MAX_STREAM_OVERHEAD_def)
  then show ?thesis using m1 by blast
qed

end
