(* ===== verification/Stream_Control.thy ===== *)
theory Stream_Control
  imports Stream_Send
begin

text \<open>
  The control frames of streams that a connection writes into a packet
  (\<open>try_write_stream_control_frames\<close> of src/connection/connection.rs): limits that have grown, streams
  that are blocked, stopped or reset. A frame that does not fit ends the call; what it announces stays
  pending for the next packet.
\<close>

subsection \<open>Writing a control frame\<close>

type_synonym 'c writing = "'c stream_map \<times> frame_write_status"

definition control_frame :: "frame \<Rightarrow> ('c stream_map \<Rightarrow> 'c stream_map) \<Rightarrow> (unit, error, 'c writing) meth" where
  "control_frame f apply_to = (\<lambda>(m, st).
     case write_frame_to_packet f st of
       (Ok _, st) \<Rightarrow> (Ok (), apply_to m, st\<lparr>ws_ack_eliciting := True, ws_in_flight := True\<rparr>)
     | (Err e, st) \<Rightarrow> (Err e, m, st)
     | (Panic, st) \<Rightarrow> (Panic, m, st))"

fun for_s :: "('a \<Rightarrow> (unit, 'e, 's) meth) \<Rightarrow> 'a list \<Rightarrow> (unit, 'e, 's) meth" where
  "for_s f [] s = (Ok (), s)"
| "for_s f (x # xs) s = bind_s (f x) (\<lambda>_. for_s f xs) s"

definition write_max_streams :: "bool \<Rightarrow> (unit, error, 'c writing) meth" where
  "write_max_streams bidi = (\<lambda>(m, st).
     if should_update_local_max_streams bidi (sm_cc m)
     then control_frame (MaxStreams bidi (sm_max_streams_next bidi m)) (sm_update_local_max_streams bidi) (m, st)
     else (Ok (), m, st))"

definition write_data_blocked :: "(unit, error, 'c writing) meth" where
  "write_data_blocked = (\<lambda>(m, st).
     case sc_blocked_at (sm_capacity m) of
       Some blocked_at \<Rightarrow> control_frame (DataBlocked blocked_at) (update_data_blocked_at None) (m, st)
     | None \<Rightarrow> (Ok (), m, st))"

text \<open>The connection's window is kept at one and a half times that of the stream. The product is taken in
  double precision: integers are rounded to 53 bits, ties to even, and the result is cut off at a word.\<close>

definition f64_round :: "nat \<Rightarrow> nat" where
  "f64_round n =
     (let e = floorlog 2 n - 53;
          q = n div 2 ^ e;
          r = n mod 2 ^ e
      in (if 2 * r > 2 ^ e \<or> 2 * r = 2 ^ e \<and> odd q then q + 1 else q) * 2 ^ e)"

definition conn_window_bound :: "u64 \<Rightarrow> u64" where
  "conn_window_bound w = as_u64 (min (2 ^ 64 - 1) (f64_round (3 * f64_round (unat w)) div 2))"

definition write_max_stream_data :: "nat \<Rightarrow> nat \<Rightarrow> u64 \<Rightarrow> (unit, error, 'c writing) meth" where
  "write_max_stream_data now srtt i = (\<lambda>(m, st).
     case sm_streams m i of
       None \<Rightarrow> (Ok (), mark_almost_full i False m, st)
     | Some s \<Rightarrow>
         let rv = rv_autotune_window now srtt (st_recv s);
             m = put_stream i (s\<lparr>st_recv := rv\<rparr>) m;
             recv_win = fc_window (rv_flow rv)
         in control_frame (MaxStreamData i (max_data_next (rv_flow rv)))
              (\<lambda>m. (sm_ensure_window_lower_bound (conn_window_bound recv_win)
                     (mark_almost_full i False (with_recv i (rv_update_max_data now) m)))\<lparr>sm_rx_almost_full := True\<rparr>)
              (m, st))"

definition write_max_data :: "nat \<Rightarrow> nat \<Rightarrow> (unit, error, 'c writing) meth" where
  "write_max_data now srtt = (\<lambda>(m, st).
     if need_send_max_data m then
       let m = sm_autotune_window now srtt m
       in control_frame (MaxData (max_rx_data_next m)) (\<lambda>m. update_max_rx_data now (m\<lparr>sm_rx_almost_full := False\<rparr>)) (m, st)
     else (Ok (), m, st))"

definition write_stop_sending :: "u64 \<times> u64 \<Rightarrow> (unit, error, 'c writing) meth" where
  "write_stop_sending = (\<lambda>(i, error_code). control_frame (StopSending i error_code) (mark_stopped i False 0))"

definition write_reset_stream :: "u64 \<times> u64 \<times> u64 \<Rightarrow> (unit, error, 'c writing) meth" where
  "write_reset_stream = (\<lambda>(i, error_code, final_size). control_frame (ResetStream i error_code final_size) (mark_reset i False 0 0))"

definition write_stream_data_blocked :: "u64 \<times> u64 \<Rightarrow> (unit, error, 'c writing) meth" where
  "write_stream_data_blocked = (\<lambda>(i, limit). control_frame (StreamDataBlocked i limit) (mark_blocked i False 0))"

definition write_streams_blocked :: "bool \<Rightarrow> (unit, error, 'c writing) meth" where
  "write_streams_blocked bidi = (\<lambda>(m, st).
     case sm_streams_blocked_at bidi m of
       Some n \<Rightarrow> control_frame (StreamsBlocked bidi n) (sm_update_streams_blocked_at bidi None) (m, st)
     | None \<Rightarrow> (Ok (), m, st))"

text \<open>The entries of a hash map, in the order of its iteration.\<close>

definition entries_in :: "(u64 set \<Rightarrow> u64 list) \<Rightarrow> (u64 \<rightharpoonup> 'v) \<Rightarrow> (u64 \<times> 'v) list" where
  "entries_in order h = map (\<lambda>i. (i, the (h i))) (order (dom h))"

definition write_stream_control_frames :: "nat \<Rightarrow> nat \<Rightarrow> (u64 set \<Rightarrow> u64 list) \<Rightarrow> (unit, error, 'c writing) meth" where
  "write_stream_control_frames now srtt order =
     bind_s (for_s write_max_streams [True, False]) (\<lambda>_.
     bind_s write_data_blocked (\<lambda>_.
     bind_s (\<lambda>(m, st). for_s (write_max_stream_data now srtt) (order (sm_almost_full m)) (m, st)) (\<lambda>_.
     bind_s (write_max_data now srtt) (\<lambda>_.
     bind_s (\<lambda>(m, st). for_s write_stop_sending (entries_in order (sm_stopped m)) (m, st)) (\<lambda>_.
     bind_s (\<lambda>(m, st). for_s write_reset_stream (entries_in order (sm_reset m)) (m, st)) (\<lambda>_.
     bind_s (\<lambda>(m, st). for_s write_stream_data_blocked (entries_in order (sm_data_blocked m)) (m, st)) (\<lambda>_.
     for_s write_streams_blocked [True, False])))))))"

definition try_write_stream_control_frames ::
  "packet_type \<Rightarrow> bool \<Rightarrow> bool res \<Rightarrow> nat \<Rightarrow> nat \<Rightarrow> (u64 set \<Rightarrow> u64 list) \<Rightarrow> (unit, error, 'c writing) meth" where
  "try_write_stream_control_frames pkt_type closing path_active now srtt order s =
     (if pkt_type \<noteq> OneRTT \<or> closing then (Ok (), s)
      else case path_active of
        Err e \<Rightarrow> (Err e, s)
      | Panic \<Rightarrow> (Panic, s)
      | Ok active \<Rightarrow> if \<not> active then (Ok (), s) else write_stream_control_frames now srtt order s)"

subsection \<open>Nothing pending is lost\<close>

text \<open>What is due for a stream stays due or is in a frame of the packet; what the packet had, it keeps.\<close>

definition pending_kept :: "'c writing \<Rightarrow> 'c writing \<Rightarrow> bool" where
  "pending_kept = (\<lambda>(m, st) (m', st').
     dom (sm_stopped m') \<subseteq> dom (sm_stopped m) \<and> dom (sm_reset m') \<subseteq> dom (sm_reset m) \<and> dom (sm_data_blocked m') \<subseteq> dom (sm_data_blocked m)
     \<and> (\<exists>fs. ws_frames st' = ws_frames st @ fs
       \<and> (\<forall>i e. sm_stopped m i = Some e \<longrightarrow> sm_stopped m' i = Some e \<or> StopSending i e \<in> set fs)
       \<and> (\<forall>i e n. sm_reset m i = Some (e, n) \<longrightarrow> sm_reset m' i = Some (e, n) \<or> ResetStream i e n \<in> set fs)
       \<and> (\<forall>i n. sm_data_blocked m i = Some n \<longrightarrow> sm_data_blocked m' i = Some n \<or> StreamDataBlocked i n \<in> set fs)))"

definition finite_pending :: "'c writing \<Rightarrow> bool" where
  "finite_pending s \<longleftrightarrow> finite (dom (sm_stopped (fst s))) \<and> finite (dom (sm_reset (fst s))) \<and> finite (dom (sm_data_blocked (fst s)))"

lemma pending_refl [simp]: "pending_kept s s"
  by (cases s) (simp add: pending_kept_def)

lemma pending_finite: "pending_kept s s' \<Longrightarrow> finite_pending s \<Longrightarrow> finite_pending s'"
  by (cases s; cases s') (auto simp: pending_kept_def finite_pending_def intro: finite_subset)

lemma pending_frames: "pending_kept s s' \<Longrightarrow> set (ws_frames (snd s)) \<subseteq> set (ws_frames (snd s'))"
  by (cases s; cases s') (auto simp: pending_kept_def)

lemma pending_trans [trans]:
  assumes "pending_kept a b" and "pending_kept b c"
  shows "pending_kept a c"
proof -
  obtain m st m1 st1 m2 st2 where s: "a = (m, st)" "b = (m1, st1)" "c = (m2, st2)" by (cases a; cases b; cases c)
  obtain fs where f: "ws_frames st1 = ws_frames st @ fs"
    "\<And>i e. sm_stopped m i = Some e \<Longrightarrow> sm_stopped m1 i = Some e \<or> StopSending i e \<in> set fs"
    "\<And>i e n. sm_reset m i = Some (e, n) \<Longrightarrow> sm_reset m1 i = Some (e, n) \<or> ResetStream i e n \<in> set fs"
    "\<And>i n. sm_data_blocked m i = Some n \<Longrightarrow> sm_data_blocked m1 i = Some n \<or> StreamDataBlocked i n \<in> set fs"
    using assms(1) unfolding s pending_kept_def by auto
  obtain gs where g: "ws_frames st2 = ws_frames st1 @ gs"
    "\<And>i e. sm_stopped m1 i = Some e \<Longrightarrow> sm_stopped m2 i = Some e \<or> StopSending i e \<in> set gs"
    "\<And>i e n. sm_reset m1 i = Some (e, n) \<Longrightarrow> sm_reset m2 i = Some (e, n) \<or> ResetStream i e n \<in> set gs"
    "\<And>i n. sm_data_blocked m1 i = Some n \<Longrightarrow> sm_data_blocked m2 i = Some n \<or> StreamDataBlocked i n \<in> set gs"
    using assms(2) unfolding s pending_kept_def by auto
  have "dom (sm_stopped m1) \<subseteq> dom (sm_stopped m)" "dom (sm_reset m1) \<subseteq> dom (sm_reset m)" "dom (sm_data_blocked m1) \<subseteq> dom (sm_data_blocked m)"
    "dom (sm_stopped m2) \<subseteq> dom (sm_stopped m1)" "dom (sm_reset m2) \<subseteq> dom (sm_reset m1)" "dom (sm_data_blocked m2) \<subseteq> dom (sm_data_blocked m1)"
    using assms by (simp_all add: s pending_kept_def)
  then have d: "dom (sm_stopped m2) \<subseteq> dom (sm_stopped m)" "dom (sm_reset m2) \<subseteq> dom (sm_reset m)" "dom (sm_data_blocked m2) \<subseteq> dom (sm_data_blocked m)"
    by (simp_all only: order_trans)
  show ?thesis unfolding s pending_kept_def prod.case
    by (intro conjI d, rule exI [of _ "fs @ gs"]) (use f g in \<open>auto; metis\<close>)
qed

lemma pending_bind:
  assumes "\<And>s. finite_pending s \<Longrightarrow> pending_kept s (snd (f s))" and "\<And>x s. finite_pending s \<Longrightarrow> pending_kept s (snd (g x s))"
    and "finite_pending s"
  shows "pending_kept s (snd (bind_s f g s))"
proof -
  obtain r s1 where f: "f s = (r, s1)" by (meson surj_pair)
  have k: "pending_kept s s1" using assms(1) [OF assms(3)] f by simp
  moreover have "pending_kept s1 (snd (g x s1))" for x by (rule assms(2) [OF pending_finite [OF k assms(3)]])
  ultimately show ?thesis using f by (cases r) (simp_all add: bind_s_def pending_trans [of s s1])
qed

text \<open>A loop over a list, where the entries still to come satisfy a condition that each round keeps.\<close>

lemma pending_for:
  assumes "\<And>x s. Q x s \<Longrightarrow> pending_kept s (snd (f x s))" and "\<And>x y s. Q x s \<Longrightarrow> Q y s \<Longrightarrow> Q y (snd (f x s))"
    and "\<And>x. x \<in> set xs \<Longrightarrow> Q x s"
  shows "pending_kept s (snd (for_s f xs s))"
  using assms(3)
proof (induction xs arbitrary: s)
  case (Cons x xs)
  obtain r s1 where f: "f x s = (r, s1)" by (meson surj_pair)
  have k: "pending_kept s s1" using assms(1) [of x s] Cons.prems f by simp
  have "Q y s1" if "y \<in> set xs" for y using assms(2) [of x s y] Cons.prems that f by simp
  then have "pending_kept s1 (snd (for_s f xs s1))" by (rule Cons.IH)
  then show ?case using f k by (cases r) (simp_all add: bind_s_def pending_trans [of s s1])
qed simp

lemma pending_for_all: "(\<And>x s. pending_kept s (snd (f x s))) \<Longrightarrow> pending_kept s (snd (for_s f xs s))"
  by (rule pending_for [of "\<lambda>_ _. True"]) simp_all

lemma write_frame_frames:
  assumes "write_frame_to_packet f st = (r, st')"
  shows "r = Ok () \<Longrightarrow> ws_frames st' = ws_frames st @ [f]" and "r \<noteq> Ok () \<Longrightarrow> st' = st"
  using assms by (auto simp: write_frame_to_packet_def split: result.splits if_splits prod.splits)

text \<open>A control frame may clear the entry that it announces, and no other.\<close>

lemma pending_control:
  assumes "\<And>i e. sm_stopped m i = Some e \<Longrightarrow> sm_stopped (upd m) i = Some e \<or> f = StopSending i e"
    and "\<And>i e n. sm_reset m i = Some (e, n) \<Longrightarrow> sm_reset (upd m) i = Some (e, n) \<or> f = ResetStream i e n"
    and "\<And>i n. sm_data_blocked m i = Some n \<Longrightarrow> sm_data_blocked (upd m) i = Some n \<or> f = StreamDataBlocked i n"
    and "dom (sm_stopped (upd m)) \<subseteq> dom (sm_stopped m)" and "dom (sm_reset (upd m)) \<subseteq> dom (sm_reset m)"
    and "dom (sm_data_blocked (upd m)) \<subseteq> dom (sm_data_blocked m)"
  shows "pending_kept (m, st) (snd (control_frame f upd (m, st)))"
proof -
  obtain r st' where w: "write_frame_to_packet f st = (r, st')" by fastforce
  show ?thesis
  proof (cases r)
    case (Ok u)
    then show ?thesis using w write_frame_frames(1) [OF w] assms(4-6)
      by (auto simp: control_frame_def pending_kept_def dest!: assms(1-3))
  qed (use w write_frame_frames(2) [OF w] in \<open>simp_all add: control_frame_def\<close>)
qed

text \<open>The state that is announced has the same pending entries as before.\<close>

lemma pending_same:
  assumes "sm_stopped m' = sm_stopped m" and "sm_reset m' = sm_reset m" and "sm_data_blocked m' = sm_data_blocked m"
    and "pending_kept (m', st) t"
  shows "pending_kept (m, st) t"
  using assms by (cases t) (simp add: pending_kept_def)

lemma pending_steps:
  "pending_kept s (snd (write_max_streams b s))" "pending_kept s (snd (write_data_blocked s))"
  "pending_kept s (snd (write_max_stream_data now srtt i s))" "pending_kept s (snd (write_max_data now srtt s))"
  "pending_kept s (snd (write_streams_blocked b s))"
proof -
  obtain m st where s: "s = (m, st)" by fastforce
  show "pending_kept s (snd (write_max_streams b s))" "pending_kept s (snd (write_data_blocked s))"
    "pending_kept s (snd (write_streams_blocked b s))"
    unfolding s by (auto simp: write_max_streams_def write_data_blocked_def write_streams_blocked_def
        sm_update_local_max_streams_def update_data_blocked_at_def sm_update_streams_blocked_at_def
        split: option.split split: if_splits intro!: pending_control)
  show "pending_kept s (snd (write_max_data now srtt s))"
    unfolding s by (auto simp: write_max_data_def Let_def sm_autotune_window_def update_max_rx_data_def
        intro!: pending_same [of "m\<lparr>sm_flow := fc\<rparr>" m for fc] pending_control)
  show "pending_kept s (snd (write_max_stream_data now srtt i s))"
  proof (cases "sm_streams m i")
    case None
    then show ?thesis by (auto simp: s write_max_stream_data_def mark_almost_full_def pending_kept_def)
  next
    case (Some x)
    define rv where "rv = rv_autotune_window now srtt (st_recv x)"
    define m1 where "m1 = put_stream i (x\<lparr>st_recv := rv\<rparr>) m"
    have "write_max_stream_data now srtt i s = control_frame (MaxStreamData i (max_data_next (rv_flow rv)))
        (\<lambda>m. (sm_ensure_window_lower_bound (conn_window_bound (fc_window (rv_flow rv)))
               (mark_almost_full i False (with_recv i (rv_update_max_data now) m)))\<lparr>sm_rx_almost_full := True\<rparr>) (m1, st)"
      using Some unfolding s write_max_stream_data_def Let_def m1_def rv_def by simp
    moreover have "sm_stopped (with_recv i g m1) = sm_stopped m1" "sm_reset (with_recv i g m1) = sm_reset m1"
      "sm_data_blocked (with_recv i g m1) = sm_data_blocked m1" for g
      by (simp_all add: with_recv_def put_stream_def split: option.split)
    ultimately have "pending_kept (m1, st) (snd (write_max_stream_data now srtt i s))"
      by (auto simp: sm_ensure_window_lower_bound_def mark_almost_full_def split: if_splits intro!: pending_control)
    then show ?thesis unfolding s by (rule pending_same [rotated 3]) (simp_all add: m1_def put_stream_def)
  qed
qed

lemma control_frame_map: "fst (snd (control_frame f upd (m, st))) \<in> {m, upd m}"
  by (auto simp: control_frame_def split: prod.split result.split)

text \<open>The loops that announce the entries of a map and clear them.\<close>

lemma pending_entries:
  fixes get :: "'c stream_map \<Rightarrow> u64 \<rightharpoonup> 'v"
  assumes body: "\<And>i v. body (i, v) = control_frame (F i v) (clear i)"
    and announced: "\<And>i v m st. get m i \<in> {None, Some v} \<Longrightarrow> pending_kept (m, st) (snd (control_frame (F i v) (clear i) (m, st)))"
    and clear: "\<And>i m. get (clear i m) = (get m)(i := None)"
    and order: "set (order (dom (get m))) = dom (get m)"
  shows "pending_kept (m, st) (snd (for_s body (entries_in order (get m)) (m, st)))"
proof (rule pending_for [of "\<lambda>(i, v) s. get (fst s) i \<in> {None, Some v}"])
  fix x s
  assume x: "(\<lambda>(i, v) s. get (fst s) i \<in> {None, Some v}) x (s :: 'c writing)"
  obtain i v m' st' where p: "x = (i, v)" "s = (m', st')" by (cases x; cases s)
  show "pending_kept s (snd (body x s))" using x announced by (simp add: p body)
  fix y
  assume y: "(\<lambda>(i, v) s. get (fst s) i \<in> {None, Some v}) y s"
  show "(\<lambda>(i, v) s. get (fst s) i \<in> {None, Some v}) y (snd (body x s))"
    using y control_frame_map [of "F i v" "clear i" m' st'] by (auto simp: p body clear split: if_splits)
next
  fix x
  assume "x \<in> set (entries_in order (get m))"
  then show "(\<lambda>(i, v) s. get (fst s) i \<in> {None, Some v}) x (m, st)" using order by (auto simp: entries_in_def)
qed

lemma pending_announced:
  assumes "finite_pending s" and "\<And>S. finite S \<Longrightarrow> set (order S) = S"
  shows "pending_kept s (snd ((\<lambda>(m, st). for_s write_stop_sending (entries_in order (sm_stopped m)) (m, st)) s))"
    and "pending_kept s (snd ((\<lambda>(m, st). for_s write_reset_stream (entries_in order (sm_reset m)) (m, st)) s))"
    and "pending_kept s (snd ((\<lambda>(m, st). for_s write_stream_data_blocked (entries_in order (sm_data_blocked m)) (m, st)) s))"
proof -
  obtain m st where s: "s = (m, st)" by fastforce
  have o: "set (order (dom (sm_stopped m))) = dom (sm_stopped m)" "set (order (dom (sm_reset m))) = dom (sm_reset m)"
    "set (order (dom (sm_data_blocked m))) = dom (sm_data_blocked m)"
    using assms by (simp_all add: finite_pending_def s)
  show "pending_kept s (snd ((\<lambda>(m, st). for_s write_stop_sending (entries_in order (sm_stopped m)) (m, st)) s))"
    unfolding s prod.case
    by (rule pending_entries [where F = StopSending and clear = "\<lambda>i. mark_stopped i False 0"])
      (auto simp: write_stop_sending_def mark_stopped_def o(1) split: if_splits intro!: pending_control)
  show "pending_kept s (snd ((\<lambda>(m, st). for_s write_reset_stream (entries_in order (sm_reset m)) (m, st)) s))"
    unfolding s prod.case
    by (rule pending_entries [where F = "\<lambda>i (e, n). ResetStream i e n" and clear = "\<lambda>i. mark_reset i False 0 0"])
      (auto simp: write_reset_stream_def mark_reset_def o(2) split: if_splits intro!: pending_control)
  show "pending_kept s (snd ((\<lambda>(m, st). for_s write_stream_data_blocked (entries_in order (sm_data_blocked m)) (m, st)) s))"
    unfolding s prod.case
    by (rule pending_entries [where F = StreamDataBlocked and clear = "\<lambda>i. mark_blocked i False 0"])
      (auto simp: write_stream_data_blocked_def mark_blocked_def o(3) split: if_splits intro!: pending_control)
qed

lemma pending_control_frames:
  assumes "finite_pending s" and order: "\<And>S. finite S \<Longrightarrow> set (order S) = S"
  shows "pending_kept s (snd (write_stream_control_frames now srtt order s))"
  unfolding write_stream_control_frames_def
proof (intro pending_bind assms(1))
  fix s :: "'b writing"
  assume fin: "finite_pending s"
  show "pending_kept s (snd (for_s write_max_streams [True, False] s))" "pending_kept s (snd (for_s write_streams_blocked [True, False] s))"
    "pending_kept s (snd ((\<lambda>(m, st). for_s (write_max_stream_data now srtt) (order (sm_almost_full m)) (m, st)) s))"
    by (cases s, simp only: prod.case, intro pending_for_all pending_steps)+
  show "pending_kept s (snd (write_data_blocked s))" "pending_kept s (snd (write_max_data now srtt s))" by (rule pending_steps)+
  show "pending_kept s (snd ((\<lambda>(m, st). for_s write_stop_sending (entries_in order (sm_stopped m)) (m, st)) s))"
    "pending_kept s (snd ((\<lambda>(m, st). for_s write_reset_stream (entries_in order (sm_reset m)) (m, st)) s))"
    "pending_kept s (snd ((\<lambda>(m, st). for_s write_stream_data_blocked (entries_in order (sm_data_blocked m)) (m, st)) s))"
    by (rule pending_announced [OF fin order], assumption)+
qed

text \<open>When a loop gets through, its map is empty.\<close>

lemma announced_all:
  fixes get :: "'c stream_map \<Rightarrow> u64 \<rightharpoonup> 'v"
  assumes body: "\<And>i v. body (i, v) = control_frame (F i v) (clear i)" and clear: "\<And>i m. get (clear i m) = (get m)(i := None)"
    and order: "set (order (dom (get m))) = dom (get m)" and r: "for_s body (entries_in order (get m)) (m, st) = (Ok (), m', st')"
  shows "get m' = Map.empty"
proof -
  have "get m' i = (if i \<in> fst ` set xs then None else get m i)" if "for_s body xs (m, st) = (Ok (), m', st')" for xs m st i
    using that
  proof (induction xs arbitrary: m st)
    case (Cons x xs)
    obtain j v where x: "x = (j, v)" by fastforce
    obtain m1 st1 where b: "body x (m, st) = (Ok (), m1, st1)" "for_s body xs (m1, st1) = (Ok (), m', st')"
      using Cons.prems by (auto simp: bind_s_Ok_iff)
    have "m1 = clear j m" using b(1) by (auto simp: x body control_frame_def split: prod.splits result.splits)
    then show ?case using Cons.IH [OF b(2)] by (auto simp: clear x)
  qed simp
  from this [OF r] have "get m' i = None" for i
    using order by (cases "i \<in> dom (get m)") (auto simp: entries_in_def image_image domIff)
  then show ?thesis by auto
qed

lemma control_frames_complete:
  assumes fin: "finite_pending (m, st)" and order: "\<And>S. finite S \<Longrightarrow> set (order S) = S"
    and r: "write_stream_control_frames now srtt order (m, st) = (Ok (), m', st')"
  shows "sm_stopped m' = Map.empty" and "sm_reset m' = Map.empty" and "sm_data_blocked m' = Map.empty"
proof -
  obtain s1 s2 s3 m4 st4 m5 st5 m6 st6 m7 st7 where
    st: "for_s write_max_streams [True, False] (m, st) = (Ok (), s1)" "write_data_blocked s1 = (Ok (), s2)"
      "(\<lambda>(m, st). for_s (write_max_stream_data now srtt) (order (sm_almost_full m)) (m, st)) s2 = (Ok (), s3)"
      "write_max_data now srtt s3 = (Ok (), m4, st4)"
      "for_s write_stop_sending (entries_in order (sm_stopped m4)) (m4, st4) = (Ok (), m5, st5)"
      "for_s write_reset_stream (entries_in order (sm_reset m5)) (m5, st5) = (Ok (), m6, st6)"
      "for_s write_stream_data_blocked (entries_in order (sm_data_blocked m6)) (m6, st6) = (Ok (), m7, st7)"
      "for_s write_streams_blocked [True, False] (m7, st7) = (Ok (), m', st')"
    using r unfolding write_stream_control_frames_def bind_s_Ok_iff by auto
  have "pending_kept (m, st) s1" using pending_for_all [of write_max_streams, OF pending_steps(1), of "(m, st)" "[True, False]"] st(1) by simp
  also have "pending_kept s1 s2" using pending_steps(2) [of s1] st(2) by simp
  also have "pending_kept s2 s3"
    using pending_for_all [of "write_max_stream_data now srtt", OF pending_steps(3), of s2 "order (sm_almost_full (fst s2))"] st(3)
    by (simp add: case_prod_beta)
  also have "pending_kept s3 (m4, st4)" using pending_steps(4) [of s3 now srtt] st(4) by simp
  finally have f4: "finite_pending (m4, st4)" using fin by (rule pending_finite)
  have k5: "pending_kept (m4, st4) (m5, st5)" using pending_announced(1) [OF f4 order] st(5) by simp
  have f5: "finite_pending (m5, st5)" by (rule pending_finite [OF k5 f4])
  have k6: "pending_kept (m5, st5) (m6, st6)" using pending_announced(2) [OF f5 order] st(6) by simp
  have f6: "finite_pending (m6, st6)" by (rule pending_finite [OF k6 f5])
  have k7: "pending_kept (m6, st6) (m7, st7)" using pending_announced(3) [OF f6 order] st(7) by simp
  have k8: "pending_kept (m7, st7) (m', st')" using pending_for_all [of write_streams_blocked, OF pending_steps(5), of "(m7, st7)" "[True, False]"] st(8) by simp
  have "sm_stopped m5 = Map.empty"
    by (rule announced_all [where get = sm_stopped and F = StopSending and clear = "\<lambda>i. mark_stopped i False 0", OF _ _ _ st(5)])
      (use f4 order in \<open>auto simp: write_stop_sending_def mark_stopped_def finite_pending_def\<close>)
  moreover have "sm_reset m6 = Map.empty"
    by (rule announced_all [where get = sm_reset and F = "\<lambda>i (e, n). ResetStream i e n" and clear = "\<lambda>i. mark_reset i False 0 0", OF _ _ _ st(6)])
      (use f5 order in \<open>auto simp: write_reset_stream_def mark_reset_def finite_pending_def\<close>)
  moreover have "sm_data_blocked m7 = Map.empty"
    by (rule announced_all [where get = sm_data_blocked and F = StreamDataBlocked and clear = "\<lambda>i. mark_blocked i False 0", OF _ _ _ st(7)])
      (use f6 order in \<open>auto simp: write_stream_data_blocked_def mark_blocked_def finite_pending_def\<close>)
  ultimately show "sm_stopped m' = Map.empty" "sm_reset m' = Map.empty" "sm_data_blocked m' = Map.empty"
    using k6 k7 k8 by (auto simp: pending_kept_def)
qed

subsection \<open>Property\<close>

text \<open>C15: the control frames of streams lose nothing. Whether or not the packet has room for all of them, every stream that
  is to be stopped, reset or reported as blocked still is, with the same values, or the packet now carries the frame that
  says so; and when the call succeeds on an open connection, all of them are in the packet. The order in which the hash
  maps are iterated does not matter.\<close>

theorem control_frames_not_lost:
  assumes "\<forall>S. finite S \<longrightarrow> set (order S) = S"
    and "finite (dom (sm_stopped m))" and "finite (dom (sm_reset m))" and "finite (dom (sm_data_blocked m))"
    and "try_write_stream_control_frames pkt closing act now srtt order (m, st) = (r, m', st')"
  shows "\<exists>fs. ws_frames st' = ws_frames st @ fs
    \<and> (\<forall>i e. sm_stopped m i = Some e \<longrightarrow> sm_stopped m' i = Some e \<or> StopSending i e \<in> set fs)
    \<and> (\<forall>i e n. sm_reset m i = Some (e, n) \<longrightarrow> sm_reset m' i = Some (e, n) \<or> ResetStream i e n \<in> set fs)
    \<and> (\<forall>i n. sm_data_blocked m i = Some n \<longrightarrow> sm_data_blocked m' i = Some n \<or> StreamDataBlocked i n \<in> set fs)
    \<and> (r = Ok () \<and> pkt = OneRTT \<and> \<not> closing \<and> act = Ok True \<longrightarrow>
         sm_stopped m' = Map.empty \<and> sm_reset m' = Map.empty \<and> sm_data_blocked m' = Map.empty)"
proof -
  have fin: "finite_pending (m, st)" using assms(2-4) by (simp add: finite_pending_def)
  have order: "finite S \<Longrightarrow> set (order S) = S" for S using assms(1) by simp
  have k: "pending_kept (m, st) (m', st')"
    using assms(5) pending_control_frames [OF fin order, of now srtt]
    by (auto simp: try_write_stream_control_frames_def split: if_splits result.splits)
  have c: "sm_stopped m' = Map.empty \<and> sm_reset m' = Map.empty \<and> sm_data_blocked m' = Map.empty"
    if "r = Ok () \<and> pkt = OneRTT \<and> \<not> closing \<and> act = Ok True"
    using that assms(5) control_frames_complete [OF fin order] by (simp add: try_write_stream_control_frames_def)
  show ?thesis using k c by (auto simp: pending_kept_def)
qed

theorem control_frames_not_lost_witness:
  "\<exists>r m' st' fs. try_write_stream_control_frames OneRTT False (Ok True) 0 0 sorted_list_of_set
       (mark_stopped 4 True 9 small_server, empty_packet 1200) = (r, m', st') \<and> ws_frames st' = fs
     \<and> (sm_stopped m' 4 = Some 9 \<or> StopSending 4 9 \<in> set fs)"
proof -
  obtain r m' st' where r: "try_write_stream_control_frames OneRTT False (Ok True) 0 0 sorted_list_of_set
       (mark_stopped 4 True 9 small_server, empty_packet 1200) = (r, m', st')"
    using prod_cases3 by blast
  have d: "sm_stopped (mark_stopped 4 True 9 small_server) = [4 \<mapsto> 9]" "sm_reset (mark_stopped 4 True 9 small_server) = Map.empty"
    "sm_data_blocked (mark_stopped 4 True 9 small_server) = Map.empty"
    by (simp_all add: mark_stopped_def) (simp_all add: small_server_def sm_new_def)
  show ?thesis using control_frames_not_lost [OF _ _ _ _ r] r by (simp add: d)
qed

end
