(* ===== verification/Pkt_Space.thy ===== *)
theory Pkt_Space
  imports Frame Window
begin

text \<open>
  Packet number spaces (src/connection/space.rs): the state of a space, the map of all spaces of a
  connection, the metadata of sent packets, and the three-level queue of buffered frames. Times are
  natural numbers of nanoseconds; counters of packets held in memory are natural numbers.
\<close>

section \<open>Sent packets\<close>

record buffer_flags =
  from_high :: bool
  from_mid :: bool
  from_low :: bool

datatype buffer_type = BufHigh | BufMid | BufLow

fun buffer_type_from :: "nat \<Rightarrow> buffer_type" where
  "buffer_type_from 0 = BufHigh"
| "buffer_type_from (Suc 0) = BufMid"
| "buffer_type_from (Suc (Suc _)) = BufLow"

definition has_buffered :: "buffer_flags \<Rightarrow> bool" where
  "has_buffered f \<longleftrightarrow> from_high f \<or> from_mid f \<or> from_low f"

fun buffer_mark :: "buffer_type \<Rightarrow> buffer_flags \<Rightarrow> buffer_flags" where
  "buffer_mark BufHigh f = f\<lparr>from_high := True\<rparr>"
| "buffer_mark BufMid f = f\<lparr>from_mid := True\<rparr>"
| "buffer_mark BufLow f = f\<lparr>from_low := True\<rparr>"

definition buffer_flags_default :: buffer_flags where
  "buffer_flags_default = \<lparr>from_high = False, from_mid = False, from_low = False\<rparr>"

record rate_sample_packet_state =
  rs_delivered :: u64
  rs_delivered_time :: "nat option"
  rs_first_sent_time :: "nat option"
  rs_is_app_limited :: bool
  rs_tx_in_flight :: u64
  rs_lost :: u64

definition rate_sample_default :: rate_sample_packet_state where
  "rate_sample_default = \<lparr>rs_delivered = 0, rs_delivered_time = None, rs_first_sent_time = None,
     rs_is_app_limited = False, rs_tx_in_flight = 0, rs_lost = 0\<rparr>"

record sent_packet =
  sp_pkt_type :: packet_type
  sp_pkt_num :: u64
  sp_frames :: "frame list"
  sp_time_sent :: nat
  sp_time_acked :: "nat option"
  sp_time_lost :: "nat option"
  sp_ack_eliciting :: bool
  sp_in_flight :: bool
  sp_has_data :: bool
  sp_pmtu_probe :: bool
  sp_pacing :: bool
  sp_sent_size :: nat
  sp_rate_sample :: rate_sample_packet_state
  sp_buffer_flags :: buffer_flags

definition sent_packet_default :: "nat \<Rightarrow> sent_packet" where
  "sent_packet_default now =
     \<lparr>sp_pkt_type = OneRTT, sp_pkt_num = 0, sp_frames = [], sp_time_sent = now, sp_time_acked = None,
      sp_time_lost = None, sp_ack_eliciting = False, sp_in_flight = False, sp_has_data = False,
      sp_pmtu_probe = False, sp_pacing = False, sp_sent_size = 0, sp_rate_sample = rate_sample_default,
      sp_buffer_flags = buffer_flags_default\<rparr>"

record acked_packet =
  ap_pkt_num :: u64
  ap_time_sent :: nat
  ap_rtt :: nat

section \<open>Buffered frames\<close>

record buffer_queue =
  bq_high :: "frame list"
  bq_mid :: "frame list"
  bq_low :: "frame list"
  bq_count :: nat

definition buffer_queue_default :: buffer_queue where
  "buffer_queue_default = \<lparr>bq_high = [], bq_mid = [], bq_low = [], bq_count = 0\<rparr>"

fun bq_get :: "buffer_type \<Rightarrow> buffer_queue \<Rightarrow> frame list" where
  "bq_get BufHigh q = bq_high q"
| "bq_get BufMid q = bq_mid q"
| "bq_get BufLow q = bq_low q"

fun bq_set :: "buffer_type \<Rightarrow> frame list \<Rightarrow> buffer_queue \<Rightarrow> buffer_queue" where
  "bq_set BufHigh fs q = q\<lparr>bq_high := fs\<rparr>"
| "bq_set BufMid fs q = q\<lparr>bq_mid := fs\<rparr>"
| "bq_set BufLow fs q = q\<lparr>bq_low := fs\<rparr>"

fun bq_pop_from :: "buffer_type list \<Rightarrow> buffer_queue \<Rightarrow> (frame \<times> buffer_type) option \<times> buffer_queue" where
  "bq_pop_from [] q = (None, q)"
| "bq_pop_from (t # ts) q =
     (case bq_get t q of
        [] \<Rightarrow> bq_pop_from ts q
      | f # fs \<Rightarrow> (Some (f, t), bq_set t fs (q\<lparr>bq_count := bq_count q - 1\<rparr>)))"

definition bq_pop_front :: "buffer_queue \<Rightarrow> (frame \<times> buffer_type) option \<times> buffer_queue" where
  "bq_pop_front = bq_pop_from (map buffer_type_from [0..<3])"

definition bq_push_front :: "frame \<Rightarrow> buffer_type \<Rightarrow> buffer_queue \<Rightarrow> buffer_queue" where
  "bq_push_front f t q = bq_set t (f # bq_get t q) (q\<lparr>bq_count := bq_count q + 1\<rparr>)"

definition bq_push_back :: "frame \<Rightarrow> buffer_type \<Rightarrow> buffer_queue \<Rightarrow> buffer_queue" where
  "bq_push_back f t q = bq_set t (bq_get t q @ [f]) (q\<lparr>bq_count := bq_count q + 1\<rparr>)"

definition bq_append :: "frame list \<Rightarrow> buffer_type \<Rightarrow> buffer_queue \<Rightarrow> buffer_queue" where
  "bq_append fs t q = bq_set t (bq_get t q @ fs) (q\<lparr>bq_count := bq_count q + length fs\<rparr>)"

definition bq_len :: "buffer_queue \<Rightarrow> nat" where
  "bq_len q = bq_count q"

definition bq_is_empty :: "buffer_queue \<Rightarrow> bool" where
  "bq_is_empty q \<longleftrightarrow> bq_count q = 0"

section \<open>Spaces\<close>

definition MAX_NON_ACK_ELICITING :: nat where "MAX_NON_ACK_ELICITING = 24"

definition MAX_ACK_RANGES :: nat where "MAX_ACK_RANGES = 68"

record pkt_num_space =
  pn_id :: space_id
  pn_next_pkt_num :: u64
  pn_consecutive_non_ack_eliciting_sent :: nat
  pn_lowest_1rtt_pkt_num :: u64
  pn_largest_rx_pkt_num :: u64
  pn_first_pkt_num_recv :: "u64 option"
  pn_first_pkt_num_sent :: "u64 option"
  pn_largest_rx_pkt_time :: nat
  pn_largest_rx_non_probing_pkt_num :: u64
  pn_largest_rx_ack_eliciting_pkt_num :: u64
  pn_recv_pkt_num_need_ack :: "u64 rangeset"
  pn_recv_pkt_num_win :: seq_num_window
  pn_need_send_ack :: bool
  pn_ack_eliciting_pkts_since_last_sent_ack :: u64
  pn_ack_timer :: "nat option"
  pn_sent :: "sent_packet list"
  pn_lost :: "frame list"
  pn_acked :: "frame list"
  pn_buffered :: buffer_queue
  pn_time_of_last_sent_ack_eliciting_pkt :: "nat option"
  pn_loss_time :: "nat option"
  pn_largest_acked_pkt :: u64
  pn_loss_probes :: nat
  pn_bytes_in_flight :: nat
  pn_ack_eliciting_in_flight :: nat
  pn_is_data :: bool

definition space_new :: "space_id \<Rightarrow> nat \<Rightarrow> pkt_num_space" where
  "space_new sid now =
     \<lparr>pn_id = sid, pn_next_pkt_num = 0, pn_consecutive_non_ack_eliciting_sent = 0,
      pn_lowest_1rtt_pkt_num = - 1, pn_largest_rx_pkt_num = 0, pn_first_pkt_num_recv = None,
      pn_first_pkt_num_sent = None, pn_largest_rx_pkt_time = now, pn_largest_rx_non_probing_pkt_num = 0,
      pn_largest_rx_ack_eliciting_pkt_num = 0, pn_recv_pkt_num_need_ack = rs_new MAX_ACK_RANGES,
      pn_recv_pkt_num_win = win_default, pn_need_send_ack = False,
      pn_ack_eliciting_pkts_since_last_sent_ack = 0, pn_ack_timer = None, pn_sent = [], pn_lost = [],
      pn_acked = [], pn_buffered = buffer_queue_default, pn_time_of_last_sent_ack_eliciting_pkt = None,
      pn_loss_time = None, pn_largest_acked_pkt = - 1, pn_loss_probes = 0, pn_bytes_in_flight = 0,
      pn_ack_eliciting_in_flight = 0, pn_is_data = (sid \<noteq> SInitial \<and> sid \<noteq> SHandshake)\<rparr>"

definition detect_duplicated_pkt_num :: "u64 \<Rightarrow> pkt_num_space \<Rightarrow> bool" where
  "detect_duplicated_pkt_num n s = win_contains n (pn_recv_pkt_num_win s)"

definition need_elicit_ack :: "pkt_num_space \<Rightarrow> bool" where
  "need_elicit_ack s \<longleftrightarrow>
     MAX_NON_ACK_ELICITING \<le> pn_consecutive_non_ack_eliciting_sent s \<or> 0 < pn_loss_probes s"

definition need_send_buffered_frames :: "pkt_num_space \<Rightarrow> bool" where
  "need_send_buffered_frames s \<longleftrightarrow> \<not> bq_is_empty (pn_buffered s)"

definition get_largest_acked_pkt :: "pkt_num_space \<Rightarrow> u64 option" where
  "get_largest_acked_pkt s =
     (if pn_largest_acked_pkt s \<noteq> - 1 then Some (pn_largest_acked_pkt s) else None)"

section \<open>All spaces of a connection\<close>

record space_map =
  sm_spaces :: "u64 \<rightharpoonup> pkt_num_space"
  sm_next_data_ext_id :: u64

fun space_key :: "space_id \<Rightarrow> u64" where
  "space_key SInitial = 0"
| "space_key SHandshake = 1"
| "space_key SData = 2"
| "space_key (SDataExt i) = i"

definition spaces_new :: "nat \<Rightarrow> space_map" where
  "spaces_new now =
     \<lparr>sm_spaces = [0 \<mapsto> space_new SInitial now, 1 \<mapsto> space_new SHandshake now, 2 \<mapsto> space_new SData now],
      sm_next_data_ext_id = 3\<rparr>"

definition space_get :: "space_id \<Rightarrow> space_map \<Rightarrow> pkt_num_space option" where
  "space_get sid m = sm_spaces m (space_key sid)"

text \<open>A change through \<open>get_mut\<close>.\<close>

definition space_put :: "space_id \<Rightarrow> pkt_num_space \<Rightarrow> space_map \<Rightarrow> space_map" where
  "space_put sid s m = m\<lparr>sm_spaces := (sm_spaces m)(space_key sid \<mapsto> s)\<rparr>"

definition space_add :: "nat \<Rightarrow> space_map \<Rightarrow> space_id \<times> space_map" where
  "space_add now m =
     (let sid = SDataExt (sm_next_data_ext_id m) in
      (sid, m\<lparr>sm_spaces := (sm_spaces m)(sm_next_data_ext_id m \<mapsto> space_new sid now),
               sm_next_data_ext_id := sm_next_data_ext_id m + 1\<rparr>))"

definition space_drop :: "space_id \<Rightarrow> space_map \<Rightarrow> space_map" where
  "space_drop sid m = m\<lparr>sm_spaces := (sm_spaces m)(space_key sid := None)\<rparr>"

text \<open>Loops over all spaces; the keys give the order of the hash map.\<close>

definition spaces_need_send_buffered :: "u64 list \<Rightarrow> space_map \<Rightarrow> bool" where
  "spaces_need_send_buffered keys m \<longleftrightarrow>
     list_ex (\<lambda>k. case sm_spaces m k of Some s \<Rightarrow> need_send_buffered_frames s | None \<Rightarrow> False) keys"

definition min_ack_timer :: "u64 list \<Rightarrow> space_map \<Rightarrow> nat option" where
  "min_ack_timer keys m =
     min_opt (List.map_filter (\<lambda>k. Option.bind (sm_spaces m k) pn_ack_timer) keys)"

section \<open>Facts\<close>

text \<open>The frames of the queue in the order in which they leave it.\<close>

definition bq_frames :: "buffer_queue \<Rightarrow> frame list" where
  "bq_frames q = bq_high q @ bq_mid q @ bq_low q"

definition bq_ok :: "buffer_queue \<Rightarrow> bool" where
  "bq_ok q \<longleftrightarrow> bq_count q = length (bq_frames q)"

lemma bq_get_set [simp]: "bq_get t (bq_set u fs q) = (if t = u then fs else bq_get t q)"
  by (cases t; cases u) auto

lemma bq_ok_ops:
  "bq_ok buffer_queue_default"
  "bq_ok q \<Longrightarrow> bq_ok (bq_push_front f t q)"
  "bq_ok q \<Longrightarrow> bq_ok (bq_push_back f t q)"
  "bq_ok q \<Longrightarrow> bq_ok (bq_append fs t q)"
  by (cases t; simp add: bq_ok_def bq_frames_def buffer_queue_default_def bq_push_front_def bq_push_back_def
      bq_append_def)+

text \<open>Frames leave in the order high, middle, low; within a queue first in, first out.\<close>

lemma bq_pop_front_spec:
  assumes "bq_ok q"
  shows "case bq_pop_front q of
      (None, q') \<Rightarrow> bq_frames q = [] \<and> q' = q
    | (Some (f, t), q') \<Rightarrow> bq_frames q = f # bq_frames q' \<and> bq_ok q' \<and> bq_get t q = f # bq_get t q'"
proof -
  have "map buffer_type_from [0..<3] = [BufHigh, BufMid, BufLow]"
    by (simp add: upt_conv_Cons numeral_3_eq_3)
  with assms show ?thesis
    by (auto simp: bq_pop_front_def bq_ok_def bq_frames_def split: list.split)
qed

lemma bq_is_empty_iff: "bq_ok q \<Longrightarrow> bq_is_empty q \<longleftrightarrow> bq_frames q = []"
  by (auto simp: bq_is_empty_def bq_ok_def)

text \<open>A new extra space takes an identifier that was not in use.\<close>

definition spaces_ok :: "space_map \<Rightarrow> bool" where
  "spaces_ok m \<longleftrightarrow> 3 \<le> sm_next_data_ext_id m \<and> (\<forall>k \<in> dom (sm_spaces m). k < sm_next_data_ext_id m)"

lemma spaces_ok_new: "spaces_ok (spaces_new now)"
  by (auto simp: spaces_ok_def spaces_new_def word_less_nat_alt split: if_splits)

lemma spaces_ok_add:
  assumes "spaces_ok m" and "sm_next_data_ext_id m \<noteq> - 1" and "space_add now m = (sid, m')"
  shows "spaces_ok m' \<and> space_get sid m = None \<and> space_get sid m' = Some (space_new sid now)
    \<and> (\<forall>other. space_key other \<noteq> space_key sid \<longrightarrow> space_get other m' = space_get other m)"
proof -
  let ?n = "sm_next_data_ext_id m"
  have "?n < - 1" using assms(2) word_n1_ge [of ?n] by (auto simp only: order_le_less)
  then have less: "?n < ?n + 1" by (simp add: word_less_nat_alt unat_Suc_small)
  have "\<forall>k \<in> dom (sm_spaces m). k < ?n + 1"
    using assms(1) less by (auto simp: spaces_ok_def intro: less_trans)
  moreover have "3 \<le> ?n + 1" using assms(1) less by (auto simp: spaces_ok_def)
  ultimately have "spaces_ok m'" using assms(3) less by (auto simp: space_add_def spaces_ok_def Let_def split: if_splits)
  moreover have "sm_spaces m ?n = None" using assms(1) by (auto simp: spaces_ok_def domIff)
  ultimately show ?thesis using assms(3) by (auto simp: space_add_def space_get_def Let_def)
qed

lemma space_get_put [simp]:
  "space_get sid (space_put sid s m) = Some s"
  "space_key sid' \<noteq> space_key sid \<Longrightarrow> space_get sid' (space_put sid s m) = space_get sid' m"
  by (simp_all add: space_get_def space_put_def)

end
