(* ===== verification/Pacer.thy ===== *)
theory Pacer
  imports Prelude
begin

text \<open>
  The token-bucket pacer (src/congestion_control/pacing.rs). Tokens, capacity and rates are \<open>u64\<close>; the
  intermediate products that the source computes in \<open>u128\<close> cannot overflow there and are natural
  numbers, as are times and durations in nanoseconds.
\<close>

definition MIN_BURST_PACKET_NUM :: u64 where "MIN_BURST_PACKET_NUM = 10"
definition MAX_BURST_PACKET_NUM :: u64 where "MAX_BURST_PACKET_NUM = 128"

record pacer =
  pc_enabled :: bool
  pc_capacity :: u64
  pc_tokens :: u64
  pc_last_cwnd :: u64
  pc_last_sched_time :: nat
  pc_granularity :: nat

text \<open>\<open>Ord::clamp\<close> panics when the bounds are the wrong way round; here they are multiples of the
  datagram size.\<close>

definition clamp :: "u64 \<Rightarrow> u64 \<Rightarrow> u64 \<Rightarrow> u64" where
  "clamp lo hi x = (if x < lo then lo else if hi < x then hi else x)"

definition update_capacity :: "u64 \<Rightarrow> nat \<Rightarrow> u64 \<Rightarrow> pacer \<Rightarrow> pacer" where
  "update_capacity cwnd srtt mtu p =
     (let capacity = as_u64 (unat cwnd * pc_granularity p div max srtt 1000000)
      in p\<lparr>pc_capacity := clamp (MIN_BURST_PACKET_NUM * mtu) (MAX_BURST_PACKET_NUM * mtu) capacity\<rparr>)"

definition pacer_new :: "bool \<Rightarrow> nat \<Rightarrow> u64 \<Rightarrow> u64 \<Rightarrow> nat \<Rightarrow> nat \<Rightarrow> pacer" where
  "pacer_new enabled srtt cwnd mtu now granularity =
     (let p = \<lparr>pc_enabled = enabled, pc_capacity = 0, pc_tokens = 0, pc_last_cwnd = cwnd,
               pc_last_sched_time = now, pc_granularity = granularity\<rparr>;
          p = update_capacity cwnd srtt mtu p
      in p\<lparr>pc_tokens := pc_capacity p\<rparr>)"

definition pacer_on_sent :: "u64 \<Rightarrow> pacer \<Rightarrow> pacer" where
  "pacer_on_sent bytes_sent p =
     (if pc_enabled p then p\<lparr>pc_tokens := saturating_sub (pc_tokens p) bytes_sent\<rparr> else p)"

text \<open>The two updates that \<open>schedule\<close> makes before it decides.\<close>

definition pacer_sync :: "nat \<Rightarrow> u64 \<Rightarrow> u64 \<Rightarrow> pacer \<Rightarrow> pacer" where
  "pacer_sync srtt cwnd mtu p =
     (if cwnd \<noteq> pc_last_cwnd p
      then let p = update_capacity cwnd srtt mtu p
           in p\<lparr>pc_tokens := min (pc_capacity p) (pc_tokens p), pc_last_cwnd := cwnd\<rparr>
      else p)"

definition pacer_refill :: "u64 \<Rightarrow> nat \<Rightarrow> pacer \<Rightarrow> pacer" where
  "pacer_refill pacing_rate now p =
     (let elapsed = now - pc_last_sched_time p
      in p\<lparr>pc_tokens := min (saturating_add (pc_tokens p)
                              (as_u64 (unat pacing_rate * elapsed div 1000000000)))
                            (pc_capacity p),
           pc_last_sched_time := now\<rparr>)"

definition pacer_schedule ::
  "u64 \<Rightarrow> u64 \<Rightarrow> nat \<Rightarrow> u64 \<Rightarrow> u64 \<Rightarrow> nat \<Rightarrow> pacer \<Rightarrow> nat option \<times> pacer" where
  "pacer_schedule bytes_to_send pacing_rate srtt cwnd mtu now p =
     (if \<not> pc_enabled p \<or> srtt = 0 \<or> cwnd = 0 \<or> pacing_rate = 0 then (None, p)
      else
        let p = pacer_sync srtt cwnd mtu p in
        if bytes_to_send \<le> pc_tokens p then (None, p)
        else
          let p = pacer_refill pacing_rate now p in
          if bytes_to_send \<le> pc_tokens p then (None, p)
          else
            let time_to_wait = saturating_sub bytes_to_send (pc_tokens p) * 1000000000 div max pacing_rate 1
            in (Some (pc_last_sched_time p + unat time_to_wait), p))"

lemma pacer_sync_simps [simp]:
  "pc_enabled (pacer_sync srtt cwnd mtu p) = pc_enabled p"
  "pc_last_cwnd (pacer_sync srtt cwnd mtu p) = cwnd"
  by (simp_all add: pacer_sync_def update_capacity_def Let_def)

lemma pacer_sync_same: "pc_last_cwnd p = cwnd \<Longrightarrow> pacer_sync srtt cwnd mtu p = p"
  by (simp add: pacer_sync_def)

lemma pacer_refill_simps [simp]:
  "pc_enabled (pacer_refill rate now p) = pc_enabled p"
  "pc_last_cwnd (pacer_refill rate now p) = pc_last_cwnd p"
  "pc_capacity (pacer_refill rate now p) = pc_capacity p"
  "pc_last_sched_time (pacer_refill rate now p) = now"
  by (simp_all add: pacer_refill_def Let_def)

section \<open>Facts\<close>

text \<open>The bucket never holds more than its capacity, and the capacity is between 10 and 128 datagrams
  of the size last used.\<close>

definition pacer_ok :: "pacer \<Rightarrow> bool" where
  "pacer_ok p \<longleftrightarrow> pc_tokens p \<le> pc_capacity p"

lemma pacer_ok_new: "pacer_ok (pacer_new e srtt cwnd mtu now g)"
  by (simp add: pacer_ok_def pacer_new_def Let_def)

lemma pacer_ok_on_sent: "pacer_ok p \<Longrightarrow> pacer_ok (pacer_on_sent n p)"
  by (auto simp: pacer_ok_def pacer_on_sent_def word_le_nat_alt unat_saturating_sub)

lemma pacer_ok_schedule: "pacer_ok p \<Longrightarrow> pacer_ok (snd (pacer_schedule n rate srtt cwnd mtu now p))"
  by (auto simp: pacer_ok_def pacer_schedule_def pacer_sync_def pacer_refill_def Let_def)

lemma capacity_bounds:
  assumes "unat mtu * 128 < 2 ^ 64"
  shows "10 * unat mtu \<le> unat (pc_capacity (update_capacity cwnd srtt mtu p))"
    and "unat (pc_capacity (update_capacity cwnd srtt mtu p)) \<le> 128 * unat mtu"
proof -
  have u: "unat (MIN_BURST_PACKET_NUM * mtu) = 10 * unat mtu" "unat (MAX_BURST_PACKET_NUM * mtu) = 128 * unat mtu"
    using assms by (simp_all add: MIN_BURST_PACKET_NUM_def MAX_BURST_PACKET_NUM_def unat_mult_small)
  show "10 * unat mtu \<le> unat (pc_capacity (update_capacity cwnd srtt mtu p))"
    and "unat (pc_capacity (update_capacity cwnd srtt mtu p)) \<le> 128 * unat mtu"
    using u by (auto simp: update_capacity_def clamp_def Let_def word_less_nat_alt)
qed

text \<open>
  A packet that has to wait can go one nanosecond after the time that \<open>schedule\<close> returned: both the
  waiting time and the refill are rounded down, so at that very time the bucket may still be one byte
  short (\<open>pacer_wakes_early\<close>).
\<close>

lemma pacer_wait_enough:
  assumes s: "pacer_schedule n rate srtt cwnd mtu now p = (Some t, p')"
    and n: "n \<le> pc_capacity p'" "unat n * 1000000000 < 2 ^ 64" and ok: "pacer_ok p"
    and t: "t < t'" and r: "unat rate * (t' - now) div 1000000000 < 2 ^ 64"
  shows "fst (pacer_schedule n rate srtt cwnd mtu t' p') = None"
proof -
  let ?T = "unat (pc_tokens p')" and ?B = "10 ^ 9 :: nat"
  from s have p': "pc_enabled p'" "srtt \<noteq> 0" "cwnd \<noteq> 0" "rate \<noteq> 0" "pc_last_cwnd p' = cwnd"
      "pc_last_sched_time p' = now" "\<not> n \<le> pc_tokens p'"
    and t: "t = now + unat (saturating_sub n (pc_tokens p') * 1000000000 div max rate 1)"
    by (auto simp: pacer_schedule_def Let_def split: if_splits)
  have T: "?T < unat n" using p'(7) by (simp add: word_le_nat_alt)
  have pos: "0 < unat rate" using p'(4) by (simp add: unat_gt_0)
  then have "1 \<le> rate" by (simp add: word_le_nat_alt)
  with pos have rate: "max rate 1 = rate" "0 < unat rate" by (simp_all only: max_absorb1)
  have "unat (saturating_sub n (pc_tokens p') * 1000000000) = (unat n - ?T) * ?B"
  proof -
    have "(unat n - ?T) * ?B \<le> unat n * ?B" by simp
    with n(2) show ?thesis by (subst unat_mult_small) (simp_all add: unat_saturating_sub)
  qed
  then have w: "t = now + (unat n - ?T) * ?B div unat rate" by (simp add: t rate unat_div)
  define e where "e = t' - now"
  have "(unat n - ?T) * ?B div unat rate < e" using assms(5) w by (simp add: e_def)
  then have "(unat n - ?T) * ?B < unat rate * e"
    using rate(2) by (metis div_less_iff_less_mult mult.commute)
  then have refill: "unat n - ?T \<le> unat rate * e div ?B"
    by (simp add: less_eq_div_iff_mult_less_eq)
  have "unat (as_u64 (unat rate * e div ?B)) = unat rate * e div ?B"
    using r by (intro unat_of_nat_u64) (simp add: e_def)
  then have "n \<le> saturating_add (pc_tokens p') (as_u64 (unat rate * e div ?B))"
    using refill T unsigned_less [of n, where 'a = nat] by (simp add: word_le_nat_alt unat_saturating_add)
  with p' n(1) show ?thesis by (simp add: pacer_schedule_def pacer_sync_same pacer_refill_def Let_def e_def)
qed

lemma pacer_wakes_early:
  "let p = \<lparr>pc_enabled = True, pc_capacity = 15000, pc_tokens = 0, pc_last_cwnd = 30000,
            pc_last_sched_time = 0, pc_granularity = 1000000\<rparr>;
       (t, p') = pacer_schedule 1000 3000000 1000000 30000 1500 0 p
   in t = Some 333333 \<and> fst (pacer_schedule 1000 3000000 1000000 30000 1500 333333 p') = Some 333666"
  by (simp add: pacer_schedule_def pacer_sync_def pacer_refill_def Let_def saturating_sub_def saturating_add_def)

end
