(* ===== verification/Recovery.thy ===== *)
theory Recovery
  imports Pkt_Space Pacer Rtt Pmtu
begin

text \<open>
  Loss detection (src/connection/recovery.rs, RFC 9002): what happens when a packet is sent or
  acknowledged, when the loss detection timer fires, and when a packet number space is discarded.

  The congestion controller is a trait object in the source; here it is a record of its operations on
  a state of any type, so what is proved holds for every controller. A controller changes nothing of
  a packet but its rate sample, which is what its operations return. \<open>mul_time_thresh\<close> is
  \<open>Duration::mul_f64\<close> with the factor \<open>time_thresh\<close>.
\<close>

section \<open>State\<close>

record 'c recovery_ops =
  cc_on_sent :: "nat \<Rightarrow> sent_packet \<Rightarrow> u64 \<Rightarrow> 'c \<Rightarrow> rate_sample_packet_state \<times> 'c"
  cc_begin_ack :: "nat \<Rightarrow> u64 \<Rightarrow> 'c \<Rightarrow> 'c"
  cc_on_ack :: "sent_packet \<Rightarrow> nat \<Rightarrow> bool \<Rightarrow> rtt_estimator \<Rightarrow> u64 \<Rightarrow> 'c \<Rightarrow> rate_sample_packet_state \<times> 'c"
  cc_end_ack :: "'c \<Rightarrow> 'c"
  cc_on_congestion_event :: "nat \<Rightarrow> sent_packet \<Rightarrow> bool \<Rightarrow> u64 \<Rightarrow> u64 \<Rightarrow> 'c \<Rightarrow> 'c"
  cc_congestion_window :: "'c \<Rightarrow> u64"
  cc_pacing_rate :: "'c \<Rightarrow> u64 option"
  mul_time_thresh :: "nat \<Rightarrow> nat"

record path_stats =
  st_recv_count :: u64
  st_recv_bytes :: u64
  st_sent_count :: u64
  st_sent_bytes :: u64
  st_lost_count :: u64
  st_lost_bytes :: u64
  st_acked_count :: u64
  st_acked_bytes :: u64
  st_init_cwnd :: u64
  st_final_cwnd :: u64
  st_max_cwnd :: u64
  st_min_cwnd :: u64
  st_max_inflight :: u64
  st_cwnd_limited_count :: u64
  st_cwnd_limited_duration :: u64

definition path_stats_default :: path_stats where
  "path_stats_default = \<lparr>st_recv_count = 0, st_recv_bytes = 0, st_sent_count = 0, st_sent_bytes = 0,
     st_lost_count = 0, st_lost_bytes = 0, st_acked_count = 0, st_acked_bytes = 0, st_init_cwnd = 0,
     st_final_cwnd = 0, st_max_cwnd = 0, st_min_cwnd = 0, st_max_inflight = 0, st_cwnd_limited_count = 0,
     st_cwnd_limited_duration = 0\<rparr>"

record handshake_status =
  derived_handshake_keys :: bool
  peer_verified_address :: bool
  hs_completed :: bool

definition INITIAL_PACKET_THRESHOLD :: u64 where "INITIAL_PACKET_THRESHOLD = 3"
definition MAX_PTO_PROBES_COUNT :: nat where "MAX_PTO_PROBES_COUNT = 2"

record recovery_config =
  cf_max_ack_delay :: nat
  cf_pto_linear_factor :: u64
  cf_max_pto :: nat
  cf_initial_rtt :: nat
  cf_max_datagram_size :: nat
  cf_initial_congestion_window :: u64
  cf_enable_pacing :: bool
  cf_pacing_granularity :: nat

record 'c recovery =
  rc_max_ack_delay :: nat
  rc_max_datagram_size :: nat
  rc_pto_linear_factor :: u64
  rc_max_pto :: nat
  rc_pto_count :: nat
  rc_loss_detection_timer :: "nat option"
  rc_pkt_thresh :: u64
  rc_bytes_in_flight :: nat
  rc_ack_eliciting_in_flight :: nat
  rc_rtt :: rtt_estimator
  rc_congestion :: 'c
  rc_pacer :: pacer
  rc_pacer_timer :: "nat option"
  rc_cache_pkt_size :: nat
  rc_last_cwnd_limited_time :: "nat option"
  rc_stats :: path_stats

definition saturating_mul :: "u64 \<Rightarrow> u64 \<Rightarrow> u64" where
  "saturating_mul a b = (if unat a * unat b < 2 ^ 64 then a * b else - 1)"

definition build_pacer :: "recovery_config \<Rightarrow> nat \<Rightarrow> pacer" where
  "build_pacer conf now =
     pacer_new (cf_enable_pacing conf) (cf_initial_rtt conf)
       (saturating_mul (cf_initial_congestion_window conf) (as_u64 (cf_max_datagram_size conf)))
       (as_u64 (cf_max_datagram_size conf)) now (cf_pacing_granularity conf)"

definition recovery_new :: "recovery_config \<Rightarrow> 'c \<Rightarrow> nat \<Rightarrow> 'c recovery" where
  "recovery_new conf cc now =
     \<lparr>rc_max_ack_delay = cf_max_ack_delay conf, rc_max_datagram_size = DEFAULT_SEND_UDP_PAYLOAD_SIZE,
      rc_pto_linear_factor = cf_pto_linear_factor conf, rc_max_pto = cf_max_pto conf, rc_pto_count = 0,
      rc_loss_detection_timer = None, rc_pkt_thresh = INITIAL_PACKET_THRESHOLD, rc_bytes_in_flight = 0,
      rc_ack_eliciting_in_flight = 0, rc_rtt = rtt_new (cf_initial_rtt conf), rc_congestion = cc,
      rc_pacer = build_pacer conf now, rc_pacer_timer = None, rc_cache_pkt_size = cf_max_datagram_size conf,
      rc_last_cwnd_limited_time = None, rc_stats = path_stats_default\<rparr>"

section \<open>Statistics\<close>

definition stat_recv_event :: "u64 \<Rightarrow> u64 \<Rightarrow> 'c recovery \<Rightarrow> 'c recovery" where
  "stat_recv_event pkts bytes r =
     r\<lparr>rc_stats := (rc_stats r)\<lparr>st_recv_count := saturating_add (st_recv_count (rc_stats r)) pkts,
                                st_recv_bytes := saturating_add (st_recv_bytes (rc_stats r)) bytes\<rparr>\<rparr>"

definition stat_acked_event :: "u64 \<Rightarrow> u64 \<Rightarrow> 'c recovery \<Rightarrow> 'c recovery" where
  "stat_acked_event pkts bytes r =
     r\<lparr>rc_stats := (rc_stats r)\<lparr>st_acked_count := saturating_add (st_acked_count (rc_stats r)) pkts,
                                st_acked_bytes := saturating_add (st_acked_bytes (rc_stats r)) bytes\<rparr>\<rparr>"

definition stat_lost_event :: "u64 \<Rightarrow> u64 \<Rightarrow> 'c recovery \<Rightarrow> 'c recovery" where
  "stat_lost_event pkts bytes r =
     r\<lparr>rc_stats := (rc_stats r)\<lparr>st_lost_count := saturating_add (st_lost_count (rc_stats r)) pkts,
                                st_lost_bytes := saturating_add (st_lost_bytes (rc_stats r)) bytes\<rparr>\<rparr>"

definition stat_cwnd_updated :: "'c recovery_ops \<Rightarrow> 'c recovery \<Rightarrow> 'c recovery" where
  "stat_cwnd_updated ops r =
     (let cwnd = cc_congestion_window ops (rc_congestion r);
          s = rc_stats r;
          s = (if st_init_cwnd s = 0 then s\<lparr>st_init_cwnd := cwnd, st_min_cwnd := cwnd, st_max_cwnd := cwnd\<rparr> else s);
          s = s\<lparr>st_final_cwnd := cwnd\<rparr>;
          s = (if st_max_cwnd s < cwnd then s\<lparr>st_max_cwnd := cwnd\<rparr> else s);
          s = (if cwnd < st_min_cwnd s then s\<lparr>st_min_cwnd := cwnd\<rparr> else s);
          inflight = as_u64 (rc_bytes_in_flight r);
          s = (if st_max_inflight s < inflight then s\<lparr>st_max_inflight := inflight\<rparr> else s)
      in r\<lparr>rc_stats := s\<rparr>)"

definition stat_sent_event :: "'c recovery_ops \<Rightarrow> u64 \<Rightarrow> u64 \<Rightarrow> 'c recovery \<Rightarrow> 'c recovery" where
  "stat_sent_event ops pkts bytes r =
     stat_cwnd_updated ops
       (r\<lparr>rc_stats := (rc_stats r)\<lparr>st_sent_count := saturating_add (st_sent_count (rc_stats r)) pkts,
                                   st_sent_bytes := saturating_add (st_sent_bytes (rc_stats r)) bytes\<rparr>\<rparr>)"

definition stat_cwnd_limited :: "'c recovery_ops \<Rightarrow> nat \<Rightarrow> 'c recovery \<Rightarrow> 'c recovery" where
  "stat_cwnd_limited ops now r =
     (let limited = (unat (cc_congestion_window ops (rc_congestion r)) \<le> rc_bytes_in_flight r);
          s = rc_stats r
      in case rc_last_cwnd_limited_time r of
           Some t0 \<Rightarrow>
             r\<lparr>rc_stats := s\<lparr>st_cwnd_limited_duration :=
                 saturating_add (st_cwnd_limited_duration s) (as_u64 ((now - t0) div 1000000))\<rparr>,
               rc_last_cwnd_limited_time := (if limited then Some now else None)\<rparr>
         | None \<Rightarrow>
             (if limited
              then r\<lparr>rc_stats := s\<lparr>st_cwnd_limited_count := saturating_add (st_cwnd_limited_count s) 1\<rparr>,
                     rc_last_cwnd_limited_time := Some now\<rparr>
              else r))"

section \<open>Timers\<close>

abbreviation handshake_space :: "space_id \<Rightarrow> bool" where
  "handshake_space sid \<equiv> sid = SInitial \<or> sid = SHandshake"

definition timer_candidates :: "space_id \<Rightarrow> space_id list" where
  "timer_candidates sid =
     (if \<not> handshake_space sid then [SInitial, SHandshake, sid] else [SInitial, SHandshake, SData])"

text \<open>The order of \<open>Option<Instant>\<close>: \<open>None\<close> comes first.\<close>

fun opt_less :: "nat option \<Rightarrow> nat option \<Rightarrow> bool" where
  "opt_less None (Some _) = True"
| "opt_less (Some a) (Some b) \<longleftrightarrow> a < b"
| "opt_less _ None = False"

fun loss_time_loop :: "space_map \<Rightarrow> space_id list \<Rightarrow> nat option \<times> space_id \<Rightarrow> nat option \<times> space_id" where
  "loss_time_loop m [] acc = acc"
| "loss_time_loop m (s # ss) (time, sid) =
     (case space_get s m of
        None \<Rightarrow> loss_time_loop m ss (time, sid)
      | Some space \<Rightarrow>
          let new_time = pn_loss_time space in
          if time = None \<or> (new_time \<noteq> None \<and> opt_less new_time time)
          then loss_time_loop m ss (new_time, s)
          else loss_time_loop m ss (time, sid))"

definition get_loss_time_and_space :: "space_id \<Rightarrow> space_map \<Rightarrow> nat option \<times> space_id" where
  "get_loss_time_and_space sid m = loss_time_loop m (timer_candidates sid) (None, SInitial)"

text \<open>\<open>2_u32.saturating_pow(backoff_factor as u32)\<close>.\<close>

definition backoff :: "'c recovery \<Rightarrow> nat" where
  "backoff r = min (2 ^ ((rc_pto_count r - as_usize (rc_pto_linear_factor r)) mod 2 ^ 32)) (2 ^ 32 - 1)"

definition calculate_pto :: "'c recovery \<Rightarrow> nat" where
  "calculate_pto r = min (pto_base (rc_rtt r) * backoff r) (rc_max_pto r)"

definition pto_with_ack_delay :: "nat \<Rightarrow> 'c recovery \<Rightarrow> nat" where
  "pto_with_ack_delay duration r = min (duration + rc_max_ack_delay r * backoff r) (rc_max_pto r)"

fun pto_loop ::
  "'c recovery \<Rightarrow> handshake_status \<Rightarrow> space_map \<Rightarrow> space_id list \<Rightarrow> nat \<Rightarrow> nat option \<times> space_id \<Rightarrow> nat option \<times> space_id" where
  "pto_loop r hs m [] duration acc = acc"
| "pto_loop r hs m (sid # sids) duration (pto_timeout, pto_space) =
     (case space_get sid m of
        None \<Rightarrow> pto_loop r hs m sids duration (pto_timeout, pto_space)
      | Some space \<Rightarrow>
          if pn_ack_eliciting_in_flight space = 0 then pto_loop r hs m sids duration (pto_timeout, pto_space)
          else if sid = SData \<and> \<not> hs_completed hs then (pto_timeout, pto_space)
          else
            let duration = (if sid = SData then pto_with_ack_delay duration r else duration);
                new_time = map_option (\<lambda>t. t + duration) (pn_time_of_last_sent_ack_eliciting_pkt space)
            in if pto_timeout = None \<or> opt_less new_time pto_timeout
               then pto_loop r hs m sids duration (new_time, sid)
               else pto_loop r hs m sids duration (pto_timeout, pto_space))"

definition get_pto_time_and_space ::
  "space_id \<Rightarrow> handshake_status \<Rightarrow> nat \<Rightarrow> 'c recovery \<Rightarrow> space_map \<Rightarrow> nat option \<times> space_id" where
  "get_pto_time_and_space sid hs now r m =
     (let duration = calculate_pto r in
      if rc_ack_eliciting_in_flight r = 0
      then (Some (now + duration), if derived_handshake_keys hs then SHandshake else SInitial)
      else pto_loop r hs m (timer_candidates sid) duration (None, SInitial))"

definition set_loss_detection_timer ::
  "space_id \<Rightarrow> handshake_status \<Rightarrow> nat \<Rightarrow> space_map \<Rightarrow> 'c recovery \<Rightarrow> 'c recovery" where
  "set_loss_detection_timer sid hs now m r =
     (let (earliest_loss_time, _) = get_loss_time_and_space sid m in
      if earliest_loss_time \<noteq> None then r\<lparr>rc_loss_detection_timer := earliest_loss_time\<rparr>
      else if rc_ack_eliciting_in_flight r = 0 \<and> peer_verified_address hs
      then r\<lparr>rc_loss_detection_timer := None\<rparr>
      else r\<lparr>rc_loss_detection_timer := fst (get_pto_time_and_space sid hs now r m)\<rparr>)"

section \<open>Sending\<close>

definition on_packet_sent ::
  "'c recovery_ops \<Rightarrow> sent_packet \<Rightarrow> space_id \<Rightarrow> handshake_status \<Rightarrow> nat \<Rightarrow>
   'c recovery \<times> space_map \<Rightarrow> 'c recovery \<times> space_map" where
  "on_packet_sent ops pkt0 sid hs now = (\<lambda>(r, m).
     let pkt = pkt0\<lparr>sp_time_sent := now\<rparr> in
     case space_get sid m of
       None \<Rightarrow> (r, m)
     | Some s \<Rightarrow>
         let (pkt, r) =
               (if sp_in_flight pkt \<and> \<not> handshake_space sid
                then let (rate, c) = cc_on_sent ops now pkt (as_u64 (rc_bytes_in_flight r)) (rc_congestion r)
                     in (pkt\<lparr>sp_rate_sample := rate\<rparr>, r\<lparr>rc_congestion := c\<rparr>)
                else (pkt, r));
             s = s\<lparr>pn_sent := pn_sent s @ [pkt]\<rparr>;
             s = s\<lparr>pn_consecutive_non_ack_eliciting_sent :=
                    (if sp_ack_eliciting pkt0 then 0 else pn_consecutive_non_ack_eliciting_sent s + 1)\<rparr>;
             (r, m) =
               (if sp_in_flight pkt0
                then
                  let (r, s) =
                        (if sp_ack_eliciting pkt0
                         then (r\<lparr>rc_ack_eliciting_in_flight := rc_ack_eliciting_in_flight r + 1\<rparr>,
                               s\<lparr>pn_time_of_last_sent_ack_eliciting_pkt := Some now,
                                 pn_loss_probes := pn_loss_probes s - 1,
                                 pn_ack_eliciting_in_flight := pn_ack_eliciting_in_flight s + 1\<rparr>)
                         else (r, s));
                      s = s\<lparr>pn_bytes_in_flight := pn_bytes_in_flight s + sp_sent_size pkt0\<rparr>;
                      r = r\<lparr>rc_bytes_in_flight := rc_bytes_in_flight r + sp_sent_size pkt0,
                            rc_cache_pkt_size := sp_sent_size pkt0\<rparr>;
                      m = space_put sid s m
                  in (set_loss_detection_timer sid hs now m r, m)
                else (r, space_put sid s m));
             r = (if sp_pacing pkt0
                  then r\<lparr>rc_pacer := pacer_on_sent (as_u64 (sp_sent_size pkt0)) (rc_pacer r)\<rparr> else r)
         in (r, m))"

section \<open>Acknowledgements\<close>

text \<open>The local variables of \<open>detect_acked_packets\<close>, with the space and the recovery state that its
  loop changes; the packets of the space are walked as a list.\<close>

record 'c acking =
  ak_rec :: "'c recovery"
  ak_space :: pkt_num_space
  ak_newly_acked :: "acked_packet list"
  ak_largest :: u64
  ak_largest_sent_time :: nat
  ak_ack_eliciting :: bool

text \<open>A packet leaves the bytes in flight.\<close>

definition deflate :: "sent_packet \<Rightarrow> 'c recovery \<times> pkt_num_space \<Rightarrow> 'c recovery \<times> pkt_num_space" where
  "deflate p = (\<lambda>(r, s).
     if sp_in_flight p
     then
       let s = s\<lparr>pn_bytes_in_flight := pn_bytes_in_flight s - sp_sent_size p\<rparr>;
           r = r\<lparr>rc_bytes_in_flight := rc_bytes_in_flight r - sp_sent_size p\<rparr>
       in if sp_ack_eliciting p
          then (r\<lparr>rc_ack_eliciting_in_flight := rc_ack_eliciting_in_flight r - 1\<rparr>,
                s\<lparr>pn_ack_eliciting_in_flight := pn_ack_eliciting_in_flight s - 1\<rparr>)
          else (r, s)
     else (r, s))"

definition ack_packet :: "'c recovery_ops \<Rightarrow> nat \<Rightarrow> sent_packet \<Rightarrow> 'c acking \<Rightarrow> sent_packet \<times> 'c acking" where
  "ack_packet ops now p k =
     (let p = p\<lparr>sp_time_acked := Some now\<rparr>;
          k = k\<lparr>ak_largest := sp_pkt_num p, ak_largest_sent_time := sp_time_sent p,
                ak_ack_eliciting := (ak_ack_eliciting k \<or> sp_ack_eliciting p)\<rparr>;
          (r, s) = deflate p (ak_rec k, ak_space k);
          (p, r) =
            (if \<not> handshake_space (pn_id s)
             then let (rate, c) = cc_on_ack ops p now False (rc_rtt r) (as_u64 (rc_bytes_in_flight r)) (rc_congestion r)
                  in (p\<lparr>sp_rate_sample := rate\<rparr>, r\<lparr>rc_congestion := c\<rparr>)
             else (p, r));
          r = stat_acked_event 1 (as_u64 (sp_sent_size p)) r;
          s = s\<lparr>pn_acked := pn_acked s @ sp_frames p\<rparr>;
          p = p\<lparr>sp_frames := []\<rparr>
      in (p, k\<lparr>ak_rec := r, ak_space := s,
               ak_newly_acked := ak_newly_acked k @
                 [\<lparr>ap_pkt_num = sp_pkt_num p, ap_time_sent = sp_time_sent p, ap_rtt = now - sp_time_sent p\<rparr>]\<rparr>))"

fun ack_loop ::
  "'c recovery_ops \<Rightarrow> nat \<Rightarrow> (u64 \<times> u64) list \<Rightarrow> sent_packet list \<Rightarrow> 'c acking \<Rightarrow> sent_packet list \<times> 'c acking" where
  "ack_loop ops now [] ps k = (ps, k)"
| "ack_loop ops now (r # rs) [] k = ([], k)"
| "ack_loop ops now (r # rs) (p # ps) k =
     (if sp_pkt_num p < fst r \<or> sp_time_acked p \<noteq> None
      then let (ps', k) = ack_loop ops now (r # rs) ps k in (p # ps', k)
      else if snd r \<le> sp_pkt_num p then ack_loop ops now rs (p # ps) k
      else
        let (p, k) = ack_packet ops now p k;
            (ps', k) = ack_loop ops now (r # rs) ps k
        in (p # ps', k))"

definition detect_acked_packets ::
  "'c recovery_ops \<Rightarrow> u64 rangeset \<Rightarrow> nat \<Rightarrow> 'c recovery \<times> pkt_num_space \<Rightarrow>
   nat option \<times> acked_packet list \<times> 'c recovery \<times> pkt_num_space" where
  "detect_acked_packets ops ranges now = (\<lambda>(r, s).
     let (ps, k) = ack_loop ops now (rs_set ranges) (pn_sent s)
           \<lparr>ak_rec = r, ak_space = s, ak_newly_acked = [], ak_largest = 0, ak_largest_sent_time = now,
            ak_ack_eliciting = False\<rparr>;
         s = (ak_space k)\<lparr>pn_sent := ps\<rparr>
     in (if ak_largest k = pn_largest_acked_pkt s \<and> ak_ack_eliciting k
         then Some (now - ak_largest_sent_time k) else None,
         ak_newly_acked k, ak_rec k, s))"

section \<open>Losses\<close>

record 'c losing =
  lo_rec :: "'c recovery"
  lo_space :: pkt_num_space
  lo_lost_packets :: u64
  lo_lost_bytes :: u64
  lo_latest :: "sent_packet option"

definition lose_packet :: "nat \<Rightarrow> sent_packet \<Rightarrow> 'c losing \<Rightarrow> sent_packet \<times> 'c losing" where
  "lose_packet now p l =
     (let s = lo_space l;
          s = s\<lparr>pn_lost := pn_lost s @ sp_frames p\<rparr>;
          p = p\<lparr>sp_frames := [], sp_time_lost := Some now\<rparr>;
          (r, s) = deflate p (lo_rec l, s)
      in (p, l\<lparr>lo_rec := r, lo_space := s, lo_lost_packets := lo_lost_packets l + 1,
               lo_lost_bytes := (if sp_in_flight p then lo_lost_bytes l + as_u64 (sp_sent_size p)
                                 else lo_lost_bytes l),
               lo_latest := (if \<not> sp_pmtu_probe p then Some p else lo_latest l)\<rparr>))"

definition is_lost :: "nat \<Rightarrow> nat \<Rightarrow> u64 \<Rightarrow> u64 \<Rightarrow> sent_packet \<Rightarrow> bool" where
  "is_lost now loss_delay pkt_thresh largest_acked p \<longleftrightarrow>
     sp_time_sent p + loss_delay \<le> now \<or> sp_pkt_num p + pkt_thresh \<le> largest_acked"

fun lost_loop :: "nat \<Rightarrow> nat \<Rightarrow> sent_packet list \<Rightarrow> 'c losing \<Rightarrow> sent_packet list \<times> 'c losing" where
  "lost_loop now loss_delay [] l = ([], l)"
| "lost_loop now loss_delay (p # ps) l =
     (if pn_largest_acked_pkt (lo_space l) < sp_pkt_num p then (p # ps, l)
      else if sp_time_acked p \<noteq> None \<or> sp_time_lost p \<noteq> None
      then let (ps', l) = lost_loop now loss_delay ps l in (p # ps', l)
      else if is_lost now loss_delay (rc_pkt_thresh (lo_rec l)) (pn_largest_acked_pkt (lo_space l)) p
      then
        let (p, l) = lose_packet now p l;
            (ps', l) = lost_loop now loss_delay ps l
        in (p # ps', l)
      else
        let t = sp_time_sent p + loss_delay;
            s = lo_space l;
            s = s\<lparr>pn_loss_time := Some (case pn_loss_time s of None \<Rightarrow> t | Some t' \<Rightarrow> min t' t)\<rparr>;
            (ps', l) = lost_loop now loss_delay ps (l\<lparr>lo_space := s\<rparr>)
        in (p # ps', l))"

definition loss_delay :: "'c recovery_ops \<Rightarrow> 'c recovery \<Rightarrow> nat" where
  "loss_delay ops r =
     max (mul_time_thresh ops (max (latest_rtt (rc_rtt r)) (smoothed_rtt (rc_rtt r)))) TIMER_GRANULARITY"

text \<open>\<open>in_persistent_congestion\<close> is a stub in the source that returns false.\<close>

definition in_persistent_congestion :: "'c recovery \<Rightarrow> bool" where
  "in_persistent_congestion r = False"

definition detect_lost_packets ::
  "'c recovery_ops \<Rightarrow> nat \<Rightarrow> 'c recovery \<times> pkt_num_space \<Rightarrow> (u64 \<times> u64) \<times> 'c recovery \<times> pkt_num_space" where
  "detect_lost_packets ops now = (\<lambda>(r, s).
     let s = s\<lparr>pn_loss_time := None\<rparr>;
         (ps, l) = lost_loop now (loss_delay ops r) (pn_sent s)
           \<lparr>lo_rec = r, lo_space = s, lo_lost_packets = 0, lo_lost_bytes = 0, lo_latest = None\<rparr>;
         s = (lo_space l)\<lparr>pn_sent := ps\<rparr>;
         r = lo_rec l;
         r = (case lo_latest l of
                Some p \<Rightarrow>
                  (if \<not> handshake_space (pn_id s)
                   then r\<lparr>rc_congestion := cc_on_congestion_event ops now p (in_persistent_congestion r)
                          (lo_lost_bytes l) (as_u64 (rc_bytes_in_flight r)) (rc_congestion r)\<rparr>
                   else r)
              | None \<Rightarrow> r);
         r = stat_lost_event (lo_lost_packets l) (lo_lost_bytes l) r
     in ((lo_lost_packets l, lo_lost_bytes l), r, s))"

text \<open>The first packet that has to stay: neither acknowledged nor lost, or lost less than an RTT ago.\<close>

definition must_stay :: "nat \<Rightarrow> nat \<Rightarrow> sent_packet \<Rightarrow> bool" where
  "must_stay now rtt p \<longleftrightarrow>
     (sp_time_acked p = None \<and> sp_time_lost p = None) \<or>
     (case sp_time_lost p of Some t \<Rightarrow> now < t + rtt | None \<Rightarrow> False)"

definition drain_sent_packets :: "nat \<Rightarrow> nat \<Rightarrow> pkt_num_space \<Rightarrow> pkt_num_space" where
  "drain_sent_packets now rtt s = s\<lparr>pn_sent := dropWhile (\<lambda>p. \<not> must_stay now rtt p) (pn_sent s)\<rparr>"

section \<open>Events\<close>

definition on_ack_received ::
  "'c recovery_ops \<Rightarrow> u64 rangeset \<Rightarrow> u64 \<Rightarrow> space_id \<Rightarrow> handshake_status \<Rightarrow> nat \<Rightarrow>
   'c recovery \<times> space_map \<Rightarrow> (u64 \<times> u64) res \<times> 'c recovery \<times> space_map" where
  "on_ack_received ops ranges ack_delay sid hs now = (\<lambda>(r, m).
     case space_get sid m of
       None \<Rightarrow> (Err InternalError, r, m)
     | Some s \<Rightarrow>
         case rs_max ranges of
           None \<Rightarrow> (Panic, r, m)
         | Some largest \<Rightarrow>
             let s = s\<lparr>pn_largest_acked_pkt :=
                        (if pn_largest_acked_pkt s = - 1 then largest else max (pn_largest_acked_pkt s) largest)\<rparr>;
                 r = (if \<not> handshake_space sid
                      then r\<lparr>rc_congestion := cc_begin_ack ops now (as_u64 (rc_bytes_in_flight r)) (rc_congestion r)\<rparr>
                      else r);
                 (rtt_sample, newly_acked, r, s) = detect_acked_packets ops ranges now (r, s) in
             if newly_acked = [] then (Ok (0, 0), r, space_put sid s m)
             else
               let r = (case rtt_sample of
                          Some rtt \<Rightarrow>
                            (if rtt \<noteq> 0 then r\<lparr>rc_rtt := rtt_update (unat ack_delay * 1000) rtt (rc_rtt r)\<rparr> else r)
                        | None \<Rightarrow> r);
                   (lost, r, s) = detect_lost_packets ops now (r, s);
                   s = drain_sent_packets now (smoothed_rtt (rc_rtt r)) s;
                   r = (if \<not> handshake_space sid
                        then r\<lparr>rc_congestion := cc_end_ack ops (rc_congestion r)\<rparr> else r);
                   r = r\<lparr>rc_pto_count := 0\<rparr>;
                   m = space_put sid s m;
                   r = set_loss_detection_timer sid hs now m r
               in (Ok lost, r, m))"

definition on_loss_detection_timeout ::
  "'c recovery_ops \<Rightarrow> space_id \<Rightarrow> handshake_status \<Rightarrow> nat \<Rightarrow>
   'c recovery \<times> space_map \<Rightarrow> (u64 \<times> u64) \<times> 'c recovery \<times> space_map" where
  "on_loss_detection_timeout ops space_id hs now = (\<lambda>(r, m).
     let (earliest_loss_time, sid) = get_loss_time_and_space space_id m in
     case space_get sid m of
       None \<Rightarrow> ((0, 0), r, m)
     | Some s \<Rightarrow>
         if earliest_loss_time \<noteq> None
         then
           let (lost, r, s) = detect_lost_packets ops now (r, s);
               s = drain_sent_packets now (smoothed_rtt (rc_rtt r)) s;
               m = space_put sid s m
           in (lost, set_loss_detection_timer space_id hs now m r, m)
         else
           let sid = (if 0 < rc_ack_eliciting_in_flight r
                      then snd (get_pto_time_and_space space_id hs now r m)
                      else if derived_handshake_keys hs then SHandshake else SInitial) in
           case space_get sid m of
             None \<Rightarrow> ((0, 0), r, m)
           | Some s \<Rightarrow>
               let r = r\<lparr>rc_pto_count := rc_pto_count r + 1\<rparr>;
                   s = s\<lparr>pn_loss_probes :=
                          (if handshake_space sid then 1 else min (rc_pto_count r) MAX_PTO_PROBES_COUNT)\<rparr>;
                   unacked = take (pn_loss_probes s)
                     (filter (\<lambda>p. sp_has_data p \<and> sp_time_acked p = None \<and> sp_time_lost p = None) (pn_sent s));
                   s = s\<lparr>pn_lost := pn_lost s @ concat (map sp_frames unacked)\<rparr>;
                   m = space_put sid s m
               in ((0, 0), set_loss_detection_timer space_id hs now m r, m))"

definition remove_from_bytes_in_flight :: "pkt_num_space \<Rightarrow> 'c recovery \<Rightarrow> 'c recovery" where
  "remove_from_bytes_in_flight s r =
     fold (\<lambda>p r.
       if \<not> sp_in_flight p \<or> sp_time_acked p \<noteq> None \<or> sp_time_lost p \<noteq> None then r
       else
         let r = r\<lparr>rc_bytes_in_flight := rc_bytes_in_flight r - sp_sent_size p\<rparr>
         in if sp_ack_eliciting p
            then r\<lparr>rc_ack_eliciting_in_flight := rc_ack_eliciting_in_flight r - 1\<rparr> else r)
       (pn_sent s) r"

definition on_pkt_num_space_discarded ::
  "space_id \<Rightarrow> handshake_status \<Rightarrow> nat \<Rightarrow> 'c recovery \<times> space_map \<Rightarrow> 'c recovery \<times> space_map" where
  "on_pkt_num_space_discarded sid hs now = (\<lambda>(r, m).
     case space_get sid m of
       None \<Rightarrow> (r, m)
     | Some s \<Rightarrow>
         let r = remove_from_bytes_in_flight s r;
             s = s\<lparr>pn_sent := [], pn_lost := [], pn_acked := [],
                   pn_time_of_last_sent_ack_eliciting_pkt := None, pn_loss_time := None,
                   pn_loss_probes := 0, pn_bytes_in_flight := 0, pn_ack_eliciting_in_flight := 0\<rparr>;
             m = space_put sid s m
         in (set_loss_detection_timer sid hs now m r, m))"

definition update_max_datagram_size :: "nat \<Rightarrow> bool \<Rightarrow> 'c recovery \<Rightarrow> 'c recovery" where
  "update_max_datagram_size sz is_upper r =
     r\<lparr>rc_max_datagram_size := (if is_upper then min (rc_max_datagram_size r) sz else sz)\<rparr>"

definition can_pacing :: "'c recovery_ops \<Rightarrow> nat \<Rightarrow> 'c recovery \<Rightarrow> bool \<times> 'c recovery" where
  "can_pacing ops now r =
     (let r = (case cc_pacing_rate ops (rc_congestion r) of
                 Some pr \<Rightarrow>
                   (let (t, p) = pacer_schedule (as_u64 (rc_cache_pkt_size r)) pr (smoothed_rtt (rc_rtt r))
                          (cc_congestion_window ops (rc_congestion r)) (as_u64 (rc_max_datagram_size r)) now (rc_pacer r)
                    in r\<lparr>rc_pacer_timer := t, rc_pacer := p\<rparr>)
               | None \<Rightarrow> r)
      in (rc_pacer_timer r = None, r))"

definition can_send :: "'c recovery_ops \<Rightarrow> nat \<Rightarrow> 'c recovery \<Rightarrow> bool \<times> 'c recovery" where
  "can_send ops now r =
     (if as_usize (cc_congestion_window ops (rc_congestion r)) \<le> rc_bytes_in_flight r then (False, r)
      else if pc_enabled (rc_pacer r) then can_pacing ops now r
      else (True, r))"

end
