(* ===== verification/Recovery_Sweep.thy ===== *)
theory Recovery_Sweep
  imports Recovery
begin

text \<open>What an ACK frame and a loss detection pass do to the packets of a space: which packets they settle,
  where the frames of those go, and what is left for the timer.\<close>

section \<open>Samples\<close>

text \<open>A controller with a window that never changes, and packets of 1200 bytes.\<close>

definition fixed_window :: "unit recovery_ops" where
  "fixed_window =
     \<lparr>cc_on_sent = (\<lambda>_ p _ c. (sp_rate_sample p, c)), cc_begin_ack = (\<lambda>_ _ c. c),
      cc_on_ack = (\<lambda>p _ _ _ _ c. (sp_rate_sample p, c)), cc_end_ack = (\<lambda>c. c),
      cc_on_congestion_event = (\<lambda>_ _ _ _ _ c. c), cc_congestion_window = (\<lambda>_. 12000),
      cc_pacing_rate = (\<lambda>_. None), mul_time_thresh = (\<lambda>t. t * 9 div 8)\<rparr>"

definition sample_config :: recovery_config where
  "sample_config =
     \<lparr>cf_max_ack_delay = 25000000, cf_pto_linear_factor = 0, cf_max_pto = 60000000000,
      cf_initial_rtt = 333000000, cf_max_datagram_size = 1200, cf_initial_congestion_window = 10,
      cf_enable_pacing = False, cf_pacing_granularity = 1000000\<rparr>"

definition handshake_done :: handshake_status where
  "handshake_done = \<lparr>derived_handshake_keys = True, peer_verified_address = True, hs_completed = True\<rparr>"

definition sample_packet :: "u64 \<Rightarrow> sent_packet" where
  "sample_packet n = (sent_packet_default 0)\<lparr>sp_pkt_num := n, sp_ack_eliciting := True, sp_in_flight := True,
     sp_has_data := True, sp_sent_size := 1200\<rparr>"

definition sample_space :: "sent_packet list \<Rightarrow> pkt_num_space" where
  "sample_space ps = (space_new SData 0)\<lparr>pn_sent := ps\<rparr>"

lemmas sample_defs = sample_packet_def sample_space_def sent_packet_default_def space_new_def

section \<open>Acknowledgements\<close>

definition view :: "sent_packet \<Rightarrow> u64 \<times> nat option \<times> nat option \<times> frame list" where
  "view p = (sp_pkt_num p, sp_time_acked p, sp_time_lost p, sp_frames p)"

definition hit :: "(u64 \<times> u64) list \<Rightarrow> sent_packet \<Rightarrow> bool" where
  "hit rs p \<longleftrightarrow> sp_time_acked p = None \<and> (\<exists>r \<in> set rs. fst r \<le> sp_pkt_num p \<and> sp_pkt_num p < snd r)"

text \<open>Ranges and packets in ascending order.\<close>

definition ascending :: "(u64 \<times> u64) list \<Rightarrow> bool" where
  "ascending rs \<longleftrightarrow> sorted_wrt (\<lambda>a b. snd a \<le> fst b) rs \<and> (\<forall>r \<in> set rs. fst r \<le> snd r)"

definition in_order :: "sent_packet list \<Rightarrow> bool" where
  "in_order ps \<longleftrightarrow> sorted_wrt (\<lambda>p q. sp_pkt_num p < sp_pkt_num q) ps"

lemma ack_packet_view:
  assumes "ack_packet ops now p k = (p', k')"
  shows "view p' = (sp_pkt_num p, Some now, sp_time_lost p, [])"
    and "pn_acked (ak_space k') = pn_acked (ak_space k) @ sp_frames p"
    and "map ap_pkt_num (ak_newly_acked k') = map ap_pkt_num (ak_newly_acked k) @ [sp_pkt_num p]"
  using assms by (auto simp: ack_packet_def view_def Let_def split_def deflate_def split: if_splits)

definition swept :: "nat \<Rightarrow> (u64 \<times> u64) list \<Rightarrow> sent_packet list \<Rightarrow> 'c acking \<Rightarrow> sent_packet list \<Rightarrow> 'c acking \<Rightarrow> bool" where
  "swept now rs ps k ps' k' \<longleftrightarrow>
     map view ps' = map (\<lambda>p. if hit rs p then (sp_pkt_num p, Some now, sp_time_lost p, []) else view p) ps \<and>
     pn_acked (ak_space k') = pn_acked (ak_space k) @ concat (map sp_frames (filter (hit rs) ps)) \<and>
     map ap_pkt_num (ak_newly_acked k') = map ap_pkt_num (ak_newly_acked k) @ map sp_pkt_num (filter (hit rs) ps)"

text \<open>The reference: every packet is looked at on its own.\<close>

fun ack_each ::
  "'c recovery_ops \<Rightarrow> nat \<Rightarrow> (sent_packet \<Rightarrow> bool) \<Rightarrow> sent_packet list \<Rightarrow> 'c acking \<Rightarrow> sent_packet list \<times> 'c acking" where
  "ack_each ops now P [] k = ([], k)"
| "ack_each ops now P (p # ps) k =
     (let (p, k) = (if P p then ack_packet ops now p k else (p, k));
          (ps, k) = ack_each ops now P ps k
      in (p # ps, k))"

lemma ack_each_cong:
  "(\<And>p. p \<in> set ps \<Longrightarrow> P p = Q p) \<Longrightarrow> ack_each ops now P ps k = ack_each ops now Q ps k"
  by (induction ps arbitrary: k) (simp_all add: Let_def split_def)

lemma ack_each_none: "(\<And>p. p \<in> set ps \<Longrightarrow> \<not> P p) \<Longrightarrow> ack_each ops now P ps k = (ps, k)"
  by (induction ps arbitrary: k) simp_all

lemma hit_skip_range:
  "snd r \<le> sp_pkt_num p \<Longrightarrow> hit (r # rs) p = hit rs p"
  by (auto simp: hit_def)

text \<open>The sweep with two cursors is the reference.\<close>

lemma ack_loop_each:
  "ascending rs \<Longrightarrow> in_order ps \<Longrightarrow> ack_loop ops now rs ps k = ack_each ops now (hit rs) ps k"
proof (induction ops now rs ps k rule: ack_loop.induct)
  case (1 ops now ps k)
  then show ?case by (simp add: ack_each_none hit_def)
next
  case (2 ops now r rs k)
  then show ?case by simp
next
  case (3 ops now r rs p ps k)
  have ord: "in_order ps" and above: "\<forall>q \<in> set ps. sp_pkt_num p < sp_pkt_num q"
    using "3.prems"(2) by (auto simp: in_order_def)
  show ?case
  proof (cases "sp_pkt_num p < fst r \<or> sp_time_acked p \<noteq> None")
    case True
    have "\<not> hit (r # rs) p" using True "3.prems"(1) by (fastforce simp: hit_def ascending_def)
    with "3.IH"(1) [OF True "3.prems"(1) ord] True show ?thesis by auto
  next
    case skip: False
    show ?thesis
    proof (cases "snd r \<le> sp_pkt_num p")
      case True
      have "hit (r # rs) q = hit rs q" if "q \<in> set (p # ps)" for q
        using that True above by (intro hit_skip_range) (auto intro: order_trans less_imp_le)
      then have "ack_each ops now (hit (r # rs)) (p # ps) k = ack_each ops now (hit rs) (p # ps) k"
        by (rule ack_each_cong)
      moreover have "ascending rs" using "3.prems"(1) by (simp add: ascending_def)
      ultimately show ?thesis using "3.IH"(2) [OF skip True _ "3.prems"(2)] skip True by simp
    next
      case False
      obtain p' k1 where a: "ack_packet ops now p k = (p', k1)" by fastforce
      have "hit (r # rs) p" using skip False by (auto simp: hit_def)
      with "3.IH"(3) [OF skip False a [symmetric] refl "3.prems"(1) ord] skip False a show ?thesis by simp
    qed
  qed
qed

lemma ack_each_swept: "ack_each ops now (hit rs) ps k = (ps', k') \<Longrightarrow> swept now rs ps k ps' k'"
proof (induction ps arbitrary: k ps' k')
  case Nil
  then show ?case by (simp add: swept_def)
next
  case (Cons p ps)
  obtain p1 k1 where a: "(if hit rs p then ack_packet ops now p k else (p, k)) = (p1, k1)" by fastforce
  obtain qs where q: "ack_each ops now (hit rs) ps k1 = (qs, k')" "ps' = p1 # qs"
    using Cons.prems a by (auto split: prod.splits)
  from Cons.IH [OF q(1)] q(2) a ack_packet_view [of ops now p k p1 k1] show ?case
    by (auto simp: swept_def split: if_splits)
qed

lemma ack_loop_swept:
  "ack_loop ops now rs ps k = (ps', k') \<Longrightarrow> ascending rs \<Longrightarrow> in_order ps \<Longrightarrow> swept now rs ps k ps' k'"
  by (simp add: ack_loop_each ack_each_swept)

text \<open>C9: One pass over the sent packets acknowledges exactly those that the ranges of the ACK frame
  cover and that were not acknowledged before: they get the time of the acknowledgement, their frames
  move to the acknowledged frames of the space in the order of the packets, and they are reported as
  newly acknowledged; every other packet keeps its number, times and frames.\<close>

theorem ack_sweep_exact:
  assumes "detect_acked_packets ops ranges now (r, s) = (sample, acked, r', s')"
    and "ascending (rs_set ranges)" and "in_order (pn_sent s)"
  shows "map view (pn_sent s') =
      map (\<lambda>p. if hit (rs_set ranges) p then (sp_pkt_num p, Some now, sp_time_lost p, []) else view p) (pn_sent s)
    \<and> pn_acked s' = pn_acked s @ concat (map sp_frames (filter (hit (rs_set ranges)) (pn_sent s)))
    \<and> map ap_pkt_num acked = map sp_pkt_num (filter (hit (rs_set ranges)) (pn_sent s))"
proof -
  let ?k = "\<lparr>ak_rec = r, ak_space = s, ak_newly_acked = [], ak_largest = 0, ak_largest_sent_time = now, ak_ack_eliciting = False\<rparr>"
  obtain ps k where k: "ack_loop ops now (rs_set ranges) (pn_sent s) ?k = (ps, k)" by fastforce
  from ack_loop_swept [OF k assms(2,3)] k assms(1) show ?thesis
    by (auto simp: swept_def detect_acked_packets_def Let_def)
qed

theorem ack_sweep_exact_witness:
  "map ap_pkt_num (fst (snd (detect_acked_packets fixed_window \<lparr>rs_set = [(1, 2), (3, 5)], rs_cap = 68\<rparr> 7
     (recovery_new sample_config () 0, sample_space [sample_packet 0, sample_packet 1, sample_packet 3])))) = [1, 3]"
proof -
  let ?R = "\<lparr>rs_set = [(1, 2), (3, 5)], rs_cap = 68\<rparr> :: u64 rangeset"
  let ?s = "sample_space [sample_packet 0, sample_packet 1, sample_packet 3]"
  obtain smp acked r' s' where e: "detect_acked_packets fixed_window ?R 7 (recovery_new sample_config () 0, ?s) = (smp, acked, r', s')"
    by (rule prod_cases4)
  have "ascending (rs_set ?R)" by (simp add: ascending_def)
  moreover have "in_order (pn_sent ?s)" by (simp add: in_order_def sample_defs)
  ultimately show ?thesis using ack_sweep_exact [OF e] e by (simp add: hit_def sample_defs)
qed

section \<open>Losses\<close>

definition pending :: "u64 \<Rightarrow> sent_packet \<Rightarrow> bool" where
  "pending largest p \<longleftrightarrow> sp_pkt_num p \<le> largest \<and> sp_time_acked p = None \<and> sp_time_lost p = None"

definition doomed :: "nat \<Rightarrow> nat \<Rightarrow> u64 \<Rightarrow> u64 \<Rightarrow> sent_packet \<Rightarrow> bool" where
  "doomed now d thresh largest p \<longleftrightarrow> pending largest p \<and> is_lost now d thresh largest p"

text \<open>The earliest time at which a packet that survives will be late.\<close>

definition lost_pass ::
  "nat \<Rightarrow> nat \<Rightarrow> u64 \<Rightarrow> u64 \<Rightarrow> sent_packet list \<Rightarrow> 'c losing \<Rightarrow> sent_packet list \<Rightarrow> 'c losing \<Rightarrow> bool" where
  "lost_pass now d T L ps l ps' l' \<longleftrightarrow>
     map view ps' = map (\<lambda>p. if doomed now d T L p then (sp_pkt_num p, None, Some now, []) else view p) ps \<and>
     pn_lost (lo_space l') = pn_lost (lo_space l) @ concat (map sp_frames (filter (doomed now d T L) ps)) \<and>
     lo_lost_packets l' = lo_lost_packets l + of_nat (length (filter (doomed now d T L) ps)) \<and>
     lo_lost_bytes l' = lo_lost_bytes l +
       (\<Sum>p \<leftarrow> filter (doomed now d T L) ps. if sp_in_flight p then as_u64 (sp_sent_size p) else 0) \<and>
     pn_loss_time (lo_space l') =
       fold (\<lambda>p t. Some (case t of None \<Rightarrow> sp_time_sent p + d | Some t' \<Rightarrow> min t' (sp_time_sent p + d)))
         (filter (\<lambda>p. pending L p \<and> \<not> is_lost now d T L p) ps) (pn_loss_time (lo_space l))"

lemma lose_packet_view:
  assumes "lose_packet now p l = (p', l')"
  shows "view p' = (sp_pkt_num p, sp_time_acked p, Some now, [])"
    and "pn_lost (lo_space l') = pn_lost (lo_space l) @ sp_frames p"
    and "lo_lost_packets l' = lo_lost_packets l + 1"
    and "lo_lost_bytes l' = lo_lost_bytes l + (if sp_in_flight p then as_u64 (sp_sent_size p) else 0)"
    and "pn_loss_time (lo_space l') = pn_loss_time (lo_space l)"
    and "pn_largest_acked_pkt (lo_space l') = pn_largest_acked_pkt (lo_space l)"
    and "rc_pkt_thresh (lo_rec l') = rc_pkt_thresh (lo_rec l)"
  using assms by (auto simp: lose_packet_def view_def Let_def split_def deflate_def split: if_splits)

lemma lost_loop_pass:
  "lost_loop now d ps l = (ps', l') \<Longrightarrow> in_order ps \<Longrightarrow> T = rc_pkt_thresh (lo_rec l) \<Longrightarrow>
   L = pn_largest_acked_pkt (lo_space l) \<Longrightarrow> lost_pass now d T L ps l ps' l'"
proof (induction now d ps l arbitrary: ps' l' rule: lost_loop.induct)
  case (1 now d l)
  then show ?case by (simp add: lost_pass_def)
next
  case (2 now d p ps l)
  have ord: "in_order ps" and above: "\<forall>q \<in> set ps. sp_pkt_num p < sp_pkt_num q"
    using "2.prems"(2) by (auto simp: in_order_def)
  show ?case
  proof (cases "pn_largest_acked_pkt (lo_space l) < sp_pkt_num p")
    case True
    then have "\<not> pending L q" if "q \<in> set (p # ps)" for q
      using that above "2.prems"(4) by (auto simp: pending_def)
    then have "filter (doomed now d T L) (p # ps) = []"
      "filter (\<lambda>p. pending L p \<and> \<not> is_lost now d T L p) (p # ps) = []"
      "\<forall>q \<in> set (p # ps). \<not> doomed now d T L q" by (auto simp: filter_empty_conv doomed_def)
    moreover have "ps' = p # ps" "l' = l" using True "2.prems"(1) by simp_all
    ultimately show ?thesis unfolding lost_pass_def by (simp only: list.map concat.simps list.size of_nat_0 fold.simps id_apply sum_list.Nil) auto
  next
    case low: False
    show ?thesis
    proof (cases "sp_time_acked p \<noteq> None \<or> sp_time_lost p \<noteq> None")
      case True
      with low "2.prems"(1) obtain qs where q: "lost_loop now d ps l = (qs, l')" "ps' = p # qs"
        by (auto split: prod.splits)
      have "\<not> pending L p" using True by (auto simp: pending_def)
      with "2.IH"(1) [OF low True q(1) ord "2.prems"(3,4)] q(2) show ?thesis by (simp add: lost_pass_def doomed_def)
    next
      case un: False
      have pend: "pending L p" using un low "2.prems"(4) by (simp add: pending_def)
      show ?thesis
      proof (cases "is_lost now d (rc_pkt_thresh (lo_rec l)) (pn_largest_acked_pkt (lo_space l)) p")
        case True
        obtain p' l1 where a: "lose_packet now p l = (p', l1)" by fastforce
        obtain qs where q: "lost_loop now d ps l1 = (qs, l')" "ps' = p' # qs"
          using "2.prems"(1) low un True a by (auto split: prod.splits)
        note v = lose_packet_view [OF a]
        have "doomed now d T L p" using pend True "2.prems"(3,4) by (simp add: doomed_def)
        with "2.IH"(2) [OF low un True a [symmetric] refl q(1) ord] "2.prems"(3,4) q(2) v un show ?thesis
          by (simp add: lost_pass_def doomed_def)
      next
        case False
        let ?t = "sp_time_sent p + d"
        let ?s = "(lo_space l)\<lparr>pn_loss_time := Some (case pn_loss_time (lo_space l) of None \<Rightarrow> ?t | Some t' \<Rightarrow> min t' ?t)\<rparr>"
        obtain qs where q: "lost_loop now d ps (l\<lparr>lo_space := ?s\<rparr>) = (qs, l')" "ps' = p # qs"
          using "2.prems"(1) low un False by (auto simp: Let_def split: prod.splits)
        have "\<not> is_lost now d T L p" using False "2.prems"(3,4) by simp
        with "2.IH"(3) [OF low un False refl refl refl q(1) ord] "2.prems"(3,4) q(2) pend show ?thesis
          by (simp add: lost_pass_def doomed_def)
      qed
    qed
  qed
qed

lemma fold_earliest:
  "fold (\<lambda>p t. Some (case t of None \<Rightarrow> sp_time_sent p + d | Some t' \<Rightarrow> min t' (sp_time_sent p + d))) ps (Some t0)
     = Some (Min (insert t0 ((\<lambda>p. sp_time_sent p + d) ` set ps)))"
  "fold (\<lambda>p t. Some (case t of None \<Rightarrow> sp_time_sent p + d | Some t' \<Rightarrow> min t' (sp_time_sent p + d))) ps None
     = (if ps = [] then None else Some (Min ((\<lambda>p. sp_time_sent p + d) ` set ps)))"
proof -
  show *: "fold (\<lambda>p t. Some (case t of None \<Rightarrow> sp_time_sent p + d | Some t' \<Rightarrow> min t' (sp_time_sent p + d))) ps (Some t0)
     = Some (Min (insert t0 ((\<lambda>p. sp_time_sent p + d) ` set ps)))" for ps t0
  proof (induction ps arbitrary: t0)
    case (Cons p ps)
    show ?case by (cases "ps = []") (simp_all add: Cons.IH min.assoc)
  qed simp
  show "fold (\<lambda>p t. Some (case t of None \<Rightarrow> sp_time_sent p + d | Some t' \<Rightarrow> min t' (sp_time_sent p + d))) ps None
     = (if ps = [] then None else Some (Min ((\<lambda>p. sp_time_sent p + d) ` set ps)))"
    by (cases ps) (simp_all add: *)
qed

text \<open>C8: What a loss detection pass does, exactly. Declared lost are the packets that are neither acknowledged nor
  lost, are not newer than the largest acknowledged one, and are either at least the packet threshold (three)
  older than that one or were sent at least a loss delay ago. This differs from the comment on the loop and
  from RFC 9002, which ask for the packet to be in flight too: the code does not test that, so packets that
  carry nothing but an ACK are declared lost and reported like the others (a finding of its own); they only do
  not count in the lost bytes, which are the sizes of the lost packets that were in flight, modulo 2 to the 64.
  The frames of the lost packets move to the lost frames of the space in the order of the packets, and every
  other packet keeps its number, times and frames. The loss time of the space is the earliest time at which
  one of the remaining packets would be that old, which is in the future, and there is none when no such
  packet remains.\<close>

theorem losses_exact:
  fixes r :: "'c recovery"
  assumes "detect_lost_packets ops now (r, s) = ((n, bytes), r', s')" and "in_order (pn_sent s)"
    and "L = pn_largest_acked_pkt s" and "d = loss_delay ops r"
    and "lost = (\<lambda>p. pending L p \<and> (sp_time_sent p + d \<le> now \<or> sp_pkt_num p + rc_pkt_thresh r \<le> L))"
    and "left = filter (\<lambda>p. pending L p \<and> \<not> lost p) (pn_sent s)"
  shows "map view (pn_sent s') = map (\<lambda>p. if lost p then (sp_pkt_num p, None, Some now, []) else view p) (pn_sent s)
    \<and> pn_lost s' = pn_lost s @ concat (map sp_frames (filter lost (pn_sent s)))
    \<and> n = of_nat (length (filter lost (pn_sent s)))
    \<and> bytes = (\<Sum>p \<leftarrow> filter (\<lambda>p. lost p \<and> sp_in_flight p) (pn_sent s). as_u64 (sp_sent_size p))
    \<and> pn_loss_time s' = (if left = [] then None else Some (Min ((\<lambda>p. sp_time_sent p + d) ` set left)))
    \<and> (\<forall>t. pn_loss_time s' = Some t \<longrightarrow> now < t)"
proof -
  let ?l = "\<lparr>lo_rec = r, lo_space = s\<lparr>pn_loss_time := None\<rparr>, lo_lost_packets = 0, lo_lost_bytes = 0, lo_latest = None\<rparr>"
  obtain ps l where l: "lost_loop now d (pn_sent s) ?l = (ps, l)" by fastforce
  have lost: "doomed now d (rc_pkt_thresh r) L = lost" by (simp add: doomed_def is_lost_def assms(5) fun_eq_iff)
  have left: "filter (\<lambda>p. pending L p \<and> \<not> is_lost now d (rc_pkt_thresh r) L p) (pn_sent s) = left"
    unfolding assms(6) by (rule filter_cong) (auto simp: is_lost_def assms(5))
  have s': "s' = (lo_space l)\<lparr>pn_sent := ps\<rparr>" "n = lo_lost_packets l" "bytes = lo_lost_bytes l"
    using assms(1) l by (auto simp: detect_lost_packets_def Let_def assms(4))
  have pass: "lost_pass now d (rc_pkt_thresh r) L (pn_sent s) ?l ps l"
    by (rule lost_loop_pass [OF l assms(2)]) (simp_all add: assms(3))
  then have time: "pn_loss_time s' = (if left = [] then None else Some (Min ((\<lambda>p. sp_time_sent p + d) ` set left)))"
    by (simp add: lost_pass_def left fold_earliest s')
  moreover have "now < sp_time_sent p + d" if "p \<in> set left" for p
    using that by (auto simp: assms(5,6))
  then have "now < t" if "pn_loss_time s' = Some t" for t
    using that time by (auto split: if_splits)
  moreover have "(\<Sum>p \<leftarrow> filter lost ps. if sp_in_flight p then as_u64 (sp_sent_size p) else 0) =
      (\<Sum>p \<leftarrow> filter (\<lambda>p. lost p \<and> sp_in_flight p) ps. as_u64 (sp_sent_size p))" for ps
    by (induction ps) auto
  ultimately show ?thesis using pass by (simp add: lost_pass_def lost s')
qed

theorem losses_exact_witness:
  "fst (fst (detect_lost_packets fixed_window 1000000 (recovery_new sample_config () 0,
     (sample_space [sample_packet 0, sample_packet 1, sample_packet 5])\<lparr>pn_largest_acked_pkt := 3\<rparr>))) = 1"
proof -
  let ?s = "(sample_space [sample_packet 0, sample_packet 1, sample_packet 5])\<lparr>pn_largest_acked_pkt := 3\<rparr>"
  let ?r = "recovery_new sample_config () 0"
  obtain n b r' s' where e: "detect_lost_packets fixed_window 1000000 (?r, ?s) = ((n, b), r', s')"
    by (metis surj_pair)
  have o: "in_order (pn_sent ?s)" by (simp add: in_order_def sample_defs)
  have d: "loss_delay fixed_window ?r = 374625000"
    by (simp add: loss_delay_def fixed_window_def recovery_new_def sample_config_def rtt_new_def smoothed_rtt_def TIMER_GRANULARITY_def)
  have t: "rc_pkt_thresh ?r = 3" by (simp add: recovery_new_def INITIAL_PACKET_THRESHOLD_def)
  from losses_exact [OF e o refl refl refl refl] have
    "n = of_nat (length (filter (\<lambda>p. pending 3 p \<and> (sp_time_sent p + 374625000 \<le> 1000000 \<or> sp_pkt_num p + 3 \<le> 3)) (pn_sent ?s)))"
    by (simp add: d t)
  also have "\<dots> = 1" by (simp add: pending_def sample_defs)
  finally show ?thesis using e by simp
qed

end
