(* ===== verification/Recovery_Run.thy ===== *)
theory Recovery_Run
  imports Recovery_Sweep
begin

text \<open>
  Loss detection over whole runs (src/connection/recovery.rs): the counters of the bytes and packets in
  flight against the packets that are remembered, and the loss detection timer. \<open>rec_run\<close> is the step
  relation; its invariant \<open>rec_books\<close> is proved operation by operation, each by taking the space that
  the operation changes out of the map (\<open>rec_books_focus\<close>) and putting the changed space back.
\<close>

section \<open>Books\<close>

text \<open>A packet is outstanding when it counts as in flight and is neither acknowledged nor lost.\<close>

definition outstanding :: "sent_packet \<Rightarrow> bool" where
  "outstanding p \<longleftrightarrow> sp_in_flight p \<and> sp_time_acked p = None \<and> sp_time_lost p = None"

definition flight :: "sent_packet list \<Rightarrow> nat" where
  "flight ps = (\<Sum>p \<leftarrow> ps. if outstanding p then sp_sent_size p else 0)"

definition eliciting :: "sent_packet list \<Rightarrow> nat" where
  "eliciting ps = (\<Sum>p \<leftarrow> ps. if outstanding p \<and> sp_ack_eliciting p then 1 else 0)"

lemma flight_simps [simp]:
  "flight [] = 0" "flight (p # ps) = (if outstanding p then sp_sent_size p else 0) + flight ps"
  "flight (ps @ qs) = flight ps + flight qs"
  by (simp_all add: flight_def)

lemma eliciting_simps [simp]:
  "eliciting [] = 0"
  "eliciting (p # ps) = (if outstanding p \<and> sp_ack_eliciting p then 1 else 0) + eliciting ps"
  "eliciting (ps @ qs) = eliciting ps + eliciting qs"
  by (simp_all add: eliciting_def)

text \<open>A counter never exceeds what it counts, and equals it in an exact run.\<close>

definition tallies :: "bool \<Rightarrow> nat \<Rightarrow> nat \<Rightarrow> bool" where
  "tallies E a f \<longleftrightarrow> a \<le> f \<and> (E \<longrightarrow> a = f)"

text \<open>The counters of a space and of the path, in the middle of a pass over the packets: \<open>ps\<close> are still to be
  visited, \<open>x\<close>, \<open>y\<close>, \<open>u\<close> and \<open>v\<close> are accounted for elsewhere.\<close>

definition books :: "bool \<Rightarrow> nat \<Rightarrow> nat \<Rightarrow> nat \<Rightarrow> nat \<Rightarrow> sent_packet list \<Rightarrow> 'c recovery \<Rightarrow> pkt_num_space \<Rightarrow> bool" where
  "books E x y u v ps r s \<longleftrightarrow>
     tallies E (pn_bytes_in_flight s) (x + flight ps) \<and>
     tallies E (rc_bytes_in_flight r) (y + flight ps) \<and>
     tallies E (pn_ack_eliciting_in_flight s) (u + eliciting ps) \<and>
     tallies E (rc_ack_eliciting_in_flight r) (v + eliciting ps) \<and>
     (pn_time_of_last_sent_ack_eliciting_pkt s = None \<longrightarrow> pn_ack_eliciting_in_flight s = 0)"

lemma tallies_sub: "tallies E a (f + d) \<Longrightarrow> tallies E (a - d) f"
  by (auto simp: tallies_def)

lemma tallies_less: "tallies False a f \<Longrightarrow> tallies False (a - d) f"
  by (auto simp: tallies_def)

lemma tallies_add: "tallies E a f \<Longrightarrow> tallies E (a + d) (f + d)"
  by (auto simp: tallies_def)

lemma books_Cons_skip:
  "books E x y u v (p # ps) r s \<Longrightarrow>
   books E (x + flight [p]) (y + flight [p]) (u + eliciting [p]) (v + eliciting [p]) ps r s"
  by (simp add: books_def add.assoc)

lemma books_Cons_join:
  "books E (x + flight [p]) (y + flight [p]) (u + eliciting [p]) (v + eliciting [p]) ps r s \<Longrightarrow>
   books E x y u v (p # ps) r s"
  by (simp add: books_def add.assoc)

text \<open>A packet leaves the flight.\<close>

lemma books_deflate:
  assumes b: "books E x y u v (p # ps) r s"
    and late: "E \<longrightarrow> sp_time_lost p = None" and un: "sp_time_acked p = None"
    and same: "sp_in_flight q = sp_in_flight p" "sp_sent_size q = sp_sent_size p" "sp_ack_eliciting q = sp_ack_eliciting p"
    and d: "deflate q (r, s) = (r', s')"
  shows "books E x y u v ps r' s'"
proof (cases "sp_in_flight p")
  case False
  with assms show ?thesis by (simp add: books_def outstanding_def deflate_def)
next
  case fl: True
  show ?thesis
  proof (cases "sp_time_lost p")
    case None
    with fl un have "outstanding p" by (simp add: outstanding_def)
    with b fl have t: "tallies E (pn_bytes_in_flight s) (x + flight ps + sp_sent_size p)"
      "tallies E (rc_bytes_in_flight r) (y + flight ps + sp_sent_size p)"
      "tallies E (pn_ack_eliciting_in_flight s) (u + eliciting ps + (if sp_ack_eliciting p then 1 else 0))"
      "tallies E (rc_ack_eliciting_in_flight r) (v + eliciting ps + (if sp_ack_eliciting p then 1 else 0))"
      "pn_time_of_last_sent_ack_eliciting_pkt s = None \<longrightarrow> pn_ack_eliciting_in_flight s = 0"
      by (simp_all add: books_def ac_simps)
    with fl same d t(1-4) [THEN tallies_sub] show ?thesis
      by (cases "sp_ack_eliciting p") (auto simp: books_def deflate_def Let_def simp del: One_nat_def)
  next
    case (Some t)
    then have "\<not> outstanding p" "\<not> E" using late by (auto simp: outstanding_def)
    with b fl same d show ?thesis
      by (auto simp: books_def deflate_def Let_def split: if_splits intro!: tallies_less)
  qed
qed

lemma stat_simps [simp]:
  "rc_bytes_in_flight (stat_acked_event a b r) = rc_bytes_in_flight r"
  "rc_ack_eliciting_in_flight (stat_acked_event a b r) = rc_ack_eliciting_in_flight r"
  "rc_bytes_in_flight (stat_lost_event a b r) = rc_bytes_in_flight r"
  "rc_ack_eliciting_in_flight (stat_lost_event a b r) = rc_ack_eliciting_in_flight r"
  by (simp_all add: stat_acked_event_def stat_lost_event_def)

lemma timer_simps [simp]:
  "rc_bytes_in_flight (set_loss_detection_timer sid hs now m r) = rc_bytes_in_flight r"
  "rc_ack_eliciting_in_flight (set_loss_detection_timer sid hs now m r) = rc_ack_eliciting_in_flight r"
  by (simp_all add: set_loss_detection_timer_def split_def Let_def)

lemma books_ack_packet:
  assumes b: "books E x y u v (p # ps) (ak_rec k) (ak_space k)"
    and late: "E \<longrightarrow> sp_time_lost p = None" and un: "sp_time_acked p = None"
    and a: "ack_packet ops now p k = (p', k')"
  shows "books E x y u v (p' # ps) (ak_rec k') (ak_space k')"
proof -
  let ?q = "p\<lparr>sp_time_acked := Some now\<rparr>"
  obtain r s where d: "deflate ?q (ak_rec k, ak_space k) = (r, s)" by fastforce
  have "books E x y u v ps r s" using books_deflate [OF b late un _ _ _ d] by simp
  moreover from a d have "\<not> outstanding p'"
    "pn_bytes_in_flight (ak_space k') = pn_bytes_in_flight s" "rc_bytes_in_flight (ak_rec k') = rc_bytes_in_flight r"
    "pn_ack_eliciting_in_flight (ak_space k') = pn_ack_eliciting_in_flight s"
    "rc_ack_eliciting_in_flight (ak_rec k') = rc_ack_eliciting_in_flight r"
    "pn_time_of_last_sent_ack_eliciting_pkt (ak_space k') = pn_time_of_last_sent_ack_eliciting_pkt s"
    by (auto simp: ack_packet_def Let_def outstanding_def split_def split: if_splits)
  ultimately show ?thesis by (simp add: books_def)
qed

text \<open>A packet that was declared lost and is acknowledged by one of the ranges.\<close>

definition late :: "(u64 \<times> u64) list \<Rightarrow> sent_packet \<Rightarrow> bool" where
  "late rs p \<longleftrightarrow> sp_time_lost p \<noteq> None \<and> sp_time_acked p = None \<and>
     (\<exists>r \<in> set rs. fst r \<le> sp_pkt_num p \<and> sp_pkt_num p < snd r)"

lemma books_ack_loop:
  "ack_loop ops now rs ps k = (ps', k') \<Longrightarrow> books E x y u v ps (ak_rec k) (ak_space k) \<Longrightarrow>
   E \<longrightarrow> (\<forall>p \<in> set ps. \<not> late rs p) \<Longrightarrow>
   books E x y u v ps' (ak_rec k') (ak_space k')"
proof (induction ops now rs ps k arbitrary: x y u v ps' k' rule: ack_loop.induct)
  case (3 ops now r rs p ps k)
  show ?case
  proof (cases "sp_pkt_num p < fst r \<or> sp_time_acked p \<noteq> None")
    case True
    with "3.prems" obtain qs where q: "ack_loop ops now (r # rs) ps k = (qs, k')" "ps' = p # qs"
      by (auto split: prod.splits)
    from "3.IH"(1) [OF True q(1) books_Cons_skip [OF "3.prems"(2)]] "3.prems"(3) q(2) show ?thesis
      by (auto intro: books_Cons_join)
  next
    case skip: False
    show ?thesis
    proof (cases "snd r \<le> sp_pkt_num p")
      case True
      with skip "3.prems"(1) have "ack_loop ops now rs (p # ps) k = (ps', k')" by simp
      moreover have "E \<longrightarrow> (\<forall>p \<in> set (p # ps). \<not> late rs p)"
        using "3.prems"(3) by (auto simp: late_def)
      ultimately show ?thesis using "3.IH"(2) [OF skip True _ "3.prems"(2)] by blast
    next
      case False
      obtain p' k1 where a: "ack_packet ops now p k = (p', k1)" by fastforce
      obtain qs where q: "ack_loop ops now (r # rs) ps k1 = (qs, k')" "ps' = p' # qs"
        using "3.prems"(1) skip False a by (auto split: prod.splits)
      have "E \<longrightarrow> sp_time_lost p = None" using "3.prems"(3) skip False by (auto simp: late_def not_le)
      moreover have "sp_time_acked p = None" using skip by simp
      ultimately have b: "books E x y u v (p' # ps) (ak_rec k1) (ak_space k1)"
        using books_ack_packet [OF "3.prems"(2) _ _ a] by blast
      from "3.IH"(3) [OF skip False a [symmetric] refl q(1) books_Cons_skip [OF b]] "3.prems"(3) q(2) show ?thesis
        by (auto intro: books_Cons_join)
    qed
  qed
qed auto


lemma books_lose_packet:
  assumes b: "books E x y u v (p # ps) (lo_rec l) (lo_space l)"
    and un: "sp_time_acked p = None" "sp_time_lost p = None"
    and a: "lose_packet now p l = (p', l')"
  shows "books E x y u v (p' # ps) (lo_rec l') (lo_space l')"
proof -
  let ?q = "p\<lparr>sp_frames := [], sp_time_lost := Some now\<rparr>"
  let ?s = "(lo_space l)\<lparr>pn_lost := pn_lost (lo_space l) @ sp_frames p\<rparr>"
  obtain r s where d: "deflate ?q (lo_rec l, ?s) = (r, s)" by fastforce
  have "books E x y u v (p # ps) (lo_rec l) ?s" using b by (simp add: books_def)
  then have "books E x y u v ps r s" using books_deflate [OF _ _ un(1) _ _ _ d] un by simp
  moreover from a d have "\<not> outstanding p'" "lo_space l' = s" "lo_rec l' = r"
    by (auto simp: lose_packet_def Let_def outstanding_def)
  ultimately show ?thesis by (simp add: books_def)
qed

lemma books_lost_loop:
  "lost_loop now d ps l = (ps', l') \<Longrightarrow> books E x y u v ps (lo_rec l) (lo_space l) \<Longrightarrow>
   books E x y u v ps' (lo_rec l') (lo_space l')"
proof (induction now d ps l arbitrary: x y u v ps' l' rule: lost_loop.induct)
  case (2 now d p ps l)
  show ?case
  proof (cases "pn_largest_acked_pkt (lo_space l) < sp_pkt_num p")
    case True
    with "2.prems" show ?thesis by simp
  next
    case low: False
    show ?thesis
    proof (cases "sp_time_acked p \<noteq> None \<or> sp_time_lost p \<noteq> None")
      case True
      with low "2.prems" obtain qs where q: "lost_loop now d ps l = (qs, l')" "ps' = p # qs"
        by (auto split: prod.splits)
      from "2.IH"(1) [OF low True q(1) books_Cons_skip [OF "2.prems"(2)]] q(2) show ?thesis
        by (auto intro: books_Cons_join)
    next
      case un: False
      show ?thesis
      proof (cases "is_lost now d (rc_pkt_thresh (lo_rec l)) (pn_largest_acked_pkt (lo_space l)) p")
        case True
        obtain p' l1 where a: "lose_packet now p l = (p', l1)" by fastforce
        obtain qs where q: "lost_loop now d ps l1 = (qs, l')" "ps' = p' # qs"
          using "2.prems"(1) low un True a by (auto split: prod.splits)
        have b: "books E x y u v (p' # ps) (lo_rec l1) (lo_space l1)"
          using books_lose_packet [OF "2.prems"(2) _ _ a] un by simp
        from "2.IH"(2) [OF low un True a [symmetric] refl q(1) books_Cons_skip [OF b]] q(2) show ?thesis
          by (auto intro: books_Cons_join)
      next
        case False
        let ?t = "sp_time_sent p + d"
        let ?s = "(lo_space l)\<lparr>pn_loss_time := Some (case pn_loss_time (lo_space l) of None \<Rightarrow> ?t | Some t' \<Rightarrow> min t' ?t)\<rparr>"
        obtain qs where q: "lost_loop now d ps (l\<lparr>lo_space := ?s\<rparr>) = (qs, l')" "ps' = p # qs"
          using "2.prems"(1) low un False by (auto simp: Let_def split: prod.splits)
        have b: "books E x y u v (p # ps) (lo_rec (l\<lparr>lo_space := ?s\<rparr>)) (lo_space (l\<lparr>lo_space := ?s\<rparr>))"
          using "2.prems"(2) by (simp add: books_def)
        from "2.IH"(3) [OF low un False refl refl refl q(1) books_Cons_skip [OF b]] q(2) show ?thesis
          by (auto intro: books_Cons_join)
      qed
    qed
  qed
qed auto

lemma flight_dropWhile:
  "(\<And>p. P p \<Longrightarrow> \<not> outstanding p) \<Longrightarrow> flight (dropWhile P ps) = flight ps"
  "(\<And>p. P p \<Longrightarrow> \<not> outstanding p) \<Longrightarrow> eliciting (dropWhile P ps) = eliciting ps"
  by (induction ps) auto

definition counters :: "pkt_num_space \<Rightarrow> nat option \<times> nat \<times> nat \<times> nat \<times> nat" where
  "counters s = (pn_time_of_last_sent_ack_eliciting_pkt s, pn_bytes_in_flight s, pn_ack_eliciting_in_flight s, flight (pn_sent s), eliciting (pn_sent s))"

lemma counters_drain: "counters (drain_sent_packets now rtt s) = counters s"
  by (auto simp: counters_def drain_sent_packets_def outstanding_def must_stay_def intro!: flight_dropWhile)

text \<open>The books of a space and of the path that sends in it, with \<open>y\<close> bytes and \<open>v\<close> packets of the
  other spaces in flight.\<close>

definition space_books :: "bool \<Rightarrow> nat \<Rightarrow> nat \<Rightarrow> 'c recovery \<Rightarrow> pkt_num_space \<Rightarrow> bool" where
  "space_books E y v r s \<longleftrightarrow> books E 0 y 0 v (pn_sent s) r s"

lemma space_books_detect_acked:
  assumes "detect_acked_packets ops ranges now (r, s) = (smp, ack, r', s')"
    and "space_books E y v r s" and "E \<longrightarrow> (\<forall>p \<in> set (pn_sent s). \<not> late (rs_set ranges) p)"
  shows "space_books E y v r' s'"
proof -
  let ?k = "\<lparr>ak_rec = r, ak_space = s, ak_newly_acked = [], ak_largest = 0, ak_largest_sent_time = now, ak_ack_eliciting = False\<rparr>"
  obtain ps k where k: "ack_loop ops now (rs_set ranges) (pn_sent s) ?k = (ps, k)" by fastforce
  have "books E 0 y 0 v (pn_sent s) (ak_rec ?k) (ak_space ?k)" using assms(2) by (simp add: space_books_def)
  from books_ack_loop [OF k this assms(3)] show ?thesis using assms(1) k
    by (auto simp: detect_acked_packets_def space_books_def books_def Let_def)
qed

lemma space_books_detect_lost:
  assumes "detect_lost_packets ops now (r, s) = (lost, r', s')" and "space_books E y v r s"
  shows "space_books E y v r' s'"
proof -
  let ?l = "\<lparr>lo_rec = r, lo_space = s\<lparr>pn_loss_time := None\<rparr>, lo_lost_packets = 0, lo_lost_bytes = 0, lo_latest = None\<rparr>"
  obtain ps l where l: "lost_loop now (loss_delay ops r) (pn_sent s) ?l = (ps, l)" by fastforce
  have "books E 0 y 0 v (pn_sent s) (lo_rec ?l) (lo_space ?l)" using assms(2) by (simp add: space_books_def books_def)
  from books_lost_loop [OF l this] show ?thesis using assms(1) l
    by (auto simp: detect_lost_packets_def space_books_def books_def Let_def split: option.splits if_splits)
qed

lemma space_books_counters:
  "space_books E y v r s \<Longrightarrow> counters s' = counters s \<Longrightarrow> rc_bytes_in_flight r' = rc_bytes_in_flight r \<Longrightarrow>
   rc_ack_eliciting_in_flight r' = rc_ack_eliciting_in_flight r \<Longrightarrow> space_books E y v r' s'"
  by (simp add: space_books_def books_def counters_def)

section \<open>All spaces\<close>

definition total :: "(sent_packet list \<Rightarrow> nat) \<Rightarrow> space_map \<Rightarrow> nat" where
  "total f m = (\<Sum>k \<in> dom (sm_spaces m). f (pn_sent (the (sm_spaces m k))))"

definition rec_books :: "bool \<Rightarrow> 'c recovery \<Rightarrow> space_map \<Rightarrow> bool" where
  "rec_books E r m \<longleftrightarrow> finite (dom (sm_spaces m)) \<and> spaces_ok m \<and>
     (\<forall>k s. sm_spaces m k = Some s \<longrightarrow>
        tallies E (pn_bytes_in_flight s) (flight (pn_sent s)) \<and>
        tallies E (pn_ack_eliciting_in_flight s) (eliciting (pn_sent s)) \<and>
        (pn_time_of_last_sent_ack_eliciting_pkt s = None \<longrightarrow> pn_ack_eliciting_in_flight s = 0)) \<and>
     tallies E (rc_bytes_in_flight r) (total flight m) \<and>
     tallies E (rc_ack_eliciting_in_flight r) (total eliciting m)"

lemma total_remove:
  assumes "finite (dom (sm_spaces m))" and "sm_spaces m k = Some s"
  shows "total f m = (\<Sum>k \<in> dom (sm_spaces m) - {k}. f (pn_sent (the (sm_spaces m k)))) + f (pn_sent s)"
  using assms by (simp add: total_def sum.remove [of _ k] domI)

lemma sm_spaces_put: "sm_spaces (space_put sid s m) = (sm_spaces m)(space_key sid \<mapsto> s)"
  by (simp add: space_put_def)

lemma spaces_ok_put: "spaces_ok m \<Longrightarrow> sm_spaces m (space_key sid) = Some s0 \<Longrightarrow> spaces_ok (space_put sid s m)"
  by (auto simp: spaces_ok_def space_put_def dom_def)

lemma rec_books_focus:
  fixes r :: "'c recovery"
  assumes b: "rec_books E r m" and g: "space_get sid m = Some s"
  obtains y v where "space_books E y v r s"
    and "\<And>(r' :: 'c recovery) s'. space_books E y v r' s' \<Longrightarrow> rec_books E r' (space_put sid s' m)"
proof -
  let ?k = "space_key sid" and ?D = "dom (sm_spaces m)"
  let ?rest = "\<lambda>f :: sent_packet list \<Rightarrow> nat. \<Sum>k \<in> ?D - {?k}. f (pn_sent (the (sm_spaces m k)))"
  have fin: "finite ?D" using b by (simp add: rec_books_def)
  have k: "sm_spaces m ?k = Some s" using g by (simp add: space_get_def)
  have put: "total f (space_put sid s' m) = ?rest f + f (pn_sent s')" for f s'
  proof -
    let ?m = "space_put sid s' m"
    have dom: "dom (sm_spaces ?m) = ?D" using k by (auto simp: space_put_def)
    have "total f ?m = (\<Sum>k \<in> ?D - {?k}. f (pn_sent (the (sm_spaces ?m k)))) + f (pn_sent s')"
      using total_remove [of ?m ?k s' f] fin dom by (simp add: space_put_def)
    also have "(\<Sum>k \<in> ?D - {?k}. f (pn_sent (the (sm_spaces ?m k)))) = ?rest f"
      by (rule sum.cong) (auto simp: space_put_def)
    finally show ?thesis .
  qed
  have "space_books E (?rest flight) (?rest eliciting) r s"
    using b k by (auto simp: space_books_def books_def rec_books_def total_remove [OF fin k])
  moreover have "rec_books E r' (space_put sid s' m)"
    if "space_books E (?rest flight) (?rest eliciting) r' s'" for r' :: "'c recovery" and s'
    using that b k by (auto simp: rec_books_def put space_books_def books_def sm_spaces_put spaces_ok_put)
  ultimately show ?thesis by (rule that)
qed

lemma rec_books_fields:
  "rec_books E r m \<Longrightarrow> rc_bytes_in_flight r' = rc_bytes_in_flight r \<Longrightarrow>
   rc_ack_eliciting_in_flight r' = rc_ack_eliciting_in_flight r \<Longrightarrow> rec_books E r' m"
  by (simp add: rec_books_def)

lemma rec_books_weaken: "rec_books E r m \<Longrightarrow> (E' \<longrightarrow> E) \<Longrightarrow> rec_books E' r m"
  by (auto simp: rec_books_def tallies_def)

definition fresh :: "sent_packet \<Rightarrow> bool" where
  "fresh p \<longleftrightarrow> sp_time_acked p = None \<and> sp_time_lost p = None"

lemma on_packet_sent_shape:
  assumes st: "on_packet_sent ops p sid hs now (r, m) = (r', m')" and g: "space_get sid m = Some s" and fr: "fresh p"
  shows "\<exists>q s'. m' = space_put sid s' m \<and> pn_sent s' = pn_sent s @ [q]
    \<and> sp_in_flight q = sp_in_flight p \<and> sp_sent_size q = sp_sent_size p \<and> sp_ack_eliciting q = sp_ack_eliciting p
    \<and> fresh q
    \<and> (pn_time_of_last_sent_ack_eliciting_pkt s' = None \<longrightarrow>
         pn_time_of_last_sent_ack_eliciting_pkt s = None \<and> eliciting [q] = 0)
    \<and> pn_bytes_in_flight s' = pn_bytes_in_flight s + flight [q]
    \<and> pn_ack_eliciting_in_flight s' = pn_ack_eliciting_in_flight s + eliciting [q]
    \<and> rc_bytes_in_flight r' = rc_bytes_in_flight r + flight [q]
    \<and> rc_ack_eliciting_in_flight r' = rc_ack_eliciting_in_flight r + eliciting [q]"
proof -
  obtain rate c where cc: "cc_on_sent ops now (p\<lparr>sp_time_sent := now\<rparr>) (as_u64 (rc_bytes_in_flight r)) (rc_congestion r) = (rate, c)"
    by fastforce
  define q where "q = (if sp_in_flight p \<and> \<not> handshake_space sid then p\<lparr>sp_time_sent := now, sp_rate_sample := rate\<rparr> else p\<lparr>sp_time_sent := now\<rparr>)"
  have sh: "\<exists>s'. m' = space_put sid s' m \<and> pn_sent s' = pn_sent s @ [q]
    \<and> (pn_time_of_last_sent_ack_eliciting_pkt s' = None \<longrightarrow>
         pn_time_of_last_sent_ack_eliciting_pkt s = None \<and> (if sp_in_flight p \<and> sp_ack_eliciting p then 1 else 0) = (0 :: nat))
    \<and> pn_bytes_in_flight s' = pn_bytes_in_flight s + (if sp_in_flight p then sp_sent_size p else 0)
    \<and> pn_ack_eliciting_in_flight s' = pn_ack_eliciting_in_flight s + (if sp_in_flight p \<and> sp_ack_eliciting p then 1 else 0)
    \<and> rc_bytes_in_flight r' = rc_bytes_in_flight r + (if sp_in_flight p then sp_sent_size p else 0)
    \<and> rc_ack_eliciting_in_flight r' = rc_ack_eliciting_in_flight r + (if sp_in_flight p \<and> sp_ack_eliciting p then 1 else 0)"
    using st g cc
    by (cases "sp_in_flight p"; cases "sp_ack_eliciting p"; cases "handshake_space sid"; cases "sp_pacing p")
      (auto simp: on_packet_sent_def Let_def q_def)
  have same: "fresh q" "sp_in_flight q = sp_in_flight p" "sp_sent_size q = sp_sent_size p" "sp_ack_eliciting q = sp_ack_eliciting p"
    using fr by (simp_all add: fresh_def q_def)
  then have fq: "flight [q] = (if sp_in_flight p then sp_sent_size p else 0)"
    "eliciting [q] = (if sp_in_flight p \<and> sp_ack_eliciting p then 1 else 0)"
    by (simp_all add: fresh_def outstanding_def)
  show ?thesis using sh same unfolding fq [symmetric]
    by (intro exI [of _ q]) (elim exE, rule exI, elim conjE, (rule conjI | assumption)+)
qed

lemma rec_books_sent:
  fixes r :: "'c recovery"
  assumes b: "rec_books E r m" and fr: "fresh p"
    and st: "on_packet_sent ops p sid hs now (r, m) = (r', m')"
  shows "rec_books E r' m'"
proof (cases "space_get sid m")
  case None
  with b st show ?thesis by (simp add: on_packet_sent_def Let_def)
next
  case (Some s)
  then obtain y v where sb: "space_books E y v r s"
    and put: "\<And>(r' :: 'c recovery) s'. space_books E y v r' s' \<Longrightarrow> rec_books E r' (space_put sid s' m)"
    using rec_books_focus [OF b] by blast
  obtain q s' where e: "m' = space_put sid s' m" "pn_sent s' = pn_sent s @ [q]"
      "sp_in_flight q = sp_in_flight p" "sp_sent_size q = sp_sent_size p" "sp_ack_eliciting q = sp_ack_eliciting p"
      "fresh q"
      "pn_time_of_last_sent_ack_eliciting_pkt s' = None \<longrightarrow>
         pn_time_of_last_sent_ack_eliciting_pkt s = None \<and> eliciting [q] = 0"
      "pn_bytes_in_flight s' = pn_bytes_in_flight s + flight [q]"
      "pn_ack_eliciting_in_flight s' = pn_ack_eliciting_in_flight s + eliciting [q]"
      "rc_bytes_in_flight r' = rc_bytes_in_flight r + flight [q]"
      "rc_ack_eliciting_in_flight r' = rc_ack_eliciting_in_flight r + eliciting [q]"
    using on_packet_sent_shape [OF st Some fr] by (elim exE conjE) (rule that; assumption)
  have "space_books E y v r' s'"
    using sb e(7) by (auto simp: space_books_def books_def e(2-6,8-) tallies_def)
  with put e(1) show ?thesis by blast
qed

lemma rec_books_ack:
  fixes r :: "'c recovery"
  assumes b: "rec_books E r m" and st: "on_ack_received ops ranges d sid hs now (r, m) = (res, r', m')"
    and lt: "\<And>s. E \<Longrightarrow> space_get sid m = Some s \<Longrightarrow> \<forall>p \<in> set (pn_sent s). \<not> late (rs_set ranges) p"
  shows "rec_books E r' m'"
proof -
  consider "r' = r" "m' = m" | s largest where "space_get sid m = Some s" "rs_max ranges = Some largest"
    using st by (auto simp: on_ack_received_def split: option.splits)
  then show ?thesis
  proof cases
    case 1
    with b show ?thesis by simp
  next
    case (2 s largest)
    obtain y v where sb: "space_books E y v r s"
      and put: "\<And>(r' :: 'c recovery) s'. space_books E y v r' s' \<Longrightarrow> rec_books E r' (space_put sid s' m)"
      using rec_books_focus [OF b 2(1)] by blast
    let ?s = "s\<lparr>pn_largest_acked_pkt := (if pn_largest_acked_pkt s = - 1 then largest else max (pn_largest_acked_pkt s) largest)\<rparr>"
    let ?r = "if \<not> handshake_space sid then r\<lparr>rc_congestion := cc_begin_ack ops now (as_u64 (rc_bytes_in_flight r)) (rc_congestion r)\<rparr> else r"
    obtain smp ack r1 s1 where d: "detect_acked_packets ops ranges now (?r, ?s) = (smp, ack, r1, s1)"
      by (rule prod_cases4)
    have "space_books E y v ?r ?s" by (rule space_books_counters [OF sb]) (simp_all add: counters_def)
    then have b1: "space_books E y v r1 s1" using space_books_detect_acked [OF d] lt [OF _ 2(1)] by simp
    show ?thesis
    proof (cases "ack = []")
      case True
      with 2 d st have "r' = r1" "m' = space_put sid s1 m" by (simp_all add: on_ack_received_def Let_def)
      with put b1 show ?thesis by simp
    next
      case False
      let ?r1 = "case smp of Some rtt \<Rightarrow> (if rtt \<noteq> 0 then r1\<lparr>rc_rtt := rtt_update (unat d * 1000) rtt (rc_rtt r1)\<rparr> else r1) | None \<Rightarrow> r1"
      obtain lost r2 s2 where l: "detect_lost_packets ops now (?r1, s1) = (lost, r2, s2)" by (rule prod_cases3)
      have "space_books E y v ?r1 s1"
        by (rule space_books_counters [OF b1]) (simp_all split: option.splits)
      then have b2: "space_books E y v r2 s2" by (rule space_books_detect_lost [OF l])
      let ?s3 = "drain_sent_packets now (smoothed_rtt (rc_rtt r2)) s2"
      from False 2 d st l have "m' = space_put sid ?s3 m" "rc_bytes_in_flight r' = rc_bytes_in_flight r2"
        "rc_ack_eliciting_in_flight r' = rc_ack_eliciting_in_flight r2"
        by (auto simp: on_ack_received_def Let_def)
      with put [OF space_books_counters [OF b2 counters_drain]] show ?thesis by simp
    qed
  qed
qed

lemma rec_books_timeout:
  fixes r :: "'c recovery"
  assumes b: "rec_books E r m" and st: "on_loss_detection_timeout ops sid hs now (r, m) = (res, r', m')"
  shows "rec_books E r' m'"
proof -
  obtain t lid where lt: "get_loss_time_and_space sid m = (t, lid)" by fastforce
  define pid where "pid = (if 0 < rc_ack_eliciting_in_flight r then snd (get_pto_time_and_space sid hs now r m)
    else if derived_handshake_keys hs then SHandshake else SInitial)"
  note D = st [unfolded on_loss_detection_timeout_def prod.case lt Let_def, folded pid_def]
  show ?thesis
  proof (cases "space_get lid m")
    case None
    with D b show ?thesis by simp
  next
    case lid: (Some s)
    show ?thesis
    proof (cases "t = None")
      case False
      obtain y v where sb: "space_books E y v r s"
        and put: "\<And>(r' :: 'c recovery) s'. space_books E y v r' s' \<Longrightarrow> rec_books E r' (space_put lid s' m)"
        using rec_books_focus [OF b lid] by blast
      obtain lost r2 s2 where l: "detect_lost_packets ops now (r, s) = (lost, r2, s2)" by (rule prod_cases3)
      let ?s3 = "drain_sent_packets now (smoothed_rtt (rc_rtt r2)) s2"
      from D lid False l have "m' = space_put lid ?s3 m" "rc_bytes_in_flight r' = rc_bytes_in_flight r2"
        "rc_ack_eliciting_in_flight r' = rc_ack_eliciting_in_flight r2"
        by auto
      with put [OF space_books_counters [OF space_books_detect_lost [OF l sb] counters_drain]] show ?thesis by simp
    next
      case True
      show ?thesis
      proof (cases "space_get pid m")
        case None
        with D lid True b show ?thesis by simp
      next
        case (Some s)
        obtain y v where sb: "space_books E y v r s"
          and put: "\<And>(r' :: 'c recovery) s'. space_books E y v r' s' \<Longrightarrow> rec_books E r' (space_put pid s' m)"
          using rec_books_focus [OF b Some] by blast
        from D lid True Some obtain s' where "m' = space_put pid s' m" "counters s' = counters s"
          "rc_bytes_in_flight r' = rc_bytes_in_flight r" "rc_ack_eliciting_in_flight r' = rc_ack_eliciting_in_flight r"
          by (auto simp: counters_def)
        with put [OF space_books_counters [OF sb]] show ?thesis by simp
      qed
    qed
  qed
qed

lemma books_removed:
  "tallies E (rc_bytes_in_flight r) (y + flight (pn_sent s)) \<Longrightarrow>
   tallies E (rc_bytes_in_flight (remove_from_bytes_in_flight s r)) y"
  "tallies E (rc_ack_eliciting_in_flight r) (v + eliciting (pn_sent s)) \<Longrightarrow>
   tallies E (rc_ack_eliciting_in_flight (remove_from_bytes_in_flight s r)) v"
proof -
  let ?f = "\<lambda>p r :: 'c recovery.
       if \<not> sp_in_flight p \<or> sp_time_acked p \<noteq> None \<or> sp_time_lost p \<noteq> None then r
       else
         let r = r\<lparr>rc_bytes_in_flight := rc_bytes_in_flight r - sp_sent_size p\<rparr>
         in if sp_ack_eliciting p
            then r\<lparr>rc_ack_eliciting_in_flight := rc_ack_eliciting_in_flight r - 1\<rparr> else r"
  have "tallies E (rc_bytes_in_flight r) (y + flight ps) \<Longrightarrow> tallies E (rc_bytes_in_flight (fold ?f ps r)) y"
    "tallies E (rc_ack_eliciting_in_flight r) (v + eliciting ps) \<Longrightarrow>
     tallies E (rc_ack_eliciting_in_flight (fold ?f ps r)) v" for ps and r :: "'c recovery"
    by (induction ps arbitrary: r) (auto simp: outstanding_def tallies_def Let_def)
  then show "tallies E (rc_bytes_in_flight r) (y + flight (pn_sent s)) \<Longrightarrow>
     tallies E (rc_bytes_in_flight (remove_from_bytes_in_flight s r)) y"
    "tallies E (rc_ack_eliciting_in_flight r) (v + eliciting (pn_sent s)) \<Longrightarrow>
     tallies E (rc_ack_eliciting_in_flight (remove_from_bytes_in_flight s r)) v"
    by (simp_all add: remove_from_bytes_in_flight_def)
qed

lemma rec_books_discarded:
  fixes r :: "'c recovery"
  assumes b: "rec_books E r m" and st: "on_pkt_num_space_discarded sid hs now (r, m) = (r', m')"
  shows "rec_books E r' m'"
proof (cases "space_get sid m")
  case None
  with b st show ?thesis by (simp add: on_pkt_num_space_discarded_def)
next
  case (Some s)
  obtain y v where sb: "space_books E y v r s"
    and put: "\<And>(r' :: 'c recovery) s'. space_books E y v r' s' \<Longrightarrow> rec_books E r' (space_put sid s' m)"
    using rec_books_focus [OF b Some] by blast
  from st Some obtain s' where e: "m' = space_put sid s' m" "pn_sent s' = []" "pn_bytes_in_flight s' = 0"
    "pn_ack_eliciting_in_flight s' = 0"
    "rc_bytes_in_flight r' = rc_bytes_in_flight (remove_from_bytes_in_flight s r)"
    "rc_ack_eliciting_in_flight r' = rc_ack_eliciting_in_flight (remove_from_bytes_in_flight s r)"
    by (auto simp: on_pkt_num_space_discarded_def Let_def)
  have "space_books E y v r' s'"
    using sb by (auto simp: space_books_def books_def e tallies_def [of _ 0] intro: books_removed)
  with put e(1) show ?thesis by blast
qed

lemma rec_books_add:
  assumes b: "rec_books E r m" and st: "space_add now m = (sid, m')" and n: "sm_next_data_ext_id m \<noteq> - 1"
  shows "rec_books E r m'"
proof -
  let ?k = "sm_next_data_ext_id m"
  have ok: "spaces_ok m'" "sm_spaces m ?k = None" using spaces_ok_add [OF _ n st] b st
    by (auto simp: rec_books_def space_add_def Let_def space_get_def)
  have m': "sm_spaces m' = (sm_spaces m)(?k \<mapsto> space_new sid now)" using st by (auto simp: space_add_def Let_def)
  have new: "pn_sent (space_new sid now) = []" "pn_bytes_in_flight (space_new sid now) = 0"
    "pn_ack_eliciting_in_flight (space_new sid now) = 0" by (simp_all add: space_new_def)
  have "total f m' = total f m" if "f [] = 0" for f
  proof -
    have fin: "finite (dom (sm_spaces m'))" using b m' by (simp add: rec_books_def)
    have "total f m' = (\<Sum>k \<in> dom (sm_spaces m') - {?k}. f (pn_sent (the (sm_spaces m' k))))"
      using total_remove [OF fin, of ?k "space_new sid now"] that m' new by simp
    also have "\<dots> = total f m" unfolding total_def
      by (rule sum.cong) (use m' ok(2) in auto)
    finally show ?thesis .
  qed
  then have "total flight m' = total flight m" "total eliciting m' = total eliciting m" by simp_all
  with b ok(1) m' new show ?thesis by (auto simp: rec_books_def tallies_def)
qed

lemma rec_books_new: "rec_books True (recovery_new conf cc now) (spaces_new now)"
proof -
  have s: "pn_sent s = [] \<and> pn_bytes_in_flight s = 0 \<and> pn_ack_eliciting_in_flight s = 0"
    if "sm_spaces (spaces_new now) k = Some s" for k s
    using that by (auto simp: spaces_new_def space_new_def split: if_splits)
  have fin: "finite (dom (sm_spaces (spaces_new now)))" by (simp add: spaces_new_def)
  have "total f (spaces_new now) = 0" if "f [] = 0" for f
    unfolding total_def by (rule sum.neutral) (use s that in force)
  then have "total flight (spaces_new now) = 0" "total eliciting (spaces_new now) = 0" by simp_all
  moreover have "rc_bytes_in_flight (recovery_new conf cc now) = 0"
    "rc_ack_eliciting_in_flight (recovery_new conf cc now) = 0" by (simp_all add: recovery_new_def)
  ultimately show ?thesis using s fin spaces_ok_new [of now] by (force simp: rec_books_def tallies_def)
qed

section \<open>Runs\<close>

text \<open>The events of a path that is the only one of its connection, in any order: a packet is sent, an
  ACK frame is received, the loss detection timer fires, a space is discarded, a space is added, the
  connection takes the frames of lost and acknowledged packets, asks whether it may send or changes
  the datagram size. The flag says that no ACK frame of the run was late: that it acknowledged a
  packet after it was declared lost.\<close>

inductive rec_run :: "'c recovery_ops \<Rightarrow> bool \<Rightarrow> 'c recovery \<Rightarrow> space_map \<Rightarrow> bool" for ops where
  run_new: "rec_run ops True (recovery_new conf cc now) (spaces_new now)"
| run_sent: "rec_run ops E r m \<Longrightarrow> fresh p \<Longrightarrow> on_packet_sent ops p sid hs now (r, m) = (r', m') \<Longrightarrow>
    rec_run ops E r' m'"
| run_ack: "rec_run ops E r m \<Longrightarrow> on_ack_received ops ranges d sid hs now (r, m) = (res, r', m') \<Longrightarrow>
    E' = (E \<and> (\<forall>s. space_get sid m = Some s \<longrightarrow> list_all (\<lambda>p. \<not> late (rs_set ranges) p) (pn_sent s))) \<Longrightarrow>
    rec_run ops E' r' m'"
| run_timeout: "rec_run ops E r m \<Longrightarrow> on_loss_detection_timeout ops sid hs now (r, m) = (res, r', m') \<Longrightarrow>
    rec_run ops E r' m'"
| run_discarded: "rec_run ops E r m \<Longrightarrow> on_pkt_num_space_discarded sid hs now (r, m) = (r', m') \<Longrightarrow>
    rec_run ops E r' m'"
| run_add: "rec_run ops E r m \<Longrightarrow> space_add now m = (sid, m') \<Longrightarrow> sm_next_data_ext_id m \<noteq> - 1 \<Longrightarrow>
    rec_run ops E r m'"
| run_take: "rec_run ops E r m \<Longrightarrow> space_get sid m = Some s \<Longrightarrow>
    rec_run ops E r (space_put sid (s\<lparr>pn_lost := [], pn_acked := []\<rparr>) m)"
| run_can_send: "rec_run ops E r m \<Longrightarrow> can_send ops now r = (b, r') \<Longrightarrow> rec_run ops E r' m"
| run_mtu: "rec_run ops E r m \<Longrightarrow> rec_run ops E (update_max_datagram_size sz up r) m"

lemma rec_run_books: "rec_run ops E r m \<Longrightarrow> rec_books E r m"
proof (induction rule: rec_run.induct)
  case (run_ack E r m ranges d sid hs now res r' m' E')
  have "rec_books E' r m" using run_ack.IH run_ack.hyps(3) by (auto intro: rec_books_weaken)
  then show ?case by (rule rec_books_ack [OF _ run_ack.hyps(2)]) (use run_ack.hyps(3) in \<open>auto simp: list_all_iff\<close>)
next
  case (run_take E r m sid s)
  then obtain y v where sb: "space_books E y v r s"
    and put: "\<And>(r' :: 'a recovery) s'. space_books E y v r' s' \<Longrightarrow> rec_books E r' (space_put sid s' m)"
    using rec_books_focus [OF run_take.IH] by blast
  show ?case by (rule put [OF space_books_counters [OF sb]]) (simp_all add: counters_def)
next
  case (run_can_send E r m now b r')
  then show ?case
    by (auto simp: can_send_def can_pacing_def Let_def split_def split: if_splits option.splits intro: rec_books_fields)
next
  case (run_mtu E r m sz up)
  then show ?case by (auto simp: update_max_datagram_size_def intro: rec_books_fields)
qed (blast intro: rec_books_new rec_books_sent rec_books_timeout rec_books_discarded rec_books_add)+

text \<open>C7: In every run, of a path that is the only one of its connection and with any congestion
  controller, the bytes and ack-eliciting packets that are counted as in flight, by the path and by
  each packet number space, are never more than those of the packets that were sent and neither
  acknowledged nor declared lost; and they are exactly those when no ACK frame of the run acknowledged
  a packet that had been declared lost.\<close>

theorem in_flight_exact:
  assumes "rec_run ops E r m"
  shows "rc_bytes_in_flight r \<le> total flight m \<and> rc_ack_eliciting_in_flight r \<le> total eliciting m
    \<and> (E \<longrightarrow> rc_bytes_in_flight r = total flight m \<and> rc_ack_eliciting_in_flight r = total eliciting m)
    \<and> (\<forall>sid s. space_get sid m = Some s \<longrightarrow>
         pn_bytes_in_flight s \<le> flight (pn_sent s) \<and> pn_ack_eliciting_in_flight s \<le> eliciting (pn_sent s)
         \<and> (E \<longrightarrow> pn_bytes_in_flight s = flight (pn_sent s) \<and> pn_ack_eliciting_in_flight s = eliciting (pn_sent s)))"
  using rec_run_books [OF assms] by (simp add: rec_books_def tallies_def space_get_def)

lemma sample_sent_run:
  assumes "on_packet_sent fixed_window (sample_packet 0) SData handshake_done 0
    (recovery_new sample_config () 0, spaces_new 0) = (r, m)"
  shows "rec_run fixed_window True r m" and "rc_ack_eliciting_in_flight r = 1" and "rc_bytes_in_flight r = 1200"
    and "dom (sm_spaces m) = {0, 1, 2}"
    and "\<forall>sid s. space_get sid m = Some s \<longrightarrow> pn_loss_time s = None"
proof -
  show "rec_run fixed_window True r m"
    by (rule run_sent [OF run_new _ assms]) (simp add: fresh_def sample_defs)
  show "rc_ack_eliciting_in_flight r = 1" "rc_bytes_in_flight r = 1200" "dom (sm_spaces m) = {0, 1, 2}"
    "\<forall>sid s. space_get sid m = Some s \<longrightarrow> pn_loss_time s = None"
    using assms
    by (auto simp: on_packet_sent_def space_get_def spaces_new_def sample_defs recovery_new_def fixed_window_def
        space_put_def Let_def split: if_splits)
qed

theorem in_flight_exact_witness:
  "rc_bytes_in_flight (fst (on_packet_sent fixed_window (sample_packet 0) SData handshake_done 0
     (recovery_new sample_config () 0, spaces_new 0))) = 1200
   \<and> total flight (snd (on_packet_sent fixed_window (sample_packet 0) SData handshake_done 0
     (recovery_new sample_config () 0, spaces_new 0))) = 1200"
proof -
  obtain r m where e: "on_packet_sent fixed_window (sample_packet 0) SData handshake_done 0
    (recovery_new sample_config () 0, spaces_new 0) = (r, m)" by fastforce
  from in_flight_exact [OF sample_sent_run(1) [OF e]] sample_sent_run(3) [OF e] e show ?thesis by simp
qed

section \<open>Late acknowledgements\<close>

definition sizes :: "(sent_packet \<Rightarrow> bool) \<Rightarrow> sent_packet list \<Rightarrow> nat" where
  "sizes P ps = (\<Sum>p \<leftarrow> filter P ps. sp_sent_size p)"

lemma sizes_simps [simp]:
  "sizes P [] = 0" "sizes P (p # ps) = (if P p then sp_sent_size p else 0) + sizes P ps"
  by (simp_all add: sizes_def)

lemma ack_packet_bytes:
  assumes "ack_packet ops now p k = (p', k')"
  shows "pn_bytes_in_flight (ak_space k') = pn_bytes_in_flight (ak_space k) - (if sp_in_flight p then sp_sent_size p else 0)"
    and "rc_bytes_in_flight (ak_rec k') = rc_bytes_in_flight (ak_rec k) - (if sp_in_flight p then sp_sent_size p else 0)"
    and "\<not> outstanding p'"
  using assms by (auto simp: ack_packet_def deflate_def Let_def split_def outstanding_def split: if_splits)

text \<open>Every packet in flight that is acknowledged is subtracted, whether it was declared lost before or not.\<close>

lemma ack_each_bytes:
  assumes "ack_each ops now P ps k = (ps', k')" and "\<forall>p \<in> set ps. P p \<longrightarrow> sp_time_acked p = None"
  shows "pn_bytes_in_flight (ak_space k') = pn_bytes_in_flight (ak_space k) - sizes (\<lambda>p. P p \<and> sp_in_flight p) ps"
    and "rc_bytes_in_flight (ak_rec k') = rc_bytes_in_flight (ak_rec k) - sizes (\<lambda>p. P p \<and> sp_in_flight p) ps"
    and "flight ps = flight ps' + sizes (\<lambda>p. P p \<and> sp_in_flight p \<and> sp_time_lost p = None) ps"
  using assms
proof (induction ps arbitrary: k ps' k')
  case (Cons p ps)
  case 1
  obtain p1 k1 where a: "(if P p then ack_packet ops now p k else (p, k)) = (p1, k1)" by fastforce
  obtain qs where q: "ack_each ops now P ps k1 = (qs, k')" using 1 a by (auto split: prod.splits)
  with Cons.IH(1) [OF q] 1 a ack_packet_bytes [of ops now p k p1 k1] show ?case by (auto split: if_splits)
next
  case (Cons p ps)
  case 2
  obtain p1 k1 where a: "(if P p then ack_packet ops now p k else (p, k)) = (p1, k1)" by fastforce
  obtain qs where q: "ack_each ops now P ps k1 = (qs, k')" using 2 a by (auto split: prod.splits)
  with Cons.IH(2) [OF q] 2 a ack_packet_bytes [of ops now p k p1 k1] show ?case by (auto split: if_splits)
next
  case (Cons p ps)
  case 3
  obtain p1 k1 where a: "(if P p then ack_packet ops now p k else (p, k)) = (p1, k1)" by fastforce
  obtain qs where q: "ack_each ops now P ps k1 = (qs, k')" "ps' = p1 # qs" using 3 a by (auto split: prod.splits)
  with Cons.IH(3) [OF q(1)] 3 a ack_packet_bytes [of ops now p k p1 k1] show ?case
    by (auto simp: outstanding_def split: if_splits)
qed simp_all

lemma sizes_split: "sizes (\<lambda>p. P p \<and> Q p) ps = sizes (\<lambda>p. P p \<and> Q p \<and> R p) ps + sizes (\<lambda>p. P p \<and> Q p \<and> \<not> R p) ps"
  by (induction ps) auto

text \<open>C17: A packet in flight that was declared lost leaves the bytes in flight a second time when an ACK frame
  for it arrives while it is still remembered, because an acknowledgement does not look whether its packet was
  declared lost. In a space whose count was exact before the frame, the count after it is too small by the
  sizes of exactly these packets: of the packets in flight that were declared lost, were not acknowledged
  before and are covered by the frame (a count never goes below zero). The packets have to be in the order of
  their numbers and the ranges of the frame in ascending order, as the sweep expects them. Packets that carry
  nothing but an ACK are not in flight and do no harm.\<close>

theorem late_ack_counted_twice:
  assumes "detect_acked_packets ops ranges now (r, s) = (sample, acked, r', s')"
    and "ascending (rs_set ranges)" and "in_order (pn_sent s)"
    and "pn_bytes_in_flight s = flight (pn_sent s)"
  shows "pn_bytes_in_flight s' =
    flight (pn_sent s') - sizes (\<lambda>p. late (rs_set ranges) p \<and> sp_in_flight p) (pn_sent s)"
proof -
  let ?h = "hit (rs_set ranges)" and ?fl = sp_in_flight and ?new = "\<lambda>p. sp_time_lost p = None"
  let ?k = "\<lparr>ak_rec = r, ak_space = s, ak_newly_acked = [], ak_largest = 0, ak_largest_sent_time = now, ak_ack_eliciting = False\<rparr>"
  obtain ps k where k: "ack_loop ops now (rs_set ranges) (pn_sent s) ?k = (ps, k)" by fastforce
  then have e: "ack_each ops now ?h (pn_sent s) ?k = (ps, k)" by (simp only: ack_loop_each [OF assms(2,3)])
  have un: "\<forall>p \<in> set (pn_sent s). ?h p \<longrightarrow> sp_time_acked p = None" by (simp add: hit_def)
  have s': "pn_bytes_in_flight s' = pn_bytes_in_flight (ak_space k)" "pn_sent s' = ps"
    using assms(1) k by (auto simp: detect_acked_packets_def Let_def)
  have "late (rs_set ranges) p \<and> ?fl p \<longleftrightarrow> ?h p \<and> ?fl p \<and> \<not> ?new p" for p by (auto simp: late_def hit_def)
  then have "sizes (\<lambda>p. late (rs_set ranges) p \<and> ?fl p) = sizes (\<lambda>p. ?h p \<and> ?fl p \<and> \<not> ?new p)" by simp
  then show ?thesis
    using ack_each_bytes(1,3) [OF e un] assms(4) s' sizes_split [of ?h ?fl "pn_sent s" ?new] by simp
qed

theorem late_ack_counted_twice_witness:
  "let lost_packet = (sample_packet 0)\<lparr>sp_time_lost := Some 5\<rparr>;
       s = (sample_space [lost_packet, sample_packet 1, sample_packet 2])\<lparr>pn_bytes_in_flight := 2400\<rparr>;
       s' = snd (snd (snd (detect_acked_packets fixed_window \<lparr>rs_set = [(0, 2)], rs_cap = 68\<rparr> 7
              (recovery_new sample_config () 0, s))))
   in pn_bytes_in_flight s' = flight (pn_sent s') - 1200"
proof -
  let ?p = "(sample_packet 0)\<lparr>sp_time_lost := Some 5\<rparr>" and ?R = "\<lparr>rs_set = [(0, 2)], rs_cap = 68\<rparr> :: u64 rangeset"
  let ?s = "(sample_space [?p, sample_packet 1, sample_packet 2])\<lparr>pn_bytes_in_flight := 2400\<rparr>"
  obtain smp acked r' s' where e: "detect_acked_packets fixed_window ?R 7 (recovery_new sample_config () 0, ?s)
      = (smp, acked, r', s')" by (rule prod_cases4)
  have "ascending (rs_set ?R)" by (simp add: ascending_def)
  moreover have "in_order (pn_sent ?s)" by (simp add: in_order_def sample_defs)
  moreover have "pn_bytes_in_flight ?s = flight (pn_sent ?s)" by (simp add: sample_defs outstanding_def)
  moreover have "sizes (\<lambda>p. late (rs_set ?R) p \<and> sp_in_flight p) (pn_sent ?s) = 1200" by (simp add: late_def sample_defs)
  ultimately show ?thesis using late_ack_counted_twice [OF e] e by simp
qed

section \<open>The loss detection timer\<close>

definition timed :: "space_map \<Rightarrow> bool" where
  "timed m \<longleftrightarrow> (\<forall>k s. sm_spaces m k = Some s \<longrightarrow>
     pn_time_of_last_sent_ack_eliciting_pkt s = None \<longrightarrow> pn_ack_eliciting_in_flight s = 0)"

lemma pto_loop_armed:
  assumes "hs_completed hs" and "timed m"
    and "fst acc \<noteq> None \<or> (\<exists>sid \<in> set sids. \<exists>s. space_get sid m = Some s \<and> 0 < pn_ack_eliciting_in_flight s)"
  shows "fst (pto_loop r hs m sids d acc) \<noteq> None"
  using assms(3)
proof (induction sids arbitrary: d acc)
  case (Cons sid sids)
  obtain t ps where acc: "acc = (t, ps)" by fastforce
  show ?case
  proof (cases "space_get sid m")
    case None
    with Cons acc show ?thesis by auto
  next
    case (Some s)
    show ?thesis
    proof (cases "pn_ack_eliciting_in_flight s = 0")
      case True
      with Cons acc Some show ?thesis by auto
    next
      case False
      with assms(2) Some obtain l where "pn_time_of_last_sent_ack_eliciting_pkt s = Some l"
        by (cases "pn_time_of_last_sent_ack_eliciting_pkt s") (auto simp: timed_def space_get_def)
      moreover have "\<exists>y. fst (pto_loop r hs m sids d' (Some t', sid')) = Some y" for d' t' sid'
        using Cons.IH [of "(Some t', sid')"] by simp
      ultimately show ?thesis using False Some assms(1) acc by (auto simp: Let_def)
    qed
  qed
qed auto

lemma pto_loop_space:
  "P (snd acc) \<Longrightarrow> \<forall>sid \<in> set sids. P sid \<Longrightarrow> P (snd (pto_loop r hs m sids d acc))"
  by (induction r hs m sids d acc rule: pto_loop.induct) (auto simp: Let_def split: option.split)

lemma loss_time_loop_space:
  "P (snd acc) \<Longrightarrow> \<forall>sid \<in> set sids. P sid \<Longrightarrow> P (snd (loss_time_loop m sids acc))"
  by (induction m sids acc rule: loss_time_loop.induct) (auto simp: Let_def split: option.split)

lemma no_loss_time:
  "fst acc = None \<Longrightarrow> \<forall>sid s. space_get sid m = Some s \<longrightarrow> pn_loss_time s = None \<Longrightarrow> fst (loss_time_loop m sids acc) = None"
  by (induction m sids acc rule: loss_time_loop.induct) (auto simp: Let_def split: option.split)

lemma rec_books_timed: "rec_books E r m \<Longrightarrow> timed m"
  by (simp add: rec_books_def timed_def)

text \<open>With the three spaces of a path, the timer is armed whenever something is in flight.\<close>

lemma timer_armed:
  assumes b: "rec_books True r m" and dom: "dom (sm_spaces m) \<subseteq> {0, 1, 2}" and sid: "sid \<in> {SInitial, SHandshake, SData}"
    and hs: "hs_completed hs" and fl: "0 < rc_ack_eliciting_in_flight r"
  shows "rc_loss_detection_timer (set_loss_detection_timer sid hs now m r) \<noteq> None"
proof -
  have "0 < total eliciting m" using b fl by (auto simp: rec_books_def tallies_def)
  then obtain k where k: "k \<in> dom (sm_spaces m)" "eliciting (pn_sent (the (sm_spaces m k))) \<noteq> 0"
    unfolding total_def using sum.neutral by (metis (no_types, lifting) less_irrefl)
  then obtain s where s: "sm_spaces m k = Some s" "0 < pn_ack_eliciting_in_flight s"
    using b by (auto simp: rec_books_def tallies_def)
  have "k \<in> space_key ` set (timer_candidates sid)" using k(1) dom sid by (auto simp: timer_candidates_def)
  then have "\<exists>sid' \<in> set (timer_candidates sid). \<exists>s. space_get sid' m = Some s \<and> 0 < pn_ack_eliciting_in_flight s"
    using s by (auto simp: space_get_def)
  then have "fst (get_pto_time_and_space sid hs now r m) \<noteq> None"
    using fl pto_loop_armed [OF hs rec_books_timed [OF b], of "(None, SInitial)" "timer_candidates sid" r] by (simp add: get_pto_time_and_space_def Let_def)
  then show ?thesis using fl by (auto simp: set_loss_detection_timer_def split_def Let_def)
qed

text \<open>C10: The loss detection timer never dies while something is in flight: in a run without late
  acknowledgements of a path with the three packet number spaces, once the handshake is complete, a
  timeout that leaves ack-eliciting packets in flight leaves the timer armed. So it fires again until
  they are acknowledged or declared lost.\<close>

theorem timeout_rearms_timer:
  assumes run: "rec_run ops True r m" and dom: "dom (sm_spaces m) = {0, 1, 2}"
    and sid: "sid \<in> {SInitial, SHandshake, SData}" and hs: "hs_completed hs"
    and st: "on_loss_detection_timeout ops sid hs now (r, m) = (lost, r', m')"
    and fl: "0 < rc_ack_eliciting_in_flight r'"
  shows "rc_loss_detection_timer r' \<noteq> None"
proof -
  let ?known = "\<lambda>sid. sid \<in> {SInitial, SHandshake, SData}"
  have some: "\<exists>s. space_get sid m = Some s" if "?known sid" for sid
  proof -
    have "space_key sid \<in> dom (sm_spaces m)" using that dom by auto
    then show ?thesis by (auto simp: space_get_def)
  qed
  have cand: "\<forall>s \<in> set (timer_candidates sid). ?known s" using sid by (auto simp: timer_candidates_def)
  obtain t lid where lt: "get_loss_time_and_space sid m = (t, lid)" by fastforce
  have lid: "?known lid"
    using loss_time_loop_space [of ?known "(None, SInitial)", OF _ cand, of m] lt by (simp add: get_loss_time_and_space_def)
  define pid where "pid = (if 0 < rc_ack_eliciting_in_flight r then snd (get_pto_time_and_space sid hs now r m)
    else if derived_handshake_keys hs then SHandshake else SInitial)"
  have pid: "?known pid"
    using pto_loop_space [of ?known "(None, SInitial)", OF _ cand, of r hs m "calculate_pto r"]
    by (simp add: pid_def get_pto_time_and_space_def Let_def)
  note D = st [unfolded on_loss_detection_timeout_def prod.case lt Let_def, folded pid_def]
  obtain sl sp where sl: "space_get lid m = Some sl" and sp: "space_get pid m = Some sp"
    using some [OF lid] some [OF pid] by blast
  have "\<exists>r1 s1 id. r' = set_loss_detection_timer sid hs now m' r1 \<and> m' = space_put id s1 m \<and> ?known id"
  proof (cases "t = None")
    case True
    with D sl sp have "r' = set_loss_detection_timer sid hs now m' (r\<lparr>rc_pto_count := Suc (rc_pto_count r)\<rparr>)" by auto
    moreover from D sl sp True have "\<exists>s1. m' = space_put pid s1 m" by auto
    ultimately show ?thesis using pid by blast
  next
    case False
    obtain lost r2 s2 where "detect_lost_packets ops now (r, sl) = (lost, r2, s2)" by (rule prod_cases3)
    with D sl lid False show ?thesis by auto
  qed
  then obtain r1 s1 id where r': "r' = set_loss_detection_timer sid hs now m' r1"
    and m': "m' = space_put id s1 m" "?known id" by blast
  have "dom (sm_spaces m') = {0, 1, 2}" using m' dom by (auto simp: sm_spaces_put)
  moreover have "rec_books True r' m'" using rec_books_timeout [OF rec_run_books [OF run] st] .
  then have "rec_books True r1 m'" by (rule rec_books_fields) (simp_all add: r')
  ultimately show ?thesis unfolding r' using timer_armed [of r1 m'] sid hs fl r' by simp
qed

theorem timeout_rearms_timer_witness:
  "rc_loss_detection_timer (fst (snd (on_loss_detection_timeout fixed_window SData handshake_done 2000000000
     (on_packet_sent fixed_window (sample_packet 0) SData handshake_done 0
       (recovery_new sample_config () 0, spaces_new 0))))) \<noteq> None"
proof -
  obtain r m where e: "on_packet_sent fixed_window (sample_packet 0) SData handshake_done 0
    (recovery_new sample_config () 0, spaces_new 0) = (r, m)" by fastforce
  obtain lost r' m' where t: "on_loss_detection_timeout fixed_window SData handshake_done 2000000000 (r, m) = (lost, r', m')"
    by (rule prod_cases3)
  note facts = sample_sent_run [OF e]
  obtain lid where "get_loss_time_and_space SData m = (None, lid)"
    using no_loss_time [OF _ facts(5), of "(None, SInitial)"] by (metis fst_conv get_loss_time_and_space_def surj_pair)
  then have "rc_ack_eliciting_in_flight r' = 1"
    using t facts(2) by (auto simp: on_loss_detection_timeout_def Let_def split: option.splits)
  with timeout_rearms_timer [OF facts(1,4) _ _ t] e t show ?thesis by (simp add: handshake_done_def)
qed

end
