(* ===== verification/Path.thy ===== *)
theory Path
  imports Recovery Token
begin

text \<open>
  Paths of a connection (src/connection/path.rs): validation by PATH_CHALLENGE and PATH_RESPONSE frames, the
  limit on what a server sends before it has verified the address of its peer, and the map of paths. The slab of
  paths is a sorted association list from keys; the key that \<open>Slab::insert\<close> picks is an argument, of which is
  known that it is vacant. \<open>enable_dplpmtud\<close>, a field of the configuration, is an argument of \<open>path_new\<close>, as are the
  congestion controller and the time; \<open>Instant::now\<close> is an argument too. The opaque context of a path and the trace
  identifiers are left out. The shift by the number of lost challenges is below 64 as long as fewer are lost in a row.

  The facts at the end: the server does not amplify (\<open>amplification_bounded\<close>), challenges that are not answered
  make the validation fail in the end (\<open>validation_fails\<close>), the map finds a path under its addresses
  (\<open>insert_path_result\<close>), and a defect: any PATH_RESPONSE, for a challenge or
  not, marks the address of the peer as verified (\<open>unsolicited_response\<close>).
\<close>

section \<open>Paths\<close>

definition INITIAL_CHAL_TIMEOUT :: u64 where "INITIAL_CHAL_TIMEOUT = 25"
definition MAX_PROBING_TIMEOUTS :: nat where "MAX_PROBING_TIMEOUTS = 8"
definition MAX_PATH_CHALS_RECV :: nat where "MAX_PATH_CHALS_RECV = 8"
definition MIN_PATH_PROBE_SIZE :: nat where "MIN_PATH_PROBE_SIZE = 64"
definition MIN_CLIENT_INITIAL_LEN :: nat where "MIN_CLIENT_INITIAL_LEN = 1200"

datatype path_state = PathFailed | PathUnknown | PathValidating | PathValidatingMTU | PathValidated

text \<open>The derived order is that of the declaration.\<close>

fun path_rank :: "path_state \<Rightarrow> nat" where
  "path_rank PathFailed = 0"
| "path_rank PathUnknown = 1"
| "path_rank PathValidating = 2"
| "path_rank PathValidatingMTU = 3"
| "path_rank PathValidated = 4"

instantiation path_state :: linorder
begin

definition less_eq_path_state :: "path_state \<Rightarrow> path_state \<Rightarrow> bool" where
  "less_eq_path_state a b \<longleftrightarrow> path_rank a \<le> path_rank b"

definition less_path_state :: "path_state \<Rightarrow> path_state \<Rightarrow> bool" where
  "less_path_state a b \<longleftrightarrow> path_rank a < path_rank b"

instance
proof
  fix a b :: path_state
  show "a \<le> b \<Longrightarrow> b \<le> a \<Longrightarrow> a = b"
    by (cases a; cases b) (simp_all add: less_eq_path_state_def)
qed (auto simp: less_eq_path_state_def less_path_state_def)

end

text \<open>A challenge that was sent: its data, the size of its packet, when it was sent and when it counts as lost.\<close>

type_synonym sent_chal = "bytes \<times> nat \<times> nat \<times> nat"

record 'c path =
  pt_local_addr :: socket_addr
  pt_remote_addr :: socket_addr
  pt_scid_seq :: "u64 option"
  pt_dcid_seq :: "u64 option"
  pt_active :: bool
  pt_recovery :: "'c recovery"
  pt_state :: path_state
  pt_recv_chals :: "bytes list"
  pt_sent_chals :: "sent_chal list"
  pt_need_send_challenge :: bool
  pt_lost_chal :: nat
  pt_max_challenge_size :: nat
  pt_verified_peer_address :: bool
  pt_peer_verified_local_address :: bool
  pt_anti_ampl_limit :: nat
  pt_dplpmtud :: dplpmtud
  pt_need_send_ping :: bool
  pt_space_id :: space_id
  pt_is_abandon :: bool

text \<open>An address of 16 octets that is not an IPv4 address mapped into IPv6.\<close>

definition addr_is_ipv6 :: "socket_addr \<Rightarrow> bool" where
  "addr_is_ipv6 a \<longleftrightarrow> length (sa_octets a) = 16 \<and> take 12 (sa_octets a) \<noteq> replicate 10 0 @ [0xff, 0xff]"

definition path_new :: "socket_addr \<Rightarrow> socket_addr \<Rightarrow> bool \<Rightarrow> bool \<Rightarrow> recovery_config \<Rightarrow> 'c \<Rightarrow> nat \<Rightarrow> 'c path" where
  "path_new local_addr remote_addr is_initial enable_dplpmtud conf cc now =
     (let (state, scid_seq, dcid_seq) =
            (if is_initial then (PathValidated, Some 0, Some 0) else (PathUnknown, None, None))
      in \<lparr>pt_local_addr = local_addr, pt_remote_addr = remote_addr, pt_scid_seq = scid_seq, pt_dcid_seq = dcid_seq,
          pt_active = False, pt_recovery = recovery_new conf cc now, pt_state = state, pt_recv_chals = [],
          pt_sent_chals = [], pt_need_send_challenge = False, pt_lost_chal = 0, pt_max_challenge_size = 0,
          pt_verified_peer_address = False, pt_peer_verified_local_address = False, pt_anti_ampl_limit = 0,
          pt_dplpmtud = dplpmtud_new enable_dplpmtud (cf_max_datagram_size conf) (addr_is_ipv6 remote_addr),
          pt_need_send_ping = False, pt_space_id = SData, pt_is_abandon = False\<rparr>)"

definition path_chal_received :: "bytes \<Rightarrow> 'c path \<Rightarrow> 'c path" where
  "path_chal_received data p =
     (let chals = (if MAX_PATH_CHALS_RECV \<le> length (pt_recv_chals p) then tl (pt_recv_chals p) else pt_recv_chals p)
      in p\<lparr>pt_recv_chals := chals @ [data], pt_peer_verified_local_address := True\<rparr>)"

definition promote_to :: "path_state \<Rightarrow> 'c path \<Rightarrow> 'c path" where
  "promote_to state p = (if pt_state p < state then p\<lparr>pt_state := state\<rparr> else p)"

definition path_set_active :: "bool \<Rightarrow> 'c path \<Rightarrow> 'c path" where
  "path_set_active v p = p\<lparr>pt_active := v\<rparr>"

text \<open>The closure of \<open>retain\<close>, on the challenges from the front: those with other data stay, and each with this
  data leaves its size and sets the initial RTT.\<close>

fun answer_chals :: "bytes \<Rightarrow> nat \<Rightarrow> sent_chal list \<Rightarrow> nat \<times> rtt_estimator \<Rightarrow> sent_chal list \<times> nat \<times> rtt_estimator" where
  "answer_chals data now [] (sz, rtt) = ([], sz, rtt)"
| "answer_chals data now ((d, s, sent_time, lt) # cs) (sz, rtt) =
     (if d = data then answer_chals data now cs (s, try_set_init_rtt (now - sent_time) rtt)
      else let (cs', r) = answer_chals data now cs (sz, rtt) in ((d, s, sent_time, lt) # cs', r))"

definition path_resp_received :: "bytes \<Rightarrow> bool \<Rightarrow> nat \<Rightarrow> 'c path \<Rightarrow> bool \<times> 'c path" where
  "path_resp_received data multipath now p =
     (if pt_state p = PathValidated then (False, p)
      else
        let p = p\<lparr>pt_verified_peer_address := True, pt_lost_chal := 0\<rparr>;
            (chals, challenge_size, rtt) = answer_chals data now (pt_sent_chals p) (0, rc_rtt (pt_recovery p));
            p = p\<lparr>pt_sent_chals := chals, pt_recovery := (pt_recovery p)\<lparr>rc_rtt := rtt\<rparr>,
                  pt_max_challenge_size := max (pt_max_challenge_size p) challenge_size\<rparr>;
            p = promote_to PathValidatingMTU p
        in if MIN_CLIENT_INITIAL_LEN \<le> pt_max_challenge_size p
           then (True, (path_set_active multipath (promote_to PathValidated p))\<lparr>pt_sent_chals := []\<rparr>)
           else (False, p\<lparr>pt_need_send_challenge := True\<rparr>))"

definition pop_recv_chal :: "'c path \<Rightarrow> bytes option \<times> 'c path" where
  "pop_recv_chal p = (case pt_recv_chals p of [] \<Rightarrow> (None, p) | c # cs \<Rightarrow> (Some c, p\<lparr>pt_recv_chals := cs\<rparr>))"

definition path_chal_initiated :: "'c path \<Rightarrow> bool" where
  "path_chal_initiated p = pt_need_send_challenge p"

definition initiate_path_chal :: "'c path \<Rightarrow> 'c path" where
  "initiate_path_chal p = p\<lparr>pt_need_send_challenge := True\<rparr>"

definition path_chal_sent :: "bytes \<Rightarrow> nat \<Rightarrow> nat \<Rightarrow> 'c path \<Rightarrow> 'c path" where
  "path_chal_sent data pkt_size sent_time p =
     (let p = promote_to PathValidating p;
          loss_time = sent_time + unat (push_bit (pt_lost_chal p) INITIAL_CHAL_TIMEOUT) * 1000000
      in p\<lparr>pt_need_send_challenge := False,
           pt_sent_chals := pt_sent_chals p @ [(data, pkt_size, sent_time, loss_time)]\<rparr>)"

text \<open>The loop that removes lost challenges from the front.\<close>

fun chal_timeout_loop :: "nat \<Rightarrow> sent_chal list \<Rightarrow> 'c path \<Rightarrow> 'c path" where
  "chal_timeout_loop now [] p = p\<lparr>pt_sent_chals := []\<rparr>"
| "chal_timeout_loop now ((d, s, t, loss_time) # cs) p =
     (if now < loss_time then p\<lparr>pt_sent_chals := (d, s, t, loss_time) # cs\<rparr>
      else
        let p = p\<lparr>pt_sent_chals := cs, pt_lost_chal := pt_lost_chal p + 1\<rparr> in
        if pt_lost_chal p < MAX_PROBING_TIMEOUTS then chal_timeout_loop now cs (initiate_path_chal p)
        else p\<lparr>pt_state := PathFailed, pt_active := False, pt_sent_chals := []\<rparr>)"

definition path_chal_timeout :: "nat \<Rightarrow> 'c path \<Rightarrow> 'c path" where
  "path_chal_timeout now p =
     (if pt_state p \<noteq> PathValidating \<and> pt_state p \<noteq> PathValidatingMTU then p
      else chal_timeout_loop now (pt_sent_chals p) p)"

definition need_send_validation_frames :: "bool \<Rightarrow> 'c path \<Rightarrow> bool" where
  "need_send_validation_frames is_server p =
     (if is_server \<and> pt_anti_ampl_limit p < MIN_PATH_PROBE_SIZE then False
      else pt_need_send_challenge p \<or> pt_recv_chals p \<noteq> [])"

definition path_validated :: "'c path \<Rightarrow> bool" where
  "path_validated p \<longleftrightarrow> pt_state p = PathValidated"

definition need_expand_padding_frames :: "bool \<Rightarrow> 'c path \<Rightarrow> bool" where
  "need_expand_padding_frames is_server p =
     (if path_validated p then False
      else if is_server \<and> pt_anti_ampl_limit p \<le> rc_max_datagram_size (pt_recovery p) then False
      else True)"

definition path_active :: "'c path \<Rightarrow> bool" where
  "path_active p \<longleftrightarrow> pt_active p \<and> pt_dcid_seq p \<noteq> None"

definition path_unused :: "'c path \<Rightarrow> bool" where
  "path_unused p \<longleftrightarrow> \<not> pt_active p \<and> pt_dcid_seq p = None"

section \<open>The map of paths\<close>

record 'c path_map =
  pm_paths :: "(nat, 'c path) btree"
  pm_max_paths :: nat
  pm_addrs :: "socket_addr \<times> socket_addr \<rightharpoonup> nat"
  pm_anti_ampl_factor :: nat
  pm_is_multipath :: bool
  pm_is_server :: bool

abbreviation path_addrs :: "'c path \<Rightarrow> socket_addr \<times> socket_addr" where
  "path_addrs p \<equiv> (pt_local_addr p, pt_remote_addr p)"

definition paths_new :: "'c path \<Rightarrow> nat \<Rightarrow> nat \<Rightarrow> nat \<Rightarrow> bool \<Rightarrow> 'c path_map" where
  "paths_new initial_path key max_paths anti_ampl_factor is_server =
     \<lparr>pm_paths = [(key, initial_path\<lparr>pt_active := True\<rparr>)], pm_max_paths = max_paths,
      pm_addrs = [path_addrs initial_path \<mapsto> key], pm_anti_ampl_factor = anti_ampl_factor,
      pm_is_multipath = False, pm_is_server = is_server\<rparr>"

definition path_get :: "nat \<Rightarrow> 'c path_map \<Rightarrow> 'c path res" where
  "path_get pid m = (case map_of (pm_paths m) pid of Some p \<Rightarrow> Ok p | None \<Rightarrow> Err InternalError)"

text \<open>A change through \<open>get_mut\<close>; nothing happens when there is no such path.\<close>

definition path_update :: "nat \<Rightarrow> ('c path \<Rightarrow> 'c path) \<Rightarrow> 'c path_map \<Rightarrow> 'c path_map" where
  "path_update pid f m = m\<lparr>pm_paths := map (\<lambda>(k, p). (k, if k = pid then f p else p)) (pm_paths m)\<rparr>"

definition get_path_id :: "socket_addr \<times> socket_addr \<Rightarrow> 'c path_map \<Rightarrow> nat option" where
  "get_path_id addrs m = pm_addrs m addrs"

definition get_active_with_path_id :: "'c path_map \<Rightarrow> (nat \<times> 'c path) res" where
  "get_active_with_path_id m =
     (case List.find (\<lambda>(_, p). pt_active p) (pm_paths m) of Some r \<Rightarrow> Ok r | None \<Rightarrow> Err InternalError)"

text \<open>\<open>key\<close> is the vacant key that the slab picks.\<close>

definition insert_path :: "nat \<Rightarrow> 'c path \<Rightarrow> 'c path_map \<Rightarrow> nat res \<times> 'c path_map" where
  "insert_path key path m =
     (let evicted =
            (if pm_max_paths m \<le> length (pm_paths m)
             then case List.find (\<lambda>(_, p). path_unused p) (pm_paths m) of
                    None \<Rightarrow> None
                  | Some (pid, p) \<Rightarrow>
                      Some (m\<lparr>pm_paths := bt_remove pid (pm_paths m), pm_addrs := (pm_addrs m)(path_addrs p := None)\<rparr>)
             else Some m)
      in case evicted of
           None \<Rightarrow> (Err Done, m)
         | Some m \<Rightarrow>
             (Ok key, m\<lparr>pm_paths := bt_insert key path (pm_paths m), pm_addrs := (pm_addrs m)(path_addrs path \<mapsto> key)\<rparr>))"

definition paths_chal_received :: "nat \<Rightarrow> bytes \<Rightarrow> 'c path_map \<Rightarrow> 'c path_map" where
  "paths_chal_received pid data = path_update pid (path_chal_received data)"

definition paths_resp_received :: "nat \<Rightarrow> bytes \<Rightarrow> nat \<Rightarrow> 'c path_map \<Rightarrow> bool \<times> 'c path_map" where
  "paths_resp_received pid data now m =
     (case map_of (pm_paths m) pid of
        Some p \<Rightarrow>
          (let (r, p) = path_resp_received data (pm_is_multipath m) now p in (r, path_update pid (\<lambda>_. p) m))
      | None \<Rightarrow> (False, m))"

definition paths_chal_sent :: "nat \<Rightarrow> bytes \<Rightarrow> nat \<Rightarrow> nat \<Rightarrow> 'c path_map \<Rightarrow> unit res \<times> 'c path_map" where
  "paths_chal_sent pid data pkt_size sent_time m =
     (case path_get pid m of
        Ok _ \<Rightarrow> (Ok (), path_update pid (path_chal_sent data pkt_size sent_time) m)
      | Err e \<Rightarrow> (Err e, m)
      | Panic \<Rightarrow> (Panic, m))"

definition paths_chal_timeout :: "nat \<Rightarrow> 'c path_map \<Rightarrow> 'c path_map" where
  "paths_chal_timeout now m = m\<lparr>pm_paths := map (\<lambda>(k, p). (k, path_chal_timeout now p)) (pm_paths m)\<rparr>"

definition min_loss_detection_timer :: "'c path_map \<Rightarrow> nat option" where
  "min_loss_detection_timer m = min_opt (List.map_filter (\<lambda>(_, p). rc_loss_detection_timer (pt_recovery p)) (pm_paths m))"

definition min_pacer_timer :: "'c path_map \<Rightarrow> nat option" where
  "min_pacer_timer m = min_opt (List.map_filter (\<lambda>(_, p). rc_pacer_timer (pt_recovery p)) (pm_paths m))"

definition min_path_chal_timer :: "'c path_map \<Rightarrow> nat option" where
  "min_path_chal_timer m =
     min_opt (List.map_filter
       (\<lambda>(_, p). case pt_sent_chals p of [] \<Rightarrow> None | (_, _, _, loss_time) # _ \<Rightarrow> Some loss_time) (pm_paths m))"

definition paths_max_pto :: "'c path_map \<Rightarrow> nat option" where
  "paths_max_pto m =
     (case pm_paths m of
        [] \<Rightarrow> None
      | ps \<Rightarrow> Some (Max (set (map (\<lambda>(_, p). pto_base (rc_rtt (pt_recovery p))) ps))))"

definition usize_max :: nat where "usize_max = 2 ^ 64 - 1"

definition inc_anti_ampl_limit :: "nat \<Rightarrow> nat \<Rightarrow> 'c path_map \<Rightarrow> 'c path_map" where
  "inc_anti_ampl_limit pid pkt_len m =
     (if \<not> pm_is_server m then m
      else path_update pid (\<lambda>p.
        if \<not> pt_verified_peer_address p
        then let inc = min (pm_anti_ampl_factor m * pkt_len) usize_max
             in p\<lparr>pt_anti_ampl_limit := min (pt_anti_ampl_limit p + inc) usize_max\<rparr>
        else p) m)"

definition dec_anti_ampl_limit :: "nat \<Rightarrow> nat \<Rightarrow> 'c path_map \<Rightarrow> 'c path_map" where
  "dec_anti_ampl_limit pid pkt_len m =
     (if \<not> pm_is_server m then m
      else path_update pid (\<lambda>p.
        if \<not> pt_verified_peer_address p
        then p\<lparr>pt_anti_ampl_limit := pt_anti_ampl_limit p - pkt_len\<rparr> else p) m)"

definition cmp_anti_ampl_limit :: "nat \<Rightarrow> nat \<Rightarrow> 'c path_map \<Rightarrow> nat" where
  "cmp_anti_ampl_limit pid left m =
     (if \<not> pm_is_server m then left
      else case map_of (pm_paths m) pid of
        Some p \<Rightarrow> (if \<not> pt_verified_peer_address p then min left (pt_anti_ampl_limit p) else left)
      | None \<Rightarrow> left)"

definition set_ping :: "'c path \<Rightarrow> 'c path" where
  "set_ping p = p\<lparr>pt_need_send_ping := True\<rparr>"

definition mark_ping :: "(socket_addr \<times> socket_addr) option \<Rightarrow> 'c path_map \<Rightarrow> unit res \<times> 'c path_map" where
  "mark_ping path_addr m =
     (if \<not> pm_is_multipath m
      then case get_active_with_path_id m of
             Ok (pid, _) \<Rightarrow> (Ok (), path_update pid set_ping m)
           | Err e \<Rightarrow> (Err e, m)
           | Panic \<Rightarrow> (Panic, m)
      else case path_addr of
             Some a \<Rightarrow>
               (case get_path_id a m of
                  None \<Rightarrow> (Ok (), m)
                | Some pid \<Rightarrow>
                    (case path_get pid m of
                       Ok _ \<Rightarrow> (Ok (), path_update pid set_ping m)
                     | Err e \<Rightarrow> (Err e, m)
                     | Panic \<Rightarrow> (Panic, m)))
           | None \<Rightarrow>
               (Ok (), m\<lparr>pm_paths := map (\<lambda>(k, p). (k, if path_active p then set_ping p else p)) (pm_paths m)\<rparr>))"

definition enable_multipath :: "'c path_map \<Rightarrow> 'c path_map" where
  "enable_multipath m = m\<lparr>pm_is_multipath := True\<rparr>"

section \<open>Changes of one path\<close>

lemma map_of_path_update:
  "map_of (pm_paths (path_update pid f m)) k = (if k = pid then map_option f (map_of (pm_paths m) k) else map_of (pm_paths m) k)"
proof -
  have "map_of (map (\<lambda>(k, p). (k, if k = pid then f p else p)) xs) k =
      (if k = pid then map_option f (map_of xs k) else map_of xs k)" for xs
    by (induction xs) auto
  then show ?thesis by (simp add: path_update_def)
qed

lemma path_update_keeps [simp]:
  "pm_is_server (path_update pid f m) = pm_is_server m"
  "pm_anti_ampl_factor (path_update pid f m) = pm_anti_ampl_factor m"
  "pm_max_paths (path_update pid f m) = pm_max_paths m"
  "pm_addrs (path_update pid f m) = pm_addrs m"
  by (simp_all add: path_update_def)

section \<open>Validation\<close>

lemma answer_chals_sizes:
  "fst (answer_chals data now cs (sz, rtt)) = filter (\<lambda>c. fst c \<noteq> data) cs"
  "fst (snd (answer_chals data now cs (sz, rtt))) =
     last (sz # map (fst \<circ> snd) (filter (\<lambda>c. fst c = data) cs))"
  by (induction data now cs "(sz, rtt)" arbitrary: sz rtt rule: answer_chals.induct) (auto simp: Let_def split: prod.splits)

text \<open>A response validates the path exactly when a challenge of at least 1200 octets was answered, by this response
  or an earlier one, and never twice.\<close>

lemma validated_iff_large_challenge:
  "fst (path_resp_received data multipath now p) \<longleftrightarrow>
     pt_state p \<noteq> PathValidated \<and>
     MIN_CLIENT_INITIAL_LEN \<le> max (pt_max_challenge_size p)
       (last (0 # map (fst \<circ> snd) (filter (\<lambda>c. fst c = data) (pt_sent_chals p))))"
proof -
  obtain chals sz rtt where a: "answer_chals data now (pt_sent_chals p) (0, rc_rtt (pt_recovery p)) = (chals, sz, rtt)"
    by (metis prod_cases3)
  have s: "last (0 # map (fst \<circ> snd) (filter (\<lambda>c. fst c = data) (pt_sent_chals p))) = sz"
    using answer_chals_sizes(2) [of data now "pt_sent_chals p" 0 "rc_rtt (pt_recovery p)"] by (simp only: a fst_conv snd_conv)
  show ?thesis by (simp add: path_resp_received_def Let_def promote_to_def a s del: last.simps)
qed

text \<open>A response with data that no challenge carried: it validates nothing, and yet the address of the peer counts as
  verified from then on, so the limit on what is sent there is lifted.\<close>

lemma unsolicited_response:
  assumes "map_of (pm_paths m) pid = Some p" and "pt_state p \<noteq> PathValidated"
    and "data \<notin> fst ` set (pt_sent_chals p)" and "pt_max_challenge_size p < MIN_CLIENT_INITIAL_LEN"
  shows "paths_resp_received pid data now m =
      (False, path_update pid (\<lambda>_. (promote_to PathValidatingMTU (p\<lparr>pt_verified_peer_address := True,
         pt_lost_chal := 0\<rparr>))\<lparr>pt_need_send_challenge := True\<rparr>) m)"
    and "cmp_anti_ampl_limit pid left (snd (paths_resp_received pid data now m)) = left"
proof -
  have "answer_chals data now cs (sz, rtt) = (cs, sz, rtt)" if "data \<notin> fst ` set cs" for cs sz rtt
    using that by (induction data now cs "(sz, rtt)" rule: answer_chals.induct) auto
  then have a: "answer_chals data now (pt_sent_chals p) (0, rc_rtt (pt_recovery p)) =
      (pt_sent_chals p, 0, rc_rtt (pt_recovery p))"
    using assms(3) .
  have r: "path_resp_received data mp now p = (False, (promote_to PathValidatingMTU (p\<lparr>pt_verified_peer_address := True,
         pt_lost_chal := 0\<rparr>))\<lparr>pt_need_send_challenge := True\<rparr>)" for mp
    using assms(2,4) by (auto simp: path_resp_received_def a Let_def promote_to_def intro!: path.equality)
  show r': "paths_resp_received pid data now m =
      (False, path_update pid (\<lambda>_. (promote_to PathValidatingMTU (p\<lparr>pt_verified_peer_address := True,
         pt_lost_chal := 0\<rparr>))\<lparr>pt_need_send_challenge := True\<rparr>) m)"
    by (simp add: paths_resp_received_def assms(1) r)
  show "cmp_anti_ampl_limit pid left (snd (paths_resp_received pid data now m)) = left"
    by (auto simp: r' cmp_anti_ampl_limit_def map_of_path_update promote_to_def split: option.split)
qed

text \<open>What a timeout does to a path under validation: the challenges that are due are counted as lost and a new one is
  asked for, until eight in a row were lost: then the validation has failed.\<close>

definition chals_due :: "nat \<Rightarrow> sent_chal list \<Rightarrow> nat" where
  "chals_due now cs = length (takeWhile (\<lambda>(_, _, _, loss_time). loss_time \<le> now) cs)"

lemma chal_timeout_loop_exact:
  "chal_timeout_loop now cs p =
     (let n = chals_due now cs in
      if n = 0 then p\<lparr>pt_sent_chals := cs\<rparr>
      else if pt_lost_chal p + n < MAX_PROBING_TIMEOUTS
      then p\<lparr>pt_sent_chals := drop n cs, pt_lost_chal := pt_lost_chal p + n, pt_need_send_challenge := True\<rparr>
      else p\<lparr>pt_state := PathFailed, pt_active := False, pt_sent_chals := [],
             pt_lost_chal := max (Suc (pt_lost_chal p)) MAX_PROBING_TIMEOUTS,
             pt_need_send_challenge := pt_need_send_challenge p \<or> Suc (pt_lost_chal p) < MAX_PROBING_TIMEOUTS\<rparr>)"
proof (induction now cs p rule: chal_timeout_loop.induct)
  case (2 now d s t loss_time cs p)
  show ?case
  proof (cases "now < loss_time \<or> MAX_PROBING_TIMEOUTS \<le> Suc (pt_lost_chal p)")
    case True
    then show ?thesis by (auto simp: chals_due_def Let_def max_def)
  next
    case False
    let ?p = "initiate_path_chal (p\<lparr>pt_sent_chals := cs, pt_lost_chal := pt_lost_chal p + 1\<rparr>)"
    have "chal_timeout_loop now ((d, s, t, loss_time) # cs) p = chal_timeout_loop now cs ?p" using False by (simp add: Let_def)
    moreover have "chals_due now ((d, s, t, loss_time) # cs) = Suc (chals_due now cs)" using False by (simp add: chals_due_def)
    moreover have ih: "chal_timeout_loop now cs ?p = (let n = chals_due now cs in
      if n = 0 then ?p\<lparr>pt_sent_chals := cs\<rparr>
      else if pt_lost_chal ?p + n < MAX_PROBING_TIMEOUTS
      then ?p\<lparr>pt_sent_chals := drop n cs, pt_lost_chal := pt_lost_chal ?p + n, pt_need_send_challenge := True\<rparr>
      else ?p\<lparr>pt_state := PathFailed, pt_active := False, pt_sent_chals := [],
             pt_lost_chal := max (Suc (pt_lost_chal ?p)) MAX_PROBING_TIMEOUTS,
             pt_need_send_challenge := pt_need_send_challenge ?p \<or> Suc (pt_lost_chal ?p) < MAX_PROBING_TIMEOUTS\<rparr>)"
      using False by (intro 2) auto
    ultimately show ?thesis using False by (auto simp: Let_def initiate_path_chal_def)
  qed
qed (simp add: chals_due_def)

lemma validation_fails:
  assumes "pt_state p \<in> {PathValidating, PathValidatingMTU}"
  shows "pt_state (path_chal_timeout now p) = PathFailed \<longleftrightarrow>
    chals_due now (pt_sent_chals p) \<noteq> 0 \<and> MAX_PROBING_TIMEOUTS \<le> pt_lost_chal p + chals_due now (pt_sent_chals p)"
  using assms by (auto simp: path_chal_timeout_def chal_timeout_loop_exact Let_def)

section \<open>Amplification\<close>

text \<open>What happens on the paths of a server, as far as path \<open>pid\<close> is concerned: \<open>r\<close> octets were received there and
  \<open>s\<close> octets were sent, each packet of a size that \<open>cmp_anti_ampl_limit\<close> allowed. No response arrived there.\<close>

inductive amp_run :: "nat \<Rightarrow> 'c path_map \<Rightarrow> nat \<Rightarrow> nat \<Rightarrow> 'c path_map \<Rightarrow> bool" for pid m0 where
  start: "amp_run pid m0 0 0 m0"
| received: "amp_run pid m0 r s m \<Longrightarrow> amp_run pid m0 (r + n) s (inc_anti_ampl_limit pid n m)"
| sent: "amp_run pid m0 r s m \<Longrightarrow> n \<le> cmp_anti_ampl_limit pid left m \<Longrightarrow>
    amp_run pid m0 r (s + n) (dec_anti_ampl_limit pid n m)"
| received_other: "amp_run pid m0 r s m \<Longrightarrow> q \<noteq> pid \<Longrightarrow> amp_run pid m0 r s (inc_anti_ampl_limit q n m)"
| sent_other: "amp_run pid m0 r s m \<Longrightarrow> q \<noteq> pid \<Longrightarrow> amp_run pid m0 r s (dec_anti_ampl_limit q n m)"
| response_other: "amp_run pid m0 r s m \<Longrightarrow> q \<noteq> pid \<Longrightarrow> amp_run pid m0 r s (snd (paths_resp_received q data now m))"
| challenged: "amp_run pid m0 r s m \<Longrightarrow> amp_run pid m0 r s (paths_chal_received q data m)"
| challenge_sent: "amp_run pid m0 r s m \<Longrightarrow> amp_run pid m0 r s (snd (paths_chal_sent q data n now m))"
| timed_out: "amp_run pid m0 r s m \<Longrightarrow> amp_run pid m0 r s (paths_chal_timeout now m)"
| pinged: "amp_run pid m0 r s m \<Longrightarrow> amp_run pid m0 r s (snd (mark_ping addr m))"
| multipath: "amp_run pid m0 r s m \<Longrightarrow> amp_run pid m0 r s (enable_multipath m)"

text \<open>The part of the state that bounds the octets sent.\<close>

definition amp_view :: "nat \<Rightarrow> 'c path_map \<Rightarrow> bool \<times> nat \<times> (bool \<times> nat) option" where
  "amp_view pid m = (pm_is_server m, pm_anti_ampl_factor m,
     map_option (\<lambda>p. (pt_verified_peer_address p, pt_anti_ampl_limit p)) (map_of (pm_paths m) pid))"

lemma amp_view_update:
  assumes "q = pid \<Longrightarrow> (\<And>p. map_of (pm_paths m) pid = Some p \<Longrightarrow>
    pt_verified_peer_address (f p) = pt_verified_peer_address p \<and> pt_anti_ampl_limit (f p) = pt_anti_ampl_limit p)"
  shows "amp_view pid (path_update q f m) = amp_view pid m"
  using assms by (cases "map_of (pm_paths m) pid") (auto simp: amp_view_def map_of_path_update)

lemma amp_view_all:
  assumes "\<And>p. pt_verified_peer_address (f p) = pt_verified_peer_address p \<and> pt_anti_ampl_limit (f p) = pt_anti_ampl_limit p"
  shows "amp_view pid (m\<lparr>pm_paths := map (\<lambda>(k, p). (k, f p)) (pm_paths m)\<rparr>) = amp_view pid m"
proof -
  have "map_of (map (\<lambda>(k, p). (k, f p)) xs) pid = map_option f (map_of xs pid)" for xs
    by (induction xs) auto
  then show ?thesis using assms by (simp add: amp_view_def option.map_comp comp_def)
qed

lemma amp_view_keeps [simp]:
  "q \<noteq> pid \<Longrightarrow> amp_view pid (inc_anti_ampl_limit q n m) = amp_view pid m"
  "q \<noteq> pid \<Longrightarrow> amp_view pid (dec_anti_ampl_limit q n m) = amp_view pid m"
  "q \<noteq> pid \<Longrightarrow> amp_view pid (snd (paths_resp_received q data now m)) = amp_view pid m"
  "amp_view pid (paths_chal_received q data m) = amp_view pid m"
  "amp_view pid (snd (paths_chal_sent q data n now m)) = amp_view pid m"
  "amp_view pid (paths_chal_timeout now m) = amp_view pid m"
  "amp_view pid (snd (mark_ping addr m)) = amp_view pid m"
  "amp_view pid (enable_multipath m) = amp_view pid m"
  by (auto simp: inc_anti_ampl_limit_def dec_anti_ampl_limit_def paths_resp_received_def paths_chal_received_def
      path_chal_received_def paths_chal_sent_def path_chal_sent_def promote_to_def paths_chal_timeout_def
      path_chal_timeout_def chal_timeout_loop_exact mark_ping_def set_ping_def amp_view_update amp_view_all Let_def
      split: result.split option.split prod.split)
    (simp_all add: amp_view_def enable_multipath_def)

text \<open>A server sends to an address that is not verified at most \<open>anti_ampl_factor\<close> times what it received from there,
  besides the limit the path began with.\<close>

lemma amp_bounded_run:
  assumes "amp_run pid m0 r s m" and "amp_view pid m0 = (True, k, Some (False, l))"
  shows "\<exists>l'. amp_view pid m = (True, k, Some (False, l')) \<and> s + l' \<le> l + k * r"
  using assms
proof induction
  case (received r s m n)
  then obtain l' where "amp_view pid m = (True, k, Some (False, l'))" "s + l' \<le> l + k * r" by blast
  then show ?case
    by (auto simp: amp_view_def inc_anti_ampl_limit_def map_of_path_update Let_def algebra_simps
        intro!: exI [of _ "min (l' + min (k * n) usize_max) usize_max"] split: if_splits)
next
  case (sent r s m n left)
  then obtain l' where "amp_view pid m = (True, k, Some (False, l'))" "s + l' \<le> l + k * r" by blast
  with sent.hyps(2) show ?case
    by (auto simp: amp_view_def dec_anti_ampl_limit_def cmp_anti_ampl_limit_def map_of_path_update
        intro!: exI [of _ "l' - n"] split: if_splits)
qed auto

theorem amplification_bounded:
  assumes "amp_run pid m0 r s m" and "pm_is_server m0" and "map_of (pm_paths m0) pid = Some p"
    and "\<not> pt_verified_peer_address p"
  shows "s \<le> pt_anti_ampl_limit p + pm_anti_ampl_factor m0 * r"
  using amp_bounded_run [OF assms(1), of "pm_anti_ampl_factor m0" "pt_anti_ampl_limit p"] assms(2-)
  by (auto simp: amp_view_def)

section \<open>The map\<close>

definition paths_ok :: "'c path_map \<Rightarrow> bool" where
  "paths_ok m \<longleftrightarrow> bt_wf (pm_paths m) \<and> length (pm_paths m) \<le> pm_max_paths m \<and>
     (\<forall>a pid. pm_addrs m a = Some pid \<longleftrightarrow> (\<exists>p. (pid, p) \<in> set (pm_paths m) \<and> path_addrs p = a))"

lemma paths_new_ok: "0 < max_paths \<Longrightarrow> paths_ok (paths_new p key max_paths factor is_server)"
  by (auto simp: paths_ok_def paths_new_def bt_wf_def)

lemma paths_remove_ok:
  assumes "paths_ok m" and "(pid, p) \<in> set (pm_paths m)"
  shows "paths_ok (m\<lparr>pm_paths := bt_remove pid (pm_paths m), pm_addrs := (pm_addrs m)(path_addrs p := None)\<rparr>)"
    and "length (bt_remove pid (pm_paths m)) < length (pm_paths m)"
proof -
  note wf = assms(1) [unfolded paths_ok_def]
  show l: "length (bt_remove pid (pm_paths m)) < length (pm_paths m)"
    unfolding bt_remove_def using assms(2) by (intro length_filter_less) auto
  have "(pid', q) \<in> set (bt_remove pid (pm_paths m)) \<longleftrightarrow> (pid', q) \<in> set (pm_paths m) \<and> path_addrs q \<noteq> path_addrs p" for pid' q
  proof -
    have "pid' = pid" if "(pid', q) \<in> set (pm_paths m)" "path_addrs q = path_addrs p"
      using wf that assms(2) by (metis option.inject)
    moreover have "q = p" if "(pid, q) \<in> set (pm_paths m)" using wf that assms(2) bt_wf_functional by metis
    ultimately show ?thesis by (auto simp: bt_remove_def)
  qed
  moreover have "bt_wf (bt_remove pid (pm_paths m))" using wf by (simp add: bt_remove_def bt_wf_filter)
  ultimately show "paths_ok (m\<lparr>pm_paths := bt_remove pid (pm_paths m), pm_addrs := (pm_addrs m)(path_addrs p := None)\<rparr>)"
    using wf l by (auto simp: paths_ok_def)
qed

lemma paths_add_ok:
  assumes "paths_ok m" and "length (pm_paths m) < pm_max_paths m" and "key \<notin> fst ` set (pm_paths m)"
    and "pm_addrs m (path_addrs path) = None"
  shows "paths_ok (m\<lparr>pm_paths := bt_insert key path (pm_paths m), pm_addrs := (pm_addrs m)(path_addrs path \<mapsto> key)\<rparr>)"
proof -
  note wf = assms(1) [unfolded paths_ok_def]
  have s: "set (bt_insert key path (pm_paths m)) = insert (key, path) (set (pm_paths m))"
    using wf assms(3) by (auto simp: set_bt_insert image_iff)
  have n: "(pid, q) \<notin> set (pm_paths m)" if "path_addrs q = path_addrs path" for pid q
    using wf assms(4) that by (metis option.distinct(1))
  have "length (bt_insert key path (pm_paths m)) \<le> pm_max_paths m"
    using length_bt_insert_le [of key path "pm_paths m"] assms(2) by linarith
  then show ?thesis using wf n by (auto simp: paths_ok_def s bt_wf_insert)
qed

text \<open>Inserting a path with new addresses: it is refused only when the map is full of paths that are in use, and
  otherwise found under its addresses; at most one path is given up, an unused one.\<close>

lemma insert_path_result:
  assumes "paths_ok m" and "pm_addrs m (path_addrs path) = None"
    and vacant: "\<And>p. (key, p) \<in> set (pm_paths m) \<Longrightarrow> pm_max_paths m \<le> length (pm_paths m) \<and>
      (\<exists>q. List.find (\<lambda>(_, p). path_unused p) (pm_paths m) = Some (key, q))"
  shows "(case insert_path key path m of
      (Ok pid, m') \<Rightarrow> pid = key \<and> paths_ok m' \<and> get_path_id (path_addrs path) m' = Some key \<and>
        (\<forall>(k, p) \<in> set (pm_paths m). (k, p) \<in> set (pm_paths m') \<or> path_unused p)
    | (Err e, m') \<Rightarrow> e = Done \<and> m' = m \<and> length (pm_paths m) = pm_max_paths m \<and>
        (\<forall>(k, p) \<in> set (pm_paths m). \<not> path_unused p)
    | (Panic, _) \<Rightarrow> False)"
proof (cases "pm_max_paths m \<le> length (pm_paths m)")
  case False
  then have k: "key \<notin> fst ` set (pm_paths m)" using vacant by auto
  have ok: "paths_ok (m\<lparr>pm_paths := bt_insert key path (pm_paths m), pm_addrs := (pm_addrs m)(path_addrs path \<mapsto> key)\<rparr>)"
    using False by (intro paths_add_ok assms(1,2) k) simp
  have "set (pm_paths m) \<subseteq> set (bt_insert key path (pm_paths m))"
    using k assms(1) by (auto simp: paths_ok_def set_bt_insert image_iff)
  with ok False show ?thesis by (auto simp: insert_path_def get_path_id_def)
next
  case full: True
  show ?thesis
  proof (cases "List.find (\<lambda>(_, p). path_unused p) (pm_paths m)")
    case None
    then have "insert_path key path m = (Err Done, m)" using full by (simp add: insert_path_def)
    then show ?thesis using None full assms(1) by (auto simp: find_None_iff paths_ok_def)
  next
    case (Some r)
    obtain pid p where r: "r = (pid, p)" by fastforce
    have p: "(pid, p) \<in> set (pm_paths m)" "path_unused p" using Some r by (auto simp: find_Some_iff) (metis nth_mem)
    define m' where "m' = m\<lparr>pm_paths := bt_remove pid (pm_paths m), pm_addrs := (pm_addrs m)(path_addrs p := None)\<rparr>"
    have m': "paths_ok m'" "length (pm_paths m') < pm_max_paths m'"
      using paths_remove_ok [OF assms(1) p(1)] assms(1) by (auto simp: m'_def paths_ok_def)
    have "key \<notin> fst ` set (pm_paths m')" using vacant Some r by (auto simp: m'_def bt_remove_def)
    moreover have "pm_addrs m' (path_addrs path) = None" using assms(2) by (simp add: m'_def)
    ultimately have ok: "paths_ok (m'\<lparr>pm_paths := bt_insert key path (pm_paths m'), pm_addrs := (pm_addrs m')(path_addrs path \<mapsto> key)\<rparr>)"
      using m' by (intro paths_add_ok)
    have i: "insert_path key path m = (Ok key, m'\<lparr>pm_paths := bt_insert key path (pm_paths m'), pm_addrs := (pm_addrs m')(path_addrs path \<mapsto> key)\<rparr>)"
      using full Some r by (simp add: insert_path_def m'_def)
    have "(k, q) \<in> set (bt_insert key path (pm_paths m')) \<or> path_unused q" if "(k, q) \<in> set (pm_paths m)" for k q
    proof (cases "k = pid")
      case True
      with that p assms(1) show ?thesis by (auto simp: paths_ok_def dest: bt_wf_functional)
    next
      case False
      then have "(k, q) \<in> set (pm_paths m')" using that by (simp add: m'_def bt_remove_def)
      moreover from this \<open>key \<notin> fst ` set (pm_paths m')\<close> have "k \<noteq> key" by force
      ultimately show ?thesis using m'(1) by (simp add: paths_ok_def set_bt_insert)
    qed
    then show ?thesis using ok by (auto simp: i get_path_id_def)
  qed
qed

end
