(* ===== verification/H3_Error.thy ===== *)
theory H3_Error
  imports Codec
begin

text \<open>
  The HTTP/3 error type (src/h3/error.rs): the enumeration, its wire value, its C error number, and
  the conversion of transport errors that the question mark operator inserts in HTTP/3 code. Also
  here: byte string literals and the ASCII lower case of the standard library.
\<close>

datatype http3_error =
    H3_NoError
  | H3_GeneralProtocolError
  | H3_InternalError
  | H3_StreamCreationError
  | H3_ClosedCriticalStream
  | H3_FrameUnexpected
  | H3_FrameError
  | H3_ExcessiveLoad
  | H3_IdError
  | H3_SettingsError
  | H3_MissingSettings
  | H3_RequestRejected
  | H3_RequestCancelled
  | H3_RequestIncomplete
  | H3_MessageError
  | H3_ConnectError
  | H3_VersionFallback
  | H3_QpackDecompressionFailed
  | H3_QpackEncoderStreamError
  | H3_QpackDecoderStreamError
  | H3_TransportError error
  | H3_StreamBlocked
  | H3_Done

type_synonym 'a h3_res = "('a, http3_error) result"

fun h3_to_wire :: "http3_error \<Rightarrow> u64" where
  "h3_to_wire H3_NoError = 0x100"
| "h3_to_wire H3_GeneralProtocolError = 0x101"
| "h3_to_wire H3_InternalError = 0x102"
| "h3_to_wire H3_StreamCreationError = 0x103"
| "h3_to_wire H3_ClosedCriticalStream = 0x104"
| "h3_to_wire H3_FrameUnexpected = 0x105"
| "h3_to_wire H3_FrameError = 0x106"
| "h3_to_wire H3_ExcessiveLoad = 0x107"
| "h3_to_wire H3_IdError = 0x108"
| "h3_to_wire H3_SettingsError = 0x109"
| "h3_to_wire H3_MissingSettings = 0x10A"
| "h3_to_wire H3_RequestRejected = 0x10B"
| "h3_to_wire H3_RequestCancelled = 0x10C"
| "h3_to_wire H3_RequestIncomplete = 0x10D"
| "h3_to_wire H3_MessageError = 0x10E"
| "h3_to_wire H3_ConnectError = 0x10F"
| "h3_to_wire H3_VersionFallback = 0x110"
| "h3_to_wire H3_QpackDecompressionFailed = 0x200"
| "h3_to_wire H3_QpackEncoderStreamError = 0x201"
| "h3_to_wire H3_QpackDecoderStreamError = 0x202"
| "h3_to_wire (H3_TransportError _) = 0x102"
| "h3_to_wire H3_StreamBlocked = 0x102"
| "h3_to_wire H3_Done = 0x102"

fun h3_to_errno :: "http3_error \<Rightarrow> int" where
  "h3_to_errno H3_NoError = 0"
| "h3_to_errno H3_Done = - 1"
| "h3_to_errno H3_GeneralProtocolError = - 2"
| "h3_to_errno H3_InternalError = - 3"
| "h3_to_errno H3_StreamCreationError = - 4"
| "h3_to_errno H3_ClosedCriticalStream = - 5"
| "h3_to_errno H3_FrameUnexpected = - 6"
| "h3_to_errno H3_FrameError = - 7"
| "h3_to_errno H3_ExcessiveLoad = - 8"
| "h3_to_errno H3_IdError = - 9"
| "h3_to_errno H3_SettingsError = - 10"
| "h3_to_errno H3_MissingSettings = - 11"
| "h3_to_errno H3_StreamBlocked = - 13"
| "h3_to_errno H3_RequestRejected = - 14"
| "h3_to_errno H3_RequestCancelled = - 15"
| "h3_to_errno H3_RequestIncomplete = - 16"
| "h3_to_errno H3_MessageError = - 17"
| "h3_to_errno H3_ConnectError = - 18"
| "h3_to_errno H3_VersionFallback = - 19"
| "h3_to_errno H3_QpackDecompressionFailed = - 20"
| "h3_to_errno H3_QpackEncoderStreamError = - 21"
| "h3_to_errno H3_QpackDecoderStreamError = - 22"
| "h3_to_errno (H3_TransportError e) = error_to_errno e - 1000"

fun h3_from :: "error \<Rightarrow> http3_error" where
  "h3_from Done = H3_Done"
| "h3_from e = H3_TransportError e"

subsection \<open>Byte strings\<close>

text \<open>A byte string literal, \<open>u8::to_ascii_lowercase\<close>, and its lift to byte strings.\<close>

definition bstr :: "string \<Rightarrow> bytes" where
  "bstr s = map of_char s"

definition to_ascii_lowercase :: "u8 \<Rightarrow> u8" where
  "to_ascii_lowercase b = (if 65 \<le> b \<and> b \<le> 90 then b + 32 else b)"

abbreviation lowercase :: "bytes \<Rightarrow> bytes" where
  "lowercase s \<equiv> map to_ascii_lowercase s"

definition eq_ignore_ascii_case :: "bytes \<Rightarrow> bytes \<Rightarrow> bool" where
  "eq_ignore_ascii_case a b \<longleftrightarrow> lowercase a = lowercase b"

subsection \<open>Writers\<close>

lemma h3_from_BufferTooShort [simp]: "h3_from BufferTooShort = H3_TransportError BufferTooShort"
  by simp

lemma emits_h3:
  "emits BufferTooShort f bs \<Longrightarrow>
   emits (H3_TransportError BufferTooShort) (\<lambda>w. map_err h3_from (f w)) bs"
  by (simp add: emits_def)

text \<open>Every error but \<open>NoError\<close> is negative for a C caller, and the number tells the errors apart,
  whether they come from HTTP/3 or from the transport below it.\<close>

lemma h3_errno_neg: "h3_to_errno e \<le> 0" "h3_to_errno e = 0 \<longleftrightarrow> e = H3_NoError"
proof -
  have "error_to_errno t \<le> 0" for t by (cases t) auto
  then show "h3_to_errno e \<le> 0" "h3_to_errno e = 0 \<longleftrightarrow> e = H3_NoError"
    by (cases e; simp; smt (verit, best))+
qed

text \<open>\<open>off += f(&mut out[off..])?\<close> over a run of writers.\<close>

fun write_sum :: "'e writer list \<Rightarrow> 'e writer" where
  "write_sum [] w = Ok (0, w)"
| "write_sum (f # fs) w =
     bind_r (f w) (\<lambda>(n, w). bind_r (write_sum fs w) (\<lambda>(m, w). Ok (n + m, w)))"

lemma emits_write_sum: "list_all2 (emits e) fs bss \<Longrightarrow> emits e (write_sum fs) (concat bss)"
proof (induction rule: list_all2_induct)
  case Nil
  then show ?case by (simp add: emits_def)
next
  case (Cons f fs bs bss)
  then show ?case by (auto simp: emits_def put_slice_append)
qed

definition checked_sub :: "'a::len word \<Rightarrow> 'a word \<Rightarrow> 'a word option" where
  "checked_sub a b = (if b \<le> a then Some (a - b) else None)"

lemma write_u8_h3:
  "map_err h3_from (write_u8 b buf) =
     (if 1 \<le> room buf then Ok (1, put_slice [b] buf) else Err (H3_TransportError BufferTooShort))"
  by (simp add: write_u8_def put_slice_def)

end
