(* ===== verification/H3_Huffman.thy ===== *)
theory H3_Huffman
  imports H3_Huffman_Table H3_Error Codec
begin

text \<open>
  The Huffman coder of QPACK strings (src/h3/qpack/huffman.rs). The encoder shifts codes into a 64-bit
  window and writes full octets; the decoder steps through its table with four bits at a time.

  The encoder is shown to append the codes of the bytes, packed into octets and filled up with ones
  (\<open>huffman_encode_emits\<close>). The decoder is shown to walk the code tree bit by bit
  (\<open>huffman_decode_run\<close>), and so to accept exactly what the encoder produces
  (\<open>huffman_decode_iff\<close>).
\<close>

unbundle bit_operations_syntax

section \<open>The coder\<close>

definition FLAG_MAYBE_EOS :: u8 where "FLAG_MAYBE_EOS = 1"
definition FLAG_DECODED :: u8 where "FLAG_DECODED = 2"
definition FLAG_ERROR :: u8 where "FLAG_ERROR = 4"

text \<open>The inner loop of the encoder: write the full octets of the window.\<close>

fun output_bits :: "u64 \<Rightarrow> nat \<Rightarrow> wbuf \<Rightarrow> (u64 \<times> nat \<times> wbuf) h3_res" where
  "output_bits bits_win bits_used buf =
     (if 8 \<le> bits_used
      then bind_r (map_err h3_from (write_u8 (ucast (drop_bit 56 bits_win)) buf))
             (\<lambda>(_, buf). output_bits (push_bit 8 bits_win) (bits_used - 8) buf)
      else Ok (bits_win, bits_used, buf))"

declare output_bits.simps [simp del]

definition huff_symbol :: "bool \<Rightarrow> u8 \<Rightarrow> u8" where
  "huff_symbol lower byte = (if lower then to_ascii_lowercase byte else byte)"

text \<open>A window overrun would be a subtraction underflow; it does not happen, by \<open>packs_loop\<close> below.\<close>

fun huffman_encode_loop :: "bytes \<Rightarrow> bool \<Rightarrow> u64 \<Rightarrow> nat \<Rightarrow> wbuf \<Rightarrow> (u64 \<times> nat \<times> wbuf) h3_res" where
  "huffman_encode_loop [] lower bits_win bits_used buf = Ok (bits_win, bits_used, buf)"
| "huffman_encode_loop (byte # src) lower bits_win bits_used buf =
     (let (nbits, code) = ENCODE_TABLE ! unat (huff_symbol lower byte) in
      if 64 < bits_used + nbits then Panic
      else
        bind_r (output_bits (bits_win OR push_bit (64 - bits_used - nbits) code) (bits_used + nbits) buf)
          (\<lambda>(bits_win, bits_used, buf). huffman_encode_loop src lower bits_win bits_used buf))"

definition huffman_encode :: "bytes \<Rightarrow> bool \<Rightarrow> http3_error writer" where
  "huffman_encode src lower buf0 =
     bind_r (huffman_encode_loop src lower 0 0 buf0) (\<lambda>(bits_win, bits_used, buf).
       bind_r
         (if bits_used \<noteq> 0
          then bind_r (map_err h3_from
                 (write_u8 (ucast (drop_bit 56 (bits_win OR (push_bit (64 - bits_used) 1 - 1)))) buf))
                 (\<lambda>(_, buf). Ok buf)
          else Ok buf)
         (\<lambda>buf. Ok (room buf0 - room buf, buf)))"

definition encode_output_length :: "bytes \<Rightarrow> bool \<Rightarrow> nat" where
  "encode_output_length src low =
     (let bits = foldl (\<lambda>bits b. bits + fst (ENCODE_TABLE ! unat (huff_symbol low b))) 0 src;
          len = bits div 8
      in if bits AND 7 \<noteq> 0 then len + 1 else len)"

record huffman_decoder =
  hd_state :: nat
  maybe_eos :: bool

definition huffman_decoder_new :: huffman_decoder where
  "huffman_decoder_new = \<lparr>hd_state = 0, maybe_eos = False\<rparr>"

definition flags_contain :: "u8 \<Rightarrow> u8 \<Rightarrow> bool" where
  "flags_contain flags flag \<longleftrightarrow> flags AND flag = flag"

definition decode4 :: "u8 \<Rightarrow> (u8 option, http3_error, huffman_decoder) meth" where
  "decode4 input d =
     (if \<not> (hd_state d < length DECODE_TABLE \<and> unat input < length (DECODE_TABLE ! hd_state d))
      then (Panic, d)
      else
        let (nxt, byte, flags) = DECODE_TABLE ! hd_state d ! unat input in
        if flags_contain flags FLAG_ERROR then (Err H3_QpackDecompressionFailed, d)
        else
          (Ok (if flags_contain flags FLAG_DECODED then Some byte else None),
           d\<lparr>hd_state := nxt, maybe_eos := flags_contain flags FLAG_MAYBE_EOS\<rparr>))"

definition huff_is_final :: "huffman_decoder \<Rightarrow> bool" where
  "huff_is_final d \<longleftrightarrow> hd_state d = 0 \<or> maybe_eos d"

definition push_opt :: "bytes \<Rightarrow> u8 option \<Rightarrow> bytes" where
  "push_opt out r = (case r of Some b \<Rightarrow> out @ [b] | None \<Rightarrow> out)"

fun huffman_decode_loop :: "bytes \<Rightarrow> bytes \<Rightarrow> (bytes, http3_error, huffman_decoder) meth" where
  "huffman_decode_loop [] out = (\<lambda>d. (Ok out, d))"
| "huffman_decode_loop (byte # buf) out =
     bind_s (decode4 (drop_bit 4 byte)) (\<lambda>r.
       let out = push_opt out r in
       bind_s (decode4 (byte AND 0xf)) (\<lambda>r.
         huffman_decode_loop buf (push_opt out r)))"

definition huffman_decode :: "bytes \<Rightarrow> bytes h3_res" where
  "huffman_decode buf =
     (case huffman_decode_loop buf [] huffman_decoder_new of
        (Ok out, d) \<Rightarrow> if huff_is_final d then Ok out else Err H3_QpackDecompressionFailed
      | (Err e, d) \<Rightarrow> Err e
      | (Panic, d) \<Rightarrow> Panic)"

section \<open>What the encoder appends\<close>

lemma length_msb_bits [simp]: "length (msb_bits n c) = n" by (induction n) auto

lemma nth_msb_bits [simp]: "i < n \<Longrightarrow> msb_bits n c ! i = bit c (n - Suc i)"
  by (induction n arbitrary: i) (auto simp: nth_Cons split: nat.split)

definition of_msb_bits :: "bool list \<Rightarrow> u8" where
  "of_msb_bits bs = horner_sum of_bool 2 (rev bs)"

lemma bit_of_msb_bits: "length bs \<le> 8 \<Longrightarrow> bit (of_msb_bits bs) i \<longleftrightarrow> i < length bs \<and> bs ! (length bs - Suc i)"
  by (auto simp: of_msb_bits_def bit_horner_sum_bit_word_iff rev_nth)

fun full_bytes :: "bool list \<Rightarrow> bytes" where
  "full_bytes bs = (if length bs < 8 then [] else of_msb_bits (take 8 bs) # full_bytes (drop 8 bs))"

fun rest_bits :: "bool list \<Rightarrow> bool list" where
  "rest_bits bs = (if length bs < 8 then bs else rest_bits (drop 8 bs))"

declare full_bytes.simps [simp del] rest_bits.simps [simp del]

definition pack_bits :: "bool list \<Rightarrow> bytes" where
  "pack_bits bs = full_bytes bs @
     (case rest_bits bs of [] \<Rightarrow> [] | r \<Rightarrow> [of_msb_bits (r @ replicate (8 - length r) True)])"

lemma full_bytes_short [simp]: "length bs < 8 \<Longrightarrow> full_bytes bs = []" "length bs < 8 \<Longrightarrow> rest_bits bs = bs"
  by (simp_all add: full_bytes.simps rest_bits.simps)

lemma full_bytes_long:
  "8 \<le> length bs \<Longrightarrow> full_bytes bs = of_msb_bits (take 8 bs) # full_bytes (drop 8 bs)"
  "8 \<le> length bs \<Longrightarrow> rest_bits bs = rest_bits (drop 8 bs)"
  by (subst full_bytes.simps rest_bits.simps, simp)+

lemma length_rest_bits: "length (rest_bits bs) < 8"
  by (induction bs rule: rest_bits.induct) (subst rest_bits.simps, auto)

lemma full_bytes_append:
  "full_bytes (p @ c) = full_bytes p @ full_bytes (rest_bits p @ c)"
  "rest_bits (p @ c) = rest_bits (rest_bits p @ c)"
proof (induction p rule: full_bytes.induct)
  case (1 bs)
  { case 1 then show ?case using "1.IH"(1) by (cases "length bs < 8") (auto simp: full_bytes_long) }
  { case 2 then show ?case using "1.IH"(2) by (cases "length bs < 8") (auto simp: full_bytes_long) }
qed

definition code_bits :: "u8 \<Rightarrow> bool list" where
  "code_bits a = (let (n, c) = ENCODE_TABLE ! unat a in msb_bits n c)"

definition huff_bits :: "bytes \<Rightarrow> bool list" where
  "huff_bits s = concat (map code_bits s)"

text \<open>The window holds the bits \<open>p\<close> at its top and zeros below.\<close>

definition window_holds :: "u64 \<Rightarrow> bool list \<Rightarrow> bool" where
  "window_holds w p \<longleftrightarrow> length p \<le> 64 \<and> (\<forall>i < 64. bit w i \<longleftrightarrow> 63 - i < length p \<and> p ! (63 - i))"

lemma window_append:
  assumes "window_holds w p" and "length p + n \<le> 64" and "unat c < 2 ^ n"
  shows "window_holds (w OR push_bit (64 - length p - n) c) (p @ msb_bits n c)"
proof -
  have c: "bit c i \<Longrightarrow> i < n" for i using bit_lt [OF assms(3)] .
  have "bit (w OR push_bit (64 - length p - n) c) i \<longleftrightarrow>
      63 - i < length (p @ msb_bits n c) \<and> (p @ msb_bits n c) ! (63 - i)" if i: "i < 64" for i
  proof (cases "63 - i < length p")
    case True
    with i assms(2) have "\<not> bit c (i - (64 - length p - n))" by (intro notI) (drule c, simp)
    with True i assms(1) show ?thesis by (simp add: window_holds_def bit_simps nth_append)
  next
    case False
    with i assms(2) have "64 - length p - n \<le> i \<longleftrightarrow> 63 - i < length p + n"
      and "63 - i < length p + n \<Longrightarrow> i - (64 - length p - n) = n - Suc (63 - i - length p)"
      by linarith+
    with False i assms(1) show ?thesis by (auto simp: window_holds_def bit_simps nth_append)
  qed
  with assms show ?thesis by (simp add: window_holds_def)
qed

lemma window_shift:
  assumes "window_holds w p" and "8 \<le> length p"
  shows "ucast (drop_bit 56 w) = of_msb_bits (take 8 p)" and "window_holds (push_bit 8 w) (drop 8 p)"
  using assms
  by (auto simp: window_holds_def bit_simps bit_of_msb_bits intro!: bit_word_eqI) 

text \<open>The encoder's loops: the full octets of the bits seen so far are written, the rest is in the
  window.\<close>

definition packs :: "(u64 \<times> nat \<times> wbuf) h3_res \<Rightarrow> bool list \<Rightarrow> wbuf \<Rightarrow> bool" where
  "packs r bs buf \<longleftrightarrow>
     (if length (full_bytes bs) \<le> room buf
      then \<exists>w. r = Ok (w, length (rest_bits bs), put_slice (full_bytes bs) buf) \<and> window_holds w (rest_bits bs)
      else r = Err (H3_TransportError BufferTooShort))"

lemma packs_output_bits: "window_holds w p \<Longrightarrow> packs (output_bits w (length p) buf) p buf"
proof (induction p arbitrary: w buf rule: full_bytes.induct)
  case (1 p)
  show ?case
  proof (cases "length p < 8")
    case True
    with 1 show ?thesis by (simp add: packs_def output_bits.simps)
  next
    case False
    then have "packs (output_bits (push_bit 8 w) (length (drop 8 p)) (put_slice [of_msb_bits (take 8 p)] buf)) (drop 8 p)
        (put_slice [of_msb_bits (take 8 p)] buf)"
      using 1 window_shift [of w p] by (intro "1.IH") auto
    with False 1 show ?thesis
      by (subst output_bits.simps)
         (auto simp: packs_def write_u8_h3 window_shift full_bytes_long put_slice_append split: if_splits)
  qed
qed

lemma packs_bind:
  assumes "packs r p buf"
    and "\<And>w q buf. window_holds w q \<Longrightarrow> length q < 8 \<Longrightarrow> packs (f (w, length q, buf)) (q @ c) buf"
  shows "packs (bind_r r f) (p @ c) buf"
proof (cases "length (full_bytes p) \<le> room buf")
  case True
  with assms(1) obtain w where r: "r = Ok (w, length (rest_bits p), put_slice (full_bytes p) buf)"
    and w: "window_holds w (rest_bits p)"
    by (auto simp: packs_def)
  from assms(2) [OF w length_rest_bits, of "put_slice (full_bytes p) buf"] True show ?thesis
    by (simp add: r packs_def full_bytes_append [of p] put_slice_append le_diff_conv2 add.commute
        cong: if_cong)
next
  case False
  with assms(1) show ?thesis by (simp add: packs_def full_bytes_append [of p])
qed

lemma packs_loop:
  "window_holds w p \<Longrightarrow> length p < 8 \<Longrightarrow>
   packs (huffman_encode_loop src lower w (length p) buf) (p @ huff_bits (map (huff_symbol lower) src)) buf"
proof (induction src arbitrary: w p buf)
  case Nil
  then show ?case by (simp add: packs_def huff_bits_def)
next
  case (Cons byte src)
  obtain n c where nc: "ENCODE_TABLE ! unat (huff_symbol lower byte) = (n, c)" by fastforce
  note b = ENCODE_TABLE_nth [OF nc]
  let ?w = "w OR push_bit (64 - length p - n) c" and ?p = "p @ msb_bits n c"
  have "packs (output_bits ?w (length ?p) buf) ?p buf"
    using Cons.prems b by (intro packs_output_bits window_append) auto
  then have "packs (bind_r (output_bits ?w (length ?p) buf) (\<lambda>(w, u, buf). huffman_encode_loop src lower w u buf))
      (?p @ huff_bits (map (huff_symbol lower) src)) buf"
    by (rule packs_bind) (simp add: Cons.IH)
  with Cons.prems b show ?case by (simp add: nc huff_bits_def code_bits_def)
qed

lemma window_pad:
  assumes "window_holds w q" and "length q < 8"
  shows "ucast (drop_bit 56 (w OR (push_bit (64 - length q) 1 - 1))) = of_msb_bits (q @ replicate (8 - length q) True)"
proof -
  have m: "bit (2 ^ (64 - length q) - 1 :: u64) i \<longleftrightarrow> i < 64 - length q" if "i < 64" for i
    using that by (simp add: mask_eq_exp_minus_1 [symmetric] bit_mask_iff)
  show ?thesis
    using assms
    by (auto simp: window_holds_def bit_simps push_bit_of_1 m bit_of_msb_bits nth_append intro!: bit_word_eqI)
qed

lemma huffman_encode_emits:
  "emits (H3_TransportError BufferTooShort) (huffman_encode src lower)
     (pack_bits (huff_bits (map (huff_symbol lower) src)))"
proof -
  let ?bs = "huff_bits (map (huff_symbol lower) src)"
  have w0: "window_holds 0 []" by (simp add: window_holds_def)
  have p: "packs (huffman_encode_loop src lower 0 0 buf) ?bs buf" for buf
    using packs_loop [OF w0] by simp
  show ?thesis unfolding emits_def
  proof 
    fix buf
    show "huffman_encode src lower buf = 
      (if length (pack_bits ?bs) \<le> room buf then Ok (length (pack_bits ?bs), put_slice (pack_bits ?bs) buf) 
       else Err (H3_TransportError BufferTooShort))"
    proof (cases "length (full_bytes ?bs) \<le> room buf")
      case False
      with p [of buf] show ?thesis by (simp add: packs_def huffman_encode_def pack_bits_def)
    next
      case True
      with p [of buf] obtain w where r: "huffman_encode_loop src lower 0 0 buf = 
          Ok (w, length (rest_bits ?bs), put_slice (full_bytes ?bs) buf)"
        and w: "window_holds w (rest_bits ?bs)"
        by (auto simp: packs_def)
      show ?thesis using True window_pad [OF w length_rest_bits]
        by (auto simp: huffman_encode_def r pack_bits_def write_u8_h3 put_slice_append split: list.split)
    qed
  qed
qed

section \<open>The decoder walks the code tree\<close>

lemma hrun_append:
  "hrun t (xs @ ys) =
     (case hrun t xs of
        None \<Rightarrow> None
      | Some (u, out) \<Rightarrow> map_option (\<lambda>(v, out'). (v, out @ out')) (hrun u ys))"
proof (induction t xs rule: hrun.induct)
  case (1 t)
  then show ?case by (cases "hrun t ys") auto
next
  case (2 t b bs)
  then show ?case
    by (cases "hchild t b") (auto simp: option.map_comp comp_def split_def split: option.splits)
qed

lemma hnodes_child: "t \<in> set (hnodes R) \<Longrightarrow> hchild t b = HNode s f l r \<Longrightarrow> HNode s f l r \<in> set (hnodes R)"
  by (induction R) (auto split: if_splits)

lemma root_node: "huff_tree \<in> set (hnodes huff_tree)"
  by (simp add: huff_root [of hnodes]) (simp add: huff_tree_def)

lemma hrun_node:
  "t \<in> set (hnodes huff_tree) \<Longrightarrow> hrun t bs = Some (u, out) \<Longrightarrow> u \<in> set (hnodes huff_tree)"
proof (induction t bs arbitrary: out rule: hrun.induct)
  case (2 t b bs)
  show ?case
  proof (cases "hchild t b")
    case (HNode s f l r)
    with 2 hnodes_child [OF 2(3) HNode] show ?thesis by auto
  qed (use 2 root_node in auto)
qed simp

lemma length_nodes: "length (hnodes huff_tree) = 256"
  using arg_cong [OF hlabels, of length] by simp

lemma table_row:
  assumes "t \<in> set (hnodes huff_tree)"
  shows "hlabel t < length DECODE_TABLE" and "row_ok t (DECODE_TABLE ! hlabel t)"
proof -
  from assms obtain i where i: "i < 256" "hnodes huff_tree ! i = t"
    by (auto simp: in_set_conv_nth length_nodes)
  then have "hlabel t = map hlabel (hnodes huff_tree) ! i" by (simp add: length_nodes)
  then have "hlabel t = i" using i by (simp add: hlabels)
  with i decode_table_ok show "hlabel t < length DECODE_TABLE" and "row_ok t (DECODE_TABLE ! hlabel t)"
    by (auto simp: list_all2_conv_all_nth length_nodes)
qed

lemma entry_ok_cases:
  assumes "entry_ok (map_option (\<lambda>(u, out). (hlabel u, hpad u, out)) x) (nxt, byte, flags)"
  shows "case x of None \<Rightarrow> flags_contain flags FLAG_ERROR
    | Some (u, out) \<Rightarrow> \<not> flags_contain flags FLAG_ERROR \<and> nxt = hlabel u \<and>
        flags_contain flags FLAG_MAYBE_EOS = hpad u \<and>
        out = (if flags_contain flags FLAG_DECODED then [byte] else [])"
  using assms
  by (cases "(map_option (\<lambda>(u, out). (hlabel u, hpad u, out)) x, (nxt, byte, flags))" rule: entry_ok.cases)
     (auto simp: flags_contain_def FLAG_ERROR_def FLAG_MAYBE_EOS_def FLAG_DECODED_def)

lemma decode4_run:
  assumes t: "t \<in> set (hnodes huff_tree)" and d: "hd_state d = hlabel t" and i: "unat input < 16"
  shows decode4_None: "hrun t (msb_bits 4 input) = None \<Longrightarrow>
      decode4 input d = (Err H3_QpackDecompressionFailed, d)"
    and decode4_Some: "hrun t (msb_bits 4 input) = Some (u, out') \<Longrightarrow>
      \<exists>r. decode4 input d = (Ok r, \<lparr>hd_state = hlabel u, maybe_eos = hpad u\<rparr>) \<and>
          (\<forall>out. push_opt out r = out @ out')"
proof -
  note row = table_row [OF t]
  have n: "nibbles ! unat input = msb_bits 4 input" "length nibbles = 16"
    using i by (simp_all add: nibbles_def)
  from row(2) n i have l: "length (DECODE_TABLE ! hlabel t) = 16"
    and e: "entry_ok (hentry t (msb_bits 4 input)) (DECODE_TABLE ! hlabel t ! unat input)"
    by (auto simp: row_ok_def list_all2_conv_all_nth)
  obtain nxt byte flags where x: "DECODE_TABLE ! hlabel t ! unat input = (nxt, byte, flags)"
    by (metis prod_cases3)
  note c = entry_ok_cases [OF e [unfolded hentry_def x]]
  from c row(1) l i d x show "hrun t (msb_bits 4 input) = None \<Longrightarrow>
      decode4 input d = (Err H3_QpackDecompressionFailed, d)"
    by (simp add: decode4_def)
  from c row(1) l i d x show "hrun t (msb_bits 4 input) = Some (u, out') \<Longrightarrow>
      \<exists>r. decode4 input d = (Ok r, \<lparr>hd_state = hlabel u, maybe_eos = hpad u\<rparr>) \<and>
          (\<forall>out. push_opt out r = out @ out')"
    by (auto simp: decode4_def push_opt_def)
qed

lemma msb_bits_8: "msb_bits 8 (b :: u8) = msb_bits 4 (drop_bit 4 b) @ msb_bits 4 (b AND 0xf)"
  by (simp add: msb_bits_numeral bit_simps)

definition byte_bits :: "bytes \<Rightarrow> bool list" where
  "byte_bits bs = concat (map (msb_bits 8) bs)"

lemma byte_bits_simps [simp]: "byte_bits [] = []" "byte_bits (b # bs) = msb_bits 8 b @ byte_bits bs"
  by (simp_all add: byte_bits_def)

lemma nibble_bound: "unat (drop_bit 4 (b :: u8)) < 16" "unat (b AND 0xf) < 16"
proof -
  have b: "unat b < 256" using unsigned_less [of b, where 'a = nat] by simp
  then show "unat (drop_bit 4 b) < 16" by (simp add: drop_bit_eq_div unat_div)
  have "unat (b AND 0xf) \<le> unat (0xf :: u8)" by (rule word_and_le)
  then show "unat (b AND 0xf) < 16" by simp
qed

lemma decode_loop_run:
  assumes "t \<in> set (hnodes huff_tree)" and "hd_state d = hlabel t"
  shows "case hrun t (byte_bits buf) of
       None \<Rightarrow> \<exists>d'. huffman_decode_loop buf out d = (Err H3_QpackDecompressionFailed, d')
     | Some (u, out') \<Rightarrow> huffman_decode_loop buf out d = (Ok (out @ out'),
        if buf = [] then d else \<lparr>hd_state = hlabel u, maybe_eos = hpad u\<rparr>)"
  using assms
proof (induction buf arbitrary: t d out)
  case Nil
  then show ?case by simp
next
  case (Cons b buf)
  note i = nibble_bound [of b]
  show ?case
  proof (cases "hrun t (msb_bits 4 (drop_bit 4 b))")
    case None
    from decode4_None [OF Cons.prems i(1) None] None show ?thesis
      by (simp add: msb_bits_8 hrun_append bind_s_def)
  next
    case (Some uo)
    then obtain u1 o1 where s1: "hrun t (msb_bits 4 (drop_bit 4 b)) = Some (u1, o1)" by fastforce
    note u1 = hrun_node [OF Cons.prems(1) s1]
    let ?d1 = "\<lparr>hd_state = hlabel u1, maybe_eos = hpad u1\<rparr>"
    have d1: "hd_state ?d1 = hlabel u1" by simp
    from decode4_Some [OF Cons.prems i(1) s1] obtain r1 where
      r1: "decode4 (drop_bit 4 b) d = (Ok r1, ?d1)" "push_opt out r1 = out @ o1" by auto
    show ?thesis
    proof (cases "hrun u1 (msb_bits 4 (b AND 0xf))")
      case None
      with s1 r1 decode4_None [OF u1 d1 i(2) None] show ?thesis
        by (simp add: msb_bits_8 hrun_append bind_s_def)
    next
      case (Some uo2)
      then obtain u2 o2 where s2: "hrun u1 (msb_bits 4 (b AND 0xf)) = Some (u2, o2)" by fastforce
      note u2 = hrun_node [OF u1 s2]
      let ?d2 = "\<lparr>hd_state = hlabel u2, maybe_eos = hpad u2\<rparr>"
      from decode4_Some [OF u1 d1 i(2) s2] obtain r2 where
        r2: "decode4 (b AND 0xf) ?d1 = (Ok r2, ?d2)" "push_opt (out @ o1) r2 = out @ o1 @ o2" by auto
      from Cons.IH [OF u2, of ?d2 "out @ o1 @ o2"] s1 r1 s2 r2 show ?thesis
        by (cases buf) (auto simp: msb_bits_8 hrun_append bind_s_def split: option.splits prod.splits)
    qed
  qed
qed

lemma hlabel_root [simp]: "hlabel huff_tree = 0"
  by (simp add: huff_root [of hlabel])

lemma huffman_decode_run:
  "huffman_decode buf =
     (case hrun huff_tree (byte_bits buf) of
        Some (u, out) \<Rightarrow> if hlabel u = 0 \<or> hpad u then Ok out else Err H3_QpackDecompressionFailed
      | None \<Rightarrow> Err H3_QpackDecompressionFailed)"
proof -
  have "hd_state huffman_decoder_new = hlabel huff_tree" by (simp add: huffman_decoder_new_def)
  from decode_loop_run [OF root_node this, of buf "[]"] show ?thesis
    by (auto simp: huffman_decode_def huff_is_final_def huffman_decoder_new_def split: option.splits)
qed


section \<open>Decoding and encoding are inverse\<close>

lemma hrun_leaf:
  "hwalk t p = HLeaf a \<Longrightarrow> p \<noteq> [] \<Longrightarrow>
   hrun t (p @ bs) = map_option (\<lambda>(u, out). (u, a # out)) (hrun huff_tree bs)"
proof (induction p arbitrary: t)
  case (Cons b p)
  then show ?case by (cases "hchild t b"; cases "p = []") (auto simp: hwalk_HLeaf split: if_splits)
qed simp

lemma hrun_inner: "hwalk t p = HNode s f l r \<Longrightarrow> hrun t p = Some (HNode s f l r, [])"
proof (induction p arbitrary: t)
  case (Cons b p)
  then show ?case by (cases "hchild t b") (auto simp: hwalk_HLeaf split: if_splits)
qed simp

lemma code_bits_walk: "hwalk huff_tree (code_bits a) = HLeaf a" "code_bits a \<noteq> []"
proof -
  obtain n c where nc: "ENCODE_TABLE ! unat a = (n, c)" by fastforce
  with ENCODE_TABLE_nth [OF nc] show "hwalk huff_tree (code_bits a) = HLeaf a" "code_bits a \<noteq> []"
    by (auto simp: code_bits_def simp flip: length_0_conv)
qed

lemma hrun_huff_bits:
  "hrun huff_tree (huff_bits s @ p) = map_option (\<lambda>(u, out). (u, s @ out)) (hrun huff_tree p)"
proof (induction s)
  case Nil
  then show ?case by (cases "hrun huff_tree p") (auto simp: huff_bits_def)
next
  case (Cons a s)
  then show ?case
    by (simp add: huff_bits_def hrun_leaf [OF code_bits_walk] option.map_comp comp_def split_def)
qed

text \<open>The nodes where an encoded string may end are those after fewer than eight ones.\<close>

primrec hfinals :: "htree \<Rightarrow> bool list list" where
  "hfinals (HNode s f l r) =
     (if s = 0 \<or> f then [[]] else []) @ map ((#) False) (hfinals l) @ map ((#) True) (hfinals r)"
| "hfinals (HLeaf a) = []"
| "hfinals HEos = []"

lemma hfinals_list: "hfinals huff_tree = map (\<lambda>k. replicate k True) [0..<8]"
  by (simp add: huff_root [of hfinals] upt_conv_Cons replicate_Suc numeral_eq_Suc)

lemma hfinals_huff_tree: "set (hfinals huff_tree) = {p. \<exists>k < 8. p = replicate k True}"
  by (auto simp: hfinals_list)

lemma hfinals_walk: "p \<in> set (hfinals t) \<Longrightarrow> hlabel (hwalk t p) = 0 \<or> hpad (hwalk t p)"
  by (induction t arbitrary: p) (fastforce split: if_splits)+

lemma walk_hfinals:
  "hwalk t p = HNode s f l r \<Longrightarrow> s = 0 \<or> f \<Longrightarrow> p \<in> set (hfinals t)"
proof (induction t arbitrary: p)
  case (HNode s' f' l' r')
  show ?case by (cases p) (use HNode in \<open>auto split: if_splits\<close>)
qed (auto simp: hwalk_HLeaf split: if_splits)

lemma hrun_ones:
  assumes "k < 8"
  shows "\<exists>u. hrun huff_tree (replicate k True) = Some (u, []) \<and> (hlabel u = 0 \<or> hpad u)"
proof -
  from assms have "replicate k True \<in> set (hfinals huff_tree)" by (auto simp: hfinals_huff_tree)
  then have f: "hlabel (hwalk huff_tree (replicate k True)) = 0 \<or> hpad (hwalk huff_tree (replicate k True))"
    by (rule hfinals_walk)
  then obtain s f l r where "hwalk huff_tree (replicate k True) = HNode s f l r"
    by (cases "hwalk huff_tree (replicate k True)") auto
  with f hrun_inner [OF this] show ?thesis by auto
qed

lemma byte_bits_append [simp]: "byte_bits (as @ bs) = byte_bits as @ byte_bits bs"
  by (simp add: byte_bits_def)

lemma msb_of_msb_bits: "length bs = 8 \<Longrightarrow> msb_bits 8 (of_msb_bits bs) = bs"
  by (intro nth_equalityI) (auto simp: bit_of_msb_bits)

lemma of_msb_bits_msb [simp]: "of_msb_bits (msb_bits 8 b) = b"
  by (intro bit_word_eqI) (auto simp: bit_of_msb_bits)

lemma byte_bits_full: "byte_bits (full_bytes bs) @ rest_bits bs = bs"
proof (induction bs rule: full_bytes.induct)
  case (1 bs)
  then show ?case by (cases "length bs < 8") (auto simp: full_bytes_long msb_of_msb_bits)
qed

text \<open>The number of ones that fill up the last octet.\<close>

definition pad_len :: "bool list \<Rightarrow> nat" where
  "pad_len bs = (if rest_bits bs = [] then 0 else 8 - length (rest_bits bs))"

lemma pad_len_less: "pad_len bs < 8"
  by (simp add: pad_len_def)

lemma byte_bits_pack: "byte_bits (pack_bits bs) = bs @ replicate (pad_len bs) True"
proof -
  have "length (rest_bits bs @ replicate (8 - length (rest_bits bs)) True) = 8"
    using length_rest_bits [of bs] by simp
  from msb_of_msb_bits [OF this] byte_bits_full [of bs] show ?thesis
    by (auto simp: pack_bits_def pad_len_def split: list.split)
qed

lemma full_bytes_byte_bits: "full_bytes (byte_bits bs @ p) = bs @ full_bytes p" 
  "rest_bits (byte_bits bs @ p) = rest_bits p"
  by (induction bs) (auto simp: full_bytes_long)

lemma length_byte_bits [simp]: "length (byte_bits bs) = 8 * length bs"
  by (induction bs) auto

lemma pack_byte_bits:
  assumes "byte_bits buf = bs @ replicate k True" and "k < 8"
  shows "buf = pack_bits bs"
proof -
  let ?r = "rest_bits bs"
  have eq: "byte_bits buf @ [] = byte_bits (full_bytes bs) @ (?r @ replicate k True)"
    using assms(1) byte_bits_full [of bs] by (metis append_Nil2 append_assoc)
  have "buf @ full_bytes [] = full_bytes bs @ full_bytes (?r @ replicate k True)"
    using arg_cong [OF eq, of full_bytes] unfolding full_bytes_byte_bits .
  then have buf: "buf = full_bytes bs @ full_bytes (?r @ replicate k True)" by simp
  have "8 * length buf = 8 * length (full_bytes bs) + (length ?r + k)"
    using arg_cong [OF eq, of length] by simp
  then have "length ?r + k = 0 \<or> length ?r + k = 8"
    using length_rest_bits [of bs] assms(2) by presburger
  then show ?thesis
  proof
    assume "length ?r + k = 0"
    with buf show ?thesis by (simp add: pack_bits_def)
  next
    assume l: "length ?r + k = 8"
    then have "?r \<noteq> []" and k: "k = 8 - length ?r" using assms(2) by auto
    with l buf show ?thesis by (auto simp: pack_bits_def full_bytes_long split: list.split)
  qed
qed

lemma huffman_decode_pack: "huffman_decode (pack_bits (huff_bits s)) = Ok s"
proof -
  obtain u where "hrun huff_tree (replicate (pad_len (huff_bits s)) True) = Some (u, [])"
    "hlabel u = 0 \<or> hpad u"
    using hrun_ones [OF pad_len_less] by blast
  then show ?thesis
    by (simp add: huffman_decode_run byte_bits_pack hrun_huff_bits)
qed

lemma hwalk_syms: "hwalk t p = HLeaf a \<Longrightarrow> a \<in> set (hsyms t)"
proof (induction t arbitrary: p)
  case (HNode s f l r)
  show ?case by (cases p) (use HNode in \<open>auto split: if_splits\<close>)
qed (auto simp: hwalk_HLeaf split: if_splits)

lemma leaf_path_unique:
  "distinct (hsyms t) \<Longrightarrow> hwalk t p = HLeaf a \<Longrightarrow> hwalk t q = HLeaf a \<Longrightarrow> p = q"
proof (induction t arbitrary: p q)
  case (HNode s f l r)
  show ?case
    by (cases p; cases q) (use HNode in \<open>auto dest: hwalk_syms split: if_splits\<close>)
qed (auto simp: hwalk_HLeaf split: if_splits)

lemma distinct_syms: "distinct (hsyms huff_tree)"
proof -
  have "set (hsyms huff_tree) = UNIV" using hwalk_syms [OF code_bits_walk(1)] by blast
  moreover have "length (hsyms huff_tree) = 256" by (simp add: huff_root [of hsyms])
  ultimately show ?thesis by (intro card_distinct) (simp add: card_word)
qed

lemma hrun_split:
  "hrun huff_tree bs = Some (u, out) \<Longrightarrow> \<exists>p. bs = huff_bits out @ p \<and> hwalk huff_tree p = u"
proof (induction bs arbitrary: u out rule: rev_induct)
  case Nil
  then show ?case by (simp add: huff_bits_def)
next
  case (snoc b bs)
  then obtain v o1 o2 where v: "hrun huff_tree bs = Some (v, o1)" "hrun v [b] = Some (u, o2)" "out = o1 @ o2"
    by (auto simp: hrun_append split: option.splits)
  from snoc.IH [OF v(1)] obtain p where p: "bs = huff_bits o1 @ p" "hwalk huff_tree p = v" by blast
  show ?case
  proof (cases "hchild v b")
    case (HLeaf a)
    with p(2) have "hwalk huff_tree (p @ [b]) = HLeaf a" by simp
    then have "p @ [b] = code_bits a" by (rule leaf_path_unique [OF distinct_syms _ code_bits_walk(1)])
    with HLeaf v p have "bs @ [b] = huff_bits out @ [] \<and> hwalk huff_tree [] = u"
      by (auto simp: huff_bits_def)
    then show ?thesis by blast
  next
    case (HNode s f l r)
    with v p have "bs @ [b] = huff_bits out @ (p @ [b]) \<and> hwalk huff_tree (p @ [b]) = u" by auto
    then show ?thesis by blast
  qed (use v(2) in simp)
qed

lemma pad_path:
  assumes "hwalk huff_tree p = u" and "u \<in> set (hnodes huff_tree)" and "hlabel u = 0 \<or> hpad u"
  shows "\<exists>k < 8. p = replicate k True"
proof -
  from assms(3) obtain s f l r where "u = HNode s f l r" by (cases u) auto
  with assms walk_hfinals [of huff_tree p] have "p \<in> set (hfinals huff_tree)" by auto
  then show ?thesis by (simp add: hfinals_huff_tree)
qed

lemma huffman_decode_iff:
  "huffman_decode buf = Ok s \<longleftrightarrow> buf = pack_bits (huff_bits s)"
proof
  assume "huffman_decode buf = Ok s"
  then obtain u where r: "hrun huff_tree (byte_bits buf) = Some (u, s)" and u: "hlabel u = 0 \<or> hpad u"
    by (auto simp: huffman_decode_run split: option.splits if_splits)
  from hrun_split [OF r] obtain p where p: "byte_bits buf = huff_bits s @ p" "hwalk huff_tree p = u" by blast
  from pad_path [OF p(2) hrun_node [OF root_node r] u] p(1) show "buf = pack_bits (huff_bits s)"
    by (auto intro: pack_byte_bits)
qed (simp add: huffman_decode_pack)

lemma huff_symbol_simps [simp]: "map (huff_symbol False) s = s" "map (huff_symbol True) s = lowercase s"
  by (auto simp: huff_symbol_def map_idI)

lemma length_full_bytes: "length (full_bytes bs) = length bs div 8" "length (rest_bits bs) = length bs mod 8"
proof (induction bs rule: full_bytes.induct)
  case (1 bs)
  { case 1 then show ?case using "1.IH"(1) by (cases "length bs < 8") (auto simp: full_bytes_long le_div_geq) }
  { case 2 then show ?case using "1.IH"(2) by (cases "length bs < 8") (auto simp: full_bytes_long le_mod_geq) }
qed

lemma length_pack_bits:
  "length (pack_bits bs) = (if length bs mod 8 \<noteq> 0 then length bs div 8 + 1 else length bs div 8)"
  using length_full_bytes [of bs] by (auto simp: pack_bits_def split: list.split)

lemma encode_output_length:
  "encode_output_length src low = length (pack_bits (huff_bits (map (huff_symbol low) src)))"
proof -
  have "foldl (\<lambda>bits b. bits + fst (ENCODE_TABLE ! unat (huff_symbol low b))) k src
      = k + length (huff_bits (map (huff_symbol low) src))" for k
    by (induction src arbitrary: k) (auto simp: huff_bits_def code_bits_def split_def Let_def)
  moreover have "(n :: nat) AND 7 = n mod 8" for n
    using take_bit_eq_mask [of 3 n] by (simp add: take_bit_eq_mod mask_eq_exp_minus_1)
  ultimately show ?thesis by (simp add: encode_output_length_def length_pack_bits Let_def)
qed

section \<open>Properties\<close>

text \<open>C21: The Huffman decoder accepts exactly what the encoder produces. For every byte string the encoder
  succeeds when the buffer has \<open>encode_output_length\<close> octets of room and fails otherwise; the decoder
  returns a string for its encoding and for no other octets, so the hand-written decoding table of 4096
  entries agrees with the encoding table, codes that are cut off, padded too far or contain the
  end-of-string symbol are refused, and no two octet strings decode to the same text.
\<close>

theorem huffman_exact:
  "\<exists>enc. (\<forall>w. huffman_encode s False w =
        (if encode_output_length s False \<le> room w then Ok (encode_output_length s False, put_slice enc w)
         else Err (H3_TransportError BufferTooShort)))
     \<and> length enc = encode_output_length s False
     \<and> {buf. huffman_decode buf = Ok s} = {enc}"
proof -
  from huffman_encode_emits [of s False] have "emits (H3_TransportError BufferTooShort) (huffman_encode s False)
      (pack_bits (huff_bits s))" by simp
  then show ?thesis
    by (intro exI [of _ "pack_bits (huff_bits s)"])
       (auto simp: emits_def encode_output_length huffman_decode_iff)
qed

end
