(* ===== verification/Qpack_Int.thy ===== *)
theory Qpack_Int
  imports H3_Error Codec
begin

text \<open>
  QPACK prefix integers (src/h3/qpack/prefix_int.rs). The encoder's loop writes seven bits per octet;
  \<open>prefix_int_bytes\<close> is what it appends, and the decoder returns the integer on these octets whatever
  the flag bits of the first octet are, for every 64-bit value and every prefix of one to eight bits.
\<close>

unbundle bit_operations_syntax

definition prefix_mask :: "nat \<Rightarrow> u64" where
  "prefix_mask n = 2 ^ n - 1"

function encode_int_tail :: "u64 \<Rightarrow> wbuf \<Rightarrow> wbuf h3_res" where
  "encode_int_tail i buf =
     (if 128 \<le> i
      then bind_r (map_err h3_from (write_u8 (ucast (i mod 128 + 128)) buf))
             (\<lambda>(_, buf). encode_int_tail (drop_bit 7 i) buf)
      else bind_r (map_err h3_from (write_u8 (ucast i) buf)) (\<lambda>(_, buf). Ok buf))"
  by auto
termination
proof (relation "measure (\<lambda>(i, _). unat i)")
  fix i :: u64 assume "128 \<le> i"
  then have "unat i div 128 < unat i" by (simp add: word_le_nat_alt)
  then show "((drop_bit 7 i, b), i, buf) \<in> measure (\<lambda>(i, _). unat i)" for b buf :: wbuf
    by (simp add: drop_bit_eq_div unat_div)
qed simp

declare encode_int_tail.simps [simp del]

definition encode_int :: "u64 \<Rightarrow> u8 \<Rightarrow> nat \<Rightarrow> http3_error writer" where
  "encode_int i first n buf0 =
     (let mask = prefix_mask n in
      if i < mask
      then bind_r (map_err h3_from (write_u8 (first OR ucast i) buf0)) (\<lambda>(_, buf).
             Ok (room buf0 - room buf, buf))
      else
        bind_r (map_err h3_from (write_u8 (first OR ucast mask) buf0)) (\<lambda>(_, buf).
        bind_r (encode_int_tail (i - mask) buf) (\<lambda>buf.
        Ok (room buf0 - room buf, buf))))"

fun decode_int_tail :: "bytes \<Rightarrow> u64 \<Rightarrow> nat \<Rightarrow> (u64 \<times> bytes) h3_res" where
  "decode_int_tail [] val shift = Err H3_QpackDecompressionFailed"
| "decode_int_tail (byte # buf) val shift =
     bind_r (ok_or (checked_shl (ucast (byte AND 0x7f)) shift) H3_QpackDecompressionFailed) (\<lambda>inc.
     bind_r (ok_or (checked_add val inc) H3_QpackDecompressionFailed) (\<lambda>val.
     if byte AND 0x80 = 0 then Ok (val, buf) else decode_int_tail buf val (shift + 7)))"

definition decode_int :: "bytes \<Rightarrow> nat \<Rightarrow> (u64 \<times> nat) h3_res" where
  "decode_int buf0 n =
     (let mask = prefix_mask n in
      bind_r (map_err h3_from (read_u8 buf0)) (\<lambda>(b, buf).
      let val = ucast b AND mask in
      if val < mask then Ok (val, 1)
      else bind_r (decode_int_tail buf val 0) (\<lambda>(val, buf). Ok (val, length buf0 - length buf))))"

section \<open>What the encoder appends\<close>

function tail_bytes :: "u64 \<Rightarrow> bytes" where
  "tail_bytes i = (if 128 \<le> i then ucast (i mod 128 + 128) # tail_bytes (drop_bit 7 i) else [ucast i])"
  by auto
termination
proof (relation "measure unat")
  fix i :: u64 assume "128 \<le> i"
  then have "unat i div 128 < unat i" by (simp add: word_le_nat_alt)
  then show "(drop_bit 7 i, i) \<in> measure unat" by (simp add: drop_bit_eq_div unat_div)
qed simp

declare tail_bytes.simps [simp del]

definition prefix_int_bytes :: "u64 \<Rightarrow> u8 \<Rightarrow> nat \<Rightarrow> bytes" where
  "prefix_int_bytes i first n =
     (if i < prefix_mask n then [first OR ucast i]
      else (first OR ucast (prefix_mask n)) # tail_bytes (i - prefix_mask n))"

lemma encode_int_tail_bytes:
  "encode_int_tail i buf =
     (if length (tail_bytes i) \<le> room buf then Ok (put_slice (tail_bytes i) buf)
      else Err (H3_TransportError BufferTooShort))"
proof (induction i arbitrary: buf rule: tail_bytes.induct)
  case (1 i)
  show ?case
    by (subst encode_int_tail.simps, subst (1 2) tail_bytes.simps)
       (use 1 in \<open>auto simp: write_u8_h3 put_slice_append\<close>)
qed

lemma encode_int_emits [emit_rules]:
  "emits (H3_TransportError BufferTooShort) (encode_int i first n) (prefix_int_bytes i first n)"
  by (auto simp: emits_def encode_int_def prefix_int_bytes_def write_u8_h3 encode_int_tail_bytes
      put_slice_append Let_def)

section \<open>Decoding\<close>

lemma bit_128: "bit (128 :: int) k \<longleftrightarrow> k = 7"
proof -
  have "(128 :: int) = 2 ^ 7" by simp
  then show ?thesis by (simp only: bit_exp_iff) auto
qed

lemma mod_128_add: "(i :: u64) mod 128 + 128 = take_bit 7 i OR 128"
proof -
  have "i mod 128 + 128 = take_bit 7 i + 128" by (simp add: take_bit_eq_mod)
  also have "\<dots> = take_bit 7 i OR 128"
    by (rule disjunctive_add) (auto simp: bit_simps bit_128)
  finally show ?thesis .
qed

lemma mask_7: "(0x7f :: u8) = mask 7"
  by (simp add: mask_eq_exp_minus_1)

lemma tail_octet:
  fixes i :: u64
  shows "ucast (ucast (i mod 128 + 128) AND (0x7f :: u8)) = i mod 128"
    and "ucast (i mod 128 + 128) AND (0x80 :: u8) = 0x80"
    and "i < 128 \<Longrightarrow> ucast (ucast i AND (0x7f :: u8)) = i"
    and "i < 128 \<Longrightarrow> ucast i AND (0x80 :: u8) = 0"
proof -
  have "i mod 128 = take_bit 7 i" by (simp add: take_bit_eq_mod)
  then show "ucast (ucast (i mod 128 + 128) AND (0x7f :: u8)) = i mod 128"
    unfolding mod_128_add mask_7 by (auto intro!: bit_word_eqI simp: bit_simps bit_128)
  show "ucast (i mod 128 + 128) AND (0x80 :: u8) = 0x80"
    unfolding mod_128_add mask_7 by (auto intro!: bit_word_eqI simp: bit_simps bit_128)
  assume "i < 128"
  then have *: "bit i k \<Longrightarrow> k < 7 \<and> k < 8" for k using bit_lt [of i 7 k] by (auto simp: word_less_nat_alt)
  show "ucast (ucast i AND (0x7f :: u8)) = i"
    unfolding mask_7 by (rule bit_word_eqI) (use * in \<open>auto simp: bit_simps bit_128\<close>)
  show "ucast i AND (0x80 :: u8) = 0"
    unfolding mask_7 by (rule bit_word_eqI) (use * in \<open>auto simp: bit_simps bit_128\<close>)
qed

lemma unat_push_bit_small:
  "unat j * 2 ^ k < 2 ^ 64 \<Longrightarrow> unat (push_bit k j :: u64) = unat j * 2 ^ k"
  unfolding unsigned_push_bit_eq by (simp add: push_bit_eq_mult take_bit_nat_eq_self)

lemma decode_int_tail_bytes:
  "unat val + unat j * 2 ^ shift < 2 ^ 64 \<Longrightarrow> shift < 64 \<Longrightarrow>
   decode_int_tail (tail_bytes j @ rest) val shift = Ok (val + push_bit shift j, rest)"
proof (induction j arbitrary: val shift rule: tail_bytes.induct)
  case (1 j)
  show ?case
  proof (cases "128 \<le> j")
    case False
    then have "j < 128" by simp
    with False 1(2-) show ?thesis
      by (subst tail_bytes.simps) (simp add: tail_octet checked_shl_def checked_add_def unat_push_bit_small)
  next
    case True
    define q r where "q = drop_bit 7 j" and "r = j mod 128"
    have j: "unat j = unat r + 128 * unat q" "unat r < 128"
      unfolding q_def r_def by (simp_all add: drop_bit_eq_div unat_div unat_mod)
    have q: "0 < unat q" using True by (simp add: q_def drop_bit_eq_div unat_div word_le_nat_alt)
    have total: "unat val + unat r * 2 ^ shift + unat q * 2 ^ (shift + 7) < 2 ^ 64"
      using 1(2) by (simp add: j algebra_simps power_add)
    then have ur: "unat (push_bit shift r) = unat r * 2 ^ shift" by (intro unat_push_bit_small) simp
    have "(2 :: nat) ^ (shift + 7) \<le> unat q * 2 ^ (shift + 7)" using q by simp
    with total have "(2 :: nat) ^ (shift + 7) < 2 ^ 64" by linarith
    then have sh: "shift + 7 < 64" by (simp only: power_strict_increasing_iff)
    have uv: "unat (val + push_bit shift r) = unat val + unat r * 2 ^ shift"
      using total ur by (subst unat_add_small) auto
    have "decode_int_tail (tail_bytes q @ rest) (val + push_bit shift r) (shift + 7)
        = Ok (val + push_bit shift r + push_bit (shift + 7) q, rest)"
      unfolding q_def using total uv sh True by (intro 1(1)) (simp_all add: q_def)
    moreover have "val + push_bit shift r + push_bit (shift + 7) q = val + push_bit shift j"
    proof -
      have "j = r + push_bit 7 q"
        using div_mult_mod_eq [of j 128] by (simp add: q_def r_def push_bit_eq_mult drop_bit_eq_div add.commute)
      then show ?thesis by (simp add: push_bit_add add.assoc)
    qed
    ultimately show ?thesis
      using True 1(3) total ur
      by (subst tail_bytes.simps) (simp add: tail_octet checked_shl_def checked_add_def q_def r_def)
  qed
qed

lemma unat_prefix_mask: "n \<le> 8 \<Longrightarrow> unat (prefix_mask n) = 2 ^ n - 1" "prefix_mask n = mask n"
proof -
  show m: "prefix_mask n = mask n" by (simp add: prefix_mask_def mask_eq_exp_minus_1)
  have "n \<le> 8 \<Longrightarrow> unat (mask n :: u64) = mask n" by (rule bit_eqI) (auto simp: bit_simps)
  then show "n \<le> 8 \<Longrightarrow> unat (prefix_mask n) = 2 ^ n - 1" by (simp add: m mask_eq_exp_minus_1)
qed

lemma prefix_octet:
  fixes i :: u64 and first :: u8
  assumes "n \<le> 8" and "first AND ucast (prefix_mask n) = 0" and "unat i < 2 ^ n"
  shows "ucast (first OR ucast i) AND prefix_mask n = i"
proof -
  have i: "bit i k \<Longrightarrow> k < n \<and> k < 8" for k using bit_lt [OF assms(3), of k] assms(1) by auto
  have f: "\<not> (bit first k \<and> k < n)" for k
  proof
    assume "bit first k \<and> k < n"
    with assms(1) have "bit (first AND ucast (prefix_mask n)) k" by (simp add: unat_prefix_mask(2) bit_simps)
    with assms(2) show False by simp
  qed
  show ?thesis
    unfolding unat_prefix_mask(2)
    by (rule bit_word_eqI) (use assms(1) f i in \<open>auto simp: bit_simps\<close>)
qed

lemma decode_int_bytes [parse_simps]:
  assumes "1 \<le> n" "n \<le> 8" and "first AND ucast (prefix_mask n) = 0"
  shows "decode_int (prefix_int_bytes i first n @ rest) n = Ok (i, length (prefix_int_bytes i first n))"
proof (cases "i < prefix_mask n")
  case True
  then have "unat i < 2 ^ n" using unat_prefix_mask(1) [OF assms(2)] by (simp add: word_less_nat_alt)
  with True prefix_octet [OF assms(2,3)] show ?thesis
    by (simp add: decode_int_def prefix_int_bytes_def read_u8_def be_word_singleton Let_def)
next
  case False
  let ?m = "prefix_mask n"
  have "unat ?m < 2 ^ n" using unat_prefix_mask(1) [OF assms(2)] by simp
  note m = prefix_octet [OF assms(2,3) this]
  have "?m \<le> i" using False by simp
  then have "unat ?m + unat (i - ?m) = unat i" by (simp add: unat_sub word_le_nat_alt)
  then have "decode_int_tail (tail_bytes (i - ?m) @ rest) ?m 0 = Ok (i, rest)"
    using decode_int_tail_bytes [of ?m "i - ?m" 0 rest] unsigned_less [of i, where 'a = nat] by simp
  with False m show ?thesis
    by (simp add: decode_int_def prefix_int_bytes_def read_u8_def be_word_singleton Let_def)
qed

lemma decode_int_tail_no_panic [no_panic]: "decode_int_tail buf val shift \<noteq> Panic"
  by (induction buf val shift rule: decode_int_tail.induct) (auto simp: bind_r_Panic_iff)

lemma decode_int_no_panic [no_panic]: "decode_int buf n \<noteq> Panic"
  using decode_int_tail_no_panic
  by (auto simp: decode_int_def read_u8_def be_word_singleton Let_def bind_r_Panic_iff split: if_splits)

lemma decode_int_tail_length: "decode_int_tail buf val shift = Ok (v, r) \<Longrightarrow> length r < length buf"
  by (induction buf val shift rule: decode_int_tail.induct)
     (auto simp: bind_r_Ok_iff split: if_splits, fastforce?)

lemma decode_int_consumed:
  assumes "decode_int buf n = Ok (v, k)"
  shows "1 \<le> k" and "k \<le> length buf"
  using assms
  by (auto dest!: decode_int_tail_length simp: decode_int_def read_u8_def be_word_singleton Let_def bind_r_Ok_iff Suc_le_eq neq_Nil_conv split: if_splits)


text \<open>The check of the shift does not see the bits that a shift by less than 64 pushes out: this
  encoding of $2^{64} + 255$ is accepted as 255.\<close>

lemma decode_int_high_bits_lost:
  "decode_int ([0xff, 0x80, 0x80, 0x80, 0x80, 0x80, 0x80, 0x80, 0x80, 0x80, 0x02]) 8 = Ok (255, 11)"
  by (simp add: decode_int_def read_u8_def be_word_singleton prefix_mask_def checked_shl_def checked_add_def)

section \<open>Properties\<close>

text \<open>
  A prefix integer is read back as it was written, for every 64-bit value, every prefix of one to
  eight bits and any flags in the other bits of the first octet; all and only its octets are consumed.
\<close>

theorem prefix_int_roundtrip:
  assumes "encode_int i first n (new_wbuf m) = Ok (k, w)"
    and "1 \<le> n" and "n \<le> 8" and "first AND ucast (prefix_mask n) = 0"
  shows "k = length (written w) \<and> decode_int (written w @ rest) n = Ok (i, k)"
proof -
  have "k = length (prefix_int_bytes i first n) \<and> w = put_slice (prefix_int_bytes i first n) (new_wbuf m)"
    using assms(1) encode_int_emits [of i first n] by (auto simp: emits_def split: if_splits)
  with decode_int_bytes [OF assms(2-4), of i rest] show ?thesis by (auto simp: new_wbuf_def)
qed

theorem prefix_int_roundtrip_witness:
  "decode_int ([0x1f, 0x9a, 0x0a] @ [7]) 5 = Ok (1337, 3)"
proof -
  have "prefix_int_bytes 1337 0 5 = [0x1f, 0x9a, 0x0a]"
    by (simp add: prefix_int_bytes_def prefix_mask_def tail_bytes.simps)
  then have "encode_int 1337 0 5 (new_wbuf 4) = Ok (3, put_slice [0x1f, 0x9a, 0x0a] (new_wbuf 4))"
    using encode_int_emits [of 1337 0 5] by (simp add: emits_def new_wbuf_def)
  from prefix_int_roundtrip [OF this, of "[7]"] show ?thesis by (simp add: new_wbuf_def)
qed

end
