(* ===== verification/Qpack_Static.thy ===== *)
theory Qpack_Static
  imports H3_Error
begin

text \<open>
  The static table of QPACK (src/h3/qpack/static_table.rs): the table in the encoder's order with the
  wire index of each field line, the table in the order of the wire index, and the search for a name
  by its length. What the encoder finds is in the decoder's table under the index it writes.
\<close>

section \<open>The tables\<close>

definition STATIC_ENCODE_TABLE :: "(bytes \<times> bytes \<times> u64) list" where
  "STATIC_ENCODE_TABLE =
    [(bstr '':authority'', [], 0),
     (bstr '':method'', bstr ''CONNECT'', 15),
     (bstr '':method'', bstr ''DELETE'', 16),
     (bstr '':method'', bstr ''GET'', 17),
     (bstr '':method'', bstr ''HEAD'', 18),
     (bstr '':method'', bstr ''OPTIONS'', 19),
     (bstr '':method'', bstr ''POST'', 20),
     (bstr '':method'', bstr ''PUT'', 21),
     (bstr '':path'', bstr ''/'', 1),
     (bstr '':scheme'', bstr ''http'', 22),
     (bstr '':scheme'', bstr ''https'', 23),
     (bstr '':status'', bstr ''100'', 63),
     (bstr '':status'', bstr ''103'', 24),
     (bstr '':status'', bstr ''200'', 25),
     (bstr '':status'', bstr ''204'', 64),
     (bstr '':status'', bstr ''206'', 65),
     (bstr '':status'', bstr ''302'', 66),
     (bstr '':status'', bstr ''304'', 26),
     (bstr '':status'', bstr ''400'', 67),
     (bstr '':status'', bstr ''403'', 68),
     (bstr '':status'', bstr ''404'', 27),
     (bstr '':status'', bstr ''421'', 69),
     (bstr '':status'', bstr ''425'', 70),
     (bstr '':status'', bstr ''500'', 71),
     (bstr '':status'', bstr ''503'', 28),
     (bstr ''accept'', bstr ''*/*'', 29),
     (bstr ''accept'', bstr ''application/dns-message'', 30),
     (bstr ''accept-encoding'', bstr ''gzip, deflate, br'', 31),
     (bstr ''accept-language'', [], 72),
     (bstr ''accept-ranges'', bstr ''bytes'', 32),
     (bstr ''access-control-allow-credentials'', bstr ''FALSE'', 73),
     (bstr ''access-control-allow-credentials'', bstr ''TRUE'', 74),
     (bstr ''access-control-allow-headers'', bstr ''*'', 75),
     (bstr ''access-control-allow-headers'', bstr ''cache-control'', 33),
     (bstr ''access-control-allow-headers'', bstr ''content-type'', 34),
     (bstr ''access-control-allow-methods'', bstr ''get'', 76),
     (bstr ''access-control-allow-methods'', bstr ''get, post, options'', 77),
     (bstr ''access-control-allow-methods'', bstr ''options'', 78),
     (bstr ''access-control-allow-origin'', bstr ''*'', 35),
     (bstr ''access-control-expose-headers'', bstr ''content-length'', 79),
     (bstr ''access-control-request-headers'', bstr ''content-type'', 80),
     (bstr ''access-control-request-method'', bstr ''get'', 81),
     (bstr ''access-control-request-method'', bstr ''post'', 82),
     (bstr ''age'', bstr ''0'', 2),
     (bstr ''alt-svc'', bstr ''clear'', 83),
     (bstr ''authorization'', [], 84),
     (bstr ''cache-control'', bstr ''max-age=0'', 36),
     (bstr ''cache-control'', bstr ''max-age=2592000'', 37),
     (bstr ''cache-control'', bstr ''max-age=604800'', 38),
     (bstr ''cache-control'', bstr ''no-cache'', 39),
     (bstr ''cache-control'', bstr ''no-store'', 40),
     (bstr ''cache-control'', bstr ''public, max-age=31536000'', 41),
     (bstr ''content-disposition'', [], 3),
     (bstr ''content-encoding'', bstr ''br'', 42),
     (bstr ''content-encoding'', bstr ''gzip'', 43),
     (bstr ''content-length'', bstr ''0'', 4),
     (bstr ''content-security-policy'', bstr (''script-src 'none'; object-src 'none'; base-uri 'none'' @ [CHR 0x27]), 85),
     (bstr ''content-type'', bstr ''application/dns-message'', 44),
     (bstr ''content-type'', bstr ''application/javascript'', 45),
     (bstr ''content-type'', bstr ''application/json'', 46),
     (bstr ''content-type'', bstr ''application/x-www-form-urlencoded'', 47),
     (bstr ''content-type'', bstr ''image/gif'', 48),
     (bstr ''content-type'', bstr ''image/jpeg'', 49),
     (bstr ''content-type'', bstr ''image/png'', 50),
     (bstr ''content-type'', bstr ''text/css'', 51),
     (bstr ''content-type'', bstr ''text/html; charset=utf-8'', 52),
     (bstr ''content-type'', bstr ''text/plain'', 53),
     (bstr ''content-type'', bstr ''text/plain;charset=utf-8'', 54),
     (bstr ''cookie'', [], 5),
     (bstr ''date'', [], 6),
     (bstr ''early-data'', bstr ''1'', 86),
     (bstr ''etag'', [], 7),
     (bstr ''expect-ct'', [], 87),
     (bstr ''forwarded'', [], 88),
     (bstr ''if-modified-since'', [], 8),
     (bstr ''if-none-match'', [], 9),
     (bstr ''if-range'', [], 89),
     (bstr ''last-modified'', [], 10),
     (bstr ''link'', [], 11),
     (bstr ''location'', [], 12),
     (bstr ''origin'', [], 90),
     (bstr ''purpose'', bstr ''prefetch'', 91),
     (bstr ''range'', bstr ''bytes=0-'', 55),
     (bstr ''referer'', [], 13),
     (bstr ''server'', [], 92),
     (bstr ''set-cookie'', [], 14),
     (bstr ''strict-transport-security'', bstr ''max-age=31536000'', 56),
     (bstr ''strict-transport-security'', bstr ''max-age=31536000; includesubdomains'', 57),
     (bstr ''strict-transport-security'', bstr ''max-age=31536000; includesubdomains; preload'', 58),
     (bstr ''timing-allow-origin'', bstr ''*'', 93),
     (bstr ''upgrade-insecure-requests'', bstr ''1'', 94),
     (bstr ''user-agent'', [], 95),
     (bstr ''vary'', bstr ''accept-encoding'', 59),
     (bstr ''vary'', bstr ''origin'', 60),
     (bstr ''x-content-type-options'', bstr ''nosniff'', 61),
     (bstr ''x-forwarded-for'', [], 96),
     (bstr ''x-frame-options'', bstr ''deny'', 97),
     (bstr ''x-frame-options'', bstr ''sameorigin'', 98),
     (bstr ''x-xss-protection'', bstr ''1; mode=block'', 62)]"

definition STATIC_DECODE_TABLE :: "(bytes \<times> bytes) list" where
  "STATIC_DECODE_TABLE =
    [(bstr '':authority'', []),
     (bstr '':path'', bstr ''/''),
     (bstr ''age'', bstr ''0''),
     (bstr ''content-disposition'', []),
     (bstr ''content-length'', bstr ''0''),
     (bstr ''cookie'', []),
     (bstr ''date'', []),
     (bstr ''etag'', []),
     (bstr ''if-modified-since'', []),
     (bstr ''if-none-match'', []),
     (bstr ''last-modified'', []),
     (bstr ''link'', []),
     (bstr ''location'', []),
     (bstr ''referer'', []),
     (bstr ''set-cookie'', []),
     (bstr '':method'', bstr ''CONNECT''),
     (bstr '':method'', bstr ''DELETE''),
     (bstr '':method'', bstr ''GET''),
     (bstr '':method'', bstr ''HEAD''),
     (bstr '':method'', bstr ''OPTIONS''),
     (bstr '':method'', bstr ''POST''),
     (bstr '':method'', bstr ''PUT''),
     (bstr '':scheme'', bstr ''http''),
     (bstr '':scheme'', bstr ''https''),
     (bstr '':status'', bstr ''103''),
     (bstr '':status'', bstr ''200''),
     (bstr '':status'', bstr ''304''),
     (bstr '':status'', bstr ''404''),
     (bstr '':status'', bstr ''503''),
     (bstr ''accept'', bstr ''*/*''),
     (bstr ''accept'', bstr ''application/dns-message''),
     (bstr ''accept-encoding'', bstr ''gzip, deflate, br''),
     (bstr ''accept-ranges'', bstr ''bytes''),
     (bstr ''access-control-allow-headers'', bstr ''cache-control''),
     (bstr ''access-control-allow-headers'', bstr ''content-type''),
     (bstr ''access-control-allow-origin'', bstr ''*''),
     (bstr ''cache-control'', bstr ''max-age=0''),
     (bstr ''cache-control'', bstr ''max-age=2592000''),
     (bstr ''cache-control'', bstr ''max-age=604800''),
     (bstr ''cache-control'', bstr ''no-cache''),
     (bstr ''cache-control'', bstr ''no-store''),
     (bstr ''cache-control'', bstr ''public, max-age=31536000''),
     (bstr ''content-encoding'', bstr ''br''),
     (bstr ''content-encoding'', bstr ''gzip''),
     (bstr ''content-type'', bstr ''application/dns-message''),
     (bstr ''content-type'', bstr ''application/javascript''),
     (bstr ''content-type'', bstr ''application/json''),
     (bstr ''content-type'', bstr ''application/x-www-form-urlencoded''),
     (bstr ''content-type'', bstr ''image/gif''),
     (bstr ''content-type'', bstr ''image/jpeg''),
     (bstr ''content-type'', bstr ''image/png''),
     (bstr ''content-type'', bstr ''text/css''),
     (bstr ''content-type'', bstr ''text/html; charset=utf-8''),
     (bstr ''content-type'', bstr ''text/plain''),
     (bstr ''content-type'', bstr ''text/plain;charset=utf-8''),
     (bstr ''range'', bstr ''bytes=0-''),
     (bstr ''strict-transport-security'', bstr ''max-age=31536000''),
     (bstr ''strict-transport-security'', bstr ''max-age=31536000; includesubdomains''),
     (bstr ''strict-transport-security'', bstr ''max-age=31536000; includesubdomains; preload''),
     (bstr ''vary'', bstr ''accept-encoding''),
     (bstr ''vary'', bstr ''origin''),
     (bstr ''x-content-type-options'', bstr ''nosniff''),
     (bstr ''x-xss-protection'', bstr ''1; mode=block''),
     (bstr '':status'', bstr ''100''),
     (bstr '':status'', bstr ''204''),
     (bstr '':status'', bstr ''206''),
     (bstr '':status'', bstr ''302''),
     (bstr '':status'', bstr ''400''),
     (bstr '':status'', bstr ''403''),
     (bstr '':status'', bstr ''421''),
     (bstr '':status'', bstr ''425''),
     (bstr '':status'', bstr ''500''),
     (bstr ''accept-language'', []),
     (bstr ''access-control-allow-credentials'', bstr ''FALSE''),
     (bstr ''access-control-allow-credentials'', bstr ''TRUE''),
     (bstr ''access-control-allow-headers'', bstr ''*''),
     (bstr ''access-control-allow-methods'', bstr ''get''),
     (bstr ''access-control-allow-methods'', bstr ''get, post, options''),
     (bstr ''access-control-allow-methods'', bstr ''options''),
     (bstr ''access-control-expose-headers'', bstr ''content-length''),
     (bstr ''access-control-request-headers'', bstr ''content-type''),
     (bstr ''access-control-request-method'', bstr ''get''),
     (bstr ''access-control-request-method'', bstr ''post''),
     (bstr ''alt-svc'', bstr ''clear''),
     (bstr ''authorization'', []),
     (bstr ''content-security-policy'', bstr (''script-src 'none'; object-src 'none'; base-uri 'none'' @ [CHR 0x27])),
     (bstr ''early-data'', bstr ''1''),
     (bstr ''expect-ct'', []),
     (bstr ''forwarded'', []),
     (bstr ''if-range'', []),
     (bstr ''origin'', []),
     (bstr ''purpose'', bstr ''prefetch''),
     (bstr ''server'', []),
     (bstr ''timing-allow-origin'', bstr ''*''),
     (bstr ''upgrade-insecure-requests'', bstr ''1''),
     (bstr ''user-agent'', []),
     (bstr ''x-forwarded-for'', []),
     (bstr ''x-frame-options'', bstr ''deny''),
     (bstr ''x-frame-options'', bstr ''sameorigin'')]"

section \<open>Search\<close>

fun match_name :: "bytes \<Rightarrow> (string \<times> nat \<times> nat) list \<Rightarrow> (nat \<times> nat) option" where
  "match_name name [] = None"
| "match_name name ((s, a, b) # alts) =
     (if eq_ignore_ascii_case name (bstr s) then Some (a, b) else match_name name alts)"

text \<open>The arms of the match on the length of the name.\<close>

definition static_arms :: "(nat \<times> (string \<times> nat \<times> nat) list) list" where
  "static_arms =
    [(3, [(''age'', 43, 44)]),
     (4, [(''date'', 69, 70),
          (''etag'', 71, 72),
          (''link'', 78, 79),
          (''vary'', 92, 94)]),
     (5, [('':path'', 8, 9),
          (''range'', 82, 83)]),
     (6, [(''accept'', 25, 27),
          (''cookie'', 68, 69),
          (''origin'', 80, 81),
          (''server'', 84, 85)]),
     (7, [('':method'', 1, 8),
          ('':scheme'', 9, 11),
          ('':status'', 11, 25),
          (''alt-svc'', 44, 45),
          (''purpose'', 81, 82),
          (''referer'', 83, 84)]),
     (8, [(''if-range'', 76, 77),
          (''location'', 79, 80)]),
     (9, [(''expect-ct'', 72, 73),
          (''forwarded'', 73, 74)]),
     (10, [('':authority'', 0, 1),
           (''early-data'', 70, 71),
           (''set-cookie'', 85, 86),
           (''user-agent'', 91, 92)]),
     (12, [(''content-type'', 57, 68)]),
     (13, [(''accept-ranges'', 29, 30),
           (''authorization'', 45, 46),
           (''cache-control'', 46, 52),
           (''if-none-match'', 75, 76),
           (''last-modified'', 77, 78)]),
     (14, [(''content-length'', 55, 56)]),
     (15, [(''accept-encoding'', 27, 28),
           (''accept-language'', 28, 29),
           (''x-forwarded-for'', 95, 96),
           (''x-frame-options'', 96, 98)]),
     (16, [(''content-encoding'', 53, 55),
           (''x-xss-protection'', 98, 99)]),
     (17, [(''if-modified-since'', 74, 75)]),
     (19, [(''content-disposition'', 52, 53),
           (''timing-allow-origin'', 89, 90)]),
     (22, [(''x-content-type-options'', 94, 95)]),
     (23, [(''content-security-policy'', 56, 57)]),
     (25, [(''strict-transport-security'', 86, 89),
           (''upgrade-insecure-requests'', 90, 91)]),
     (27, [(''access-control-allow-origin'', 38, 39)]),
     (28, [(''access-control-allow-headers'', 32, 35),
           (''access-control-allow-methods'', 35, 38)]),
     (29, [(''access-control-expose-headers'', 39, 40),
           (''access-control-request-method'', 41, 43)]),
     (30, [(''access-control-request-headers'', 40, 41)]),
     (32, [(''access-control-allow-credentials'', 30, 32)])]"

definition find_static_table_range :: "bytes \<Rightarrow> (nat \<times> nat) option" where
  "find_static_table_range name =
     (case map_of static_arms (length name) of
        Some alts \<Rightarrow> match_name name alts
      | None \<Rightarrow> None)"

fun encode_static_loop :: "bytes \<Rightarrow> nat list \<Rightarrow> (u64 \<times> bool) option \<Rightarrow> (u64 \<times> bool) option" where
  "encode_static_loop value [] name_match = name_match"
| "encode_static_loop value (i # is) name_match =
     (let (_, v, idx) = STATIC_ENCODE_TABLE ! i in
      if v = [] then Some (idx, False)
      else if length value = length v \<and> value = v then Some (idx, True)
      else encode_static_loop value is (if name_match = None then Some (idx, False) else name_match))"

definition encode_static :: "bytes \<times> bytes \<Rightarrow> (u64 \<times> bool) option" where
  "encode_static h =
     (case find_static_table_range (fst h) of
        Some (a, b) \<Rightarrow> encode_static_loop (snd h) [a..<b] None
      | None \<Rightarrow> None)"

definition decode_static :: "u64 \<Rightarrow> (bytes \<times> bytes) h3_res" where
  "decode_static idx =
     (if as_u64 (length STATIC_DECODE_TABLE) \<le> idx then Err H3_QpackDecompressionFailed
      else Ok (STATIC_DECODE_TABLE ! as_usize idx))"

section \<open>What the search finds\<close>

lemma match_name_Some:
  "match_name name alts = Some (a, b) \<Longrightarrow>
   \<exists>s. (s, a, b) \<in> set alts \<and> lowercase name = lowercase (bstr s)"
  by (induction alts) (auto simp: eq_ignore_ascii_case_def split: if_splits)

lemma find_static_table_range_Some:
  assumes "find_static_table_range name = Some (a, b)"
  shows "\<exists>len alts s. (len, alts) \<in> set static_arms \<and> (s, a, b) \<in> set alts \<and>
      lowercase name = lowercase (bstr s)"
proof -
  from assms obtain alts where "map_of static_arms (length name) = Some alts" and m: "match_name name alts = Some (a, b)"
    by (auto simp: find_static_table_range_def split: option.splits)
  then have "(length name, alts) \<in> set static_arms" by (simp add: map_of_SomeD)
  with match_name_Some [OF m] show ?thesis by blast
qed

text \<open>A character that is no upper case letter: in ASCII these have bit 6 set and bit 5 clear.\<close>

lemma lowercase_bstr:
  assumes "list_all (\<lambda>c. digit6 c \<longrightarrow> digit5 c) s"
  shows "lowercase (bstr s) = bstr s"
proof -
  have "digit6 c \<longrightarrow> digit5 c \<Longrightarrow> to_ascii_lowercase (of_char c) = of_char c" for c
    by (cases c) (auto simp: to_ascii_lowercase_def word_le_nat_alt)
  with assms show ?thesis by (auto simp: bstr_def list_all_iff)
qed

text \<open>The rows of both tables as rewrite rules.\<close>

lemma upt_99:
  "[0..<99] =
    [0, 1, 2, 3, 4, 5, 6, 7, 8, 9, 10, 11, 12, 13, 14, 15, 16, 17, 18, 19, 20, 21, 22, 23, 24, 25, 26, 27, 28, 29, 30, 31, 32, 33, 34, 35, 36, 37, 38, 39, 40, 41, 42, 43, 44, 45, 46, 47, 48, 49, 50, 51, 52, 53, 54, 55, 56, 57, 58, 59, 60, 61, 62, 63, 64, 65, 66, 67, 68, 69, 70, 71, 72, 73, 74, 75, 76, 77, 78, 79, 80, 81, 82, 83, 84, 85, 86, 87, 88, 89, 90, 91, 92, 93, 94, 95, 96, 97, 98 :: nat]"
  by (simp add: upt_conv_Cons)

lemma length_tables: "length STATIC_ENCODE_TABLE = 99" "length STATIC_DECODE_TABLE = 99"
  by (simp_all add: STATIC_ENCODE_TABLE_def STATIC_DECODE_TABLE_def)

lemmas encode_rows =
  map_nth [of STATIC_ENCODE_TABLE, unfolded length_tables, THEN trans, OF STATIC_ENCODE_TABLE_def,
    unfolded upt_99 list.map list.inject]

lemmas decode_rows =
  map_nth [of STATIC_DECODE_TABLE, unfolded length_tables, THEN trans, OF STATIC_DECODE_TABLE_def,
    unfolded upt_99 list.map list.inject]

lemma static_arms_lower:
  "list_all (\<lambda>(len, alts). list_all (\<lambda>(s, a, b). list_all (\<lambda>c. digit6 c \<longrightarrow> digit5 c) s) alts) static_arms"
  by (simp add: static_arms_def)

lemma static_arms_ranges:
  "list_all (\<lambda>(len, alts). list_all (\<lambda>(s, a, b).
     b \<le> 99 \<and> list_all (\<lambda>i. fst (STATIC_ENCODE_TABLE ! i) = bstr s) [a..<b]) alts) static_arms"
  by (simp add: static_arms_def upt_conv_Cons encode_rows Suc_1 del: One_nat_def)

lemma static_tables_agree:
  "list_all (\<lambda>(n, v, i). i < 99 \<and> STATIC_DECODE_TABLE ! unat i = (n, v)) STATIC_ENCODE_TABLE"
  by (simp add: STATIC_ENCODE_TABLE_def decode_rows del: One_nat_def)

lemma encode_static_loop_decode:
  assumes "encode_static_loop v is nm = Some (idx, full)"
    and "\<forall>i \<in> set is. i < 99 \<and> fst (STATIC_ENCODE_TABLE ! i) = n"
    and "\<And>idx full. nm = Some (idx, full) \<Longrightarrow>
      \<not> full \<and> idx < 99 \<and> (\<exists>v'. STATIC_DECODE_TABLE ! unat idx = (n, v'))"
  shows "idx < 99 \<and> (\<exists>v'. STATIC_DECODE_TABLE ! unat idx = (n, v') \<and> (full \<longrightarrow> v' = v))"
  using assms
proof (induction v "is" nm arbitrary: idx full rule: encode_static_loop.induct)
  case (1 v nm)
  from 1(3) [of idx full] 1(1) show ?case by auto
next
  case (2 v i "is" nm)
  obtain v' j where row: "STATIC_ENCODE_TABLE ! i = (n, v', j)"
    using "2.prems"(2) by (cases "STATIC_ENCODE_TABLE ! i") auto
  have "STATIC_ENCODE_TABLE ! i \<in> set STATIC_ENCODE_TABLE" using "2.prems"(2) by (simp add: length_tables)
  with static_tables_agree row have j: "j < 99" "STATIC_DECODE_TABLE ! unat j = (n, v')"
    by (auto simp: list_all_iff)
  show ?case
  proof (cases "v' = [] \<or> v = v'")
    case True
    with "2.prems"(1) row j show ?thesis by (auto split: if_splits)
  next
    case False
    let ?nm = "if nm = None then Some (j, False) else nm"
    from False "2.prems"(1) row have "encode_static_loop v is ?nm = Some (idx, full)" by auto
    moreover have "\<forall>i \<in> set is. i < 99 \<and> fst (STATIC_ENCODE_TABLE ! i) = n" using "2.prems"(2) by simp
    moreover have "\<not> full \<and> idx < 99 \<and> (\<exists>v'. STATIC_DECODE_TABLE ! unat idx = (n, v'))"
      if "?nm = Some (idx, full)" for idx full
      using that j "2.prems"(3) by (auto split: if_splits)
    ultimately show ?thesis using False row by (intro "2.IH") auto
  qed
qed

text \<open>What the encoder refers to is what the decoder finds: the field's name in lower case, and its
  value too when the whole field line matched.\<close>

lemma encode_static_decode:
  assumes "encode_static (n, v) = Some (idx, full)"
  shows "\<exists>v'. decode_static idx = Ok (lowercase n, v') \<and> (full \<longrightarrow> v' = v)" and "idx < 99"
proof -
  from assms obtain a b where r: "find_static_table_range n = Some (a, b)"
    and l: "encode_static_loop v [a..<b] None = Some (idx, full)"
    by (auto simp: encode_static_def split: option.splits)
  from find_static_table_range_Some [OF r] obtain len alts s where s: "(len, alts) \<in> set static_arms"
    "(s, a, b) \<in> set alts" "lowercase n = lowercase (bstr s)"
    by blast
  with static_arms_lower have n: "lowercase n = bstr s" by (fastforce simp: list_all_iff intro: lowercase_bstr)
  from s static_arms_ranges have "\<forall>i \<in> set [a..<b]. i < 99 \<and> fst (STATIC_ENCODE_TABLE ! i) = lowercase n"
    unfolding n by (fastforce simp: list_all_iff)
  from encode_static_loop_decode [OF l this] have
    "idx < 99" "\<exists>v'. STATIC_DECODE_TABLE ! unat idx = (lowercase n, v') \<and> (full \<longrightarrow> v' = v)" by auto
  then show "\<exists>v'. decode_static idx = Ok (lowercase n, v') \<and> (full \<longrightarrow> v' = v)" and "idx < 99"
    by (auto simp: decode_static_def length_tables not_le)
qed

end
