(* ===== verification/Qpack.thy ===== *)
theory Qpack
  imports Qpack_Int Qpack_Static H3_Huffman
begin

text \<open>
  QPACK field sections (src/h3/qpack/qpack.rs): the representations of a field line, the encoder, which
  uses the static table, Huffman strings where they are shorter and literals otherwise, and the decoder.

  \<open>qpack_encode_emits\<close> gives the octets of a field section; on these the decoder returns the field
  lines with their names in lower case, or refuses them by their total size. Whatever the input, the
  decoder ends, does not panic, and returns no more than the size limit allows.
\<close>

unbundle bit_operations_syntax

section \<open>Data\<close>

text \<open>A field line: name and value (\<open>Header\<close>, \<open>HeaderRef\<close> and pairs of slices in src/h3/h3.rs).\<close>

type_synonym header = "bytes \<times> bytes"

definition INDEXED :: u8 where "INDEXED = 0x80"
definition INDEXED_WITH_POST_BASE :: u8 where "INDEXED_WITH_POST_BASE = 0x10"
definition LITERAL_WITH_NAME_REF :: u8 where "LITERAL_WITH_NAME_REF = 0x40"
definition LITERAL_WITH_POST_BASE :: u8 where "LITERAL_WITH_POST_BASE = 0"
definition LITERAL :: u8 where "LITERAL = 0x20"

lemmas repr_consts = INDEXED_def INDEXED_WITH_POST_BASE_def LITERAL_WITH_NAME_REF_def
  LITERAL_WITH_POST_BASE_def LITERAL_def

datatype representation =
    Indexed
  | IndexedWithPostBase
  | LiteralWithNameRef
  | LiteralWithPostBase
  | Literal

definition representation_from :: "u8 \<Rightarrow> representation" where
  "representation_from b =
     (if b AND INDEXED = INDEXED then Indexed
      else if b AND LITERAL_WITH_NAME_REF = LITERAL_WITH_NAME_REF then LiteralWithNameRef
      else if b AND LITERAL = LITERAL then Literal
      else if b AND INDEXED_WITH_POST_BASE = INDEXED_WITH_POST_BASE then IndexedWithPostBase
      else LiteralWithPostBase)"

section \<open>The encoder\<close>

definition write_h3 :: "bytes \<Rightarrow> http3_error writer" where
  "write_h3 bs w = map_err h3_from (write_bytes bs w)"

definition encode_str :: "bytes \<Rightarrow> nat \<Rightarrow> http3_error writer" where
  "encode_str v prefix =
     (let len = encode_output_length v False in
      if len < length v
      then write_sum [encode_int (as_u64 len) 0x80 prefix, huffman_encode v False]
      else write_sum [encode_int (as_u64 (length v)) 0 prefix, write_h3 v])"

definition encode_field :: "header \<Rightarrow> http3_error writer list" where
  "encode_field hdr =
     (case encode_static hdr of
        Some (idx, True) \<Rightarrow> [encode_int idx (INDEXED OR 0x40) 6]
      | Some (idx, False) \<Rightarrow>
          [encode_int idx (LITERAL_WITH_NAME_REF OR 0x10) 4, encode_str (snd hdr) 7]
      | None \<Rightarrow>
          (let len = encode_output_length (fst hdr) True in
           if len < length (fst hdr)
           then [encode_int (as_u64 len) (LITERAL OR 0x08) 3, huffman_encode (fst hdr) True]
           else [encode_int (as_u64 (length (fst hdr))) LITERAL 3, write_h3 (lowercase (fst hdr))]) @
          [encode_str (snd hdr) 7])"

definition qpack_encode :: "header list \<Rightarrow> http3_error writer" where
  "qpack_encode headers =
     write_sum (encode_int 0 0 8 # encode_int 0 0 7 # concat (map encode_field headers))"

section \<open>The decoder\<close>

definition decode_str :: "bytes \<Rightarrow> (bytes \<times> nat) h3_res" where
  "decode_str buf0 =
     (if buf0 = [] then Err H3_QpackDecompressionFailed
      else
        let huff = (hd buf0 AND 0x80 = 0x80) in
        bind_r (decode_int buf0 7) (\<lambda>(str_len, off).
        bind_r (map_err h3_from (read_bytes (as_usize str_len) (drop off buf0))) (\<lambda>(str_val, buf).
        bind_r (if huff then huffman_decode str_val else Ok str_val) (\<lambda>val.
        Ok (val, length buf0 - length buf)))))"

text \<open>One turn of the decoder's loop up to the check of the size: the field line and the input left.\<close>

definition decode_field :: "bytes \<Rightarrow> (header \<times> bytes) h3_res" where
  "decode_field buf =
     (let first = hd buf in
      case representation_from first of
        Indexed \<Rightarrow>
          (let static_idx = (first AND 0x40 = 0x40) in
           bind_r (decode_int buf 6) (\<lambda>(index, off).
           if \<not> static_idx then Err H3_QpackDecompressionFailed
           else bind_r (decode_static index) (\<lambda>(name, value). Ok ((name, value), drop off buf))))
      | IndexedWithPostBase \<Rightarrow>
          bind_r (decode_int buf 4) (\<lambda>(index, _). Err H3_QpackDecompressionFailed)
      | LiteralWithNameRef \<Rightarrow>
          (let static_idx = (first AND 0x10 = 0x10) in
           bind_r (decode_int buf 4) (\<lambda>(name_idx, off).
           let buf = drop off buf in
           bind_r (decode_str buf) (\<lambda>(value, off).
           let buf = drop off buf in
           if \<not> static_idx then Err H3_QpackDecompressionFailed
           else bind_r (decode_static name_idx) (\<lambda>(name, _). Ok ((name, value), buf)))))
      | LiteralWithPostBase \<Rightarrow> Err H3_QpackDecompressionFailed
      | Literal \<Rightarrow>
          (let name_huff = (first AND 0x08 = 0x08) in
           bind_r (decode_int buf 3) (\<lambda>(name_len, off).
           bind_r (map_err h3_from (read_bytes (as_usize name_len) (drop off buf))) (\<lambda>(name, buf).
           bind_r (if name_huff then huffman_decode name else Ok name) (\<lambda>name.
           bind_r (decode_str buf) (\<lambda>(value, off).
           Ok ((name, value), drop off buf)))))))"

text \<open>Each turn consumes at least one octet, so the loop ends.\<close>

lemma read_bytes_length: "read_bytes n b = Ok (v, r) \<Longrightarrow> length r \<le> length b"
  by (rule consumes_length [OF read_bytes_consumes])

lemma decode_int_bounds: "decode_int buf n = Ok (v, k) \<Longrightarrow> 1 \<le> k \<and> k \<le> length buf"
  using decode_int_consumed [of buf n v k] by blast

lemma decode_field_shorter:
  assumes "decode_field buf = Ok (h, rest)" and "buf \<noteq> []"
  shows "length rest < length buf"
  using assms
  by (auto simp: decode_field_def Let_def bind_r_Ok_iff split: representation.splits if_splits
      dest!: decode_int_bounds read_bytes_length)

function qpack_decode_loop :: "bytes \<Rightarrow> u64 \<Rightarrow> header list \<Rightarrow> header list h3_res" where
  "qpack_decode_loop buf left out =
     (if buf = [] then Ok out
      else
        bind_r (decode_field buf) (\<lambda>(h, buf).
        bind_r (ok_or (checked_sub left (as_u64 (length (fst h) + length (snd h) + 32)))
                 H3_QpackDecompressionFailed) (\<lambda>left.
        qpack_decode_loop buf left (out @ [h]))))"
  by auto
termination
  by (relation "measure (\<lambda>(buf, _). length buf)") (auto dest: decode_field_shorter)

declare qpack_decode_loop.simps [simp del]

definition qpack_decode :: "bytes \<Rightarrow> u64 \<Rightarrow> (header list \<times> nat) h3_res" where
  "qpack_decode buf0 max_size =
     bind_r (decode_int buf0 8) (\<lambda>(req_insert_count, off).
     let buf = drop off buf0 in
     bind_r (decode_int buf 7) (\<lambda>(base, off).
     bind_r (qpack_decode_loop (drop off buf) max_size []) (\<lambda>out.
     Ok (out, length buf0))))"

section \<open>What the encoder appends\<close>

definition str_bytes :: "bytes \<Rightarrow> bytes" where
  "str_bytes v =
     (let h = pack_bits (huff_bits v) in
      if length h < length v then prefix_int_bytes (as_u64 (length h)) 0x80 7 @ h
      else prefix_int_bytes (as_u64 (length v)) 0 7 @ v)"

definition field_bytes :: "header \<Rightarrow> bytes" where
  "field_bytes hdr =
     (case encode_static hdr of
        Some (idx, True) \<Rightarrow> prefix_int_bytes idx 0xC0 6
      | Some (idx, False) \<Rightarrow> prefix_int_bytes idx 0x50 4 @ str_bytes (snd hdr)
      | None \<Rightarrow>
          (let n = lowercase (fst hdr); h = pack_bits (huff_bits n) in
           if length h < length n then prefix_int_bytes (as_u64 (length h)) 0x28 3 @ h
           else prefix_int_bytes (as_u64 (length n)) 0x20 3 @ n) @
          str_bytes (snd hdr))"

definition qpack_bytes :: "header list \<Rightarrow> bytes" where
  "qpack_bytes headers = [0, 0] @ concat (map field_bytes headers)"

lemma write_h3_emits: "emits (H3_TransportError BufferTooShort) (write_h3 bs) bs"
  unfolding write_h3_def [abs_def] by (intro emits_h3 write_bytes_emits)

lemma emits_pair: "emits e f bs \<Longrightarrow> emits e g cs \<Longrightarrow> emits e (write_sum [f, g]) (bs @ cs)"
  using emits_write_sum [of e "[f, g]" "[bs, cs]"] by simp

lemma encode_str_emits: "emits (H3_TransportError BufferTooShort) (encode_str v 7) (str_bytes v)"
  using huffman_encode_emits [of v False]
  by (auto simp: encode_str_def str_bytes_def encode_output_length Let_def
      intro!: emits_pair encode_int_emits write_h3_emits)

lemma field_cases [case_names indexed name_ref huffman plain]:
  fixes h :: header
  obtains (indexed) idx where "encode_static h = Some (idx, True)"
    | (name_ref) idx where "encode_static h = Some (idx, False)"
    | (huffman) "encode_static h = None"
        "length (pack_bits (huff_bits (lowercase (fst h)))) < length (fst h)"
    | (plain) "encode_static h = None"
        "\<not> length (pack_bits (huff_bits (lowercase (fst h)))) < length (fst h)"
  by (metis (full_types) option.exhaust surj_pair)

lemma encode_field_emits:
  "\<exists>bss. list_all2 (emits (H3_TransportError BufferTooShort)) (encode_field h) bss \<and> concat bss = field_bytes h"
proof -
  note emit = encode_int_emits encode_str_emits write_h3_emits huffman_encode_emits
  let ?E = "list_all2 (emits (H3_TransportError BufferTooShort)) (encode_field h)"
  let ?n = "lowercase (fst h)" and ?v = "str_bytes (snd h)"
  let ?h = "pack_bits (huff_bits ?n)"
  show ?thesis
  proof (cases h rule: field_cases)
    case (indexed idx)
    then have "?E [prefix_int_bytes idx 0xC0 6]" by (simp add: encode_field_def repr_consts emit)
    with indexed show ?thesis by (intro exI [of _ "[prefix_int_bytes idx 0xC0 6]"]) (simp add: field_bytes_def)
  next
    case (name_ref idx)
    then have "?E [prefix_int_bytes idx 0x50 4, ?v]" by (simp add: encode_field_def repr_consts emit)
    with name_ref show ?thesis by (intro exI [of _ "[prefix_int_bytes idx 0x50 4, ?v]"]) (simp add: field_bytes_def)
  next
    case huffman
    then have "?E [prefix_int_bytes (as_u64 (length ?h)) 0x28 3, ?h, ?v]"
      using huffman_encode_emits [of "fst h" True]
      by (simp add: encode_field_def repr_consts emit encode_output_length)
    with huffman show ?thesis
      by (intro exI [of _ "[prefix_int_bytes (as_u64 (length ?h)) 0x28 3, ?h, ?v]"]) (simp add: field_bytes_def Let_def)
  next
    case plain
    then have "?E [prefix_int_bytes (as_u64 (length ?n)) 0x20 3, ?n, ?v]"
      using encode_int_emits [of "as_u64 (length ?n)" "0x20" 3]
      by (simp add: encode_field_def repr_consts emit encode_output_length)
    with plain show ?thesis
      by (intro exI [of _ "[prefix_int_bytes (as_u64 (length ?n)) 0x20 3, ?n, ?v]"]) (simp add: field_bytes_def Let_def)
  qed
qed

lemma encode_fields_emit:
  "\<exists>bss. list_all2 (emits (H3_TransportError BufferTooShort)) (concat (map encode_field hs)) bss \<and>
     concat bss = concat (map field_bytes hs)"
proof (induction hs)
  case (Cons h hs)
  then obtain bss where "list_all2 (emits (H3_TransportError BufferTooShort)) (concat (map encode_field hs)) bss"
    "concat bss = concat (map field_bytes hs)" by blast
  moreover obtain css where "list_all2 (emits (H3_TransportError BufferTooShort)) (encode_field h) css"
    "concat css = field_bytes h" using encode_field_emits by blast
  ultimately show ?case by (intro exI [of _ "css @ bss"]) (simp add: list_all2_appendI)
qed simp

lemma qpack_encode_emits:
  "emits (H3_TransportError BufferTooShort) (qpack_encode hs) (qpack_bytes hs)"
proof -
  obtain bss where bss: "list_all2 (emits (H3_TransportError BufferTooShort)) (concat (map encode_field hs)) bss"
    "concat bss = concat (map field_bytes hs)" using encode_fields_emit by blast
  have z: "prefix_int_bytes 0 0 8 = [0]" "prefix_int_bytes 0 0 7 = [0]"
    by (simp_all add: prefix_int_bytes_def prefix_mask_def)
  have "list_all2 (emits (H3_TransportError BufferTooShort))
      (encode_int 0 0 8 # encode_int 0 0 7 # concat (map encode_field hs)) ([0] # [0] # bss)"
    using bss(1) encode_int_emits [of 0 0 8] encode_int_emits [of 0 0 7] by (simp add: z)
  from emits_write_sum [OF this] bss(2) show ?thesis by (simp add: qpack_encode_def qpack_bytes_def)
qed

section \<open>Decoding what was encoded\<close>

lemma prefix_int_bytes_flag:
  assumes "n \<le> 8" and "f AND ucast (prefix_mask n) = 0"
  shows "hd (prefix_int_bytes i first n) AND f = first AND f"
proof -
  have f: "\<not> (bit f k \<and> k < n)" for k
  proof
    assume "bit f k \<and> k < n"
    with assms(1) have "bit (f AND ucast (prefix_mask n)) k" by (simp add: unat_prefix_mask(2) bit_simps)
    with assms(2) show False by simp
  qed
  have x: "(first OR ucast x) AND f = first AND f" if "unat (x :: u64) < 2 ^ n" for x
    by (rule bit_word_eqI) (use f bit_lt [OF that] in \<open>auto simp: bit_simps\<close>)
  have m: "unat (prefix_mask n) < 2 ^ n" using unat_prefix_mask(1) [OF assms(1)] by simp
  moreover have "unat i < 2 ^ n" if "i < prefix_mask n" using that m by (simp add: word_less_nat_alt)
  ultimately show ?thesis by (auto simp: prefix_int_bytes_def x)
qed

lemma prefix_int_bytes_nonempty [simp]: "prefix_int_bytes i first n \<noteq> []"
  by (simp add: prefix_int_bytes_def)

lemma prefix_masks: "prefix_mask 3 = 7" "prefix_mask 4 = 15" "prefix_mask 6 = 63" "prefix_mask 7 = 127" "prefix_mask 8 = 255"
  by (simp_all add: prefix_mask_def)

lemma unat_as_u64: "n < 2 ^ 64 \<Longrightarrow> unat (as_u64 n) = n"
  by (simp add: unat_of_nat_u64)

lemma decode_str_bytes:
  assumes "length v < 2 ^ 64"
  shows "decode_str (str_bytes v @ rest) = Ok (v, length (str_bytes v))"
proof -
  let ?h = "pack_bits (huff_bits v)"
  show ?thesis
  proof (cases "length ?h < length v")
    case True
    have "hd (prefix_int_bytes (as_u64 (length ?h)) 0x80 7) AND 0x80 = 0x80"
      by (subst prefix_int_bytes_flag) (simp_all add: prefix_masks)
    with True assms decode_int_bytes [of 7 "0x80" "as_u64 (length ?h)" "?h @ rest"] show ?thesis
      by (simp add: decode_str_def str_bytes_def Let_def prefix_masks unat_as_u64 read_bytes_append huffman_decode_pack)
  next
    case False
    have "hd (prefix_int_bytes (as_u64 (length v)) 0 7) AND 0x80 = 0"
      by (subst prefix_int_bytes_flag) (simp_all add: prefix_masks)
    with False assms decode_int_bytes [of 7 "0" "as_u64 (length v)" "v @ rest"] show ?thesis
      by (simp add: decode_str_def str_bytes_def Let_def prefix_masks unat_as_u64 read_bytes_append)
  qed
qed

lemma decode_field_bytes:
  assumes n: "length n < 2 ^ 64" and v: "length v < 2 ^ 64"
  shows "decode_field (field_bytes (n, v) @ rest) = Ok ((lowercase n, v), rest)"
proof -
  note defs = decode_field_def field_bytes_def representation_from_def repr_consts Let_def prefix_masks
    prefix_int_bytes_flag decode_int_bytes decode_str_bytes [OF v] unat_as_u64 read_bytes_append
    huffman_decode_pack
  show ?thesis
  proof (cases "(n, v)" rule: field_cases)
    case (indexed idx)
    from encode_static_decode(1) [OF indexed] have "decode_static idx = Ok (lowercase n, v)" by auto
    with indexed show ?thesis by (simp add: defs)
  next
    case (name_ref idx)
    from encode_static_decode(1) [OF name_ref] obtain v' where "decode_static idx = Ok (lowercase n, v')" by auto
    with name_ref show ?thesis by (simp add: defs)
  next
    case huffman
    with n show ?thesis by (simp add: defs)
  next
    case plain
    with n show ?thesis by (simp add: defs)
  qed
qed

definition field_section_size :: "header list \<Rightarrow> nat" where
  "field_section_size hs = (\<Sum>(n, v) \<leftarrow> hs. length n + length v + 32)"

definition lower_header :: "header \<Rightarrow> header" where
  "lower_header h = (lowercase (fst h), snd h)"

lemma field_bytes_nonempty: "field_bytes h \<noteq> []"
  by (cases h rule: field_cases) (simp_all add: field_bytes_def Let_def)

lemma qpack_decode_loop_bytes:
  "field_section_size hs < 2 ^ 64 \<Longrightarrow>
   qpack_decode_loop (concat (map field_bytes hs)) left out =
     (if field_section_size hs \<le> unat left then Ok (out @ map lower_header hs)
      else Err H3_QpackDecompressionFailed)"
proof (induction hs arbitrary: left out)
  case Nil
  then show ?case by (simp add: qpack_decode_loop.simps field_section_size_def)
next
  case (Cons h hs)
  obtain n v where h: "h = (n, v)" by fastforce
  let ?k = "length n + length v + 32"
  have size: "field_section_size (h # hs) = ?k + field_section_size hs" by (simp add: h field_section_size_def)
  with Cons.prems have k: "unat (as_u64 ?k) = ?k" "field_section_size hs < 2 ^ 64" "length n < 2 ^ 64" "length v < 2 ^ 64"
    by (simp_all only: unat_as_u64)
  have "qpack_decode_loop (concat (map field_bytes (h # hs))) left out =
    bind_r (ok_or (checked_sub left (as_u64 ?k)) H3_QpackDecompressionFailed) (\<lambda>left.
      qpack_decode_loop (concat (map field_bytes hs)) left (out @ [(lowercase n, v)]))"
    by (subst qpack_decode_loop.simps) (simp add: h field_bytes_nonempty decode_field_bytes [OF k(3,4)])
  also have "\<dots> = (if field_section_size (h # hs) \<le> unat left then Ok (out @ map lower_header (h # hs))
      else Err H3_QpackDecompressionFailed)"
    using Cons.IH [OF k(2)] k(1) size
    by (auto simp: checked_sub_def word_le_nat_alt unat_sub h lower_header_def)
  finally show ?case .
qed

lemma qpack_decode_bytes:
  assumes "field_section_size hs < 2 ^ 64"
  shows "qpack_decode (qpack_bytes hs) max_size =
      (if field_section_size hs \<le> unat max_size then Ok (map lower_header hs, length (qpack_bytes hs))
       else Err H3_QpackDecompressionFailed)"
proof -
  have "decode_int (qpack_bytes hs) 8 = Ok (0, 1)" "decode_int (drop 1 (qpack_bytes hs)) 7 = Ok (0, 1)"
    by (simp_all add: qpack_bytes_def decode_int_def read_u8_def be_word_singleton prefix_masks)
  with qpack_decode_loop_bytes [OF assms, of max_size "[]"] show ?thesis
    by (simp add: qpack_decode_def qpack_bytes_def Let_def)
qed

section \<open>The decoder on any input\<close>

lemma huffman_decode_no_panic [no_panic]: "huffman_decode buf \<noteq> Panic"
  by (auto simp: huffman_decode_run split: option.splits)

lemma decode_str_no_panic [no_panic]: "decode_str buf \<noteq> Panic"
  using decode_int_no_panic huffman_decode_no_panic
  by (auto simp: decode_str_def Let_def bind_r_Panic_iff split: if_splits)

lemma decode_field_no_panic [no_panic]: "decode_field buf \<noteq> Panic"
  using decode_int_no_panic huffman_decode_no_panic decode_str_no_panic
  by (auto simp: decode_field_def Let_def bind_r_Panic_iff decode_static_def
      split: representation.splits if_splits)

lemma qpack_decode_loop_no_panic [no_panic]: "qpack_decode_loop buf left out \<noteq> Panic"
proof (induction buf left out rule: qpack_decode_loop.induct)
  case (1 buf left out)
  show ?case
    by (subst qpack_decode_loop.simps) (use 1 decode_field_no_panic in \<open>auto simp: bind_r_Panic_iff\<close>)
qed

text \<open>A Huffman string is at most eight fifths as long as its octets: no code has fewer than five bits.\<close>

lemma length_huff_bits: "5 * length s \<le> length (huff_bits s)"
proof (induction s)
  case (Cons a s)
  obtain n c where nc: "ENCODE_TABLE ! unat a = (n, c)" by fastforce
  from ENCODE_TABLE_nth(1) [OF nc] Cons show ?case by (simp add: huff_bits_def code_bits_def nc)
qed (simp add: huff_bits_def)

lemma huffman_decode_length: "huffman_decode buf = Ok s \<Longrightarrow> 5 * length s \<le> 8 * length buf"
proof -
  assume "huffman_decode buf = Ok s"
  then have buf: "buf = pack_bits (huff_bits s)" by (simp add: huffman_decode_iff)
  have "length (huff_bits s) \<le> 8 * length buf"
    unfolding buf length_pack_bits by (auto split: if_splits)
  with length_huff_bits [of s] show ?thesis by linarith
qed

lemma decode_str_length: "decode_str buf = Ok (v, k) \<Longrightarrow> length v \<le> 2 * length buf"
  by (auto simp: decode_str_def Let_def bind_r_Ok_iff read_bytes_def split: if_splits
      dest!: huffman_decode_length)

lemma STATIC_DECODE_lengths: "list_all (\<lambda>(n, v). length n + length v < 100) STATIC_DECODE_TABLE"
  by (simp add: STATIC_DECODE_TABLE_def bstr_def)

lemma decode_static_length: "decode_static idx = Ok (n, v) \<Longrightarrow> length n + length v < 100"
  using STATIC_DECODE_lengths
  by (auto simp: decode_static_def list_all_length length_tables not_le word_less_nat_alt split: if_splits)

lemma decode_field_length:
  assumes "decode_field buf = Ok ((n, v), rest)"
  shows "length n + length v \<le> 4 * length buf + 100"
  using assms
  by (auto simp: decode_field_def Let_def bind_r_Ok_iff read_bytes_def split: representation.splits if_splits
      dest!: decode_static_length decode_str_length huffman_decode_length)

lemma qpack_decode_loop_size:
  assumes "qpack_decode_loop buf left out = Ok hs" and "length buf < 2 ^ 61"
  shows "\<exists>hs'. hs = out @ hs' \<and> field_section_size hs' \<le> unat left"
  using assms
proof (induction buf left out rule: qpack_decode_loop.induct)
  case (1 buf left out)
  show ?case
  proof (cases "buf = []")
    case True
    with 1(2) show ?thesis by (simp add: qpack_decode_loop.simps field_section_size_def)
  next
    case False
    with 1(2) obtain h rest left' where f: "decode_field buf = Ok (h, rest)"
      and l: "checked_sub left (as_u64 (length (fst h) + length (snd h) + 32)) = Some left'"
      and r: "qpack_decode_loop rest left' (out @ [h]) = Ok hs"
      by (subst (asm) qpack_decode_loop.simps) (auto simp: bind_r_Ok_iff ok_or_Ok_iff)
    have "length rest < 2 ^ 61" using decode_field_shorter [OF f False] 1(3) by simp
    from 1(1) [OF False f refl _ r this] l obtain hs' where
      hs': "hs = (out @ [h]) @ hs'" "field_section_size hs' \<le> unat left'" by (auto simp: ok_or_Ok_iff)
    have "length (fst h) + length (snd h) + 32 < 2 ^ 64"
      using decode_field_length [of buf "fst h" "snd h" rest] f 1(3) by simp
    then have "unat (as_u64 (length (fst h) + length (snd h) + 32)) = length (fst h) + length (snd h) + 32"
      by (simp only: unat_as_u64)
    with l hs'(2) have "field_section_size (h # hs') \<le> unat left"
      by (auto simp: checked_sub_def field_section_size_def unat_sub word_le_nat_alt split_def split: if_splits)
    with hs'(1) show ?thesis by auto
  qed
qed

section \<open>Properties\<close>

text \<open>C22: Whatever headers the QPACK encoder writes, the decoder reads back: the field lines in order, names
  in lower case, all octets consumed; exactly when their size is within the limit, and otherwise it
  reports a decompression failure.
\<close>

theorem qpack_roundtrip:
  assumes "qpack_encode hs (new_wbuf n) = Ok (k, w)" and "field_section_size hs < 2 ^ 64"
  shows "k = length (written w) \<and>
    qpack_decode (written w) max_size =
      (if field_section_size hs \<le> unat max_size then Ok (map lower_header hs, k)
       else Err H3_QpackDecompressionFailed)"
proof -
  have "k = length (qpack_bytes hs) \<and> w = put_slice (qpack_bytes hs) (new_wbuf n)"
    using assms(1) qpack_encode_emits [of hs] by (auto simp: emits_def split: if_splits)
  then have "k = length (qpack_bytes hs)" "written w = qpack_bytes hs" by (auto simp: new_wbuf_def)
  with qpack_decode_bytes [OF assms(2)] show ?thesis by simp
qed

theorem qpack_roundtrip_witness:
  "\<exists>k w. qpack_encode [(bstr '':status'', bstr ''200'')] (new_wbuf 16) = Ok (k, w) \<and>
     qpack_decode (written w) 1024 = Ok ([(bstr '':status'', bstr ''200'')], k)"
proof -
  let ?h = "(bstr '':status'', bstr ''200'')"
  have "find_static_table_range (bstr '':status'') = Some (11, 25)"
    by (simp add: find_static_table_range_def static_arms_def eq_ignore_ascii_case_def bstr_def to_ascii_lowercase_def)
  then have "encode_static ?h = Some (25, True)"
    by (simp add: encode_static_def upt_conv_Cons encode_rows) (simp add: bstr_def)
  then have b: "qpack_bytes [?h] = [0, 0, 0xd9]"
    by (simp add: qpack_bytes_def field_bytes_def prefix_int_bytes_def prefix_mask_def)
  have e: "qpack_encode [?h] (new_wbuf 16) = Ok (3, put_slice [0, 0, 0xd9] (new_wbuf 16))"
    using qpack_encode_emits [of "[?h]"] by (simp add: emits_def b new_wbuf_def)
  have s: "field_section_size [?h] = 42" "lower_header ?h = ?h"
    by (simp_all add: field_section_size_def lower_header_def bstr_def to_ascii_lowercase_def)
  from qpack_roundtrip [OF e, of 1024] e s show ?thesis
    by (intro exI [of _ 3] exI [of _ "put_slice [0, 0, 0xd9] (new_wbuf 16)"])
       (auto simp: new_wbuf_def)
qed

text \<open>C23: On any input the QPACK decoder ends without a panic, and what it accepts is within the size
  limit: the names and values it returns, with 32 per field line, do not exceed it.
\<close>

theorem qpack_decode_safe:
  assumes "length buf < 2 ^ 61"
  shows "qpack_decode buf max_size \<noteq> Panic \<and>
    (\<forall>hs k. qpack_decode buf max_size = Ok (hs, k) \<longrightarrow>
       k = length buf \<and> field_section_size hs \<le> unat max_size)"
proof (intro conjI allI impI)
  show "qpack_decode buf max_size \<noteq> Panic"
    using decode_int_no_panic qpack_decode_loop_no_panic
    by (auto simp: qpack_decode_def Let_def bind_r_Panic_iff)
next
  fix hs k
  assume "qpack_decode buf max_size = Ok (hs, k)"
  then obtain o1 o2 where l: "qpack_decode_loop (drop o1 (drop o2 buf)) max_size [] = Ok hs" and k: "k = length buf"
    by (auto simp: qpack_decode_def Let_def bind_r_Ok_iff)
  from k show "k = length buf" .
  from qpack_decode_loop_size [OF l] assms show "field_section_size hs \<le> unat max_size" by auto
qed

theorem qpack_decode_safe_witness:
  "length [0, 0, 0xd9 :: u8] < 2 ^ 61 \<and> qpack_decode [0, 0, 0xd9] 1024 \<noteq> Panic"
  using qpack_decode_safe [of "[0, 0, 0xd9]" 1024] by simp

end
