(* ===== verification/H3_Frame.thy ===== *)
theory H3_Frame
  imports H3_Error
begin

text \<open>
  HTTP/3 frames (src/h3/frame.rs): the frame types, the encoder, and the decoder of a frame and of its
  payload. \<open>payload_length - encode_varint_len(..)\<close> is a \<open>u64\<close> subtraction that wraps in a release
  build when the length field is too small; the read of that many bytes then fails.
\<close>

section \<open>Data\<close>

definition DATA_FRAME_TYPE :: u64 where "DATA_FRAME_TYPE = 0x0"
definition HEADERS_FRAME_TYPE :: u64 where "HEADERS_FRAME_TYPE = 0x1"
definition CANCEL_PUSH_FRAME_TYPE :: u64 where "CANCEL_PUSH_FRAME_TYPE = 0x3"
definition SETTINGS_FRAME_TYPE :: u64 where "SETTINGS_FRAME_TYPE = 0x4"
definition PUSH_PROMISE_FRAME_TYPE :: u64 where "PUSH_PROMISE_FRAME_TYPE = 0x5"
definition GOAWAY_FRAME_TYPE :: u64 where "GOAWAY_FRAME_TYPE = 0x7"
definition MAX_PUSH_ID_FRAME_TYPE :: u64 where "MAX_PUSH_ID_FRAME_TYPE = 0xD"
definition PRIORITY_UPDATE_FRAME_REQUEST_TYPE :: u64 where "PRIORITY_UPDATE_FRAME_REQUEST_TYPE = 0xF0700"
definition PRIORITY_UPDATE_FRAME_PUSH_TYPE :: u64 where "PRIORITY_UPDATE_FRAME_PUSH_TYPE = 0xF0701"

definition SETTINGS_QPACK_MAX_TABLE_CAPACITY :: u64 where "SETTINGS_QPACK_MAX_TABLE_CAPACITY = 0x1"
definition SETTINGS_MAX_FIELD_SECTION_SIZE :: u64 where "SETTINGS_MAX_FIELD_SECTION_SIZE = 0x6"
definition SETTINGS_QPACK_BLOCKED_STREAMS :: u64 where "SETTINGS_QPACK_BLOCKED_STREAMS = 0x7"
definition SETTINGS_ENABLE_CONNECT_PROTOCOL :: u64 where "SETTINGS_ENABLE_CONNECT_PROTOCOL = 0x8"

definition MAX_SETTINGS_PAYLOAD_SIZE :: u64 where "MAX_SETTINGS_PAYLOAD_SIZE = 256"

lemmas h3_type_defs = DATA_FRAME_TYPE_def HEADERS_FRAME_TYPE_def CANCEL_PUSH_FRAME_TYPE_def
  SETTINGS_FRAME_TYPE_def PUSH_PROMISE_FRAME_TYPE_def GOAWAY_FRAME_TYPE_def MAX_PUSH_ID_FRAME_TYPE_def
  PRIORITY_UPDATE_FRAME_REQUEST_TYPE_def PRIORITY_UPDATE_FRAME_PUSH_TYPE_def

lemmas h3_setting_defs = SETTINGS_QPACK_MAX_TABLE_CAPACITY_def SETTINGS_MAX_FIELD_SECTION_SIZE_def
  SETTINGS_QPACK_BLOCKED_STREAMS_def SETTINGS_ENABLE_CONNECT_PROTOCOL_def

record h3_settings =
  max_field_section_size :: "u64 option"
  qpack_max_table_capacity :: "u64 option"
  qpack_blocked_streams :: "u64 option"
  connect_protocol_enabled :: "u64 option"
  raw_settings :: "(u64 \<times> u64) list option"

datatype h3_frame =
    H3Data bytes
  | H3Headers bytes
  | H3CancelPush u64
  | H3Settings h3_settings
  | H3PushPromise u64 bytes
  | H3GoAway u64
  | H3MaxPushId u64
  | H3PriorityUpdateRequest u64 bytes
  | H3PriorityUpdatePush u64 bytes
  | H3Unknown u64 u64

section \<open>Encoding\<close>

definition h3_varint :: "u64 \<Rightarrow> http3_error writer" where
  "h3_varint v w = map_err h3_from (write_varint v w)"

definition h3_bytes :: "bytes \<Rightarrow> http3_error writer" where
  "h3_bytes bs w = map_err h3_from (write_bytes bs w)"

text \<open>\<open>codec::encode_varint_len\<close> in an expression of HTTP/3 code.\<close>

definition h3_varint_len :: "u64 \<Rightarrow> nat h3_res" where
  "h3_varint_len v = map_err h3_from (encode_varint_len v)"

definition settings_fields :: "h3_settings \<Rightarrow> (u64 \<times> u64) list" where
  "settings_fields s =
     (case max_field_section_size s of Some v \<Rightarrow> [(SETTINGS_MAX_FIELD_SECTION_SIZE, v)] | None \<Rightarrow> []) @
     (case qpack_max_table_capacity s of Some v \<Rightarrow> [(SETTINGS_QPACK_MAX_TABLE_CAPACITY, v)] | None \<Rightarrow> []) @
     (case qpack_blocked_streams s of Some v \<Rightarrow> [(SETTINGS_QPACK_BLOCKED_STREAMS, v)] | None \<Rightarrow> []) @
     (case connect_protocol_enabled s of Some v \<Rightarrow> [(SETTINGS_ENABLE_CONNECT_PROTOCOL, v)] | None \<Rightarrow> [])"

definition encode_settings_frame :: "h3_settings \<Rightarrow> http3_error writer" where
  "encode_settings_frame s buf =
     bind_r (sum_r (concat (map (\<lambda>(i, v). [h3_varint_len i, h3_varint_len v]) (settings_fields s))))
       (\<lambda>frame_len.
          write_all
            (h3_varint SETTINGS_FRAME_TYPE # h3_varint (as_u64 frame_len) #
             concat (map (\<lambda>(i, v). [h3_varint i, h3_varint v]) (settings_fields s))) buf)"

definition h3_id_frame :: "u64 \<Rightarrow> u64 \<Rightarrow> http3_error writer" where
  "h3_id_frame ty v =
     write_all [h3_varint ty, (\<lambda>b. bind_r (h3_varint_len v) (\<lambda>n. h3_varint (as_u64 n) b)), h3_varint v]"

definition h3_id_bytes_frame :: "u64 \<Rightarrow> u64 \<Rightarrow> bytes \<Rightarrow> http3_error writer" where
  "h3_id_bytes_frame ty v bs b =
     bind_r (h3_varint_len v) (\<lambda>n.
       write_all [h3_varint ty, h3_varint (as_u64 (n + length bs)), h3_varint v, h3_bytes bs] b)"

fun h3_frame_encode :: "h3_frame \<Rightarrow> http3_error writer" where
  "h3_frame_encode (H3Data data) =
     write_all [h3_varint DATA_FRAME_TYPE, h3_varint (as_u64 (length data)), h3_bytes data]"
| "h3_frame_encode (H3Headers field_section) =
     write_all [h3_varint HEADERS_FRAME_TYPE, h3_varint (as_u64 (length field_section)), h3_bytes field_section]"
| "h3_frame_encode (H3CancelPush push_id) = h3_id_frame CANCEL_PUSH_FRAME_TYPE push_id"
| "h3_frame_encode (H3Settings s) = encode_settings_frame s"
| "h3_frame_encode (H3PushPromise push_id field_section) =
     h3_id_bytes_frame PUSH_PROMISE_FRAME_TYPE push_id field_section"
| "h3_frame_encode (H3GoAway eid) = h3_id_frame GOAWAY_FRAME_TYPE eid"
| "h3_frame_encode (H3MaxPushId push_id) = h3_id_frame MAX_PUSH_ID_FRAME_TYPE push_id"
| "h3_frame_encode (H3PriorityUpdateRequest eid val) =
     h3_id_bytes_frame PRIORITY_UPDATE_FRAME_REQUEST_TYPE eid val"
| "h3_frame_encode (H3PriorityUpdatePush eid val) =
     h3_id_bytes_frame PRIORITY_UPDATE_FRAME_PUSH_TYPE eid val"
| "h3_frame_encode (H3Unknown _ _) = (\<lambda>_. Panic)"

section \<open>Decoding\<close>

definition h3_read_varint :: "(u64, http3_error) reader" where
  "h3_read_varint b = map_err h3_from (read_varint b)"

definition h3_read :: "u64 \<Rightarrow> (bytes, http3_error) reader" where
  "h3_read n b = map_err h3_from (read_bytes (as_usize n) b)"

text \<open>One setting: the match on its identifier.\<close>

definition apply_setting :: "u64 \<Rightarrow> u64 \<Rightarrow> h3_settings \<Rightarrow> h3_settings h3_res" where
  "apply_setting identifier val s =
     (if identifier = SETTINGS_MAX_FIELD_SECTION_SIZE then Ok (s\<lparr>max_field_section_size := Some val\<rparr>)
      else if identifier = SETTINGS_QPACK_MAX_TABLE_CAPACITY then Ok (s\<lparr>qpack_max_table_capacity := Some val\<rparr>)
      else if identifier = SETTINGS_QPACK_BLOCKED_STREAMS then Ok (s\<lparr>qpack_blocked_streams := Some val\<rparr>)
      else if identifier = SETTINGS_ENABLE_CONNECT_PROTOCOL then
        (if 1 < val then Err H3_SettingsError else Ok (s\<lparr>connect_protocol_enabled := Some val\<rparr>))
      else if identifier \<in> {0x0, 0x2, 0x3, 0x4, 0x5} then Err H3_SettingsError
      else Ok s)"

function decode_settings_loop :: "bytes \<Rightarrow> (u64 \<times> u64) list \<Rightarrow> h3_settings \<Rightarrow> h3_settings h3_res" where
  "decode_settings_loop b raw s =
     (if b = [] then Ok (s\<lparr>raw_settings := Some raw\<rparr>)
      else
        bind_r (h3_read_varint b) (\<lambda>(identifier, b').
        bind_r (h3_read_varint b') (\<lambda>(val, b'').
        bind_r (apply_setting identifier val s) (\<lambda>s.
        decode_settings_loop b'' (raw @ [(identifier, val)]) s))))"
  by auto
termination
  by (relation "measure (\<lambda>(b, _). length b)") (auto simp: h3_read_varint_def dest!: read_varint_Ok_len)

declare decode_settings_loop.simps [simp del]

definition no_settings :: h3_settings where
  "no_settings = \<lparr>max_field_section_size = None, qpack_max_table_capacity = None,
     qpack_blocked_streams = None, connect_protocol_enabled = None, raw_settings = None\<rparr>"

definition decode_settings_frame :: "u64 \<Rightarrow> bytes \<Rightarrow> h3_frame h3_res" where
  "decode_settings_frame payload_length b =
     (if MAX_SETTINGS_PAYLOAD_SIZE < payload_length then Err H3_ExcessiveLoad
      else bind_r (decode_settings_loop b [] no_settings) (\<lambda>s. Ok (H3Settings s)))"

definition decode_id_bytes :: "(u64 \<Rightarrow> bytes \<Rightarrow> 'f) \<Rightarrow> u64 \<Rightarrow> bytes \<Rightarrow> 'f h3_res" where
  "decode_id_bytes mk payload_length b =
     bind_r (h3_read_varint b) (\<lambda>(eid, b).
     bind_r (h3_varint_len eid) (\<lambda>n.
     bind_r (h3_read (payload_length - as_u64 n) b) (\<lambda>(bs, _).
     Ok (mk eid bs))))"

definition decode_push_promise :: "u64 \<Rightarrow> bytes \<Rightarrow> h3_frame h3_res" where
  "decode_push_promise = decode_id_bytes H3PushPromise"

definition decode_priority_update :: "u64 \<Rightarrow> u64 \<Rightarrow> bytes \<Rightarrow> h3_frame h3_res" where
  "decode_priority_update frame_type payload_length b =
     bind_r (decode_id_bytes Pair payload_length b) (\<lambda>(eid, val).
     if frame_type = PRIORITY_UPDATE_FRAME_REQUEST_TYPE then Ok (H3PriorityUpdateRequest eid val)
     else if frame_type = PRIORITY_UPDATE_FRAME_PUSH_TYPE then Ok (H3PriorityUpdatePush eid val)
     else Panic)"

definition h3_decode_payload :: "u64 \<Rightarrow> u64 \<Rightarrow> bytes \<Rightarrow> h3_frame h3_res" where
  "h3_decode_payload frame_type payload_length buf =
     (if frame_type = DATA_FRAME_TYPE then
        bind_r (h3_read payload_length buf) (\<lambda>(data, _). Ok (H3Data data))
      else if frame_type = HEADERS_FRAME_TYPE then
        bind_r (h3_read payload_length buf) (\<lambda>(field_section, _). Ok (H3Headers field_section))
      else if frame_type = CANCEL_PUSH_FRAME_TYPE then
        bind_r (h3_read_varint buf) (\<lambda>(push_id, _). Ok (H3CancelPush push_id))
      else if frame_type = SETTINGS_FRAME_TYPE then decode_settings_frame payload_length buf
      else if frame_type = PUSH_PROMISE_FRAME_TYPE then decode_push_promise payload_length buf
      else if frame_type = GOAWAY_FRAME_TYPE then
        bind_r (h3_read_varint buf) (\<lambda>(eid, _). Ok (H3GoAway eid))
      else if frame_type = MAX_PUSH_ID_FRAME_TYPE then
        bind_r (h3_read_varint buf) (\<lambda>(push_id, _). Ok (H3MaxPushId push_id))
      else if frame_type = PRIORITY_UPDATE_FRAME_REQUEST_TYPE \<or> frame_type = PRIORITY_UPDATE_FRAME_PUSH_TYPE then
        decode_priority_update frame_type payload_length buf
      else Ok (H3Unknown frame_type payload_length))"

definition h3_frame_decode :: "bytes \<Rightarrow> h3_frame h3_res" where
  "h3_frame_decode buf =
     bind_r (h3_read_varint buf) (\<lambda>(frame_type, buf).
     bind_r (h3_read_varint buf) (\<lambda>(payload_length, buf).
     h3_decode_payload frame_type payload_length buf))"

section \<open>What the encoder appends\<close>

definition h3_type_of :: "h3_frame \<Rightarrow> u64" where
  "h3_type_of f =
     (case f of
        H3Data _ \<Rightarrow> DATA_FRAME_TYPE
      | H3Headers _ \<Rightarrow> HEADERS_FRAME_TYPE
      | H3CancelPush _ \<Rightarrow> CANCEL_PUSH_FRAME_TYPE
      | H3Settings _ \<Rightarrow> SETTINGS_FRAME_TYPE
      | H3PushPromise _ _ \<Rightarrow> PUSH_PROMISE_FRAME_TYPE
      | H3GoAway _ \<Rightarrow> GOAWAY_FRAME_TYPE
      | H3MaxPushId _ \<Rightarrow> MAX_PUSH_ID_FRAME_TYPE
      | H3PriorityUpdateRequest _ _ \<Rightarrow> PRIORITY_UPDATE_FRAME_REQUEST_TYPE
      | H3PriorityUpdatePush _ _ \<Rightarrow> PRIORITY_UPDATE_FRAME_PUSH_TYPE
      | H3Unknown t _ \<Rightarrow> t)"

definition setting_bytes :: "u64 \<times> u64 \<Rightarrow> bytes" where
  "setting_bytes iv = varint_bytes (fst iv) @ varint_bytes (snd iv)"

definition h3_payload :: "h3_frame \<Rightarrow> bytes" where
  "h3_payload f =
     (case f of
        H3Data d \<Rightarrow> d
      | H3Headers d \<Rightarrow> d
      | H3CancelPush i \<Rightarrow> varint_bytes i
      | H3Settings s \<Rightarrow> concat (map setting_bytes (settings_fields s))
      | H3PushPromise i d \<Rightarrow> varint_bytes i @ d
      | H3GoAway i \<Rightarrow> varint_bytes i
      | H3MaxPushId i \<Rightarrow> varint_bytes i
      | H3PriorityUpdateRequest i d \<Rightarrow> varint_bytes i @ d
      | H3PriorityUpdatePush i d \<Rightarrow> varint_bytes i @ d
      | H3Unknown _ _ \<Rightarrow> [])"

definition h3_wire :: "h3_frame \<Rightarrow> bytes" where
  "h3_wire f = varint_bytes (h3_type_of f) @ varint_bytes (as_u64 (length (h3_payload f))) @ h3_payload f"

text \<open>The frames the encoder is meant for: integers that a varint can hold, no unknown frames, and a
  CONNECT setting of 0 or 1.\<close>

definition opt_le :: "u64 option \<Rightarrow> u64 \<Rightarrow> bool" where
  "opt_le x m \<longleftrightarrow> (case x of None \<Rightarrow> True | Some v \<Rightarrow> v \<le> m)"

definition h3_frame_valid :: "h3_frame \<Rightarrow> bool" where
  "h3_frame_valid f \<longleftrightarrow>
     length (h3_payload f) \<le> unat VINT_MAX \<and>
     (case f of
        H3CancelPush i \<Rightarrow> i \<le> VINT_MAX
      | H3Settings s \<Rightarrow>
          opt_le (max_field_section_size s) VINT_MAX \<and> opt_le (qpack_max_table_capacity s) VINT_MAX \<and>
          opt_le (qpack_blocked_streams s) VINT_MAX \<and> opt_le (connect_protocol_enabled s) 1
      | H3PushPromise i d \<Rightarrow> i \<le> VINT_MAX
      | H3GoAway i \<Rightarrow> i \<le> VINT_MAX
      | H3MaxPushId i \<Rightarrow> i \<le> VINT_MAX
      | H3PriorityUpdateRequest i d \<Rightarrow> i \<le> VINT_MAX
      | H3PriorityUpdatePush i d \<Rightarrow> i \<le> VINT_MAX
      | H3Unknown _ _ \<Rightarrow> False
      | _ \<Rightarrow> True)"

abbreviation "h3_short \<equiv> H3_TransportError BufferTooShort"

lemma h3_varint_emits: "v \<le> VINT_MAX \<Longrightarrow> emits h3_short (h3_varint v) (varint_bytes v)"
  unfolding h3_varint_def [abs_def] by (intro emits_h3 varint.enc_emits)

lemma h3_bytes_emits: "emits h3_short (h3_bytes bs) bs"
  unfolding h3_bytes_def [abs_def] by (intro emits_h3 write_bytes_emits)

lemma h3_varint_len: "v \<le> VINT_MAX \<Longrightarrow> h3_varint_len v = Ok (length (varint_bytes v))"
  by (simp add: h3_varint_len_def length_varint_bytes)

lemma h3_types_small: "h3_frame_valid f \<Longrightarrow> h3_type_of f \<le> VINT_MAX"
  by (auto simp: h3_type_of_def h3_type_defs VINT_MAX_def h3_frame_valid_def split: h3_frame.splits)

lemma as_u64_VINT: "n \<le> unat VINT_MAX \<Longrightarrow> as_u64 n \<le> VINT_MAX" "n \<le> unat VINT_MAX \<Longrightarrow> unat (as_u64 n) = n"
proof -
  show u: "n \<le> unat VINT_MAX \<Longrightarrow> unat (as_u64 n) = n"
    by (intro unat_of_nat_u64) (simp add: VINT_MAX_def)
  show "n \<le> unat VINT_MAX \<Longrightarrow> as_u64 n \<le> VINT_MAX" using u by (simp add: word_le_nat_alt)
qed

lemma settings_fields_small:
  "h3_frame_valid (H3Settings s) \<Longrightarrow> (i, v) \<in> set (settings_fields s) \<Longrightarrow> i \<le> VINT_MAX \<and> v \<le> VINT_MAX"
proof -
  have "(v :: u64) \<le> 1 \<Longrightarrow> v \<le> VINT_MAX" by (simp add: VINT_MAX_def word_le_nat_alt)
  then show "h3_frame_valid (H3Settings s) \<Longrightarrow> (i, v) \<in> set (settings_fields s) \<Longrightarrow> i \<le> VINT_MAX \<and> v \<le> VINT_MAX"
    by (auto simp: h3_frame_valid_def settings_fields_def opt_le_def h3_setting_defs split: option.splits)
       (simp_all add: VINT_MAX_def)
qed

lemma sum_r_lens:
  "\<forall>(i, v) \<in> set fs. i \<le> VINT_MAX \<and> v \<le> VINT_MAX \<Longrightarrow>
   sum_r (concat (map (\<lambda>(i, v). [h3_varint_len i, h3_varint_len v]) fs)) = Ok (length (concat (map setting_bytes fs)))"
  by (induction fs) (auto simp: h3_varint_len setting_bytes_def)

lemma settings_emits:
  assumes "\<forall>(i, v) \<in> set fs. i \<le> VINT_MAX \<and> v \<le> VINT_MAX"
  shows "list_all2 (emits h3_short) (concat (map (\<lambda>(i, v). [h3_varint i, h3_varint v]) fs))
           (concat (map (\<lambda>(i, v). [varint_bytes i, varint_bytes v]) fs))"
    and "concat (concat (map (\<lambda>(i, v). [varint_bytes i, varint_bytes v]) fs)) = concat (map setting_bytes fs)"
  using assms by (induction fs) (auto simp: h3_varint_emits setting_bytes_def)

lemma varint_bytes_len: "length (varint_bytes v) \<le> unat VINT_MAX"
  by (simp add: varint_bytes_def VINT_MAX_def)

lemma h3_id_frame_emits:
  assumes "ty \<le> VINT_MAX" and "v \<le> VINT_MAX"
  shows "emits h3_short (h3_id_frame ty v)
    (varint_bytes ty @ varint_bytes (as_u64 (length (varint_bytes v))) @ varint_bytes v)"
  unfolding h3_id_frame_def
  by (rule emits_write_list [where bss = "[varint_bytes ty, varint_bytes (as_u64 (length (varint_bytes v))), varint_bytes v]"])
     (simp_all add: h3_varint_emits h3_varint_len as_u64_VINT varint_bytes_len assms)

lemma emits_bind: "m = Ok n \<Longrightarrow> emits e (f n) bs \<Longrightarrow> emits e (\<lambda>b. bind_r m (\<lambda>n. f n b)) bs"
  by simp

lemma h3_id_bytes_frame_emits:
  assumes "ty \<le> VINT_MAX" and "v \<le> VINT_MAX" and l: "length (varint_bytes v @ bs) \<le> unat VINT_MAX"
  shows "emits h3_short (h3_id_bytes_frame ty v bs)
    (varint_bytes ty @ varint_bytes (as_u64 (length (varint_bytes v @ bs))) @ varint_bytes v @ bs)"
  unfolding h3_id_bytes_frame_def [abs_def]
proof (rule emits_bind [OF h3_varint_len [OF assms(2)]])
  have "emits h3_short (h3_varint (as_u64 (length (varint_bytes v) + length bs)))
      (varint_bytes (as_u64 (length (varint_bytes v @ bs))))"
    using h3_varint_emits [OF as_u64_VINT(1) [OF l]] by simp
  then show "emits h3_short (write_all [h3_varint ty, h3_varint (as_u64 (length (varint_bytes v) + length bs)), h3_varint v, h3_bytes bs])
      (varint_bytes ty @ varint_bytes (as_u64 (length (varint_bytes v @ bs))) @ varint_bytes v @ bs)"
    by (intro emits_write_list [where bss = "[varint_bytes ty, varint_bytes (as_u64 (length (varint_bytes v @ bs))), varint_bytes v, bs]"])
       (simp_all only: list_all2_Cons list_all2_Nil h3_varint_emits h3_bytes_emits assms simp_thms, simp)
qed

lemma h3_bytes_frame_emits:
  assumes "ty \<le> VINT_MAX" and "length bs \<le> unat VINT_MAX"
  shows "emits h3_short (write_all [h3_varint ty, h3_varint (as_u64 (length bs)), h3_bytes bs])
    (varint_bytes ty @ varint_bytes (as_u64 (length bs)) @ bs)"
  by (rule emits_write_list [where bss = "[varint_bytes ty, varint_bytes (as_u64 (length bs)), bs]"])
     (simp_all add: h3_varint_emits h3_bytes_emits as_u64_VINT assms)

lemma encode_settings_emits:
  assumes "h3_frame_valid (H3Settings s)"
  shows "emits h3_short (encode_settings_frame s) (h3_wire (H3Settings s))"
proof -
  let ?fs = "settings_fields s"
  have small: "\<forall>(i, v) \<in> set ?fs. i \<le> VINT_MAX \<and> v \<le> VINT_MAX" using settings_fields_small [OF assms] by auto
  have l: "length (concat (map setting_bytes ?fs)) \<le> unat VINT_MAX"
    using assms by (simp add: h3_frame_valid_def h3_payload_def)
  have ty: "SETTINGS_FRAME_TYPE \<le> VINT_MAX" using h3_types_small [OF assms] by (simp add: h3_type_of_def)
  show ?thesis
    unfolding encode_settings_frame_def [abs_def]
  proof (rule emits_bind [OF sum_r_lens [OF small]])
    let ?n = "as_u64 (length (concat (map setting_bytes ?fs)))"
    show "emits h3_short (write_all (h3_varint SETTINGS_FRAME_TYPE # h3_varint ?n #
         concat (map (\<lambda>(i, v). [h3_varint i, h3_varint v]) ?fs))) (h3_wire (H3Settings s))"
      using settings_emits [OF small] h3_varint_emits [OF ty] h3_varint_emits [OF as_u64_VINT(1) [OF l]]
      by (intro emits_write_list [where bss = "varint_bytes SETTINGS_FRAME_TYPE # varint_bytes ?n #
            concat (map (\<lambda>(i, v). [varint_bytes i, varint_bytes v]) ?fs)"])
         (simp_all only: list_all2_Cons simp_thms concat.simps h3_wire_def h3_type_of_def h3_payload_def h3_frame.case)
  qed
qed

lemma h3_frame_encode_emits:
  assumes "h3_frame_valid f"
  shows "emits h3_short (h3_frame_encode f) (h3_wire f)"
proof -
  have ty: "h3_type_of f \<le> VINT_MAX" using h3_types_small [OF assms] .
  have l: "length (h3_payload f) \<le> unat VINT_MAX" using assms by (simp add: h3_frame_valid_def)
  note emit = h3_id_frame_emits h3_id_bytes_frame_emits h3_bytes_frame_emits encode_settings_emits
  show ?thesis
  proof (cases f)
    case (H3Settings s)
    with assms show ?thesis by (simp add: encode_settings_emits)
  qed (use assms ty l emit in \<open>simp_all add: h3_frame_valid_def h3_type_of_def h3_payload_def h3_wire_def\<close>)
qed

section \<open>Decoding what was encoded\<close>

lemma h3_read_varint_bytes: "v \<le> VINT_MAX \<Longrightarrow> h3_read_varint (varint_bytes v @ r) = Ok (v, r)"
  by (simp add: h3_read_varint_def varint.dec_wire)

definition with_raw :: "h3_frame \<Rightarrow> h3_frame" where
  "with_raw f = (case f of H3Settings s \<Rightarrow> H3Settings (s\<lparr>raw_settings := Some (settings_fields s)\<rparr>) | _ \<Rightarrow> f)"

fun apply_settings :: "(u64 \<times> u64) list \<Rightarrow> h3_settings \<Rightarrow> h3_settings h3_res" where
  "apply_settings [] s = Ok s"
| "apply_settings ((i, v) # fs) s = bind_r (apply_setting i v s) (apply_settings fs)"

lemma varint_bytes_nonempty: "v \<le> VINT_MAX \<Longrightarrow> varint_bytes v \<noteq> []"
  using read_varint_varint_bytes [of v "[]"] by (auto simp: read_varint_def)

lemma decode_settings_loop_bytes:
  "\<forall>(i, v) \<in> set fs. i \<le> VINT_MAX \<and> v \<le> VINT_MAX \<Longrightarrow>
   decode_settings_loop (concat (map setting_bytes fs)) raw s =
     bind_r (apply_settings fs s) (\<lambda>s. Ok (s\<lparr>raw_settings := Some (raw @ fs)\<rparr>))"
proof (induction fs arbitrary: raw s)
  case Nil
  then show ?case by (simp add: decode_settings_loop.simps)
next
  case (Cons f fs)
  obtain i v where f: "f = (i, v)" by fastforce
  then have "setting_bytes f = varint_bytes i @ varint_bytes v" by (simp add: setting_bytes_def)
  with f Cons show ?case
    by (subst decode_settings_loop.simps)
       (cases "apply_setting i v s", auto simp: h3_read_varint_bytes varint_bytes_nonempty)
qed

lemma apply_settings_fields:
  assumes "opt_le (connect_protocol_enabled s) 1"
  shows "apply_settings (settings_fields s) no_settings = Ok (s\<lparr>raw_settings := None\<rparr>)"
proof -
  have "connect_protocol_enabled s = Some v \<Longrightarrow> \<not> 1 < v" for v using assms by (auto simp: opt_le_def)
  then show ?thesis
    by (cases "max_field_section_size s"; cases "qpack_max_table_capacity s"; cases "qpack_blocked_streams s";
        cases "connect_protocol_enabled s")
       (simp_all add: settings_fields_def apply_setting_def h3_setting_defs no_settings_def)
qed

lemma decode_id_bytes_wire:
  assumes "v \<le> VINT_MAX" and "length (varint_bytes v @ bs) \<le> unat VINT_MAX"
  shows "decode_id_bytes mk (as_u64 (length (varint_bytes v @ bs))) (varint_bytes v @ bs @ rest) = Ok (mk v bs)"
proof -
  let ?n = "as_u64 (length (varint_bytes v @ bs))" and ?k = "as_u64 (length (varint_bytes v))"
  have "unat ?n = length (varint_bytes v @ bs)" "unat ?k = length (varint_bytes v)"
    using as_u64_VINT(2) [OF assms(2)] as_u64_VINT(2) [OF varint_bytes_len] by simp_all
  then have "unat (?n - ?k) = length bs" by (subst unat_sub) (simp_all add: word_le_nat_alt)
  with assms show ?thesis
    by (simp add: decode_id_bytes_def h3_read_varint_bytes h3_varint_len h3_read_def read_bytes_append)
qed

lemma decode_settings_wire:
  assumes "h3_frame_valid (H3Settings s)"
  shows "decode_settings_frame (as_u64 (length (h3_payload (H3Settings s)))) (h3_payload (H3Settings s))
    = Ok (with_raw (H3Settings s))"
proof -
  let ?fs = "settings_fields s"
  have small: "\<forall>(i, v) \<in> set ?fs. i \<le> VINT_MAX \<and> v \<le> VINT_MAX" using settings_fields_small [OF assms] by auto
  have "length (concat (map setting_bytes fs)) \<le> 16 * length fs" for fs :: "(u64 \<times> u64) list"
  proof (induction fs)
    case (Cons f fs)
    have "length (varint_bytes x) \<le> 8" for x by (simp add: varint_bytes_def)
    from this [of "fst f"] this [of "snd f"] Cons show ?case by (simp add: setting_bytes_def)
  qed simp
  from this [of ?fs] have "length (h3_payload (H3Settings s)) \<le> 64"
    by (simp add: h3_payload_def settings_fields_def split: option.splits)
  then have "\<not> MAX_SETTINGS_PAYLOAD_SIZE < as_u64 (length (h3_payload (H3Settings s)))"
    by (simp add: MAX_SETTINGS_PAYLOAD_SIZE_def word_less_nat_alt unat_of_nat_u64)
  moreover have "opt_le (connect_protocol_enabled s) 1" using assms by (simp add: h3_frame_valid_def)
  ultimately show ?thesis
    by (simp add: decode_settings_frame_def h3_payload_def decode_settings_loop_bytes [OF small]
        apply_settings_fields with_raw_def)
qed

lemma h3_frame_decode_wire:
  assumes v: "h3_frame_valid f" and r: "\<forall>s. f = H3Settings s \<longrightarrow> rest = []"
  shows "h3_frame_decode (h3_wire f @ rest) = Ok (with_raw f)"
proof -
  have ty: "h3_type_of f \<le> VINT_MAX" using h3_types_small [OF v] .
  have l: "length (h3_payload f) \<le> unat VINT_MAX" using v by (simp add: h3_frame_valid_def)
  have "h3_frame_decode (h3_wire f @ rest) =
      h3_decode_payload (h3_type_of f) (as_u64 (length (h3_payload f))) (h3_payload f @ rest)"
    by (simp add: h3_frame_decode_def h3_wire_def h3_read_varint_bytes ty as_u64_VINT l)
  also have "\<dots> = Ok (with_raw f)"
  proof (cases f)
    case (H3Settings s)
    with v r decode_settings_wire [of s] show ?thesis
      by (simp add: h3_decode_payload_def h3_type_of_def h3_type_defs)
  next
    case (H3PushPromise i d)
    with v l decode_id_bytes_wire [of i d H3PushPromise rest] show ?thesis
      by (simp add: h3_decode_payload_def h3_type_of_def h3_type_defs h3_payload_def decode_push_promise_def
          with_raw_def h3_frame_valid_def)
  next
    case (H3PriorityUpdateRequest i d)
    with v l decode_id_bytes_wire [of i d Pair rest] show ?thesis
      by (simp add: h3_decode_payload_def h3_type_of_def h3_type_defs h3_payload_def decode_priority_update_def
          with_raw_def h3_frame_valid_def)
  next
    case (H3PriorityUpdatePush i d)
    with v l decode_id_bytes_wire [of i d Pair rest] show ?thesis
      by (simp add: h3_decode_payload_def h3_type_of_def h3_type_defs h3_payload_def decode_priority_update_def
          with_raw_def h3_frame_valid_def)
  qed (use v l in \<open>simp_all add: h3_decode_payload_def h3_type_of_def h3_type_defs h3_payload_def h3_read_def
      as_u64_VINT read_bytes_append h3_read_varint_bytes with_raw_def h3_frame_valid_def\<close>)
  finally show ?thesis .
qed

section \<open>The decoder on any input\<close>

lemma h3_read_no_panic: "h3_read_varint b \<noteq> Panic" "h3_read n b \<noteq> Panic"
  by (simp_all add: h3_read_varint_def h3_read_def read_varint_total)

lemma decode_id_bytes_no_panic: "decode_id_bytes mk n b \<noteq> Panic"
  using h3_read_no_panic
  by (auto simp: decode_id_bytes_def bind_r_Panic_iff h3_read_varint_def h3_varint_len dest!: read_varint_bound)

lemma decode_settings_loop_no_panic: "decode_settings_loop b raw s \<noteq> Panic"
proof (induction b raw s rule: decode_settings_loop.induct)
  case (1 b raw s)
  show ?case
    by (subst decode_settings_loop.simps)
       (use 1 h3_read_no_panic in \<open>auto simp: bind_r_Panic_iff apply_setting_def split: if_splits\<close>)
qed

lemma h3_decode_payload_no_panic: "h3_decode_payload ty n b \<noteq> Panic"
  by (auto simp: h3_read_no_panic decode_id_bytes_no_panic decode_settings_loop_no_panic
      h3_decode_payload_def bind_r_Panic_iff decode_settings_frame_def decode_push_promise_def
      decode_priority_update_def split: if_splits)

section \<open>Properties\<close>

text \<open>C24: An HTTP/3 frame with integers that a varint can hold, a CONNECT setting of 0 or 1 and a type that is not
  unknown is written as one string of octets: when the buffer has room for all of them the encoder appends them
  and returns their number, otherwise it reports a short buffer. Decoding these octets gives the frame back,
  whatever follows them, but for SETTINGS: its decoder reads to the end of the buffer, so a SETTINGS frame has to
  be the last thing in it, and it is given back with the list of the settings it carries.\<close>

theorem h3_frame_roundtrip:
  assumes "h3_frame_valid f"
  shows "\<exists>bs. (\<forall>w. h3_frame_encode f w =
        (if length bs \<le> room w then Ok (length bs, put_slice bs w) else Err (H3_TransportError BufferTooShort)))
    \<and> (\<forall>rest. rest = [] \<or> (\<forall>s. f \<noteq> H3Settings s) \<longrightarrow> h3_frame_decode (bs @ rest) = Ok (with_raw f))"
proof (intro exI [of _ "h3_wire f"] conjI allI impI)
  show "h3_frame_encode f w = (if length (h3_wire f) \<le> room w then Ok (length (h3_wire f), put_slice (h3_wire f) w)
      else Err (H3_TransportError BufferTooShort))" for w
    using h3_frame_encode_emits [OF assms] by (simp add: emits_def)
  show "h3_frame_decode (h3_wire f @ rest) = Ok (with_raw f)" if "rest = [] \<or> (\<forall>s. f \<noteq> H3Settings s)" for rest
    using that by (intro h3_frame_decode_wire [OF assms]) blast
qed

theorem h3_frame_roundtrip_witness:
  "\<exists>bs. (\<forall>w. h3_frame_encode (H3GoAway 12) w =
        (if length bs \<le> room w then Ok (length bs, put_slice bs w) else Err (H3_TransportError BufferTooShort)))
    \<and> h3_frame_decode (bs @ [99]) = Ok (H3GoAway 12)"
proof -
  have "h3_frame_valid (H3GoAway 12)" by (simp add: h3_frame_valid_def VINT_MAX_def h3_payload_def varint_bytes_def)
  from h3_frame_roundtrip [OF this] show ?thesis by (fastforce simp: with_raw_def)
qed

end
