(* ===== verification/Spec2Isabelle.thy ===== *)
theory Spec2Isabelle
  imports Prelude Errors Codec BTree_Map Ranges Packet Frame Window Flow_Control Rtt Pmtu Timer Cid Token Trans_Param
    Recv_Buf Send_Buf Stream_State Stream_Map Stream_Run Stream_Queue Stream_Send Stream_Control Pkt_Space Pacer Recovery Recovery_Sweep Recovery_Run Path
    H3_Error H3_Huffman_Table H3_Huffman Qpack_Int Qpack_Static Qpack H3_Frame
begin

text \<open>
  A verification development for the QUIC and HTTP/3 implementation under src/src (a Rust library).

  \<^bold>\<open>The program.\<close> A connection receives and sends packets. A received packet has its header parsed and its
  protection removed (packet.rs), its number is checked against the window of numbers seen (window.rs, space.rs),
  and its frames are decoded (frame.rs, codec.rs) and handed to the part they concern: streams (stream.rs), loss
  recovery (recovery.rs), connection IDs (cid.rs). To send, the connection asks the streams for data and control
  frames (connection.rs), encodes them, and tells loss recovery about the packet. When a packet is acknowledged
  or declared lost, its frames go back to the streams, which forget or repeat the data. Flow control
  (flowcontrol.rs) limits what a peer may send; transport parameters (trans_param.rs) and tokens (token.rs) are
  exchanged while the connection is set up. HTTP/3 runs on streams with frames of its own (h3/frame.rs) and
  compressed headers (h3/qpack).

  \<^bold>\<open>How it is modelled.\<close> Structs are records, enums are datatypes, methods are functions that take the state and
  return it. Integers of a fixed width are words, so they wrap as in a release build; \<open>usize\<close> is a natural
  number, and so is a time or a duration, in nanoseconds. Every result is \<open>Ok\<close>, \<open>Err\<close> or \<open>Panic\<close>, and each
  \<open>unwrap\<close>, index and slice of the source that can fail is a branch. An output slice is the octets written and
  the room that is left. A BTreeMap is a sorted association list, a hash map is a partial function, and an
  iteration over a hash map gets its order as an argument. The AEAD, the header protection mask, the HMAC, random
  octets and the congestion controller are arguments of the definitions that use them; what is needed of them
  (opening inverts sealing, a sealed text does not open under other data) is a hypothesis of the theorem that
  needs it, and its witness has an instance.

  \<^bold>\<open>The theories.\<close>
  \<^item> \<open>Prelude\<close>: results, words and lists, the collections of facts. \<open>Errors\<close>: error.rs.
  \<^item> \<open>Codec\<close>: codec.rs, with the locale \<open>wire_codec\<close> (an encoder appends exactly the octets that its decoder takes
    off again, whatever follows), interpreted for every integer and address codec.
  \<^item> \<open>BTree_Map\<close>: the standard library's ordered map, with the locale \<open>ordered_map\<close> of the laws that \<open>Ranges\<close>
    (ranges.rs) uses.
  \<^item> \<open>Packet\<close>, \<open>Frame\<close>, \<open>Window\<close>, \<open>Token\<close>, \<open>Trans_Param\<close>: packet.rs, frame.rs, window.rs, token.rs, trans_param.rs.
    \<open>Window\<close> has the locale \<open>dup_detector\<close> (a number once inserted is found for ever).
  \<^item> \<open>Flow_Control\<close>, \<open>Rtt\<close>, \<open>Pmtu\<close>, \<open>Timer\<close>, \<open>Cid\<close>: the files of these names in connection/.
  \<^item> connection/stream.rs: \<open>Recv_Buf\<close> and \<open>Send_Buf\<close> (the two halves of a stream; the locale \<open>offset_set\<close> is what
    the send buffer needs of a range set), \<open>Stream_State\<close> (streams, concurrency limits), \<open>Stream_Map\<close> (all
    operations of \<open>StreamMap\<close>), \<open>Stream_Run\<close> (runs of the stream map), \<open>Stream_Queue\<close> (the queue of sendable
    streams against the locale \<open>send_queue\<close>).
  \<^item> connection/connection.rs: \<open>Stream_Send\<close> (\<open>try_write_stream_frames\<close>) and \<open>Stream_Control\<close>
    (\<open>try_write_stream_control_frames\<close>).
  \<^item> \<open>Pkt_Space\<close>: connection/space.rs. \<open>Pacer\<close>: congestion_control/pacing.rs. \<open>Recovery\<close>: connection/recovery.rs;
    \<open>Recovery_Sweep\<close> has what one pass over the sent packets does, \<open>Recovery_Run\<close> what holds over whole runs.
  \<^item> \<open>Path\<close>: connection/path.rs, the validation of paths, the anti-amplification limit and the map of paths.
  \<^item> \<open>H3_Error\<close>, \<open>H3_Frame\<close>: h3/error.rs, h3/frame.rs. \<open>H3_Huffman_Table\<close>, \<open>H3_Huffman\<close>, \<open>Qpack_Int\<close>, \<open>Qpack_Static\<close>,
    \<open>Qpack\<close>: h3/qpack, both Huffman tables and both static tables entry by entry.
  \<^item> This theory: a send buffer and a receive buffer joined by a network.

  \<^bold>\<open>What is shown.\<close>
  \<^item> Streams: over a network that loses, repeats and reorders frames, the receiver's application reads a prefix of
    what the sender's application wrote, the end is reported only at the end, and when everything has arrived
    everything is read. The receive buffer refines the set of octets received; the send buffer sends only what was
    written, repeats exactly what was lost and not acknowledged, and is complete exactly when all is acknowledged.
  \<^item> The stream map: limits on streams and octets hold in every reachable state, a closed stream is never
    reopened, the outcome of opening a stream and of a STREAM frame is given for every case, no call panics; a
    sendable stream is in the queue, a packet is filled while data is left, control frames are not lost.
  \<^item> Loss recovery: the sweep over an ACK frame and the detection of losses are characterised exactly, the bytes in
    flight are those of the outstanding packets, a timeout arms the timer again.
  \<^item> Encodings: round trips for integers, headers, header protection, frames, transport parameters, tokens,
    HTTP/3 frames and QPACK; decoders of untrusted input do not panic; the Huffman decoder accepts exactly the
    encoder's output.
  \<^item> The rest: range sets are sets, the duplicate window never forgets, the RTT estimate stays within the samples,
    the path MTU search ends close to the path MTU, the connection ID manager keeps its invariant, a server sends to
    an address that is not verified no more than a multiple of what it received.
  \<^item> Defects of the code that came up are theorems or lemmas about the model as well, named as such in their text.

  \<^bold>\<open>Bounds and fuel.\<close> Loops are total functions with a measure (octets left, packets left, chunks left). Only the
  two nested loops of \<open>SendBuf::read\<close> take fuel, the room of the buffer plus one and the length of the range; they
  are shown to return, so the fuel is enough. Offsets and limits are below
  \<open>2 ^ 62\<close> because they come from variable-length integers; a packet has room for at most 16384 octets, which the
  two octets of a STREAM frame's length field can express (the endpoint's buffers have 2048). In \<open>sm_step\<close> the
  guards say what the callers ensure: \<open>MAX_DATA\<close> is updated only when it is due, and only what was sent is
  acknowledged or lost; \<open>remove_sendable\<close>, which only touches the queue, is a step of \<open>tx_step\<close> instead.
  \<open>rec_run\<close> is for a connection with one path, whose recovery sees every packet of the spaces.

  \<^bold>\<open>Not modelled.\<close> TLS (tls/), which calls BoringSSL; the handshake, key updates and packet dispatch of
  connection.rs, which depend on it; the endpoint (endpoint.rs) and the
  timer queue, which rest on third-party containers; the streams and the connection of HTTP/3 (h3/stream.rs,
  h3/connection.rs), which drive a whole connection; the congestion controllers and the learning schedulers,
  which compute with floating point, and with them the choice of a path (multipath_scheduler/); the C interface (ffi.rs), qlog and the command line tools. Trace output,
  statistics for reports and \<open>Debug\<close> implementations are left out of the modelled files. Durations do not
  overflow in the model, and the difference of two times is not negative where the source subtracts them.
\<close>

section \<open>Streams end to end\<close>

text \<open>A receiver of the frames of \<open>F\<close>: the bytes handed to the application, the offsets that have
  arrived, and the receive buffer. The network delivers a frame any number of times or never.\<close>

type_synonym receiver = "bytes \<times> nat set \<times> recv_buf"

inductive net_step :: "stream_frame set \<Rightarrow> receiver \<Rightarrow> receiver \<Rightarrow> bool" for F where
  net_frame: "net_step F (out, R, r) (out, R \<union> frame_offs (off, d, fin), r')"
    if "(off, d, fin) \<in> F" and "rv_write off d fin r = (Ok (), r')"
| net_refused: "net_step F (out, R, r) (out, R, r')"
    if "(off, d, fin) \<in> F" and "rv_write off d fin r = (Err e, r')"
| net_read: "net_step F (out, R, r) (out @ d, R, r')" if "rv_read cap r = (Ok (d, f), r')"
| net_max_data: "net_step F (out, R, r) (out, R, rv_update_max_data now r)"
| net_autotune: "net_step F (out, R, r) (out, R, rv_autotune_window now srtt r)"

text \<open>Sender and receiver in any interleaving; what arrives was sent before.\<close>

inductive transfer_step :: "sender \<times> receiver \<Rightarrow> sender \<times> receiver \<Rightarrow> bool" where
  at_sender: "transfer_step (S, Q) (S', Q)" if "send_step S S'"
| at_receiver: "transfer_step ((w, s, F, A), Q) ((w, s, F, A), Q')" if "net_step F Q Q'"

lemma net_step_mono: "net_step F Q Q' \<Longrightarrow> F \<subseteq> F' \<Longrightarrow> net_step F' Q Q'"
  by (induction rule: net_step.induct) (auto intro: net_step.intros)

lemma net_steps_mono:
  assumes "(net_step F)\<^sup>*\<^sup>* Q Q'" and "F \<subseteq> F'"
  shows "(net_step F')\<^sup>*\<^sup>* Q Q'"
  using assms(1) by (rule rtranclp_mono [THEN predicate2D, rotated]) (use net_step_mono [OF _ assms(2)] in blast)

lemma frames_grow: "send_step S S' \<Longrightarrow> fst (snd (snd S)) \<subseteq> fst (snd (snd S'))"
  by (induction rule: send_step.induct) auto

lemma transfer_split:
  assumes "transfer_step\<^sup>*\<^sup>* (S0, Q0) (S, Q)"
  shows "send_step\<^sup>*\<^sup>* S0 S \<and> (net_step (fst (snd (snd S))))\<^sup>*\<^sup>* Q0 Q"
  using assms
proof (induction rule: rtranclp_induct2)
  case (step S Q S' Q')
  from step.hyps(2) show ?case
  proof cases
    case at_sender
    then show ?thesis
      using step.IH net_steps_mono [OF _ frames_grow [of S S'], of Q0 Q] by (auto intro: rtranclp.rtrancl_into_rtrancl)
  next
    case (at_receiver F w s A)
    then show ?thesis using step.IH by auto
  qed
qed simp

lemma net_step_recv:
  assumes "net_step F Q Q'" and "\<forall>f \<in> F. frame_ok w s f" and "unat (sd_unsent_off s) \<le> length w"
  shows "recv_step w Q Q'"
  using assms(1)
proof cases
  case (net_frame off d fin r r' out R)
  then have f: "unat off + length d \<le> length w" "d = take (length d) (drop (unat off) w)"
    "fin \<longrightarrow> unat off + length d = length w" using assms(2,3) by (auto simp: frame_ok_def)
  then have "rv_write off (take (length d) (drop (unat off) w)) fin r = (Ok (), r')" using net_frame by simp
  then show ?thesis using net_frame f step_frame [of off "length d" w fin r r'] by (simp add: frame_offs_def)
next
  case (net_refused off d fin r e r' out R)
  then have f: "unat off + length d \<le> length w" "d = take (length d) (drop (unat off) w)"
    using assms(2,3) by (auto simp: frame_ok_def)
  then have "rv_write off (take (length d) (drop (unat off) w)) fin r = (Err e, r')" using net_refused by simp
  then show ?thesis using net_refused f step_refused [of off "length d" w fin r e r'] by simp
qed (auto intro: recv_step.intros)

lemma transfer_invariant:
  assumes "transfer_step\<^sup>*\<^sup>* (([], sd_new max_data, {}, {}), [], {}, rv_new limit window) ((w, s, F, A), Q)"
    and "unat max_data < 2 ^ 62"
  shows "sending (w, s, F, A) \<and> reassembly w Q \<and> length w < 2 ^ 64"
proof -
  note sp = transfer_split [OF assms(1)]
  have snd: "sending (w, s, F, A)" by (rule sending_steps [OF _ assms(2)]) (use sp in simp)
  then have ok: "sd_ok w s" "\<forall>f \<in> F. frame_ok w s f" by (auto simp: sending_def)
  then have len: "unat (sd_unsent_off s) \<le> length w" "length w < 2 ^ 64"
    using unat_u64_bound [of "sd_write_off s"] by (auto simp: sd_ok_def word_le_nat_alt)
  have sub: "net_step F \<le> recv_step w" using net_step_recv [OF _ ok(2) len(1)] by blast
  have "(recv_step w)\<^sup>*\<^sup>* ([], {}, rv_new limit window) Q"
    using rtranclp_mono [OF sub] sp by auto
  then show ?thesis using reassembly_steps [OF _ reassembly_start len(2)] snd len(2) by blast
qed

text \<open>When nothing is ready to be sent, every byte written has been sent at least once.\<close>

lemma all_sent:
  assumes "sending (w, s, F, A)" and "\<not> sd_ready s"
  shows "{..< length w} \<subseteq> \<Union> (frame_offs ` F)"
proof -
  have ok: "sd_ok w s" and cov: "{..< unat (sd_unsent_off s)} \<subseteq> \<Union> (frame_offs ` F)"
    using assms(1) by (simp_all add: sending_def)
  have "sd_write_off s \<le> sd_unsent_off s"
  proof (cases "sd_data s = []")
    case True
    then show ?thesis using acked_below_base(2,3) [OF ok] by simp
  next
    case False
    then show ?thesis using assms(2) send_off_spec(1) [OF ok] by (simp add: sd_ready_def)
  qed
  then have "length w \<le> unat (sd_unsent_off s)" using ok by (simp add: sd_ok_def word_le_nat_alt)
  then show ?thesis using cov by (meson lessThan_subset_iff subset_trans)
qed

text \<open>C1: a stream is delivered: in every interleaving of a sender and a receiver over a network that
  loses, repeats and reorders frames, the receiver has read a prefix of what the sender wrote and hears
  of the end only after all of it; once everything is sent and every frame has arrived, a large enough
  read delivers the rest.\<close>

theorem stream_delivered:
  assumes "transfer_step\<^sup>*\<^sup>* (([], sd_new max_data, {}, {}), [], {}, rv_new limit window) ((w, s, F, A), out, R, r)"
    and "unat max_data < 2 ^ 62"
  shows "out = take (length out) w
    \<and> (\<forall>cap d f r'. rv_read cap r = (Ok (d, f), r') \<longrightarrow> out @ d = take (length (out @ d)) w \<and> (f \<longrightarrow> out @ d = w))
    \<and> (\<forall>cap. \<not> sd_ready s \<longrightarrow> \<Union> (frame_offs ` F) \<subseteq> R \<longrightarrow> length out < length w \<longrightarrow> length w \<le> length out + cap \<longrightarrow>
         (\<exists>f r'. rv_read cap r = (Ok (drop (length out) w, f), r')))"
proof -
  have inv: "sending (w, s, F, A)" "reassembly w (out, R, r)" using transfer_invariant [OF assms] by auto
  have pre: "o' = take (length o') w" if "reassembly w (o', R, r')" for o' r'
    using that by (auto simp: reassembly_def)
  have "\<exists>f r'. rv_read cap r = (Ok (drop (length out) w, f), r')"
    if c: "\<not> sd_ready s" "\<Union> (frame_offs ` F) \<subseteq> R" "length out < length w" "length w \<le> length out + cap" for cap
  proof (rule reassembly_complete [OF inv(2) _ c(3,4)])
    show "{..< length w} \<subseteq> R" using all_sent [OF inv(1) c(1)] c(2) by blast
  qed
  then show ?thesis
    using pre [OF inv(2)] pre [OF reassembly_read(1) [OF inv(2)]] reassembly_read(2) [OF inv(2)] by blast
qed

theorem stream_delivered_witness:
  "\<exists>s F R r. transfer_step\<^sup>*\<^sup>* (([], sd_new 10, {}, {}), [], {}, rv_new 20 40) (([1, 2, 3], s, F, {}), [], R, r) \<and> R \<noteq> {}
     \<and> (\<forall>cap d f r'. rv_read cap r = (Ok (d, f), r') \<longrightarrow> d = take (length d) [1, 2, 3])"
proof -
  obtain d fin s where r: "send_step\<^sup>*\<^sup>* ([], sd_new 10, {}, {}) ([1, 2, 3], s, {(0, d, fin)}, {})" "d \<noteq> []"
    using short_run by blast
  let ?S = "([1, 2, 3], s, {(0, d, fin)}, {})"
  have "transfer_step\<^sup>*\<^sup>* (([], sd_new 10, {}, {}), [], {}, rv_new 20 40) (S, [], {}, rv_new 20 40)"
    if "send_step\<^sup>*\<^sup>* ([], sd_new 10, {}, {}) S" for S
    using that by (induction rule: rtranclp_induct) (auto intro: rtranclp.rtrancl_into_rtrancl at_sender)
  from this [OF r(1)] have sent: "transfer_step\<^sup>*\<^sup>* (([], sd_new 10, {}, {}), [], {}, rv_new 20 40) (?S, [], {}, rv_new 20 40)" .
  have "sending ?S" by (rule sending_steps [OF r(1)]) simp
  then have "length d \<le> unat (sd_unsent_off s)" "unat (sd_unsent_off s) \<le> 3"
    by (auto simp: sending_def frame_ok_def sd_ok_def word_le_nat_alt)
  then have d: "length d \<le> 3" by simp
  have "rv_write 0 d fin (rv_new 20 40) = (Ok (), snd (rv_write 0 d fin (rv_new 20 40)))"
    by (subst rv_write_spec(1) [OF rv_ok_new]) (use d in \<open>auto simp: rv_new_def fc_new_def acceptable_def\<close>)
  then obtain r' where w: "rv_write 0 d fin (rv_new 20 40) = (Ok (), r')" by blast
  have run: "transfer_step\<^sup>*\<^sup>* (([], sd_new 10, {}, {}), [], {}, rv_new 20 40) (?S, [], {} \<union> frame_offs (0, d, fin), r')"
    by (rule rtranclp.rtrancl_into_rtrancl [OF sent], rule at_receiver, rule net_frame) (use w in simp_all)
  moreover have "{} \<union> frame_offs (0, d, fin) \<noteq> {}" using r(2) by (simp add: frame_offs_def)
  moreover have "\<forall>cap d f r''. rv_read cap r' = (Ok (d, f), r'') \<longrightarrow> d = take (length d) [1, 2, 3]"
    using stream_delivered [OF run] by simp
  ultimately show ?thesis by blast
qed

end
